(* ===== verification/Prelude.thy ===== *)
theory Prelude
  imports Complex_Main "HOL-Library.AList" "HOL-Library.Sublist" "HOL-Library.Multiset"
begin

text \<open>
  What the theories of this development share: the JavaScript values and strings the program
  computes with, the insertion-ordered maps it keeps its state in, and the generic facts about
  lists and maps the component proofs rest on.

  Conventions. A JavaScript string is a list of characters. A JavaScript \<open>Map\<close> is an association
  list with distinct keys in insertion order: \<open>map_of\<close> is \<open>get\<close>, \<open>AList.update\<close> is \<open>set\<close> (a present
  key keeps its place, a new key goes to the end) and \<open>AList.delete\<close> is \<open>delete\<close>. A value of type
  \<open>unknown\<close> is a \<open>js_value\<close>; an optional property is an \<open>option\<close>.
\<close>

named_theorems string_rules \<open>rules about the string operations of the language\<close>
named_theorems jmap_simps \<open>rules about insertion-ordered maps\<close>

section \<open>Values of unknown type\<close>

datatype js_value =
    JUndefined
  | JNull
  | JBool bool
  | JNumber rat
  | JNaN
  | JInfinity bool
  | JString string
  | JArray "js_value list"
  | JObject "(string \<times> js_value) list"

fun js_property :: "js_value \<Rightarrow> string \<Rightarrow> js_value" where
  "js_property (JObject fs) k = (case map_of fs k of None \<Rightarrow> JUndefined | Some v \<Rightarrow> v)"
| "js_property _ k = JUndefined"

text \<open>\<open>typeof v === "object" \&\& v !== null \&\& !Array.isArray(v)\<close>\<close>

fun isRecord :: "js_value \<Rightarrow> bool" where
  "isRecord (JObject _) = True"
| "isRecord _ = False"

fun js_string :: "js_value \<Rightarrow> string option" where
  "js_string (JString s) = Some s"
| "js_string _ = None"

text \<open>\<open>a ?? b\<close> on values.\<close>

definition js_nullish :: "js_value \<Rightarrow> js_value \<Rightarrow> js_value" where
  "js_nullish a b = (if a = JUndefined \<or> a = JNull then b else a)"

text \<open>\<open>Boolean(v)\<close>\<close>

fun js_truthy :: "js_value \<Rightarrow> bool" where
  "js_truthy JUndefined = False"
| "js_truthy JNull = False"
| "js_truthy (JBool b) = b"
| "js_truthy (JNumber r) = (r \<noteq> 0)"
| "js_truthy JNaN = False"
| "js_truthy (JInfinity _) = True"
| "js_truthy (JString s) = (s \<noteq> [])"
| "js_truthy (JArray _) = True"
| "js_truthy (JObject _) = True"

section \<open>Strings\<close>

text \<open>White space as \<open>trim\<close> and \<open>\<backslash>s\<close> see it, on code units below 256.\<close>

definition is_ws :: "char \<Rightarrow> bool" where
  "is_ws c \<longleftrightarrow> (let n = of_char c :: nat in (9 \<le> n \<and> n \<le> 13) \<or> n = 32 \<or> n = 160)"

definition trimStart :: "string \<Rightarrow> string" where
  "trimStart s = dropWhile is_ws s"

definition trimEnd :: "string \<Rightarrow> string" where
  "trimEnd s = rev (dropWhile is_ws (rev s))"

definition trim :: "string \<Rightarrow> string" where
  "trim s = trimEnd (trimStart s)"

definition startsWith :: "string \<Rightarrow> string \<Rightarrow> bool" where
  "startsWith s p = prefix p s"

fun str_includes :: "string \<Rightarrow> string \<Rightarrow> bool" where
  "str_includes [] p = (p = [])"
| "str_includes (c # s) p = (prefix p (c # s) \<or> str_includes s p)"

definition lower_char :: "char \<Rightarrow> char" where
  "lower_char c = (let n = of_char c :: nat in if 65 \<le> n \<and> n \<le> 90 then char_of (n + 32) else c)"

definition toLowerCase :: "string \<Rightarrow> string" where
  "toLowerCase s = map lower_char s"

text \<open>\<open>s.split(c)\<close> for a one-character separator: never the empty list.\<close>

fun split_char :: "char \<Rightarrow> string \<Rightarrow> string list" where
  "split_char d [] = [[]]"
| "split_char d (c # s) =
     (if c = d then [] # split_char d s
      else (case split_char d s of [] \<Rightarrow> [[c]] | w # ws \<Rightarrow> (c # w) # ws))"

text \<open>\<open>parts.join(sep)\<close>\<close>

fun join :: "string \<Rightarrow> string list \<Rightarrow> string" where
  "join sep [] = []"
| "join sep [x] = x"
| "join sep (x # y # xs) = x @ sep @ join sep (y # xs)"

lemma trimStart_idem [simp]: "trimStart (trimStart s) = trimStart s"
  by (simp add: trimStart_def)

lemma trimEnd_idem [simp]: "trimEnd (trimEnd s) = trimEnd s"
  by (simp add: trimEnd_def)

lemma trimEnd_prefix: "prefix (trimEnd s) s"
proof -
  have "rev s = takeWhile is_ws (rev s) @ dropWhile is_ws (rev s)" by simp
  then have "s = rev (dropWhile is_ws (rev s)) @ rev (takeWhile is_ws (rev s))"
    by (metis rev_append rev_rev_ident)
  then show ?thesis unfolding trimEnd_def prefix_def by blast
qed

lemma trimEnd_last: "trimEnd s \<noteq> [] \<Longrightarrow> \<not> is_ws (last (trimEnd s))"
  unfolding trimEnd_def by (metis hd_dropWhile last_rev rev_is_Nil_conv)

lemma trimEnd_id_iff: "trimEnd s = s \<longleftrightarrow> s = [] \<or> \<not> is_ws (last s)"
proof (cases "s = []")
  case True
  then show ?thesis by (simp add: trimEnd_def)
next
  case False
  then obtain a b where s: "s = a @ [b]" by (metis append_butlast_last_id)
  have "trimEnd s = s" if "\<not> is_ws b" using that by (simp add: trimEnd_def s)
  moreover have "\<not> is_ws b" if "trimEnd s = s"
    using trimEnd_last[of s] that False s by simp
  ultimately show ?thesis using s by auto
qed

lemma trimStart_id_iff: "trimStart s = s \<longleftrightarrow> s = [] \<or> \<not> is_ws (hd s)"
  unfolding trimStart_def by (metis dropWhile_eq_self_iff)

lemma trim_hd: "trim s \<noteq> [] \<Longrightarrow> \<not> is_ws (hd (trim s))"
proof -
  assume ne: "trim s \<noteq> []"
  have "hd (trim s) = hd (trimStart s)"
    using trimEnd_prefix[of "trimStart s"] ne unfolding trim_def prefix_def by (metis hd_append2)
  moreover have "trimStart s \<noteq> []"
    using ne by (auto simp: trim_def trimEnd_def)
  ultimately show ?thesis unfolding trimStart_def by (metis hd_dropWhile)
qed

lemma trim_id_iff: "trim s = s \<longleftrightarrow> s = [] \<or> (\<not> is_ws (hd s) \<and> \<not> is_ws (last s))"
proof
  assume t: "trim s = s"
  then show "s = [] \<or> (\<not> is_ws (hd s) \<and> \<not> is_ws (last s))"
    using trim_hd[of s] trimEnd_last[of "trimStart s"] by (auto simp: trim_def)
next
  assume "s = [] \<or> (\<not> is_ws (hd s) \<and> \<not> is_ws (last s))"
  then show "trim s = s"
    by (metis trimEnd_id_iff trimStart_id_iff trim_def)
qed

lemma trim_Nil [simp]: "trim [] = []"
  by (simp add: trim_def trimStart_def trimEnd_def)

lemma trim_idem [simp]: "trim (trim s) = trim s"
proof (cases "trim s = []")
  case True
  then show ?thesis by simp
next
  case False
  then show ?thesis
    using trim_hd[OF False] trimEnd_last[of "trimStart s"]
    by (subst trim_id_iff) (simp add: trim_def)
qed

lemma split_char_not_Nil [simp]: "split_char d s \<noteq> []"
  by (induction s) (auto split: list.splits)

lemma join_split_char [string_rules]: "join [d] (split_char d s) = s"
proof (induction s)
  case Nil
  then show ?case by simp
next
  case (Cons c s)
  obtain w ws where ws: "split_char d s = w # ws"
    by (metis neq_Nil_conv split_char_not_Nil)
  show ?case
    using Cons ws by (cases ws) auto
qed

lemma split_char_no_sep [string_rules]: "w \<in> set (split_char d s) \<Longrightarrow> d \<notin> set w"
  by (induction s arbitrary: w) (fastforce split: if_splits list.splits)+

section \<open>Numbers in strings\<close>

definition digit :: "nat \<Rightarrow> char" where
  "digit n = char_of (48 + n)"

text \<open>\<open>String(n)\<close> of a natural number.\<close>

fun show_nat :: "nat \<Rightarrow> string" where
  "show_nat n = (if n < 10 then [digit n] else show_nat (n div 10) @ [digit (n mod 10)])"

declare show_nat.simps [simp del]

definition show_int :: "int \<Rightarrow> string" where
  "show_int i = (if i < 0 then CHR ''-'' # show_nat (nat (- i)) else show_nat (nat i))"

definition digit_val :: "char \<Rightarrow> nat" where
  "digit_val c = of_char c - 48"

definition read_nat :: "string \<Rightarrow> nat" where
  "read_nat s = foldl (\<lambda>a c. 10 * a + digit_val c) 0 s"

lemma digit_val_digit [simp]: "n < 10 \<Longrightarrow> digit_val (digit n) = n"
  by (simp add: digit_val_def digit_def)

lemma read_show_nat [simp]: "read_nat (show_nat n) = n"
proof (induction n rule: show_nat.induct)
  case (1 n)
  show ?case
  proof (cases "n < 10")
    case True
    then show ?thesis by (subst show_nat.simps) (simp add: read_nat_def)
  next
    case False
    with "1.IH" have "read_nat (show_nat (n div 10)) = n div 10" by simp
    with False show ?thesis by (subst show_nat.simps) (simp add: read_nat_def)
  qed
qed

lemma show_nat_inject [simp]: "show_nat m = show_nat n \<longleftrightarrow> m = n"
  by (metis read_show_nat)

section \<open>Lists\<close>

text \<open>\<open>xs.slice(-n)\<close> for \<open>n > 0\<close>: the last \<open>n\<close> elements.\<close>

definition slice_last :: "nat \<Rightarrow> 'a list \<Rightarrow> 'a list" where
  "slice_last n xs = drop (length xs - n) xs"

text \<open>\<open>xs.findIndex(p)\<close>, \<open>None\<close> for -1.\<close>

fun find_index :: "('a \<Rightarrow> bool) \<Rightarrow> 'a list \<Rightarrow> nat option" where
  "find_index p [] = None"
| "find_index p (x # xs) = (if p x then Some 0 else map_option Suc (find_index p xs))"

text \<open>The elements in order, each kept at its first occurrence: insertion into a \<open>Set\<close>.\<close>

fun dedupe_from :: "'a list \<Rightarrow> 'a list \<Rightarrow> 'a list" where
  "dedupe_from seen [] = []"
| "dedupe_from seen (x # xs) =
     (if x \<in> set seen then dedupe_from seen xs else x # dedupe_from (x # seen) xs)"

definition dedupe :: "'a list \<Rightarrow> 'a list" where
  "dedupe xs = dedupe_from [] xs"

lemma set_dedupe_from: "set (dedupe_from seen xs) = set xs - set seen"
  by (induction seen xs rule: dedupe_from.induct) auto

lemma set_dedupe [simp]: "set (dedupe xs) = set xs"
  by (simp add: dedupe_def set_dedupe_from)

lemma distinct_dedupe_from: "distinct (dedupe_from seen xs)"
  by (induction seen xs rule: dedupe_from.induct) (auto simp: set_dedupe_from)

lemma distinct_dedupe [simp]: "distinct (dedupe xs)"
  by (simp add: dedupe_def distinct_dedupe_from)

lemma dedupe_from_id: "distinct xs \<Longrightarrow> set xs \<inter> set seen = {} \<Longrightarrow> dedupe_from seen xs = xs"
  by (induction xs arbitrary: seen) auto

lemma dedupe_from_cong: "set seen = set seen' \<Longrightarrow> dedupe_from seen xs = dedupe_from seen' xs"
proof (induction xs arbitrary: seen seen')
  case (Cons x xs)
  have "dedupe_from (x # seen) xs = dedupe_from (x # seen') xs" by (rule Cons.IH) (simp add: Cons.prems)
  then show ?case using Cons.IH [OF Cons.prems] Cons.prems by simp
qed simp

lemma dedupe_id [simp]: "distinct xs \<Longrightarrow> dedupe xs = xs"
  by (simp add: dedupe_def dedupe_from_id)

lemma find_index_Some: "find_index p xs = Some i \<Longrightarrow> i < length xs \<and> p (xs ! i) \<and> (\<forall>j<i. \<not> p (xs ! j))"
proof (induction xs arbitrary: i)
  case Nil
  then show ?case by simp
next
  case (Cons x xs)
  then show ?case
    by (cases i) (auto split: if_splits simp: nth_Cons split: nat.splits)
qed

lemma find_index_None: "find_index p xs = None \<longleftrightarrow> (\<forall>x\<in>set xs. \<not> p x)"
  by (induction xs) auto

lemma find_Some_in: "find p xs = Some x \<Longrightarrow> x \<in> set xs \<and> p x"
  by (metis find_Some_iff nth_mem)

section \<open>Insertion-ordered maps\<close>

abbreviation jget :: "('k \<times> 'v) list \<Rightarrow> 'k \<Rightarrow> 'v option" where
  "jget m k \<equiv> map_of m k"

abbreviation jset :: "'k \<Rightarrow> 'v \<Rightarrow> ('k \<times> 'v) list \<Rightarrow> ('k \<times> 'v) list" where
  "jset \<equiv> AList.update"

abbreviation jdelete :: "'k \<Rightarrow> ('k \<times> 'v) list \<Rightarrow> ('k \<times> 'v) list" where
  "jdelete \<equiv> AList.delete"

abbreviation jkeys :: "('k \<times> 'v) list \<Rightarrow> 'k list" where
  "jkeys m \<equiv> map fst m"

definition jhas :: "('k \<times> 'v) list \<Rightarrow> 'k \<Rightarrow> bool" where
  "jhas m k \<longleftrightarrow> map_of m k \<noteq> None"

lemma jhas_iff [jmap_simps]: "jhas m k \<longleftrightarrow> k \<in> set (jkeys m)"
  by (auto simp: jhas_def map_of_eq_None_iff)

lemma jget_jset [jmap_simps]: "jget (jset k v m) j = (if j = k then Some v else jget m j)"
  by (simp add: update_conv')

lemma jget_jdelete [jmap_simps]: "jget (jdelete k m) j = (if j = k then None else jget m j)"
  by (simp add: delete_conv')

lemma jkeys_jset [jmap_simps]:
  "jkeys (jset k v m) = (if k \<in> set (jkeys m) then jkeys m else jkeys m @ [k])"
  by (rule update_keys)

lemma jkeys_jdelete [jmap_simps]: "jkeys (jdelete k m) = filter (\<lambda>j. j \<noteq> k) (jkeys m)"
  by (induction m) (auto simp: AList.delete_eq)

lemma jset_new [jmap_simps]: "k \<notin> set (jkeys m) \<Longrightarrow> jset k v m = m @ [(k, v)]"
  by (induction m) auto

lemma set_jset: "set (jset k v m) \<subseteq> insert (k, v) (set m)"
  by (induction m) auto

lemma distinct_jset [simp, intro]: "distinct (jkeys m) \<Longrightarrow> distinct (jkeys (jset k v m))"
  by (rule distinct_update)

lemma distinct_jdelete [simp, intro]: "distinct (jkeys m) \<Longrightarrow> distinct (jkeys (jdelete k m))"
  by (simp add: jkeys_jdelete)

lemma length_jdelete:
  "distinct (jkeys m) \<Longrightarrow> k \<in> set (jkeys m) \<Longrightarrow> Suc (length (jdelete k m)) = length m"
proof (induction m)
  case Nil
  then show ?case by simp
next
  case (Cons p m)
  show ?case
  proof (cases "fst p = k")
    case True
    with Cons.prems(1) have "k \<notin> fst ` set m" by auto
    with True show ?thesis by (simp add: delete_id)
  next
    case False
    with Cons show ?thesis by auto
  qed
qed


section \<open>Sorting\<close>

text \<open>\<open>Array.prototype.sort\<close> is stable: the result for a consistent comparator is that of insertion.\<close>

fun insert_by :: "('a \<Rightarrow> 'a \<Rightarrow> bool) \<Rightarrow> 'a \<Rightarrow> 'a list \<Rightarrow> 'a list" where
  "insert_by le x [] = [x]"
| "insert_by le x (y # ys) = (if le x y then x # y # ys else y # insert_by le x ys)"

definition sort_by :: "('a \<Rightarrow> 'a \<Rightarrow> bool) \<Rightarrow> 'a list \<Rightarrow> 'a list" where
  "sort_by le xs = foldr (insert_by le) xs []"

lemma mset_insert_by [simp]: "mset (insert_by le x xs) = add_mset x (mset xs)"
  by (induction xs) auto

lemma set_insert_by [simp]: "set (insert_by le x xs) = insert x (set xs)"
  by (induction xs) auto

lemma mset_sort_by [simp]: "mset (sort_by le xs) = mset xs"
  by (induction xs) (auto simp: sort_by_def)

lemma set_sort_by [simp]: "set (sort_by le xs) = set xs"
  by (metis mset_sort_by set_mset_mset)

lemma distinct_sort_by [simp]: "distinct (sort_by le xs) = distinct xs"
  by (metis mset_sort_by mset_eq_imp_distinct_iff)

section \<open>Transition systems\<close>

text \<open>A system of steps with an invariant that the start establishes and every step keeps.\<close>

locale transition_system =
  fixes start :: "'s"
    and step :: "'s \<Rightarrow> 's \<Rightarrow> bool"
    and invar :: "'s \<Rightarrow> bool"
  assumes invar_start: "invar start"
    and invar_step: "invar s \<Longrightarrow> step s s' \<Longrightarrow> invar s'"
begin

lemma invar_run: "step\<^sup>*\<^sup>* s s' \<Longrightarrow> invar s \<Longrightarrow> invar s'"
  by (induction rule: rtranclp_induct) (auto intro: invar_step)

lemma invar_reachable: "step\<^sup>*\<^sup>* start s \<Longrightarrow> invar s"
  using invar_run invar_start by blast

end

text \<open>One in which moreover every step lowers a bound, so that a run is no longer than the bound of its start.\<close>

locale bounded_system = transition_system +
  fixes bound :: "'a \<Rightarrow> nat"
  assumes bound_step: "invar s \<Longrightarrow> step s s' \<Longrightarrow> bound s' < bound s"
begin

lemma run_length: "(step ^^ k) s s' \<Longrightarrow> invar s \<Longrightarrow> k + bound s' \<le> bound s"
proof (induction k arbitrary: s)
  case (Suc k)
  obtain u where u: "step s u" "(step ^^ k) u s'" using Suc.prems(1) by (rule relpowp_Suc_E2)
  then have "k + bound s' \<le> bound u" using Suc.IH invar_step Suc.prems(2) by blast
  then show ?case using bound_step [OF Suc.prems(2) u(1)] by linarith
qed simp

end

text \<open>If moreover only the ends are stuck, it always comes to an end.\<close>

locale terminating_system = bounded_system +
  fixes ended :: "'a \<Rightarrow> bool"
  assumes progress: "invar s \<Longrightarrow> \<not> ended s \<Longrightarrow> \<exists>s'. step s s'"
begin

lemma reaches_end: "invar s \<Longrightarrow> \<exists>s'. step\<^sup>*\<^sup>* s s' \<and> ended s'"
proof (induction "bound s" arbitrary: s rule: less_induct)
  case less
  show ?case
  proof (cases "ended s")
    case False
    then obtain u where u: "step s u" using progress less.prems by blast
    then obtain s' where "step\<^sup>*\<^sup>* u s'" "ended s'"
      using less.hyps [OF bound_step [OF less.prems u]] invar_step [OF less.prems u] by blast
    then show ?thesis using u by (meson converse_rtranclp_into_rtranclp)
  qed blast
qed

end

end
