(* ===== verification/Canonical.thy ===== *)
theory Canonical
  imports Prelude
begin

text \<open>
  The canonical message model of \<open>src/model/protocol\<close>: what every component of the agent loop,
  the context runtime and the router passes around, whatever the provider. Blocks, messages,
  stream events, usage and errors of \<open>canonical.ts\<close> and \<open>errors.ts\<close>; the test for a task-bearing
  user message (\<open>userRequest.ts\<close>); the textual form of tool results (\<open>toolResultContent.ts\<close>).

  The \<open>timeline\<close> of a block, display coordinates that no component below reads, is left out.
\<close>

section \<open>Blocks and messages\<close>

datatype role = User | Assistant

datatype media_source = Base64 | Url

record image_data =
  img_source :: media_source
  img_data :: string
  img_mimeType :: string
  img_bytes :: "int option"
  img_detail :: "string option"

record pdf_data =
  pdf_data :: string
  pdf_mimeType :: string
  pdf_bytes :: int
  pdf_pages :: "int option"

record audio_data =
  aud_source :: media_source
  aud_data :: string
  aud_mimeType :: string
  aud_bytes :: "int option"
  aud_durationSeconds :: "rat option"

record tool_call =
  tc_id :: string
  tc_name :: string
  tc_input :: js_value
  tc_raw :: "js_value option"

datatype result_block =
    RText string "string option"
  | RImage image_data
  | RPdf pdf_data

record tool_result =
  tr_toolCallId :: string
  tr_content :: "result_block list"
  tr_isError :: "bool option"
  tr_raw :: "js_value option"

record tool_result_reference =
  ref_toolCallId :: string
  ref_isError :: "bool option"
  ref_path :: string
  ref_readFilePath :: "string option"
  ref_originalBytes :: int
  ref_preview :: string
  ref_hasMore :: bool
  ref_mimeType :: "string option"
  ref_reason :: "string option"

record media_reference =
  mr_toolCallId :: "string option"
  mr_path :: string
  mr_originalBytes :: int
  mr_preview :: string
  mr_hasMore :: bool
  mr_mimeType :: string
  mr_mediaType :: string
  mr_pages :: "int option"
  mr_detail :: "string option"
  mr_reason :: "string option"

record thinking_data =
  th_text :: string
  th_blockId :: "string option"
  th_signature :: "string option"
  th_reasoningContent :: "string option"

datatype block =
    TextB string "string option"
  | ThinkingB thinking_data
  | ImageB image_data
  | PdfB pdf_data
  | AudioB audio_data
  | ToolCallB tool_call
  | ToolResultB tool_result
  | ToolResultRefB tool_result_reference
  | MediaRefB media_reference

record message_metadata =
  md_model :: "string option"
  md_synthetic :: "bool option"
  md_transient :: "bool option"
  md_transientId :: "string option"
  md_toolCallId :: "string option"
  md_compactReplacement :: "bool option"
  md_compactSnapshotId :: "string option"
  md_purpose :: "string option"
  md_queueItemId :: "string option"
  md_forkCarryover :: "(string \<times> string option) option"

record message =
  role :: role
  content :: "block list"
  metadata :: "message_metadata option"

definition empty_metadata :: message_metadata where
  "empty_metadata = \<lparr>md_model = None, md_synthetic = None, md_transient = None,
     md_transientId = None, md_toolCallId = None, md_compactReplacement = None,
     md_compactSnapshotId = None, md_purpose = None, md_queueItemId = None,
     md_forkCarryover = None\<rparr>"

abbreviation text_block :: "string \<Rightarrow> block" where
  "text_block t \<equiv> TextB t None"

abbreviation plain_message :: "role \<Rightarrow> block list \<Rightarrow> message" where
  "plain_message r bs \<equiv> \<lparr>role = r, content = bs, metadata = None\<rparr>"

section \<open>Events, usage and errors\<close>

record usage =
  inputTokens :: "int option"
  outputTokens :: "int option"
  cacheReadTokens :: "int option"
  cacheWriteTokens :: "int option"
  totalTokens :: "int option"
  nativeCost :: "rat option"

definition empty_usage :: usage where
  "empty_usage = \<lparr>inputTokens = None, outputTokens = None, cacheReadTokens = None,
     cacheWriteTokens = None, totalTokens = None, nativeCost = None\<rparr>"

datatype finish_reason =
  FinStop | FinLength | FinToolCall | FinContentFilter | FinError | FinUnknown

text \<open>Where a stream broke off: the phase, and for tool calls the id, name and argument length of each open one.\<close>

datatype interruption =
    InToolCall "(string \<times> string \<times> nat) list"
  | InText
  | InReasoning
  | InNothing

record model_error =
  err_provider :: string
  err_model :: "string option"
  err_code :: string
  err_message :: string
  err_retryable :: bool
  err_recoverableViaCompact :: "bool option"
  err_recoverableViaImageStrip :: "bool option"
  err_retryAfterMs :: "int option"
  err_maxContextTokens :: "rat option"
  err_maxOutputTokens :: "rat option"
  err_availableOutputTokens :: "rat option"
  err_streamInterruption :: "interruption option"

datatype model_event =
    RequestStarted string string
  | MessageStart
  | TextDelta string
  | ThinkingDelta string "string option" "string option" \<comment> \<open>text, signature, reasoningContent\<close>
  | ToolCallStart string string
  | ToolCallDelta string string
  | ToolCallEnd tool_call bool
  | MessageEnd finish_reason
  | UsageEvent usage
  | ErrorEvent model_error

section \<open>What a block is\<close>

fun isDirectToolResultBlock :: "block \<Rightarrow> bool" where
  "isDirectToolResultBlock (ToolResultB _) = True"
| "isDirectToolResultBlock (ToolResultRefB _) = True"
| "isDirectToolResultBlock _ = False"

fun isMediaReferenceWithId :: "block \<Rightarrow> bool" where
  "isMediaReferenceWithId (MediaRefB m) = (case mr_toolCallId m of None \<Rightarrow> False | Some i \<Rightarrow> i \<noteq> [])"
| "isMediaReferenceWithId _ = False"

fun isToolCallBlock :: "block \<Rightarrow> bool" where
  "isToolCallBlock (ToolCallB _) = True"
| "isToolCallBlock _ = False"

text \<open>\<open>block.toolCallId\<close>, on the blocks that carry one.\<close>

fun block_toolCallId :: "block \<Rightarrow> string" where
  "block_toolCallId (ToolResultB r) = tr_toolCallId r"
| "block_toolCallId (ToolResultRefB r) = ref_toolCallId r"
| "block_toolCallId (MediaRefB m) = (case mr_toolCallId m of None \<Rightarrow> [] | Some i \<Rightarrow> i)"
| "block_toolCallId _ = []"

fun tool_call_ids :: "block list \<Rightarrow> string list" where
  "tool_call_ids [] = []"
| "tool_call_ids (ToolCallB c # bs) = tc_id c # tool_call_ids bs"
| "tool_call_ids (_ # bs) = tool_call_ids bs"

definition result_ids :: "block list \<Rightarrow> string list" where
  "result_ids bs = map block_toolCallId (filter isDirectToolResultBlock bs)"

lemma tool_call_ids_append [simp]: "tool_call_ids (xs @ ys) = tool_call_ids xs @ tool_call_ids ys"
  by (induction xs rule: tool_call_ids.induct) auto

lemma in_tool_call_ids: "i \<in> set (tool_call_ids bs) \<longleftrightarrow> (\<exists>c. ToolCallB c \<in> set bs \<and> tc_id c = i)"
  by (induction bs rule: tool_call_ids.induct) auto

lemma result_ids_append [simp]: "result_ids (xs @ ys) = result_ids xs @ result_ids ys"
  by (simp add: result_ids_def)

lemma result_ids_Nil [simp]: "result_ids [] = []"
  by (simp add: result_ids_def)

lemma tool_call_not_result [simp]: "isToolCallBlock b \<Longrightarrow> \<not> isDirectToolResultBlock b"
  by (cases b) auto

lemma in_result_ids:
  "i \<in> set (result_ids bs) \<longleftrightarrow> (\<exists>b\<in>set bs. isDirectToolResultBlock b \<and> block_toolCallId b = i)"
  by (auto simp: result_ids_def)

section \<open>Task-bearing user messages\<close>

definition COMPACTION_CONTINUATION_TEXT :: string where
  "COMPACTION_CONTINUATION_TEXT =
     ''[system: the conversation above has been compacted. please continue with the current task.]''"

definition INTERNAL_USER_TEXT_PREFIXES :: "string list" where
  "INTERNAL_USER_TEXT_PREFIXES =
     [''<compact-boundary'', ''<snip-boundary'', ''<memory-context>'',
      ''<internal-compaction-control'', ''<hook_context'']"

fun isRealUserRequestBlock :: "block \<Rightarrow> bool" where
  "isRealUserRequestBlock (TextB t _) =
     (let text = trim t
      in text \<noteq> [] \<and> text \<noteq> COMPACTION_CONTINUATION_TEXT
         \<and> \<not> list_ex (startsWith text) INTERNAL_USER_TEXT_PREFIXES)"
| "isRealUserRequestBlock b = (\<not> (isDirectToolResultBlock b \<or> isMediaReferenceWithId b))"

definition isRealUserRequestMessage :: "message \<Rightarrow> bool" where
  "isRealUserRequestMessage m \<longleftrightarrow>
     \<not> (role m \<noteq> User \<or> (case metadata m of None \<Rightarrow> False | Some md \<Rightarrow> md_synthetic md = Some True))
     \<and> list_ex isRealUserRequestBlock (content m)"

section \<open>The text of tool results\<close>

fun toolResultContentBlockToText :: "result_block \<Rightarrow> string" where
  "toolResultContentBlockToText (RText t _) = t"
| "toolResultContentBlockToText (RImage i) =
     (if img_source i = Url
      then ''[Image: '' @ img_mimeType i @ '', '' @ img_data i @ '']''
      else ''[Image: '' @ img_mimeType i @ '', '' @ show_nat (length (img_data i)) @ '' base64 characters]'')"
| "toolResultContentBlockToText (RPdf p) =
     ''[PDF: '' @ pdf_mimeType p @ '', '' @ show_nat (length (pdf_data p)) @ '' base64 characters''
     @ (case pdf_pages p of None \<Rightarrow> [] | Some n \<Rightarrow> if n \<noteq> 0 then '', '' @ show_int n @ '' pages'' else [])
     @ '']''"

definition flattenToolResultContentText :: "result_block list \<Rightarrow> string" where
  "flattenToolResultContentText bs = join [CHR 0x0A] (map toolResultContentBlockToText bs)"

definition flattenToolResultBlockText :: "tool_result \<Rightarrow> string" where
  "flattenToolResultBlockText r = flattenToolResultContentText (tr_content r)"

section \<open>Adding up usage\<close>

definition add_tokens :: "int option \<Rightarrow> int option \<Rightarrow> int option" where
  "add_tokens a b =
     (if a = None \<and> b = None then None
      else Some ((case a of None \<Rightarrow> 0 | Some n \<Rightarrow> n) + (case b of None \<Rightarrow> 0 | Some n \<Rightarrow> n)))"

definition mergeUsage :: "usage \<Rightarrow> usage \<Rightarrow> usage" where
  "mergeUsage a b =
     \<lparr>inputTokens = add_tokens (inputTokens a) (inputTokens b),
      outputTokens = add_tokens (outputTokens a) (outputTokens b),
      cacheReadTokens = add_tokens (cacheReadTokens a) (cacheReadTokens b),
      cacheWriteTokens = add_tokens (cacheWriteTokens a) (cacheWriteTokens b),
      totalTokens = add_tokens (totalTokens a) (totalTokens b),
      nativeCost = None\<rparr>"

lemma add_tokens_assoc: "add_tokens (add_tokens a b) c = add_tokens a (add_tokens b c)"
  by (auto simp: add_tokens_def split: option.splits)

lemma add_tokens_commute: "add_tokens a b = add_tokens b a"
  by (auto simp: add_tokens_def split: option.splits)

lemma add_tokens_None [simp]: "add_tokens None a = a" "add_tokens a None = a"
  by (auto simp: add_tokens_def split: option.splits)

lemma mergeUsage_assoc: "mergeUsage (mergeUsage a b) c = mergeUsage a (mergeUsage b c)"
  by (simp add: mergeUsage_def add_tokens_assoc)

end
