(* ===== verification/ToolPairing.thy ===== *)
theory ToolPairing
  imports Canonical
begin

text \<open>
  Tool calls and their results: the repairs that keep a history acceptable to the providers, which
  reject a call without a result and a result without a call. The integrity helpers of
  \<open>context/compaction/toolPairIntegrity.ts\<close>, the scrub of a forked history
  (\<open>agent/sub/filterIncompleteToolCalls.ts\<close>), the pairing of executed calls with their results
  (\<open>agent/loop/ensureToolResultPairing.ts\<close>) and their projection to messages
  (\<open>projectToolResults.ts\<close>, \<open>tool/protocol/result.ts\<close>).

  A \<open>Set\<close> of ids is the duplicate-free list of its elements in insertion order.
\<close>

section \<open>Collecting ids, dropping unpaired blocks\<close>

definition collectToolCallIds :: "message list \<Rightarrow> string list" where
  "collectToolCallIds ms =
     dedupe (concat (map (\<lambda>m. if role m \<noteq> Assistant then [] else tool_call_ids (content m)) ms))"

definition collectToolResultIds :: "message list \<Rightarrow> string list" where
  "collectToolResultIds ms =
     dedupe (concat (map (\<lambda>m. if role m \<noteq> User then [] else result_ids (content m)) ms))"

fun keep_call_block :: "string list \<Rightarrow> block \<Rightarrow> bool" where
  "keep_call_block ids (ToolCallB c) = (tc_id c \<in> set ids)"
| "keep_call_block ids _ = True"

definition stripUnpairedToolCalls :: "message list \<Rightarrow> string list \<Rightarrow> message list" where
  "stripUnpairedToolCalls ms pairedIds =
     filter (\<lambda>m. content m \<noteq> [])
       (map (\<lambda>m. if role m \<noteq> Assistant then m
                  else m\<lparr>content := filter (keep_call_block pairedIds) (content m)\<rparr>) ms)"

definition keep_result_block :: "string list \<Rightarrow> block \<Rightarrow> bool" where
  "keep_result_block ids b \<longleftrightarrow>
     (\<not> isDirectToolResultBlock b \<and> \<not> isMediaReferenceWithId b) \<or> block_toolCallId b \<in> set ids"

definition stripUnpairedToolResults :: "message list \<Rightarrow> string list \<Rightarrow> message list" where
  "stripUnpairedToolResults ms pairedIds =
     filter (\<lambda>m. content m \<noteq> [])
       (map (\<lambda>m. if role m \<noteq> User then m
                  else m\<lparr>content := filter (keep_result_block pairedIds) (content m)\<rparr>) ms)"

definition ensureTrailingUserMessage :: "message list \<Rightarrow> message list" where
  "ensureTrailingUserMessage ms =
     (if ms = [] then ms
      else if role (last ms) \<noteq> Assistant then ms
      else ms @ [plain_message User [text_block COMPACTION_CONTINUATION_TEXT]])"

definition filterIncompleteToolCalls :: "message list \<Rightarrow> message list" where
  "filterIncompleteToolCalls ms =
     (let completedIds = concat (map (\<lambda>m. result_ids (content m)) ms)
      in concat (map (\<lambda>m.
           if role m \<noteq> Assistant then [m]
           else (let filtered = filter (keep_call_block completedIds) (content m)
                 in if filtered = [] then [] else [plain_message Assistant filtered])) ms))"

text \<open>A history is paired when its calls and its results name the same ids.\<close>

definition paired :: "message list \<Rightarrow> bool" where
  "paired ms \<longleftrightarrow> set (collectToolCallIds ms) = set (collectToolResultIds ms)"

text \<open>Both strips at once, as the compaction engines use them.\<close>

definition strip_unpaired :: "message list \<Rightarrow> message list" where
  "strip_unpaired ms =
     (let withoutDanglingCalls = stripUnpairedToolCalls ms (collectToolResultIds ms)
      in stripUnpairedToolResults withoutDanglingCalls (collectToolCallIds withoutDanglingCalls))"

text \<open>The ids one message contributes.\<close>

definition calls_of :: "message \<Rightarrow> string set" where
  "calls_of m = (if role m = Assistant then set (tool_call_ids (content m)) else {})"

definition results_of :: "message \<Rightarrow> string set" where
  "results_of m = (if role m = User then set (result_ids (content m)) else {})"

lemma set_collectToolCallIds: "set (collectToolCallIds ms) = (\<Union>m\<in>set ms. calls_of m)"
  by (auto simp: collectToolCallIds_def calls_of_def split: if_splits)

lemma set_collectToolResultIds: "set (collectToolResultIds ms) = (\<Union>m\<in>set ms. results_of m)"
  by (auto simp: collectToolResultIds_def results_of_def split: if_splits)

lemma empty_no_ids: "content m = [] \<Longrightarrow> calls_of m = {}" "content m = [] \<Longrightarrow> results_of m = {}"
  by (auto simp: calls_of_def results_of_def)

lemma UN_nonempty_calls: "(\<Union>m\<in>set (filter (\<lambda>m. content m \<noteq> []) ms). calls_of m) = (\<Union>m\<in>set ms. calls_of m)"
  using empty_no_ids(1) by fastforce

lemma UN_nonempty_results: "(\<Union>m\<in>set (filter (\<lambda>m. content m \<noteq> []) ms). results_of m) = (\<Union>m\<in>set ms. results_of m)"
  using empty_no_ids(2) by fastforce

lemma keep_call_block_result [simp]: "isDirectToolResultBlock b \<Longrightarrow> keep_call_block ids b"
  by (cases b) auto

lemma keep_result_block_call [simp]: "keep_result_block ids (ToolCallB c)"
  by (simp add: keep_result_block_def)

lemma tool_call_ids_filter:
  "set (tool_call_ids (filter (keep_call_block ids) bs)) = set (tool_call_ids bs) \<inter> set ids"
  by (induction bs rule: tool_call_ids.induct) auto

lemma result_ids_filter:
  "set (result_ids (filter (keep_result_block ids) bs)) = set (result_ids bs) \<inter> set ids"
  by (auto simp: in_result_ids keep_result_block_def)

lemma result_ids_filter_calls: "result_ids (filter (keep_call_block ids) bs) = result_ids bs"
  by (induction bs) (auto simp: result_ids_def)

lemma tool_call_ids_filter_results: "tool_call_ids (filter (keep_result_block ids) bs) = tool_call_ids bs"
  by (induction bs rule: tool_call_ids.induct) (auto simp: keep_result_block_def)

lemma calls_after_strip_calls:
  "set (collectToolCallIds (stripUnpairedToolCalls ms ids)) = set (collectToolCallIds ms) \<inter> set ids"
  unfolding set_collectToolCallIds stripUnpairedToolCalls_def UN_nonempty_calls
  by (auto simp: calls_of_def tool_call_ids_filter split: if_splits)

lemma results_after_strip_calls:
  "set (collectToolResultIds (stripUnpairedToolCalls ms ids)) = set (collectToolResultIds ms)"
  unfolding set_collectToolResultIds stripUnpairedToolCalls_def UN_nonempty_results
  by (auto simp: results_of_def split: if_splits)

lemma results_after_strip_results:
  "set (collectToolResultIds (stripUnpairedToolResults ms ids)) = set (collectToolResultIds ms) \<inter> set ids"
  unfolding set_collectToolResultIds stripUnpairedToolResults_def UN_nonempty_results
  by (auto simp: results_of_def result_ids_filter split: if_splits)

lemma calls_after_strip_results:
  "set (collectToolCallIds (stripUnpairedToolResults ms ids)) = set (collectToolCallIds ms)"
  unfolding set_collectToolCallIds stripUnpairedToolResults_def UN_nonempty_calls
  by (auto simp: calls_of_def split: if_splits)

lemma calls_strip_unpaired:
  "set (collectToolCallIds (strip_unpaired ms)) = set (collectToolCallIds ms) \<inter> set (collectToolResultIds ms)"
  by (simp add: strip_unpaired_def Let_def calls_after_strip_results calls_after_strip_calls)

lemma results_strip_unpaired:
  "set (collectToolResultIds (strip_unpaired ms)) = set (collectToolCallIds ms) \<inter> set (collectToolResultIds ms)"
  by (auto simp: strip_unpaired_def Let_def results_after_strip_results results_after_strip_calls
      calls_after_strip_calls)

lemma paired_strip_unpaired: "paired (strip_unpaired ms)"
  by (simp add: paired_def calls_strip_unpaired results_strip_unpaired)

lemma paired_ensureTrailing: "paired ms \<Longrightarrow> paired (ensureTrailingUserMessage ms)"
  by (auto simp: paired_def ensureTrailingUserMessage_def set_collectToolCallIds
      set_collectToolResultIds calls_of_def results_of_def result_ids_def)

lemma ensureTrailing_last: "ms \<noteq> [] \<Longrightarrow> role (last (ensureTrailingUserMessage ms)) = User"
  by (cases "role (last ms)") (auto simp: ensureTrailingUserMessage_def)

lemma filter_keep_call_all: "set (tool_call_ids bs) \<subseteq> set ids \<Longrightarrow> filter (keep_call_block ids) bs = bs"
  by (induction bs rule: tool_call_ids.induct) auto


lemma filter_keep_result_all:
  "set (result_ids bs) \<subseteq> set ids \<Longrightarrow> \<forall>b\<in>set bs. isMediaReferenceWithId b \<longrightarrow> block_toolCallId b \<in> set ids \<Longrightarrow>
   filter (keep_result_block ids) bs = bs"
  by (rule filter_True) (fastforce simp: keep_result_block_def result_ids_def)

text \<open>A history that is already paired is left as it is.\<close>

lemma map_cong_id: "(\<And>x. x \<in> set xs \<Longrightarrow> f x = x) \<Longrightarrow> map f xs = xs"
  by (induction xs) auto

lemma message_content_id [simp]: "content m = bs \<Longrightarrow> m\<lparr>content := bs\<rparr> = m"
  by auto

lemma stripUnpairedToolCalls_id:
  assumes "set (collectToolCallIds ms) \<subseteq> set ids" and "\<forall>m\<in>set ms. content m \<noteq> []"
  shows "stripUnpairedToolCalls ms ids = ms"
proof -
  have "(if role m \<noteq> Assistant then m else m\<lparr>content := filter (keep_call_block ids) (content m)\<rparr>) = m"
    if "m \<in> set ms" for m
  proof (cases "role m = Assistant")
    case True
    with assms(1) that have "set (tool_call_ids (content m)) \<subseteq> set ids"
      by (auto simp: set_collectToolCallIds calls_of_def)
    then show ?thesis by (simp add: filter_keep_call_all)
  qed simp
  then have "map (\<lambda>m. if role m \<noteq> Assistant then m
      else m\<lparr>content := filter (keep_call_block ids) (content m)\<rparr>) ms = ms"
    by (rule map_cong_id)
  then show ?thesis using assms(2) by (simp add: stripUnpairedToolCalls_def)
qed

section \<open>The scrub of a forked history\<close>

definition all_result_ids :: "message list \<Rightarrow> string list" where
  "all_result_ids ms = concat (map (\<lambda>m. result_ids (content m)) ms)"

definition scrub_message :: "string list \<Rightarrow> message \<Rightarrow> message list" where
  "scrub_message ids m =
     (if role m \<noteq> Assistant then [m]
      else (let filtered = filter (keep_call_block ids) (content m)
            in if filtered = [] then [] else [plain_message Assistant filtered]))"

lemma filterIncompleteToolCalls_scrub:
  "filterIncompleteToolCalls ms = concat (map (scrub_message (all_result_ids ms)) ms)"
  by (simp add: filterIncompleteToolCalls_def scrub_message_def[abs_def] all_result_ids_def Let_def)

lemma all_result_ids_scrub_message: "all_result_ids (scrub_message ids m) = result_ids (content m)"
proof (cases "role m = Assistant")
  case True
  then show ?thesis
    by (auto simp: all_result_ids_def scrub_message_def Let_def result_ids_filter_calls)
       (metis result_ids_Nil result_ids_filter_calls)
qed (simp add: all_result_ids_def scrub_message_def)

lemma all_result_ids_concat: "all_result_ids (concat (map f ms)) = concat (map (\<lambda>m. all_result_ids (f m)) ms)"
  by (induction ms) (auto simp: all_result_ids_def)

lemma all_result_ids_scrubbed: "all_result_ids (filterIncompleteToolCalls ms) = all_result_ids ms"
  unfolding filterIncompleteToolCalls_scrub all_result_ids_concat all_result_ids_scrub_message
  by (simp add: all_result_ids_def)

lemma scrub_message_twice:
  "n \<in> set (scrub_message ids m) \<Longrightarrow> scrub_message ids n = [n]"
  by (auto simp: scrub_message_def Let_def split: if_splits)

lemma scrub_twice:
  "(\<And>n. n \<in> set ns \<Longrightarrow> scrub_message ids n = [n]) \<Longrightarrow> concat (map (scrub_message ids) ns) = ns"
  by (induction ns) auto

lemma filterIncomplete_idem:
  "filterIncompleteToolCalls (filterIncompleteToolCalls ms) = filterIncompleteToolCalls ms"
proof -
  have "concat (map (scrub_message (all_result_ids ms)) (filterIncompleteToolCalls ms))
      = filterIncompleteToolCalls ms"
    by (rule scrub_twice) (auto simp: filterIncompleteToolCalls_scrub scrub_message_twice)
  then show ?thesis
    by (subst (1) filterIncompleteToolCalls_scrub) (simp add: all_result_ids_scrubbed)
qed

lemma calls_of_scrub_message:
  "(\<Union>n\<in>set (scrub_message ids m). calls_of n) = calls_of m \<inter> set ids"
proof (cases "role m = Assistant")
  case True
  then show ?thesis
    by (auto simp: scrub_message_def Let_def calls_of_def simp flip: tool_call_ids_filter)
next
  case False
  then show ?thesis by (simp add: scrub_message_def calls_of_def)
qed

lemma calls_filterIncomplete:
  "set (collectToolCallIds (filterIncompleteToolCalls ms)) = set (collectToolCallIds ms) \<inter> set (all_result_ids ms)"
proof -
  have "set (collectToolCallIds (filterIncompleteToolCalls ms))
      = (\<Union>m\<in>set ms. \<Union>n\<in>set (scrub_message (all_result_ids ms) m). calls_of n)"
    unfolding set_collectToolCallIds filterIncompleteToolCalls_scrub by auto
  then show ?thesis
    unfolding calls_of_scrub_message by (auto simp: set_collectToolCallIds)
qed

text \<open>The scrub of a forked history removes exactly the tool calls that have no result: the
  calls left are those that were answered, no result is lost, and scrubbing again changes
  nothing.\<close>

lemma filterIncomplete_correct:
  "set (collectToolCallIds (filterIncompleteToolCalls ms))
     = set (collectToolCallIds ms) \<inter> set (all_result_ids (filterIncompleteToolCalls ms))
   \<and> all_result_ids (filterIncompleteToolCalls ms) = all_result_ids ms
   \<and> filterIncompleteToolCalls (filterIncompleteToolCalls ms) = filterIncompleteToolCalls ms"
  by (simp add: calls_filterIncomplete all_result_ids_scrubbed filterIncomplete_idem)

end
