(* ===== verification/ToolResults.thy ===== *)
theory ToolResults
  imports ToolPairing
begin

text \<open>
  Results of executed tools: the result type of \<open>tool/protocol/result.ts\<close>, the pairing of calls
  with results (\<open>agent/loop/ensureToolResultPairing.ts\<close>) and the projection of results to user
  messages (\<open>agent/loop/projectToolResults.ts\<close>).

  Parameters: \<open>stringify\<close> is \<open>JSON.stringify\<close>, \<open>sanitizeRaw\<close> the debugging echo kept in \<open>raw\<close>,
  \<open>recovery\<close> the message and the advice of \<open>tool/execution/errorRecovery.ts\<close> for a failed call.
\<close>

section \<open>Results\<close>

datatype pd_content =
    PText string
  | PJson js_value
  | PImage string string "int option" "string option" \<comment> \<open>mime type, data, bytes, detail\<close>
  | PPdf string string int "int option" \<comment> \<open>mime type, data, bytes, pages\<close>
  | PFile string "string option" "string option" \<comment> \<open>path, mime type, description\<close>

datatype pd_outcome = PSuccess | PError string string \<comment> \<open>code, message\<close>

record pd_result =
  pr_outcome :: pd_outcome
  pr_toolCallId :: string
  pr_toolName :: string
  pr_content :: "pd_content list"
  pr_supplementalMessages :: "pd_content list list option"
  pr_data :: js_value
  pr_details :: js_value \<comment> \<open>\<open>error.details\<close>\<close>
  pr_metadata :: js_value
  pr_startedAt :: int
  pr_completedAt :: int

definition EMPTY_TOOL_OUTPUT :: string where
  "EMPTY_TOOL_OUTPUT = ''Tool completed with no output.''"

definition opt_suffix :: "string option \<Rightarrow> string" where
  "opt_suffix x = (case x of None \<Rightarrow> [] | Some t \<Rightarrow> if t = [] then [] else '', '' @ t)"

fun contentToText :: "(js_value \<Rightarrow> string) \<Rightarrow> pd_content \<Rightarrow> string" where
  "contentToText stringify (PText t) = t"
| "contentToText stringify (PJson v) = stringify v"
| "contentToText stringify (PImage mime d _ _) =
     ''[Image: '' @ mime @ '', '' @ show_nat (length d) @ '' base64 characters]''"
| "contentToText stringify (PPdf mime d _ pages) =
     ''[PDF: '' @ mime @ '', '' @ show_nat (length d) @ '' base64 characters''
     @ (case pages of None \<Rightarrow> [] | Some n \<Rightarrow> if n \<noteq> 0 then '', '' @ show_int n @ '' pages'' else [])
     @ '']''"
| "contentToText stringify (PFile path mime desc) =
     ''[File: '' @ path @ opt_suffix mime @ opt_suffix desc @ '']''"

fun toCanonicalToolResultContentBlock :: "(js_value \<Rightarrow> string) \<Rightarrow> pd_content \<Rightarrow> result_block" where
  "toCanonicalToolResultContentBlock stringify (PImage mime d bytes detail) =
     RImage \<lparr>img_source = Base64, img_data = d, img_mimeType = mime, img_bytes = bytes, img_detail = detail\<rparr>"
| "toCanonicalToolResultContentBlock stringify (PPdf mime d bytes pages) =
     RPdf \<lparr>pdf_data = d, pdf_mimeType = mime, pdf_bytes = bytes, pdf_pages = pages\<rparr>"
| "toCanonicalToolResultContentBlock stringify c = RText (contentToText stringify c) None"

definition toCanonicalToolResultBlock ::
    "(js_value \<Rightarrow> string) \<Rightarrow> (pd_result \<Rightarrow> js_value) \<Rightarrow> pd_result \<Rightarrow> tool_result" where
  "toCanonicalToolResultBlock stringify sanitizeRaw r =
     (let contentBlocks = map (toCanonicalToolResultContentBlock stringify) (pr_content r)
      in \<lparr>tr_toolCallId = pr_toolCallId r,
          tr_content = (if contentBlocks \<noteq> [] then contentBlocks else [RText EMPTY_TOOL_OUTPUT None]),
          tr_isError = (case pr_outcome r of PSuccess \<Rightarrow> None | PError _ _ \<Rightarrow> Some True),
          tr_raw = Some (sanitizeRaw r)\<rparr>)"

section \<open>One result for every call\<close>

definition createMissingToolResult ::
    "(tool_call \<Rightarrow> string \<Rightarrow> string \<times> js_value) \<Rightarrow> int \<Rightarrow> string \<Rightarrow> tool_call \<Rightarrow> pd_result" where
  "createMissingToolResult recovery now message call =
     \<lparr>pr_outcome = PError ''tool_execution_failed'' message,
      pr_toolCallId = tc_id call, pr_toolName = tc_name call,
      pr_content = [PText (fst (recovery call message))],
      pr_supplementalMessages = None, pr_data = JUndefined, pr_details = JUndefined,
      pr_metadata = JObject [(''recovery'', snd (recovery call message))], pr_startedAt = now, pr_completedAt = now\<rparr>"

definition enqueue_result :: "(string \<times> pd_result list) list \<Rightarrow> pd_result \<Rightarrow> (string \<times> pd_result list) list" where
  "enqueue_result m r =
     (case jget m (pr_toolCallId r) of
        Some queue \<Rightarrow> jset (pr_toolCallId r) (queue @ [r]) m
      | None \<Rightarrow> jset (pr_toolCallId r) [r] m)"

fun pair_calls :: "(tool_call \<Rightarrow> pd_result) \<Rightarrow> (string \<times> pd_result list) list \<Rightarrow> tool_call list \<Rightarrow> pd_result list" where
  "pair_calls missing m [] = []"
| "pair_calls missing m (c # cs) =
     (case jget m (tc_id c) of
        Some (r # queue) \<Rightarrow> r # pair_calls missing (jset (tc_id c) queue m) cs
      | _ \<Rightarrow> missing c # pair_calls missing m cs)"

definition ensureToolResultPairing ::
    "(tool_call \<Rightarrow> string \<Rightarrow> string \<times> js_value) \<Rightarrow> int \<Rightarrow> string \<Rightarrow> tool_call list \<Rightarrow> pd_result list \<Rightarrow> pd_result list" where
  "ensureToolResultPairing recovery now message calls results =
     pair_calls (createMissingToolResult recovery now message)
       (foldl enqueue_result [] results) calls"

text \<open>The queue of an id holds the results of that id, oldest first.\<close>

definition results_for :: "pd_result list \<Rightarrow> string \<Rightarrow> pd_result list" where
  "results_for rs i = filter (\<lambda>r. pr_toolCallId r = i) rs"

definition queue_of :: "(string \<times> pd_result list) list \<Rightarrow> string \<Rightarrow> pd_result list" where
  "queue_of m i = (case jget m i of None \<Rightarrow> [] | Some q \<Rightarrow> q)"

lemma queue_of_enqueue:
  "queue_of (enqueue_result m r) i = queue_of m i @ (if pr_toolCallId r = i then [r] else [])"
  by (auto simp: queue_of_def enqueue_result_def jmap_simps split: option.splits)

lemma queue_of_foldl: "queue_of (foldl enqueue_result m rs) i = queue_of m i @ results_for rs i"
  by (induction rs arbitrary: m) (auto simp: queue_of_enqueue results_for_def)

lemma queue_of_jset [simp]: "queue_of (jset j q m) i = (if i = j then q else queue_of m i)"
  by (simp add: queue_of_def jmap_simps)

lemma pair_calls_Cons:
  "pair_calls missing m (c # cs) =
     (case queue_of m (tc_id c) of
        r # queue \<Rightarrow> r # pair_calls missing (jset (tc_id c) queue m) cs
      | [] \<Rightarrow> missing c # pair_calls missing m cs)"
  by (auto simp: queue_of_def split: option.splits list.splits)

text \<open>
  The specification by position: the \<open>k\<close>-th call with an id gets the \<open>k\<close>-th result with that id,
  and an error result when there are not that many.
\<close>

definition nth_call_result ::
    "(tool_call \<Rightarrow> pd_result) \<Rightarrow> (string \<Rightarrow> pd_result list) \<Rightarrow> tool_call list \<Rightarrow> nat \<Rightarrow> pd_result" where
  "nth_call_result missing rs calls n =
     (let c = calls ! n; k = length (filter (\<lambda>d. tc_id d = tc_id c) (take n calls))
      in if k < length (rs (tc_id c)) then rs (tc_id c) ! k else missing c)"

lemma length_pair_calls [simp]: "length (pair_calls missing m cs) = length cs"
proof (induction cs arbitrary: m)
  case (Cons c cs)
  then show ?case by (simp only: pair_calls_Cons) (simp split: list.splits)
qed simp

lemma pair_calls_nth:
  "n < length cs \<Longrightarrow> pair_calls missing m cs ! n = nth_call_result missing (queue_of m) cs n"
proof (induction cs arbitrary: m n)
  case Nil
  then show ?case by simp
next
  case (Cons c cs)
  show ?case
  proof (cases n)
    case 0
    then show ?thesis
      by (simp only: pair_calls_Cons) (simp add: nth_call_result_def split: list.splits)
  next
    case (Suc n')
    with Cons.prems have "n' < length cs" by simp
    note IH = Cons.IH [OF this]
    show ?thesis
      unfolding pair_calls_Cons Suc
      by (auto simp: IH nth_call_result_def Let_def split: list.splits)
  qed
qed

lemma results_for_id: "r \<in> set (results_for rs i) \<Longrightarrow> r \<in> set rs \<and> pr_toolCallId r = i"
  by (simp add: results_for_def)

lemma queue_of_results: "queue_of (foldl enqueue_result [] rs) = results_for rs"
  by (rule ext) (simp only: queue_of_foldl, simp add: queue_of_def)

lemma ensureToolResultPairing_list:
  "ensureToolResultPairing recovery now message calls results =
     map (nth_call_result (createMissingToolResult recovery now message) (results_for results) calls)
       [0..<length calls]"
  by (rule nth_equalityI)
     (simp_all add: ensureToolResultPairing_def pair_calls_nth queue_of_results)

lemma nth_call_result_id:
  assumes "\<And>c. pr_toolCallId (missing c) = tc_id c"
  shows "pr_toolCallId (nth_call_result missing (results_for results) calls n) = tc_id (calls ! n)"
proof -
  have "pr_toolCallId (results_for results i ! k) = i" if "k < length (results_for results i)" for i k
    using results_for_id nth_mem [OF that] by blast
  with assms show ?thesis by (simp add: nth_call_result_def Let_def)
qed

lemma ensureToolResultPairing_ids:
  "map pr_toolCallId (ensureToolResultPairing recovery now message calls results) = map tc_id calls"
proof -
  have "pr_toolCallId (createMissingToolResult recovery now message c) = tc_id c" for c
    by (simp add: createMissingToolResult_def)
  then have "map pr_toolCallId (ensureToolResultPairing recovery now message calls results)
      = map (\<lambda>n. tc_id (calls ! n)) [0..<length calls]"
    by (simp add: ensureToolResultPairing_list nth_call_result_id)
  also have "\<dots> = map tc_id (map (\<lambda>n. calls ! n) [0..<length calls])" by simp
  finally show ?thesis by (simp only: map_nth)
qed

text \<open>C20. Pairing implements its specification by position: the result list has exactly one result
  per call, in call order and under the call's id; the \<open>k\<close>-th call of an id gets the \<open>k\<close>-th result
  reported for that id, and the synthesised error result when there is none.\<close>

theorem ensureToolResultPairing_correct:
  "ensureToolResultPairing recovery now message calls results =
     map (nth_call_result (createMissingToolResult recovery now message) (results_for results) calls)
       [0..<length calls]
   \<and> map pr_toolCallId (ensureToolResultPairing recovery now message calls results) = map tc_id calls"
  using ensureToolResultPairing_list ensureToolResultPairing_ids by blast

section \<open>Results as messages\<close>

fun toCanonicalSupplementalBlock :: "(js_value \<Rightarrow> string) \<Rightarrow> (pd_content \<Rightarrow> string) \<Rightarrow> pd_content \<Rightarrow> block" where
  "toCanonicalSupplementalBlock stringify stringifyContent (PImage mime d bytes detail) =
     ImageB \<lparr>img_source = Base64, img_data = d, img_mimeType = mime, img_bytes = bytes, img_detail = detail\<rparr>"
| "toCanonicalSupplementalBlock stringify stringifyContent (PPdf mime d bytes pages) =
     PdfB \<lparr>pdf_data = d, pdf_mimeType = mime, pdf_bytes = bytes, pdf_pages = pages\<rparr>"
| "toCanonicalSupplementalBlock stringify stringifyContent (PText t) = text_block t"
| "toCanonicalSupplementalBlock stringify stringifyContent c = text_block (stringifyContent c)"

definition supplemental_message ::
    "(pd_content \<Rightarrow> block) \<Rightarrow> string \<Rightarrow> pd_content list \<Rightarrow> message" where
  "supplemental_message toBlock callId cs =
     \<lparr>role = User, content = map toBlock cs,
      metadata = Some (empty_metadata\<lparr>md_synthetic := Some True,
        md_purpose := Some ''tool_result_supplemental'', md_toolCallId := Some callId\<rparr>)\<rparr>"

definition projectToolResults ::
    "(js_value \<Rightarrow> string) \<Rightarrow> (pd_content \<Rightarrow> string) \<Rightarrow> (pd_result \<Rightarrow> js_value) \<Rightarrow> pd_result list \<Rightarrow> message list" where
  "projectToolResults stringify stringifyContent sanitizeRaw results =
     plain_message User (map (\<lambda>r. ToolResultB (toCanonicalToolResultBlock stringify sanitizeRaw r)) results)
     # concat (map (\<lambda>r. case pr_supplementalMessages r of
          None \<Rightarrow> []
        | Some msgs \<Rightarrow> map (supplemental_message
              (toCanonicalSupplementalBlock stringify stringifyContent) (pr_toolCallId r)) msgs) results)"

lemma supplemental_no_results [simp]:
  "result_ids (map (toCanonicalSupplementalBlock sf sc) cs) = []"
proof -
  have "\<not> isDirectToolResultBlock (toCanonicalSupplementalBlock sf sc c)" for c
    by (cases c) auto
  then show ?thesis by (simp add: result_ids_def filter_empty_conv)
qed

lemma results_of_supplemental [simp]: "results_of (supplemental_message (toCanonicalSupplementalBlock sf sc) i cs) = {}"
  by (simp add: results_of_def supplemental_message_def)

lemma projectToolResults_ids:
  "set (collectToolResultIds (projectToolResults sf sc raw results)) = pr_toolCallId ` set results"
proof -
  have "result_ids (map (\<lambda>r. ToolResultB (toCanonicalToolResultBlock sf raw r)) rs) = map pr_toolCallId rs" for rs
    by (induction rs) (auto simp: result_ids_def toCanonicalToolResultBlock_def Let_def)
  then show ?thesis
    by (auto simp: set_collectToolResultIds projectToolResults_def results_of_def split: option.splits)
       (auto simp: supplemental_message_def)
qed

lemma projectToolResults_calls: "collectToolCallIds (projectToolResults sf sc raw results) = []"
proof -
  have "\<forall>m \<in> set (projectToolResults sf sc raw results). role m = User"
    by (auto simp: projectToolResults_def supplemental_message_def split: option.splits)
  then have "set (collectToolCallIds (projectToolResults sf sc raw results)) = {}"
    by (auto simp: set_collectToolCallIds calls_of_def)
  then show ?thesis by simp
qed

section \<open>The tool half of a turn\<close>

text \<open>\<open>collectToolCalls\<close> and \<open>decideLoopContinuation\<close> of the agent loop.\<close>

fun collectToolCalls :: "block list \<Rightarrow> tool_call list" where
  "collectToolCalls [] = []"
| "collectToolCalls (ToolCallB c # bs) = c # collectToolCalls bs"
| "collectToolCalls (_ # bs) = collectToolCalls bs"

datatype loop_continuation = Continue | Stop

definition decideLoopContinuation :: "message \<Rightarrow> loop_continuation" where
  "decideLoopContinuation m = (if length (collectToolCalls (content m)) > 0 then Continue else Stop)"

lemma ids_collectToolCalls: "map tc_id (collectToolCalls bs) = tool_call_ids bs"
  by (induction bs rule: collectToolCalls.induct) auto

text \<open>A turn's exchange is paired whatever the executor returned: the assistant message followed
  by the projection of the paired results names every call and every result, so the strips of the
  compaction engines leave its calls and results alone.\<close>

lemma turn_exchange_paired:
  assumes "role m = Assistant"
  shows "paired (m # projectToolResults sf sc raw
           (ensureToolResultPairing recovery now message (collectToolCalls (content m)) results))"
proof -
  let ?rs = "ensureToolResultPairing recovery now message (collectToolCalls (content m)) results"
  have "map pr_toolCallId ?rs = tool_call_ids (content m)"
    by (simp add: ensureToolResultPairing_ids ids_collectToolCalls)
  then have "pr_toolCallId ` set ?rs = set (tool_call_ids (content m))"
    by (metis set_map)
  moreover have "set (collectToolResultIds (m # ms)) = set (collectToolResultIds ms)" for ms
    using assms by (simp add: set_collectToolResultIds results_of_def)
  moreover have "set (collectToolCallIds (m # ms)) = set (tool_call_ids (content m)) \<union> set (collectToolCallIds ms)" for ms
    using assms by (simp add: set_collectToolCallIds calls_of_def)
  ultimately show ?thesis
    by (simp add: paired_def projectToolResults_ids projectToolResults_calls)
qed

end
