(* ===== verification/MessageProjection.thy ===== *)
theory MessageProjection
  imports ToolPairing
begin

text \<open>
  \<open>context/projection/MessageProjector.ts\<close>: the last step before a history is sent to a model. A
  sliding window that does not start inside a tool exchange, then a repair pass that answers every
  open tool call with a placeholder and drops results whose call is gone. \<open>exchange_ok\<close> is the
  abstract contract of the providers, and the repair establishes it.
\<close>

datatype projection_warning =
    ContextTruncated nat nat \<comment> \<open>dropped messages, the limit\<close>
  | ToolResultOrphaned string
  | ToolResultInjected string

record projection_result =
  pj_messages :: "message list"
  pj_droppedCount :: nat
  pj_warnings :: "projection_warning list"

section \<open>The window\<close>

fun text_starts :: "string \<Rightarrow> block \<Rightarrow> bool" where
  "text_starts p (TextB t _) = startsWith t p"
| "text_starts p _ = False"

definition isCompactBoundary :: "message \<Rightarrow> bool" where
  "isCompactBoundary m \<longleftrightarrow> role m = User \<and> list_ex (text_starts ''<compact-boundary'') (content m)"

definition isSummaryMessage :: "message \<Rightarrow> bool" where
  "isSummaryMessage m \<longleftrightarrow>
     role m = Assistant \<and> list_ex (text_starts ''[CONTEXT COMPACTION - REFERENCE ONLY]'') (content m)"

fun hasCompactionCheckpoint :: "message list \<Rightarrow> bool" where
  "hasCompactionCheckpoint (b # s # _) = (isCompactBoundary b \<and> isSummaryMessage s)"
| "hasCompactionCheckpoint _ = False"

definition isToolResultOnly :: "message \<Rightarrow> bool" where
  "isToolResultOnly m \<longleftrightarrow> content m \<noteq> [] \<and>
     list_all (\<lambda>b. isDirectToolResultBlock b \<or> isMediaReferenceWithId b) (content m)"

text \<open>The cut moves forward past the results of a call that was cut off.\<close>

definition toolPairSafeTruncate :: "message list \<Rightarrow> nat \<Rightarrow> message list \<times> nat" where
  "toolPairSafeTruncate ms limit =
     (if length ms \<le> limit then (ms, 0)
      else (let sliced = dropWhile isToolResultOnly (drop (length ms - limit) ms)
            in (sliced, length ms - length sliced)))"

section \<open>The repair\<close>

definition placeholder_message :: "string list \<Rightarrow> message" where
  "placeholder_message ids = plain_message User
     (map (\<lambda>i. ToolResultB \<lparr>tr_toolCallId = i, tr_content = [RText ''[result truncated]'' None],
        tr_isError = None, tr_raw = None\<rparr>) ids)"

definition injectPlaceholderResults :: "string list \<Rightarrow> message list \<times> projection_warning list" where
  "injectPlaceholderResults ids = ([placeholder_message ids], map ToolResultInjected ids)"

definition isOrphan :: "string list \<Rightarrow> string list \<Rightarrow> block \<Rightarrow> bool" where
  "isOrphan pending visible b \<longleftrightarrow>
     (isDirectToolResultBlock b \<and> block_toolCallId b \<notin> set pending)
     \<or> (isMediaReferenceWithId b \<and> block_toolCallId b \<notin> set visible)"

fun repair_from :: "string list \<Rightarrow> string list \<Rightarrow> message list \<Rightarrow> message list \<times> projection_warning list" where
  "repair_from visible pending [] =
     (if pending \<noteq> [] then injectPlaceholderResults pending else ([], []))"
| "repair_from visible pending (m # ms) =
     (if role m = Assistant then
        (let (flushed, w) = (if pending \<noteq> [] then injectPlaceholderResults pending else ([], []));
             (out, w') = repair_from visible (tool_call_ids (content m)) ms
         in (flushed @ m # out, w @ w'))
      else
        (let seen = result_ids (content m);
             stillPending = filter (\<lambda>i. i \<notin> set seen) pending;
             (out, w') = repair_from visible stillPending ms
         in if list_ex (isOrphan pending visible) (content m) then
              (let kept = filter (\<lambda>b. \<not> isOrphan pending visible b) (content m);
                   w = map (\<lambda>b. ToolResultOrphaned (block_toolCallId b))
                         (filter (isOrphan pending visible) (content m))
               in if kept = [] then (out, w @ w')
                  else (m\<lparr>content := kept\<rparr> # out, w @ w'))
            else (m # out, w')))"

definition visible_calls :: "message list \<Rightarrow> string list" where
  "visible_calls ms = concat (map (\<lambda>m. if role m \<noteq> Assistant then [] else tool_call_ids (content m)) ms)"

definition repairToolResultPairing :: "message list \<Rightarrow> message list \<times> projection_warning list" where
  "repairToolResultPairing ms = repair_from (visible_calls ms) [] ms"

definition project :: "message list \<Rightarrow> nat option \<Rightarrow> projection_result" where
  "project ms maxMessages =
     (let (projected, dropped, w) =
        (case maxMessages of
           None \<Rightarrow> (ms, 0, [])
         | Some limit \<Rightarrow>
             if length ms > limit \<and> \<not> hasCompactionCheckpoint ms then
               (let (sliced, d) = toolPairSafeTruncate ms limit
                in (sliced, d, if d > 0 then [ContextTruncated d limit] else []))
             else (ms, 0, []));
         (out, w') = repairToolResultPairing projected
      in \<lparr>pj_messages = out, pj_droppedCount = dropped, pj_warnings = w @ w'\<rparr>)"

section \<open>The providers' contract\<close>

text \<open>
  \<open>exchange_ok opn ms\<close>: read from the first message with \<open>opn\<close> the calls still unanswered, a
  result only ever answers an open call, and no call is left open when the next assistant message
  or the end comes.
\<close>

fun exchange_ok :: "string list \<Rightarrow> message list \<Rightarrow> bool" where
  "exchange_ok opn [] = (opn = [])"
| "exchange_ok opn (m # ms) =
     (if role m = Assistant then opn = [] \<and> exchange_ok (tool_call_ids (content m)) ms
      else set (result_ids (content m)) \<subseteq> set opn
           \<and> exchange_ok (filter (\<lambda>i. i \<notin> set (result_ids (content m))) opn) ms)"

lemma result_ids_placeholder [simp]: "result_ids (content (placeholder_message ids)) = ids"
  by (induction ids) (auto simp: placeholder_message_def result_ids_def)

lemma role_placeholder [simp]: "role (placeholder_message ids) = User"
  by (simp add: placeholder_message_def)

lemma result_ids_kept:
  "result_ids (filter (\<lambda>b. \<not> isOrphan pending visible b) bs) = filter (\<lambda>i. i \<in> set pending) (result_ids bs)"
proof (induction bs)
  case (Cons b bs)
  then show ?case by (cases b) (auto simp: result_ids_def isOrphan_def)
qed simp

lemma filter_out_pending:
  "filter (\<lambda>i. i \<notin> set (filter (\<lambda>j. j \<in> set pending) seen)) pending = filter (\<lambda>i. i \<notin> set seen) pending"
  by (rule filter_cong) auto

lemma no_orphan_ids:
  "\<not> list_ex (isOrphan pending visible) bs \<Longrightarrow> set (result_ids bs) \<subseteq> set pending"
  by (auto simp: list_ex_iff isOrphan_def in_result_ids)

lemma kept_Nil_ids:
  assumes "filter (\<lambda>b. \<not> isOrphan pending visible b) bs = []"
  shows "filter (\<lambda>i. i \<notin> set (result_ids bs)) pending = pending"
proof -
  have "filter (\<lambda>i. i \<in> set pending) (result_ids bs) = []"
    using assms by (metis result_ids_Nil result_ids_kept)
  then show ?thesis by (auto simp: filter_empty_conv intro!: filter_True)
qed

lemma repair_from_ok: "exchange_ok pending (fst (repair_from visible pending ms))"
proof (induction visible pending ms rule: repair_from.induct)
  case (1 visible pending)
  then show ?case
    by (auto simp: injectPlaceholderResults_def filter_empty_conv)
next
  case (2 visible pending m ms)
  show ?case
  proof (cases "role m = Assistant")
    case True
    with 2(1)[OF True] show ?thesis
      by (auto simp: injectPlaceholderResults_def filter_empty_conv split: prod.splits)
  next
    case False
    then have IH: "exchange_ok (filter (\<lambda>i. i \<notin> set (result_ids (content m))) pending)
        (fst (repair_from visible (filter (\<lambda>i. i \<notin> set (result_ids (content m))) pending) ms))"
      using 2(2) by simp
    show ?thesis
    proof (cases "list_ex (isOrphan pending visible) (content m)")
      case True
      let ?kept = "filter (\<lambda>b. \<not> isOrphan pending visible b) (content m)"
      show ?thesis
      proof (cases "?kept = []")
        case True
        with \<open>list_ex _ _\<close> False IH show ?thesis
          by (auto simp: Let_def kept_Nil_ids [OF True] split: prod.splits)
      next
        case kept: False
        have "set (result_ids ?kept) \<subseteq> set pending" by (auto simp: result_ids_kept)
        moreover have "filter (\<lambda>i. i \<notin> set (result_ids ?kept)) pending
            = filter (\<lambda>i. i \<notin> set (result_ids (content m))) pending"
          by (simp only: result_ids_kept filter_out_pending)
        ultimately show ?thesis
          using True False IH kept by (auto simp: Let_def split: prod.splits)
      qed
    next
      case none: False
      with False IH no_orphan_ids [OF none] show ?thesis
        by (auto simp: Let_def split: prod.splits)
    qed
  qed
qed


text \<open>A history that already satisfies the contract, with no dangling media reference.\<close>

definition media_ok :: "string list \<Rightarrow> message list \<Rightarrow> bool" where
  "media_ok visible ms \<longleftrightarrow> (\<forall>m\<in>set ms. role m \<noteq> Assistant \<longrightarrow>
     (\<forall>b\<in>set (content m). isMediaReferenceWithId b \<longrightarrow> block_toolCallId b \<in> set visible))"

lemma not_orphan:
  "set (result_ids bs) \<subseteq> set pending \<Longrightarrow>
   \<forall>b\<in>set bs. isMediaReferenceWithId b \<longrightarrow> block_toolCallId b \<in> set visible \<Longrightarrow>
   \<not> list_ex (isOrphan pending visible) bs"
  by (fastforce simp: list_ex_iff isOrphan_def result_ids_def)

lemma repair_from_id:
  "exchange_ok pending ms \<Longrightarrow> media_ok visible ms \<Longrightarrow> repair_from visible pending ms = (ms, [])"
proof (induction visible pending ms rule: repair_from.induct)
  case (1 visible pending)
  then show ?case by simp
next
  case (2 visible pending m ms)
  have media: "media_ok visible ms" using "2.prems"(2) by (simp add: media_ok_def)
  show ?case
  proof (cases "role m = Assistant")
    case True
    with 2(1)[OF True] "2.prems"(1) media show ?thesis by simp
  next
    case False
    with "2.prems" have "\<not> list_ex (isOrphan pending visible) (content m)"
      by (intro not_orphan) (auto simp: media_ok_def)
    with False 2(2)[OF False] "2.prems"(1) media show ?thesis by simp
  qed
qed

lemma assistants_repair_from:
  "filter (\<lambda>m. role m = Assistant) (fst (repair_from visible pending ms)) = filter (\<lambda>m. role m = Assistant) ms"
proof (induction visible pending ms rule: repair_from.induct)
  case (1 visible pending)
  then show ?case by (simp add: injectPlaceholderResults_def)
next
  case (2 visible pending m ms)
  show ?case
  proof (cases "role m = Assistant")
    case True
    with 2(1)[OF True] show ?thesis
      by (auto simp: injectPlaceholderResults_def split: prod.splits)
  next
    case False
    with 2(2)[OF False] show ?thesis
      by (auto simp: Let_def split: prod.splits)
  qed
qed

lemma suffix_eq_drop: "suffix t xs \<Longrightarrow> t = drop (length xs - length t) xs"
  by (auto simp: suffix_def)

lemma truncate_drop:
  "fst (toolPairSafeTruncate ms n) = drop (snd (toolPairSafeTruncate ms n)) ms
   \<and> snd (toolPairSafeTruncate ms n) \<le> length ms
   \<and> length (fst (toolPairSafeTruncate ms n)) \<le> n"
proof (cases "length ms \<le> n")
  case True
  then show ?thesis by (simp add: toolPairSafeTruncate_def)
next
  case False
  let ?t = "dropWhile isToolResultOnly (drop (length ms - n) ms)"
  have "suffix ?t (drop (length ms - n) ms)" by (rule suffix_dropWhile)
  then have "suffix ?t ms" by (metis suffix_drop suffix_order.trans)
  then have "?t = drop (length ms - length ?t) ms" by (rule suffix_eq_drop)
  moreover have "length ?t \<le> n"
    using length_dropWhile_le [of isToolResultOnly "drop (length ms - n) ms"] False by simp
  ultimately show ?thesis using False by (simp add: toolPairSafeTruncate_def Let_def)
qed

text \<open>What is repaired is the input less the reported number of leading messages.\<close>

lemma project_messages:
  "pj_messages (project ms limit) =
     fst (repairToolResultPairing (drop (pj_droppedCount (project ms limit)) ms))"
  by (auto simp: project_def truncate_drop [THEN conjunct1] split: prod.splits option.splits)
     (metis fst_conv snd_conv truncate_drop)+

text \<open>C21. Whatever the history and the window, the projected messages satisfy the providers'
  contract: every tool call is answered before the next assistant message or the end, and every
  result answers a call of the assistant message before it. The messages are those of the input
  after the dropped prefix: each of its assistant messages is kept, in order.\<close>

theorem project_exchange_ok:
  "exchange_ok [] (pj_messages (project ms limit))
   \<and> filter (\<lambda>m. role m = Assistant) (pj_messages (project ms limit))
     = filter (\<lambda>m. role m = Assistant) (drop (pj_droppedCount (project ms limit)) ms)"
  by (simp add: project_messages repairToolResultPairing_def repair_from_ok assistants_repair_from)

text \<open>A history that already satisfies the contract and refers to no unknown media is passed on
  unchanged and without a warning when no window is set, so projecting is idempotent on it.\<close>

lemma project_valid_unchanged:
  assumes "exchange_ok [] ms" and "media_ok (visible_calls ms) ms"
  shows "project ms None = \<lparr>pj_messages = ms, pj_droppedCount = 0, pj_warnings = []\<rparr>"
  using repair_from_id [OF assms] by (simp add: project_def repairToolResultPairing_def)

lemma project_valid_unchanged_witness:
  "project [plain_message Assistant [ToolCallB \<lparr>tc_id = ''a'', tc_name = ''t'', tc_input = JNull, tc_raw = None\<rparr>],
            placeholder_message [''a''], plain_message User [text_block ''go on'']] None
   = \<lparr>pj_messages =
        [plain_message Assistant [ToolCallB \<lparr>tc_id = ''a'', tc_name = ''t'', tc_input = JNull, tc_raw = None\<rparr>],
         placeholder_message [''a''], plain_message User [text_block ''go on'']],
      pj_droppedCount = 0, pj_warnings = []\<rparr>"
  by (rule project_valid_unchanged) (simp_all add: result_ids_def media_ok_def placeholder_message_def)

end
