(* ===== verification/TokenBudget.thy ===== *)
theory TokenBudget
  imports Canonical
begin

text \<open>
  Token accounting and the decisions taken on it: the estimator and thresholds of
  \<open>context/budget/TokenBudgetManager.ts\<close> and \<open>effectiveContext.ts\<close>, the proactive policy of
  \<open>context/compaction/AutoCompactionPolicy.ts\<close>, the reaction to an overflow error of
  \<open>context/recovery/ContextOverflowRecovery.ts\<close> and the output-cap retry of
  \<open>agent/loop/outputTokenRetry.ts\<close>.

  Parameters: \<open>countTokens\<close> is the tokenizer (a package), \<open>jsonStringify\<close> is \<open>JSON.stringify\<close>, with
  \<open>None\<close> where it returns \<open>undefined\<close> or throws. Numbers are exact rationals; \<open>NonFinite\<close> stands for
  NaN and the infinities.
\<close>

datatype js_num = Fin rat | NonFinite

section \<open>Estimates\<close>

record budget_options =
  multimediaTokens :: nat
  warningRatio :: rat
  blockingRatio :: rat
  perMessageOverhead :: nat

definition default_budget :: budget_options where
  "default_budget = \<lparr>multimediaTokens = 2000, warningRatio = 4/5, blockingRatio = 9/10,
     perMessageOverhead = 4\<rparr>"

definition safeJsonStringify :: "(js_value \<Rightarrow> string option) \<Rightarrow> js_value \<Rightarrow> string" where
  "safeJsonStringify jsonStringify v =
     (if v = JUndefined \<or> v = JNull then []
      else case jsonStringify v of None \<Rightarrow> [] | Some s \<Rightarrow> s)"

fun estimateForBlock ::
    "(string \<Rightarrow> nat) \<Rightarrow> (js_value \<Rightarrow> string option) \<Rightarrow> budget_options \<Rightarrow> block \<Rightarrow> nat" where
  "estimateForBlock countTokens js opts (TextB t _) = countTokens t"
| "estimateForBlock countTokens js opts (ThinkingB th) =
     countTokens (case th_reasoningContent th of None \<Rightarrow> th_text th | Some r \<Rightarrow> r)"
| "estimateForBlock countTokens js opts (ImageB _) = multimediaTokens opts"
| "estimateForBlock countTokens js opts (PdfB _) = multimediaTokens opts"
| "estimateForBlock countTokens js opts (AudioB _) = multimediaTokens opts"
| "estimateForBlock countTokens js opts (ToolCallB c) =
     countTokens (tc_name c @ safeJsonStringify js (tc_input c))"
| "estimateForBlock countTokens js opts (ToolResultB r) = countTokens (flattenToolResultBlockText r)"
| "estimateForBlock countTokens js opts (ToolResultRefB r) = countTokens (ref_preview r)"
| "estimateForBlock countTokens js opts (MediaRefB _) = multimediaTokens opts"

definition estimateForMessage ::
    "(string \<Rightarrow> nat) \<Rightarrow> (js_value \<Rightarrow> string option) \<Rightarrow> budget_options \<Rightarrow> message \<Rightarrow> nat" where
  "estimateForMessage countTokens js opts m =
     foldl (\<lambda>total b. total + estimateForBlock countTokens js opts b) (perMessageOverhead opts) (content m)"

definition estimateForMessages ::
    "(string \<Rightarrow> nat) \<Rightarrow> (js_value \<Rightarrow> string option) \<Rightarrow> budget_options \<Rightarrow> message list \<Rightarrow> nat" where
  "estimateForMessages countTokens js opts ms =
     foldl (\<lambda>total m. total + estimateForMessage countTokens js opts m) 0 ms"

lemma foldl_add: "foldl (\<lambda>t x. t + f x) (a::nat) xs = a + sum_list (map f xs)"
  by (induction xs arbitrary: a) auto

lemma estimateForMessages_sum:
  "estimateForMessages ct js opts ms = sum_list (map (estimateForMessage ct js opts) ms)"
  by (simp add: estimateForMessages_def foldl_add)

lemma estimateForMessages_append [simp]:
  "estimateForMessages ct js opts (xs @ ys) = estimateForMessages ct js opts xs + estimateForMessages ct js opts ys"
  by (simp add: estimateForMessages_sum)

lemma estimateForMessage_pos: "perMessageOverhead opts \<le> estimateForMessage ct js opts m"
  by (simp add: estimateForMessage_def foldl_add)

section \<open>Thresholds\<close>

datatype token_state = TokOk | TokWarning | TokBlocking

instantiation token_state :: linorder
begin

fun state_rank :: "token_state \<Rightarrow> nat" where
  "state_rank TokOk = 0"
| "state_rank TokWarning = 1"
| "state_rank TokBlocking = 2"

definition less_eq_token_state :: "token_state \<Rightarrow> token_state \<Rightarrow> bool" where
  "a \<le> b \<longleftrightarrow> state_rank a \<le> state_rank b"

definition less_token_state :: "token_state \<Rightarrow> token_state \<Rightarrow> bool" where
  "a < b \<longleftrightarrow> state_rank a < state_rank b"

instance
proof
  fix x y z :: token_state
  show "(x < y) = (x \<le> y \<and> \<not> y \<le> x)" by (auto simp: less_token_state_def less_eq_token_state_def)
  show "x \<le> x" by (simp add: less_eq_token_state_def)
  show "x \<le> y \<Longrightarrow> y \<le> z \<Longrightarrow> x \<le> z" by (simp add: less_eq_token_state_def)
  show "x \<le> y \<Longrightarrow> y \<le> x \<Longrightarrow> x = y" by (cases x; cases y) (auto simp: less_eq_token_state_def)
  show "x \<le> y \<or> y \<le> x" by (auto simp: less_eq_token_state_def)
qed

end

definition effectiveInputContextTokens :: "js_num \<Rightarrow> js_num option \<Rightarrow> js_num" where
  "effectiveInputContextTokens maxContextTokens maxOutputTokens =
     (case maxContextTokens of
        NonFinite \<Rightarrow> maxContextTokens
      | Fin m \<Rightarrow>
          if m \<le> 0 then maxContextTokens
          else (let output = (case maxOutputTokens of
                        Some (Fin n) \<Rightarrow> if n > 0 then floor n else 0
                      | _ \<Rightarrow> 0)
                in Fin (of_int (max 1 (floor m - output)))))"

record budget_snapshot =
  bs_tokens :: nat
  bs_totalContextTokens :: int
  bs_maxContextTokens :: rat
  bs_maxOutputTokens :: int
  bs_state :: token_state
  bs_ratio :: rat

text \<open>\<open>snapshotFromTokens\<close> for a finite window; the optional diagnostics it copies are left out.\<close>

definition snapshotFromTokens :: "budget_options \<Rightarrow> nat \<Rightarrow> rat \<Rightarrow> rat option \<Rightarrow> budget_snapshot" where
  "snapshotFromTokens opts tokens maxContextTokens reservedOutputTokens =
     (let reserved = max 0 (floor (case reservedOutputTokens of None \<Rightarrow> 0 | Some r \<Rightarrow> r));
          total = max 1 (floor maxContextTokens);
          promptBudget = (case effectiveInputContextTokens (Fin maxContextTokens) (Some (Fin (of_int reserved))) of
                            Fin b \<Rightarrow> b | NonFinite \<Rightarrow> 0);
          ratio = (if promptBudget > 0 then of_nat tokens / promptBudget else 0);
          state = (if ratio \<ge> blockingRatio opts then TokBlocking
                   else if ratio \<ge> warningRatio opts then TokWarning else TokOk)
      in \<lparr>bs_tokens = tokens, bs_totalContextTokens = total, bs_maxContextTokens = promptBudget,
          bs_maxOutputTokens = reserved, bs_state = state, bs_ratio = ratio\<rparr>)"

definition evaluate_budget ::
    "(string \<Rightarrow> nat) \<Rightarrow> (js_value \<Rightarrow> string option) \<Rightarrow> budget_options \<Rightarrow> message list \<Rightarrow> rat \<Rightarrow> rat option \<Rightarrow> budget_snapshot" where
  "evaluate_budget ct js opts ms maxContextTokens reserved =
     snapshotFromTokens opts (estimateForMessages ct js opts ms) maxContextTokens reserved"

datatype compaction_reason = WarningThreshold | BlockingThreshold

datatype auto_compaction_decision =
    AcSkip budget_snapshot
  | AcWarn budget_snapshot
  | AcTrigger budget_snapshot compaction_reason

definition evaluateSnapshot :: "budget_snapshot \<Rightarrow> auto_compaction_decision" where
  "evaluateSnapshot s =
     (if bs_state s = TokBlocking then AcTrigger s BlockingThreshold
      else if bs_state s = TokWarning then AcTrigger s WarningThreshold
      else AcSkip s)"

definition evaluate_policy ::
    "(string \<Rightarrow> nat) \<Rightarrow> (js_value \<Rightarrow> string option) \<Rightarrow> budget_options \<Rightarrow> message list \<Rightarrow> rat \<Rightarrow> rat option \<Rightarrow> auto_compaction_decision" where
  "evaluate_policy ct js opts ms maxContextTokens reserved =
     evaluateSnapshot (evaluate_budget ct js opts ms maxContextTokens reserved)"

lemma effective_ge_1:
  assumes "0 < m"
  shows "\<exists>b::int. effectiveInputContextTokens (Fin m) r = Fin (of_int b) \<and> 1 \<le> b"
  using assms by (simp add: effectiveInputContextTokens_def Let_def del: of_int_max)

lemma effective_le:
  assumes "1 \<le> m"
  shows "effectiveInputContextTokens (Fin m) r = Fin b \<Longrightarrow> b \<le> m"
proof -
  assume e: "effectiveInputContextTokens (Fin m) r = Fin b"
  define out where "out = (case r of Some (Fin n) \<Rightarrow> if n > 0 then floor n else 0 | _ \<Rightarrow> 0)"
  have "0 \<le> out" by (auto simp: out_def split: option.splits js_num.splits)
  moreover have "1 \<le> floor m" using assms by simp
  ultimately have "max 1 (floor m - out) \<le> floor m" by simp
  moreover have "b = of_int (max 1 (floor m - out))"
    using e assms by (simp add: effectiveInputContextTokens_def out_def Let_def)
  ultimately show "b \<le> m" by (metis le_floor_iff)
qed

lemma state_antimono_ratio:
  fixes r r' :: rat
  assumes "r \<le> r'"
  shows "(if r \<ge> b then TokBlocking else if r \<ge> w then TokWarning else TokOk)
       \<le> (if r' \<ge> b then TokBlocking else if r' \<ge> w then TokWarning else TokOk)"
  using assms by (auto simp: less_eq_token_state_def)

lemma snapshot_ratio_mono:
  assumes "t \<le> t'"
  shows "bs_ratio (snapshotFromTokens opts t m r) \<le> bs_ratio (snapshotFromTokens opts t' m r)"
  using assms by (auto simp: snapshotFromTokens_def Let_def divide_right_mono)

lemma bs_state_ratio:
  "bs_state (snapshotFromTokens opts t m r) =
     (if bs_ratio (snapshotFromTokens opts t m r) \<ge> blockingRatio opts then TokBlocking
      else if bs_ratio (snapshotFromTokens opts t m r) \<ge> warningRatio opts then TokWarning else TokOk)"
  by (simp add: snapshotFromTokens_def Let_def)

text \<open>The warning state grows with the conversation: appending messages never lowers the state,
  and once the state of a history triggers a compaction, the state of every longer history does
  too.\<close>

lemma budget_state_monotone:
  "bs_state (evaluate_budget ct js opts ms m r) \<le> bs_state (evaluate_budget ct js opts (ms @ ms') m r)"
  unfolding evaluate_budget_def bs_state_ratio [of opts "estimateForMessages ct js opts ms"]
    bs_state_ratio [of opts "estimateForMessages ct js opts (ms @ ms')"]
  by (rule state_antimono_ratio) (rule snapshot_ratio_mono, simp)

text \<open>With the default thresholds the policy triggers a compaction exactly when the estimate
  reaches four fifths of the prompt budget, which is the window less the reserved output and at
  least one token; from nine tenths on the reason is the blocking threshold.\<close>

lemma policy_thresholds:
  fixes m :: rat and r :: "rat option"
  defines "out \<equiv> max 0 (floor (case r of None \<Rightarrow> 0 | Some x \<Rightarrow> x))"
  defines "budget \<equiv> (of_int (max 1 (floor m - out)) :: rat)"
  assumes "0 < m"
  shows "evaluate_policy ct js default_budget ms m r =
    (let s = evaluate_budget ct js default_budget ms m r;
         t = of_nat (estimateForMessages ct js default_budget ms)
     in if t \<ge> 9/10 * budget then AcTrigger s BlockingThreshold
        else if t \<ge> 4/5 * budget then AcTrigger s WarningThreshold
        else AcSkip s)"
proof -
  have "0 \<le> out" by (simp add: out_def)
  have e: "effectiveInputContextTokens (Fin m) (Some (Fin (of_int out))) = Fin budget"
    using assms(3) \<open>0 \<le> out\<close>
    by (cases "out = 0") (simp_all add: effectiveInputContextTokens_def budget_def Let_def)
  have "0 < budget" by (simp add: budget_def del: of_int_max)
  then show ?thesis
    using e
    by (simp add: evaluate_policy_def evaluate_budget_def evaluateSnapshot_def snapshotFromTokens_def
        Let_def default_budget_def out_def [symmetric] le_divide_eq)
qed

lemma policy_thresholds_witness:
  "(case evaluate_policy length (\<lambda>_. None) default_budget
      [plain_message User [text_block ''12345678'']] 12 None of
      AcTrigger s BlockingThreshold \<Rightarrow> True | _ \<Rightarrow> False)"
  using policy_thresholds [of 12 length "\<lambda>_. None" "[plain_message User [text_block ''12345678'']]" None]
  by (simp add: estimateForMessages_def estimateForMessage_def default_budget_def Let_def)

section \<open>Recovery after an overflow\<close>

definition MIN_SAFE_AVAILABLE_OUTPUT_TOKENS :: int where
  "MIN_SAFE_AVAILABLE_OUTPUT_TOKENS = 4096"

datatype recovery_scope = Attempt | HardCap

datatype recovery_decision =
    StripImagesAndRetry string
  | CompactAndRetry "int option" "int option" string \<comment> \<open>context cap, output cap, reason\<close>
  | TruncateHeadAndRetry rat string
  | AdjustOutputAndRetry int string recovery_scope
  | GiveUp string

record recovery_options =
  first_keep :: rat
  second_keep :: rat

definition positive_cap :: "rat option \<Rightarrow> int option" where
  "positive_cap x = (case x of None \<Rightarrow> None | Some n \<Rightarrow> if n > 0 then Some (floor n) else None)"

definition isContextError :: "model_error \<Rightarrow> bool" where
  "isContextError e \<longleftrightarrow> err_code e = ''prompt_too_long'' \<or> err_code e = ''context_overflow''
     \<or> err_recoverableViaCompact e = Some True"

definition decide_recovery :: "recovery_options \<Rightarrow> model_error \<Rightarrow> bool \<Rightarrow> recovery_decision" where
  "decide_recovery opts e hasAttemptedCompact =
     (if err_recoverableViaImageStrip e = Some True then StripImagesAndRetry ''multimodal-processor-error''
      else if err_code e = ''image_too_large'' then StripImagesAndRetry ''image-too-large''
      else case positive_cap (err_availableOutputTokens e) of
        Some available \<Rightarrow>
          if available < MIN_SAFE_AVAILABLE_OUTPUT_TOKENS \<and> \<not> hasAttemptedCompact then
            CompactAndRetry (positive_cap (err_maxContextTokens e))
              (Some MIN_SAFE_AVAILABLE_OUTPUT_TOKENS) ''provider-available-output-too-small''
          else if available < MIN_SAFE_AVAILABLE_OUTPUT_TOKENS \<and> hasAttemptedCompact then
            TruncateHeadAndRetry (second_keep opts) ''provider-available-output-too-small-after-compact''
          else AdjustOutputAndRetry (max 1 available) ''provider-output-cap'' Attempt
      | None \<Rightarrow>
          (case positive_cap (err_maxOutputTokens e) of
             Some parsedOutput \<Rightarrow> AdjustOutputAndRetry (max 1 parsedOutput) ''provider-output-cap'' HardCap
           | None \<Rightarrow>
               if \<not> isContextError e then GiveUp (''non_recoverable_model_error:'' @ err_code e)
               else if hasAttemptedCompact then
                 TruncateHeadAndRetry (second_keep opts) ''ptl-second-attempt''
               else (case positive_cap (err_maxContextTokens e) of
                  Some cap \<Rightarrow> CompactAndRetry (Some cap) None ''provider-context-cap''
                | None \<Rightarrow> TruncateHeadAndRetry (first_keep opts) ''ptl-first-attempt'')))"

fun is_give_up :: "recovery_decision \<Rightarrow> bool" where
  "is_give_up (GiveUp _) = True"
| "is_give_up _ = False"

fun recovery_output_cap :: "recovery_decision \<Rightarrow> int option" where
  "recovery_output_cap (AdjustOutputAndRetry n _ _) = Some n"
| "recovery_output_cap (CompactAndRetry _ n _) = n"
| "recovery_output_cap _ = None"

text \<open>Recovery gives up exactly on an error that is neither about images, nor about an output
  cap, nor about the context; a context error is retried however often it comes back; and an output
  cap it asks for is at least one token.\<close>

lemma decide_recovery_give_up:
  "(is_give_up (decide_recovery opts e attempted) \<longleftrightarrow>
     err_recoverableViaImageStrip e \<noteq> Some True \<and> err_code e \<noteq> ''image_too_large''
     \<and> positive_cap (err_availableOutputTokens e) = None
     \<and> positive_cap (err_maxOutputTokens e) = None \<and> \<not> isContextError e)
   \<and> (case recovery_output_cap (decide_recovery opts e attempted) of None \<Rightarrow> True | Some n \<Rightarrow> 1 \<le> n)"
  by (auto simp: decide_recovery_def MIN_SAFE_AVAILABLE_OUTPUT_TOKENS_def split: option.splits)

text \<open>The decision of the context runtime: that of the policy if one is wired in, as in the local gateway, and otherwise
  one that cuts the history once.\<close>

definition recoverFromModelError :: "recovery_options option \<Rightarrow> rat \<Rightarrow> model_error \<Rightarrow> bool \<Rightarrow> recovery_decision" where
  "recoverFromModelError overflowRecovery truncateFirstKeepRatio e hasAttemptedCompact =
     (case overflowRecovery of
        Some opts \<Rightarrow> decide_recovery opts e hasAttemptedCompact
      | None \<Rightarrow>
          if err_recoverableViaImageStrip e = Some True then StripImagesAndRetry ''multimodal-processor-error''
          else if err_code e = ''image_too_large'' then StripImagesAndRetry ''image-too-large''
          else if \<not> isContextError e then GiveUp (''non_recoverable_model_error:'' @ err_code e)
          else if hasAttemptedCompact then GiveUp ''ptl-exhausted-after-two-attempts''
          else TruncateHeadAndRetry truncateFirstKeepRatio ''ptl-first-attempt'')"

section \<open>Doubling the output cap\<close>

definition resolveOutputTokenRetryBump :: "js_num option \<Rightarrow> js_num option \<Rightarrow> rat option" where
  "resolveOutputTokenRetryBump currentMax modelMax =
     (case currentMax of
        Some (Fin current) \<Rightarrow>
          if current \<le> 0 then None
          else (case modelMax of
              Some NonFinite \<Rightarrow> None
            | Some (Fin modelCap) \<Rightarrow>
                if modelCap \<le> 0 then None
                else if current \<ge> modelCap then None
                else if current * 2 \<le> current then None
                else Some (min (current * 2) modelCap)
            | None \<Rightarrow> if current * 2 \<le> current then None else Some (current * 2))
      | _ \<Rightarrow> None)"

text \<open>The output-cap retry is worthwhile and within the model: the cap it returns is larger than
  the current one, at most twice it, and never above the model's; and it returns one whenever a
  positive cap is below the model's positive cap.\<close>

lemma output_retry_bump:
  "(\<exists>b. resolveOutputTokenRetryBump (Some (Fin c)) (Some (Fin k)) = Some b \<and> c < b \<and> b \<le> 2 * c \<and> b \<le> k)
     = (0 < c \<and> c < k)
   \<and> (resolveOutputTokenRetryBump (Some (Fin c)) (Some (Fin k)) = None) = (\<not> (0 < c \<and> c < k))"
  by (auto simp: resolveOutputTokenRetryBump_def)

end
