(* ===== verification/SnipCompaction.thy ===== *)
theory SnipCompaction
  imports ToolPairing TokenBudget MessageProjection
begin

text \<open>
  Snip compaction (\<open>context/compaction/SnipEngine.ts\<close>) and the protected context it must not cut
  (\<open>context/compaction/protectedContext.ts\<close>): the history is cut into turns or tool cycles, the
  groups to keep are chosen by index, the gaps are replaced by boundary markers and the result is
  stripped of unpaired calls and results.

  Parameters as in \<open>TokenBudget\<close>. A set of indexes is the list of its elements.
\<close>

section \<open>Protected context\<close>

definition DEFAULT_PROTECTED_TOOL_RESULT_NAMES :: "string list" where
  "DEFAULT_PROTECTED_TOOL_RESULT_NAMES =
     [''read_skill'', ''ReadSkill'', ''ask_user_question'', ''AskUserQuestion'', ''todo_write'',
      ''TodoWrite'', ''structured_output'', ''StructuredOutput'', ''agent'', ''Agent'', ''Task'',
      ''task_create'', ''TaskCreate'', ''task_list'', ''TaskList'', ''task_output'', ''TaskOutput'',
      ''task_wait'', ''TaskWait'', ''task_stop'', ''TaskStop'']"

definition protectedToolNameSet :: "string list option \<Rightarrow> string list" where
  "protectedToolNameSet names =
     (case names of None \<Rightarrow> DEFAULT_PROTECTED_TOOL_RESULT_NAMES | Some ns \<Rightarrow> ns)"

fun collect_names_block :: "block \<Rightarrow> (string \<times> string) list \<Rightarrow> (string \<times> string) list" where
  "collect_names_block (ToolCallB c) names = jset (tc_id c) (tc_name c) names"
| "collect_names_block _ names = names"

definition collectToolNamesByCallId :: "message list \<Rightarrow> (string \<times> string) list" where
  "collectToolNamesByCallId ms =
     fold (\<lambda>m names. if role m \<noteq> Assistant then names else fold collect_names_block (content m) names) ms []"

definition isProtectedToolCallId :: "string \<Rightarrow> (string \<times> string) list \<Rightarrow> string list \<Rightarrow> bool" where
  "isProtectedToolCallId i names protectd =
     (case jget names i of None \<Rightarrow> False | Some n \<Rightarrow> n \<in> set protectd)"

fun hasMemoryContextBlock :: "block \<Rightarrow> bool" where
  "hasMemoryContextBlock (TextB t _) = startsWith (trimStart t) ''<memory-context>''"
| "hasMemoryContextBlock _ = False"

fun isProtectedBlock :: "string list \<Rightarrow> (string \<times> string) list option \<Rightarrow> block \<Rightarrow> bool" where
  "isProtectedBlock protectd names (ToolCallB c) = (tc_name c \<in> set protectd)"
| "isProtectedBlock protectd names b =
     (isDirectToolResultBlock b \<and>
      (case names of None \<Rightarrow> False | Some ns \<Rightarrow> isProtectedToolCallId (block_toolCallId b) ns protectd))"

definition isProtectedContextMessage :: "string list \<Rightarrow> (string \<times> string) list option \<Rightarrow> message \<Rightarrow> bool" where
  "isProtectedContextMessage protectd names m \<longleftrightarrow>
     list_ex hasMemoryContextBlock (content m) \<or> list_ex (isProtectedBlock protectd names) (content m)"

text \<open>The tool-result test of \<open>protectedContext.ts\<close>, which does not know media references.\<close>

definition isToolResultOnlyStrict :: "message \<Rightarrow> bool" where
  "isToolResultOnlyStrict m \<longleftrightarrow> content m \<noteq> [] \<and> list_all isDirectToolResultBlock (content m)"

text \<open>Grouping: a message that starts a group closes the current one.\<close>

fun group_by_start :: "(message \<Rightarrow> bool) \<Rightarrow> message list \<Rightarrow> message list \<Rightarrow> message list list" where
  "group_by_start starts current [] = (if current \<noteq> [] then [current] else [])"
| "group_by_start starts current (m # ms) =
     (if starts m \<and> current \<noteq> [] then current # group_by_start starts [m] ms
      else group_by_start starts (current @ [m]) ms)"

definition splitMessagesIntoTurns :: "message list \<Rightarrow> message list list" where
  "splitMessagesIntoTurns ms = group_by_start (\<lambda>m. role m = User \<and> \<not> isToolResultOnlyStrict m) [] ms"

definition collectProtectedTurnIndexes :: "string list \<Rightarrow> message list \<Rightarrow> nat list" where
  "collectProtectedTurnIndexes protectd ms =
     (let names = collectToolNamesByCallId ms; turns = splitMessagesIntoTurns ms
      in filter (\<lambda>i. list_ex (isProtectedContextMessage protectd (Some names)) (turns ! i)) [0..<length turns])"

section \<open>Turns and tool cycles\<close>

definition splitIntoTurns :: "message list \<Rightarrow> message list list" where
  "splitIntoTurns ms = group_by_start (\<lambda>m. role m = User \<and> \<not> isToolResultOnly m) [] ms"

definition splitIntoToolCycles :: "message list \<Rightarrow> message list list" where
  "splitIntoToolCycles ms =
     group_by_start (\<lambda>m. (role m = User \<and> \<not> isToolResultOnly m) \<or> role m = Assistant) [] ms"

fun checkpointPrefixMessageCount :: "message list \<Rightarrow> nat" where
  "checkpointPrefixMessageCount (b # s # ms) =
     (if isCompactBoundary b \<and> isSummaryMessage s then 2 + checkpointPrefixMessageCount ms else 0)"
| "checkpointPrefixMessageCount _ = 0"

fun latest_request_below :: "message list list \<Rightarrow> nat \<Rightarrow> nat option" where
  "latest_request_below groups 0 = None"
| "latest_request_below groups (Suc i) =
     (if list_ex isRealUserRequestMessage (groups ! i) then Some i else latest_request_below groups i)"

definition findLatestUserRequestGroupIndex :: "message list list \<Rightarrow> nat \<Rightarrow> nat option" where
  "findLatestUserRequestGroupIndex groups atOrBefore =
     latest_request_below groups (min (atOrBefore + 1) (length groups))"

definition collectProtectedCycleIndexes :: "message list list \<Rightarrow> message list \<Rightarrow> string list \<Rightarrow> nat list" where
  "collectProtectedCycleIndexes groups ms protectd =
     (let names = collectToolNamesByCallId ms
      in concat (map (\<lambda>i.
           if list_ex (isProtectedContextMessage protectd (Some names)) (groups ! i)
           then i # (case findLatestUserRequestGroupIndex groups i of None \<Rightarrow> [] | Some a \<Rightarrow> [a])
           else []) [0..<length groups]))"

section \<open>Boundaries\<close>

definition createSnipBoundary :: "nat \<Rightarrow> nat \<Rightarrow> nat \<Rightarrow> message" where
  "createSnipBoundary turnsSnipped headTurns tailTurns =
     plain_message User [text_block
       (''<snip-boundary turnsSnipped='' @ [CHR 0x22] @ show_nat turnsSnipped @ [CHR 0x22]
        @ '' headTurns='' @ [CHR 0x22] @ show_nat headTurns @ [CHR 0x22]
        @ '' tailTurns='' @ [CHR 0x22] @ show_nat tailTurns @ [CHR 0x22] @ '' />'')]"

fun isSnipBoundaryContent :: "block list \<Rightarrow> bool" where
  "isSnipBoundaryContent [b] = text_starts ''<snip-boundary'' b"
| "isSnipBoundaryContent _ = False"

definition isSnipBoundaryMessage :: "message \<Rightarrow> bool" where
  "isSnipBoundaryMessage m \<longleftrightarrow> role m = User \<and> isSnipBoundaryContent (content m)"

fun stitch_from :: "nat list \<Rightarrow> nat \<Rightarrow> nat \<Rightarrow> nat \<Rightarrow> nat \<Rightarrow> message list list \<Rightarrow> message list" where
  "stitch_from keep h t skipped i [] = (if skipped > 0 then [createSnipBoundary skipped h t] else [])"
| "stitch_from keep h t skipped i (g # gs) =
     (if i \<notin> set keep then stitch_from keep h t (skipped + 1) (i + 1) gs
      else (if skipped > 0 then [createSnipBoundary skipped h t] else []) @ g
           @ stitch_from keep h t 0 (i + 1) gs)"

definition stitchKeptTurnsWithBoundaries :: "message list list \<Rightarrow> nat list \<Rightarrow> nat \<Rightarrow> nat \<Rightarrow> message list" where
  "stitchKeptTurnsWithBoundaries turns keep h t = stitch_from keep h t 0 0 turns"

section \<open>The engine\<close>

record snip_options =
  so_keepHeadTurns :: nat
  so_keepTailTurns :: nat
  so_enabled :: bool
  so_protectedToolNames :: "string list"

definition mkSnipEngine :: "int option \<Rightarrow> int option \<Rightarrow> bool option \<Rightarrow> string list option \<Rightarrow> snip_options" where
  "mkSnipEngine keepHead keepTail enabled names =
     \<lparr>so_keepHeadTurns = nat (max 0 (case keepHead of None \<Rightarrow> 2 | Some n \<Rightarrow> n)),
      so_keepTailTurns = nat (max 1 (case keepTail of None \<Rightarrow> 4 | Some n \<Rightarrow> n)),
      so_enabled = (case enabled of None \<Rightarrow> True | Some b \<Rightarrow> b),
      so_protectedToolNames = protectedToolNameSet names\<rparr>"

record snip_result =
  sr_messages :: "message list"
  sr_applied :: bool
  sr_turnsSnipped :: nat
  sr_danglingToolCallIds :: "string list"

definition snip_unchanged :: "message list \<Rightarrow> snip_result" where
  "snip_unchanged ms = \<lparr>sr_messages = ms, sr_applied = False, sr_turnsSnipped = 0, sr_danglingToolCallIds = []\<rparr>"

text \<open>The loop from the last group down; it returns the kept indexes and \<open>tailStartIndex\<close>.\<close>

fun tail_loop :: "(nat \<Rightarrow> nat) \<Rightarrow> nat \<Rightarrow> nat \<Rightarrow> rat option \<Rightarrow> nat \<Rightarrow> nat \<Rightarrow> nat \<Rightarrow> nat list \<times> nat" where
  "tail_loop tokens n tailFloor target acc tailStart 0 = ([], tailStart)"
| "tail_loop tokens n tailFloor target acc tailStart (Suc i) =
     (let mustKeep = n - i \<le> tailFloor;
          over = (case target of None \<Rightarrow> False | Some g \<Rightarrow> of_nat (acc + tokens i) > max 1 g)
      in if \<not> mustKeep \<and> over then ([], tailStart)
         else (let (keep, start) = tail_loop tokens n tailFloor target (acc + tokens i) i i
               in (i # keep, start)))"

definition snip_target :: "nat \<Rightarrow> rat option \<Rightarrow> rat option \<Rightarrow> rat option" where
  "snip_target stablePrefixTokens targetTokens targetTotalTokens =
     (case targetTotalTokens of
        Some t \<Rightarrow> Some (max 1 (of_int (floor t) - of_nat stablePrefixTokens))
      | None \<Rightarrow> targetTokens)"

definition snip_keep :: "(message list \<Rightarrow> nat) \<Rightarrow> snip_options \<Rightarrow> rat option \<Rightarrow> message list \<Rightarrow> message list list \<Rightarrow> nat list" where
  "snip_keep estimate opts target liveMessages turns =
     (let n = length turns;
          head = (if target = None then [0..<min (so_keepHeadTurns opts) n] else []);
          tailFloor = min (if target \<noteq> None then 1 else so_keepTailTurns opts) n;
          (tail, tailStart) = tail_loop (\<lambda>i. estimate (turns ! i)) n tailFloor target 0 n n;
          anchor = (case findLatestUserRequestGroupIndex turns tailStart of None \<Rightarrow> [] | Some a \<Rightarrow> [a]);
          protectd = (if target \<noteq> None
            then collectProtectedCycleIndexes turns liveMessages (so_protectedToolNames opts)
            else collectProtectedTurnIndexes (so_protectedToolNames opts) liveMessages)
      in dedupe (head @ tail @ anchor @ protectd))"

definition snip ::
    "(message list \<Rightarrow> nat) \<Rightarrow> snip_options \<Rightarrow> message list \<Rightarrow> rat option \<Rightarrow> rat option \<Rightarrow> snip_result" where
  "snip estimate opts ms targetTokens targetTotalTokens =
     (if \<not> so_enabled opts then snip_unchanged ms
      else (let prefixCount = checkpointPrefixMessageCount ms;
                stablePrefix = take prefixCount ms;
                target = snip_target (estimate stablePrefix) targetTokens targetTotalTokens;
                liveMessages = drop prefixCount ms;
                turns = (if target \<noteq> None then splitIntoToolCycles liveMessages else splitIntoTurns liveMessages)
            in if target = None \<and> length turns \<le> so_keepHeadTurns opts + so_keepTailTurns opts
               then snip_unchanged ms
               else (let keep = snip_keep estimate opts target liveMessages turns
                     in if length keep \<ge> length turns then snip_unchanged ms
                        else (let projected = stablePrefix @ stitchKeptTurnsWithBoundaries turns keep
                                    (so_keepHeadTurns opts) (so_keepTailTurns opts);
                                  resultIds = collectToolResultIds projected;
                                  callIds = collectToolCallIds projected;
                                  withoutDanglingCalls = stripUnpairedToolCalls projected resultIds;
                                  cleaned = stripUnpairedToolResults withoutDanglingCalls
                                    (collectToolCallIds withoutDanglingCalls)
                              in \<lparr>sr_messages = ensureTrailingUserMessage cleaned,
                                  sr_applied = True,
                                  sr_turnsSnipped = length turns - length keep,
                                  sr_danglingToolCallIds = filter (\<lambda>i. i \<notin> set resultIds) callIds\<rparr>))))"

text \<open>The estimate the engine is built with.\<close>

definition snip_estimate :: "(string \<Rightarrow> nat) \<Rightarrow> (js_value \<Rightarrow> string option) \<Rightarrow> message list \<Rightarrow> nat" where
  "snip_estimate ct js ms = estimateForMessages ct js default_budget ms"

definition projectSnippedView :: "(message list \<Rightarrow> nat) \<Rightarrow> snip_options \<Rightarrow> message list \<Rightarrow> message list" where
  "projectSnippedView estimate opts ms = sr_messages (snip estimate opts ms None None)"

section \<open>Grouping loses nothing\<close>

lemma concat_group_by_start: "concat (group_by_start starts current ms) = current @ ms"
  by (induction starts current ms rule: group_by_start.induct) auto

lemma groups_nonempty: "g \<in> set (group_by_start starts current ms) \<Longrightarrow> g \<noteq> []"
  by (induction starts current ms rule: group_by_start.induct) (auto split: if_splits)

lemma checkpointPrefix_le: "checkpointPrefixMessageCount ms \<le> length ms"
  by (induction ms rule: checkpointPrefixMessageCount.induct) auto

lemma tail_loop_unconstrained: "tail_loop tokens n f None acc ts i = (rev [0..<i], if i = 0 then ts else 0)"
  by (induction i arbitrary: acc ts) auto

lemma tail_loop_bound: "set (fst (tail_loop tokens n f g acc ts i)) \<subseteq> {..<i}"
proof (induction i arbitrary: acc ts)
  case 0
  then show ?case by simp
next
  case (Suc i)
  obtain k s where e: "tail_loop tokens n f g (acc + tokens i) i i = (k, s)"
    by (cases "tail_loop tokens n f g (acc + tokens i) i i")
  with Suc have "set k \<subseteq> {..<i}" by (metis fst_conv)
  then show ?case by (auto simp: Let_def e)
qed

lemma tail_loop_last:
  "0 < n \<Longrightarrow> 1 \<le> f \<Longrightarrow> n - 1 \<in> set (fst (tail_loop tokens n f g acc ts n))"
  by (cases n) (auto simp: Let_def split: prod.splits)

lemma latest_request_below_bound: "latest_request_below gs k = Some i \<Longrightarrow> i < k"
  by (induction k) (auto split: if_splits)

lemma findLatest_bound: "findLatestUserRequestGroupIndex gs k = Some i \<Longrightarrow> i < length gs"
  using latest_request_below_bound by (fastforce simp: findLatestUserRequestGroupIndex_def)

text \<open>Without a token target the engine never cuts anything: whatever the turn counts configured,
  the tail loop keeps every turn, so \<open>snip\<close> and \<open>projectSnippedView\<close> return their input. (The engine's
  own documentation promises to keep only the first and last turns in this case.)\<close>

lemma snip_without_target_noop:
  "snip estimate opts ms None None = snip_unchanged ms \<and> projectSnippedView estimate opts ms = ms"
proof -
  have "length turns \<le> length (snip_keep estimate opts None live turns)" for live turns
  proof -
    have "set [0..<length turns] \<subseteq> set (snip_keep estimate opts None live turns)"
      by (auto simp: snip_keep_def Let_def tail_loop_unconstrained)
    then have "card (set [0..<length turns]) \<le> card (set (snip_keep estimate opts None live turns))"
      by (intro card_mono) auto
    also have "\<dots> \<le> length (snip_keep estimate opts None live turns)" by (rule card_length)
    finally show ?thesis by simp
  qed
  then have "snip estimate opts ms None None = snip_unchanged ms"
    by (simp add: snip_def snip_target_def Let_def)
  then show ?thesis by (simp add: projectSnippedView_def snip_unchanged_def)
qed


section \<open>What a snip keeps\<close>

lemma in_snip_keep_constrained:
  "set (snip_keep estimate opts (Some g) live turns) =
     set (fst (tail_loop (\<lambda>i. estimate (turns ! i)) (length turns) (min 1 (length turns)) (Some g) 0
        (length turns) (length turns)))
     \<union> set_option (findLatestUserRequestGroupIndex turns
        (snd (tail_loop (\<lambda>i. estimate (turns ! i)) (length turns) (min 1 (length turns)) (Some g) 0
           (length turns) (length turns))))
     \<union> set (collectProtectedCycleIndexes turns live (so_protectedToolNames opts))"
  by (cases "tail_loop (\<lambda>i. estimate (turns ! i)) (length turns) (min 1 (length turns)) (Some g) 0
        (length turns) (length turns)")
     (auto simp: snip_keep_def Let_def split: option.splits)

lemma protectedCycle_bound: "set (collectProtectedCycleIndexes gs ms ps) \<subseteq> {..<length gs}"
  by (auto simp: collectProtectedCycleIndexes_def Let_def dest: findLatest_bound [OF sym]
      split: if_splits option.splits)

lemma snip_keep_bound: "set (snip_keep estimate opts (Some g) live turns) \<subseteq> {..<length turns}"
proof -
  have "set_option (findLatestUserRequestGroupIndex turns k) \<subseteq> {..<length turns}" for k
    by (cases "findLatestUserRequestGroupIndex turns k") (auto dest: findLatest_bound)
  then show ?thesis
    unfolding in_snip_keep_constrained using tail_loop_bound protectedCycle_bound by fast
qed

definition groups_at :: "nat list \<Rightarrow> nat \<Rightarrow> message list list \<Rightarrow> message list" where
  "groups_at keep i gs = concat (map snd (filter (\<lambda>(j, g). j \<in> set keep) (zip [i..<i + length gs] gs)))"

lemma groups_at_Cons:
  "groups_at keep i (g # gs) = (if i \<in> set keep then g else []) @ groups_at keep (Suc i) gs"
proof -
  have "[i..<i + length (g # gs)] = i # [Suc i..<Suc i + length gs]"
    by (simp add: upt_conv_Cons del: upt_Suc)
  then show ?thesis by (simp only: groups_at_def zip_Cons_Cons filter.simps) auto
qed

lemma groups_at_Nil [simp]: "groups_at keep i [] = []"
  by (simp add: groups_at_def)

lemma subseq_stitch: "subseq (groups_at keep i gs) (stitch_from keep h t skipped i gs)"
proof (induction gs arbitrary: i skipped)
  case Nil
  then show ?case by simp
next
  case (Cons g gs)
  have drop_marker: "subseq xs ys \<Longrightarrow> subseq xs (zs @ ys)" for xs ys zs :: "message list"
    by (rule subseq_drop_many)
  have "subseq (g @ groups_at keep (Suc i) gs) (g @ stitch_from keep h t 0 (Suc i) gs)"
    using Cons by (simp add: subseq_append_le_same_iff list_emb_append_mono)
  then show ?case
    using Cons [of "Suc i" "Suc skipped"] by (auto simp: groups_at_Cons intro: drop_marker subseq_Cons')
qed

lemma stitch_origin:
  "set (stitch_from keep h t skipped i gs) \<subseteq> set (concat gs) \<union> {m. \<exists>k. m = createSnipBoundary k h t}"
proof (induction gs arbitrary: i skipped)
  case Nil
  then show ?case by auto
next
  case (Cons g gs)
  show ?case
    using Cons [of "skipped + 1" "i + 1"] Cons [of 0 "i + 1"] by auto
qed

lemma stitch_has_boundary:
  "0 < skipped \<or> (\<exists>j. i \<le> j \<and> j < i + length gs \<and> j \<notin> set keep) \<Longrightarrow>
   \<exists>k. createSnipBoundary k h t \<in> set (stitch_from keep h t skipped i gs)"
proof (induction gs arbitrary: i skipped)
  case Nil
  then show ?case by auto
next
  case (Cons g gs)
  show ?case
  proof (cases "i \<in> set keep")
    case False
    then show ?thesis using Cons.IH [of "skipped + 1" "i + 1"] by simp
  next
    case True
    show ?thesis
    proof (cases "0 < skipped")
      case True
      with \<open>i \<in> set keep\<close> show ?thesis by auto
    next
      case False
      with Cons.prems \<open>i \<in> set keep\<close>
      obtain j where "i \<le> j" "j < i + length (g # gs)" "j \<notin> set keep" by blast
      with \<open>i \<in> set keep\<close> have "Suc i \<le> j" "j < Suc i + length gs"
        by (auto simp: le_less Suc_le_eq)
      with \<open>j \<notin> set keep\<close> Cons.IH [of 0 "Suc i"] True False show ?thesis by auto
    qed
  qed
qed

lemma boundary_content: "content (createSnipBoundary k h t) \<noteq> []" "role (createSnipBoundary k h t) = User"
  "filter (keep_result_block ids) (content (createSnipBoundary k h t)) = content (createSnipBoundary k h t)"
  by (simp_all add: createSnipBoundary_def keep_result_block_def)

lemma boundary_survives:
  "createSnipBoundary k h t \<in> set ms \<Longrightarrow> createSnipBoundary k h t \<in> set (strip_unpaired ms)"
  unfolding strip_unpaired_def stripUnpairedToolCalls_def stripUnpairedToolResults_def Let_def
  by (force simp: boundary_content)

text \<open>C25. A snip leaves a history the providers accept and never snips in vain: when it applies, at
  least one group is gone, calls and results name the same ids and the last message is the user's;
  when it does not apply, the input comes back untouched.\<close>

theorem snip_result_ok:
  "(let r = snip estimate opts ms target whole
    in if sr_applied r
       then paired (sr_messages r) \<and> sr_messages r \<noteq> [] \<and> role (last (sr_messages r)) = User
            \<and> 0 < sr_turnsSnipped r
       else r = snip_unchanged ms)"
proof (cases "sr_applied (snip estimate opts ms target whole)")
  case False
  then show ?thesis by (auto simp: snip_def snip_unchanged_def Let_def split: if_splits)
next
  case True
  then obtain keep turns prefix where
    r: "sr_messages (snip estimate opts ms target whole)
      = ensureTrailingUserMessage (strip_unpaired (prefix @ stitch_from keep (so_keepHeadTurns opts) (so_keepTailTurns opts) 0 0 turns))"
    and n: "sr_turnsSnipped (snip estimate opts ms target whole) = length turns - length keep"
    and less: "length keep < length turns"
    by (auto simp: snip_def snip_unchanged_def strip_unpaired_def stitchKeptTurnsWithBoundaries_def
        Let_def not_le split: if_splits)
  have "card (set keep) < card {..<length turns}"
    using less card_length [of keep] by simp
  then obtain j where "j < length turns" "j \<notin> set keep"
    by (metis card_mono finite_set lessThan_iff not_less subsetI)
  then obtain k where "createSnipBoundary k (so_keepHeadTurns opts) (so_keepTailTurns opts)
      \<in> set (stitch_from keep (so_keepHeadTurns opts) (so_keepTailTurns opts) 0 0 turns)"
    using stitch_has_boundary [of 0 0 turns keep] by auto
  then have "strip_unpaired (prefix @ stitch_from keep (so_keepHeadTurns opts) (so_keepTailTurns opts) 0 0 turns) \<noteq> []"
    using boundary_survives by (metis Un_iff empty_iff list.set(1) set_append)
  then have "role (last (sr_messages (snip estimate opts ms target whole))) = User"
    and "sr_messages (snip estimate opts ms target whole) \<noteq> []"
    unfolding r by (rule ensureTrailing_last, simp add: ensureTrailingUserMessage_def)
  moreover have "paired (sr_messages (snip estimate opts ms target whole))"
    unfolding r by (rule paired_ensureTrailing [OF paired_strip_unpaired])
  ultimately show ?thesis using n less True by (simp add: Let_def)
qed

text \<open>With a token target, what is protected survives the cut: the kept groups contain every
  protected tool cycle together with the request that led to it, and the latest cycle; they appear in
  order in the stitched history, which otherwise holds only boundary markers.\<close>

lemma snip_keeps_protected:
  fixes live :: "message list" and opts :: snip_options and estimate :: "message list \<Rightarrow> nat" and g :: rat
  defines "turns \<equiv> splitIntoToolCycles live"
  defines "keep \<equiv> snip_keep estimate opts (Some g) live turns"
  defines "out \<equiv> stitchKeptTurnsWithBoundaries turns keep (so_keepHeadTurns opts) (so_keepTailTurns opts)"
  shows "set (collectProtectedCycleIndexes turns live (so_protectedToolNames opts)) \<subseteq> set keep
    \<and> (live = [] \<or> length turns - 1 \<in> set keep)
    \<and> subseq (groups_at keep 0 turns) out
    \<and> set out \<subseteq> set live \<union> {m. \<exists>k. m = createSnipBoundary k (so_keepHeadTurns opts) (so_keepTailTurns opts)}"
proof -
  have "concat turns = live" by (simp add: turns_def splitIntoToolCycles_def concat_group_by_start)
  moreover have "length turns - 1 \<in> set keep" if "live \<noteq> []"
  proof -
    from that \<open>concat turns = live\<close> have "0 < length turns" by auto
    then have "1 \<le> min 1 (length turns)" by (simp add: Suc_le_eq)
    with \<open>0 < length turns\<close> show ?thesis
      unfolding keep_def in_snip_keep_constrained by (intro UnI1 tail_loop_last)
  qed
  moreover have "set (collectProtectedCycleIndexes turns live (so_protectedToolNames opts)) \<subseteq> set keep"
    unfolding keep_def in_snip_keep_constrained by auto
  ultimately show ?thesis
    using subseq_stitch [of keep 0 turns] stitch_origin [of keep _ _ 0 0 turns]
    by (auto simp: out_def stitchKeptTurnsWithBoundaries_def)
qed

end
