(* ===== verification/Paths.thy ===== *)
theory Paths
  imports Prelude
begin

text \<open>
  POSIX paths as the runtime's \<open>node:path\<close> computes them (\<open>resolve\<close>, \<open>relative\<close>, \<open>isAbsolute\<close>), and
  the path checks of \<open>tool/builtin/filesystem/pathSafety.ts\<close> built on them: containment in a rootDir and
  the resolution of the path a write would land on, symbolic links followed component by component.

  The file system is a parameter: \<open>realpath\<close> and \<open>readlink\<close> with \<open>None\<close> where the call throws.
  Windows separators are not modelled.
\<close>

section \<open>Segments\<close>

definition slash :: char where
  "slash = CHR ''/''"

definition isAbsolute :: "string \<Rightarrow> bool" where
  "isAbsolute p \<longleftrightarrow> p \<noteq> [] \<and> hd p = slash"

text \<open>Normalisation of an absolute path: empty and dot segments go, a dot-dot removes its parent.\<close>

fun norm_segs :: "string list \<Rightarrow> string list \<Rightarrow> string list" where
  "norm_segs acc [] = rev acc"
| "norm_segs acc (s # ss) =
     (if s = [] \<or> s = ''.'' then norm_segs acc ss
      else if s = ''..'' then norm_segs (tl acc) ss
      else norm_segs (s # acc) ss)"

definition segs_of :: "string \<Rightarrow> string list" where
  "segs_of p = norm_segs [] (split_char slash p)"

definition render :: "string list \<Rightarrow> string" where
  "render ss = slash # join [slash] ss"

text \<open>\<open>path.resolve(cwd, p)\<close> for an absolute \<open>cwd\<close>.\<close>

definition resolve :: "string \<Rightarrow> string \<Rightarrow> string" where
  "resolve cwd p = render (segs_of (if isAbsolute p then p else cwd @ [slash] @ p))"

fun strip_common :: "string list \<Rightarrow> string list \<Rightarrow> string list \<times> string list" where
  "strip_common (x # xs) (y # ys) = (if x = y then strip_common xs ys else (x # xs, y # ys))"
| "strip_common xs ys = (xs, ys)"

text \<open>\<open>path.relative(from, to)\<close> for absolute paths.\<close>

definition relative :: "string \<Rightarrow> string \<Rightarrow> string" where
  "relative fromPath toPath =
     (let (up, down) = strip_common (segs_of fromPath) (segs_of toPath)
      in join [slash] (replicate (length up) ''..'' @ down))"

section \<open>Containment\<close>

definition isPathWithinRoot :: "string \<Rightarrow> string \<Rightarrow> bool" where
  "isPathWithinRoot candidate rootDir =
     (let rel = relative rootDir candidate
      in rel = [] \<or> (\<not> startsWith rel ''..'' \<and> \<not> isAbsolute rel))"

definition proper_seg :: "string \<Rightarrow> bool" where
  "proper_seg s \<longleftrightarrow> s \<noteq> [] \<and> s \<noteq> ''.'' \<and> s \<noteq> ''..'' \<and> slash \<notin> set s"

lemma norm_segs_proper:
  "\<forall>s\<in>set acc. proper_seg s \<Longrightarrow> \<forall>s\<in>set ss. slash \<notin> set s \<Longrightarrow> \<forall>s\<in>set (norm_segs acc ss). proper_seg s"
proof (induction ss arbitrary: acc)
  case Nil
  then show ?case by simp
next
  case (Cons s ss)
  have tl: "\<forall>t\<in>set (tl acc). proper_seg t" using Cons.prems(1) by (cases acc) simp_all
  have rest: "\<forall>s\<in>set ss. slash \<notin> set s" using Cons.prems(2) by simp
  have "\<forall>t\<in>set (s # acc). proper_seg t" if "s \<noteq> []" "s \<noteq> ''.''" "s \<noteq> ''..''"
    using that Cons.prems by (simp add: proper_seg_def)
  then have new: "\<forall>t\<in>set (norm_segs (s # acc) ss). proper_seg t"
    if "s \<noteq> []" "s \<noteq> ''.''" "s \<noteq> ''..''"
    using that Cons.IH [OF _ rest] by blast
  show ?case
  proof (cases "s = [] \<or> s = ''.''")
    case True
    then show ?thesis using Cons.IH [OF Cons.prems(1) rest] by (simp only: norm_segs.simps if_True)
  next
    case no: False
    show ?thesis
    proof (cases "s = ''..''")
      case True
      then have "norm_segs acc (s # ss) = norm_segs (tl acc) ss" using no by simp
      then show ?thesis using Cons.IH [OF tl rest] by metis
    next
      case False
      then show ?thesis using no new by (simp only: norm_segs.simps if_False) blast
    qed
  qed
qed

lemma segs_of_proper: "\<forall>s\<in>set (segs_of p). proper_seg s"
  unfolding segs_of_def by (rule norm_segs_proper) (auto dest: split_char_no_sep)

lemma norm_segs_id: "\<forall>s\<in>set ss. proper_seg s \<Longrightarrow> norm_segs acc ss = rev acc @ ss"
  by (induction acc ss rule: norm_segs.induct) (auto simp: proper_seg_def)

lemma split_char_no: "slash \<notin> set s \<Longrightarrow> split_char slash s = [s]"
  by (induction s) auto

lemma split_char_append:
  "slash \<notin> set s \<Longrightarrow> split_char slash (s @ slash # t) = s # split_char slash t"
  by (induction s) auto

lemma split_join: "ss \<noteq> [] \<Longrightarrow> \<forall>s\<in>set ss. slash \<notin> set s \<Longrightarrow> split_char slash (join [slash] ss) = ss"
proof (induction "[slash]" ss rule: join.induct)
  case (3 x y xs)
  then show ?case by (simp add: split_char_append)
qed (simp_all add: split_char_no)

lemma segs_of_render: "\<forall>s\<in>set ss. proper_seg s \<Longrightarrow> segs_of (render ss) = ss"
proof (cases "ss = []")
  case False
  assume p: "\<forall>s\<in>set ss. proper_seg s"
  then have "split_char slash (join [slash] ss) = ss"
    using False by (intro split_join) (auto simp: proper_seg_def)
  with p show ?thesis by (simp add: segs_of_def render_def norm_segs_id)
qed (simp add: segs_of_def render_def)

lemma segs_of_resolve [simp]:
  "segs_of (resolve cwd p) = segs_of (if isAbsolute p then p else cwd @ [slash] @ p)"
  unfolding resolve_def by (rule segs_of_render [OF segs_of_proper])

lemma strip_common_append: "strip_common xs (xs @ ys) = ([], ys)"
  by (induction xs) (cases ys, simp_all)

lemma strip_common_split:
  "strip_common xs ys = (u, d) \<Longrightarrow> \<exists>c. xs = c @ u \<and> ys = c @ d"
proof (induction xs ys rule: strip_common.induct)
  case (1 x xs y ys)
  show ?case
  proof (cases "x = y")
    case True
    with 1 obtain c where "xs = c @ u \<and> ys = c @ d" by auto
    with True have "x # xs = (x # c) @ u \<and> y # ys = (x # c) @ d" by simp
    then show ?thesis by blast
  next
    case False
    with "1.prems" show ?thesis by auto
  qed
qed auto

lemma proper_seg_hd:
  assumes "proper_seg s"
  shows "s \<noteq> []" and "hd s \<noteq> slash"
  using assms hd_in_set [of s] unfolding proper_seg_def by metis+

lemma join_not_absolute: "\<forall>s\<in>set ss. proper_seg s \<Longrightarrow> \<not> isAbsolute (join [slash] ss)"
proof (cases ss)
  case (Cons s ts)
  assume "\<forall>s\<in>set ss. proper_seg s"
  then have "proper_seg s" using Cons by simp
  then have "s \<noteq> []" "hd s \<noteq> slash" by (rule proper_seg_hd)+
  then show ?thesis using Cons by (cases ts) (simp_all add: isAbsolute_def hd_append)
qed (simp add: isAbsolute_def)

lemma join_Nil_iff: "\<forall>s\<in>set ss. s \<noteq> [] \<Longrightarrow> (join [slash] ss = []) = (ss = [])"
  by (induction "[slash]" ss rule: join.induct) auto

lemma prefix_join_dotdot:
  assumes "\<forall>s\<in>set ss. proper_seg s" and "ss \<noteq> []"
  shows "prefix ''..'' (join [slash] ss) \<longleftrightarrow> prefix ''..'' (hd ss)"
proof -
  obtain s ts where ss: "ss = s # ts" using assms(2) by (cases ss) auto
  have s: "proper_seg s" using assms(1) ss by simp
  show ?thesis
  proof (cases ts)
    case Nil
    then show ?thesis by (simp add: ss)
  next
    case (Cons t ts')
    have "prefix ''..'' (s @ slash # x) \<longleftrightarrow> prefix ''..'' s" for x
      using s by (auto simp: proper_seg_def prefix_def slash_def append_eq_Cons_conv Cons_eq_append_conv)
    then show ?thesis by (simp add: ss Cons)
  qed
qed

lemma within_root_iff:
  "isPathWithinRoot candidate rootDir =
     (\<exists>rest. segs_of candidate = segs_of rootDir @ rest
             \<and> (rest = [] \<or> \<not> startsWith (hd rest) ''..''))"
proof -
  obtain u d where ud: "strip_common (segs_of rootDir) (segs_of candidate) = (u, d)"
    by (cases "strip_common (segs_of rootDir) (segs_of candidate)")
  then obtain c where c: "segs_of rootDir = c @ u" "segs_of candidate = c @ d"
    using strip_common_split by blast
  have proper_d: "\<forall>s\<in>set d. proper_seg s" using segs_of_proper [of candidate] c(2) by auto
  show ?thesis
  proof (cases u)
    case Nil
    have "\<not> isAbsolute (join [slash] d)"
      using proper_d by (rule join_not_absolute)
    moreover have "(join [slash] d = []) = (d = [])"
      using proper_d by (intro join_Nil_iff) (auto simp: proper_seg_def)
    moreover have "d \<noteq> [] \<longrightarrow> startsWith (join [slash] d) ''..'' = startsWith (hd d) ''..''"
      using prefix_join_dotdot [OF proper_d] by (simp add: startsWith_def)
    ultimately have eq: "isPathWithinRoot candidate rootDir \<longleftrightarrow> d = [] \<or> \<not> startsWith (hd d) ''..''"
      using Nil by (cases "d = []") (simp_all add: isPathWithinRoot_def relative_def ud Let_def)
    have "(\<exists>rest. segs_of candidate = segs_of rootDir @ rest \<and> P rest) \<longleftrightarrow> P d" for P
      using c Nil by simp
    then show ?thesis using eq by simp
  next
    case (Cons x xs)
    have up: "startsWith (join [slash] (''..'' # zs)) ''..''" for zs
      by (cases zs) (simp_all add: startsWith_def)
    have "\<not> (\<exists>rest. segs_of candidate = segs_of rootDir @ rest)"
    proof
      assume "\<exists>rest. segs_of candidate = segs_of rootDir @ rest"
      then obtain rest where "segs_of candidate = segs_of rootDir @ rest" by blast
      then have "strip_common (segs_of rootDir) (segs_of candidate) = ([], rest)"
        by (simp add: strip_common_append)
      with ud Cons show False by simp
    qed
    moreover have "join [slash] (''..'' # zs) \<noteq> []" for zs
      by (cases zs) simp_all
    ultimately show ?thesis
      using Cons up by (auto simp: isPathWithinRoot_def relative_def ud Let_def simp del: join.simps)
  qed
qed

text \<open>The containment check is sound and nearly complete: a candidate passes exactly when the
  normalised rootDir is a prefix of the normalised candidate and the next segment does not start with
  two dots. So nothing outside the rootDir passes, whatever dot-dot segments the candidate contains.\<close>

lemma isPathWithinRoot_iff:
  "isPathWithinRoot candidate rootDir =
     (\<exists>rest. segs_of candidate = segs_of rootDir @ rest
             \<and> (case rest of [] \<Rightarrow> True | s # _ \<Rightarrow> \<not> startsWith s ''..''))"
  unfolding within_root_iff by (intro ex_cong1 conj_cong refl) (simp split: list.split)

section \<open>Symbolic links\<close>

text \<open>What the code asks of \<open>node:fs\<close>: \<open>None\<close> is the call throwing. The other fields are the host's
  home directory, the process's working directory and the hash of a session id.\<close>

record host =
  realpath :: "string \<Rightarrow> string option"
  readlink :: "string \<Rightarrow> string option"
  isRegularFile :: "string \<Rightarrow> bool"
  homedir :: string
  processCwd :: string
  sha256hex :: "string \<Rightarrow> string"

definition MAX_SYMLINK_HOPS :: nat where
  "MAX_SYMLINK_HOPS = 40"

definition parse_root :: "string \<Rightarrow> string" where
  "parse_root p = (if isAbsolute p then [slash] else [])"

text \<open>\<open>path.join(a, b)\<close> and \<open>path.dirname(a)\<close> for an absolute \<open>a\<close>.\<close>

definition path_join :: "string \<Rightarrow> string \<Rightarrow> string" where
  "path_join a b = render (segs_of (a @ [slash] @ b))"

definition dirname :: "string \<Rightarrow> string" where
  "dirname a = render (butlast (segs_of a))"

text \<open>The loop over the pending components; a link puts its target's components in front.\<close>

function walk_links :: "host \<Rightarrow> string \<Rightarrow> string list \<Rightarrow> nat \<Rightarrow> string option" where
  "walk_links h current [] hops = Some current"
| "walk_links h current (component # pending) hops =
     (if component = [] \<or> component = ''.'' then walk_links h current pending hops
      else if component = ''..'' then walk_links h (dirname current) pending hops
      else
        (let candidate = path_join current component
         in case readlink h candidate of
              Some linkTarget \<Rightarrow>
                if hops + 1 > MAX_SYMLINK_HOPS then None
                else if isAbsolute linkTarget
                  then walk_links h (parse_root linkTarget)
                         (split_char slash (drop (length (parse_root linkTarget)) linkTarget) @ pending)
                         (hops + 1)
                  else walk_links h current (split_char slash linkTarget @ pending) (hops + 1)
            | None \<Rightarrow>
                walk_links h (case realpath h candidate of Some r \<Rightarrow> r | None \<Rightarrow> candidate) pending hops))"
  by pat_completeness auto
termination
  by (relation "measures [\<lambda>(h, c, p, n). Suc MAX_SYMLINK_HOPS - n, \<lambda>(h, c, p, n). length p]") auto

definition resolveRealWritePath :: "host \<Rightarrow> string \<Rightarrow> string option" where
  "resolveRealWritePath h absPath =
     (case realpath h absPath of
        Some target \<Rightarrow> Some target
      | None \<Rightarrow>
          walk_links h (parse_root absPath)
            (split_char slash (drop (length (parse_root absPath)) absPath)) 0)"

definition DEFAULT_WRITE_DENY_DIRECTORIES :: "string list" where
  "DEFAULT_WRITE_DENY_DIRECTORIES = [''.git'', ''node_modules'', ''dist'']"

definition isWriteDenied :: "string \<Rightarrow> bool" where
  "isWriteDenied rel =
     (hd (split_char slash rel) \<in> set DEFAULT_WRITE_DENY_DIRECTORIES)"

definition isRealWriteDenied :: "host \<Rightarrow> string option \<Rightarrow> string list \<Rightarrow> bool" where
  "isRealWriteDenied h realWritePath roots =
     (case realWritePath of
        None \<Rightarrow> False
      | Some target \<Rightarrow>
          if target = [] then False
          else list_ex (\<lambda>rootDir. list_ex (\<lambda>directory.
                 case resolveRealWritePath h (path_join rootDir directory) of
                   None \<Rightarrow> False
                 | Some protectedRoot \<Rightarrow> isPathWithinRoot target protectedRoot)
               DEFAULT_WRITE_DENY_DIRECTORIES) roots)"

definition findRealRoot :: "host \<Rightarrow> string \<Rightarrow> string list \<Rightarrow> string option" where
  "findRealRoot h realPath roots =
     find (\<lambda>realRoot. isPathWithinRoot realPath realRoot)
       (map (\<lambda>rootDir. case realpath h rootDir of Some r \<Rightarrow> r | None \<Rightarrow> resolve (processCwd h) rootDir)
          roots)"

section \<open>The workspace check of the file tools\<close>

datatype permission_mode = ModeDefault | ModePlan | ModeBypass

record path_context =
  pc_cwd :: string
  pc_directories :: "string list"
  pc_mode :: permission_mode
  pc_allowedReadFiles :: "string list"
  pc_pilotHome :: "string option"
  pc_sessionId :: string

record path_options =
  forWrite :: bool
  mustExist :: bool
  allowOutsideWorkspace :: bool
  allowRegisteredReadFiles :: bool

datatype path_error = InvalidToolInput | PathNotAllowed | FileNotFound

record safe_path =
  absolutePath :: string
  relativePath :: string
  rootPath :: string

definition pilotHome :: "host \<Rightarrow> path_context \<Rightarrow> string" where
  "pilotHome h ctx =
     resolve (processCwd h)
       (case pc_pilotHome ctx of Some p \<Rightarrow> p | None \<Rightarrow> path_join (homedir h) ''.pilotdeck'')"

definition isManagedImAttachmentFile :: "host \<Rightarrow> string \<Rightarrow> path_context \<Rightarrow> bool" where
  "isManagedImAttachmentFile h realPath ctx =
     (let dir = path_join (pilotHome h ctx) ''im-attachments'';
          rootDir = (case realpath h dir of Some r \<Rightarrow> r | None \<Rightarrow> dir)
      in isPathWithinRoot realPath rootDir \<and> isRegularFile h realPath)"

text \<open>The pattern of 36 lower-case hexadecimal digits or dashes and an image extension.\<close>

definition is_generated_name :: "string \<Rightarrow> bool" where
  "is_generated_name name =
     (list_all (\<lambda>c. c \<in> set ''0123456789abcdef-'') (take 36 name) \<and> 36 \<le> length name
      \<and> drop 36 name \<in> set [''.png'', ''.jpg'', ''.webp''])"

definition basename :: "string \<Rightarrow> string" where
  "basename p = (let ss = segs_of p in if ss = [] then [] else last ss)"

definition isManagedGeneratedImageFile :: "host \<Rightarrow> string \<Rightarrow> path_context \<Rightarrow> bool" where
  "isManagedGeneratedImageFile h realPath ctx =
     (if \<not> is_generated_name (basename realPath) then False
      else
        (let dir = path_join (path_join (pilotHome h ctx) ''generated-images'')
                     (sha256hex h (pc_sessionId ctx))
         in case realpath h dir of
              None \<Rightarrow> False
            | Some realRoot \<Rightarrow> isPathWithinRoot realPath realRoot \<and> isRegularFile h realPath))"

definition or_dot :: "string \<Rightarrow> string" where
  "or_dot p = (if p = [] then ''.'' else p)"

definition resolvePilotDeckWorkspacePath ::
    "host \<Rightarrow> path_context \<Rightarrow> path_options \<Rightarrow> string \<Rightarrow> path_error + safe_path" where
  "resolvePilotDeckWorkspacePath h ctx opts inputPath =
     (if inputPath = [] \<or> CHR 0x00 \<in> set inputPath then Inl InvalidToolInput
      else
        (let absPath = resolve (processCwd h)
                     (if isAbsolute inputPath then inputPath else path_join (pc_cwd ctx) inputPath);
             realWrite = (if forWrite opts then resolveRealWritePath h absPath else None);
             roots = map (resolve (processCwd h)) (pc_cwd ctx # pc_directories ctx);
             relCwd = or_dot (relative (pc_cwd ctx) absPath);
             underCwd = Inr \<lparr>absolutePath = absPath, relativePath = relCwd, rootPath = pc_cwd ctx\<rparr>
         in if forWrite opts \<and> realWrite = None then Inl PathNotAllowed
            else if pc_mode ctx = ModeBypass then
              (if forWrite opts \<and> (isWriteDenied relCwd \<or> isRealWriteDenied h realWrite roots)
               then Inl PathNotAllowed else underCwd)
            else (case find (\<lambda>candidate. isPathWithinRoot absPath candidate) roots of
              None \<Rightarrow>
                (let registered = \<not> forWrite opts \<and> allowRegisteredReadFiles opts;
                     target = realpath h absPath;
                     allowed = (case target of None \<Rightarrow> False
                       | Some r \<Rightarrow>
                           list_ex (\<lambda>p. r = (case realpath h p of Some q \<Rightarrow> q
                                               | None \<Rightarrow> resolve (processCwd h) p))
                             (pc_allowedReadFiles ctx)
                           \<or> isManagedImAttachmentFile h r ctx \<or> isManagedGeneratedImageFile h r ctx)
                 in if registered \<and> target = None then Inl FileNotFound
                    else if registered \<and> allowed then underCwd
                    else if allowOutsideWorkspace opts then
                      (if forWrite opts \<and> (isWriteDenied relCwd \<or> isRealWriteDenied h realWrite roots)
                       then Inl PathNotAllowed else underCwd)
                    else Inl PathNotAllowed)
            | Some rootDir \<Rightarrow>
                (let rel = or_dot (relative rootDir absPath)
                 in if forWrite opts \<and> (isWriteDenied rel \<or> isRealWriteDenied h realWrite roots)
                    then Inl PathNotAllowed
                    else if (case realWrite of None \<Rightarrow> False
                             | Some r \<Rightarrow> findRealRoot h r roots = None \<and> \<not> allowOutsideWorkspace opts)
                    then Inl PathNotAllowed
                    else if mustExist opts then
                      (case realpath h absPath of
                         None \<Rightarrow> Inl FileNotFound
                       | Some r \<Rightarrow>
                           if isPathWithinRoot r (case realpath h rootDir of Some q \<Rightarrow> q | None \<Rightarrow> rootDir)
                           then Inr \<lparr>absolutePath = absPath, relativePath = rel, rootPath = rootDir\<rparr>
                           else Inl PathNotAllowed)
                    else Inr \<lparr>absolutePath = absPath, relativePath = rel, rootPath = rootDir\<rparr>))))"

section \<open>What an accepted write guarantees\<close>

lemma find_within:
  "find P xs = Some r \<Longrightarrow> P r"
  by (induction xs) (auto split: if_splits)

lemma findRealRoot_within: "findRealRoot h p roots = Some r \<Longrightarrow> isPathWithinRoot p r"
  unfolding findRealRoot_def by (drule find_within) simp

lemma norm_segs_append: "norm_segs acc (xs @ ys) = norm_segs (rev (norm_segs acc xs)) ys"
  by (induction acc xs rule: norm_segs.induct) simp_all

lemma split_char_join2:
  "split_char d (a @ d # b) = split_char d a @ split_char d b"
proof (induction a)
  case (Cons c a)
  then show ?case by (cases "split_char d a") (simp_all split: list.splits)
qed simp

lemma path_join_render:
  assumes "\<forall>t\<in>set ss. proper_seg t" and "proper_seg s"
  shows "path_join (render ss) s = render (ss @ [s])"
proof -
  have "split_char slash s = [s]" using assms(2) by (intro split_char_no) (simp add: proper_seg_def)
  then have "segs_of (render ss @ [slash] @ s) = norm_segs (rev (segs_of (render ss))) [s]"
    by (simp add: segs_of_def split_char_join2 norm_segs_append)
  with assms show ?thesis
    by (simp add: path_join_def segs_of_render proper_seg_def)
qed

lemma walk_links_plain:
  assumes "readlink h = (\<lambda>_. None)" and "realpath h = (\<lambda>_. None)"
    and "\<forall>s\<in>set ss. slash \<notin> set s" and "\<forall>s\<in>set acc. proper_seg s"
  shows "walk_links h (render (rev acc)) ss n = Some (render (norm_segs acc ss))"
  using assms(3,4)
proof (induction ss arbitrary: acc)
  case Nil
  then show ?case by simp
next
  case (Cons s ss)
  have tl: "\<forall>t\<in>set (tl acc). proper_seg t" using Cons.prems(2) by (cases acc) simp_all
  have rest: "\<forall>s\<in>set ss. slash \<notin> set s" and s: "slash \<notin> set s" using Cons.prems(1) by simp_all
  have p: "\<forall>t\<in>set (rev acc). proper_seg t" using Cons.prems(2) by simp
  have dir: "dirname (render (rev acc)) = render (rev (tl acc))"
    using segs_of_render [OF p] by (cases acc) (simp_all add: dirname_def)
  show ?case
  proof (cases "proper_seg s")
    case True
    then have ok: "\<forall>t\<in>set (s # acc). proper_seg t" using Cons.prems(2) by simp
    have "path_join (render (rev acc)) s = render (rev (s # acc))"
      using path_join_render [OF p True] by simp
    with True show ?thesis
      using Cons.IH [OF rest ok] assms(1,2) by (simp add: proper_seg_def Let_def)
  next
    case False
    then show ?thesis
      using s dir Cons.IH [OF rest Cons.prems(2)] Cons.IH [OF rest tl]
      by (cases "s = [] \<or> s = ''.''") (auto simp: proper_seg_def)
  qed
qed

text \<open>Without links the walk is plain normalisation.\<close>

lemma resolveRealWritePath_plain:
  assumes "readlink h = (\<lambda>_. None)" and "realpath h = (\<lambda>_. None)" and "isAbsolute p"
  shows "resolveRealWritePath h p = Some (render (segs_of p))"
proof -
  obtain q where q: "p = slash # q" using assms(3) by (cases p) (auto simp: isAbsolute_def)
  have "\<forall>s\<in>set (split_char slash q). slash \<notin> set s" by (auto dest: split_char_no_sep)
  then have "walk_links h (render []) (split_char slash q) 0 = Some (render (norm_segs [] (split_char slash q)))"
    using walk_links_plain [OF assms(1,2), of "split_char slash q" "[]"] by simp
  then show ?thesis
    using assms(2) q by (simp add: resolveRealWritePath_def parse_root_def isAbsolute_def segs_of_def render_def)
qed

subsection \<open>Symbolic links as the operating system follows them\<close>

text \<open>The links of a file tree: for a path in real directories, the target if it is a link. \<open>follows link n cur cs q\<close>: with the
  components \<open>cs\<close> to go from the real directory \<open>cur\<close>, the operating system arrives at \<open>q\<close> and follows \<open>n\<close> links on
  the way.\<close>

inductive follows :: "(string list \<rightharpoonup> string) \<Rightarrow> nat \<Rightarrow> string list \<Rightarrow> string list \<Rightarrow> string list \<Rightarrow> bool" for link where
  arrived: "follows link 0 cur [] cur"
| stay: "c = [] \<or> c = ''.'' \<Longrightarrow> follows link n cur cs q \<Longrightarrow> follows link n cur (c # cs) q"
| up: "follows link n (butlast cur) cs q \<Longrightarrow> follows link n cur (''..'' # cs) q"
| down: "proper_seg c \<Longrightarrow> link (cur @ [c]) = None \<Longrightarrow> follows link n (cur @ [c]) cs q \<Longrightarrow> follows link n cur (c # cs) q"
| relative_link: "proper_seg c \<Longrightarrow> link (cur @ [c]) = Some t \<Longrightarrow> \<not> isAbsolute t
    \<Longrightarrow> follows link n cur (split_char slash t @ cs) q \<Longrightarrow> follows link (Suc n) cur (c # cs) q"
| absolute_link: "proper_seg c \<Longrightarrow> link (cur @ [c]) = Some t \<Longrightarrow> isAbsolute t
    \<Longrightarrow> follows link n [] (split_char slash t @ cs) q \<Longrightarrow> follows link (Suc n) cur (c # cs) q"

inductive_cases follows_NilE: "follows link n cur [] q"
inductive_cases follows_ConsE: "follows link n cur (c # cs) q"

text \<open>A directory no part of whose path is a link.\<close>

definition real_directory :: "(string list \<rightharpoonup> string) \<Rightarrow> string list \<Rightarrow> bool" where
  "real_directory link cur \<longleftrightarrow> (\<forall>c\<in>set cur. proper_seg c) \<and> (\<forall>k<length cur. link (take (Suc k) cur) = None)"

text \<open>What \<open>node:fs\<close> answers on a case-sensitive file system with these links: \<open>readlink\<close> the target of a link in a real
  directory, and \<open>realpath\<close>, where it answers, the normalised absolute path at which the operating system arrives.\<close>

definition file_tree :: "host \<Rightarrow> (string list \<rightharpoonup> string) \<Rightarrow> bool" where
  "file_tree h link \<longleftrightarrow>
     (\<forall>cur c. real_directory link cur \<and> proper_seg c \<longrightarrow> readlink h (render (cur @ [c])) = link (cur @ [c]))
     \<and> (\<forall>p r. isAbsolute p \<and> realpath h p = Some r \<longrightarrow>
          (\<exists>n q. follows link n [] (split_char slash p) q \<and> (\<forall>c\<in>set q. proper_seg c) \<and> r = render q))"

lemma proper_not [simp]: "proper_seg c \<Longrightarrow> c \<noteq> []" "\<not> proper_seg []" "\<not> proper_seg ''.''" "\<not> proper_seg ''..''"
  by (auto simp: proper_seg_def)

lemma proper_dots: "proper_seg c \<Longrightarrow> c \<noteq> [] \<and> c \<noteq> ''.'' \<and> c \<noteq> ''..''"
  by (simp add: proper_seg_def)

text \<open>Each component decides the next move.\<close>

lemma follows_stay: "c = [] \<or> c = ''.'' \<Longrightarrow> follows link n cur (c # cs) q \<longleftrightarrow> follows link n cur cs q"
  by (auto elim: follows_ConsE intro: stay)

lemma follows_up: "follows link n cur (''..'' # cs) q \<longleftrightarrow> follows link n (butlast cur) cs q"
  by (auto elim: follows_ConsE intro: up)

lemma follows_down:
  "proper_seg c \<Longrightarrow> link (cur @ [c]) = None \<Longrightarrow> follows link n cur (c # cs) q \<longleftrightarrow> follows link n (cur @ [c]) cs q"
  by (auto elim: follows_ConsE intro: down)

lemma follows_link:
  assumes "proper_seg c" and "link (cur @ [c]) = Some t"
  shows "follows link n cur (c # cs) q
    \<longleftrightarrow> (\<exists>m. n = Suc m \<and> follows link m (if isAbsolute t then [] else cur) (split_char slash t @ cs) q)"
    (is "?l \<longleftrightarrow> ?r")
proof
  assume ?l
  then show ?r using assms by (rule_tac follows_ConsE) (auto dest: proper_dots)
next
  assume ?r
  then show ?l using assms relative_link absolute_link by (auto split: if_splits)
qed

lemma follows_unique: "follows link n cur cs q \<Longrightarrow> follows link m cur cs r \<Longrightarrow> m = n \<and> r = q"
proof (induction arbitrary: m r rule: follows.induct)
  case (arrived cur)
  then show ?case by (rule follows_NilE) simp
next
  case (stay c n cur cs q)
  then show ?case by (simp add: follows_stay)
next
  case (up n cur cs q)
  then show ?case by (simp add: follows_up)
next
  case (down c cur n cs q)
  then show ?case by (simp add: follows_down)
next
  case (relative_link c cur t n cs q)
  obtain k where "m = Suc k" "follows link k cur (split_char slash t @ cs) r"
    using relative_link.prems relative_link.hyps by (auto simp: follows_link)
  then show ?case using relative_link.IH by blast
next
  case (absolute_link c cur t n cs q)
  obtain k where "m = Suc k" "follows link k [] (split_char slash t @ cs) r"
    using absolute_link.prems absolute_link.hyps by (auto simp: follows_link)
  then show ?case using absolute_link.IH by blast
qed

lemma real_directory_Nil [simp]: "real_directory link []"
  by (simp add: real_directory_def)

lemma real_directory_snoc:
  "real_directory link cur \<Longrightarrow> proper_seg c \<Longrightarrow> link (cur @ [c]) = None \<Longrightarrow> real_directory link (cur @ [c])"
  by (auto simp: real_directory_def less_Suc_eq)

lemma real_directory_butlast: "real_directory link cur \<Longrightarrow> real_directory link (butlast cur)"
  unfolding real_directory_def by (auto simp: take_butlast dest: in_set_butlastD)

text \<open>Along a real directory the operating system arrives at the directory itself.\<close>

lemma follows_real: "real_directory link (pre @ cs) \<Longrightarrow> follows link 0 pre cs (pre @ cs)"
proof (induction cs arbitrary: pre)
  case Nil
  then show ?case using arrived by simp
next
  case (Cons c cs)
  have "link (take (Suc (length pre)) (pre @ c # cs)) = None"
    using Cons.prems unfolding real_directory_def by (metis length_append length_Cons less_add_Suc1 add_Suc_right)
  then have "link (pre @ [c]) = None" by simp
  moreover have "proper_seg c" using Cons.prems by (simp add: real_directory_def)
  moreover have "follows link 0 (pre @ [c]) cs (pre @ c # cs)" using Cons.IH [of "pre @ [c]"] Cons.prems by simp
  ultimately show ?case by (simp add: follows_down)
qed

lemma split_render: "\<forall>c\<in>set ss. proper_seg c \<Longrightarrow> split_char slash (render ss) = [] # (if ss = [] then [[]] else ss)"
  by (auto simp: render_def split_join proper_seg_def)

lemma follows_render:
  assumes "\<forall>c\<in>set ss. proper_seg c"
  shows "follows link n [] (split_char slash (render ss)) q \<longleftrightarrow> follows link n [] ss q"
proof -
  show ?thesis using split_render [OF assms] by (simp add: follows_stay)
qed

lemma path_join_real: "real_directory link cur \<Longrightarrow> proper_seg c \<Longrightarrow> path_join (render cur) c = render (cur @ [c])"
  by (simp add: path_join_render real_directory_def)

lemma dirname_real: "real_directory link cur \<Longrightarrow> dirname (render cur) = render (butlast cur)"
  by (simp add: dirname_def segs_of_render real_directory_def)

lemma isAbsolute_render [simp]: "isAbsolute (render ss)"
  by (simp add: isAbsolute_def render_def)

text \<open>A component that is no link is where it seems to be.\<close>

lemma realpath_real:
  assumes "file_tree h link" and "real_directory link cur" and "realpath h (render cur) = Some r"
  shows "r = render cur"
proof -
  have proper: "\<forall>c\<in>set cur. proper_seg c" using assms(2) by (simp add: real_directory_def)
  obtain n q where q: "follows link n [] (split_char slash (render cur)) q" "r = render q"
    using assms(1,3) unfolding file_tree_def by (meson isAbsolute_render)
  have "follows link 0 [] cur cur" using follows_real [of link "[]" cur] assms(2) by simp
  then show ?thesis using follows_unique q unfolding follows_render [OF proper] by blast
qed
lemma follows_real_directory:
  "follows link n cur cs q \<Longrightarrow> real_directory link cur \<Longrightarrow> real_directory link q"
  by (induction rule: follows.induct) (simp_all add: real_directory_butlast real_directory_snoc)

text \<open>The walk of the code makes the same moves, as long as it follows no more links than it allows.\<close>

lemma walk_stay: "c = [] \<or> c = ''.'' \<Longrightarrow> walk_links h current (c # cs) k = walk_links h current cs k"
  by auto

lemma walk_up: "real_directory link cur \<Longrightarrow> walk_links h (render cur) (''..'' # cs) k = walk_links h (render (butlast cur)) cs k"
  by (simp add: dirname_real)

lemma walk_down:
  assumes "file_tree h link" and "real_directory link cur" and "proper_seg c" and "link (cur @ [c]) = None"
  shows "walk_links h (render cur) (c # cs) k = walk_links h (render (cur @ [c])) cs k"
proof -
  have "readlink h (render (cur @ [c])) = None" using assms unfolding file_tree_def by metis
  moreover have "(case realpath h (render (cur @ [c])) of Some r \<Rightarrow> r | None \<Rightarrow> render (cur @ [c])) = render (cur @ [c])"
    using realpath_real [OF assms(1) real_directory_snoc [OF assms(2-4)]] by (simp split: option.split)
  ultimately show ?thesis using proper_dots [OF assms(3)] path_join_real [OF assms(2,3)] by (simp add: Let_def)
qed

lemma split_absolute: "isAbsolute t \<Longrightarrow> split_char slash t = [] # split_char slash (drop (length (parse_root t)) t)"
  by (cases t) (auto simp: isAbsolute_def parse_root_def)

lemma walk_link:
  assumes "file_tree h link" and "real_directory link cur" and "proper_seg c" and "link (cur @ [c]) = Some t"
  shows "walk_links h (render cur) (c # cs) k
    = (if MAX_SYMLINK_HOPS < Suc k then None
       else walk_links h (render (if isAbsolute t then [] else cur)) (split_char slash t @ cs) (Suc k))"
proof -
  have "readlink h (render (cur @ [c])) = Some t" using assms unfolding file_tree_def by metis
  moreover have "parse_root t = render []" if "isAbsolute t" using that by (simp add: parse_root_def render_def)
  ultimately show ?thesis using proper_dots [OF assms(3)] path_join_real [OF assms(2,3)]
    by (simp add: Let_def split_absolute)
qed

lemma slash_free_split [simp]: "\<forall>c\<in>set (split_char slash t). slash \<notin> set c"
  by (auto dest: split_char_no_sep)

lemma component_cases:
  assumes "slash \<notin> set c"
  obtains "c = [] \<or> c = ''.''" | "c = ''..''" | "proper_seg c"
  using assms unfolding proper_seg_def by blast

lemma walk_sound:
  assumes "file_tree h link" and "real_directory link cur" and "\<forall>c\<in>set cs. slash \<notin> set c"
    and "walk_links h (render cur) cs k = Some t"
  shows "\<exists>n q. follows link n cur cs q \<and> real_directory link q \<and> t = render q"
  using assms(2-4)
proof (induction "MAX_SYMLINK_HOPS - k" arbitrary: k cur cs rule: less_induct)
  case outer: less
  from outer.prems show ?case
  proof (induction cs arbitrary: cur)
    case Nil
    then show ?case using arrived by auto
  next
    case (Cons c cs)
    have free: "\<forall>c\<in>set cs. slash \<notin> set c" "slash \<notin> set c" using Cons.prems(2) by simp_all
    note step = Cons.IH [OF _ free(1)]
    from free(2) show ?case
    proof (cases rule: component_cases)
      case 1
      then show ?thesis using step [OF Cons.prems(1)] Cons.prems(3) by (simp add: walk_stay follows_stay del: walk_links.simps)
    next
      case 2
      then show ?thesis using step [OF real_directory_butlast [OF Cons.prems(1)]] Cons.prems(3)
        by (simp add: walk_up [OF Cons.prems(1)] follows_up del: walk_links.simps)
    next
      case 3
      show ?thesis
      proof (cases "link (cur @ [c])")
        case None
        then show ?thesis using step [OF real_directory_snoc [OF Cons.prems(1) 3 None]] Cons.prems(3)
          by (simp add: walk_down [OF assms(1) Cons.prems(1) 3] follows_down 3 del: walk_links.simps)
      next
        case (Some l)
        have "(if MAX_SYMLINK_HOPS < Suc k then None
            else walk_links h (render (if isAbsolute l then [] else cur)) (split_char slash l @ cs) (Suc k)) = Some t"
          using Cons.prems(3) walk_link [OF assms(1) Cons.prems(1) 3 Some] by metis
        then have w: "Suc k \<le> MAX_SYMLINK_HOPS"
            "walk_links h (render (if isAbsolute l then [] else cur)) (split_char slash l @ cs) (Suc k) = Some t"
          by (metis not_less option.distinct(1))+
        have "real_directory link (if isAbsolute l then [] else cur)" using Cons.prems(1) by simp
        moreover have "\<forall>c\<in>set (split_char slash l @ cs). slash \<notin> set c" using free(1) by (auto dest: split_char_no_sep)
        moreover have "MAX_SYMLINK_HOPS - Suc k < MAX_SYMLINK_HOPS - k" using w(1) by simp
        ultimately show ?thesis using outer.hyps [OF _ _ _ w(2)] follows_link [where c = c and link = link and cur = cur and t = l, OF 3 Some]
          by blast
      qed
    qed
  qed
qed

lemma walk_complete:
  assumes "file_tree h link"
  shows "follows link n cur cs q \<Longrightarrow> real_directory link cur \<Longrightarrow> \<forall>c\<in>set cs. slash \<notin> set c
    \<Longrightarrow> k + n \<le> MAX_SYMLINK_HOPS \<Longrightarrow> walk_links h (render cur) cs k = Some (render q)"
proof (induction arbitrary: k rule: follows.induct)
  case (arrived cur)
  then show ?case by simp
next
  case (stay c n cur cs q)
  then show ?case by (simp add: walk_stay del: walk_links.simps)
next
  case (up n cur cs q)
  then show ?case using real_directory_butlast by (simp add: walk_up [where link = link] del: walk_links.simps)
next
  case (down c cur n cs q)
  then show ?case using real_directory_snoc by (simp add: walk_down [OF assms] del: walk_links.simps)
next
  case (relative_link c cur t n cs q)
  have "\<forall>c\<in>set (split_char slash t @ cs). slash \<notin> set c" using relative_link.prems(2) by (auto dest: split_char_no_sep)
  then show ?case using relative_link by (simp add: walk_link [OF assms] del: walk_links.simps)
next
  case (absolute_link c cur t n cs q)
  have "\<forall>c\<in>set (split_char slash t @ cs). slash \<notin> set c" using absolute_link.prems(2) by (auto dest: split_char_no_sep)
  then show ?case using absolute_link by (simp add: walk_link [OF assms] del: walk_links.simps)
qed

text \<open>So the path a write is checked at is where the operating system will write, and every place it can reach with the
  links it allows is found.\<close>

lemma resolveRealWritePath_sound:
  assumes "file_tree h link" and "isAbsolute p" and "resolveRealWritePath h p = Some t"
  shows "\<exists>n q. follows link n [] (split_char slash p) q \<and> t = render q \<and> (\<forall>c\<in>set q. proper_seg c)"
proof (cases "realpath h p")
  case None
  have "walk_links h (render []) (split_char slash p) 0 = Some t"
    using assms(2,3) None by (simp add: resolveRealWritePath_def split_absolute) (simp add: parse_root_def render_def)
  then show ?thesis
    using walk_sound [OF assms(1), of "[]" "split_char slash p" 0 t] by (auto simp: real_directory_def)
next
  case (Some r)
  then show ?thesis using assms unfolding file_tree_def resolveRealWritePath_def by (metis option.simps(5))
qed

lemma resolveRealWritePath_complete:
  assumes "file_tree h link" and "isAbsolute p" and "follows link n [] (split_char slash p) q" and "n \<le> MAX_SYMLINK_HOPS"
  shows "resolveRealWritePath h p = Some (render q)"
proof (cases "realpath h p")
  case None
  have "walk_links h (render []) (split_char slash p) 0 = Some (render q)"
    by (rule walk_complete [OF assms(1,3)]) (use assms(4) in auto)
  then show ?thesis
    using assms(2) None by (simp add: resolveRealWritePath_def split_absolute) (simp add: parse_root_def render_def)
next
  case (Some r)
  then obtain m s where "follows link m [] (split_char slash p) s" "r = render s"
    using assms(1,2) unfolding file_tree_def by blast
  then show ?thesis using Some follows_unique [OF assms(3)] by (simp add: resolveRealWritePath_def)
qed

lemma not_isRealWriteDenied:
  assumes "\<not> isRealWriteDenied h (Some target) roots" and "target \<noteq> []"
  shows "\<forall>d\<in>set roots. \<forall>n\<in>set DEFAULT_WRITE_DENY_DIRECTORIES. \<forall>p.
           resolveRealWritePath h (path_join d n) = Some p \<longrightarrow> \<not> isPathWithinRoot target p"
  using assms unfolding isRealWriteDenied_def list_ex_iff by fastforce

text \<open>What the check has looked at when it accepts a write.\<close>

lemma accepted_write_checked:
  assumes "resolvePilotDeckWorkspacePath h ctx opts p = Inr sp" and "forWrite opts"
  shows "\<exists>t. resolveRealWritePath h (absolutePath sp) = Some t \<and> isAbsolute (absolutePath sp)
     \<and> \<not> isRealWriteDenied h (Some t) (map (resolve (processCwd h)) (pc_cwd ctx # pc_directories ctx))
     \<and> \<not> isWriteDenied (relativePath sp)
     \<and> (pc_mode ctx = ModeBypass \<or> allowOutsideWorkspace opts
        \<or> findRealRoot h t (map (resolve (processCwd h)) (pc_cwd ctx # pc_directories ctx)) \<noteq> None)"
proof -
  define a where "a = resolve (processCwd h) (if isAbsolute p then p else path_join (pc_cwd ctx) p)"
  define roots where "roots = map (resolve (processCwd h)) (pc_cwd ctx # pc_directories ctx)"
  have "isAbsolute a" by (simp add: a_def resolve_def)
  moreover have "absolutePath sp = a \<and> \<not> isWriteDenied (relativePath sp)
      \<and> (\<exists>t. resolveRealWritePath h a = Some t \<and> \<not> isRealWriteDenied h (Some t) roots
           \<and> (pc_mode ctx = ModeBypass \<or> allowOutsideWorkspace opts \<or> findRealRoot h t roots \<noteq> None))"
    using assms unfolding resolvePilotDeckWorkspacePath_def Let_def a_def [symmetric] roots_def [symmetric]
    by (auto split: if_splits option.splits)
  ultimately show ?thesis unfolding roots_def by blast
qed

text \<open>Below a directory, on the paths as lists: no name of a way out is meant, but the check takes any first name that starts
  with two dots for one.\<close>

definition lies_in :: "string list \<Rightarrow> string list \<Rightarrow> bool" where
  "lies_in dir q \<longleftrightarrow> (\<exists>rest. q = dir @ rest \<and> (rest = [] \<or> take 2 (hd rest) \<noteq> ''..''))"

lemma startsWith_dots: "startsWith s ''..'' \<longleftrightarrow> take 2 s = ''..''"
  by (cases s; cases "tl s") (auto simp: startsWith_def)

lemma within_render:
  assumes "\<forall>c\<in>set q. proper_seg c" and "\<forall>c\<in>set d. proper_seg c"
  shows "isPathWithinRoot (render q) (render d) \<longleftrightarrow> lies_in d q"
  unfolding within_root_iff segs_of_render [OF assms(1)] segs_of_render [OF assms(2)] lies_in_def startsWith_dots ..

lemma findRealRoot_root:
  assumes "file_tree h link" and "findRealRoot h (render t) roots \<noteq> None" and "\<forall>c\<in>set t. proper_seg c"
    and "\<forall>p\<in>set roots. p = render (segs_of p)"
  shows "\<exists>p\<in>set roots. \<exists>q. ((\<exists>n. follows link n [] (split_char slash p) q) \<or> realpath h p = None \<and> q = segs_of p) \<and> lies_in q t"
proof -
  obtain r where "findRealRoot h (render t) roots = Some r" using assms(2) by blast
  note r = this
  have "r \<in> set (map (\<lambda>p. case realpath h p of Some r \<Rightarrow> r | None \<Rightarrow> resolve (processCwd h) p) roots)"
    using r unfolding findRealRoot_def find_Some_iff by (metis nth_mem)
  then obtain p where p: "p \<in> set roots" "isPathWithinRoot (render t) r"
      "r = (case realpath h p of Some r \<Rightarrow> r | None \<Rightarrow> resolve (processCwd h) p)"
    using findRealRoot_within [OF r] by (auto simp only: set_map image_iff)
  have pr: "p = render (segs_of p)" using assms(4) p(1) by blast
  then have "isAbsolute p" by (metis isAbsolute_render)
  show ?thesis
  proof (cases "realpath h p")
    case None
    have "r = render (segs_of p)" using p(3) None \<open>isAbsolute p\<close> by (simp add: resolve_def)
    then have "lies_in (segs_of p) t" using p(2) within_render [OF assms(3) segs_of_proper] by simp
    then show ?thesis using p(1) None by blast
  next
    case (Some s)
    then obtain n q where "follows link n [] (split_char slash p) q" "\<forall>c\<in>set q. proper_seg c" "r = render q"
      using assms(1) \<open>isAbsolute p\<close> p(3) unfolding file_tree_def by force
    then show ?thesis using p(1,2) within_render [OF assms(3)] by blast
  qed
qed

text \<open>C23. A write the workspace check accepts lands where the check says, on a case-sensitive file system. When the
  operating system goes along the accepted path and follows every symbolic link, it arrives at a place that is not in a
  protected directory (\<open>.git\<close>, \<open>node_modules\<close>, \<open>dist\<close>) of the working directory or an additional one, wherever the links
  of these lead within the hops that are followed, except under a name there that starts with two dots; the relative
  path does not begin with a protected name either; and, unless the mode is bypass or the call may leave the workspace
  (as \<open>write_file\<close> and \<open>edit_file\<close> may), the place lies under the real location of one of these directories.\<close>

theorem accepted_write_confined:
  assumes "file_tree h link" and "resolvePilotDeckWorkspacePath h ctx opts p = Inr sp" and "forWrite opts"
  shows "\<exists>n target. follows link n [] (split_char slash (absolutePath sp)) target
     \<and> (\<forall>root\<in>set (map (resolve (processCwd h)) (pc_cwd ctx # pc_directories ctx)). \<forall>name\<in>{''.git'', ''node_modules'', ''dist''}.
          \<forall>k q. k \<le> 40 \<and> follows link k [] (segs_of root @ [name]) q \<longrightarrow> \<not> lies_in q target)
     \<and> hd (split_char slash (relativePath sp)) \<notin> {''.git'', ''node_modules'', ''dist''}
     \<and> (pc_mode ctx = ModeBypass \<or> allowOutsideWorkspace opts
        \<or> (\<exists>root\<in>set (map (resolve (processCwd h)) (pc_cwd ctx # pc_directories ctx)). \<exists>q.
             ((\<exists>m. follows link m [] (split_char slash root) q) \<or> realpath h root = None \<and> q = segs_of root)
             \<and> lies_in q target))"
proof -
  let ?roots = "map (resolve (processCwd h)) (pc_cwd ctx # pc_directories ctx)"
  obtain t where t: "resolveRealWritePath h (absolutePath sp) = Some t" "isAbsolute (absolutePath sp)"
      "\<not> isRealWriteDenied h (Some t) ?roots" "\<not> isWriteDenied (relativePath sp)"
      "pc_mode ctx = ModeBypass \<or> allowOutsideWorkspace opts \<or> findRealRoot h t ?roots \<noteq> None"
    using accepted_write_checked [OF assms(2,3)] by blast
  obtain n target where q: "follows link n [] (split_char slash (absolutePath sp)) target" "t = render target"
      "\<forall>c\<in>set target. proper_seg c"
    using resolveRealWritePath_sound [OF assms(1) t(2,1)] by blast
  have ne: "t \<noteq> []" by (simp add: q(2) render_def)
  have roots: "\<forall>p\<in>set ?roots. p = render (segs_of p)" by (auto simp: resolve_def segs_of_render [OF segs_of_proper])
  have "\<not> lies_in s target"
    if root: "root \<in> set ?roots" and name: "name \<in> {''.git'', ''node_modules'', ''dist''}"
      and s: "k \<le> 40" "follows link k [] (segs_of root @ [name]) s" for root name k s
  proof -
    have proper: "\<forall>c\<in>set (segs_of root @ [name]). proper_seg c"
    proof -
      have "proper_seg ''.git''" "proper_seg ''node_modules''" "proper_seg ''dist''" by code_simp+
      then have "proper_seg name" using name by blast
      then show ?thesis using segs_of_proper [of root] by simp
    qed
    then have j: "path_join root name = render (segs_of root @ [name])"
      using path_join_render [of "segs_of root" name] bspec [OF roots root] by simp
    have nm: "name \<in> set DEFAULT_WRITE_DENY_DIRECTORIES" using name by (simp add: DEFAULT_WRITE_DENY_DIRECTORIES_def)
    have "resolveRealWritePath h (path_join root name) = Some (render s)"
      unfolding j by (rule resolveRealWritePath_complete [OF assms(1) _ _])
        (use s follows_render [OF proper] in \<open>simp_all add: MAX_SYMLINK_HOPS_def\<close>)
    then have "\<not> isPathWithinRoot (render target) (render s)"
      using not_isRealWriteDenied [OF t(3) ne, rule_format, OF root nm, of "render s"] unfolding q(2) by blast
    moreover have "\<forall>c\<in>set s. proper_seg c"
      using follows_real_directory [OF s(2)] proper by (simp add: proper_seg_def real_directory_def)
    ultimately show ?thesis using within_render [OF q(3)] by blast
  qed
  moreover have "hd (split_char slash (relativePath sp)) \<notin> {''.git'', ''node_modules'', ''dist''}"
    using t(4) by (simp add: isWriteDenied_def DEFAULT_WRITE_DENY_DIRECTORIES_def)
  ultimately show ?thesis
    using q(1) t(5) findRealRoot_root [OF assms(1) _ q(3) roots] unfolding q(2) by blast
qed

definition example_host :: host where
  "example_host = \<lparr>realpath = (\<lambda>_. None), readlink = (\<lambda>p. if p = ''/w/l'' then Some ''src'' else None),
     isRegularFile = (\<lambda>_. False), homedir = ''/h'', processCwd = ''/'', sha256hex = (\<lambda>s. s)\<rparr>"

definition example_context :: path_context where
  "example_context = \<lparr>pc_cwd = ''/w'', pc_directories = [], pc_mode = ModeDefault,
     pc_allowedReadFiles = [], pc_pilotHome = None, pc_sessionId = ''s''\<rparr>"

definition write_options :: path_options where
  "write_options = \<lparr>forWrite = True, mustExist = False, allowOutsideWorkspace = False,
     allowRegisteredReadFiles = False\<rparr>"

lemma example_write:
  "resolvePilotDeckWorkspacePath example_host example_context write_options ''l/a''
     = Inr \<lparr>absolutePath = ''/w/l/a'', relativePath = ''l/a'', rootPath = ''/w''\<rparr>"
  by code_simp

text \<open>Its one link.\<close>

definition example_links :: "string list \<rightharpoonup> string" where
  "example_links cur = (if cur = [''w'', ''l''] then Some ''src'' else None)"

lemma example_tree: "file_tree example_host example_links"
proof -
  have "readlink example_host (render (cur @ [c])) = example_links (cur @ [c])"
    if "real_directory example_links cur" "proper_seg c" for cur c
  proof -
    have "\<forall>x\<in>set (cur @ [c]). proper_seg x" using that by (simp add: real_directory_def)
    then have "segs_of (render (cur @ [c])) = cur @ [c]" by (rule segs_of_render)
    moreover have "segs_of ''/w/l'' = [''w'', ''l'']" by code_simp
    moreover have "render [''w'', ''l''] = ''/w/l''" by code_simp
    ultimately have "render (cur @ [c]) = ''/w/l'' \<longleftrightarrow> cur @ [c] = [''w'', ''l'']" by metis
    then show ?thesis by (simp add: example_host_def example_links_def)
  qed
  then show ?thesis by (simp add: file_tree_def example_host_def)
qed

theorem accepted_write_confined_witness:
  "\<exists>n target. follows example_links n [] (split_char slash ''/w/l/a'') target \<and> target = [''w'', ''src'', ''a''] \<and> n = 1"
proof -
  have "forWrite write_options" by (simp add: write_options_def)
  from accepted_write_confined [OF example_tree example_write this]
  obtain n target where f: "follows example_links n [] (split_char slash ''/w/l/a'') target" by auto
  have split: "split_char slash ''/w/l/a'' = [[], ''w'', ''l'', ''a'']" "split_char slash ''src'' = [''src'']" by code_simp+
  have "proper_seg ''w''" "proper_seg ''l''" "proper_seg ''a''" "proper_seg ''src''" "\<not> isAbsolute ''src''" by code_simp+
  then have "follows example_links 1 [] (split_char slash ''/w/l/a'') [''w'', ''src'', ''a'']"
    by (simp add: split follows_stay follows_down follows_link example_links_def follows.arrived del: split_char.simps)
  then show ?thesis using follows_unique [OF f] by blast
qed

end
