(* ===== verification/PermissionPolicy.thy ===== *)
theory PermissionPolicy
  imports Paths
begin

text \<open>
  Permission rules: \<open>permission/protocol/types.ts\<close>, the matching of a rule against a tool call
  (\<open>permission/policy/matchPermissionRule.ts\<close>) and the settings file the rules come from
  (\<open>permission/settings.ts\<close>).

  The bash parser (tree-sitter, WebAssembly) is the parameter \<open>splitBash\<close>: the simple commands of a
  script and whether it parsed with errors, \<open>None\<close> when the parser is not loaded. The regular
  expressions a wildcard pattern is compiled to are modelled by the matcher \<open>wild_match\<close>, which is
  shown to be the meaning of the compiled expression.
\<close>

section \<open>Rules\<close>

datatype rule_behavior = BAllow | BDeny | BAsk

datatype rule_source = SUser | SProject | SSession | SPolicy | SCli

record permission_rule =
  rule_source :: rule_source
  rule_behavior :: rule_behavior
  rule_toolName :: string
  rule_pattern :: "string option"

record rule_set =
  rules_allow :: "permission_rule list"
  rules_deny :: "permission_rule list"
  rules_ask :: "permission_rule list"

record permission_context =
  pm_mode :: permission_mode
  pm_rules :: rule_set
  pm_cwd :: string
  pm_directories :: "string list"
  pm_canPrompt :: bool
  pm_planDirectory :: "string option"

record bash_commands =
  commands :: "string list"
  hasError :: bool

definition emptyPermissionRuleSet :: rule_set where
  "emptyPermissionRuleSet = \<lparr>rules_allow = [], rules_deny = [], rules_ask = []\<rparr>"

text \<open>The pattern of a rule, when it is there and not empty.\<close>

definition truthy_string :: "string option \<Rightarrow> string option" where
  "truthy_string p = (case p of None \<Rightarrow> None | Some s \<Rightarrow> if s = [] then None else Some s)"

section \<open>Wildcards\<close>

definition line_terminator :: "char \<Rightarrow> bool" where
  "line_terminator c \<longleftrightarrow> c = CHR 0x0A \<or> c = CHR 0x0D"

text \<open>\<open>wildcardToRegExp(pattern, flags).test(s)\<close>: every character but the star stands for itself, a star
  for \<open>.*\<close>, where the dot takes a line terminator only under the flag \<open>s\<close>.\<close>

function wild_match :: "bool \<Rightarrow> string \<Rightarrow> string \<Rightarrow> bool" where
  "wild_match dotAll [] t = (t = [])"
| "wild_match dotAll (c # p) t =
     (if c = CHR ''*'' then
        wild_match dotAll p t
        \<or> (case t of [] \<Rightarrow> False
           | x # t' \<Rightarrow> (dotAll \<or> \<not> line_terminator x) \<and> wild_match dotAll (c # p) t')
      else (case t of [] \<Rightarrow> False | x # t' \<Rightarrow> x = c \<and> wild_match dotAll p t'))"
  by pat_completeness auto
termination
  by (relation "measure (\<lambda>(d, p, t). length p + length t)") auto

text \<open>The reference meaning: the literal pieces of the pattern in order, one stretch of dot
  characters for each star.\<close>

definition dots :: "bool \<Rightarrow> string \<Rightarrow> bool" where
  "dots dotAll g \<longleftrightarrow> dotAll \<or> (\<forall>c\<in>set g. \<not> line_terminator c)"

fun weave :: "string list \<Rightarrow> string list \<Rightarrow> string" where
  "weave (w # ws) (g # gs) = w @ g @ weave ws gs"
| "weave ws gs = concat ws"

definition wild_spec :: "bool \<Rightarrow> string \<Rightarrow> string \<Rightarrow> bool" where
  "wild_spec dotAll p t \<longleftrightarrow>
     (\<exists>gs. Suc (length gs) = length (split_char (CHR ''*'') p) \<and> (\<forall>g\<in>set gs. dots dotAll g)
           \<and> t = weave (split_char (CHR ''*'') p) gs)"

lemma wild_spec_Nil: "wild_spec d [] t \<longleftrightarrow> t = []"
  by (auto simp: wild_spec_def)

lemma wild_spec_lit:
  assumes "c \<noteq> CHR ''*''"
  shows "wild_spec d (c # p) t \<longleftrightarrow> (\<exists>t'. t = c # t' \<and> wild_spec d p t')"
proof -
  obtain w ws where ws: "split_char (CHR ''*'') p = w # ws"
    by (metis neq_Nil_conv split_char_not_Nil)
  have "weave ((c # w) # ws) gs = c # weave (w # ws) gs" for gs
    by (cases gs) simp_all
  then show ?thesis using assms by (auto simp: wild_spec_def ws)
qed

lemma wild_spec_star:
  "wild_spec d (CHR ''*'' # p) t \<longleftrightarrow> (\<exists>g t'. dots d g \<and> t = g @ t' \<and> wild_spec d p t')"
proof
  assume "wild_spec d (CHR ''*'' # p) t"
  then obtain gs where gs: "length gs = length (split_char (CHR ''*'') p)"
      "\<forall>g\<in>set gs. dots d g" "t = weave ([] # split_char (CHR ''*'') p) gs"
    by (auto simp: wild_spec_def)
  obtain g gs' where g: "gs = g # gs'"
    using gs(1) split_char_not_Nil [of "CHR ''*''" p] by (cases gs) auto
  then have "wild_spec d p (weave (split_char (CHR ''*'') p) gs')"
    using gs by (auto simp: wild_spec_def)
  moreover have "t = g @ weave (split_char (CHR ''*'') p) gs'" using gs g by simp
  ultimately show "\<exists>g t'. dots d g \<and> t = g @ t' \<and> wild_spec d p t'" using gs g by auto
next
  assume "\<exists>g t'. dots d g \<and> t = g @ t' \<and> wild_spec d p t'"
  then obtain g gs where "dots d g" "Suc (length gs) = length (split_char (CHR ''*'') p)"
      "\<forall>g\<in>set gs. dots d g" "t = g @ weave (split_char (CHR ''*'') p) gs"
    by (auto simp: wild_spec_def)
  then show "wild_spec d (CHR ''*'' # p) t"
    unfolding wild_spec_def by (intro exI [of _ "g # gs"]) auto
qed

lemma wild_spec_star_step:
  "wild_spec d (CHR ''*'' # p) t \<longleftrightarrow>
     wild_spec d p t \<or> (\<exists>x t'. t = x # t' \<and> (d \<or> \<not> line_terminator x) \<and> wild_spec d (CHR ''*'' # p) t')"
proof
  assume "wild_spec d (CHR ''*'' # p) t"
  then obtain g t' where g: "dots d g" "t = g @ t'" "wild_spec d p t'"
    by (auto simp: wild_spec_star)
  show "wild_spec d p t \<or> (\<exists>x t'. t = x # t' \<and> (d \<or> \<not> line_terminator x) \<and> wild_spec d (CHR ''*'' # p) t')"
  proof (cases g)
    case Nil
    then show ?thesis using g by simp
  next
    case (Cons x g')
    then have "dots d g'" "d \<or> \<not> line_terminator x" using g(1) by (auto simp: dots_def)
    then show ?thesis using g Cons wild_spec_star [of d p "g' @ t'"] by auto
  qed
next
  assume "wild_spec d p t \<or> (\<exists>x t'. t = x # t' \<and> (d \<or> \<not> line_terminator x) \<and> wild_spec d (CHR ''*'' # p) t')"
  then show "wild_spec d (CHR ''*'' # p) t"
  proof
    assume "wild_spec d p t"
    then show ?thesis unfolding wild_spec_star by (intro exI [of _ "[]"] exI [of _ t]) (simp add: dots_def)
  next
    assume "\<exists>x t'. t = x # t' \<and> (d \<or> \<not> line_terminator x) \<and> wild_spec d (CHR ''*'' # p) t'"
    then obtain x g t' where "t = x # g @ t'" "d \<or> \<not> line_terminator x" "dots d g" "wild_spec d p t'"
      by (auto simp: wild_spec_star)
    then show ?thesis unfolding wild_spec_star by (intro exI [of _ "x # g"] exI [of _ t']) (auto simp: dots_def)
  qed
qed

lemma wild_match_spec: "wild_match d p t = wild_spec d p t"
proof (induction d p t rule: wild_match.induct)
  case (1 d t)
  then show ?case by (simp add: wild_spec_Nil)
next
  case (2 d c p t)
  show ?case
  proof (cases "c = CHR ''*''")
    case True
    have "wild_match d p t = wild_spec d p t" using 2 True by blast
    moreover have "wild_match d (c # p) t' = wild_spec d (c # p) t'"
      if "t = x # t'" "d \<or> \<not> line_terminator x" for x t'
      using 2 True that by blast
    ultimately have "wild_match d (c # p) t \<longleftrightarrow>
        wild_spec d p t \<or> (\<exists>x t'. t = x # t' \<and> (d \<or> \<not> line_terminator x) \<and> wild_spec d (c # p) t')"
      using True by (cases t) (simp_all cong: conj_cong)
    then show ?thesis using wild_spec_star_step [of d p t] True by simp
  next
    case False
    then have "wild_match d p t' = wild_spec d p t'" if "t = c # t'" for t'
      using 2 that by simp
    then have "wild_match d (c # p) t \<longleftrightarrow> (\<exists>t'. t = c # t' \<and> wild_spec d p t')"
      using False by (cases t) (simp_all cong: conj_cong)
    then show ?thesis using wild_spec_lit [OF False, of d p t] by simp
  qed
qed

section \<open>Matching a rule against a tool call\<close>

definition FILE_WRITE_TOOLS :: "string list" where
  "FILE_WRITE_TOOLS = [''write_file'', ''edit_file'']"

definition FILE_PATH_PATTERN_TOOLS :: "string list" where
  "FILE_PATH_PATTERN_TOOLS = [''read_file'', ''send_attachment'', ''write_file'', ''edit_file'']"

definition matchesToolName :: "string \<Rightarrow> string \<Rightarrow> bool" where
  "matchesToolName ruleToolName toolName =
     (if ruleToolName = toolName then True
      else str_includes ruleToolName ''*'' \<and> wild_match False ruleToolName toolName)"

definition readCommand :: "js_value \<Rightarrow> string" where
  "readCommand input =
     (case js_string (js_property input ''command'') of Some s \<Rightarrow> trim s | None \<Rightarrow> [])"

definition readFilePath :: "js_value \<Rightarrow> string" where
  "readFilePath input =
     (case js_string (js_nullish (js_property input ''file_path'') (js_property input ''filePath'')) of
        Some s \<Rightarrow> trim s | None \<Rightarrow> [])"

text \<open>A backslash at the end of a line.\<close>

fun hasBashLineContinuation :: "string \<Rightarrow> bool" where
  "hasBashLineContinuation [] = False"
| "hasBashLineContinuation (c # s) =
     ((c = CHR 0x5C \<and> (startsWith s [CHR 0x0A] \<or> startsWith s [CHR 0x0D, CHR 0x0A]))
      \<or> hasBashLineContinuation s)"

definition ends_with :: "string \<Rightarrow> string \<Rightarrow> bool" where
  "ends_with s e = startsWith (rev s) (rev e)"

text \<open>A trailing colon and star mean any arguments.\<close>

definition bash_pattern :: "string \<Rightarrow> string" where
  "bash_pattern p =
     (if ends_with p '':*'' then take (length p - 2) p @ ''*'' else p)"

definition matchBashPattern ::
    "(string \<Rightarrow> bash_commands option) \<Rightarrow> permission_rule \<Rightarrow> js_value \<Rightarrow> bool" where
  "matchBashPattern splitBash rule input =
     (let command = readCommand input
      in case truthy_string (rule_pattern rule) of
           None \<Rightarrow> False
         | Some p \<Rightarrow>
             if command = [] then False
             else
               (let test = wild_match True (bash_pattern p);
                    parsed = splitBash command
                in if rule_behavior rule = BAllow then
                     (case parsed of
                        None \<Rightarrow> False
                      | Some b \<Rightarrow> \<not> hasBashLineContinuation command \<and> \<not> hasError b
                                  \<and> 0 < length (commands b) \<and> list_all test (commands b))
                   else test command
                        \<or> (case parsed of None \<Rightarrow> False | Some b \<Rightarrow> list_ex test (commands b))))"

definition resolveInputFilePath ::
    "host \<Rightarrow> js_value \<Rightarrow> permission_context option \<Rightarrow> string option" where
  "resolveInputFilePath h input context =
     (let filePath = readFilePath input
      in case context of
           None \<Rightarrow> None
         | Some ctx \<Rightarrow>
             if filePath = [] \<or> CHR 0x00 \<in> set filePath then None
             else Some (resolve (processCwd h)
                          (if isAbsolute filePath then filePath else path_join (pm_cwd ctx) filePath)))"

definition normalizePathForPattern :: "string \<Rightarrow> string" where
  "normalizePathForPattern s = map (\<lambda>c. if c = CHR 0x5C then slash else c) s"

definition matchFilePathPattern ::
    "host \<Rightarrow> string \<Rightarrow> js_value \<Rightarrow> permission_context option \<Rightarrow> bool" where
  "matchFilePathPattern h p input context =
     (case resolveInputFilePath h input context of
        None \<Rightarrow> False
      | Some filePath \<Rightarrow>
          wild_match False (normalizePathForPattern p) (normalizePathForPattern filePath))"

definition context_roots :: "host \<Rightarrow> permission_context \<Rightarrow> string list" where
  "context_roots h ctx = map (resolve (processCwd h)) (pm_cwd ctx # pm_directories ctx)"

definition safe_real :: "host \<Rightarrow> string \<Rightarrow> string" where
  "safe_real h p = (case realpath h p of Some r \<Rightarrow> r | None \<Rightarrow> p)"

definition isFileInputInsideWorkspace ::
    "host \<Rightarrow> js_value \<Rightarrow> permission_context option \<Rightarrow> bool \<Rightarrow> bool" where
  "isFileInputInsideWorkspace h input context resolveSymlinks =
     (case (resolveInputFilePath h input context, context) of
        (Some filePath, Some ctx) \<Rightarrow>
          if \<not> list_ex (isPathWithinRoot filePath) (context_roots h ctx) then False
          else if \<not> resolveSymlinks then True
          else (case resolveRealWritePath h filePath of
                  None \<Rightarrow> False
                | Some realFilePath \<Rightarrow>
                    list_ex (isPathWithinRoot realFilePath) (map (safe_real h) (context_roots h ctx)))
      | _ \<Rightarrow> False)"

text \<open>What a match needs from outside: the file system and the bash parser.\<close>

record permission_env =
  env_host :: host
  env_splitBash :: "string \<Rightarrow> bash_commands option"

definition matchRulePattern ::
    "permission_env \<Rightarrow> permission_rule \<Rightarrow> string \<Rightarrow> js_value \<Rightarrow> permission_context option \<Rightarrow> bool" where
  "matchRulePattern env rule toolName input context =
     (case truthy_string (rule_pattern rule) of
        None \<Rightarrow> True
      | Some p \<Rightarrow>
          if toolName = ''bash'' then matchBashPattern (env_splitBash env) rule input
          else if toolName \<in> set FILE_PATH_PATTERN_TOOLS
            then matchFilePathPattern (env_host env) p input context
          else True)"

definition matchPermissionRule ::
    "permission_env \<Rightarrow> permission_rule \<Rightarrow> string \<Rightarrow> js_value \<Rightarrow> permission_context option \<Rightarrow> bool" where
  "matchPermissionRule env rule toolName input context =
     (if \<not> matchesToolName (rule_toolName rule) toolName then False
      else if toolName \<in> set FILE_WRITE_TOOLS \<and> truthy_string (rule_pattern rule) = None
        then isFileInputInsideWorkspace (env_host env) input context (rule_behavior rule = BAllow)
      else if truthy_string (rule_pattern rule) = None then True
      else matchRulePattern env rule toolName input context)"

lemma wild_match_star: "wild_match True ''*'' u"
  by (induction u) simp_all

lemma wild_match_lit:
  "c \<noteq> CHR ''*'' \<Longrightarrow> wild_match d (c # p) u = (\<exists>u'. u = c # u' \<and> wild_match d p u')"
  unfolding wild_match_spec by (rule wild_spec_lit)

lemma wild_match_literal_star:
  "CHR ''*'' \<notin> set w \<Longrightarrow> wild_match True (w @ ''*'') u = prefix w u"
proof (induction w arbitrary: u)
  case Nil
  then show ?case by (simp only: append_Nil wild_match_star Nil_prefix)
next
  case (Cons c w)
  then have "c \<noteq> CHR ''*''" "CHR ''*'' \<notin> set w" by auto
  then have "wild_match True ((c # w) @ ''*'') u = (\<exists>u'. u = c # u' \<and> wild_match True (w @ ''*'') u')"
    unfolding append_Cons by (intro wild_match_lit)
  also have "\<dots> = (\<exists>u'. u = c # u' \<and> prefix w u')"
    using Cons.IH [OF \<open>CHR ''*'' \<notin> set w\<close>] by metis
  also have "\<dots> = prefix (c # w) u" by (cases u) auto
  finally show ?case .
qed

text \<open>The compiled wildcard means what it says: a text matches a pattern exactly when it is the
  pattern's literal pieces in order with one stretch of characters for each star, any characters for
  a bash pattern and no line terminators otherwise; so a bash rule \<open>w:*\<close> with a literal \<open>w\<close> covers
  exactly the commands that begin with \<open>w\<close>.\<close>

lemma wild_match_meaning:
  "wild_match dotAll p t = wild_spec dotAll p t
   \<and> wild_match True (bash_pattern (filter (\<lambda>c. c \<noteq> CHR ''*'') w @ '':*'')) t
       = prefix (filter (\<lambda>c. c \<noteq> CHR ''*'') w) t"
proof
  show "wild_match dotAll p t = wild_spec dotAll p t" by (rule wild_match_spec)
  have "bash_pattern (v @ '':*'') = v @ ''*''" for v
    by (simp add: bash_pattern_def ends_with_def startsWith_def)
  then show "wild_match True (bash_pattern (filter (\<lambda>c. c \<noteq> CHR ''*'') w @ '':*'')) t
      = prefix (filter (\<lambda>c. c \<noteq> CHR ''*'') w) t"
    by (simp only:) (rule wild_match_literal_star, simp)
qed

text \<open>C26. An allow rule with a pattern lets a bash script run only as a whole: the match holds exactly
  when the script parsed without errors and line continuations into at least one simple command and
  every simple command matches the pattern.\<close>

theorem bash_allow_covers_script:
  "matchPermissionRule env \<lparr>rule_source = src, rule_behavior = BAllow, rule_toolName = ''bash'',
       rule_pattern = Some (c # p)\<rparr> ''bash'' input context
   = (readCommand input \<noteq> [] \<and> \<not> hasBashLineContinuation (readCommand input)
      \<and> (case env_splitBash env (readCommand input) of
           None \<Rightarrow> False
         | Some b \<Rightarrow> \<not> hasError b \<and> commands b \<noteq> []
             \<and> filter (wild_spec True (bash_pattern (c # p))) (commands b) = commands b))"
  by (auto simp: matchPermissionRule_def matchesToolName_def FILE_WRITE_TOOLS_def truthy_string_def
      matchRulePattern_def matchBashPattern_def Let_def wild_match_spec list_all_iff filter_id_conv
      split: option.splits)

section \<open>The settings file\<close>

record permission_settings =
  allowedTools :: "string list"
  askTools :: "string list"
  disallowedTools :: "string list"
  skipPermissions :: bool
  lastUpdated :: "string option"

definition DEFAULT_PERMISSION_SETTINGS :: permission_settings where
  "DEFAULT_PERMISSION_SETTINGS = \<lparr>allowedTools = [], askTools = [], disallowedTools = [],
     skipPermissions = False, lastUpdated = None\<rparr>"

definition TOOL_NAME_ALIASES :: "(string \<times> string) list" where
  "TOOL_NAME_ALIASES =
     [(''Read'', ''read_file''), (''Write'', ''write_file''), (''Edit'', ''edit_file''),
      (''NotebookEdit'', ''edit_notebook''), (''MultiEdit'', ''edit_file''), (''Glob'', ''glob''),
      (''Grep'', ''grep''), (''Bash'', ''bash''), (''Task'', ''agent''), (''TodoWrite'', ''todo_write''),
      (''WebFetch'', ''web_fetch''), (''WebSearch'', ''web_search'')]"

text \<open>The capture group of \<open>Bash(...)\<close>; the dot takes no line terminator.\<close>

definition bash_capture :: "string \<Rightarrow> string option" where
  "bash_capture s =
     (let mid = take (length s - 6) (drop 5 s)
      in if 6 \<le> length s \<and> startsWith s ''Bash('' \<and> last s = CHR '')''
            \<and> list_all (\<lambda>c. \<not> line_terminator c) mid
         then Some mid else None)"

definition normalizePermissionEntry :: "string \<Rightarrow> string" where
  "normalizePermissionEntry entry =
     (let trimmed = trim entry
      in if trimmed = [] then []
         else case bash_capture trimmed of
                Some g \<Rightarrow> (if trim g = [] then ''bash'' else ''bash:'' @ trim g)
              | None \<Rightarrow> (case jget TOOL_NAME_ALIASES trimmed of Some n \<Rightarrow> n | None \<Rightarrow> trimmed))"

fun normalize_items :: "string list \<Rightarrow> js_value list \<Rightarrow> string list" where
  "normalize_items seen [] = []"
| "normalize_items seen (item # rest) =
     (case js_string item of
        None \<Rightarrow> normalize_items seen rest
      | Some s \<Rightarrow>
          (let n = normalizePermissionEntry s
           in if n = [] \<or> n \<in> set seen then normalize_items seen rest
              else n # normalize_items (n # seen) rest))"

fun normalizeStringArray :: "js_value \<Rightarrow> string list" where
  "normalizeStringArray (JArray xs) = normalize_items [] xs"
| "normalizeStringArray _ = []"

definition normalizePermissionSettings :: "js_value \<Rightarrow> permission_settings" where
  "normalizePermissionSettings v =
     \<lparr>allowedTools = normalizeStringArray (js_property v ''allowedTools''),
      askTools = normalizeStringArray (js_property v ''askTools''),
      disallowedTools = normalizeStringArray (js_property v ''disallowedTools''),
      skipPermissions = js_truthy (js_property v ''skipPermissions''),
      lastUpdated = js_string (js_property v ''lastUpdated'')\<rparr>"

text \<open>What \<open>JSON.stringify\<close> keeps of the settings and \<open>JSON.parse\<close> gives back.\<close>

definition settings_fields :: "permission_settings \<Rightarrow> (string \<times> js_value) list" where
  "settings_fields s =
     [(''version'', JNumber 1),
      (''allowedTools'', JArray (map JString (allowedTools s))),
      (''askTools'', JArray (map JString (askTools s))),
      (''disallowedTools'', JArray (map JString (disallowedTools s))),
      (''skipPermissions'', JBool (skipPermissions s))]
     @ (case lastUpdated s of None \<Rightarrow> [] | Some d \<Rightarrow> [(''lastUpdated'', JString d)])"

definition readPermissionSettings :: "js_value option \<Rightarrow> permission_settings" where
  "readPermissionSettings stored =
     (case stored of Some parsed \<Rightarrow> normalizePermissionSettings parsed
      | None \<Rightarrow> DEFAULT_PERMISSION_SETTINGS)"

text \<open>\<open>{...read(), ...settings, lastUpdated: now}\<close>, normalised: the value written and returned.\<close>

definition writePermissionSettings ::
    "js_value option \<Rightarrow> (string \<times> js_value) list \<Rightarrow> string \<Rightarrow> permission_settings" where
  "writePermissionSettings stored settings now =
     normalizePermissionSettings
       (JObject (jset ''lastUpdated'' (JString now)
          (foldl (\<lambda>o' (k, v). jset k v o') (settings_fields (readPermissionSettings stored)) settings)))"

definition permissionEntryToRule :: "string \<Rightarrow> rule_behavior \<Rightarrow> rule_source \<Rightarrow> permission_rule" where
  "permissionEntryToRule entry behavior source =
     (let normalized = normalizePermissionEntry entry;
          parts = split_char (CHR '':'') normalized;
          toolName = hd parts;
          pattern = trim (join '':'' (tl parts))
      in \<lparr>rule_source = source, rule_behavior = behavior,
          rule_toolName = (if toolName = [] then normalized else toolName),
          rule_pattern = (if pattern = [] then None else Some pattern)\<rparr>)"

definition permissionSettingsToRuleSet :: "permission_settings \<Rightarrow> rule_set" where
  "permissionSettingsToRuleSet s =
     \<lparr>rules_allow = map (\<lambda>e. permissionEntryToRule e BAllow SUser) (allowedTools s),
      rules_deny = map (\<lambda>e. permissionEntryToRule e BDeny SUser) (disallowedTools s),
      rules_ask = map (\<lambda>e. permissionEntryToRule e BAsk SUser) (askTools s)\<rparr>"

subsection \<open>Normalisation is a fixed point\<close>

lemma trim_bash_entry:
  assumes "trim g \<noteq> []"
  shows "trim (''bash:'' @ trim g) = ''bash:'' @ trim g"
proof -
  have "\<not> is_ws (last (trim g))"
    using assms trimEnd_last [of "trimStart g"] by (simp add: trim_def)
  then show ?thesis using assms by (subst trim_id_iff) (simp add: is_ws_def)
qed

lemma bash_capture_lower: "bash_capture (CHR ''b'' # s) = None"
  by (simp add: bash_capture_def startsWith_def)

lemma alias_fixed:
  "jget TOOL_NAME_ALIASES s = Some n \<Longrightarrow> normalizePermissionEntry n = n \<and> n \<noteq> []"
  unfolding TOOL_NAME_ALIASES_def
  by (simp split: if_splits)
    (auto simp: normalizePermissionEntry_def TOOL_NAME_ALIASES_def trim_def trimStart_def trimEnd_def
      is_ws_def bash_capture_def startsWith_def)

lemma normalizePermissionEntry_idem [simp]:
  "normalizePermissionEntry (normalizePermissionEntry e) = normalizePermissionEntry e"
proof (cases "trim e = []")
  case True
  then show ?thesis by (simp add: normalizePermissionEntry_def)
next
  case ne: False
  show ?thesis
  proof (cases "bash_capture (trim e)")
    case (Some g)
    then have n: "normalizePermissionEntry e = (if trim g = [] then ''bash'' else ''bash:'' @ trim g)"
      using ne by (simp add: normalizePermissionEntry_def)
    have "trim ''bash'' = ''bash''" by (subst trim_id_iff) (simp add: is_ws_def)
    then show ?thesis
      unfolding n using trim_bash_entry [of g]
      by (auto simp: normalizePermissionEntry_def bash_capture_lower TOOL_NAME_ALIASES_def)
  next
    case None
    show ?thesis
    proof (cases "jget TOOL_NAME_ALIASES (trim e)")
      case None': None
      then show ?thesis using ne None by (simp add: normalizePermissionEntry_def)
    next
      case (Some n)
      then have "normalizePermissionEntry e = n" using ne None by (simp add: normalizePermissionEntry_def)
      with alias_fixed [OF Some] show ?thesis by simp
    qed
  qed
qed

definition normal_entry :: "string \<Rightarrow> bool" where
  "normal_entry n \<longleftrightarrow> n \<noteq> [] \<and> normalizePermissionEntry n = n"

lemma normal_entry_normalized: "normal_entry (normalizePermissionEntry s) \<longleftrightarrow> normalizePermissionEntry s \<noteq> []"
  by (simp add: normal_entry_def)

lemma normalize_items_fixed:
  "distinct ns \<Longrightarrow> set ns \<inter> set seen = {} \<Longrightarrow> list_all normal_entry ns
   \<Longrightarrow> normalize_items seen (map JString ns) = ns"
proof (induction ns arbitrary: seen)
  case Nil
  then show ?case by simp
next
  case (Cons n ns)
  then have "normalizePermissionEntry n = n" "n \<noteq> []" by (simp_all add: normal_entry_def)
  moreover have "normalize_items (n # seen) (map JString ns) = ns"
    using Cons.prems by (intro Cons.IH) auto
  moreover have "n \<notin> set seen" using Cons.prems by auto
  ultimately show ?case by simp
qed

lemma normalize_items_normal:
  "distinct (normalize_items seen xs) \<and> set (normalize_items seen xs) \<inter> set seen = {}
   \<and> list_all normal_entry (normalize_items seen xs)"
proof (induction xs arbitrary: seen)
  case Nil
  then show ?case by simp
next
  case (Cons x xs)
  show ?case
  proof (cases "js_string x")
    case None
    then show ?thesis using Cons.IH [of seen] by simp
  next
    case (Some s)
    show ?thesis
      using Some Cons.IH [of seen] Cons.IH [of "normalizePermissionEntry s # seen"]
        normal_entry_normalized [of s]
      by (cases "normalizePermissionEntry s = [] \<or> normalizePermissionEntry s \<in> set seen")
        (auto simp: Let_def)
  qed
qed

lemma normalizeStringArray_idem:
  "normalizeStringArray (JArray (map JString (normalizeStringArray v))) = normalizeStringArray v"
proof -
  have "normalize_items [] (map JString (normalize_items [] xs)) = normalize_items [] xs" for xs
    using normalize_items_normal [of "[]" xs] by (intro normalize_items_fixed) auto
  then show ?thesis by (cases v) simp_all
qed

lemma settings_field_values:
  "js_property (JObject (settings_fields s)) ''allowedTools'' = JArray (map JString (allowedTools s))"
  "js_property (JObject (settings_fields s)) ''askTools'' = JArray (map JString (askTools s))"
  "js_property (JObject (settings_fields s)) ''disallowedTools'' = JArray (map JString (disallowedTools s))"
  "js_property (JObject (settings_fields s)) ''skipPermissions'' = JBool (skipPermissions s)"
  "js_string (js_property (JObject (settings_fields s)) ''lastUpdated'') = lastUpdated s"
  by (simp_all add: settings_fields_def split: option.splits)

lemma normalizePermissionSettings_fixed:
  "normalizePermissionSettings (JObject (settings_fields (normalizePermissionSettings v)))
     = normalizePermissionSettings v"
  unfolding normalizePermissionSettings_def [of "JObject _"] settings_field_values
  by (simp only: normalizePermissionSettings_def normalizeStringArray_idem permission_settings.simps
      js_truthy.simps)

text \<open>C27. Settings written to disk are read back as they were returned: normalisation is a fixed
  point on what it produces (aliases resolved, \<open>Bash(...)\<close> rewritten, duplicates and empty entries
  gone), whatever was stored before and whatever the caller merges in.\<close>

theorem permission_settings_roundtrip:
  "readPermissionSettings (Some (JObject (settings_fields (writePermissionSettings stored settings now))))
     = writePermissionSettings stored settings now"
  unfolding readPermissionSettings_def writePermissionSettings_def option.case
  by (rule normalizePermissionSettings_fixed)

end
