(* ===== verification/PermissionRuntime.thy ===== *)
theory PermissionRuntime
  imports PermissionPolicy
begin

text \<open>
  The permission decision of a tool call: \<open>permission/decision/PermissionRuntime.ts\<close>.

  A tool is its name, its kind and its two answers about an input, \<open>isReadOnly\<close> and
  \<open>checkPermissions\<close> (\<open>None\<close> where the tool has no such method or it returns \<open>undefined\<close>; the call is
  awaited and deterministic within one decision). \<open>JSON.stringify\<close> of the input is the field
  \<open>env_json\<close>. The wording of the messages is left out.
\<close>

section \<open>Decisions\<close>

datatype decision_reason =
    ByMode permission_mode
  | ByRule rule_behavior permission_rule
  | ByTool string
  | BySafety
  | ByRuntime

datatype request_option = AllowOnce | AllowSession "permission_rule list" | DenyOption | CancelOption

record permission_request =
  req_toolCallId :: string
  req_toolName :: string
  req_inputSummary :: string
  req_reason :: decision_reason
  req_options :: "request_option list"

datatype permission_decision =
    Allow decision_reason "js_value option"
  | Deny decision_reason
  | Ask decision_reason permission_request
  | Cancel decision_reason

datatype permission_result = Decided permission_decision | Passthrough | Unrecognised

record tool_def =
  tool_name :: string
  tool_kind :: string
  isReadOnly :: "js_value \<Rightarrow> bool"
  checkPermissions :: "js_value \<Rightarrow> permission_result option"

record decision_env = permission_env +
  env_json :: "js_value \<Rightarrow> string option"

definition allow :: "decision_reason \<Rightarrow> permission_decision" where
  "allow reason = Allow reason None"

definition summarizeInput :: "decision_env \<Rightarrow> js_value \<Rightarrow> string" where
  "summarizeInput env input =
     (case env_json env input of
        None \<Rightarrow> ''[unserializable input]''
      | Some json \<Rightarrow> if 500 < length json then take 500 json @ ''...'' else json)"

definition createPermissionRequest ::
    "decision_env \<Rightarrow> tool_def \<Rightarrow> js_value \<Rightarrow> string \<Rightarrow> decision_reason \<Rightarrow> permission_request" where
  "createPermissionRequest env tl' input callId reason =
     \<lparr>req_toolCallId = callId, req_toolName = tool_name tl', req_inputSummary = summarizeInput env input,
      req_reason = reason, req_options = [AllowOnce, DenyOption, CancelOption]\<rparr>"

definition ask :: "decision_env \<Rightarrow> tool_def \<Rightarrow> js_value \<Rightarrow> string \<Rightarrow> decision_reason \<Rightarrow> permission_decision" where
  "ask env tl' input callId reason = Ask reason (createPermissionRequest env tl' input callId reason)"

section \<open>The steps of a decision\<close>

definition findMatchingRule ::
    "decision_env \<Rightarrow> permission_rule list \<Rightarrow> string \<Rightarrow> js_value \<Rightarrow> permission_context \<Rightarrow> permission_rule option" where
  "findMatchingRule env rules toolName input ctx =
     find (\<lambda>rule. matchPermissionRule (permission_env.truncate env) rule toolName input (Some ctx)) rules"

text \<open>A tool's ask goes out under the runtime's call id and tool name; an answer of no known type
  becomes an ask.\<close>

definition normalizeToolPermission ::
    "decision_env \<Rightarrow> permission_result option \<Rightarrow> tool_def \<Rightarrow> js_value \<Rightarrow> string \<Rightarrow> permission_decision option" where
  "normalizeToolPermission env result tl' input callId =
     (case result of
        None \<Rightarrow> None
      | Some Passthrough \<Rightarrow> None
      | Some (Decided (Ask reason req)) \<Rightarrow>
          Some (Ask reason (req\<lparr>req_toolCallId := callId, req_toolName := tool_name tl'\<rparr>))
      | Some (Decided d) \<Rightarrow> Some d
      | Some Unrecognised \<Rightarrow> Some (ask env tl' input callId ByRuntime))"

text \<open>A write of a markdown file below the plan directory.\<close>

definition isPlanDirectoryWrite :: "decision_env \<Rightarrow> tool_def \<Rightarrow> js_value \<Rightarrow> permission_context \<Rightarrow> bool" where
  "isPlanDirectoryWrite env tl' input ctx =
     (case truthy_string (pm_planDirectory ctx) of
        None \<Rightarrow> False
      | Some planDir \<Rightarrow>
          if tool_kind tl' \<noteq> ''filesystem'' then False
          else
            (case js_nullish (js_property input ''file_path'') (js_property input ''filePath'') of
               JString filePath \<Rightarrow>
                 (let absPath = resolve (resolve (processCwd (env_host env)) (pm_cwd ctx)) filePath;
                      rel = relative planDir absPath
                  in if \<not> ends_with (toLowerCase absPath) ''.md'' then False
                     else rel \<noteq> [] \<and> \<not> isAbsolute rel \<and> \<not> startsWith rel ''..''
                          \<and> \<not> startsWith rel ''../'')
             | _ \<Rightarrow> False))"

definition decideByMode ::
    "decision_env \<Rightarrow> tool_def \<Rightarrow> js_value \<Rightarrow> string \<Rightarrow> permission_context \<Rightarrow> permission_decision" where
  "decideByMode env tl' input callId ctx =
     (if pm_mode ctx = ModePlan then
        (if isReadOnly tl' input then allow (ByMode ModePlan)
         else if isPlanDirectoryWrite env tl' input ctx then allow (ByMode ModePlan)
         else Deny (ByMode ModePlan))
      else if isReadOnly tl' input then allow (ByMode (pm_mode ctx))
      else ask env tl' input callId (ByMode (pm_mode ctx)))"

definition finalizeAsk :: "permission_decision \<Rightarrow> permission_context \<Rightarrow> permission_decision" where
  "finalizeAsk decision ctx =
     (case decision of
        Ask reason req \<Rightarrow>
          if pm_mode ctx = ModeBypass then allow (ByMode ModeBypass)
          else if pm_canPrompt ctx = False then Deny ByRuntime
          else decision
      | _ \<Rightarrow> decision)"

definition allowSessionRule ::
    "decision_env \<Rightarrow> tool_def \<Rightarrow> js_value \<Rightarrow> string \<Rightarrow> permission_rule \<Rightarrow> permission_decision" where
  "allowSessionRule env tl' input callId rule =
     (case normalizeToolPermission env (checkPermissions tl' input) tl' input callId of
        None \<Rightarrow> allow (ByRule BAllow rule)
      | Some (Ask _ _) \<Rightarrow> allow (ByRule BAllow rule)
      | Some d \<Rightarrow> d)"

definition decide ::
    "decision_env \<Rightarrow> tool_def \<Rightarrow> js_value \<Rightarrow> permission_context \<Rightarrow> string \<Rightarrow> permission_decision" where
  "decide env tl' input ctx callId =
     (let sessionAllowRule = findMatchingRule env
            (filter (\<lambda>r. rule_source r = SSession) (rules_allow (pm_rules ctx))) (tool_name tl') input ctx;
          tryAllow = findMatchingRule env (rules_allow (pm_rules ctx)) (tool_name tl') input ctx;
          afterRules =
            (case normalizeToolPermission env (checkPermissions tl' input) tl' input callId of
               Some (Ask reason req) \<Rightarrow>
                 if pm_mode ctx = ModeBypass then allow (ByMode ModeBypass)
                 else if pm_mode ctx = ModePlan \<and> isReadOnly tl' input then allow (ByMode ModePlan)
                 else if pm_mode ctx = ModePlan \<and> \<not> isPlanDirectoryWrite env tl' input ctx
                   then Deny (ByMode ModePlan)
                 else finalizeAsk (Ask reason req) ctx
             | Some d \<Rightarrow> d
             | None \<Rightarrow>
                 if pm_mode ctx = ModeBypass then allow (ByMode ModeBypass)
                 else (case decideByMode env tl' input callId ctx of
                         Ask reason req \<Rightarrow> finalizeAsk (Ask reason req) ctx
                       | d \<Rightarrow> d))
      in case findMatchingRule env (rules_deny (pm_rules ctx)) (tool_name tl') input ctx of
           Some denyRule \<Rightarrow>
             (case sessionAllowRule of
                Some s \<Rightarrow> if rule_source denyRule = SUser then allowSessionRule env tl' input callId s
                          else Deny (ByRule BDeny denyRule)
              | None \<Rightarrow> Deny (ByRule BDeny denyRule))
         | None \<Rightarrow>
             (case findMatchingRule env (rules_ask (pm_rules ctx)) (tool_name tl') input ctx of
                Some askRule \<Rightarrow> finalizeAsk (ask env tl' input callId (ByRule BAsk askRule)) ctx
              | None \<Rightarrow>
                  (case sessionAllowRule of
                     Some s \<Rightarrow> allowSessionRule env tl' input callId s
                   | None \<Rightarrow>
                       (case tryAllow of
                          Some allowRule \<Rightarrow>
                            if pm_mode ctx = ModePlan \<and> \<not> isReadOnly tl' input
                               \<and> \<not> isPlanDirectoryWrite env tl' input ctx
                            then afterRules
                            else allow (ByRule BAllow allowRule)
                        | None \<Rightarrow> afterRules))))"

text \<open>The rules of a turn replace the user's rules; the others stay in front.\<close>

definition mergeUserRules :: "permission_rule list \<Rightarrow> permission_rule list option \<Rightarrow> permission_rule list" where
  "mergeUserRules target userRules =
     filter (\<lambda>rule. rule_source rule \<noteq> SUser) target @ (case userRules of None \<Rightarrow> [] | Some us \<Rightarrow> us)"

section \<open>What the decisions guarantee\<close>

lemmas decide_rules = decide_def Let_def allowSessionRule_def normalizeToolPermission_def finalizeAsk_def
  allow_def ask_def decideByMode_def

lemma find_append: "find P (xs @ ys) = (case find P xs of None \<Rightarrow> find P ys | Some x \<Rightarrow> Some x)"
  by (induction xs) auto

lemma find_None_list_ex: "(find P xs = None) = (\<not> list_ex P xs)"
  by (induction xs) auto

lemma finalizeAsk_ask: "finalizeAsk d ctx = Ask r q \<Longrightarrow> pm_canPrompt ctx \<and> pm_mode ctx \<noteq> ModeBypass"
  by (auto simp: finalizeAsk_def allow_def split: permission_decision.splits if_splits)

lemma allowSessionRule_no_ask: "allowSessionRule env tl' input callId rule \<noteq> Ask r q"
  by (auto simp: allowSessionRule_def allow_def split: option.splits permission_decision.splits)

text \<open>The runtime prompts only where it may: when a decision is an ask, prompts are enabled, the mode
  is not the bypass mode, and the request carries the call id and name of the tool call it is about.\<close>

lemma decide_ask_only_when_promptable:
  "case decide env tl' input ctx callId of
     Ask reason req \<Rightarrow> pm_canPrompt ctx \<and> pm_mode ctx \<noteq> ModeBypass
                        \<and> req_toolCallId req = callId \<and> req_toolName req = tool_name tl'
   | _ \<Rightarrow> True"
  by (auto simp: decide_rules createPermissionRequest_def
      split: option.splits permission_decision.splits permission_result.splits if_splits)

text \<open>A deny rule that is not the user's own, once matched, decides, whatever session grants exist.\<close>

lemma first_deny:
  assumes "list_ex (\<lambda>r. matchPermissionRule (permission_env.truncate env) r (tool_name tl') input (Some ctx))
             (filter (\<lambda>r. rule_source r \<noteq> SUser) target)"
  shows "\<exists>r. findMatchingRule env (mergeUserRules target userRules) (tool_name tl') input ctx = Some r
             \<and> rule_source r \<noteq> SUser \<and> r \<in> set target"
proof -
  let ?P = "\<lambda>r. matchPermissionRule (permission_env.truncate env) r (tool_name tl') input (Some ctx)"
  let ?non = "filter (\<lambda>r. rule_source r \<noteq> SUser) target"
  obtain r where r: "find ?P ?non = Some r"
    using assms find_None_list_ex [of ?P ?non] by (cases "find ?P ?non") auto
  then have "r \<in> set ?non" using find_Some_in [OF r] by blast
  moreover have "findMatchingRule env (mergeUserRules target userRules) (tool_name tl') input ctx = Some r"
    by (simp add: findMatchingRule_def mergeUserRules_def find_append r)
  ultimately show ?thesis by auto
qed

text \<open>C22. Policy, project and command-line deny rules cannot be overridden: after the turn's user rules
  are merged in, a call that some deny rule not of the user's matches is denied by such a rule in every
  mode, bypass included, whatever the allow, ask and session rules and the tool itself say.\<close>

theorem policy_deny_wins:
  assumes "list_ex (\<lambda>r. matchPermissionRule (permission_env.truncate env) r (tool_name tl') input (Some ctx))
             (filter (\<lambda>r. rule_source r \<noteq> SUser) target)"
    and "rules_deny (pm_rules ctx) = mergeUserRules target userRules"
  shows "\<exists>r. decide env tl' input ctx callId = Deny (ByRule BDeny r) \<and> rule_source r \<noteq> SUser \<and> r \<in> set target"
proof -
  obtain r where "findMatchingRule env (mergeUserRules target userRules) (tool_name tl') input ctx = Some r"
      "rule_source r \<noteq> SUser" "r \<in> set target"
    using first_deny [OF assms(1)] by blast
  then show ?thesis using assms(2) by (auto simp: decide_def Let_def split: option.splits)
qed

text \<open>The file a tool is to write: its input's \<open>file_path\<close>, or \<open>filePath\<close> where that is null or missing, seen from the
  directory of the call.\<close>

definition names_file :: "decision_env \<Rightarrow> js_value \<Rightarrow> permission_context \<Rightarrow> string \<Rightarrow> bool" where
  "names_file env input ctx absPath \<longleftrightarrow>
     (\<exists>name. (js_property input ''file_path'' = JString name
               \<or> js_property input ''file_path'' \<in> {JNull, JUndefined} \<and> js_property input ''filePath'' = JString name)
        \<and> absPath = resolve (resolve (processCwd (env_host env)) (pm_cwd ctx)) name)"

lemma relative_below:
  assumes "relative planDir file \<noteq> []" and "\<not> isAbsolute (relative planDir file)" and "\<not> startsWith (relative planDir file) ''..''"
  shows "\<exists>seg rest. segs_of file = segs_of planDir @ seg # rest"
proof -
  have "isPathWithinRoot file planDir" using assms by (simp add: isPathWithinRoot_def)
  then obtain rest where r: "segs_of file = segs_of planDir @ rest" unfolding within_root_iff by blast
  have "rest \<noteq> []"
  proof
    assume "rest = []"
    then have "strip_common (segs_of planDir) (segs_of file) = ([], [])"
      unfolding r by (metis append_Nil2 strip_common_append)
    then have "relative planDir file = []" by (simp only: relative_def Let_def split: prod.split) simp
    with assms(1) show False by contradiction
  qed
  then show ?thesis using r by (cases rest) auto
qed

lemma plan_write_below:
  assumes "isPlanDirectoryWrite env tl' input ctx"
  shows "\<exists>planDir absPath seg rest. pm_planDirectory ctx = Some planDir \<and> tool_kind tl' = ''filesystem''
     \<and> names_file env input ctx absPath \<and> ends_with (toLowerCase absPath) ''.md''
     \<and> segs_of absPath = segs_of planDir @ seg # rest"
proof -
  obtain planDir name where p: "pm_planDirectory ctx = Some planDir" "tool_kind tl' = ''filesystem''"
      "js_nullish (js_property input ''file_path'') (js_property input ''filePath'') = JString name"
      "ends_with (toLowerCase (resolve (resolve (processCwd (env_host env)) (pm_cwd ctx)) name)) ''.md''"
      "relative planDir (resolve (resolve (processCwd (env_host env)) (pm_cwd ctx)) name) \<noteq> []"
      "\<not> isAbsolute (relative planDir (resolve (resolve (processCwd (env_host env)) (pm_cwd ctx)) name))"
      "\<not> startsWith (relative planDir (resolve (resolve (processCwd (env_host env)) (pm_cwd ctx)) name)) ''..''"
    using assms
    by (auto simp: isPlanDirectoryWrite_def truthy_string_def Let_def split: option.splits if_splits js_value.splits)
  have "names_file env input ctx (resolve (resolve (processCwd (env_host env)) (pm_cwd ctx)) name)"
    using p(3) by (cases "js_property input ''file_path''") (auto simp: names_file_def js_nullish_def)
  then show ?thesis using p(1,2,4) relative_below [OF p(5-7)] by blast
qed

text \<open>C24. Plan mode is read-only: in plan mode, unless a session grant matches or the tool's own check
  answers with an allow, a call is allowed only if the tool is read-only on the input or it is a filesystem tool and
  the file its input names, with dot-dot segments resolved, has a name that ends in \<open>.md\<close> and lies strictly below the
  plan directory. User allow rules never suffice.\<close>

theorem plan_mode_read_only:
  assumes "decide env tl' input ctx callId = Allow reason updated" and "pm_mode ctx = ModePlan"
    and "findMatchingRule env (filter (\<lambda>r. rule_source r = SSession) (rules_allow (pm_rules ctx)))
           (tool_name tl') input ctx = None"
    and "checkPermissions tl' input \<noteq> Some (Decided (Allow reason updated))"
  shows "isReadOnly tl' input
         \<or> (\<exists>planDir absPath seg rest. pm_planDirectory ctx = Some planDir \<and> tool_kind tl' = ''filesystem''
            \<and> names_file env input ctx absPath \<and> ends_with (toLowerCase absPath) ''.md''
            \<and> segs_of absPath = segs_of planDir @ seg # rest)"
proof -
  have "isReadOnly tl' input \<or> isPlanDirectoryWrite env tl' input ctx"
    using assms
    by (auto simp: decide_rules split: option.splits permission_decision.splits permission_result.splits if_splits)
  then show ?thesis using plan_write_below by blast
qed

subsection \<open>Instances\<close>

definition example_env :: decision_env where
  "example_env = \<lparr>env_host = example_host, env_splitBash = (\<lambda>s. Some \<lparr>commands = [s], hasError = False\<rparr>),
     env_json = (\<lambda>_. None)\<rparr>"

definition git_push_deny :: permission_rule where
  "git_push_deny = \<lparr>rule_source = SPolicy, rule_behavior = BDeny, rule_toolName = ''bash'',
     rule_pattern = Some ''git push*''\<rparr>"

definition session_bash_allow :: permission_rule where
  "session_bash_allow = \<lparr>rule_source = SSession, rule_behavior = BAllow, rule_toolName = ''bash'',
     rule_pattern = None\<rparr>"

definition bash_tool :: tool_def where
  "bash_tool = \<lparr>tool_name = ''bash'', tool_kind = ''bash'', isReadOnly = (\<lambda>_. False), checkPermissions = (\<lambda>_. None)\<rparr>"

definition push_input :: js_value where
  "push_input = JObject [(''command'', JString ''git push'')]"

definition example_pm :: permission_context where
  "example_pm = \<lparr>pm_mode = ModeBypass,
     pm_rules = \<lparr>rules_allow = [session_bash_allow], rules_deny = mergeUserRules [git_push_deny] None, rules_ask = []\<rparr>,
     pm_cwd = ''/w'', pm_directories = [], pm_canPrompt = True, pm_planDirectory = Some ''/w/p''\<rparr>"

theorem policy_deny_wins_witness:
  "\<exists>r. decide example_env bash_tool push_input example_pm ''c1'' = Deny (ByRule BDeny r)
       \<and> rule_source r \<noteq> SUser \<and> r \<in> set [git_push_deny]"
proof (rule policy_deny_wins)
  show "list_ex (\<lambda>r. matchPermissionRule (permission_env.truncate example_env) r (tool_name bash_tool) push_input (Some example_pm))
          (filter (\<lambda>r. rule_source r \<noteq> SUser) [git_push_deny])"
    by code_simp
  show "rules_deny (pm_rules example_pm) = mergeUserRules [git_push_deny] None"
    by (simp add: example_pm_def)
qed

definition read_tool :: tool_def where
  "read_tool = \<lparr>tool_name = ''read_file'', tool_kind = ''filesystem'', isReadOnly = (\<lambda>_. True), checkPermissions = (\<lambda>_. None)\<rparr>"

definition write_tool :: tool_def where
  "write_tool = read_tool\<lparr>tool_name := ''write_file'', isReadOnly := (\<lambda>_. False)\<rparr>"

definition plan_input :: js_value where
  "plan_input = JObject [(''file_path'', JString ''p/../p/Plan.MD''), (''content'', JString ''x'')]"

theorem plan_mode_read_only_witness:
  "decide example_env read_tool push_input (example_pm\<lparr>pm_mode := ModePlan\<rparr>) ''c1'' = Allow (ByMode ModePlan) None
   \<and> (\<exists>absPath seg rest. names_file example_env plan_input (example_pm\<lparr>pm_mode := ModePlan\<rparr>) absPath
         \<and> ends_with (toLowerCase absPath) ''.md'' \<and> segs_of absPath = segs_of ''/w/p'' @ seg # rest)"
proof
  show "decide example_env read_tool push_input (example_pm\<lparr>pm_mode := ModePlan\<rparr>) ''c1'' = Allow (ByMode ModePlan) None"
    by code_simp
  have d: "decide example_env write_tool plan_input (example_pm\<lparr>pm_mode := ModePlan\<rparr>) ''c2'' = Allow (ByMode ModePlan) None"
    by code_simp
  have g: "findMatchingRule example_env (filter (\<lambda>r. rule_source r = SSession)
      (rules_allow (pm_rules (example_pm\<lparr>pm_mode := ModePlan\<rparr>)))) (tool_name write_tool) plan_input
      (example_pm\<lparr>pm_mode := ModePlan\<rparr>) = None"
    by code_simp
  show "\<exists>absPath seg rest. names_file example_env plan_input (example_pm\<lparr>pm_mode := ModePlan\<rparr>) absPath
         \<and> ends_with (toLowerCase absPath) ''.md'' \<and> segs_of absPath = segs_of ''/w/p'' @ seg # rest"
    using plan_mode_read_only [OF d _ g] by (auto simp: write_tool_def read_tool_def example_pm_def)
qed

end
