(* ===== verification/CronSchedule.thy ===== *)
theory CronSchedule
  imports Prelude
begin

text \<open>
  Cron expressions and the next run of a schedule: \<open>cron/runtime/CronSchedule.ts\<close> and
  \<open>cron/CronTimezone.ts\<close>.

  A date is its time value in milliseconds (\<open>int\<close>). \<open>Intl\<close> is outside the program: \<open>formatToParts\<close> of
  a timezone is the parameter \<open>tz_parts\<close> (the parts as a list of type and value), the timezone check is
  \<open>tz_valid\<close>, and \<open>Date.parse\<close> and \<open>toISOString\<close> are \<open>parseDate\<close> and \<open>isoString\<close>. A JavaScript \<open>Set\<close> of
  numbers is the list of its elements in insertion order.
\<close>

section \<open>Reading numbers and fields\<close>

definition is_digit :: "char \<Rightarrow> bool" where
  "is_digit c \<longleftrightarrow> (let n = of_char c :: nat in 48 \<le> n \<and> n \<le> 57)"

text \<open>\<open>Number.parseInt(s, 10)\<close>, \<open>None\<close> for \<open>NaN\<close>.\<close>

definition parseInt :: "string \<Rightarrow> int option" where
  "parseInt s =
     (let t = trimStart s;
          neg = startsWith t ''-'';
          u = (if startsWith t ''-'' \<or> startsWith t ''+'' then tl t else t);
          ds = takeWhile is_digit u
      in if ds = [] then None
         else Some (if neg then - int (read_nat ds) else int (read_nat ds)))"

text \<open>\<open>s.split(/\<backslash>s+/)\<close>\<close>

function split_ws :: "string \<Rightarrow> string list" where
  "split_ws s =
     (let w = takeWhile (\<lambda>c. \<not> is_ws c) s; r = dropWhile (\<lambda>c. \<not> is_ws c) s
      in if r = [] then [w] else w # split_ws (dropWhile is_ws r))"
  by pat_completeness auto

lemma length_dropWhile_hd: "r \<noteq> [] \<Longrightarrow> P (hd r) \<Longrightarrow> length (dropWhile P r) < length r"
  by (cases r) (auto simp: le_imp_less_Suc length_dropWhile_le)

termination split_ws
proof (relation "measure length")
  fix s :: string and w r
  assume "r = dropWhile (\<lambda>c. \<not> is_ws c) s" "r \<noteq> []"
  then have "is_ws (hd r)" using hd_dropWhile by metis
  then have "length (dropWhile is_ws r) < length r"
    using length_dropWhile_hd \<open>r \<noteq> []\<close> by blast
  also have "length r \<le> length s"
    using \<open>r = dropWhile (\<lambda>c. \<not> is_ws c) s\<close> by (simp add: length_dropWhile_le)
  finally show "(dropWhile is_ws r, s) \<in> measure length" by simp
qed simp

declare split_ws.simps [simp del]

text \<open>The values \<open>start, start + step, ...\<close> up to \<open>end\<close>.\<close>

function steps_from :: "int \<Rightarrow> int \<Rightarrow> int \<Rightarrow> int list" where
  "steps_from v last' step =
     (if step \<le> 0 \<or> last' < v then [] else v # steps_from (v + step) last' step)"
  by pat_completeness auto
termination
  by (relation "measure (\<lambda>(v, e, s). nat (e - v + 1))") auto

declare steps_from.simps [simp del]

definition parse_part :: "string \<Rightarrow> int \<Rightarrow> int \<Rightarrow> int list option" where
  "parse_part part lo hi =
     (let trimmed = trim part; stepParts = split_char (CHR ''/'') trimmed
      in if trimmed = [] \<or> 2 < length stepParts then None
         else
           (let base = hd stepParts;
                step = (if length stepParts = 1 then Some 1 else parseInt (stepParts ! 1))
            in case step of
                 None \<Rightarrow> None
               | Some st \<Rightarrow>
                   if st \<le> 0 then None
                   else
                     (let raw = split_char (CHR ''-'') base;
                          bounds = (if base = ''*'' then (Some lo, Some hi)
                                    else if str_includes base ''-'' then (parseInt (raw ! 0), parseInt (raw ! 1))
                                    else (parseInt base, parseInt base))
                      in case bounds of
                           (Some s, Some e) \<Rightarrow>
                             if s < lo \<or> hi < e \<or> e < s then None else Some (steps_from s e st)
                         | _ \<Rightarrow> None)))"

fun parse_parts :: "string list \<Rightarrow> int \<Rightarrow> int \<Rightarrow> int list option" where
  "parse_parts [] lo hi = Some []"
| "parse_parts (p # ps) lo hi =
     (case parse_part p lo hi of
        None \<Rightarrow> None
      | Some vs \<Rightarrow> (case parse_parts ps lo hi of None \<Rightarrow> None | Some ws \<Rightarrow> Some (vs @ ws)))"

definition parseField :: "string \<Rightarrow> int \<Rightarrow> int \<Rightarrow> int list option" where
  "parseField field lo hi = map_option dedupe (parse_parts (split_char (CHR '','') field) lo hi)"

record parsed_cron =
  minutes :: "int list"
  hours :: "int list"
  daysOfMonth :: "int list"
  months :: "int list"
  daysOfWeek :: "int list"
  dayFieldsUseOr :: bool

definition sunday_zero :: "int list \<Rightarrow> int list" where
  "sunday_zero ds = (if 7 \<in> set ds then filter (\<lambda>d. d \<noteq> 7) (dedupe (ds @ [0])) else ds)"

definition parseCronExpression :: "string \<Rightarrow> parsed_cron option" where
  "parseCronExpression expression =
     (let parts = split_ws (trim expression)
      in if length parts \<noteq> 5 then None
         else
           (case (parseField (parts ! 0) 0 59, parseField (parts ! 1) 0 23, parseField (parts ! 2) 1 31,
                  parseField (parts ! 3) 1 12, parseField (parts ! 4) 0 7) of
              (Some mi, Some h, Some d, Some mo, Some w) \<Rightarrow>
                Some \<lparr>minutes = mi, hours = h, daysOfMonth = d, months = mo, daysOfWeek = sunday_zero w,
                      dayFieldsUseOr = \<not> startsWith (parts ! 2) ''*'' \<and> \<not> startsWith (parts ! 4) ''*''\<rparr>
            | _ \<Rightarrow> None))"

definition cronDayFieldsUseOr :: "string \<Rightarrow> bool" where
  "cronDayFieldsUseOr expression =
     (case parseCronExpression expression of None \<Rightarrow> False | Some c \<Rightarrow> dayFieldsUseOr c)"

section \<open>Matching a date\<close>

type_synonym formatter = "int \<Rightarrow> (string \<times> string) list"

record date_parts =
  dp_minute :: int
  dp_hour :: int
  dp_dayOfMonth :: int
  dp_month :: int
  dp_dayOfWeek :: int

definition WEEKDAY_INDEX :: "(string \<times> int) list" where
  "WEEKDAY_INDEX = [(''Sun'', 0), (''Mon'', 1), (''Tue'', 2), (''Wed'', 3), (''Thu'', 4), (''Fri'', 5), (''Sat'', 6)]"

text \<open>The value of the last part of a type wins, literals are skipped.\<close>

definition readCronDateParts :: "int \<Rightarrow> formatter \<Rightarrow> date_parts option" where
  "readCronDateParts date fmt =
     (let values = foldl (\<lambda>m (t, v). jset t v m) [] (filter (\<lambda>(t, v). t \<noteq> ''literal'') (fmt date));
          num = (\<lambda>k. case jget values k of None \<Rightarrow> None | Some s \<Rightarrow> parseInt s);
          wd = (case jget values ''weekday'' of None \<Rightarrow> None | Some s \<Rightarrow> jget WEEKDAY_INDEX s)
      in case (num ''minute'', num ''hour'', num ''day'', num ''month'', wd) of
           (Some mi, Some h, Some d, Some mo, Some w) \<Rightarrow>
             Some \<lparr>dp_minute = mi, dp_hour = h, dp_dayOfMonth = d, dp_month = mo, dp_dayOfWeek = w\<rparr>
         | _ \<Rightarrow> None)"

definition matchesCron :: "int \<Rightarrow> parsed_cron \<Rightarrow> formatter \<Rightarrow> bool" where
  "matchesCron date cron fmt =
     (case readCronDateParts date fmt of
        None \<Rightarrow> False
      | Some p \<Rightarrow>
          (let dayOfMonthMatches = dp_dayOfMonth p \<in> set (daysOfMonth cron);
               dayOfWeekMatches = dp_dayOfWeek p \<in> set (daysOfWeek cron);
               dayMatches = (if dayFieldsUseOr cron then dayOfMonthMatches \<or> dayOfWeekMatches
                             else dayOfMonthMatches \<and> dayOfWeekMatches)
           in dp_minute p \<in> set (minutes cron) \<and> dp_hour p \<in> set (hours cron)
              \<and> dp_month p \<in> set (months cron) \<and> dayMatches))"

section \<open>The search for the next run\<close>

definition MINUTE_MS :: int where
  "MINUTE_MS = 60000"

definition MAX_SEARCH_MINUTES :: nat where
  "MAX_SEARCH_MINUTES = 366 * 24 * 60"

text \<open>The minute-by-minute loop, \<open>n\<close> rounds left.\<close>

fun search_minutes :: "(int \<Rightarrow> bool) \<Rightarrow> int \<Rightarrow> nat \<Rightarrow> int option" where
  "search_minutes P candidate n =
     (if n = 0 then None
      else if P candidate then Some candidate
      else search_minutes P (candidate + MINUTE_MS) (n - 1))"

declare search_minutes.simps [simp del]

definition isLeapDayOnlySchedule :: "parsed_cron \<Rightarrow> bool" where
  "isLeapDayOnlySchedule cron \<longleftrightarrow>
     \<not> dayFieldsUseOr cron \<and> length (daysOfMonth cron) = 1 \<and> 29 \<in> set (daysOfMonth cron)
     \<and> length (months cron) = 1 \<and> 2 \<in> set (months cron) \<and> length (daysOfWeek cron) = 7"

definition isLeapYear :: "int \<Rightarrow> bool" where
  "isLeapYear y \<longleftrightarrow> y mod 4 = 0 \<and> (y mod 100 \<noteq> 0 \<or> y mod 400 = 0)"

definition DAY_MS :: int where
  "DAY_MS = 86400000"

text \<open>Days from the epoch to 1 January of a year, in the proleptic Gregorian calendar of \<open>Date\<close>.\<close>

definition leaps_before :: "int \<Rightarrow> int" where
  "leaps_before y = (y - 1) div 4 - (y - 1) div 100 + (y - 1) div 400"

definition year_start_day :: "int \<Rightarrow> int" where
  "year_start_day y = 365 * (y - 1970) + leaps_before y - leaps_before 1970"

definition getUTCFullYear :: "int \<Rightarrow> int" where
  "getUTCFullYear t =
     (let d = t div DAY_MS; y = 1970 + (400 * d) div 146097
      in if d < year_start_day y then y - 1 else if year_start_day (y + 1) \<le> d then y + 1 else y)"

text \<open>\<open>Date.UTC(year, 1, 28)\<close> and \<open>Date.UTC(year, 2, 2)\<close> of a leap year from 100 on.\<close>

definition leap_window_start :: "int \<Rightarrow> int" where
  "leap_window_start y = (year_start_day y + 58) * DAY_MS"

definition leap_window_end :: "int \<Rightarrow> int" where
  "leap_window_end y = (year_start_day y + 61) * DAY_MS"

text \<open>The window has three days of minutes.\<close>

definition LEAP_WINDOW_MINUTES :: nat where
  "LEAP_WINDOW_MINUTES = 3 * 24 * 60"

definition leap_year_search :: "parsed_cron \<Rightarrow> formatter \<Rightarrow> int \<Rightarrow> int \<Rightarrow> int option" where
  "leap_year_search cron fmt after y =
     (if \<not> isLeapYear y then None
      else search_minutes (\<lambda>c. c \<ge> after \<and> matchesCron c cron fmt) (leap_window_start y) LEAP_WINDOW_MINUTES)"

fun first_some :: "('a \<Rightarrow> 'b option) \<Rightarrow> 'a list \<Rightarrow> 'b option" where
  "first_some f [] = None"
| "first_some f (x # xs) = (case f x of Some y \<Rightarrow> Some y | None \<Rightarrow> first_some f xs)"

definition computeNextLeapDayRunAt :: "int \<Rightarrow> parsed_cron \<Rightarrow> formatter \<Rightarrow> int option" where
  "computeNextLeapDayRunAt after cron fmt =
     (let startYear = getUTCFullYear after
      in first_some (leap_year_search cron fmt after) [startYear..startYear + 8])"

record intl =
  tz_valid :: "string \<Rightarrow> bool"
  tz_parts :: "string \<Rightarrow> formatter"
  parseDate :: "string \<Rightarrow> int option"
  isoString :: "int \<Rightarrow> string"

definition first_candidate :: "int \<Rightarrow> int" where
  "first_candidate after = (after div MINUTE_MS) * MINUTE_MS + MINUTE_MS"

definition computeNextCronRunAt :: "intl \<Rightarrow> string \<Rightarrow> int \<Rightarrow> string \<Rightarrow> int option" where
  "computeNextCronRunAt env expression after timezone =
     (case parseCronExpression expression of
        None \<Rightarrow> None
      | Some parsed \<Rightarrow>
          if \<not> tz_valid env timezone then None
          else if isLeapDayOnlySchedule parsed
            then computeNextLeapDayRunAt (first_candidate after) parsed (tz_parts env timezone)
          else search_minutes (\<lambda>c. matchesCron c parsed (tz_parts env timezone))
                 (first_candidate after) MAX_SEARCH_MINUTES)"

section \<open>Schedules\<close>

datatype delay_unit = Second | Minute | Hour | Day

datatype cron_schedule =
    Once string
  | Cron string "string option"
  | Delay int delay_unit

fun DELAY_UNIT_MS :: "delay_unit \<Rightarrow> int" where
  "DELAY_UNIT_MS Second = 1000"
| "DELAY_UNIT_MS Minute = MINUTE_MS"
| "DELAY_UNIT_MS Hour = 60 * MINUTE_MS"
| "DELAY_UNIT_MS Day = 24 * 60 * MINUTE_MS"

definition delayToMilliseconds :: "int \<Rightarrow> delay_unit \<Rightarrow> int option" where
  "delayToMilliseconds amount unit' =
     (if amount \<le> 0 then None else Some (amount * DELAY_UNIT_MS unit'))"

fun computeNextRunAt :: "intl \<Rightarrow> cron_schedule \<Rightarrow> int \<Rightarrow> string \<Rightarrow> int option" where
  "computeNextRunAt env (Once runAt) after fallback = parseDate env runAt"
| "computeNextRunAt env (Delay amount unit') after fallback =
     (case delayToMilliseconds amount unit' of None \<Rightarrow> None | Some ms \<Rightarrow> Some (after + ms))"
| "computeNextRunAt env (Cron expression tz) after fallback =
     computeNextCronRunAt env expression after (case tz of Some z \<Rightarrow> z | None \<Rightarrow> fallback)"

definition resolveCronTimezone :: "intl \<Rightarrow> string option \<Rightarrow> string option \<Rightarrow> string option \<Rightarrow> string" where
  "resolveCronTimezone env scheduleTz taskTz configTz =
     (case find (\<lambda>z. z \<noteq> None \<and> z \<noteq> Some [] \<and> tz_valid env (the z)) [scheduleTz, taskTz, configTz, Some ''UTC''] of
        Some (Some z) \<Rightarrow> z
      | _ \<Rightarrow> ''UTC'')"

section \<open>The parsed fields\<close>

lemma set_steps_from: "set (steps_from v e s) \<subseteq> {v..e}"
proof (induction v e s rule: steps_from.induct)
  case (1 v e s)
  show ?case
  proof (cases "s \<le> 0 \<or> e < v")
    case True
    then show ?thesis by (subst steps_from.simps) simp
  next
    case False
    with 1 have "set (steps_from (v + s) e s) \<subseteq> {v + s..e}" by blast
    then show ?thesis using False by (subst steps_from.simps) auto
  qed
qed

lemma steps_from_not_Nil: "0 < s \<Longrightarrow> v \<le> e \<Longrightarrow> steps_from v e s \<noteq> []"
  by (subst steps_from.simps) simp

lemma parse_part_range:
  "parse_part p lo hi = Some vs \<Longrightarrow> vs \<noteq> [] \<and> set vs \<subseteq> {lo..hi}"
proof -
  assume "parse_part p lo hi = Some vs"
  then obtain s e st where v: "steps_from s e st = vs" "\<not> s < lo \<and> \<not> hi < e \<and> \<not> e < s" "\<not> st \<le> 0"
    unfolding parse_part_def Let_def
    by (simp split: if_split_asm option.split_asm prod.split_asm)
  then have "set vs \<subseteq> {s..e}" "vs \<noteq> []"
    using set_steps_from [of s e st] steps_from_not_Nil [of st s e] v by simp_all
  then show ?thesis using v(2) by auto
qed

lemma parse_parts_range:
  "parse_parts ps lo hi = Some vs \<Longrightarrow> (ps \<noteq> [] \<longrightarrow> vs \<noteq> []) \<and> set vs \<subseteq> {lo..hi}"
proof (induction ps arbitrary: vs)
  case (Cons p ps)
  then obtain us ws where "parse_part p lo hi = Some us" "parse_parts ps lo hi = Some ws" "vs = us @ ws"
    by (auto split: option.splits)
  with Cons.IH parse_part_range show ?case by fastforce
qed simp

lemma dedupe_Nil_iff [simp]: "dedupe xs = [] \<longleftrightarrow> xs = []"
  by (metis set_dedupe set_empty)

lemma parseField_range:
  "parseField f lo hi = Some vs \<Longrightarrow> vs \<noteq> [] \<and> distinct vs \<and> set vs \<subseteq> {lo..hi}"
  using parse_parts_range by (fastforce simp: parseField_def)

lemma sunday_zero_range:
  "ds \<noteq> [] \<Longrightarrow> distinct ds \<Longrightarrow> set ds \<subseteq> {0..7}
   \<Longrightarrow> sunday_zero ds \<noteq> [] \<and> distinct (sunday_zero ds) \<and> set (sunday_zero ds) \<subseteq> {0..6}"
proof -
  assume d: "ds \<noteq> []" "distinct ds" "set ds \<subseteq> {0..7}"
  show ?thesis
  proof (cases "7 \<in> set ds")
    case True
    then have "set (sunday_zero ds) = set ds \<union> {0} - {7}" by (auto simp: sunday_zero_def)
    moreover have "set ds \<union> {0} - {7} \<subseteq> {0..6}" using d(3) by auto
    moreover have "distinct (sunday_zero ds)" using True by (simp add: sunday_zero_def)
    moreover have "0 \<in> set ds \<union> {0} - {7 :: int}" by simp
    ultimately show ?thesis by (metis empty_iff set_empty)
  next
    case False
    have "x \<le> 6" if "x \<in> set ds" for x
    proof -
      have "x \<noteq> 7" "x \<le> 7" using that False d(3) by auto
      then show ?thesis by simp
    qed
    then show ?thesis using False d by (auto simp: sunday_zero_def)
  qed
qed

text \<open>Parsing a cron expression rejects every field out of range: what it accepts has five non-empty
  sets of distinct values, minutes in 0-59, hours in 0-23, days in 1-31, months in 1-12 and weekdays in
  0-6 with 7 folded into Sunday.\<close>

lemma parse_cron_bounds:
  "case parseCronExpression expression of
     None \<Rightarrow> True
   | Some c \<Rightarrow>
       set (minutes c) \<subseteq> {0..59} \<and> set (hours c) \<subseteq> {0..23} \<and> set (daysOfMonth c) \<subseteq> {1..31}
       \<and> set (months c) \<subseteq> {1..12} \<and> set (daysOfWeek c) \<subseteq> {0..6}
       \<and> [] \<notin> {minutes c, hours c, daysOfMonth c, months c, daysOfWeek c}
       \<and> distinct (minutes c) \<and> distinct (hours c) \<and> distinct (daysOfMonth c) \<and> distinct (months c)
       \<and> distinct (daysOfWeek c)"
proof (cases "parseCronExpression expression")
  case None
  then show ?thesis by simp
next
  case (Some c)
  then obtain mi h d mo w p where f: "parseField (p ! 0) 0 59 = Some mi" "parseField (p ! 1) 0 23 = Some h"
      "parseField (p ! 2) 1 31 = Some d" "parseField (p ! 3) 1 12 = Some mo" "parseField (p ! 4) 0 7 = Some w"
      "minutes c = mi" "hours c = h" "daysOfMonth c = d" "months c = mo" "daysOfWeek c = sunday_zero w"
    by (auto simp: parseCronExpression_def Let_def split: if_splits option.splits)
  show ?thesis
    using parseField_range [OF f(1)] parseField_range [OF f(2)] parseField_range [OF f(3)]
      parseField_range [OF f(4)] parseField_range [OF f(5)] sunday_zero_range [of w]
    by (simp add: Some f) metis
qed

section \<open>The next run is the least matching minute\<close>

lemma search_minutes_Some:
  "search_minutes P c n = Some t \<longleftrightarrow>
     (\<exists>k<n. t = c + int k * MINUTE_MS \<and> P t \<and> (\<forall>j<k. \<not> P (c + int j * MINUTE_MS)))"
proof (induction n arbitrary: c)
  case 0
  then show ?case by (simp add: search_minutes.simps)
next
  case (Suc n)
  have eq: "search_minutes P c (Suc n) = (if P c then Some c else search_minutes P (c + MINUTE_MS) n)"
    by (subst search_minutes.simps) simp
  show ?case
  proof (cases "P c")
    case True
    then show ?thesis unfolding eq by (auto intro: exI [of _ 0]) (metis add.right_neutral gr0I mult_zero_left of_nat_0)
  next
    case False
    have "(\<exists>k<n. t = c + MINUTE_MS + int k * MINUTE_MS \<and> P t \<and> (\<forall>j<k. \<not> P (c + MINUTE_MS + int j * MINUTE_MS)))
        \<longleftrightarrow> (\<exists>k<Suc n. t = c + int k * MINUTE_MS \<and> P t \<and> (\<forall>j<k. \<not> P (c + int j * MINUTE_MS)))" (is "?L = ?R")
    proof
      assume ?L
      then obtain k where k: "k < n" "t = c + int (Suc k) * MINUTE_MS" "P t"
          "\<forall>j<k. \<not> P (c + int (Suc j) * MINUTE_MS)" by (auto simp: algebra_simps)
      have "\<not> P (c + int j * MINUTE_MS)" if "j < Suc k" for j
        using that k(4) False by (cases j) auto
      then show ?R using k by (intro exI [of _ "Suc k"]) auto
    next
      assume ?R
      then obtain k where k: "k < Suc n" "t = c + int k * MINUTE_MS" "P t"
          "\<forall>j<k. \<not> P (c + int j * MINUTE_MS)" by blast
      obtain k' where k': "k = Suc k'" using k False by (cases k) auto
      have "\<forall>j<k'. \<not> P (c + int (Suc j) * MINUTE_MS)" using k(4) k' by blast
      then show ?L using k k' by (intro exI [of _ k']) (auto simp: algebra_simps)
    qed
    then show ?thesis unfolding eq using False Suc.IH [of "c + MINUTE_MS"] by simp
  qed
qed

lemma search_minutes_None:
  "search_minutes P c n = None \<longleftrightarrow> (\<forall>k<n. \<not> P (c + int k * MINUTE_MS))"
proof (induction n arbitrary: c)
  case 0
  then show ?case by (simp add: search_minutes.simps)
next
  case (Suc n)
  have eq: "search_minutes P c (Suc n) = (if P c then Some c else search_minutes P (c + MINUTE_MS) n)"
    by (subst search_minutes.simps) simp
  have "(\<forall>k<Suc n. \<not> P (c + int k * MINUTE_MS))
      \<longleftrightarrow> \<not> P c \<and> (\<forall>k<n. \<not> P (c + int (Suc k) * MINUTE_MS))"
    by (auto simp: less_Suc_eq_0_disj)
  then show ?case unfolding eq using Suc.IH [of "c + MINUTE_MS"] by (auto simp: algebra_simps)
qed

text \<open>The minutes of a window, as the multiples of a minute in it.\<close>

lemma minute_index:
  assumes "MINUTE_MS dvd c" and "MINUTE_MS dvd u" and "c \<le> u" and "u < c + int n * MINUTE_MS"
  shows "\<exists>k<n. u = c + int k * MINUTE_MS"
proof -
  obtain a b where ab: "c = MINUTE_MS * a" "u = MINUTE_MS * b" using assms(1,2) by (auto elim!: dvdE)
  have "a \<le> b" "b < a + int n" using assms(3,4) ab by (simp_all add: MINUTE_MS_def)
  then have "nat (b - a) < n" "u = c + int (nat (b - a)) * MINUTE_MS"
    using ab by (simp_all add: algebra_simps)
  then show ?thesis by blast
qed

lemma search_minutes_least:
  assumes "MINUTE_MS dvd c"
  shows "case search_minutes P c n of
           Some t \<Rightarrow> is_arg_min id (\<lambda>u. MINUTE_MS dvd u \<and> c \<le> u \<and> u < c + int n * MINUTE_MS \<and> P u) t
         | None \<Rightarrow> {u. MINUTE_MS dvd u \<and> c \<le> u \<and> u < c + int n * MINUTE_MS \<and> P u} = {}"
proof (cases "search_minutes P c n")
  case None
  then have "\<not> P u" if "MINUTE_MS dvd u" "c \<le> u" "u < c + int n * MINUTE_MS" for u
    using minute_index [OF assms that] unfolding search_minutes_None by blast
  then show ?thesis using None by auto
next
  case (Some t)
  then obtain k where k: "k < n" "t = c + int k * MINUTE_MS" "P t"
      "\<forall>j<k. \<not> P (c + int j * MINUTE_MS)" unfolding search_minutes_Some by blast
  have "int k * MINUTE_MS < int n * MINUTE_MS" using k(1) by (simp add: MINUTE_MS_def)
  then have t: "MINUTE_MS dvd t" "c \<le> t" "t < c + int n * MINUTE_MS"
    using assms k by (simp_all add: MINUTE_MS_def)
  have "t \<le> u" if u: "MINUTE_MS dvd u" "c \<le> u" "u < c + int n * MINUTE_MS" "P u" for u
  proof -
    obtain j where j: "u = c + int j * MINUTE_MS" using minute_index [OF assms u(1,2,3)] by blast
    have "\<not> j < k" using k(4) u(4) j by blast
    then have "k \<le> j" by simp
    then show ?thesis using j k by (simp add: MINUTE_MS_def)
  qed
  then show ?thesis using Some t k(3) by (auto simp: is_arg_min_linorder)
qed

lemma first_candidate_le: "MINUTE_MS dvd u \<Longrightarrow> first_candidate after \<le> u \<longleftrightarrow> after < u"
proof -
  assume "MINUTE_MS dvd u"
  then obtain k where k: "u = 60000 * k" by (auto simp: MINUTE_MS_def elim: dvdE)
  have "after = 60000 * (after div 60000) + after mod 60000" "0 \<le> after mod 60000" "after mod 60000 < 60000"
    by simp_all
  then have "after < 60000 * k \<longleftrightarrow> after div 60000 < k" by linarith
  then show ?thesis by (auto simp: first_candidate_def MINUTE_MS_def k)
qed

lemma first_candidate_dvd: "MINUTE_MS dvd first_candidate after"
  by (simp add: first_candidate_def)

lemma int_MAX_SEARCH_MINUTES: "int MAX_SEARCH_MINUTES = 527040"
  by (simp add: MAX_SEARCH_MINUTES_def)

text \<open>C28. The next run of a cron schedule is the least one: for an expression that is not for leap days
  only, the result is the least whole minute after the given instant that matches in the timezone, and
  there is no result exactly when no minute of the following 366 days matches. (Those for leap days only are
  looked for further ahead.)\<close>

theorem next_cron_run_least:
  assumes "parseCronExpression expression = Some cron" and "tz_valid env tz"
    and "\<not> isLeapDayOnlySchedule cron"
  shows "case computeNextCronRunAt env expression after tz of
           Some t \<Rightarrow> is_arg_min id (\<lambda>u. MINUTE_MS dvd u \<and> after < u
                       \<and> u < first_candidate after + 527040 * MINUTE_MS \<and> matchesCron u cron (tz_parts env tz)) t
         | None \<Rightarrow> {u. MINUTE_MS dvd u \<and> after < u
                       \<and> u < first_candidate after + 527040 * MINUTE_MS \<and> matchesCron u cron (tz_parts env tz)} = {}"
proof -
  have eq: "(MINUTE_MS dvd u \<and> first_candidate after \<le> u \<and> u < B \<and> matchesCron u cron F)
      = (MINUTE_MS dvd u \<and> after < u \<and> u < B \<and> matchesCron u cron F)" for u B F
    using first_candidate_le by blast
  show ?thesis
    using search_minutes_least [OF first_candidate_dvd,
        where P = "\<lambda>c. matchesCron c cron (tz_parts env tz)" and after1 = after and n = MAX_SEARCH_MINUTES]
    unfolding eq int_MAX_SEARCH_MINUTES by (simp add: computeNextCronRunAt_def assms)
qed

section \<open>Leap days\<close>

lemma div_step:
  fixes y n :: int
  assumes n: "0 < n"
  shows "y div n = (y - 1) div n + (if n dvd y then 1 else 0)"
proof (cases "n dvd y")
  case True
  then obtain k where k: "y = n * k" by blast
  have "(y - 1) div n = k - 1"
    by (rule int_div_pos_eq [of _ _ _ "n - 1"]) (use n k in \<open>simp_all add: algebra_simps\<close>)
  then show ?thesis using k n by simp
next
  case False
  then have m: "y mod n \<noteq> 0" by (simp add: dvd_eq_mod_eq_0)
  have b: "0 \<le> y mod n" "y mod n < n" using n by simp_all
  have "(y - 1) div n = y div n"
    by (rule int_div_pos_eq [of _ _ _ "y mod n - 1"]) (use m b mult_div_mod_eq [of n y] in linarith)+
  then show ?thesis using False by simp
qed

lemma isLeapYear_dvd: "isLeapYear y \<longleftrightarrow> 4 dvd y \<and> (\<not> 100 dvd y \<or> 400 dvd y)"
  by (simp add: isLeapYear_def dvd_eq_mod_eq_0)

lemma dvd_400_100_4: "400 dvd (y :: int) \<Longrightarrow> 100 dvd y" "100 dvd (y :: int) \<Longrightarrow> 4 dvd y"
  by (erule dvd_trans [rotated], simp)+

lemma year_start_step: "year_start_day (y + 1) = year_start_day y + 365 + (if isLeapYear y then 1 else 0)"
proof -
  have "(if 4 dvd y then 1 else 0) - (if 100 dvd y then 1 else 0) + (if 400 dvd y then 1 else 0)
      = (if isLeapYear y then 1 else (0 :: int))"
    using dvd_400_100_4 [of y]
    by (cases "4 dvd y"; cases "100 dvd y"; cases "400 dvd y") (simp_all add: isLeapYear_dvd)
  moreover have "year_start_day (y + 1) = year_start_day y + 365
      + (y div 4 - (y - 1) div 4) - (y div 100 - (y - 1) div 100) + (y div 400 - (y - 1) div 400)"
    by (simp add: year_start_day_def leaps_before_def)
  moreover have "y div 4 - (y - 1) div 4 = (if 4 dvd y then 1 else 0)"
    "y div 100 - (y - 1) div 100 = (if 100 dvd y then 1 else 0)"
    "y div 400 - (y - 1) div 400 = (if 400 dvd y then 1 else 0)"
    using div_step [of 4 y] div_step [of 100 y] div_step [of 400 y] by simp_all
  ultimately show ?thesis by simp
qed

lemma year_start_mono1: "year_start_day y + 365 \<le> year_start_day (y + 1)"
  by (simp add: year_start_step)

lemma year_start_mono: "x \<le> y \<Longrightarrow> year_start_day x \<le> year_start_day y"
proof (induction "nat (y - x)" arbitrary: y)
  case (Suc n)
  then have "year_start_day x \<le> year_start_day (y - 1)" by simp
  also have "\<dots> \<le> year_start_day y" using year_start_mono1 [of "y - 1"] by simp
  finally show ?case .
qed simp

text \<open>The year \<open>getUTCFullYear\<close> computes starts no later than the given day.\<close>

lemma year_start_estimate:
  fixes m d :: int
  assumes "146097 * m \<le> 400 * d"
  shows "year_start_day (1969 + m) \<le> d"
proof -
  define a where "a = (1968 + m) div 4"
  define b where "b = (1968 + m) div 100"
  define c where "c = (1968 + m) div 400"
  have "4 * a \<le> 1968 + m" "1968 + m < 100 * b + 100" "400 * c \<le> 1968 + m"
    unfolding a_def b_def c_def by linarith+
  then have "400 * (365 * (m - 1) + a - b + c - 477) \<le> 146097 * m"
    by (simp add: algebra_simps)
  then have "400 * (365 * (m - 1) + a - b + c - 477) \<le> 400 * d" using assms by (rule order_trans)
  then have "365 * (m - 1) + a - b + c - 477 \<le> d" by (simp only: mult_le_cancel_left_pos zero_less_numeral)
  moreover have "year_start_day (1969 + m) = 365 * (m - 1) + a - b + c - 477"
    by (simp add: year_start_day_def leaps_before_def a_def b_def c_def)
  ultimately show ?thesis by simp
qed

lemma getUTCFullYear_lower: "year_start_day (getUTCFullYear t) \<le> t div DAY_MS"
proof -
  define d where "d = t div DAY_MS"
  define m where "m = (400 * d) div 146097"
  have "146097 * m \<le> 400 * d" unfolding m_def by linarith
  then have "year_start_day (1969 + m) \<le> d" by (rule year_start_estimate)
  then show ?thesis
    by (simp add: getUTCFullYear_def Let_def flip: d_def m_def)
qed

lemma leap_windows_ordered: "y < z \<Longrightarrow> leap_window_end y \<le> leap_window_start z"
proof -
  assume "y < z"
  then have "year_start_day y + 365 \<le> year_start_day z"
    using year_start_mono1 [of y] year_start_mono [of "y + 1" z] by simp
  then show ?thesis by (simp add: leap_window_end_def leap_window_start_def DAY_MS_def)
qed

lemma leap_window_past:
  assumes "y < getUTCFullYear t" shows "leap_window_end y \<le> t"
proof -
  have "year_start_day y + 365 \<le> year_start_day (getUTCFullYear t)"
    using year_start_mono1 [of y] year_start_mono [of "y + 1" "getUTCFullYear t"] assms by simp
  also have "\<dots> \<le> t div DAY_MS" by (rule getUTCFullYear_lower)
  finally have "(year_start_day y + 61) * DAY_MS \<le> (t div DAY_MS) * DAY_MS" by (simp add: DAY_MS_def)
  also have "\<dots> \<le> t" by (simp add: DAY_MS_def)
  finally show ?thesis by (simp add: leap_window_end_def)
qed

definition leap_minutes :: "parsed_cron \<Rightarrow> formatter \<Rightarrow> int \<Rightarrow> int \<Rightarrow> int set" where
  "leap_minutes cron fmt after y =
     (if isLeapYear y
      then {u. MINUTE_MS dvd u \<and> leap_window_start y \<le> u \<and> u < leap_window_end y \<and> after \<le> u \<and> matchesCron u cron fmt}
      else {})"

lemma leap_year_search_least:
  "case leap_year_search cron fmt after y of
     Some t \<Rightarrow> is_arg_min id (\<lambda>u. u \<in> leap_minutes cron fmt after y) t
   | None \<Rightarrow> leap_minutes cron fmt after y = {}"
proof (cases "isLeapYear y")
  case True
  have d: "MINUTE_MS dvd leap_window_start y"
    by (simp add: leap_window_start_def DAY_MS_def MINUTE_MS_def)
  have e: "leap_window_start y + int LEAP_WINDOW_MINUTES * MINUTE_MS = leap_window_end y"
    by (simp add: leap_window_start_def leap_window_end_def DAY_MS_def MINUTE_MS_def LEAP_WINDOW_MINUTES_def)
  show ?thesis
    using search_minutes_least [OF d, where P = "\<lambda>c. c \<ge> after \<and> matchesCron c cron fmt" and n = LEAP_WINDOW_MINUTES]
    unfolding e by (simp add: leap_year_search_def leap_minutes_def True cong: option.case_cong)
qed (simp add: leap_year_search_def leap_minutes_def)

lemma first_some_least:
  assumes "sorted_wrt (\<lambda>x y. \<forall>s\<in>S x. \<forall>t\<in>S y. s \<le> t) ys"
    and "\<And>y. case f y of Some t \<Rightarrow> is_arg_min id (\<lambda>u. u \<in> S y) t | None \<Rightarrow> S y = ({} :: int set)"
  shows "case first_some f ys of Some t \<Rightarrow> is_arg_min id (\<lambda>u. u \<in> (\<Union>y\<in>set ys. S y)) t
         | None \<Rightarrow> (\<Union>y\<in>set ys. S y) = {}"
  using assms(1)
proof (induction ys)
  case (Cons y ys)
  show ?case
  proof (cases "f y")
    case None
    then have "S y = {}" using assms(2) [of y] by simp
    then have "(\<Union>z\<in>set (y # ys). S z) = (\<Union>z\<in>set ys. S z)" by simp
    then show ?thesis using None Cons by (simp only: first_some.simps option.case) simp
  next
    case (Some t)
    then have t: "t \<in> S y" "\<forall>u\<in>S y. t \<le> u" using assms(2) [of y] by (auto simp: is_arg_min_linorder)
    have "\<forall>z\<in>set ys. \<forall>u\<in>S z. t \<le> u" using Cons.prems t(1) by auto
    with t Some show ?thesis by (auto simp: is_arg_min_linorder)
  qed
qed simp

lemma sorted_leap_minutes:
  "sorted_wrt (\<lambda>x y. \<forall>s\<in>leap_minutes c f a x. \<forall>t\<in>leap_minutes c f a y. s \<le> t) [i..j]"
proof -
  have "(\<forall>s\<in>leap_minutes c f a x. \<forall>t\<in>leap_minutes c f a y. s \<le> t)" if "x < y" for x y
    using leap_windows_ordered [OF that] by (auto simp: leap_minutes_def)
  then show ?thesis
    by (rule sorted_wrt_mono_rel [rotated, OF sorted_wrt_upto]) auto
qed

text \<open>C29. The leap-day search skips the rest of the calendar without losing a run: for a 29 February
  expression in a timezone whose 29 February always falls in the three UTC days the search scans, the
  result is the least matching minute after the given instant up to the February of the eighth
  following year, and there is no result exactly when there is none.\<close>

theorem next_leap_day_run_least:
  assumes "parseCronExpression expression = Some cron" and "tz_valid env tz" and "isLeapDayOnlySchedule cron"
    and "\<forall>u. matchesCron u cron (tz_parts env tz) \<longrightarrow>
           (\<exists>y. isLeapYear y \<and> leap_window_start y \<le> u \<and> u < leap_window_end y)"
  shows "case computeNextCronRunAt env expression after tz of
           Some t \<Rightarrow> is_arg_min id (\<lambda>u. MINUTE_MS dvd u \<and> after < u
                       \<and> u < leap_window_end (getUTCFullYear (first_candidate after) + 8)
                       \<and> matchesCron u cron (tz_parts env tz)) t
         | None \<Rightarrow> {u. MINUTE_MS dvd u \<and> after < u
                       \<and> u < leap_window_end (getUTCFullYear (first_candidate after) + 8)
                       \<and> matchesCron u cron (tz_parts env tz)} = {}"
proof -
  let ?a = "first_candidate after" and ?fmt = "tz_parts env tz"
  let ?y = "getUTCFullYear ?a"
  have "(\<Union>y\<in>set [?y..?y + 8]. leap_minutes cron ?fmt ?a y)
      = {u. MINUTE_MS dvd u \<and> after < u \<and> u < leap_window_end (?y + 8) \<and> matchesCron u cron ?fmt}" (is "?U = ?S")
  proof
    have "u \<in> ?S" if "u \<in> leap_minutes cron ?fmt ?a y" "y \<le> ?y + 8" for u y
    proof -
      have "leap_window_end y \<le> leap_window_end (?y + 8)"
        using that(2) year_start_mono [of y "?y + 8"] by (simp add: leap_window_end_def DAY_MS_def)
      then show ?thesis
        using that(1) first_candidate_le [of u after] by (auto simp: leap_minutes_def split: if_splits)
    qed
    then show "?U \<subseteq> ?S" by auto
    show "?S \<subseteq> ?U"
    proof
      fix u assume u: "u \<in> ?S"
      then obtain y where y: "isLeapYear y" "leap_window_start y \<le> u" "u < leap_window_end y"
        using assms(4) by auto
      have "?a \<le> u" using u first_candidate_le [of u after] by auto
      have "?y \<le> y" using leap_window_past [of y ?a] y(3) \<open>?a \<le> u\<close> by force
      moreover have "y \<le> ?y + 8" using leap_windows_ordered [of "?y + 8" y] y(2) u by force
      moreover have "u \<in> leap_minutes cron ?fmt ?a y"
        using u y \<open>?a \<le> u\<close> by (simp add: leap_minutes_def)
      ultimately show "u \<in> ?U" by auto
    qed
  qed
  then show ?thesis
    using first_some_least [OF sorted_leap_minutes leap_year_search_least, of cron ?fmt ?a ?y "?y + 8"]
    by (simp add: computeNextCronRunAt_def computeNextLeapDayRunAt_def assms(1-3) Let_def cong: option.case_cong)
qed

section \<open>Instances\<close>

text \<open>A host in UTC that answers with the minute and hour of the instant on a fixed Monday, and one that
  knows only 29 February 2024.\<close>

definition clock_parts :: formatter where
  "clock_parts u = [(''month'', ''01''), (''literal'', '', ''), (''day'', ''01''), (''hour'', show_int (u div 3600000 mod 24)),
     (''minute'', show_int (u div 60000 mod 60)), (''weekday'', ''Mon'')]"

definition leap_parts :: formatter where
  "leap_parts u = (if u div DAY_MS = year_start_day 2024 + 59
     then [(''month'', ''02''), (''day'', ''29''), (''hour'', show_int (u div 3600000 mod 24)),
           (''minute'', show_int (u div 60000 mod 60)), (''weekday'', ''Thu'')]
     else [])"

definition example_intl :: intl where
  "example_intl = \<lparr>tz_valid = (\<lambda>z. z = ''UTC'' \<or> z = ''Leap''),
     tz_parts = (\<lambda>z. if z = ''Leap'' then leap_parts else clock_parts),
     parseDate = (\<lambda>_. None), isoString = show_int\<rparr>"

definition half_hourly :: parsed_cron where
  "half_hourly = \<lparr>minutes = [0, 30], hours = [4], daysOfMonth = steps_from 1 31 1, months = steps_from 1 12 1,
     daysOfWeek = [1, 2, 3, 4, 5], dayFieldsUseOr = False\<rparr>"

definition leap_midnight :: parsed_cron where
  "leap_midnight = \<lparr>minutes = [0], hours = [0], daysOfMonth = [29], months = [2],
     daysOfWeek = [0, 1, 2, 3, 4, 5, 6], dayFieldsUseOr = False\<rparr>"

lemma parse_half_hourly: "parseCronExpression ''*/30 4 * * 1-5'' = Some half_hourly"
  by code_simp

lemma parse_leap_midnight: "parseCronExpression ''0 0 29 2 *'' = Some leap_midnight"
  by code_simp

theorem next_cron_run_least_witness:
  "parseCronExpression ''*/30 4 * * 1-5'' = Some half_hourly
   \<and> (case computeNextCronRunAt example_intl ''*/30 4 * * 1-5'' 0 ''UTC'' of
       Some t \<Rightarrow> is_arg_min id (\<lambda>u. MINUTE_MS dvd u \<and> 0 < u
                   \<and> u < first_candidate 0 + 527040 * MINUTE_MS \<and> matchesCron u half_hourly clock_parts) t
     | None \<Rightarrow> {u. MINUTE_MS dvd u \<and> 0 < u
                   \<and> u < first_candidate 0 + 527040 * MINUTE_MS \<and> matchesCron u half_hourly clock_parts} = {})"
proof -
  have p: "tz_valid example_intl ''UTC''" "tz_parts example_intl ''UTC'' = clock_parts"
    by (simp_all add: example_intl_def)
  have "\<not> isLeapDayOnlySchedule half_hourly" by code_simp
  from next_cron_run_least [OF parse_half_hourly p(1) this, of 0] show ?thesis
    unfolding p using parse_half_hourly by simp
qed

lemma leap_parts_window:
  assumes "matchesCron u cron leap_parts"
  shows "isLeapYear 2024 \<and> leap_window_start 2024 \<le> u \<and> u < leap_window_end 2024"
proof -
  have "u div DAY_MS = year_start_day 2024 + 59"
    using assms by (auto simp: matchesCron_def readCronDateParts_def leap_parts_def split: if_splits)
  moreover have "u div DAY_MS * DAY_MS \<le> u" "u < u div DAY_MS * DAY_MS + DAY_MS"
    unfolding DAY_MS_def by linarith+
  ultimately have "(year_start_day 2024 + 58) * DAY_MS \<le> u \<and> u < (year_start_day 2024 + 61) * DAY_MS"
    by (simp add: DAY_MS_def)
  moreover have "isLeapYear 2024" by (simp add: isLeapYear_def)
  ultimately show ?thesis by (simp add: leap_window_start_def leap_window_end_def)
qed

theorem next_leap_day_run_least_witness:
  "parseCronExpression ''0 0 29 2 *'' = Some leap_midnight
   \<and> (case computeNextCronRunAt example_intl ''0 0 29 2 *'' 0 ''Leap'' of
       Some t \<Rightarrow> is_arg_min id (\<lambda>u. MINUTE_MS dvd u \<and> 0 < u
                   \<and> u < leap_window_end (getUTCFullYear (first_candidate 0) + 8)
                   \<and> matchesCron u leap_midnight leap_parts) t
     | None \<Rightarrow> {u. MINUTE_MS dvd u \<and> 0 < u
                   \<and> u < leap_window_end (getUTCFullYear (first_candidate 0) + 8)
                   \<and> matchesCron u leap_midnight leap_parts} = {})"
proof -
  have p: "tz_valid example_intl ''Leap''" "tz_parts example_intl ''Leap'' = leap_parts"
    by (simp_all add: example_intl_def)
  have l: "isLeapDayOnlySchedule leap_midnight" by code_simp
  have "\<forall>u. matchesCron u leap_midnight (tz_parts example_intl ''Leap'') \<longrightarrow>
      (\<exists>y. isLeapYear y \<and> leap_window_start y \<le> u \<and> u < leap_window_end y)"
    unfolding p using leap_parts_window by blast
  from next_leap_day_run_least [OF parse_leap_midnight p(1) l this, of 0] show ?thesis
    unfolding p using parse_leap_midnight by simp
qed

end
