(* ===== verification/CronStore.thy ===== *)
theory CronStore
  imports CronSchedule
begin

text \<open>
  Cron tasks and their store: \<open>cron/protocol/types.ts\<close> and \<open>cron/storage/CronTaskStore.ts\<close>.

  The store keeps its tasks in one file; \<open>mutateTaskFile\<close> queues the mutations of a file behind each
  other, so an operation is one function on the list of tasks. The encoding of the file and the temporary
  file of a write are not modelled. \<open>localeCompare\<close> is a parameter.
\<close>

section \<open>Tasks and runs\<close>

datatype task_status = Scheduled | Running

record cron_task =
  taskId :: string
  task_message :: string
  schedule :: cron_schedule
  task_status :: task_status
  sessionKey :: string
  channelKey :: string
  projectKey :: "string option"
  task_mode :: "string option"
  task_timezone :: "string option"
  createdAt :: string
  updatedAt :: string
  nextRunAt :: "string option"
  lastRunId :: "string option"
  revision :: "int option"
  scheduleComputationVersion :: "nat option"
  originSessionKey :: "string option"
  originChannelKey :: "string option"

datatype run_outcome = Completed | Failed | Aborted | Stopped

record run_error =
  err_code :: string
  err_message :: string

record run_record =
  rr_runId :: string
  rr_taskId :: string
  rr_sessionKey :: string
  rr_projectKey :: "string option"
  rr_startedAt :: string
  rr_finishedAt :: "string option"
  rr_outcome :: "run_outcome option"
  rr_error :: "run_error option"

definition rev_of :: "cron_task \<Rightarrow> int" where
  "rev_of t = (case revision t of Some r \<Rightarrow> r | None \<Rightarrow> 0)"

section \<open>The operations of the store\<close>

type_synonym comparator = "string \<Rightarrow> string \<Rightarrow> int"

definition run_key :: "cron_task \<Rightarrow> string" where
  "run_key t = (case nextRunAt t of Some s \<Rightarrow> s | None \<Rightarrow> [])"

definition sortTasks :: "comparator \<Rightarrow> cron_task list \<Rightarrow> cron_task list" where
  "sortTasks cmp ts = sort_by (\<lambda>l r. cmp (run_key l) (run_key r) \<le> 0) ts"

definition getTask :: "cron_task list \<Rightarrow> string \<Rightarrow> cron_task option" where
  "getTask ts i = find (\<lambda>t. taskId t = i) ts"

definition putTask :: "comparator \<Rightarrow> cron_task \<Rightarrow> cron_task list \<Rightarrow> cron_task list" where
  "putTask cmp task ts =
     (case find_index (\<lambda>t. taskId t = taskId task) ts of
        Some ix \<Rightarrow> sortTasks cmp (ts[ix := task])
      | None \<Rightarrow> sortTasks cmp (ts @ [task]))"

definition replaceTask :: "comparator \<Rightarrow> cron_task \<Rightarrow> cron_task list \<Rightarrow> cron_task list \<times> bool" where
  "replaceTask cmp task ts =
     (case find_index (\<lambda>t. taskId t = taskId task) ts of
        None \<Rightarrow> (ts, False)
      | Some ix \<Rightarrow> (sortTasks cmp (ts[ix := task]), True))"

definition updateTask ::
    "comparator \<Rightarrow> string \<Rightarrow> (cron_task \<Rightarrow> cron_task option) \<Rightarrow> cron_task list \<Rightarrow> cron_task list \<times> cron_task option" where
  "updateTask cmp i upd ts =
     (sortTasks cmp (concat (map (\<lambda>t. if taskId t \<noteq> i then [t]
                                      else (case upd t of Some u \<Rightarrow> [u] | None \<Rightarrow> [])) ts)),
      (let hits = filter (\<lambda>t. taskId t = i) ts in if hits = [] then None else upd (last hits)))"

definition deleteTask :: "comparator \<Rightarrow> string \<Rightarrow> cron_task list \<Rightarrow> cron_task list \<times> bool" where
  "deleteTask cmp i ts =
     (let ts' = filter (\<lambda>t. taskId t \<noteq> i) ts
      in if length ts' = length ts then (ts, False) else (sortTasks cmp ts', True))"

text \<open>The newest records first; a limit of zero or less negates to the start of the list.\<close>

definition listRuns :: "int \<Rightarrow> run_record list \<Rightarrow> run_record list" where
  "listRuns limit records =
     (if limit \<le> 0 then rev records else rev (slice_last (nat limit) records))"

section \<open>Facts about the store\<close>

named_theorems store_simps \<open>lookup after a store operation\<close>

lemma mset_sortTasks [simp]: "mset (sortTasks cmp ts) = mset ts"
  by (simp add: sortTasks_def)

lemma set_sortTasks [simp]: "set (sortTasks cmp ts) = set ts"
  by (metis mset_sortTasks set_mset_mset)

definition task_ids :: "cron_task list \<Rightarrow> string list" where
  "task_ids ts = map taskId ts"

abbreviation store_ok :: "cron_task list \<Rightarrow> bool" where
  "store_ok ts \<equiv> distinct (task_ids ts)"

lemma mset_task_ids_sort [simp]: "mset (task_ids (sortTasks cmp ts)) = mset (task_ids ts)"
  by (simp add: task_ids_def)

lemma store_ok_sort [simp]: "store_ok (sortTasks cmp ts) = store_ok ts"
  by (metis mset_eq_imp_distinct_iff mset_task_ids_sort)

lemma set_task_ids: "set (task_ids ts) = taskId ` set ts"
  by (simp add: task_ids_def)

lemma getTask_in: "store_ok ts \<Longrightarrow> getTask ts i = Some t \<longleftrightarrow> t \<in> set ts \<and> taskId t = i"
proof (induction ts)
  case Nil
  then show ?case by (simp add: getTask_def)
next
  case (Cons a ts)
  then have IH: "getTask ts i = Some t \<longleftrightarrow> t \<in> set ts \<and> taskId t = i" by (simp add: task_ids_def)
  have "taskId a \<notin> taskId ` set ts" using Cons.prems by (simp add: task_ids_def)
  then show ?case using IH by (auto simp: getTask_def)
qed

lemma getTask_id: "getTask ts i = Some t \<Longrightarrow> taskId t = i"
  unfolding getTask_def by (drule find_Some_in) simp

lemma getTask_Cons: "getTask (t # ts) i = (if taskId t = i then Some t else getTask ts i)"
  by (simp add: getTask_def)

lemma getTask_None: "getTask ts i = None \<longleftrightarrow> i \<notin> set (task_ids ts)"
  unfolding getTask_def task_ids_def by (auto simp: find_None_iff)

lemma getTask_cong_set:
  assumes "store_ok ts" "store_ok us" "set ts = set us"
  shows "getTask ts i = getTask us i"
proof (cases "getTask us i")
  case None
  then have "i \<notin> set (task_ids us)" by (simp add: getTask_None)
  with assms(3) have "getTask ts i = None" by (simp add: getTask_None set_task_ids)
  with None show ?thesis by simp
next
  case (Some t)
  with assms show ?thesis by (metis getTask_in)
qed

lemma getTask_sort: "store_ok ts \<Longrightarrow> getTask (sortTasks cmp ts) i = getTask ts i"
  by (rule getTask_cong_set) simp_all

text \<open>The updated list before sorting.\<close>

definition updated_list :: "string \<Rightarrow> (cron_task \<Rightarrow> cron_task option) \<Rightarrow> cron_task list \<Rightarrow> cron_task list" where
  "updated_list i upd ts = concat (map (\<lambda>t. if taskId t \<noteq> i then [t]
                                      else (case upd t of Some u \<Rightarrow> [u] | None \<Rightarrow> [])) ts)"

definition keeps_id :: "(cron_task \<Rightarrow> cron_task option) \<Rightarrow> bool" where
  "keeps_id upd \<longleftrightarrow> (\<forall>t u. upd t = Some u \<longrightarrow> taskId u = taskId t)"

lemma set_updated_list:
  "u \<in> set (updated_list i upd ts) \<longleftrightarrow>
     (u \<in> set ts \<and> taskId u \<noteq> i) \<or> (\<exists>t\<in>set ts. taskId t = i \<and> upd t = Some u)"
  by (force simp: updated_list_def split: if_splits option.splits)

lemma updated_list_ids:
  "keeps_id upd \<Longrightarrow> set (task_ids (updated_list i upd ts)) \<subseteq> set (task_ids ts)"
  unfolding set_task_ids by (force simp: set_updated_list keeps_id_def image_iff)

lemma store_ok_updated_list:
  "keeps_id upd \<Longrightarrow> store_ok ts \<Longrightarrow> store_ok (updated_list i upd ts)"
proof (induction ts)
  case (Cons t ts)
  have ok: "store_ok (updated_list i upd ts)" using Cons by (simp add: task_ids_def)
  have no: "taskId t \<notin> set (task_ids (updated_list i upd ts))"
    using updated_list_ids [OF Cons.prems(1), of i ts] Cons.prems(2) by (auto simp: task_ids_def)
  have eq: "updated_list i upd (t # ts) =
      (if taskId t \<noteq> i then [t] else (case upd t of Some u \<Rightarrow> [u] | None \<Rightarrow> [])) @ updated_list i upd ts"
    by (simp add: updated_list_def)
  show ?case
  proof (cases "taskId t = i \<and> upd t = None")
    case True
    then show ?thesis using ok by (simp add: eq)
  next
    case False
    then obtain u where "updated_list i upd (t # ts) = u # updated_list i upd ts" "taskId u = taskId t"
      using Cons.prems(1) unfolding eq keeps_id_def by (cases "taskId t = i"; cases "upd t") auto
    then show ?thesis using ok no by (simp add: task_ids_def)
  qed
qed (simp add: updated_list_def task_ids_def)

lemma updateTask_fst: "fst (updateTask cmp i upd ts) = sortTasks cmp (updated_list i upd ts)"
  by (simp add: updateTask_def updated_list_def)

lemma store_ok_updateTask [simp]:
  "keeps_id upd \<Longrightarrow> store_ok ts \<Longrightarrow> store_ok (fst (updateTask cmp i upd ts))"
  by (simp add: updateTask_fst store_ok_updated_list)

lemma getTask_updateTask [store_simps]:
  assumes "keeps_id upd" and "store_ok ts"
  shows "getTask (fst (updateTask cmp i upd ts)) j =
           (if j = i then (case getTask ts i of None \<Rightarrow> None | Some t \<Rightarrow> upd t) else getTask ts j)"
proof -
  have ok: "store_ok (updated_list i upd ts)" using assms by (rule store_ok_updated_list)
  have 1: "getTask (updated_list i upd ts) j = Some u \<longleftrightarrow>
      (if j = i then (\<exists>t. getTask ts i = Some t \<and> upd t = Some u) else getTask ts j = Some u)" for u
    using assms(1) unfolding getTask_in [OF ok] getTask_in [OF assms(2)] set_updated_list keeps_id_def by auto
  then have "getTask (updated_list i upd ts) j = Some u \<longleftrightarrow>
      (if j = i then (case getTask ts i of None \<Rightarrow> None | Some t \<Rightarrow> upd t) else getTask ts j) = Some u" for u
    by (cases "getTask ts i") simp_all
  then have "getTask (updated_list i upd ts) j =
      (if j = i then (case getTask ts i of None \<Rightarrow> None | Some t \<Rightarrow> upd t) else getTask ts j)"
    by (metis option.exhaust)
  then show ?thesis by (simp add: updateTask_fst getTask_sort [OF ok])
qed

lemma updateTask_snd:
  assumes "store_ok ts"
  shows "snd (updateTask cmp i upd ts) = (case getTask ts i of None \<Rightarrow> None | Some t \<Rightarrow> upd t)"
proof -
  have "filter (\<lambda>t. taskId t = i) ts = (case getTask ts i of None \<Rightarrow> [] | Some t \<Rightarrow> [t])"
    using assms
  proof (induction ts)
    case (Cons a ts)
    then have no: "taskId a \<notin> taskId ` set ts" and ok: "store_ok ts" by (simp_all add: task_ids_def)
    show ?case
    proof (cases "taskId a = i")
      case True
      then have "filter (\<lambda>t. taskId t = i) ts = []" using no by (intro filter_False ballI) (metis image_eqI)
      with True show ?thesis by (simp add: getTask_def)
    next
      case False
      then show ?thesis using Cons.IH [OF ok] by (simp add: getTask_def)
    qed
  qed (simp add: getTask_def)
  then show ?thesis by (simp add: updateTask_def Let_def split: option.split)
qed

lemma store_ok_deleteTask [simp]: "store_ok ts \<Longrightarrow> store_ok (fst (deleteTask cmp i ts))"
proof -
  assume "store_ok ts"
  then have "store_ok (filter (\<lambda>t. taskId t \<noteq> i) ts)" by (simp add: task_ids_def distinct_map_filter)
  with \<open>store_ok ts\<close> show ?thesis by (simp add: deleteTask_def Let_def)
qed

lemma getTask_filter: "getTask (filter (\<lambda>t. taskId t \<noteq> i) ts) j = (if j = i then None else getTask ts j)"
  by (induction ts) (auto simp: getTask_def)

lemma filter_same_length: "length (filter P ts) = length ts \<Longrightarrow> filter P ts = ts"
  by (metis length_filter_less less_irrefl filter_id_conv)

lemma getTask_deleteTask [store_simps]:
  assumes "store_ok ts"
  shows "getTask (fst (deleteTask cmp i ts)) j = (if j = i then None else getTask ts j)"
proof -
  have ok: "store_ok (filter (\<lambda>t. taskId t \<noteq> i) ts)"
    using assms by (simp add: task_ids_def distinct_map_filter)
  show ?thesis
    using filter_same_length [of "\<lambda>t. taskId t \<noteq> i" ts] getTask_filter [of i ts j]
    by (auto simp: deleteTask_def Let_def getTask_sort [OF ok])
qed

lemma find_index_task:
  assumes "store_ok ts" and "find_index (\<lambda>t. taskId t = i) ts = Some ix"
  shows "ix < length ts" and "taskId (ts ! ix) = i"
  using find_index_Some [OF assms(2)] by simp_all

lemma task_ids_update:
  "ix < length ts \<Longrightarrow> taskId (ts ! ix) = taskId task \<Longrightarrow> task_ids (ts[ix := task]) = task_ids ts"
  by (metis (no_types, lifting) list_update_id map_update nth_map task_ids_def)

lemma putTask_list:
  assumes "store_ok ts"
  obtains us where "putTask cmp task ts = sortTasks cmp us" "store_ok us"
    "\<And>j. getTask us j = (if j = taskId task then Some task else getTask ts j)"
proof (cases "find_index (\<lambda>t. taskId t = taskId task) ts")
  case None
  then have new: "taskId task \<notin> set (task_ids ts)" by (auto simp: find_index_None set_task_ids)
  have "getTask (ts @ [task]) j = (if j = taskId task then Some task else getTask ts j)" for j
  proof -
    have "getTask (ts @ [task]) j = (case getTask ts j of Some t \<Rightarrow> Some t | None \<Rightarrow> getTask [task] j)"
      by (induction ts) (auto simp: getTask_def)
    then show ?thesis using new getTask_None [of ts "taskId task"]
      by (auto simp: getTask_def split: option.splits)
  qed
  moreover have "store_ok (ts @ [task])" using assms new by (simp add: task_ids_def)
  ultimately show ?thesis using that [of "ts @ [task]"] None by (simp add: putTask_def)
next
  case (Some ix)
  note ix = find_index_task [OF assms Some]
  have ids: "task_ids (ts[ix := task]) = task_ids ts" by (rule task_ids_update [OF ix])
  have ok: "store_ok (ts[ix := task])" using assms ids by simp
  have "getTask (ts[ix := task]) j = (if j = taskId task then Some task else getTask ts j)" for j
  proof (cases "j = taskId task")
    case True
    then show ?thesis using getTask_in [OF ok, of j task] ix(1) by (simp add: set_update_memI)
  next
    case False
    have "u \<in> set (ts[ix := task]) \<longleftrightarrow> u \<in> set ts" if "taskId u = j" for u
      using that False ix by (metis (no_types, lifting) in_set_conv_nth length_list_update nth_list_update)
    then have "getTask (ts[ix := task]) j = Some u \<longleftrightarrow> getTask ts j = Some u" for u
      unfolding getTask_in [OF ok] getTask_in [OF assms] by blast
    then show ?thesis using False by (metis option.exhaust)
  qed
  then show ?thesis using that [of "ts[ix := task]"] Some ok by (simp add: putTask_def)
qed

lemma store_ok_putTask [simp]: "store_ok ts \<Longrightarrow> store_ok (putTask cmp task ts)"
  by (erule putTask_list [of _ cmp task]) simp

lemma getTask_putTask [store_simps]:
  "store_ok ts \<Longrightarrow> getTask (putTask cmp task ts) j = (if j = taskId task then Some task else getTask ts j)"
  by (erule putTask_list [of _ cmp task]) (simp add: getTask_sort)

end
