(* ===== verification/CronRuns.thy ===== *)
theory CronRuns
  imports CronStore
begin

text \<open>
  The cron runtime of one project: \<open>cron/runtime/CronScheduler.ts\<close>, \<open>CronFire.ts\<close> and \<open>CronRuntime.ts\<close>.

  The program is asynchronous. Its state is the task file, the run history, the map of active runs, the
  sessions with unattended overrides, the \<open>runTask\<close> calls in flight and the rest of the scheduler tick in
  progress. A step runs the code between two awaits: a scheduler tick takes its snapshot, handles one
  due task, a run claims its task, ends, is recorded, updates its task, and the calls of the runtime's
  interface come in between. Telemetry, logging and result delivery are left out; the turn itself is the
  list of gateway events it yielded and whether the stream threw.
\<close>

section \<open>State\<close>

record cron_config =
  cron_enabled :: bool
  config_timezone :: string
  maxConcurrentRuns :: nat
  runTimeoutMinutes :: nat

definition defaultCronConfig :: cron_config where
  "defaultCronConfig = \<lparr>cron_enabled = True, config_timezone = ''UTC'', maxConcurrentRuns = 1, runTimeoutMinutes = 60\<rparr>"

record cron_env =
  ce_intl :: intl
  ce_compare :: comparator
  ce_config :: cron_config
  ce_projectKey :: string
  ce_resolve :: "string \<Rightarrow> string"

record active_run =
  ar_runId :: string
  ar_taskId :: string
  ar_sessionKey :: string
  ar_once :: bool
  ar_stopRequested :: bool

text \<open>A \<open>runTask\<close> call: waiting for its claim, running the turn of the claimed task, or recorded and
  about to update the task.\<close>

datatype fire_phase =
    Claiming cron_task
  | InTurn cron_task int
  | Recorded cron_task int run_outcome

record cron_state =
  tasks :: "cron_task list"
  runs :: "run_record list"
  activeRuns :: "(string \<times> active_run) list"
  overrides :: "string list"
  fires :: "(string \<times> fire_phase) list"
  tick_rest :: "(cron_task list \<times> int) option"

section \<open>The scheduler\<close>

definition CRON_SCHEDULE_COMPUTATION_VERSION :: nat where
  "CRON_SCHEDULE_COMPUTATION_VERSION = 3"

definition DEFAULT_IDLE_POLL_MS :: int where
  "DEFAULT_IDLE_POLL_MS = 60000"

definition matchesTaskSnapshot :: "cron_task \<Rightarrow> cron_task \<Rightarrow> bool" where
  "matchesTaskSnapshot current snapshot =
     (task_status current = task_status snapshot \<and> rev_of current = rev_of snapshot
      \<and> nextRunAt current = nextRunAt snapshot \<and> lastRunId current = lastRunId snapshot)"

definition isDue :: "intl \<Rightarrow> cron_task \<Rightarrow> int \<Rightarrow> bool" where
  "isDue env task now =
     (if task_status task = Running then False
      else (case nextRunAt task of
              None \<Rightarrow> False
            | Some s \<Rightarrow> if s = [] then False
                else (case parseDate env s of None \<Rightarrow> False | Some dueAt \<Rightarrow> dueAt \<le> now)))"

definition bump :: "cron_task \<Rightarrow> cron_task" where
  "bump t = t\<lparr>revision := Some (rev_of t + 1)\<rparr>"

definition delay_update :: "intl \<Rightarrow> cron_task \<Rightarrow> int \<Rightarrow> cron_task \<Rightarrow> cron_task option" where
  "delay_update env task now current =
     (if \<not> matchesTaskSnapshot current task \<or> task_status current \<noteq> Scheduled then Some current
      else Some ((bump current)\<lparr>nextRunAt := Some (isoString env (now + DEFAULT_IDLE_POLL_MS)),
                                updatedAt := isoString env now\<rparr>))"

definition delayTask :: "cron_env \<Rightarrow> cron_task \<Rightarrow> int \<Rightarrow> cron_task list \<Rightarrow> cron_task list" where
  "delayTask env task now ts =
     fst (updateTask (ce_compare env) (taskId task) (delay_update (ce_intl env) task now) ts)"

section \<open>A run\<close>

definition is_once :: "cron_task \<Rightarrow> bool" where
  "is_once t = (case schedule t of Once _ \<Rightarrow> True | _ \<Rightarrow> False)"

definition matchesScheduledSnapshot :: "cron_task \<Rightarrow> cron_task \<Rightarrow> bool" where
  "matchesScheduledSnapshot current snapshot =
     (task_status current = Scheduled \<and> rev_of current = rev_of snapshot
      \<and> nextRunAt current = nextRunAt snapshot \<and> lastRunId current = lastRunId snapshot)"

definition matchesRunningTask :: "cron_task \<Rightarrow> cron_task \<Rightarrow> string \<Rightarrow> bool" where
  "matchesRunningTask current claimed runId =
     (task_status current = Running \<and> lastRunId current = Some runId \<and> rev_of current = rev_of claimed)"

definition newActiveRun :: "cron_task \<Rightarrow> string \<Rightarrow> active_run" where
  "newActiveRun task runId =
     \<lparr>ar_runId = runId, ar_taskId = taskId task, ar_sessionKey = sessionKey task, ar_once = is_once task,
      ar_stopRequested = False\<rparr>"

definition claim_update :: "intl \<Rightarrow> cron_task \<Rightarrow> string \<Rightarrow> int \<Rightarrow> cron_task \<Rightarrow> cron_task option" where
  "claim_update env snapshot runId startedAt current =
     (if \<not> matchesScheduledSnapshot current snapshot then Some current
      else Some ((bump current)\<lparr>task_status := Running, lastRunId := Some runId,
                                updatedAt := isoString env startedAt\<rparr>))"

text \<open>The flag \<open>claimed\<close> the update sets.\<close>

definition claim_hits :: "cron_task \<Rightarrow> cron_task list \<Rightarrow> bool" where
  "claim_hits snapshot ts =
     list_ex (\<lambda>t. taskId t = taskId snapshot \<and> matchesScheduledSnapshot t snapshot) ts"

definition rescheduled :: "cron_env \<Rightarrow> cron_task \<Rightarrow> string \<times> cron_schedule" where
  "rescheduled env task =
     (case schedule task of
        Cron e tz \<Rightarrow>
          (let z = resolveCronTimezone (ce_intl env) tz (task_timezone task) (Some (config_timezone (ce_config env)))
           in (z, Cron e (Some z)))
      | s \<Rightarrow> (config_timezone (ce_config env), s))"

definition next_iso :: "cron_env \<Rightarrow> cron_task \<Rightarrow> int \<Rightarrow> string option" where
  "next_iso env task now =
     (case rescheduled env task of
        (z, s) \<Rightarrow> map_option (isoString (ce_intl env)) (computeNextRunAt (ce_intl env) s now z))"

definition after_run_update :: "cron_env \<Rightarrow> cron_task \<Rightarrow> string \<Rightarrow> int \<Rightarrow> cron_task \<Rightarrow> cron_task option" where
  "after_run_update env task runId finishedAt current =
     (if is_once task then
        (if \<not> matchesRunningTask current task runId then Some current else None)
      else if \<not> matchesRunningTask current task runId then Some current
      else Some ((bump current)\<lparr>schedule := snd (rescheduled env task),
             task_timezone := Some (fst (rescheduled env task)), task_status := Scheduled,
             nextRunAt := next_iso env task finishedAt,
             scheduleComputationVersion := Some CRON_SCHEDULE_COMPUTATION_VERSION,
             updatedAt := isoString (ce_intl env) finishedAt\<rparr>))"

subsection \<open>The outcome of a turn\<close>

datatype turn_event =
    TextDelta string
  | ElicitationRequest
  | PermissionRequest
  | TurnError "string option" string
  | OtherEvent

record turn_fold =
  tf_outcome :: run_outcome
  tf_error :: "run_error option"
  tf_forced :: bool
  tf_abortRequested :: bool
  tf_text :: string

definition turn_start :: turn_fold where
  "turn_start = \<lparr>tf_outcome = Completed, tf_error = None, tf_forced = False, tf_abortRequested = False, tf_text = []\<rparr>"

definition interaction_error :: "string \<Rightarrow> run_error" where
  "interaction_error type = \<lparr>err_code = ''cron_interaction_required'',
     err_message = ''Cron run requested unsupported user interaction through '' @ type @ ''.''\<rparr>"

fun turn_step :: "turn_fold \<Rightarrow> turn_event \<Rightarrow> turn_fold" where
  "turn_step f (TextDelta s) = f\<lparr>tf_text := tf_text f @ s\<rparr>"
| "turn_step f ElicitationRequest =
     f\<lparr>tf_outcome := Failed, tf_forced := True, tf_error := Some (interaction_error ''elicitation_request''),
       tf_abortRequested := True\<rparr>"
| "turn_step f PermissionRequest =
     f\<lparr>tf_outcome := Failed, tf_forced := True, tf_error := Some (interaction_error ''permission_request''),
       tf_abortRequested := True\<rparr>"
| "turn_step f (TurnError code msg) =
     (if code = Some ''turn_timeout'' then
        f\<lparr>tf_outcome := Failed, tf_forced := True,
          tf_error := Some \<lparr>err_code = ''cron_run_timeout'', err_message = msg\<rparr>\<rparr>
      else if tf_forced f then f
      else f\<lparr>tf_outcome := (if code = Some ''agent_aborted'' then Aborted else Failed),
             tf_error := Some \<lparr>err_code = (case code of Some c \<Rightarrow> c | None \<Rightarrow> ''cron_run_failed''), err_message = msg\<rparr>\<rparr>)"
| "turn_step f OtherEvent = f"

text \<open>The \<open>for await\<close> loop, the \<open>catch\<close> and the stop flag read in \<open>finally\<close>.\<close>

definition run_turn :: "turn_event list \<Rightarrow> string option \<Rightarrow> bool \<Rightarrow> turn_fold" where
  "run_turn events thrown stopRequested =
     (let f = foldl turn_step turn_start events;
          g = (case thrown of
                 None \<Rightarrow> f
               | Some msg \<Rightarrow>
                   if tf_forced f then f
                   else f\<lparr>tf_outcome := Failed, tf_error := Some \<lparr>err_code = ''cron_run_failed'', err_message = msg\<rparr>\<rparr>)
      in if stopRequested then g\<lparr>tf_outcome := Stopped\<rparr> else g)"

subsection \<open>The stages of \<open>runTask\<close>\<close>

definition start_run :: "cron_task \<Rightarrow> string \<Rightarrow> cron_state \<Rightarrow> cron_state" where
  "start_run task runId s =
     s\<lparr>activeRuns := jset runId (newActiveRun task runId) (activeRuns s),
       fires := jset runId (Claiming task) (fires s)\<rparr>"

definition claim_run :: "cron_env \<Rightarrow> string \<Rightarrow> cron_task \<Rightarrow> int \<Rightarrow> cron_state \<Rightarrow> cron_state" where
  "claim_run env runId snapshot startedAt s =
     (let (ts', updated) = updateTask (ce_compare env) (taskId snapshot)
            (claim_update (ce_intl env) snapshot runId startedAt) (tasks s)
      in case updated of
           Some t \<Rightarrow>
             if claim_hits snapshot (tasks s)
             then s\<lparr>tasks := ts', fires := jset runId (InTurn t startedAt) (fires s)\<rparr>
             else s\<lparr>tasks := ts', fires := jdelete runId (fires s), activeRuns := jdelete runId (activeRuns s)\<rparr>
         | None \<Rightarrow>
             s\<lparr>tasks := ts', fires := jdelete runId (fires s), activeRuns := jdelete runId (activeRuns s)\<rparr>)"

definition run_record_of :: "intl \<Rightarrow> cron_task \<Rightarrow> string \<Rightarrow> int \<Rightarrow> int \<Rightarrow> turn_fold \<Rightarrow> run_record" where
  "run_record_of env task runId startedAt finishedAt f =
     \<lparr>rr_runId = runId, rr_taskId = taskId task, rr_sessionKey = sessionKey task, rr_projectKey = projectKey task,
      rr_startedAt = isoString env startedAt, rr_finishedAt = Some (isoString env finishedAt),
      rr_outcome = Some (tf_outcome f), rr_error = tf_error f\<rparr>"

text \<open>\<open>persisted\<close> says whether the append to the history file succeeded; a failure is only logged.\<close>

definition end_turn ::
    "cron_env \<Rightarrow> string \<Rightarrow> cron_task \<Rightarrow> int \<Rightarrow> turn_event list \<Rightarrow> string option \<Rightarrow> int \<Rightarrow> bool \<Rightarrow> cron_state \<Rightarrow> cron_state" where
  "end_turn env runId task startedAt events thrown finishedAt persisted s =
     (let stopRequested = (case jget (activeRuns s) runId of Some a \<Rightarrow> ar_stopRequested a | None \<Rightarrow> False);
          f = run_turn events thrown stopRequested
      in s\<lparr>activeRuns := jdelete runId (activeRuns s),
           runs := (if persisted then runs s @ [run_record_of (ce_intl env) task runId startedAt finishedAt f] else runs s),
           fires := jset runId (Recorded task finishedAt (tf_outcome f)) (fires s)\<rparr>)"

definition updateTaskAfterRun :: "cron_env \<Rightarrow> string \<Rightarrow> cron_task \<Rightarrow> int \<Rightarrow> cron_state \<Rightarrow> cron_state" where
  "updateTaskAfterRun env runId task finishedAt s =
     (let deleted = (is_once task
            \<and> list_ex (\<lambda>t. taskId t = taskId task \<and> matchesRunningTask t task runId) (tasks s))
      in s\<lparr>tasks := fst (updateTask (ce_compare env) (taskId task)
                          (after_run_update env task runId finishedAt) (tasks s)),
           overrides := (if deleted then removeAll (sessionKey task) (overrides s) else overrides s),
           fires := jdelete runId (fires s)\<rparr>)"

section \<open>The interface of the runtime\<close>

datatype cron_error =
    CronDisabled | NoFutureRun | NotInFuture | BadDelay | InvalidTimezone | BadRevision | MessageRequired

record create_input =
  ci_message :: string
  ci_schedule :: cron_schedule
  ci_sessionKey :: "string option"
  ci_channelKey :: "string option"
  ci_projectKey :: "string option"
  ci_mode :: "string option"
  ci_timezone :: "string option"

definition buildCronSessionKey :: "string \<Rightarrow> string" where
  "buildCronSessionKey i = ''cron:'' @ i"

definition normalizeSchedule :: "cron_env \<Rightarrow> cron_schedule \<Rightarrow> string option \<Rightarrow> int \<Rightarrow> cron_error + cron_schedule" where
  "normalizeSchedule env sched tz now =
     (case sched of
        Once runAt \<Rightarrow> Inr (Once runAt)
      | Delay amount unit' \<Rightarrow>
          (case computeNextRunAt (ce_intl env) sched now ''UTC'' of
             None \<Rightarrow> Inl BadDelay
           | Some runAt \<Rightarrow> Inr (Once (isoString (ce_intl env) runAt)))
      | Cron expression stz \<Rightarrow>
          (let requested = (case stz of Some z \<Rightarrow> Some z | None \<Rightarrow> tz)
           in if (case requested of None \<Rightarrow> False | Some z \<Rightarrow> z \<noteq> [] \<and> \<not> tz_valid (ce_intl env) z)
              then Inl InvalidTimezone
              else Inr (Cron expression (Some (resolveCronTimezone (ce_intl env) requested None
                                                  (Some (config_timezone (ce_config env))))))))"

definition schedule_timezone :: "cron_env \<Rightarrow> cron_schedule \<Rightarrow> string option \<Rightarrow> string option" where
  "schedule_timezone env sched tz =
     (case sched of Cron _ z \<Rightarrow> z
      | _ \<Rightarrow> (case tz of Some z \<Rightarrow> Some z | None \<Rightarrow> Some (config_timezone (ce_config env))))"

text \<open>The checks \<open>createTask\<close> and \<open>updateTask\<close> share: a schedule with a next run, not in the past.\<close>

definition plan_schedule ::
    "cron_env \<Rightarrow> cron_schedule \<Rightarrow> string option \<Rightarrow> int \<Rightarrow> cron_error + (cron_schedule \<times> string option \<times> int)" where
  "plan_schedule env sched tz now =
     (case normalizeSchedule env sched tz now of
        Inl e \<Rightarrow> Inl e
      | Inr s \<Rightarrow>
          (let z = schedule_timezone env s tz
           in case computeNextRunAt (ce_intl env) s now (case z of Some v \<Rightarrow> v | None \<Rightarrow> ''UTC'') of
                None \<Rightarrow> Inl NoFutureRun
              | Some runAt \<Rightarrow>
                  if (case s of Once _ \<Rightarrow> runAt < now | _ \<Rightarrow> False) then Inl NotInFuture
                  else Inr (s, z, runAt)))"

definition version_of :: "cron_schedule \<Rightarrow> nat option" where
  "version_of s = (case s of Cron _ _ \<Rightarrow> Some CRON_SCHEDULE_COMPUTATION_VERSION | _ \<Rightarrow> None)"

definition createTask :: "cron_env \<Rightarrow> create_input \<Rightarrow> int \<Rightarrow> string \<Rightarrow> cron_state \<Rightarrow> cron_error + (cron_state \<times> cron_task)" where
  "createTask env input now uuid s =
     (if \<not> cron_enabled (ce_config env) then Inl CronDisabled
      else
        (case plan_schedule env (ci_schedule input) (ci_timezone input) now of
           Inl e \<Rightarrow> Inl e
         | Inr (sched, tz, runAt) \<Rightarrow>
             (let task = \<lparr>taskId = uuid, task_message = ci_message input, schedule = sched, task_status = Scheduled,
                    sessionKey = buildCronSessionKey uuid, channelKey = ''cron'',
                    projectKey = (case ci_projectKey input of Some p \<Rightarrow> Some p | None \<Rightarrow> Some (ce_projectKey env)),
                    task_mode = ci_mode input, task_timezone = tz,
                    createdAt = isoString (ce_intl env) now, updatedAt = isoString (ce_intl env) now,
                    nextRunAt = Some (isoString (ce_intl env) runAt), lastRunId = None, revision = Some 0,
                    scheduleComputationVersion = version_of sched,
                    originSessionKey = ci_sessionKey input, originChannelKey = ci_channelKey input\<rparr>
              in Inr (s\<lparr>tasks := putTask (ce_compare env) task (tasks s),
                        overrides := List.insert (sessionKey task) (overrides s)\<rparr>, task))))"

record update_input =
  ui_taskId :: string
  ui_projectKey :: string
  ui_expectedRevision :: int
  ui_message :: string
  ui_schedule :: cron_schedule
  ui_timezone :: "string option"

datatype update_reason = NotFound | IsRunning | Conflict

definition update_refusal :: "cron_env \<Rightarrow> update_input \<Rightarrow> cron_task \<Rightarrow> update_reason option" where
  "update_refusal env input current =
     (let currentProject = (case projectKey current of
              Some p \<Rightarrow> if trim p = [] then ce_projectKey env else ce_resolve env p
            | None \<Rightarrow> ce_projectKey env)
      in if currentProject \<noteq> ce_projectKey env \<or> currentProject \<noteq> ce_resolve env (ui_projectKey input)
         then Some NotFound
         else if task_status current = Running then Some IsRunning
         else if rev_of current \<noteq> ui_expectedRevision input then Some Conflict
         else None)"

definition apply_update ::
    "cron_env \<Rightarrow> update_input \<Rightarrow> int \<Rightarrow> cron_schedule \<Rightarrow> string option \<Rightarrow> int \<Rightarrow> cron_task \<Rightarrow> cron_task option" where
  "apply_update env input now sched tz runAt current =
     (case update_refusal env input current of
        Some _ \<Rightarrow> Some current
      | None \<Rightarrow> Some ((bump current)\<lparr>task_message := ui_message input, schedule := sched, task_timezone := tz,
          nextRunAt := Some (isoString (ce_intl env) runAt), updatedAt := isoString (ce_intl env) now,
          scheduleComputationVersion := version_of sched\<rparr>))"

definition MAX_SAFE_INTEGER :: int where
  "MAX_SAFE_INTEGER = 9007199254740991"

definition updateTaskRequest ::
    "cron_env \<Rightarrow> update_input \<Rightarrow> int \<Rightarrow> cron_state \<Rightarrow> cron_error + (cron_state \<times> (update_reason + cron_task))" where
  "updateTaskRequest env input now s =
     (if \<not> cron_enabled (ce_config env) then Inl CronDisabled
      else if trim (ui_projectKey input) = [] \<or> ce_resolve env (ui_projectKey input) \<noteq> ce_projectKey env
        then Inr (s, Inl NotFound)
      else if ui_expectedRevision input < 0 \<or> MAX_SAFE_INTEGER < ui_expectedRevision input then Inl BadRevision
      else if trim (ui_message input) = [] then Inl MessageRequired
      else if (case ui_timezone input of None \<Rightarrow> False | Some z \<Rightarrow> \<not> tz_valid (ce_intl env) z) then Inl InvalidTimezone
      else
        (case plan_schedule env (ui_schedule input) (ui_timezone input) now of
           Inl e \<Rightarrow> Inl e
         | Inr (sched, tz, runAt) \<Rightarrow>
             (let (ts', updated) = updateTask (ce_compare env) (ui_taskId input)
                    (apply_update env input now sched tz runAt) (tasks s);
                  refusals = List.map_filter (update_refusal env input)
                    (filter (\<lambda>t. taskId t = ui_taskId input) (tasks s))
              in Inr (s\<lparr>tasks := ts'\<rparr>,
                      case updated of None \<Rightarrow> Inl NotFound
                      | Some t \<Rightarrow> if refusals \<noteq> [] then Inl (last refusals) else Inr t))))"

definition findActiveRun :: "string option \<Rightarrow> string option \<Rightarrow> cron_state \<Rightarrow> active_run option" where
  "findActiveRun stopTaskId stopRunId s =
     find (\<lambda>run.
         (case stopRunId of Some r \<Rightarrow> r = [] \<or> ar_runId run = r | None \<Rightarrow> True)
         \<and> (case stopTaskId of Some i \<Rightarrow> i = [] \<or> ar_taskId run = i | None \<Rightarrow> True)
         \<and> \<not> ((stopRunId = None \<or> stopRunId = Some []) \<and> (stopTaskId = None \<or> stopTaskId = Some [])))
       (map snd (activeRuns s))"

definition stopTask :: "cron_env \<Rightarrow> string option \<Rightarrow> string option \<Rightarrow> cron_state \<Rightarrow> cron_state \<times> active_run option" where
  "stopTask env stopTaskId stopRunId s =
     (case findActiveRun stopTaskId stopRunId s of
        None \<Rightarrow> (s, None)
      | Some active \<Rightarrow>
          (let s' = s\<lparr>activeRuns := map (\<lambda>(k, a). (k, if ar_runId a = ar_runId active
                                                     then a\<lparr>ar_stopRequested := True\<rparr> else a)) (activeRuns s)\<rparr>
           in if ar_once active
              then (s'\<lparr>tasks := fst (deleteTask (ce_compare env) (ar_taskId active) (tasks s')),
                       overrides := removeAll (buildCronSessionKey (ar_taskId active)) (overrides s')\<rparr>, Some active)
              else (s', Some active)))"

definition deleteTaskRequest :: "cron_env \<Rightarrow> string \<Rightarrow> bool \<Rightarrow> cron_state \<Rightarrow> cron_state \<times> bool" where
  "deleteTaskRequest env i stopRunning s =
     (let s1 = (if stopRunning then fst (stopTask env (Some i) None s) else s);
          (ts', deleted) = deleteTask (ce_compare env) i (tasks s1)
      in (s1\<lparr>tasks := ts',
             overrides := (if deleted then removeAll (buildCronSessionKey i) (overrides s1) else overrides s1)\<rparr>,
          deleted))"

section \<open>Starting over\<close>

definition migrate_task :: "cron_env \<Rightarrow> int \<Rightarrow> cron_state \<Rightarrow> cron_task \<Rightarrow> cron_state" where
  "migrate_task env now s task =
     (let key = buildCronSessionKey (taskId task)
      in if sessionKey task = key \<and> channelKey task = ''cron'' then s
         else s\<lparr>tasks := putTask (ce_compare env) ((bump task)\<lparr>sessionKey := key, channelKey := ''cron'',
                           updatedAt := isoString (ce_intl env) now\<rparr>) (tasks s),
                overrides := removeAll (sessionKey task) (overrides s)\<rparr>)"

definition terminalRunIds :: "run_record list \<Rightarrow> string list" where
  "terminalRunIds rs = map rr_runId (filter (\<lambda>r. rr_finishedAt r \<noteq> None \<and> rr_finishedAt r \<noteq> Some []
                                             \<and> rr_outcome r \<noteq> None) rs)"

definition interrupted_record :: "cron_env \<Rightarrow> int \<Rightarrow> cron_task \<Rightarrow> string \<Rightarrow> run_record" where
  "interrupted_record env now task runId =
     \<lparr>rr_runId = runId, rr_taskId = taskId task, rr_sessionKey = sessionKey task, rr_projectKey = projectKey task,
      rr_startedAt = (if parseDate (ce_intl env) (updatedAt task) = None then isoString (ce_intl env) now
                      else updatedAt task),
      rr_finishedAt = Some (isoString (ce_intl env) now), rr_outcome = Some Failed,
      rr_error = Some \<lparr>err_code = ''cron_run_interrupted'',
        err_message = ''Cron run was interrupted before the runtime restarted.''\<rparr>\<rparr>"

definition recovered_records :: "cron_env \<Rightarrow> int \<Rightarrow> string list \<Rightarrow> cron_task \<Rightarrow> run_record list" where
  "recovered_records env now terminal task =
     (case lastRunId task of
        None \<Rightarrow> []
      | Some r \<Rightarrow> if r = [] \<or> r \<in> set terminal then [] else [interrupted_record env now task r])"

definition recover_task :: "cron_env \<Rightarrow> int \<Rightarrow> string list \<Rightarrow> cron_state \<Rightarrow> cron_task \<Rightarrow> cron_state" where
  "recover_task env now terminal s task =
     (if task_status task \<noteq> Running then s
      else
        (let s1 = s\<lparr>runs := runs s @ recovered_records env now terminal task\<rparr>
         in if is_once task
            then s1\<lparr>tasks := fst (deleteTask (ce_compare env) (taskId task) (tasks s1)),
                    overrides := removeAll (sessionKey task) (overrides s1)\<rparr>
            else s1\<lparr>tasks := putTask (ce_compare env)
                      ((bump task)\<lparr>schedule := snd (rescheduled env task),
                         task_timezone := Some (fst (rescheduled env task)), task_status := Scheduled,
                         nextRunAt := next_iso env task now,
                         scheduleComputationVersion := Some CRON_SCHEDULE_COMPUTATION_VERSION,
                         updatedAt := isoString (ce_intl env) now\<rparr>) (tasks s1)\<rparr>))"

definition recoverInterruptedRuns :: "cron_env \<Rightarrow> int \<Rightarrow> cron_state \<Rightarrow> cron_state" where
  "recoverInterruptedRuns env now s =
     foldl (recover_task env now (terminalRunIds (runs s))) s (tasks s)"

definition prepareTaskSessions :: "cron_state \<Rightarrow> cron_state" where
  "prepareTaskSessions s = s\<lparr>overrides := foldl (\<lambda>os t. List.insert (sessionKey t) os) (overrides s) (tasks s)\<rparr>"

text \<open>A cached run of version 2 is kept when it is due, or no later than the recomputed one.\<close>

definition recalculated :: "cron_env \<Rightarrow> int \<Rightarrow> cron_task \<Rightarrow> string option" where
  "recalculated env now task =
     (let (z, sched) = rescheduled env task;
          cachedRunAt = (case nextRunAt task of Some s \<Rightarrow> if s = [] then None else parseDate (ce_intl env) s | None \<Rightarrow> None);
          cached = (if scheduleComputationVersion task = Some 2 then cachedRunAt else None);
          useOr = (case sched of Cron e _ \<Rightarrow> cronDayFieldsUseOr e | _ \<Rightarrow> False);
          reuse = (case cached of Some c \<Rightarrow> c \<le> now \<or> \<not> useOr | None \<Rightarrow> False);
          computed = (if reuse then None else computeNextRunAt (ce_intl env) sched now z)
      in case cached of
           Some c \<Rightarrow> (case computed of
                        None \<Rightarrow> nextRunAt task
                      | Some d \<Rightarrow> if c \<le> d then nextRunAt task else Some (isoString (ce_intl env) d))
         | None \<Rightarrow> map_option (isoString (ce_intl env)) computed)"

definition recalc_update :: "cron_env \<Rightarrow> int \<Rightarrow> cron_task \<Rightarrow> cron_task \<Rightarrow> cron_task option" where
  "recalc_update env now task current =
     (if is_once task then
        (case map_option (isoString (ce_intl env)) (computeNextRunAt (ce_intl env) (schedule task) now ''UTC'') of
           None \<Rightarrow> if matchesTaskSnapshot current task then None else Some current
         | Some n \<Rightarrow> if \<not> matchesTaskSnapshot current task then Some current
             else Some ((bump current)\<lparr>nextRunAt := Some n, updatedAt := isoString (ce_intl env) now\<rparr>))
      else if \<not> matchesTaskSnapshot current task then Some current
      else Some ((bump current)\<lparr>schedule := snd (rescheduled env task),
             task_timezone := Some (fst (rescheduled env task)), task_status := Scheduled,
             nextRunAt := recalculated env now task,
             scheduleComputationVersion := Some CRON_SCHEDULE_COMPUTATION_VERSION,
             updatedAt := isoString (ce_intl env) now\<rparr>))"

definition needs_recalc :: "cron_task \<Rightarrow> bool" where
  "needs_recalc task =
     (let has = (case nextRunAt task of None \<Rightarrow> False | Some s \<Rightarrow> s \<noteq> [])
      in if is_once task then \<not> has
         else \<not> (scheduleComputationVersion task = Some CRON_SCHEDULE_COMPUTATION_VERSION \<and> has))"

definition recalculateAllNextRuns :: "cron_env \<Rightarrow> int \<Rightarrow> cron_state \<Rightarrow> cron_state" where
  "recalculateAllNextRuns env now s =
     s\<lparr>tasks := foldl (\<lambda>ts task. if needs_recalc task
                                then fst (updateTask (ce_compare env) (taskId task) (recalc_update env now task) ts)
                                else ts) (tasks s) (tasks s)\<rparr>"

text \<open>\<open>start\<close>, on the files a stopped or crashed process left behind.\<close>

definition start_runtime :: "cron_env \<Rightarrow> int \<Rightarrow> cron_state \<Rightarrow> cron_state" where
  "start_runtime env now s =
     (let s0 = s\<lparr>activeRuns := [], fires := [], tick_rest := None\<rparr>;
          s1 = foldl (migrate_task env now) s0 (tasks s0)
      in recalculateAllNextRuns env now (prepareTaskSessions (recoverInterruptedRuns env now s1)))"

section \<open>The runtime as a transition system\<close>

definition run_ids :: "cron_state \<Rightarrow> string list" where
  "run_ids s = map rr_runId (runs s)"

definition fresh_run :: "string \<Rightarrow> cron_state \<Rightarrow> bool" where
  "fresh_run r s \<longleftrightarrow> r \<noteq> [] \<and> r \<notin> set (jkeys (fires s)) \<and> r \<notin> set (run_ids s)
     \<and> Some r \<notin> lastRunId ` set (tasks s)"

fun fire_task :: "fire_phase \<Rightarrow> cron_task" where
  "fire_task (Claiming t) = t"
| "fire_task (InTurn t _) = t"
| "fire_task (Recorded t _ _) = t"

text \<open>The random identifiers do not repeat: \<open>fresh_run\<close>, and a new task's id is neither in the file nor
  held by a run in flight. \<open>others\<close> is the number of runs of the other projects of the manager.\<close>

inductive cron_step :: "cron_env \<Rightarrow> cron_state \<Rightarrow> cron_state \<Rightarrow> bool" for env where
  tick_start:
    "tick_rest s = None
     \<Longrightarrow> cron_step env s (s\<lparr>tick_rest := Some (filter (\<lambda>t. isDue (ce_intl env) t now) (tasks s), now)\<rparr>)"
| tick_delay:
    "tick_rest s = Some (t # ts, now) \<Longrightarrow> maxConcurrentRuns (ce_config env) \<le> length (activeRuns s) + others
     \<Longrightarrow> cron_step env s (s\<lparr>tasks := delayTask env t now (tasks s), tick_rest := Some (ts, now)\<rparr>)"
| tick_fire:
    "tick_rest s = Some (t # ts, now) \<Longrightarrow> length (activeRuns s) + others < maxConcurrentRuns (ce_config env)
     \<Longrightarrow> fresh_run r s \<Longrightarrow> cron_step env s ((start_run t r s)\<lparr>tick_rest := Some (ts, now)\<rparr>)"
| tick_end:
    "tick_rest s = Some ([], now) \<Longrightarrow> cron_step env s (s\<lparr>tick_rest := None\<rparr>)"
| claim:
    "jget (fires s) r = Some (Claiming snapshot) \<Longrightarrow> cron_step env s (claim_run env r snapshot now s)"
| turn:
    "jget (fires s) r = Some (InTurn t started)
     \<Longrightarrow> cron_step env s (end_turn env r t started events thrown now persisted s)"
| after:
    "jget (fires s) r = Some (Recorded t finished out)
     \<Longrightarrow> cron_step env s (updateTaskAfterRun env r t finished s)"
| create:
    "i \<notin> set (task_ids (tasks s)) \<Longrightarrow> i \<notin> (\<lambda>p. taskId (fire_task p)) ` set (map snd (fires s))
     \<Longrightarrow> createTask env input now i s = Inr (s', t) \<Longrightarrow> cron_step env s s'"
| edit:
    "updateTaskRequest env upd now s = Inr (s', answer) \<Longrightarrow> cron_step env s s'"
| delete:
    "cron_step env s (fst (deleteTaskRequest env i stopRunning s))"
| stop:
    "cron_step env s (fst (stopTask env stopTaskId stopRunId s))"
| restart:
    "cron_step env s (start_runtime env now s)"

inductive cron_reachable :: "cron_env \<Rightarrow> cron_state \<Rightarrow> bool" for env where
  init: "cron_reachable env \<lparr>tasks = [], runs = [], activeRuns = [], overrides = [], fires = [], tick_rest = None\<rparr>"
| step: "cron_reachable env s \<Longrightarrow> cron_step env s s' \<Longrightarrow> cron_reachable env s'"

section \<open>The invariant\<close>

fun claimed_task :: "fire_phase \<Rightarrow> cron_task option" where
  "claimed_task (Claiming _) = None"
| "claimed_task (InTurn t _) = Some t"
| "claimed_task (Recorded t _ _) = Some t"

fun unrecorded :: "fire_phase \<Rightarrow> bool" where
  "unrecorded (Recorded _ _ _) = False"
| "unrecorded _ = True"

text \<open>The tasks that runs in flight have claimed.\<close>

definition claims :: "(string \<times> fire_phase) list \<Rightarrow> string \<Rightarrow> cron_task option" where
  "claims fs r = (case jget fs r of None \<Rightarrow> None | Some p \<Rightarrow> claimed_task p)"

text \<open>Part one, tasks against runs in flight: a claimed task stays in the file as it was claimed, or is gone;
  every running task of the file is the claimed task of the run it names; no task is claimed twice.\<close>

definition claim_kept :: "cron_task list \<Rightarrow> (string \<Rightarrow> cron_task option) \<Rightarrow> bool" where
  "claim_kept ts C \<longleftrightarrow>
     (\<forall>r t. C r = Some t \<longrightarrow> task_status t = Running \<and> lastRunId t = Some r
        \<and> (getTask ts (taskId t) = None \<or> getTask ts (taskId t) = Some t))"

definition running_claimed :: "cron_task list \<Rightarrow> (string \<Rightarrow> cron_task option) \<Rightarrow> bool" where
  "running_claimed ts C \<longleftrightarrow>
     (\<forall>i t. getTask ts i = Some t \<longrightarrow> task_status t = Running \<longrightarrow> (\<exists>r. lastRunId t = Some r \<and> C r = Some t))"

definition single_flight :: "(string \<Rightarrow> cron_task option) \<Rightarrow> bool" where
  "single_flight C \<longleftrightarrow> (\<forall>r r' t t'. C r = Some t \<longrightarrow> C r' = Some t' \<longrightarrow> taskId t = taskId t' \<longrightarrow> r = r')"

definition claims_ok :: "cron_task list \<Rightarrow> (string \<Rightarrow> cron_task option) \<Rightarrow> bool" where
  "claims_ok ts C \<longleftrightarrow> claim_kept ts C \<and> running_claimed ts C \<and> single_flight C"

text \<open>Part two, the bookkeeping of runs: every unrecorded run in flight is active and only those, at most the
  configured number is active, and no run has two records.\<close>

definition runs_ok :: "cron_env \<Rightarrow> cron_state \<Rightarrow> bool" where
  "runs_ok env s \<longleftrightarrow>
     distinct (jkeys (fires s)) \<and> distinct (jkeys (activeRuns s))
     \<and> set (jkeys (activeRuns s)) = {r. \<exists>p. jget (fires s) r = Some p \<and> unrecorded p}
     \<and> length (activeRuns s) \<le> maxConcurrentRuns (ce_config env)
     \<and> distinct (run_ids s)
     \<and> (\<forall>r p. jget (fires s) r = Some p \<longrightarrow> r \<noteq> [] \<and> (unrecorded p \<longrightarrow> r \<notin> set (run_ids s)))"

text \<open>Part three, the file: distinct ids, and every task runs in its own cron session, which carries the
  unattended overrides.\<close>

definition session_ok :: "string list \<Rightarrow> cron_task \<Rightarrow> bool" where
  "session_ok os t \<longleftrightarrow>
     sessionKey t = buildCronSessionKey (taskId t) \<and> channelKey t = ''cron'' \<and> sessionKey t \<in> set os"

definition file_ok :: "cron_task list \<Rightarrow> string list \<Rightarrow> bool" where
  "file_ok ts os \<longleftrightarrow> store_ok ts \<and> (\<forall>t\<in>set ts. session_ok os t)"

definition cron_inv :: "cron_env \<Rightarrow> cron_state \<Rightarrow> bool" where
  "cron_inv env s \<longleftrightarrow> file_ok (tasks s) (overrides s) \<and> runs_ok env s \<and> claims_ok (tasks s) (claims (fires s))"

lemma buildCronSessionKey_inj [simp]: "buildCronSessionKey i = buildCronSessionKey j \<longleftrightarrow> i = j"
  by (simp add: buildCronSessionKey_def)

subsection \<open>Updates of the file\<close>

text \<open>What the updates of the scheduler and the interface have in common: they keep the identity and
  session of a task, and touch no running task.\<close>

definition keeps_session :: "(cron_task \<Rightarrow> cron_task option) \<Rightarrow> bool" where
  "keeps_session upd \<longleftrightarrow>
     (\<forall>t u. upd t = Some u \<longrightarrow> taskId u = taskId t \<and> sessionKey u = sessionKey t \<and> channelKey u = channelKey t)"

definition spares_running :: "(cron_task \<Rightarrow> cron_task option) \<Rightarrow> bool" where
  "spares_running upd \<longleftrightarrow>
     (\<forall>t. (task_status t = Running \<longrightarrow> upd t = Some t)
        \<and> (task_status t = Scheduled \<longrightarrow> (\<forall>u. upd t = Some u \<longrightarrow> task_status u = Scheduled)))"

lemma keeps_session_id: "keeps_session upd \<Longrightarrow> keeps_id upd"
  by (simp add: keeps_session_def keeps_id_def)

lemma file_ok_updateTask:
  assumes "file_ok ts os" and "keeps_session upd"
  shows "file_ok (fst (updateTask cmp i upd ts)) os"
proof -
  have ok: "store_ok ts" using assms(1) by (simp add: file_ok_def)
  have "session_ok os u" if "upd t = Some u" "session_ok os t" for t u
    using that assms(2) unfolding keeps_session_def session_ok_def by metis
  then have "session_ok os u" if "u \<in> set (updated_list i upd ts)" for u
    using that assms(1) unfolding set_updated_list file_ok_def by blast
  then show ?thesis
    using ok keeps_session_id [OF assms(2)] by (simp add: file_ok_def updateTask_fst store_ok_updated_list)
qed

lemma status_cases: "task_status t = Running \<or> task_status t = Scheduled"
  by (cases "task_status t") simp_all

lemma claims_ok_updateTask:
  assumes "claims_ok ts C" and "store_ok ts" and "keeps_id upd" and "spares_running upd"
  shows "claims_ok (fst (updateTask cmp i upd ts)) C"
proof -
  let ?ts = "fst (updateTask cmp i upd ts)"
  have get: "getTask ?ts j = (if j = i then (case getTask ts i of None \<Rightarrow> None | Some t \<Rightarrow> upd t) else getTask ts j)" for j
    by (rule getTask_updateTask [OF assms(3,2)])
  have run: "upd t = Some t" if "task_status t = Running" for t
    using that assms(4) by (simp add: spares_running_def)
  have sched: "task_status t = Running" if "upd t = Some u" "task_status u = Running" for t u
    using that assms(4) status_cases [of t] unfolding spares_running_def by (metis task_status.distinct(1))
  have "claim_kept ?ts C"
    unfolding claim_kept_def
  proof (intro allI impI)
    fix r t assume "C r = Some t"
    then have c: "task_status t = Running \<and> lastRunId t = Some r
        \<and> (getTask ts (taskId t) = None \<or> getTask ts (taskId t) = Some t)"
      using assms(1) by (simp add: claims_ok_def claim_kept_def)
    then have "getTask ?ts (taskId t) = None \<or> getTask ?ts (taskId t) = Some t"
      using run [of t] by (cases "taskId t = i") (auto simp: get)
    with c show "task_status t = Running \<and> lastRunId t = Some r
        \<and> (getTask ?ts (taskId t) = None \<or> getTask ?ts (taskId t) = Some t)" by blast
  qed
  moreover have "running_claimed ?ts C"
    unfolding running_claimed_def
  proof (intro allI impI)
    fix j u assume u: "getTask ?ts j = Some u" "task_status u = Running"
    have "getTask ts j = Some u"
    proof (cases "j = i")
      case True
      then obtain t where t: "getTask ts i = Some t" "upd t = Some u"
        using u(1) by (auto simp: get split: option.splits)
      then have "task_status t = Running" using sched u(2) by blast
      then show ?thesis using run t True by simp
    qed (use u(1) get in simp)
    then show "\<exists>r. lastRunId u = Some r \<and> C r = Some u"
      using assms(1) u(2) by (simp add: claims_ok_def running_claimed_def)
  qed
  ultimately show ?thesis using assms(1) by (simp add: claims_ok_def)
qed

lemma file_ok_deleteTask:
  assumes "file_ok ts os"
  shows "file_ok (fst (deleteTask cmp i ts)) os"
proof -
  have "set (fst (deleteTask cmp i ts)) \<subseteq> set ts" by (auto simp: deleteTask_def Let_def)
  then show ?thesis using assms unfolding file_ok_def by (auto simp: subset_iff)
qed

lemma claims_ok_gone:
  assumes "claims_ok ts C" and "\<And>j. getTask ts' j = None \<or> getTask ts' j = getTask ts j"
  shows "claims_ok ts' C"
  using assms unfolding claims_ok_def claim_kept_def running_claimed_def by (metis option.distinct(1))

lemma file_ok_lookup:
  assumes "store_ok us"
    and "\<And>j u. getTask us j = Some u \<Longrightarrow> session_ok os' u"
  shows "file_ok us os'"
proof -
  have "session_ok os' u" if "u \<in> set us" for u
    using assms(2) [of "taskId u" u] that getTask_in [OF assms(1), of "taskId u" u] by simp
  then show ?thesis using assms(1) by (simp add: file_ok_def)
qed

lemma file_ok_get: "file_ok ts os \<Longrightarrow> getTask ts j = Some u \<Longrightarrow> session_ok os u"
  using getTask_in unfolding file_ok_def by blast

lemma claims_jset: "claims (jset r p fs) = (claims fs)(r := claimed_task p)"
  by (rule ext) (simp add: claims_def jmap_simps)

lemma claims_jdelete: "claims (jdelete r fs) = (claims fs)(r := None)"
  by (rule ext) (simp add: claims_def jmap_simps)

lemma keeps_session_updates [simp]:
  "keeps_session (delay_update e task now)" "keeps_session (claim_update e task r now)"
  "keeps_session (after_run_update env task r now)" "keeps_session (apply_update env input now sc tz runAt)"
  "keeps_session (recalc_update env now task)"
  by (auto simp: keeps_session_def delay_update_def claim_update_def after_run_update_def apply_update_def
      recalc_update_def bump_def split: if_splits option.splits)

lemma spares_running_delay [simp]: "spares_running (delay_update e task now)"
  by (auto simp: spares_running_def delay_update_def bump_def split: if_splits)

lemma spares_running_apply [simp]: "spares_running (apply_update env input now sc tz runAt)"
  by (auto simp: spares_running_def apply_update_def update_refusal_def Let_def bump_def
      split: if_splits option.splits)

lemma cron_inv_file_update:
  assumes "cron_inv env s" and "keeps_session upd" and "spares_running upd"
  shows "cron_inv env (s\<lparr>tasks := fst (updateTask cmp i upd (tasks s))\<rparr>)"
proof -
  have "store_ok (tasks s)" using assms(1) by (simp add: cron_inv_def file_ok_def)
  then show ?thesis
    using assms claims_ok_updateTask [OF _ _ keeps_session_id [OF assms(2)] assms(3)]
      file_ok_updateTask [OF _ assms(2)]
    by (simp add: cron_inv_def runs_ok_def run_ids_def)
qed

lemma cron_inv_tick_rest [simp]: "cron_inv env (s\<lparr>tick_rest := q\<rparr>) = cron_inv env s"
  by (simp add: cron_inv_def runs_ok_def run_ids_def)

subsection \<open>The stages of a run\<close>

lemma jget_key: "jget m k = Some v \<Longrightarrow> k \<in> set (jkeys m)"
  by (metis map_of_eq_None_iff option.distinct(1) set_map)

lemma length_jset_new: "k \<notin> set (jkeys m) \<Longrightarrow> length (jset k v m) = Suc (length m)"
  by (simp add: jset_new)

lemma length_jdelete_le: "length (jdelete k m) \<le> length m"
  by (simp add: AList.delete_eq)

lemma cron_inv_start_run:
  assumes "cron_inv env s" and "fresh_run r s" and "length (activeRuns s) < maxConcurrentRuns (ce_config env)"
  shows "cron_inv env (start_run task r s)"
proof -
  have r: "r \<notin> set (jkeys (fires s))" "r \<noteq> []" "r \<notin> set (run_ids s)"
    using assms(2) by (simp_all add: fresh_run_def)
  then have none: "jget (fires s) r = None" by (metis map_of_eq_None_iff set_map)
  have act: "set (jkeys (activeRuns s)) = {r. \<exists>p. jget (fires s) r = Some p \<and> unrecorded p}"
    using assms(1) by (simp add: cron_inv_def runs_ok_def)
  have ra: "r \<notin> set (jkeys (activeRuns s))" unfolding act using none by simp
  have "(claims (fires s))(r := None) = claims (fires s)" using none by (simp add: claims_def fun_upd_idem)
  moreover have "set (jkeys (jset r (newActiveRun task r) (activeRuns s)))
      = {q. \<exists>p. jget (jset r (Claiming task) (fires s)) q = Some p \<and> unrecorded p}"
    using ra act by (auto simp: jmap_simps)
  ultimately show ?thesis
    using assms r ra
    by (auto simp: cron_inv_def runs_ok_def start_run_def claims_jset run_ids_def jget_jset length_jset_new
        distinct_jset)
qed

lemma claim_hits_get:
  assumes "store_ok ts"
  shows "claim_hits snapshot ts \<longleftrightarrow>
     (\<exists>c. getTask ts (taskId snapshot) = Some c \<and> matchesScheduledSnapshot c snapshot)"
  unfolding claim_hits_def list_ex_iff using getTask_in [OF assms] by metis

lemma claims_ok_claimed:
  assumes "claims_ok ts C" and "getTask ts i = Some c" and "task_status c = Scheduled"
    and "\<And>j. getTask ts' j = (if j = i then Some t else getTask ts j)"
    and "task_status t = Running" and "lastRunId t = Some r" and "taskId t = i" and "C r = None"
  shows "claims_ok ts' (C(r := Some t))"
proof -
  have other: "taskId t' \<noteq> i" if "C r' = Some t'" for r' t'
  proof
    assume "taskId t' = i"
    then have "task_status t' = Running" "getTask ts i = None \<or> getTask ts i = Some t'"
      using that assms(1) by (auto simp: claims_ok_def claim_kept_def)
    then show False using assms(2,3) by auto
  qed
  have "claim_kept ts' (C(r := Some t))"
    using assms(1) other by (auto simp: claim_kept_def claims_ok_def assms(4-7))
  moreover have "running_claimed ts' (C(r := Some t))"
  proof -
    have "\<exists>q. lastRunId u = Some q \<and> (C(r := Some t)) q = Some u"
      if u: "getTask ts' j = Some u" "task_status u = Running" for j u
    proof (cases "j = i")
      case True
      then show ?thesis using u assms(4,6) by auto
    next
      case False
      then obtain q where "lastRunId u = Some q" "C q = Some u"
        using u assms(1,4) unfolding claims_ok_def running_claimed_def by metis
      then show ?thesis using assms(8) by (intro exI [of _ q]) auto
    qed
    then show ?thesis unfolding running_claimed_def by blast
  qed
  moreover have "single_flight (C(r := Some t))"
    using assms(1,7) other unfolding single_flight_def claims_ok_def
    by (metis fun_upd_apply option.inject)
  ultimately show ?thesis by (simp add: claims_ok_def)
qed

lemma runs_ok_drop_run:
  assumes "runs_ok env s" and "s' = s\<lparr>tasks := ts', fires := jdelete r (fires s), activeRuns := jdelete r (activeRuns s)\<rparr>"
  shows "runs_ok env s'"
proof -
  have "set (jkeys (jdelete r (activeRuns s))) = {q. \<exists>p. jget (jdelete r (fires s)) q = Some p \<and> unrecorded p}"
    using assms(1) by (auto simp: jmap_simps runs_ok_def)
  then show ?thesis
    using assms(1) length_jdelete_le [of r "activeRuns s"] unfolding assms(2)
    by (auto simp: runs_ok_def run_ids_def jget_jdelete intro: distinct_jdelete)
qed

lemma claims_ok_lookup:
  assumes "claims_ok ts C" and "\<And>j. getTask ts' j = getTask ts j"
  shows "claims_ok ts' C"
  using assms by (simp add: claims_ok_def claim_kept_def running_claimed_def)

lemma cron_inv_claim:
  assumes "cron_inv env s" and "jget (fires s) r = Some (Claiming snapshot)"
  shows "cron_inv env (claim_run env r snapshot now s)"
proof -
  let ?i = "taskId snapshot" and ?upd = "claim_update (ce_intl env) snapshot r now"
  let ?ts = "fst (updateTask (ce_compare env) ?i ?upd (tasks s))"
  have ok: "store_ok (tasks s)" and claims: "claims_ok (tasks s) (claims (fires s))"
    and fl: "file_ok ?ts (overrides s)" and runs: "runs_ok env s"
    using assms(1) file_ok_updateTask [of "tasks s" "overrides s" ?upd]
    by (simp_all add: cron_inv_def) (simp add: file_ok_def)
  have C: "claims (fires s) r = None" using assms(2) by (simp add: claims_def)
  have get: "getTask ?ts j = (if j = ?i then (case getTask (tasks s) ?i of None \<Rightarrow> None | Some t \<Rightarrow> ?upd t)
      else getTask (tasks s) j)" for j
    by (rule getTask_updateTask [OF keeps_session_id ok]) simp
  show ?thesis
  proof (cases "claim_hits snapshot (tasks s)")
    case True
    then obtain c where c: "getTask (tasks s) ?i = Some c" "matchesScheduledSnapshot c snapshot"
      using claim_hits_get [OF ok] by blast
    define t where "t = (bump c)\<lparr>task_status := Running, lastRunId := Some r, updatedAt := isoString (ce_intl env) now\<rparr>"
    have u: "?upd c = Some t" using c(2) by (simp add: claim_update_def t_def)
    have t: "task_status t = Running" "lastRunId t = Some r" "taskId t = ?i"
      using c(1) getTask_in [OF ok] by (simp_all add: t_def bump_def)
    have step: "claim_run env r snapshot now s = s\<lparr>tasks := ?ts, fires := jset r (InTurn t now) (fires s)\<rparr>"
      using True c u updateTask_snd [OF ok, of "ce_compare env" ?i ?upd]
      by (simp add: claim_run_def case_prod_unfold)
    have "claims_ok ?ts ((claims (fires s))(r := Some t))"
      by (rule claims_ok_claimed [OF claims c(1) _ _ t C])
        (use c u in \<open>simp_all add: get matchesScheduledSnapshot_def\<close>)
    moreover have "runs_ok env (s\<lparr>tasks := ?ts, fires := jset r (InTurn t now) (fires s)\<rparr>)"
      using runs assms(2) by (auto simp: runs_ok_def run_ids_def jget_jset intro: distinct_jset)
    ultimately show ?thesis using fl by (simp add: step cron_inv_def claims_jset)
  next
    case False
    have same: "getTask ?ts j = getTask (tasks s) j" for j
      using False claim_hits_get [OF ok, of snapshot]
      by (auto simp: get claim_update_def split: option.splits)
    have step: "claim_run env r snapshot now s
        = s\<lparr>tasks := ?ts, fires := jdelete r (fires s), activeRuns := jdelete r (activeRuns s)\<rparr>"
      using False by (simp add: claim_run_def case_prod_unfold Let_def split: option.split)
    have "(claims (fires s))(r := None) = claims (fires s)" using C by (simp add: fun_upd_idem)
    then show ?thesis
      using fl runs_ok_drop_run [OF runs step] claims_ok_lookup [OF claims same]
      by (simp add: step cron_inv_def claims_jdelete)
  qed
qed

lemma cron_inv_end_turn:
  assumes "cron_inv env s" and "jget (fires s) r = Some (InTurn t started)"
  shows "cron_inv env (end_turn env r t started events thrown now persisted s)"
proof -
  have runs: "runs_ok env s" using assms(1) by (simp add: cron_inv_def)
  then have r: "r \<notin> set (run_ids s)" "r \<noteq> []" using assms(2) unfolding runs_ok_def by auto
  have "claims (fires s) r = Some t" using assms(2) by (simp add: claims_def)
  then have C: "(claims (fires s))(r := Some t) = claims (fires s)" by (simp add: fun_upd_idem)
  have act: "set (jkeys (jdelete r (activeRuns s)))
      = {q. \<exists>p. jget (jset r (Recorded t now out) (fires s)) q = Some p \<and> unrecorded p}" for out
    using runs assms(2) by (auto simp: jmap_simps runs_ok_def)
  have "runs_ok env (end_turn env r t started events thrown now persisted s)"
    using runs r act length_jdelete_le [of r "activeRuns s"]
    by (auto simp: runs_ok_def end_turn_def Let_def run_ids_def run_record_of_def jget_jset
        intro: distinct_jset distinct_jdelete)
  then show ?thesis
    using assms(1) C by (simp add: cron_inv_def end_turn_def Let_def claims_jset)
qed

lemma claims_ok_released:
  assumes "claims_ok ts C" and "C r = Some t"
    and "\<And>j. j \<noteq> taskId t \<Longrightarrow> getTask ts' j = getTask ts j"
    and "\<And>u. getTask ts' (taskId t) = Some u \<Longrightarrow> task_status u = Scheduled"
  shows "claims_ok ts' (C(r := None))"
proof -
  have other: "taskId t' \<noteq> taskId t" if "C r' = Some t'" "r' \<noteq> r" for r' t'
    using that assms(1,2) unfolding claims_ok_def single_flight_def by metis
  have "claim_kept ts' (C(r := None))"
    using assms(1,3) other by (auto simp: claim_kept_def claims_ok_def)
  moreover have "running_claimed ts' (C(r := None))"
  proof -
    have "\<exists>q. lastRunId u = Some q \<and> (C(r := None)) q = Some u"
      if u: "getTask ts' j = Some u" "task_status u = Running" for j u
    proof -
      have j: "j \<noteq> taskId t" using u assms(4) by (metis task_status.distinct(1))
      then have g: "getTask ts j = Some u" using u(1) assms(3) by simp
      then obtain q where q: "lastRunId u = Some q" "C q = Some u"
        using u(2) assms(1) unfolding claims_ok_def running_claimed_def by metis
      have "taskId u = j" using g by (rule getTask_id)
      then have "q \<noteq> r" using q(2) assms(2) j by auto
      then show ?thesis using q by (intro exI [of _ q]) simp
    qed
    then show ?thesis unfolding running_claimed_def by blast
  qed
  moreover have "single_flight (C(r := None))"
    using assms(1) unfolding single_flight_def claims_ok_def by simp
  ultimately show ?thesis by (simp add: claims_ok_def)
qed

lemma file_ok_remove_session:
  assumes "file_ok ts os" and "store_ok us" and "\<And>j u. getTask us j = Some u \<Longrightarrow> j \<noteq> i \<and> getTask ts j = Some u"
  shows "file_ok us (removeAll (buildCronSessionKey i) os)"
proof (rule file_ok_lookup [OF assms(2)])
  fix j u assume u: "getTask us j = Some u"
  then have "session_ok os u" "taskId u = j" "j \<noteq> i"
    using assms(3) [OF u] file_ok_get [OF assms(1)] getTask_in [OF assms(2), of j u] by auto
  then show "session_ok (removeAll (buildCronSessionKey i) os) u" by (auto simp: session_ok_def)
qed

lemma cron_inv_after_run:
  assumes "cron_inv env s" and "jget (fires s) r = Some (Recorded t fin out)"
  shows "cron_inv env (updateTaskAfterRun env r t fin s)"
proof -
  let ?i = "taskId t" and ?upd = "after_run_update env t r fin"
  let ?ts = "fst (updateTask (ce_compare env) ?i ?upd (tasks s))"
  let ?s' = "updateTaskAfterRun env r t fin s"
  have fl: "file_ok (tasks s) (overrides s)" and ok: "store_ok (tasks s)"
    and claims: "claims_ok (tasks s) (claims (fires s))" and runs: "runs_ok env s"
    using assms(1) by (simp_all add: cron_inv_def file_ok_def)
  have C: "claims (fires s) r = Some t" using assms(2) by (simp add: claims_def)
  then have t: "task_status t = Running" "lastRunId t = Some r"
      "getTask (tasks s) ?i = None \<or> getTask (tasks s) ?i = Some t"
    using claims by (auto simp: claims_ok_def claim_kept_def)
  have m: "matchesRunningTask t t r" using t by (simp add: matchesRunningTask_def)
  have get: "getTask ?ts j = (if j = ?i then (case getTask (tasks s) ?i of None \<Rightarrow> None | Some c \<Rightarrow> ?upd c)
      else getTask (tasks s) j)" for j
    by (rule getTask_updateTask [OF keeps_session_id ok]) simp
  have new: "task_status u = Scheduled" if "getTask ?ts ?i = Some u" for u
    using that t(3) m by (auto simp: get after_run_update_def bump_def split: if_splits)
  have store: "store_ok ?ts" using ok keeps_session_id by simp
  have "claims_ok ?ts ((claims (fires s))(r := None))"
    by (rule claims_ok_released [OF claims C]) (use get new in simp_all)
  moreover have "file_ok ?ts (overrides ?s')"
  proof (cases "is_once t \<and> getTask (tasks s) ?i = Some t")
    case True
    have "session_ok (overrides s) t" using file_ok_get [OF fl] True by blast
    then have "sessionKey t = buildCronSessionKey ?i" by (simp add: session_ok_def)
    moreover have "getTask ?ts ?i = None" using True m by (simp add: get after_run_update_def)
    then have "j \<noteq> ?i \<and> getTask (tasks s) j = Some u" if "getTask ?ts j = Some u" for j u
      using that get [of j] by (cases "j = ?i") auto
    then have "file_ok ?ts (removeAll (buildCronSessionKey ?i) (overrides s))"
      by (rule file_ok_remove_session [OF fl store])
    moreover have "file_ok ?ts (overrides s)" by (rule file_ok_updateTask [OF fl]) simp
    ultimately show ?thesis by (simp add: updateTaskAfterRun_def Let_def)
  next
    case False
    have "\<not> (is_once t \<and> list_ex (\<lambda>u. taskId u = ?i \<and> matchesRunningTask u t r) (tasks s))"
      using False t(3) getTask_in [OF ok, of ?i] unfolding list_ex_iff by (metis option.distinct(1) option.inject)
    then have "overrides ?s' = overrides s" by (auto simp: updateTaskAfterRun_def Let_def)
    then show ?thesis using file_ok_updateTask [OF fl] by simp
  qed
  moreover have "runs_ok env ?s'"
  proof -
    have act: "set (jkeys (activeRuns s)) = {q. \<exists>p. jget (fires s) q = Some p \<and> unrecorded p}"
      using runs unfolding runs_ok_def by blast
    have "set (jkeys (activeRuns s)) = {q. \<exists>p. jget (jdelete r (fires s)) q = Some p \<and> unrecorded p}"
      unfolding act jget_jdelete using assms(2) by auto
    then show ?thesis
      using runs by (auto simp: runs_ok_def updateTaskAfterRun_def Let_def run_ids_def jget_jdelete intro: distinct_jdelete)
  qed
  ultimately show ?thesis by (simp add: cron_inv_def updateTaskAfterRun_def Let_def claims_jdelete)
qed

subsection \<open>The interface\<close>

lemma cron_inv_same_runs:
  assumes "cron_inv env s" and "file_ok (tasks s') (overrides s')"
    and "\<And>j. getTask (tasks s') j = None \<or> getTask (tasks s') j = getTask (tasks s) j"
    and "fires s' = fires s" and "runs s' = runs s" and "jkeys (activeRuns s') = jkeys (activeRuns s)"
  shows "cron_inv env s'"
proof -
  have "length (activeRuns s') = length (activeRuns s)" using assms(6) by (metis length_map)
  then have "runs_ok env s'" using assms(1,4-6) by (simp add: cron_inv_def runs_ok_def run_ids_def)
  then show ?thesis
    using assms(1,2,4) claims_ok_gone [of "tasks s" "claims (fires s)" "tasks s'"] assms(3)
    by (simp add: cron_inv_def)
qed

lemma cron_inv_stop:
  assumes "cron_inv env s"
  shows "cron_inv env (fst (stopTask env i r s))"
proof -
  have fl: "file_ok (tasks s) (overrides s)" and ok: "store_ok (tasks s)"
    using assms by (simp_all add: cron_inv_def file_ok_def)
  have keys: "map (\<lambda>x. fst (case x of (k, a) \<Rightarrow> (k, f a))) m = jkeys m" for f :: "active_run \<Rightarrow> active_run" and m
    by (induction m) auto
  have del: "file_ok (fst (deleteTask (ce_compare env) j (tasks s))) (removeAll (buildCronSessionKey j) (overrides s))" for j
    by (rule file_ok_remove_session [OF fl]) (auto simp: ok getTask_deleteTask split: if_splits)
  show ?thesis
    by (rule cron_inv_same_runs [OF assms])
      (auto simp: stopTask_def Let_def fl del keys getTask_deleteTask [OF ok] comp_def split: option.splits)
qed

lemma cron_inv_delete:
  assumes "cron_inv env s"
  shows "cron_inv env (fst (deleteTaskRequest env i stopRunning s))"
proof -
  define s1 where "s1 = (if stopRunning then fst (stopTask env (Some i) None s) else s)"
  have inv: "cron_inv env s1" using assms cron_inv_stop by (simp add: s1_def)
  then have fl: "file_ok (tasks s1) (overrides s1)" and ok: "store_ok (tasks s1)"
    by (simp_all add: cron_inv_def file_ok_def)
  have del: "file_ok (fst (deleteTask (ce_compare env) i (tasks s1))) (removeAll (buildCronSessionKey i) (overrides s1))"
    by (rule file_ok_remove_session [OF fl]) (auto simp: ok getTask_deleteTask split: if_splits)
  show ?thesis
    by (rule cron_inv_same_runs [OF inv])
      (auto simp: deleteTaskRequest_def Let_def case_prod_unfold del file_ok_deleteTask [OF fl]
        getTask_deleteTask [OF ok] simp flip: s1_def)
qed

lemma cron_inv_edit:
  assumes "cron_inv env s" and "updateTaskRequest env input now s = Inr (s', answer)"
  shows "cron_inv env s'"
proof -
  have "s' = s \<or> (\<exists>sc tz runAt. s' = s\<lparr>tasks := fst (updateTask (ce_compare env) (ui_taskId input)
      (apply_update env input now sc tz runAt) (tasks s))\<rparr>)"
    using assms(2) by (auto simp: updateTaskRequest_def Let_def case_prod_unfold split: if_splits sum.splits)
  then show ?thesis using assms(1) cron_inv_file_update by auto
qed

lemma cron_inv_create:
  assumes "cron_inv env s" and "i \<notin> set (task_ids (tasks s))"
    and "i \<notin> (\<lambda>p. taskId (fire_task p)) ` set (map snd (fires s))"
    and "createTask env input now i s = Inr (s', t)"
  shows "cron_inv env s'"
proof -
  have ok: "store_ok (tasks s)" and fl: "file_ok (tasks s) (overrides s)"
    and claims: "claims_ok (tasks s) (claims (fires s))"
    using assms(1) by (simp_all add: cron_inv_def file_ok_def)
  have t: "taskId t = i" "task_status t = Scheduled" "sessionKey t = buildCronSessionKey i" "channelKey t = ''cron''"
    and s': "s' = s\<lparr>tasks := putTask (ce_compare env) t (tasks s), overrides := List.insert (sessionKey t) (overrides s)\<rparr>"
    using assms(4) by (auto simp: createTask_def Let_def split: if_splits sum.splits prod.splits)
  have get: "getTask (tasks s') j = (if j = i then Some t else getTask (tasks s) j)" for j
    using ok t(1) by (simp add: s' getTask_putTask)
  have "file_ok (tasks s') (overrides s')"
  proof (rule file_ok_lookup)
    show "store_ok (tasks s')" using ok by (simp add: s')
    fix j u assume "getTask (tasks s') j = Some u"
    then have "u = t \<or> session_ok (overrides s) u" using get [of j] file_ok_get [OF fl] by (auto split: if_splits)
    then show "session_ok (overrides s') u" using t by (auto simp: session_ok_def s')
  qed
  moreover have "claims_ok (tasks s') (claims (fires s))"
  proof -
    have "taskId u \<noteq> i" if "claims (fires s) r = Some u" for r u
    proof -
      obtain p where p: "jget (fires s) r = Some p" "claimed_task p = Some u"
        using \<open>claims (fires s) r = Some u\<close> by (auto simp: claims_def split: option.splits)
      then have "fire_task p = u" by (cases p) auto
      moreover have "p \<in> set (map snd (fires s))" using map_of_SomeD [OF p(1)] by force
      ultimately show ?thesis using assms(3) by auto
    qed
    then have "claim_kept (tasks s') (claims (fires s))"
      using claims by (auto simp: claims_ok_def claim_kept_def get)
    moreover have "running_claimed (tasks s') (claims (fires s))"
      using claims t(2) by (auto simp: claims_ok_def running_claimed_def get)
    ultimately show ?thesis using claims by (simp add: claims_ok_def)
  qed
  moreover have "runs_ok env s'" using assms(1) by (simp add: s' cron_inv_def runs_ok_def run_ids_def)
  ultimately show ?thesis by (simp add: cron_inv_def s')
qed

subsection \<open>Restart\<close>

definition history_ok :: "cron_state \<Rightarrow> bool" where
  "history_ok s \<longleftrightarrow> terminalRunIds (runs s) = run_ids s"

definition nonempty_iso :: "cron_env \<Rightarrow> bool" where
  "nonempty_iso env \<longleftrightarrow> (\<forall>n. isoString (ce_intl env) n \<noteq> [])"

lemma migrate_identity:
  "\<forall>t\<in>set ts. session_ok os t \<Longrightarrow> foldl (migrate_task env now) s ts = s"
proof (induction ts arbitrary: s)
  case (Cons t ts)
  then have "migrate_task env now s t = s" by (simp add: migrate_task_def session_ok_def)
  with Cons show ?case by simp
qed simp

definition recovered :: "cron_env \<Rightarrow> int \<Rightarrow> cron_task \<Rightarrow> cron_task option" where
  "recovered env now t =
     (if task_status t \<noteq> Running then Some t
      else if is_once t then None
      else Some ((bump t)\<lparr>schedule := snd (rescheduled env t), task_timezone := Some (fst (rescheduled env t)),
             task_status := Scheduled, nextRunAt := next_iso env t now,
             scheduleComputationVersion := Some CRON_SCHEDULE_COMPUTATION_VERSION,
             updatedAt := isoString (ce_intl env) now\<rparr>))"

definition new_records :: "cron_env \<Rightarrow> int \<Rightarrow> string list \<Rightarrow> cron_task list \<Rightarrow> run_record list" where
  "new_records env now done_ids ts =
     concat (map (\<lambda>t. if task_status t = Running then recovered_records env now done_ids t else []) ts)"

lemma recover_task_effect:
  assumes "store_ok (tasks s)" and "getTask (tasks s) (taskId t) = Some t"
  shows "store_ok (tasks (recover_task env now done_ids s t))"
    and "getTask (tasks (recover_task env now done_ids s t)) j
           = (if j = taskId t then recovered env now t else getTask (tasks s) j)"
    and "runs (recover_task env now done_ids s t)
           = runs s @ (if task_status t = Running then recovered_records env now done_ids t else [])"
    and "fires (recover_task env now done_ids s t) = fires s"
    and "activeRuns (recover_task env now done_ids s t) = activeRuns s"
    and "set (overrides (recover_task env now done_ids s t))
           = (if recovered env now t = None then set (overrides s) - {sessionKey t} else set (overrides s))"
  using assms
  by (auto simp: recover_task_def recovered_def Let_def getTask_deleteTask getTask_putTask bump_def)

lemma recover_fold:
  assumes "store_ok (tasks s)" and "store_ok ts" and "\<And>t. t \<in> set ts \<Longrightarrow> getTask (tasks s) (taskId t) = Some t"
    and "s' = foldl (recover_task env now done_ids) s ts"
  shows "store_ok (tasks s')
    \<and> (\<forall>j. getTask (tasks s') j = (case getTask ts j of Some t \<Rightarrow> recovered env now t | None \<Rightarrow> getTask (tasks s) j))
    \<and> runs s' = runs s @ new_records env now done_ids ts
    \<and> fires s' = fires s \<and> activeRuns s' = activeRuns s
    \<and> set (overrides s') = set (overrides s) - {sessionKey t | t. t \<in> set ts \<and> recovered env now t = None}"
  using assms
proof (induction ts arbitrary: s)
  case Nil
  then show ?case by (simp add: new_records_def getTask_def)
next
  case (Cons t ts)
  let ?s = "recover_task env now done_ids s t"
  have get: "getTask (tasks s) (taskId t) = Some t" using Cons.prems(3) by simp
  note eff = recover_task_effect [OF Cons.prems(1) get, of env now "done_ids"]
  have ts: "store_ok ts" "taskId t \<notin> taskId ` set ts" using Cons.prems(2) by (simp_all add: task_ids_def)
  have pre: "getTask (tasks ?s) (taskId u) = Some u" if "u \<in> set ts" for u
  proof -
    have "taskId u \<noteq> taskId t" using ts(2) that by (metis image_eqI)
    then show ?thesis using Cons.prems(3) [of u] that by (simp add: eff(2))
  qed
  note IH = Cons.IH [OF eff(1) ts(1) pre]
  have s': "s' = foldl (recover_task env now done_ids) ?s ts" using Cons.prems(4) by simp
  have "getTask (tasks s') j = (case getTask (t # ts) j of Some t \<Rightarrow> recovered env now t | None \<Rightarrow> getTask (tasks s) j)" for j
  proof -
    have "getTask (tasks s') j = (case getTask ts j of Some t \<Rightarrow> recovered env now t | None \<Rightarrow> getTask (tasks ?s) j)"
      using IH [OF _ s'] by blast
    moreover have "getTask ts (taskId t) = None" using ts(2) by (simp add: getTask_None set_task_ids)
    ultimately show ?thesis
      by (cases "j = taskId t"; cases "getTask ts j") (simp_all add: eff(2) getTask_Cons)
  qed
  moreover have "runs s' = runs s @ new_records env now done_ids (t # ts)"
    using IH [OF _ s'] by (simp add: eff(3) new_records_def)
  moreover have "set (overrides s') = set (overrides s)
      - {sessionKey u | u. u \<in> set (t # ts) \<and> recovered env now u = None}"
  proof -
    have "set (overrides s') = set (overrides ?s) - {sessionKey t | t. t \<in> set ts \<and> recovered env now t = None}"
      using IH [OF _ s'] by blast
    then show ?thesis by (auto simp: eff(6))
  qed
  ultimately show ?case using IH [OF _ s'] eff(4,5) by simp
qed

lemma terminalRunIds_append: "terminalRunIds (xs @ ys) = terminalRunIds xs @ terminalRunIds ys"
  by (simp add: terminalRunIds_def)

lemma recovered_records_ids:
  "map rr_runId (recovered_records env now done_ids t)
     = (case lastRunId t of None \<Rightarrow> [] | Some r \<Rightarrow> if r = [] \<or> r \<in> set done_ids then [] else [r])"
  by (simp add: recovered_records_def interrupted_record_def split: option.split)

lemma recovered_records_terminal:
  "nonempty_iso env \<Longrightarrow> terminalRunIds (recovered_records env now done_ids t) = map rr_runId (recovered_records env now done_ids t)"
  by (simp add: terminalRunIds_def recovered_records_def interrupted_record_def nonempty_iso_def split: option.split)

lemma new_records_terminal:
  assumes "nonempty_iso env"
  shows "terminalRunIds (new_records env now done_ids ts) = map rr_runId (new_records env now done_ids ts)"
proof (induction ts)
  case Nil
  then show ?case by (simp add: new_records_def terminalRunIds_def)
next
  case (Cons t ts)
  then show ?case
    using recovered_records_terminal [OF assms, of now "done_ids" t]
    by (simp add: new_records_def terminalRunIds_append) (simp add: terminalRunIds_def)
qed

lemma new_records_ids:
  "set (map rr_runId (new_records env now done_ids ts))
     = {r. r \<noteq> [] \<and> r \<notin> set done_ids \<and> (\<exists>t\<in>set ts. task_status t = Running \<and> lastRunId t = Some r)}"
proof (induction ts)
  case Nil
  then show ?case by (simp add: new_records_def)
next
  case (Cons t ts)
  have "map rr_runId (new_records env now done_ids (t # ts))
      = (if task_status t = Running then map rr_runId (recovered_records env now done_ids t) else [])
        @ map rr_runId (new_records env now done_ids ts)"
    by (simp add: new_records_def)
  then show ?case using Cons by (auto simp: recovered_records_ids split: option.splits)
qed

lemma new_records_distinct:
  assumes "distinct ts"
    and "\<And>t u r. t \<in> set ts \<Longrightarrow> u \<in> set ts \<Longrightarrow> task_status t = Running \<Longrightarrow> task_status u = Running
           \<Longrightarrow> lastRunId t = Some r \<Longrightarrow> lastRunId u = Some r \<Longrightarrow> t = u"
  shows "distinct (map rr_runId (new_records env now done_ids ts))"
  using assms
proof (induction ts)
  case Nil
  then show ?case by (simp add: new_records_def)
next
  case (Cons t ts)
  have eq: "map rr_runId (new_records env now done_ids (t # ts))
      = (if task_status t = Running then map rr_runId (recovered_records env now done_ids t) else [])
        @ map rr_runId (new_records env now done_ids ts)"
    by (simp add: new_records_def)
  have IH: "distinct (map rr_runId (new_records env now done_ids ts))"
  proof (rule Cons.IH)
    show "distinct ts" using Cons.prems(1) by simp
    show "x = y" if "x \<in> set ts" "y \<in> set ts" "task_status x = Running" "task_status y = Running"
      "lastRunId x = Some r" "lastRunId y = Some r" for x y r
      by (rule Cons.prems(2)) (use that in simp_all)
  qed
  have no: "r \<notin> set (map rr_runId (new_records env now done_ids ts))"
    if "task_status t = Running" "lastRunId t = Some r" for r
  proof
    assume "r \<in> set (map rr_runId (new_records env now done_ids ts))"
    then obtain u where u: "u \<in> set ts" "task_status u = Running" "lastRunId u = Some r"
      unfolding new_records_ids by blast
    have "t = u" by (rule Cons.prems(2)) (use that u in simp_all)
    then show False using u(1) Cons.prems(1) by simp
  qed
  show ?case
    unfolding eq using IH no by (auto simp: recovered_records_ids split: option.splits)
qed

lemma running_ids_inj:
  assumes "claims_ok ts C" and "store_ok ts" and "t \<in> set ts" and "u \<in> set ts"
    and "task_status t = Running" and "task_status u = Running" and "lastRunId t = Some r" and "lastRunId u = Some r"
  shows "t = u"
proof -
  have "getTask ts (taskId t) = Some t" "getTask ts (taskId u) = Some u"
    using getTask_in [OF assms(2)] assms(3,4) by simp_all
  then have "C r = Some t" "C r = Some u"
    using assms(1,5-8) unfolding claims_ok_def running_claimed_def by force+
  then show ?thesis by simp
qed

definition all_scheduled :: "cron_task list \<Rightarrow> bool" where
  "all_scheduled ts \<longleftrightarrow> (\<forall>t\<in>set ts. task_status t = Scheduled)"

lemma claims_ok_none: "store_ok ts \<Longrightarrow> all_scheduled ts \<Longrightarrow> claims_ok ts (\<lambda>_. None)"
proof -
  assume "store_ok ts" and all: "all_scheduled ts"
  then have "task_status t = Scheduled" if "getTask ts i = Some t" for i t
    using that getTask_in [of ts i t] by (simp add: all_scheduled_def)
  then show ?thesis
    unfolding claims_ok_def claim_kept_def running_claimed_def single_flight_def
    by (metis option.distinct(1) task_status.distinct(1))
qed

lemma recalc_update_scheduled:
  "recalc_update env now u w = Some v \<Longrightarrow> task_status w = Scheduled \<Longrightarrow> task_status v = Scheduled"
  by (auto simp: recalc_update_def bump_def split: if_splits option.splits)

lemma recalc_fold:
  assumes "file_ok ts os" and "all_scheduled ts"
  shows "file_ok (foldl (\<lambda>ts task. if P task then fst (updateTask cmp (taskId task) (recalc_update env now task) ts) else ts) ts us) os
       \<and> all_scheduled (foldl (\<lambda>ts task. if P task then fst (updateTask cmp (taskId task) (recalc_update env now task) ts) else ts) ts us)"
  using assms
proof (induction us arbitrary: ts)
  case (Cons u us)
  let ?ts = "fst (updateTask cmp (taskId u) (recalc_update env now u) ts)"
  have "file_ok ?ts os" using file_ok_updateTask [OF Cons.prems(1)] by simp
  moreover have "all_scheduled ?ts"
    unfolding all_scheduled_def updateTask_fst set_sortTasks
  proof
    fix v assume "v \<in> set (updated_list (taskId u) (recalc_update env now u) ts)"
    then consider "v \<in> set ts" | w where "w \<in> set ts" "recalc_update env now u w = Some v"
      unfolding set_updated_list by blast
    then show "task_status v = Scheduled"
    proof cases
      case 2
      then show ?thesis using Cons.prems(2) recalc_update_scheduled by (auto simp: all_scheduled_def)
    qed (use Cons.prems(2) in \<open>simp add: all_scheduled_def\<close>)
  qed
  ultimately show ?case using Cons by simp
qed simp

lemma set_prepare: "set (foldl (\<lambda>os t. List.insert (sessionKey t) os) os ts) = set os \<union> sessionKey ` set ts"
  by (induction ts arbitrary: os) auto

lemma session_ok_mono: "session_ok os t \<Longrightarrow> set os \<subseteq> set os' \<Longrightarrow> session_ok os' t"
  by (auto simp: session_ok_def)

lemma cron_inv_restart:
  assumes "cron_inv env s" and "history_ok s" and "nonempty_iso env"
  shows "cron_inv env (start_runtime env now s) \<and> history_ok (start_runtime env now s)
         \<and> all_scheduled (tasks (start_runtime env now s))
         \<and> activeRuns (start_runtime env now s) = []
         \<and> runs (start_runtime env now s) = runs s @ new_records env now (run_ids s) (tasks s)"
proof -
  define s0 where "s0 = s\<lparr>activeRuns := [], fires := [], tick_rest := None\<rparr>"
  define s2 where "s2 = recoverInterruptedRuns env now s0"
  have ok: "store_ok (tasks s)" and fl: "file_ok (tasks s) (overrides s)" and claims: "claims_ok (tasks s) (claims (fires s))"
    using assms(1) by (simp_all add: cron_inv_def file_ok_def)
  have dist: "distinct (tasks s)" using ok distinct_map unfolding task_ids_def by blast
  have pre: "getTask (tasks s0) (taskId t) = Some t" if "t \<in> set (tasks s)" for t
    using that getTask_in [OF ok] by (simp add: s0_def)
  have done_ids: "terminalRunIds (runs s0) = run_ids s" using assms(2) by (simp add: history_ok_def s0_def)
  have "store_ok (tasks s0)" using ok by (simp add: s0_def)
  note rec = recover_fold [OF this ok pre, of s2 env now "run_ids s"]
  have s2_fold: "s2 = foldl (recover_task env now (run_ids s)) s0 (tasks s)"
    by (simp only: s2_def recoverInterruptedRuns_def done_ids) (simp add: s0_def)
  note rec = rec [OF _ s2_fold]
  have ok2: "store_ok (tasks s2)" using rec by blast
  have get2: "getTask (tasks s2) j = (case getTask (tasks s) j of Some t \<Rightarrow> recovered env now t | None \<Rightarrow> None)" for j
    using rec by (auto simp: s0_def split: option.splits)
  have sched2: "all_scheduled (tasks s2)"
    unfolding all_scheduled_def
  proof
    fix u assume "u \<in> set (tasks s2)"
    then have "getTask (tasks s2) (taskId u) = Some u" using getTask_in [OF ok2] by simp
    then obtain t where "recovered env now t = Some u" using get2 by (auto split: option.splits)
    then show "task_status u = Scheduled"
      using status_cases [of u] by (auto simp: recovered_def split: if_splits)
  qed
  have file2: "file_ok (tasks s2) (overrides s2)"
  proof (rule file_ok_lookup [OF ok2])
    fix j u assume u: "getTask (tasks s2) j = Some u"
    then obtain t where t: "getTask (tasks s) j = Some t" "recovered env now t = Some u"
      using get2 [of j] by (auto split: option.splits)
    have st: "session_ok (overrides s) t" using file_ok_get [OF fl t(1)] .
    have su: "taskId u = taskId t" "sessionKey u = sessionKey t" "channelKey u = channelKey t"
      using t(2) by (auto simp: recovered_def bump_def split: if_splits)
    have "sessionKey u \<noteq> sessionKey v" if "v \<in> set (tasks s)" "recovered env now v = None" for v
    proof
      assume "sessionKey u = sessionKey v"
      moreover have "session_ok (overrides s) v" using fl that(1) by (simp add: file_ok_def)
      ultimately have "taskId v = taskId t" using st su by (simp add: session_ok_def)
      then have "v = t" using getTask_in [OF ok] t(1) that(1) getTask_id [OF t(1)] by (metis option.inject)
      then show False using that(2) t(2) by simp
    qed
    moreover have "set (overrides s2) = set (overrides s)
        - {sessionKey t | t. t \<in> set (tasks s) \<and> recovered env now t = None}"
      using rec by (simp add: s0_def)
    ultimately show "session_ok (overrides s2) u" using st su by (auto simp: session_ok_def)
  qed
  have ids: "run_ids s2 = run_ids s @ map rr_runId (new_records env now (run_ids s) (tasks s))"
    using rec by (simp add: run_ids_def s0_def)
  have hist: "history_ok s2"
    using rec assms(2) new_records_terminal [OF assms(3), of now "run_ids s" "tasks s"]
    by (simp add: history_ok_def ids terminalRunIds_append s0_def)
  have "distinct (run_ids s)" using assms(1) by (simp add: cron_inv_def runs_ok_def)
  moreover have "distinct (map rr_runId (new_records env now (run_ids s) (tasks s)))"
    by (rule new_records_distinct [OF dist]) (rule running_ids_inj [OF claims ok])
  moreover have "set (run_ids s) \<inter> set (map rr_runId (new_records env now (run_ids s) (tasks s))) = {}"
    unfolding new_records_ids by blast
  ultimately have dist2: "distinct (run_ids s2)"
    unfolding ids distinct_append by blast
  have "foldl (migrate_task env now) s0 (tasks s0) = s0"
    using fl by (intro migrate_identity [where os = "overrides s"]) (simp add: file_ok_def s0_def)
  then have start: "start_runtime env now s = recalculateAllNextRuns env now (prepareTaskSessions s2)"
    by (simp only: start_runtime_def Let_def flip: s0_def) (simp only: flip: s2_def)
  let ?os = "overrides (prepareTaskSessions s2)"
  have "file_ok (tasks s2) ?os"
    using file2 session_ok_mono set_prepare [of "overrides s2" "tasks s2"]
    by (fastforce simp: file_ok_def prepareTaskSessions_def)
  note recalc = recalc_fold [OF this sched2]
  let ?s = "start_runtime env now s"
  have "fires ?s = []" "activeRuns ?s = []" "runs ?s = runs s2" "overrides ?s = ?os"
      "runs s2 = runs s @ new_records env now (run_ids s) (tasks s)"
    using rec by (simp_all add: start recalculateAllNextRuns_def prepareTaskSessions_def s0_def)
  moreover have "file_ok (tasks ?s) ?os" "all_scheduled (tasks ?s)"
    using recalc by (simp_all add: start recalculateAllNextRuns_def prepareTaskSessions_def)
  moreover have "claims [] = (\<lambda>_. None)" by (rule ext) (simp add: claims_def)
  ultimately show ?thesis
    using hist dist2 claims_ok_none [of "tasks ?s"]
    by (simp add: cron_inv_def runs_ok_def history_ok_def run_ids_def file_ok_def)
qed

subsection \<open>Every reachable state\<close>

lemma history_ok_turn:
  assumes "history_ok s" and "nonempty_iso env"
  shows "history_ok (end_turn env r t started events thrown now persisted s)"
  using assms
  by (simp add: history_ok_def end_turn_def Let_def run_ids_def terminalRunIds_def run_record_of_def nonempty_iso_def)

lemma same_runs_history:
  "runs s' = runs s \<Longrightarrow> history_ok s' = history_ok s"
  by (simp add: history_ok_def run_ids_def)

lemma interface_runs:
  "runs (claim_run env r snapshot now s) = runs s"
  "runs (updateTaskAfterRun env r t fin s) = runs s"
  "runs (fst (stopTask env i ro s)) = runs s"
  "runs (fst (deleteTaskRequest env j stopRunning s)) = runs s"
  "updateTaskRequest env upd now s = Inr (s', answer) \<Longrightarrow> runs s' = runs s"
  "createTask env input now k s = Inr (s', t') \<Longrightarrow> runs s' = runs s"
proof -
  show stop: "runs (fst (stopTask env i ro s)) = runs s" for i ro
    by (simp add: stopTask_def Let_def split: option.split)
  show "runs (fst (deleteTaskRequest env j stopRunning s)) = runs s"
    by (simp add: deleteTaskRequest_def Let_def case_prod_unfold stop)
  show "runs (claim_run env r snapshot now s) = runs s"
    by (simp add: claim_run_def Let_def case_prod_unfold split: option.split)
  show "runs (updateTaskAfterRun env r t fin s) = runs s" by (simp add: updateTaskAfterRun_def Let_def)
  show "updateTaskRequest env upd now s = Inr (s', answer) \<Longrightarrow> runs s' = runs s"
    by (auto simp: updateTaskRequest_def Let_def case_prod_unfold split: if_splits sum.splits)
  show "createTask env input now k s = Inr (s', t') \<Longrightarrow> runs s' = runs s"
    by (auto simp: createTask_def Let_def split: if_splits sum.splits prod.splits)
qed

lemma cron_step_inv:
  assumes "cron_step env s s'" and "nonempty_iso env" and "cron_inv env s" and "history_ok s"
  shows "cron_inv env s' \<and> history_ok s'"
  using assms
proof (induction rule: cron_step.induct)
  case (tick_delay s t ts now others)
  have "cron_inv env (s\<lparr>tasks := delayTask env t now (tasks s)\<rparr>)"
    unfolding delayTask_def using tick_delay by (intro cron_inv_file_update) simp_all
  then show ?case
    using tick_delay cron_inv_tick_rest [where env = env and s = "s\<lparr>tasks := delayTask env t now (tasks s)\<rparr>"
          and q = "Some (ts, now)"]
    by (simp add: history_ok_def run_ids_def)
next
  case (tick_fire s t ts now others r)
  then have "cron_inv env (start_run t r s)" by (intro cron_inv_start_run) simp_all
  then show ?case using tick_fire by (simp add: history_ok_def run_ids_def start_run_def)
next
  case (turn s r t started events thrown now persisted)
  then show ?case using cron_inv_end_turn history_ok_turn by blast
next
  case (restart s now)
  then show ?case using cron_inv_restart by blast
qed (auto intro: cron_inv_claim cron_inv_after_run cron_inv_create cron_inv_edit cron_inv_delete cron_inv_stop
    simp: interface_runs same_runs_history history_ok_def run_ids_def)

definition cron_start :: cron_state where
  "cron_start = \<lparr>tasks = [], runs = [], activeRuns = [], overrides = [], fires = [], tick_rest = None\<rparr>"

lemma cron_start_inv: "cron_inv env cron_start \<and> history_ok cron_start"
  by (auto simp: cron_start_def cron_inv_def file_ok_def runs_ok_def claims_ok_def claim_kept_def running_claimed_def
      single_flight_def claims_def run_ids_def history_ok_def terminalRunIds_def task_ids_def getTask_def)

interpretation cron: transition_system cron_start "cron_step env"
    "\<lambda>s. nonempty_iso env \<longrightarrow> cron_inv env s \<and> history_ok s" for env
  by unfold_locales (use cron_start_inv cron_step_inv in blast)+

lemma cron_reachable_run: "cron_reachable env s \<Longrightarrow> (cron_step env)\<^sup>*\<^sup>* cron_start s"
  by (induction rule: cron_reachable.induct) (auto simp: cron_start_def)

lemma cron_reachable_inv: "cron_reachable env s \<Longrightarrow> nonempty_iso env \<Longrightarrow> cron_inv env s \<and> history_ok s"
  using cron.invar_reachable cron_reachable_run by blast

text \<open>The tasks claimed by runs in flight, one entry for each run.\<close>

definition claimed_tasks :: "cron_state \<Rightarrow> cron_task list" where
  "claimed_tasks s = List.map_filter (\<lambda>(r, p). claimed_task p) (fires s)"

lemma single_flight_distinct:
  "distinct (jkeys fs) \<Longrightarrow> single_flight (claims fs)
   \<Longrightarrow> distinct (map taskId (List.map_filter (\<lambda>(r, p). claimed_task p) fs))"
proof (induction fs)
  case Nil
  then show ?case by (simp add: List.map_filter_simps)
next
  case (Cons e fs)
  obtain r p where e: "e = (r, p)" by (cases e)
  have r: "jget fs r = None" using Cons.prems(1) e by (metis distinct.simps(2) fst_conv list.simps(9) map_of_eq_None_iff set_map)
  have get: "claims (e # fs) = (claims fs)(r := claimed_task p)" by (rule ext) (simp add: claims_def e)
  have "single_flight (claims fs)"
    using Cons.prems(2) r unfolding get single_flight_def by (metis claims_def fun_upd_apply option.distinct(1) option.simps(4))
  then have IH: "distinct (map taskId (List.map_filter (\<lambda>(r, p). claimed_task p) fs))"
    using Cons by simp
  have mem: "\<exists>q. claims fs q = Some u" if "u \<in> set (List.map_filter (\<lambda>(r, p). claimed_task p) fs)" for u
  proof -
    obtain q pq where "(q, pq) \<in> set fs" "claimed_task pq = Some u"
      using \<open>u \<in> set _\<close> by (auto simp: List.map_filter_def)
    then show ?thesis using Cons.prems(1) by (intro exI [of _ q]) (simp add: claims_def)
  qed
  show ?case
  proof (cases "claimed_task p")
    case None
    then show ?thesis using IH by (simp add: List.map_filter_simps e)
  next
    case (Some t)
    have "taskId t \<noteq> taskId u" if u: "u \<in> set (List.map_filter (\<lambda>(r, p). claimed_task p) fs)" for u
    proof
      assume same: "taskId t = taskId u"
      obtain q where q: "claims fs q = Some u" using mem [OF u] by blast
      then have "q \<noteq> r" using r by (auto simp: claims_def)
      then have "claims (e # fs) q = Some u" "claims (e # fs) r = Some t" using q Some by (simp_all add: get)
      then show False using Cons.prems(2) same \<open>q \<noteq> r\<close> unfolding single_flight_def by metis
    qed
    then show ?thesis using IH Some by (auto simp: List.map_filter_simps e)
  qed
qed


text \<open>No task is stuck and none loses its policy: in every reachable state a task marked running is
  held, as it stands in the file, by exactly the run in flight it names; task ids are unique; and every
  task of the file runs in its own cron session, which carries the unattended overrides.\<close>

lemma cron_running_task_held:
  assumes "cron_reachable env s" and "nonempty_iso env"
  shows "{t \<in> set (tasks s). task_status t = Running} \<subseteq> set (claimed_tasks s)
         \<and> distinct (map taskId (tasks s))
         \<and> (\<lambda>t. buildCronSessionKey (taskId t)) ` set (tasks s) \<subseteq> set (overrides s)"
proof -
  have inv: "cron_inv env s" using cron_reachable_inv [OF assms] by blast
  then have ok: "store_ok (tasks s)" by (simp add: cron_inv_def file_ok_def)
  have "t \<in> set (claimed_tasks s)" if t: "t \<in> set (tasks s)" "task_status t = Running" for t
  proof -
    have "getTask (tasks s) (taskId t) = Some t" using t getTask_in [OF ok] by simp
    then obtain r where "claims (fires s) r = Some t"
      using inv t(2) unfolding cron_inv_def claims_ok_def running_claimed_def by blast
    then obtain p where "jget (fires s) r = Some p" "claimed_task p = Some t"
      by (auto simp: claims_def split: option.splits)
    then show ?thesis using map_of_SomeD [of "fires s" r p] by (force simp: claimed_tasks_def List.map_filter_def)
  qed
  moreover have "buildCronSessionKey (taskId t) \<in> set (overrides s)" if "t \<in> set (tasks s)" for t
    using inv that by (auto simp: cron_inv_def file_ok_def session_ok_def)
  ultimately show ?thesis using ok by (auto simp: task_ids_def)
qed

text \<open>C9. A restart after a crash recovers: from any reachable state, starting the runtime leaves no task
  running and no run active, and every interrupted run, the one a running task names, is in the history
  exactly once.\<close>

theorem cron_restart_recovers:
  assumes "cron_reachable env s" and "nonempty_iso env"
  shows "{t \<in> set (tasks (start_runtime env now s)). task_status t = Running} = {}
         \<and> activeRuns (start_runtime env now s) = []
         \<and> set (List.map_filter lastRunId (filter (\<lambda>t. task_status t = Running) (tasks s)))
             \<subseteq> set (map rr_runId (runs (start_runtime env now s)))
         \<and> distinct (map rr_runId (runs (start_runtime env now s)))"
proof -
  have inv: "cron_inv env s" and hist: "history_ok s" using cron_reachable_inv [OF assms] by blast+
  note start = cron_inv_restart [OF inv hist assms(2), of now]
  have ok: "store_ok (tasks s)" using inv by (simp add: cron_inv_def file_ok_def)
  have "r \<in> set (map rr_runId (runs (start_runtime env now s)))"
    if t: "t \<in> set (tasks s)" "task_status t = Running" "lastRunId t = Some r" for t r
  proof -
    have "getTask (tasks s) (taskId t) = Some t" using t(1) getTask_in [OF ok] by simp
    then have "claims (fires s) r = Some t"
      using inv t(2,3) unfolding cron_inv_def claims_ok_def running_claimed_def by force
    then obtain p where "jget (fires s) r = Some p" by (auto simp: claims_def split: option.splits)
    then have "r \<noteq> []" using inv unfolding cron_inv_def runs_ok_def by blast
    then have "r \<in> set (run_ids s) \<or> r \<in> set (map rr_runId (new_records env now (run_ids s) (tasks s)))"
      using t unfolding new_records_ids by blast
    then show ?thesis using start by (auto simp: run_ids_def)
  qed
  then have "set (List.map_filter lastRunId (filter (\<lambda>t. task_status t = Running) (tasks s)))
      \<subseteq> set (map rr_runId (runs (start_runtime env now s)))"
    by (force simp: List.map_filter_def)
  moreover have "distinct (map rr_runId (runs (start_runtime env now s)))"
    using start unfolding cron_inv_def runs_ok_def run_ids_def by blast
  moreover have "{t \<in> set (tasks (start_runtime env now s)). task_status t = Running} = {}"
    using start by (auto simp: all_scheduled_def)
  ultimately show ?thesis using start by blast
qed

section \<open>The outcome of a run\<close>

definition turn_trouble :: "turn_event \<Rightarrow> bool" where
  "turn_trouble e = (case e of TextDelta _ \<Rightarrow> False | OtherEvent \<Rightarrow> False | _ \<Rightarrow> True)"

definition forced_failed :: "turn_fold \<Rightarrow> bool" where
  "forced_failed f \<longleftrightarrow> (tf_forced f \<longrightarrow> tf_outcome f = Failed)"

lemma turn_step_outcome:
  assumes "forced_failed f"
  shows "forced_failed (turn_step f e)"
    and "(tf_outcome (turn_step f e) = Completed) = (tf_outcome f = Completed \<and> \<not> turn_trouble e)"
  using assms by (cases e; auto simp: forced_failed_def turn_trouble_def)+

lemma turn_fold_outcome:
  "forced_failed f \<Longrightarrow> forced_failed (foldl turn_step f es)
     \<and> (tf_outcome (foldl turn_step f es) = Completed) = (tf_outcome f = Completed \<and> filter turn_trouble es = [])"
proof (induction es arbitrary: f)
  case (Cons e es)
  show ?case using Cons.IH [OF turn_step_outcome(1) [OF Cons.prems]] turn_step_outcome(2) [OF Cons.prems, of e] by auto
qed simp

lemma turn_fold_text:
  "tf_text (foldl turn_step f es) = tf_text f @ concat (map (\<lambda>e. case e of TextDelta s \<Rightarrow> s | _ \<Rightarrow> []) es)"
proof (induction es arbitrary: f)
  case (Cons e es)
  then show ?case by (cases e) simp_all
qed simp

text \<open>The outcome of a cron run is \<open>completed\<close> exactly when the turn's stream ended normally, the run was
  not stopped, and no event asked for interaction or reported an error; and the text delivered is the
  concatenation of the text deltas in order, whatever else the turn yielded.\<close>

lemma run_outcome_completed:
  "(tf_outcome (run_turn events thrown stopRequested) = Completed)
     = (thrown = None \<and> \<not> stopRequested \<and> filter turn_trouble events = [])
   \<and> tf_text (run_turn events thrown stopRequested)
     = concat (map (\<lambda>e. case e of TextDelta s \<Rightarrow> s | _ \<Rightarrow> []) events)"
proof
  let ?f = "foldl turn_step turn_start events"
  have c: "(tf_outcome ?f = Completed) = (filter turn_trouble events = [])" and "forced_failed ?f"
    using turn_fold_outcome [of turn_start events] by (simp_all add: turn_start_def forced_failed_def)
  then have "tf_forced ?f \<longrightarrow> tf_outcome ?f = Failed" by (simp add: forced_failed_def)
  then show "(tf_outcome (run_turn events thrown stopRequested) = Completed)
     = (thrown = None \<and> \<not> stopRequested \<and> filter turn_trouble events = [])"
    using c by (auto simp: run_turn_def Let_def split: option.splits)
  show "tf_text (run_turn events thrown stopRequested)
     = concat (map (\<lambda>e. case e of TextDelta s \<Rightarrow> s | _ \<Rightarrow> []) events)"
    using turn_fold_text [of turn_start events] by (simp add: run_turn_def Let_def turn_start_def split: option.split)
qed

section \<open>Instances\<close>

definition demo_cron :: cron_env where
  "demo_cron = \<lparr>ce_intl = \<lparr>tz_valid = (\<lambda>_. True), tz_parts = (\<lambda>_. clock_parts), parseDate = (\<lambda>_. Some 60000),
       isoString = (\<lambda>_. ''1970-01-01T00:01:00.000Z'')\<rparr>,
     ce_compare = (\<lambda>a b. 0), ce_config = defaultCronConfig, ce_projectKey = ''/w'', ce_resolve = (\<lambda>p. p)\<rparr>"

definition demo_input :: create_input where
  "demo_input = \<lparr>ci_message = ''hi'', ci_schedule = Delay 1 Minute, ci_sessionKey = None, ci_channelKey = None,
     ci_projectKey = None, ci_mode = None, ci_timezone = None\<rparr>"

definition demo0 :: cron_state where
  "demo0 = \<lparr>tasks = [], runs = [], activeRuns = [], overrides = [], fires = [], tick_rest = None\<rparr>"

definition demo1 :: cron_state where
  "demo1 = (case createTask demo_cron demo_input 0 ''a'' demo0 of Inr (s, _) \<Rightarrow> s | Inl _ \<Rightarrow> demo0)"

definition demo_task :: cron_task where
  "demo_task = hd (tasks demo1)"

definition demo2 :: cron_state where
  "demo2 = demo1\<lparr>tick_rest := Some (filter (\<lambda>t. isDue (ce_intl demo_cron) t 60000) (tasks demo1), 60000)\<rparr>"

definition demo3 :: cron_state where
  "demo3 = (start_run demo_task ''r'' demo2)\<lparr>tick_rest := Some ([], 60000)\<rparr>"

definition demo4 :: cron_state where
  "demo4 = claim_run demo_cron ''r'' demo_task 60000 demo3"

lemma demo_reachable: "cron_reachable demo_cron demo4"
proof -
  have r0: "cron_reachable demo_cron demo0" unfolding demo0_def by (rule cron_reachable.init)
  have c: "createTask demo_cron demo_input 0 ''a'' demo0 = Inr (demo1, demo_task)" by code_simp
  have r1: "cron_reachable demo_cron demo1"
    by (rule cron_reachable.step [OF r0 cron_step.create [OF _ _ c]]) (simp_all add: demo0_def task_ids_def)
  have "tick_rest demo1 = None" by code_simp
  then have r2: "cron_reachable demo_cron demo2"
    unfolding demo2_def by (intro cron_reachable.step [OF r1] cron_step.tick_start)
  have t: "tick_rest demo2 = Some (demo_task # [], 60000)" by code_simp
  have l: "length (activeRuns demo2) + 0 < maxConcurrentRuns (ce_config demo_cron)" by code_simp
  have f: "fresh_run ''r'' demo2" by code_simp
  have r3: "cron_reachable demo_cron demo3"
    unfolding demo3_def by (rule cron_reachable.step [OF r2 cron_step.tick_fire [OF t l f]])
  have "jget (fires demo3) ''r'' = Some (Claiming demo_task)" by code_simp
  then show ?thesis unfolding demo4_def by (intro cron_reachable.step [OF r3] cron_step.claim)
qed

lemma demo_nonempty_iso: "nonempty_iso demo_cron"
  by (simp add: nonempty_iso_def demo_cron_def)

lemma demo4_running: "map task_status (tasks demo4) = [Running]"
  by code_simp


lemma cron_running_task_held_witness:
  "map task_status (tasks demo4) = [Running]
   \<and> {t \<in> set (tasks demo4). task_status t = Running} \<subseteq> set (claimed_tasks demo4)"
  using cron_running_task_held [OF demo_reachable demo_nonempty_iso] demo4_running by blast

theorem cron_restart_recovers_witness:
  "map task_status (tasks demo4) = [Running]
   \<and> {t \<in> set (tasks (start_runtime demo_cron 0 demo4)). task_status t = Running} = {}
   \<and> set (List.map_filter lastRunId (filter (\<lambda>t. task_status t = Running) (tasks demo4)))
             \<subseteq> set (map rr_runId (runs (start_runtime demo_cron 0 demo4)))"
  using cron_restart_recovers [OF demo_reachable demo_nonempty_iso, of 0] demo4_running by blast

end
