(* ===== verification/Caches.thy ===== *)
theory Caches
  imports Canonical
begin

text \<open>
  The bounded caches: \<open>session/worktree/LRUMap.ts\<close>, \<open>router/session/sessionUsageCache.ts\<close> and
  \<open>router/session/SessionRouterStore.ts\<close>. Each is an insertion-ordered map whose first entry is the next
  to go. What they promise of a write is the locale \<open>bounded_store\<close>, and with reads, deletions and expiry the locale
  \<open>recency_cache\<close>, both interpreted on the three caches.
\<close>

section \<open>The contract\<close>

text \<open>The distinct keys of a sequence of writes, each at its last write.\<close>

definition recent_keys :: "'k list \<Rightarrow> 'k list" where
  "recent_keys ks = rev (dedupe (rev ks))"

locale bounded_store =
  fixes put :: "'k \<Rightarrow> 'v \<Rightarrow> ('k \<times> 'v) list \<Rightarrow> ('k \<times> 'v) list"
    and cap :: nat
  assumes cap_pos: "0 < cap"
    and put_keys: "distinct (jkeys m) \<Longrightarrow> length m \<le> cap
      \<Longrightarrow> jkeys (put k v m) = slice_last cap (filter (\<lambda>j. j \<noteq> k) (jkeys m) @ [k])"
    and put_get: "distinct (jkeys m) \<Longrightarrow> length m \<le> cap \<Longrightarrow> j \<in> set (jkeys (put k v m))
      \<Longrightarrow> jget (put k v m) j = (if j = k then Some v else jget m j)"

lemma slice_last_length [simp]: "length (slice_last n xs) = min n (length xs)"
  by (simp add: slice_last_def)

lemma slice_last_all: "length xs \<le> n \<Longrightarrow> slice_last n xs = xs"
  by (simp add: slice_last_def)

lemma slice_last_Cons: "n \<le> length xs \<Longrightarrow> slice_last n (x # xs) = slice_last n xs"
  by (cases "n = length xs") (auto simp: slice_last_def Suc_diff_le)

lemma set_slice_last: "set (slice_last n xs) \<subseteq> set xs"
  by (simp add: slice_last_def set_drop_subset)

lemma distinct_slice_last: "distinct xs \<Longrightarrow> distinct (slice_last n xs)"
  by (simp add: slice_last_def)

lemma slice_last_snoc: "0 < n \<Longrightarrow> slice_last n (xs @ [x]) = slice_last (n - 1) xs @ [x]"
  by (simp add: slice_last_def Suc_diff_le)

lemma length_filter_neq: "distinct xs \<Longrightarrow> length xs \<le> Suc (length (filter (\<lambda>j. j \<noteq> k) xs))"
proof -
  assume d: "distinct xs"
  have "set (filter (\<lambda>j. j \<noteq> k) xs) = set xs - {k}" by auto
  then have "length (filter (\<lambda>j. j \<noteq> k) xs) = card (set xs - {k})"
    using d by (metis distinct_card distinct_filter)
  moreover have "length xs = card (set xs)" using d by (simp add: distinct_card)
  moreover have "card (set xs) \<le> Suc (card (set xs - {k}))"
    using diff_card_le_card_Diff [of "{k}" "set xs"] by simp
  ultimately show ?thesis by simp
qed

text \<open>Removing a key and cutting to the last \<open>n\<close> commute, up to the cut.\<close>

lemma filter_slice_last:
  "distinct xs \<Longrightarrow>
     slice_last n (filter (\<lambda>j. j \<noteq> k) (slice_last (Suc n) xs)) = slice_last n (filter (\<lambda>j. j \<noteq> k) xs)"
proof (induction xs)
  case Nil
  then show ?case by (simp add: slice_last_def)
next
  case (Cons x xs)
  show ?case
  proof (cases "Suc n \<le> length xs")
    case False
    then show ?thesis by (simp add: slice_last_all not_less_eq_eq)
  next
    case True
    have len: "n \<le> length (filter (\<lambda>j. j \<noteq> k) xs)"
    proof -
      have "length xs \<le> Suc (length (filter (\<lambda>j. j \<noteq> k) xs))"
        using Cons.prems by (intro length_filter_neq) simp
      with True show ?thesis by simp
    qed
    have "slice_last (Suc n) (x # xs) = slice_last (Suc n) xs" by (rule slice_last_Cons [OF True])
    then show ?thesis using Cons len by (auto simp: slice_last_Cons)
  qed
qed

lemma dedupe_from_filter: "dedupe_from (k # seen) xs = filter (\<lambda>j. j \<noteq> k) (dedupe_from seen xs)"
proof (induction xs arbitrary: seen)
  case (Cons x xs)
  have "dedupe_from (x # k # seen) xs = dedupe_from (k # x # seen) xs"
    by (rule dedupe_from_cong) auto
  then show ?case using Cons.IH [of "x # seen"] Cons.IH [of seen] by auto
qed simp

lemma recent_keys_snoc: "recent_keys (ks @ [k]) = filter (\<lambda>j. j \<noteq> k) (recent_keys ks) @ [k]"
  by (simp add: recent_keys_def dedupe_def dedupe_from_filter rev_filter)

lemma distinct_recent_keys [simp]: "distinct (recent_keys ks)"
  by (simp add: recent_keys_def)

text \<open>The uses of a cache, and what it is to hold: the keys used last, up to its capacity. The uses are a log of keys and
  the value last written under each. A write is a use. A read is one if the key is held, its value has not expired and
  reads count (\<open>refresh\<close>); an expired value is forgotten. Once something is forgotten, only the other held keys are
  left in the log: an evicted key does not come back.\<close>

datatype ('k, 'v) cache_op = Write 'k 'v | Read 'k int | Forget 'k | ForgetAll

definition held_keys :: "nat \<Rightarrow> 'k list \<Rightarrow> 'k list" where
  "held_keys cap ks = slice_last cap (recent_keys ks)"

definition without :: "nat \<Rightarrow> 'k \<Rightarrow> 'k list \<Rightarrow> 'k list" where
  "without cap k ks = filter (\<lambda>j. j \<noteq> k) (held_keys cap ks)"

fun use_step ::
    "nat \<Rightarrow> bool \<Rightarrow> ('v \<Rightarrow> int \<Rightarrow> bool) \<Rightarrow> 'k list \<times> ('k \<rightharpoonup> 'v) \<Rightarrow> ('k, 'v) cache_op \<Rightarrow> 'k list \<times> ('k \<rightharpoonup> 'v)" where
  "use_step cap refresh expired (ks, vs) (Write k v) = (ks @ [k], vs(k \<mapsto> v))"
| "use_step cap refresh expired (ks, vs) (Read k now) =
     (if k \<notin> set (held_keys cap ks) then ks
      else if expired (the (vs k)) now then without cap k ks
      else if refresh then ks @ [k] else ks, vs)"
| "use_step cap refresh expired (ks, vs) (Forget k) = (without cap k ks, vs)"
| "use_step cap refresh expired (ks, vs) ForgetAll = ([], vs)"

definition uses :: "nat \<Rightarrow> bool \<Rightarrow> ('v \<Rightarrow> int \<Rightarrow> bool) \<Rightarrow> ('k, 'v) cache_op list \<Rightarrow> 'k list \<times> ('k \<rightharpoonup> 'v)" where
  "uses cap refresh expired ops = foldl (use_step cap refresh expired) ([], Map.empty) ops"

lemma recent_keys_distinct: "distinct ks \<Longrightarrow> recent_keys ks = ks"
  by (simp add: recent_keys_def)

lemma held_snoc: "0 < cap \<Longrightarrow> held_keys cap (ks @ [k]) = slice_last cap (without cap k ks @ [k])"
  by (cases cap) (simp_all add: held_keys_def without_def recent_keys_snoc slice_last_snoc filter_slice_last)

lemma held_distinct [simp]: "distinct (held_keys cap ks)"
  by (simp add: held_keys_def distinct_slice_last)

lemma held_length: "length (held_keys cap ks) \<le> cap"
  by (simp add: held_keys_def)

lemma without_length: "k \<in> set (held_keys cap ks) \<Longrightarrow> length (without cap k ks) < cap"
  unfolding without_def using held_length [of cap ks] length_filter_less [of k "held_keys cap ks" "\<lambda>j. j \<noteq> k"] by simp

lemma held_refresh: "k \<in> set (held_keys cap ks) \<Longrightarrow> held_keys cap (ks @ [k]) = without cap k ks @ [k]"
  using without_length [of k cap ks] by (subst held_snoc) (simp_all add: slice_last_all)

lemma held_without [simp]: "held_keys cap (without cap k ks) = without cap k ks"
proof -
  have "length (without cap k ks) \<le> cap"
    unfolding without_def by (rule le_trans [OF length_filter_le held_length])
  moreover have "distinct (without cap k ks)" by (simp add: without_def)
  ultimately show ?thesis by (simp add: held_keys_def recent_keys_distinct slice_last_all)
qed

lemma held_Nil [simp]: "held_keys cap [] = []"
  by (simp add: held_keys_def recent_keys_def dedupe_def slice_last_def)

locale recency_cache = bounded_store put cap
  for put :: "'k \<Rightarrow> 'v \<Rightarrow> ('k \<times> 'v) list \<Rightarrow> ('k \<times> 'v) list" and cap :: nat +
  fixes get :: "'k \<Rightarrow> int \<Rightarrow> ('k \<times> 'v) list \<Rightarrow> 'a option \<times> ('k \<times> 'v) list"
    and answer :: "'v \<Rightarrow> 'a" and refresh :: bool and expired :: "'v \<Rightarrow> int \<Rightarrow> bool"
  assumes get_miss: "jget m k = None \<Longrightarrow> get k now m = (None, m)"
    and get_expired: "jget m k = Some v \<Longrightarrow> expired v now \<Longrightarrow> get k now m = (None, jdelete k m)"
    and get_hit: "jget m k = Some v \<Longrightarrow> \<not> expired v now
      \<Longrightarrow> get k now m = (Some (answer v), if refresh then jset k v (jdelete k m) else m)"
begin

fun cache_step :: "('k \<times> 'v) list \<Rightarrow> ('k, 'v) cache_op \<Rightarrow> ('k \<times> 'v) list" where
  "cache_step m (Write k v) = put k v m"
| "cache_step m (Read k now) = snd (get k now m)"
| "cache_step m (Forget k) = jdelete k m"
| "cache_step m ForgetAll = []"

definition mirrors :: "('k \<times> 'v) list \<Rightarrow> 'k list \<times> ('k \<rightharpoonup> 'v) \<Rightarrow> bool" where
  "mirrors m u \<longleftrightarrow> jkeys m = held_keys cap (fst u) \<and> (\<forall>j\<in>set (held_keys cap (fst u)). jget m j = snd u j)"

lemma mirrors_bounds: "mirrors m u \<Longrightarrow> distinct (jkeys m) \<and> length m \<le> cap"
  unfolding mirrors_def by (metis held_distinct held_length length_map)

lemma mirrors_keys: "mirrors m u \<Longrightarrow> jget m k = (if k \<in> set (held_keys cap (fst u)) then snd u k else None)"
  unfolding mirrors_def by (metis list.set_map map_of_eq_None_iff)

lemma mirrors_put: "mirrors m (ks, vs) \<Longrightarrow> mirrors (put k v m) (ks @ [k], vs(k \<mapsto> v))"
proof -
  assume h: "mirrors m (ks, vs)"
  note b = conjunct1 [OF mirrors_bounds [OF h]] conjunct2 [OF mirrors_bounds [OF h]]
  have k: "jkeys (put k v m) = held_keys cap (ks @ [k])"
    using h put_keys [OF b] by (simp add: mirrors_def held_snoc [OF cap_pos] without_def)
  moreover have "jget (put k v m) j = (vs(k \<mapsto> v)) j" if j: "j \<in> set (held_keys cap (ks @ [k]))" for j
  proof (cases "j = k")
    case False
    have "j \<in> set (held_keys cap ks)"
      using j False set_slice_last [of cap "without cap k ks @ [k]"] by (auto simp: held_snoc [OF cap_pos] without_def)
    then show ?thesis using put_get [OF b j [folded k]] h False by (simp add: mirrors_def)
  qed (use put_get [OF b j [folded k]] in simp)
  ultimately show ?thesis by (simp add: mirrors_def)
qed

lemma mirrors_delete: "mirrors m (ks, vs) \<Longrightarrow> mirrors (jdelete k m) (without cap k ks, vs)"
  by (auto simp: mirrors_def jkeys_jdelete jget_jdelete) (auto simp: without_def)

lemma mirrors_get:
  assumes "mirrors m (ks, vs)"
  shows "mirrors (snd (get k now m)) (use_step cap refresh expired (ks, vs) (Read k now))"
proof (cases "k \<in> set (held_keys cap ks)")
  case False
  then have "jget m k = None" using mirrors_keys [OF assms, of k] by simp
  then show ?thesis using assms False by (simp add: get_miss)
next
  case True
  have "jget m k \<noteq> None" using assms True by (metis fst_conv list.set_map map_of_eq_None_iff mirrors_def)
  then obtain v where v: "jget m k = Some v" by blast
  then have vs: "vs k = Some v" using mirrors_keys [OF assms, of k] True by simp
  have keys: "jkeys m = held_keys cap ks" using assms by (simp add: mirrors_def)
  have "mirrors (jset k v (jdelete k m)) (ks @ [k], vs)"
    unfolding mirrors_def fst_conv snd_conv
  proof (intro conjI ballI)
    show "jkeys (jset k v (jdelete k m)) = held_keys cap (ks @ [k])"
      unfolding jkeys_jset jkeys_jdelete keys by (simp add: held_refresh [OF True] without_def)
    show "jget (jset k v (jdelete k m)) j = vs j" if "j \<in> set (held_keys cap (ks @ [k]))" for j
      using that mirrors_keys [OF assms, of j] vs
      by (cases "j = k") (auto simp: jget_jset jget_jdelete held_refresh [OF True] without_def)
  qed
  then show ?thesis
    using assms True vs mirrors_delete [OF assms, of k]
    by (cases "expired v now") (simp_all add: get_hit [OF v] get_expired [OF v])
qed

lemma mirrors_step: "mirrors m u \<Longrightarrow> mirrors (cache_step m p) (use_step cap refresh expired u p)"
proof (cases p)
  case ForgetAll
  then show ?thesis by (cases u) (simp add: mirrors_def)
qed (cases u, simp add: mirrors_put mirrors_get mirrors_delete del: use_step.simps(2))+

lemma mirrors_run: "mirrors (foldl cache_step [] ops) (uses cap refresh expired ops)"
proof (induction ops rule: rev_induct)
  case Nil
  then show ?case by (simp add: uses_def mirrors_def)
next
  case (snoc p ops)
  then show ?case using mirrors_step by (simp add: uses_def)
qed

text \<open>What a cache shows after its uses: the held keys in the order of their last use, each with the value last written;
  and a read answers with that value if the key is held and the value has not expired, and with nothing otherwise.\<close>

lemma cache_run:
  "let m = foldl cache_step [] ops; (ks, vs) = uses cap refresh expired ops
   in jkeys m = held_keys cap ks \<and> map (jget m) (jkeys m) = map vs (held_keys cap ks)
      \<and> fst (get k now m) = (if k \<in> set (held_keys cap ks) \<and> \<not> expired (the (vs k)) now then map_option answer (vs k) else None)"
proof -
  define m where "m = foldl cache_step [] ops"
  obtain ks vs where u: "uses cap refresh expired ops = (ks, vs)" by fastforce
  have h: "mirrors m (ks, vs)" unfolding m_def u [symmetric] by (rule mirrors_run)
  have "fst (get k now m) = (if k \<in> set (held_keys cap ks) \<and> \<not> expired (the (vs k)) now then map_option answer (vs k) else None)"
  proof (cases "jget m k")
    case None
    then show ?thesis using mirrors_keys [OF h, of k] by (auto simp: get_miss split: if_splits)
  next
    case (Some v)
    then have "k \<in> set (held_keys cap ks)" "vs k = Some v" using mirrors_keys [OF h, of k] by (auto split: if_splits)
    then show ?thesis using Some by (cases "expired v now") (simp_all add: get_hit get_expired)
  qed
  moreover have "map (jget m) (jkeys m) = map vs (held_keys cap ks)"
    using h by (auto simp only: mirrors_def fst_conv snd_conv intro!: map_cong)
  ultimately show ?thesis using h unfolding m_def [symmetric] u Let_def split_conv by (simp only: mirrors_def fst_conv)
qed

end

section \<open>The three caches\<close>

text \<open>\<open>LRUMap\<close>: \<open>get\<close> refreshes.\<close>

definition lru_get :: "'k \<Rightarrow> ('k \<times> 'v) list \<Rightarrow> 'v option \<times> ('k \<times> 'v) list" where
  "lru_get k m =
     (case jget m k of None \<Rightarrow> (None, m) | Some v \<Rightarrow> (Some v, jset k v (jdelete k m)))"

definition lru_set :: "nat \<Rightarrow> 'k \<Rightarrow> 'v \<Rightarrow> ('k \<times> 'v) list \<Rightarrow> ('k \<times> 'v) list" where
  "lru_set capacity k v m =
     (if jhas m k then jset k v (jdelete k m)
      else if capacity \<le> length m \<and> m \<noteq> [] then jset k v (jdelete (fst (hd m)) m)
      else jset k v m)"

text \<open>\<open>SessionUsageCache.observe\<close>: nothing for an absent usage.\<close>

definition usage_capacity :: "nat \<Rightarrow> nat" where
  "usage_capacity c = max 1 c"

definition usage_observe :: "nat \<Rightarrow> string \<Rightarrow> usage option \<Rightarrow> (string \<times> usage) list \<Rightarrow> (string \<times> usage) list" where
  "usage_observe capacity k u m =
     (case u of
        None \<Rightarrow> m
      | Some v \<Rightarrow>
          (let m1 = (if jhas m k then jdelete k m
                     else if capacity \<le> length m \<and> m \<noteq> [] then jdelete (fst (hd m)) m else m)
           in jset k v m1))"

record routing_state =
  rs_sessionId :: string
  rs_isSubagent :: bool
  rs_tokenSaverTier :: "string option"
  rs_stickyProvider :: "string option"
  rs_stickyModel :: "string option"
  rs_orchestrating :: bool
  rs_lastUsage :: "usage option"
  rs_updatedAt :: int

record router_slot =
  slot_state :: routing_state
  slot_expiresAt :: int

definition makeKey :: "string \<Rightarrow> bool \<Rightarrow> string" where
  "makeKey sessionId isSubagent = (if isSubagent then sessionId @ '':sub'' else sessionId)"

text \<open>The \<open>while\<close> loop of \<open>SessionRouterStore.set\<close>: drop the oldest entries until there is room.\<close>

function evict_while :: "nat \<Rightarrow> ('k \<times> 'v) list \<Rightarrow> ('k \<times> 'v) list" where
  "evict_while capacity m =
     (if capacity \<le> length m \<and> m \<noteq> [] then evict_while capacity (jdelete (fst (hd m)) m) else m)"
  by pat_completeness auto

lemma length_jdelete_hd: "m \<noteq> [] \<Longrightarrow> length (jdelete (fst (hd m)) m) < length m"
  by (cases m) (auto simp: AList.delete_eq le_imp_less_Suc)

termination evict_while
  by (relation "measure (\<lambda>(c, m). length m)") (auto dest: length_jdelete_hd)

declare evict_while.simps [simp del]

definition router_put :: "nat \<Rightarrow> string \<Rightarrow> router_slot \<Rightarrow> (string \<times> router_slot) list \<Rightarrow> (string \<times> router_slot) list" where
  "router_put capacity key slot m =
     (if jhas m key then jset key slot (jdelete key m)
      else jset key slot (evict_while capacity m))"

definition router_set ::
    "nat \<Rightarrow> int \<Rightarrow> int \<Rightarrow> routing_state \<Rightarrow> (string \<times> router_slot) list \<Rightarrow> (string \<times> router_slot) list" where
  "router_set capacity ttlMs now state m =
     router_put capacity (makeKey (rs_sessionId state) (rs_isSubagent state))
       \<lparr>slot_state = state, slot_expiresAt = now + ttlMs\<rparr> m"

definition router_get ::
    "int \<Rightarrow> string \<Rightarrow> bool \<Rightarrow> (string \<times> router_slot) list \<Rightarrow> routing_state option \<times> (string \<times> router_slot) list" where
  "router_get now sessionId isSubagent m =
     (let key = makeKey sessionId isSubagent
      in case jget m key of
           None \<Rightarrow> (None, m)
         | Some slot \<Rightarrow>
             if slot_expiresAt slot < now then (None, jdelete key m)
             else (Some (slot_state slot), jset key slot (jdelete key m)))"

definition router_delete :: "string \<Rightarrow> bool \<Rightarrow> (string \<times> router_slot) list \<Rightarrow> (string \<times> router_slot) list" where
  "router_delete sessionId isSubagent m = jdelete (makeKey sessionId isSubagent) m"

definition usage_get :: "string \<Rightarrow> (string \<times> usage) list \<Rightarrow> usage option" where
  "usage_get k m = jget m k"

text \<open>The calls on the three caches.\<close>

datatype ('k, 'v) lru_call = LruSet 'k 'v | LruGet 'k | LruDelete 'k | LruClear

fun lru_step :: "nat \<Rightarrow> ('k \<times> 'v) list \<Rightarrow> ('k, 'v) lru_call \<Rightarrow> ('k \<times> 'v) list" where
  "lru_step c m (LruSet k v) = lru_set c k v m"
| "lru_step c m (LruGet k) = snd (lru_get k m)"
| "lru_step c m (LruDelete k) = jdelete k m"
| "lru_step c m LruClear = []"

fun lru_use :: "('k, 'v) lru_call \<Rightarrow> ('k, 'v) cache_op" where
  "lru_use (LruSet k v) = Write k v"
| "lru_use (LruGet k) = Read k 0"
| "lru_use (LruDelete k) = Forget k"
| "lru_use LruClear = ForgetAll"

datatype usage_call = Observe string "usage option" | UsageClear

fun usage_step :: "nat \<Rightarrow> (string \<times> usage) list \<Rightarrow> usage_call \<Rightarrow> (string \<times> usage) list" where
  "usage_step c m (Observe k u) = usage_observe (usage_capacity c) k u m"
| "usage_step c m UsageClear = []"

fun usage_use :: "usage_call \<Rightarrow> (string, usage) cache_op list" where
  "usage_use (Observe k u) = (case u of None \<Rightarrow> [] | Some v \<Rightarrow> [Write k v])"
| "usage_use UsageClear = [ForgetAll]"

datatype router_call = StoreSet routing_state int | StoreGet string bool int | StoreDelete string bool | StoreClear

fun router_step :: "nat \<Rightarrow> int \<Rightarrow> (string \<times> router_slot) list \<Rightarrow> router_call \<Rightarrow> (string \<times> router_slot) list" where
  "router_step c ttl m (StoreSet st now) = router_set c ttl now st m"
| "router_step c ttl m (StoreGet sid sub now) = snd (router_get now sid sub m)"
| "router_step c ttl m (StoreDelete sid sub) = router_delete sid sub m"
| "router_step c ttl m StoreClear = []"

fun router_use :: "int \<Rightarrow> router_call \<Rightarrow> (string, router_slot) cache_op" where
  "router_use ttl (StoreSet st now) =
     Write (makeKey (rs_sessionId st) (rs_isSubagent st)) \<lparr>slot_state = st, slot_expiresAt = now + ttl\<rparr>"
| "router_use ttl (StoreGet sid sub now) = Read (makeKey sid sub) now"
| "router_use ttl (StoreDelete sid sub) = Forget (makeKey sid sub)"
| "router_use ttl StoreClear = ForgetAll"

definition slot_expired :: "router_slot \<Rightarrow> int \<Rightarrow> bool" where
  "slot_expired slot now \<longleftrightarrow> slot_expiresAt slot < now"

subsection \<open>They keep the contract\<close>

lemma jdelete_hd_tl: "distinct (jkeys m) \<Longrightarrow> m \<noteq> [] \<Longrightarrow> jdelete (fst (hd m)) m = tl m"
  by (cases m) (auto simp: AList.delete_eq filter_id_conv image_iff)

lemma jget_snoc: "k \<notin> set (jkeys m) \<Longrightarrow> jget (m @ [(k, v)]) j = (if j = k then Some v else jget m j)"
  by (metis jget_jset jset_new)

text \<open>The common shape of the three writes.\<close>

definition bounded_put :: "nat \<Rightarrow> 'k \<Rightarrow> 'v \<Rightarrow> ('k \<times> 'v) list \<Rightarrow> ('k \<times> 'v) list" where
  "bounded_put capacity k v m =
     (if k \<in> set (jkeys m) then jdelete k m @ [(k, v)]
      else if capacity \<le> length m \<and> m \<noteq> [] then tl m @ [(k, v)] else m @ [(k, v)])"

lemma bounded_put_contract: "0 < c \<Longrightarrow> bounded_store (bounded_put c) c"
proof
  fix m :: "('a \<times> 'b) list" and k v j
  assume c: "0 < c" and d: "distinct (jkeys m)" and l: "length m \<le> c"
  have less: "length (filter (\<lambda>j. j \<noteq> k) (jkeys m)) < length m" if "k \<in> set (jkeys m)"
    using that by (metis (mono_tags, lifting) length_filter_less length_map)
  show keys: "jkeys (bounded_put c k v m) = slice_last c (filter (\<lambda>j. j \<noteq> k) (jkeys m) @ [k])"
  proof (cases "k \<in> set (jkeys m)")
    case True
    have "slice_last c (filter (\<lambda>j. j \<noteq> k) (jkeys m) @ [k]) = filter (\<lambda>j. j \<noteq> k) (jkeys m) @ [k]"
      using less [OF True] l by (intro slice_last_all) simp
    then show ?thesis using True by (simp add: bounded_put_def jkeys_jdelete)
  next
    case False
    have f: "filter (\<lambda>j. j \<noteq> k) (jkeys m) = jkeys m" using False by (metis (mono_tags, lifting) filter_True)
    show ?thesis
    proof (cases "c \<le> length m \<and> m \<noteq> []")
      case True
      then have "length m = c" using l by simp
      then have "slice_last c (jkeys m @ [k]) = tl (jkeys m) @ [k]"
        using True by (cases m) (simp_all add: slice_last_def)
      then show ?thesis using True False f by (simp add: bounded_put_def map_tl)
    next
      case no: False
      have "length m < c"
      proof (cases m)
        case Nil
        then show ?thesis using c by simp
      next
        case (Cons e es)
        then show ?thesis using no l by simp
      qed
      then have "slice_last c (jkeys m @ [k]) = jkeys m @ [k]" by (intro slice_last_all) simp
      then show ?thesis using no False f by (auto simp: bounded_put_def)
    qed
  qed
  assume j: "j \<in> set (jkeys (bounded_put c k v m))"
  show "jget (bounded_put c k v m) j = (if j = k then Some v else jget m j)"
  proof (cases "k \<in> set (jkeys m)")
    case True
    then have "bounded_put c k v m = jset k v (jdelete k m)"
      by (simp add: bounded_put_def jset_new jkeys_jdelete)
    then show ?thesis by (simp only: jget_jset jget_jdelete if_cancel) simp
  next
    case False
    show ?thesis
    proof (cases "c \<le> length m \<and> m \<noteq> []")
      case True
      then obtain e es where m: "m = e # es" by (cases m) auto
      have eq: "bounded_put c k v m = es @ [(k, v)]" using True False m by (simp add: bounded_put_def)
      have "k \<notin> set (jkeys es)" using False m by simp
      moreover have "fst e \<noteq> j" if "j \<noteq> k" using j d that unfolding eq by (auto simp: m)
      ultimately show ?thesis unfolding eq by (cases e) (auto simp: m jget_snoc simp del: map_of_append)
    next
      case no: False
      then have "bounded_put c k v m = m @ [(k, v)]" using False by (auto simp: bounded_put_def)
      then show ?thesis using False by (simp add: jget_snoc del: map_of_append)
    qed
  qed
qed simp

lemma jset_delete_snoc: "jset k v (jdelete k m) = jdelete k m @ [(k, v)]"
  by (simp add: jset_new jkeys_jdelete)

lemma lru_set_bounded: "distinct (jkeys m) \<Longrightarrow> lru_set c k v m = bounded_put c k v m"
proof (cases "jhas m k")
  case True
  then show ?thesis by (simp add: lru_set_def bounded_put_def jset_delete_snoc jhas_iff)
next
  case False
  assume d: "distinct (jkeys m)"
  have "k \<notin> set (jkeys (tl m))" using False by (cases m) (auto simp: jhas_iff)
  then show ?thesis
    using False d by (auto simp: lru_set_def bounded_put_def jset_new jdelete_hd_tl jhas_iff)
qed

lemma usage_observe_bounded: "distinct (jkeys m) \<Longrightarrow> usage_observe c k (Some u) m = bounded_put c k u m"
proof -
  assume d: "distinct (jkeys m)"
  have "usage_observe c k (Some u) m = lru_set c k u m"
    by (simp add: usage_observe_def lru_set_def Let_def)
  then show ?thesis using lru_set_bounded [OF d] by metis
qed

lemma router_put_bounded:
  assumes "distinct (jkeys m)" and "length m \<le> c" and "0 < c"
  shows "router_put c k v m = bounded_put c k v m"
proof -
  have ev: "evict_while c m = (if c \<le> length m \<and> m \<noteq> [] then tl m else m)"
  proof (cases "c \<le> length m \<and> m \<noteq> []")
    case True
    then have "evict_while c m = evict_while c (tl m)"
      by (subst evict_while.simps) (simp add: jdelete_hd_tl [OF assms(1)])
    also have "\<dots> = tl m"
    proof (subst evict_while.simps)
      have "length (tl m) < c" using True assms(2,3) by (cases m) simp_all
      then show "(if c \<le> length (tl m) \<and> tl m \<noteq> [] then evict_while c (jdelete (fst (hd (tl m))) (tl m)) else tl m) = tl m"
        by simp
    qed
    finally show ?thesis using True by simp
  next
    case False
    then show ?thesis by (subst evict_while.simps) (simp only: if_False)
  qed
  have "k \<notin> set (jkeys (tl m))" if "k \<notin> set (jkeys m)" using that by (cases m) auto
  then show ?thesis
    by (auto simp: router_put_def bounded_put_def ev jset_new jset_delete_snoc jhas_iff)
qed

lemma bounded_store_cong:
  assumes "bounded_store put c" and "\<And>m k v. distinct (jkeys m) \<Longrightarrow> length m \<le> c \<Longrightarrow> put' k v m = put k v m"
  shows "bounded_store put' c"
proof
  fix m :: "('a \<times> 'b) list" and k v j
  show "0 < c" by (rule bounded_store.cap_pos [OF assms(1)])
  assume m: "distinct (jkeys m)" "length m \<le> c"
  show "jkeys (put' k v m) = slice_last c (filter (\<lambda>j. j \<noteq> k) (jkeys m) @ [k])"
    unfolding assms(2) [OF m] by (rule bounded_store.put_keys [OF assms(1) m])
  assume "j \<in> set (jkeys (put' k v m))"
  then show "jget (put' k v m) j = (if j = k then Some v else jget m j)"
    unfolding assms(2) [OF m] by (rule bounded_store.put_get [OF assms(1) m])
qed

interpretation lru: bounded_store "lru_set (Suc c)" "Suc c" for c
  by (rule bounded_store_cong [OF bounded_put_contract]) (simp_all add: lru_set_bounded)

interpretation usages: bounded_store "\<lambda>k u. usage_observe (usage_capacity c) k (Some u)" "usage_capacity c" for c
  by (rule bounded_store_cong [OF bounded_put_contract])
    (simp_all add: usage_observe_bounded usage_capacity_def)

interpretation routing: bounded_store "router_put (Suc c)" "Suc c" for c
  by (rule bounded_store_cong [OF bounded_put_contract]) (simp_all add: router_put_bounded)

text \<open>With their reads: those of the worktree map and of the routing store refresh, those of the usage cache do not;
  only the routing store's entries expire.\<close>

interpretation lru_cache: recency_cache "lru_set (Suc c)" "Suc c" "\<lambda>k now. lru_get k" id True "\<lambda>v now. False" for c
  by unfold_locales (simp_all add: lru_get_def)

interpretation usage_cache: recency_cache "\<lambda>k u. usage_observe (usage_capacity c) k (Some u)" "usage_capacity c"
    "\<lambda>k now m. (usage_get k m, m)" id False "\<lambda>v now. False" for c
  by unfold_locales (simp_all add: usage_get_def)

lemma makeKey_main [simp]: "makeKey k False = k"
  by (simp add: makeKey_def)

interpretation routing_cache: recency_cache "router_put (Suc c)" "Suc c" "\<lambda>k now. router_get now k False" slot_state True slot_expired
  for c
  by unfold_locales (simp_all add: router_get_def slot_expired_def)

lemma lru_run: "foldl (lru_step (Suc c)) m ops = foldl (lru_cache.cache_step c) m (map lru_use ops)"
proof (induction ops arbitrary: m)
  case (Cons p ops)
  then show ?case by (cases p) simp_all
qed simp

lemma usage_observe_None [simp]: "usage_observe c k None m = m"
  by (simp add: usage_observe_def)

lemma usage_run: "foldl (usage_step c) m ops = foldl (usage_cache.cache_step c) m (concat (map usage_use ops))"
proof (induction ops arbitrary: m)
  case (Cons p ops)
  have "usage_step c m p = foldl (usage_cache.cache_step c) m (usage_use p)" by (cases p) (simp_all split: option.split)
  then show ?case using Cons by simp
qed simp

lemma router_get_key: "router_get now sid sub m = router_get now (makeKey sid sub) False m"
  by (simp add: router_get_def)

lemma router_run: "foldl (router_step (Suc c) ttl) m ops = foldl (routing_cache.cache_step c) m (map (router_use ttl) ops)"
proof (induction ops arbitrary: m)
  case (Cons p ops)
  have "router_step (Suc c) ttl m p = routing_cache.cache_step c m (router_use ttl p)"
    by (cases p) (simp_all add: router_set_def router_delete_def, metis router_get_key)
  then show ?case using Cons by simp
qed simp

text \<open>C34. Each of the three caches holds what was used last. After any sequence of calls (writes, reads, deletions and
  clearings) the worktree map, the usage cache and the session routing store hold exactly the keys used last, at most
  their capacity, in the order of their last use, each with the value last written, where a write is a use, a read is
  one in the worktree map and the routing store if it finds the key held and not expired, and what is deleted, cleared or
  found expired is forgotten; and a read answers with the value last written under the key if the key is held (and, in
  the routing store, not past its time), and with nothing otherwise.\<close>

theorem caches_keep_most_recent:
  "(let m = foldl (lru_step (Suc c)) [] ls; (ks, vs) = uses (Suc c) True (\<lambda>_ _. False) (map lru_use ls)
    in jkeys m = held_keys (Suc c) ks \<and> map (jget m) (jkeys m) = map vs (held_keys (Suc c) ks)
       \<and> fst (lru_get j m) = (if j \<in> set (held_keys (Suc c) ks) then vs j else None))
   \<and> (let m = foldl (usage_step c) [] us; (ks, vs) = uses (usage_capacity c) False (\<lambda>_ _. False) (concat (map usage_use us))
    in jkeys m = held_keys (usage_capacity c) ks \<and> map (jget m) (jkeys m) = map vs (held_keys (usage_capacity c) ks)
       \<and> usage_get k m = (if k \<in> set (held_keys (usage_capacity c) ks) then vs k else None))
   \<and> (let m = foldl (router_step (Suc c) ttl) [] rs; (ks, vs) = uses (Suc c) True slot_expired (map (router_use ttl) rs);
          key = makeKey sid sub
    in jkeys m = held_keys (Suc c) ks \<and> map (jget m) (jkeys m) = map vs (held_keys (Suc c) ks)
       \<and> fst (router_get now sid sub m)
         = (if key \<in> set (held_keys (Suc c) ks) \<and> now \<le> slot_expiresAt (the (vs key)) then map_option slot_state (vs key) else None))"
proof (intro conjI)
  show "let m = foldl (lru_step (Suc c)) [] ls; (ks, vs) = uses (Suc c) True (\<lambda>_ _. False) (map lru_use ls)
    in jkeys m = held_keys (Suc c) ks \<and> map (jget m) (jkeys m) = map vs (held_keys (Suc c) ks)
       \<and> fst (lru_get j m) = (if j \<in> set (held_keys (Suc c) ks) then vs j else None)"
    using lru_cache.cache_run [where c = c and ops = "map lru_use ls" and k = j] by (simp add: lru_run option.map_id0 Let_def split: prod.splits)
next
  show "let m = foldl (usage_step c) [] us; (ks, vs) = uses (usage_capacity c) False (\<lambda>_ _. False) (concat (map usage_use us))
    in jkeys m = held_keys (usage_capacity c) ks \<and> map (jget m) (jkeys m) = map vs (held_keys (usage_capacity c) ks)
       \<and> usage_get k m = (if k \<in> set (held_keys (usage_capacity c) ks) then vs k else None)"
    using usage_cache.cache_run [where c = c and ops = "concat (map usage_use us)" and k = k] by (simp add: usage_run option.map_id0 Let_def split: prod.splits)
next
  show "let m = foldl (router_step (Suc c) ttl) [] rs; (ks, vs) = uses (Suc c) True slot_expired (map (router_use ttl) rs);
          key = makeKey sid sub
    in jkeys m = held_keys (Suc c) ks \<and> map (jget m) (jkeys m) = map vs (held_keys (Suc c) ks)
       \<and> fst (router_get now sid sub m)
         = (if key \<in> set (held_keys (Suc c) ks) \<and> now \<le> slot_expiresAt (the (vs key)) then map_option slot_state (vs key) else None)"
    unfolding router_get_key [of now sid sub] router_run
    using routing_cache.cache_run [where c = c and ops = "map (router_use ttl) rs" and k = "makeKey sid sub" and now = now]
    by (simp add: slot_expired_def not_less Let_def split: prod.splits)
qed

text \<open>The routing store never answers with an expired state: an answer is the state last stored under
  the key and not yet past its time, it becomes the most recent entry, and an expired entry is removed.\<close>

lemma router_get_fresh:
  "case router_get now sessionId isSubagent m of
     (Some st, m') \<Rightarrow> (\<exists>slot. jget m (makeKey sessionId isSubagent) = Some slot \<and> slot_state slot = st
                         \<and> now \<le> slot_expiresAt slot) \<and> last (jkeys m') = makeKey sessionId isSubagent
   | (None, m') \<Rightarrow> jget m' (makeKey sessionId isSubagent) = None"
  by (auto simp: router_get_def Let_def jget_jdelete jset_delete_snoc split: option.splits)

text \<open>The key of a session and of a subagent's session can collide.\<close>

lemma makeKey_collision: "makeKey (s @ '':sub'') False = makeKey s True"
  by (simp add: makeKey_def)

end
