(* ===== verification/RoutePlan.thy ===== *)
theory RoutePlan
  imports Caches
begin

text \<open>
  Which model a request goes to: \<open>RouterRuntime.decide\<close> with the parts it calls (\<open>scenario/\<close>,
  \<open>fallback/\<close>, \<open>utils/mediaRequirements.ts\<close>, \<open>utils/modelPricing.ts\<close>, \<open>tokenSaver/\<close>,
  \<open>orchestrate/\<close>). Parameters: the modalities of a model (\<open>getMultimodal\<close>, \<open>None\<close> where it throws), the
  tokenizer, \<open>JSON.stringify\<close>, the answers of the judge model by attempt, the answer of a custom router
  and the clock by reading. Costs are exact rationals where the code has doubles.
\<close>

section \<open>Model references and fallback plans\<close>

datatype scenario_type = DefaultScenario | SubagentScenario | ExplicitScenario

record model_ref =
  ref_id :: string
  ref_provider :: string
  ref_model :: string

definition ref_of :: "string \<Rightarrow> string \<Rightarrow> model_ref" where
  "ref_of provider model = \<lparr>ref_id = provider @ ''/'' @ model, ref_provider = provider, ref_model = model\<rparr>"

definition same_model :: "model_ref \<Rightarrow> model_ref \<Rightarrow> bool" where
  "same_model a b \<longleftrightarrow> ref_provider a = ref_provider b \<and> ref_model a = ref_model b"

text \<open>\<open>indexOf("/")\<close> and the two slices.\<close>

definition before_slash :: "string \<Rightarrow> string" where
  "before_slash s = takeWhile (\<lambda>c. c \<noteq> CHR ''/'') s"

definition after_slash :: "string \<Rightarrow> string" where
  "after_slash s = drop 1 (dropWhile (\<lambda>c. c \<noteq> CHR ''/'') s)"

definition parseProviderModelRef :: "string \<Rightarrow> model_ref" where
  "parseProviderModelRef v =
     (if CHR ''/'' \<in> set v then \<lparr>ref_id = v, ref_provider = before_slash v, ref_model = after_slash v\<rparr>
      else \<lparr>ref_id = v, ref_provider = [], ref_model = []\<rparr>)"

datatype ref_issue = RefInvalid | RefFormat | RefProviderNotFound | RefModelNotFound

text \<open>The model config, as far as references need it: the models of each provider.\<close>

definition resolveProviderRef :: "js_value \<Rightarrow> (string \<Rightarrow> string list option) \<Rightarrow> ref_issue + model_ref" where
  "resolveProviderRef raw providers =
     (case raw of
        JString s \<Rightarrow>
          if s = [] then Inl RefInvalid
          else (let r = parseProviderModelRef s
                in if ref_provider r = [] \<or> ref_model r = [] then Inl RefFormat
                   else (case providers (ref_provider r) of
                           None \<Rightarrow> Inl RefProviderNotFound
                         | Some models \<Rightarrow> if ref_model r \<in> set models then Inr r else Inl RefModelNotFound))
      | _ \<Rightarrow> Inl RefInvalid)"

record fallback_config =
  fb_default :: "model_ref list option"
  fb_subagent :: "model_ref list option"
  fb_explicit :: "model_ref list option"
  fb_maxFallbacks :: "int option"

fun fallback_entry :: "fallback_config \<Rightarrow> scenario_type \<Rightarrow> model_ref list option" where
  "fallback_entry fb DefaultScenario = fb_default fb"
| "fallback_entry fb SubagentScenario = fb_subagent fb"
| "fallback_entry fb ExplicitScenario = fb_explicit fb"

definition LITELLM_ROUTER_MAX_FALLBACKS :: int where
  "LITELLM_ROUTER_MAX_FALLBACKS = 5"

definition capFallbackAttempts :: "model_ref list \<Rightarrow> int option \<Rightarrow> model_ref list" where
  "capFallbackAttempts attempts maxFallbacks =
     (let cap = (case maxFallbacks of None \<Rightarrow> LITELLM_ROUTER_MAX_FALLBACKS | Some n \<Rightarrow> n)
      in if cap \<le> 0 then [] else take (nat cap) attempts)"

definition planFallback :: "fallback_config option \<Rightarrow> scenario_type \<Rightarrow> model_ref list" where
  "planFallback fallback scenario =
     (case fallback of
        None \<Rightarrow> []
      | Some fb \<Rightarrow>
          if scenario = ExplicitScenario then []
          else capFallbackAttempts
                 (case fallback_entry fb scenario of
                    Some rs \<Rightarrow> rs
                  | None \<Rightarrow> (case fb_default fb of Some rs \<Rightarrow> rs | None \<Rightarrow> []))
                 (fb_maxFallbacks fb))"

definition isFallbackEligible :: "model_error \<Rightarrow> bool" where
  "isFallbackEligible e \<longleftrightarrow>
     (if err_code e \<in> set [''invalid_tool_arguments''] then True
      else if err_code e \<in> set [''billing'', ''model_not_found'', ''auth_error''] then True
      else if \<not> err_retryable e then False
      else if err_recoverableViaCompact e = Some True then False
      else if err_recoverableViaImageStrip e = Some True then False
      else if err_code e = ''prompt_too_long'' \<or> err_code e = ''request_too_large''
                \<or> err_code e = ''context_overflow'' then False
      else True)"

section \<open>Media\<close>

datatype modality = TextModality | ImageModality | PdfModality | AudioModality

definition MEDIA_MODALITY_ORDER :: "modality list" where
  "MEDIA_MODALITY_ORDER = [ImageModality, PdfModality, AudioModality]"

fun result_modalities :: "result_block list \<Rightarrow> modality list" where
  "result_modalities [] = []"
| "result_modalities (RImage _ # bs) = ImageModality # result_modalities bs"
| "result_modalities (RPdf _ # bs) = PdfModality # result_modalities bs"
| "result_modalities (RText _ _ # bs) = result_modalities bs"

fun collectFromBlock :: "block \<Rightarrow> modality list" where
  "collectFromBlock (ImageB _) = [ImageModality]"
| "collectFromBlock (PdfB _) = [PdfModality]"
| "collectFromBlock (AudioB _) = [AudioModality]"
| "collectFromBlock (ToolResultB r) = result_modalities (tr_content r)"
| "collectFromBlock _ = []"

definition collectRequiredInputModalities :: "message list \<Rightarrow> modality list" where
  "collectRequiredInputModalities messages =
     (let required = concat (map (\<lambda>m. concat (map collectFromBlock (content m))) messages)
      in filter (\<lambda>d. d \<in> set required) MEDIA_MODALITY_ORDER)"

definition missingInputModalities :: "modality list \<Rightarrow> modality list \<Rightarrow> modality list" where
  "missingInputModalities input required = filter (\<lambda>d. d \<notin> set input) required"

type_synonym modalities = "string \<Rightarrow> string \<Rightarrow> modality list option"

definition missingForModel :: "modalities \<Rightarrow> model_ref \<Rightarrow> modality list \<Rightarrow> modality list" where
  "missingForModel getMultimodal r required =
     (if required = [] then []
      else (case getMultimodal (ref_provider r) (ref_model r) of
              Some input \<Rightarrow> missingInputModalities input required
            | None \<Rightarrow> required))"

definition supportsMediaRequirements :: "modalities \<Rightarrow> model_ref \<Rightarrow> modality list \<Rightarrow> bool" where
  "supportsMediaRequirements getMultimodal r required \<longleftrightarrow> missingForModel getMultimodal r required = []"

text \<open>The local \<open>add\<close> of \<open>fallbackCandidatesFor\<close>.\<close>

definition add_candidates :: "model_ref list \<Rightarrow> model_ref list option \<Rightarrow> model_ref list" where
  "add_candidates candidates refs =
     foldl (\<lambda>cs r. if list_ex (same_model r) cs then cs
                   else cs @ [r\<lparr>ref_id := (if ref_id r = [] then ref_provider r @ ''/'' @ ref_model r else ref_id r)\<rparr>])
       candidates (case refs of None \<Rightarrow> [] | Some rs \<Rightarrow> rs)"

definition fallbackCandidatesFor :: "fallback_config option \<Rightarrow> scenario_type \<Rightarrow> model_ref list" where
  "fallbackCandidatesFor fallback scenario =
     (case fallback of
        None \<Rightarrow> []
      | Some fb \<Rightarrow> add_candidates (add_candidates [] (fallback_entry fb scenario)) (fb_default fb))"

definition findCompatibleFallback ::
    "modalities \<Rightarrow> fallback_config option \<Rightarrow> scenario_type \<Rightarrow> modality list \<Rightarrow> model_ref option" where
  "findCompatibleFallback getMultimodal fallback scenario required =
     find (\<lambda>r. supportsMediaRequirements getMultimodal r required) (fallbackCandidatesFor fallback scenario)"

section \<open>Subagent tags\<close>

text \<open>\<open>SUBAGENT_TAG_PATTERN\<close>: the text before the tag, the text in it and the text after it. The pattern is
  case-insensitive and the group takes at least one character and as few as possible.\<close>

definition prefix_ci :: "string \<Rightarrow> string \<Rightarrow> bool" where
  "prefix_ci p s \<longleftrightarrow> prefix (toLowerCase p) (toLowerCase s)"

definition subagent_open :: "string list" where
  "subagent_open = [''<pilotdeck-subagent-model>'', ''<ccr-subagent-model>'']"

definition subagent_close :: "string list" where
  "subagent_close = [''</pilotdeck-subagent-model>'', ''</ccr-subagent-model>'']"

text \<open>The rest of the text after the first of some alternatives that is a prefix of it.\<close>

fun strip_any :: "string list \<Rightarrow> string \<Rightarrow> string option" where
  "strip_any [] s = None"
| "strip_any (p # ps) s = (if prefix_ci p s then Some (drop (length p) s) else strip_any ps s)"

fun until_close :: "string \<Rightarrow> (string \<times> string) option" where
  "until_close [] = None"
| "until_close (c # s) =
     (case strip_any subagent_close s of
        Some rest \<Rightarrow> Some ([c], rest)
      | None \<Rightarrow> map_option (\<lambda>(g, rest). (c # g, rest)) (until_close s))"

definition match_tag_here :: "string \<Rightarrow> (string \<times> string) option" where
  "match_tag_here s = (case strip_any subagent_open s of None \<Rightarrow> None | Some r \<Rightarrow> until_close r)"

fun find_tag :: "string \<Rightarrow> (string \<times> string \<times> string) option" where
  "find_tag [] = None"
| "find_tag (c # s) =
     (case match_tag_here (c # s) of
        Some (g, rest) \<Rightarrow> Some ([], g, rest)
      | None \<Rightarrow> map_option (\<lambda>(pre, g, rest). (c # pre, g, rest)) (find_tag s))"

text \<open>The hint of the last text block with a tag, over the task-bearing user messages.\<close>

fun block_hint :: "string option \<Rightarrow> block \<Rightarrow> string option" where
  "block_hint hint (TextB t _) = (case find_tag t of Some (_, g, _) \<Rightarrow> Some (trim g) | None \<Rightarrow> hint)"
| "block_hint hint _ = hint"

definition subagent_hint :: "message list \<Rightarrow> string option" where
  "subagent_hint messages =
     foldl (\<lambda>h m. if isRealUserRequestMessage m then foldl block_hint h (content m) else h) None messages"

text \<open>\<open>AGENT_TOOL_NAME_PATTERN\<close>\<close>

definition isAgentToolName :: "string \<Rightarrow> bool" where
  "isAgentToolName name \<longleftrightarrow>
     toLowerCase name \<in> set [''agent'', ''task'', ''launchagent'', ''launch_agent'', ''launch-agent'',
                             ''spawnagent'', ''spawn_agent'', ''spawn-agent'']"

text \<open>A tag was seen exactly if there is a hint, possibly empty.\<close>

record subagent_detection =
  sd_isSubagent :: bool
  sd_modelHint :: "string option"
  sd_missingAgentTool :: bool
  sd_taggedInUserMessage :: bool

definition detectSubagent :: "message list \<Rightarrow> string list option \<Rightarrow> bool \<Rightarrow> subagent_detection" where
  "detectSubagent messages tools isMainAgent =
     (let hint = subagent_hint messages; tagged = (hint \<noteq> None)
      in \<lparr>sd_isSubagent = (\<not> isMainAgent \<or> tagged), sd_modelHint = hint,
          sd_missingAgentTool = (case tools of None \<Rightarrow> False | Some names \<Rightarrow> \<not> list_ex isAgentToolName names),
          sd_taggedInUserMessage = tagged\<rparr>)"

fun strip_block :: "block \<Rightarrow> block" where
  "strip_block (TextB t p) =
     TextB (trimEnd (case find_tag t of Some (pre, _, rest) \<Rightarrow> pre @ rest | None \<Rightarrow> t)) p"
| "strip_block b = b"

definition stripSubagentTagFromMessages :: "message list \<Rightarrow> message list" where
  "stripSubagentTagFromMessages messages =
     map (\<lambda>m. if isRealUserRequestMessage m then m\<lparr>content := map strip_block (content m)\<rparr> else m) messages"

record scenario_resolution =
  sc_scenarioType :: scenario_type
  sc_selection :: "model_ref option"
  sc_isSubagent :: bool
  sc_subagentModelHint :: "string option"

text \<open>A property of an optional string is tested by \<open>if (s)\<close>: neither absent nor empty.\<close>

definition present :: "string option \<Rightarrow> bool" where
  "present s \<longleftrightarrow> (case s of None \<Rightarrow> False | Some t \<Rightarrow> t \<noteq> [])"

record decide_input =
  di_sessionId :: string
  di_isMainAgent :: bool
  di_messages :: "message list"
  di_tools :: "string list option"
  di_provider :: string
  di_model :: string
  di_explicitProvider :: "string option"
  di_explicitModel :: "string option"
  di_previousTier :: "string option"
  di_previousProvider :: "string option"
  di_previousModel :: "string option"

definition pair_ref :: "string option \<Rightarrow> string option \<Rightarrow> model_ref option" where
  "pair_ref p m = (if present p \<and> present m then Some (ref_of (the p) (the m)) else None)"

definition readExplicit :: "decide_input \<Rightarrow> model_ref option" where
  "readExplicit inp = pair_ref (di_explicitProvider inp) (di_explicitModel inp)"

definition decideScenario :: "decide_input \<Rightarrow> model_ref option \<Rightarrow> scenario_resolution" where
  "decideScenario inp scenarios_default =
     (case readExplicit inp of
        Some r \<Rightarrow> \<lparr>sc_scenarioType = ExplicitScenario, sc_selection = Some r,
                   sc_isSubagent = (\<not> di_isMainAgent inp), sc_subagentModelHint = None\<rparr>
      | None \<Rightarrow>
          (let sub = detectSubagent (di_messages inp) (di_tools inp) (di_isMainAgent inp)
           in if present (sd_modelHint sub)
              then \<lparr>sc_scenarioType = SubagentScenario, sc_selection = None, sc_isSubagent = True,
                    sc_subagentModelHint = sd_modelHint sub\<rparr>
              else \<lparr>sc_scenarioType = DefaultScenario, sc_selection = scenarios_default,
                    sc_isSubagent = sd_isSubagent sub, sc_subagentModelHint = sd_modelHint sub\<rparr>))"

section \<open>Prices\<close>

record pricing =
  pr_input :: "rat option"
  pr_output :: "rat option"
  pr_cacheRead :: "rat option"

definition newline_char :: "char \<Rightarrow> bool" where
  "newline_char c \<longleftrightarrow> c = CHR 0x0A \<or> c = CHR 0x0D"

text \<open>The patterns of the table are alternatives of literal parts separated by \<open>.*\<close>, case-insensitive:
  from here on, with a gap allowed before the next part.\<close>

fun gap_match :: "string list \<Rightarrow> string \<Rightarrow> bool" where
  "gap_match [] s = True"
| "gap_match (p # ps) [] = False"
| "gap_match (p # ps) (c # s) =
     ((prefix_ci p (c # s) \<and> gap_match ps (drop (length p) (c # s)))
      \<or> (\<not> newline_char c \<and> gap_match (p # ps) s))"

fun parts_match :: "string list \<Rightarrow> string \<Rightarrow> bool" where
  "parts_match [] s = True"
| "parts_match (p # ps) [] = False"
| "parts_match (p # ps) (c # s) =
     ((prefix_ci p (c # s) \<and> gap_match ps (drop (length p) (c # s))) \<or> parts_match (p # ps) s)"

definition priced :: "string list list \<Rightarrow> rat \<Rightarrow> rat \<Rightarrow> rat option \<Rightarrow> string list list \<times> pricing" where
  "priced alternatives i out c = (alternatives, \<lparr>pr_input = Some i, pr_output = Some out, pr_cacheRead = c\<rparr>)"

definition DEFAULT_PRICING :: "(string list list \<times> pricing) list" where
  "DEFAULT_PRICING =
     [priced [[''deepseek'', ''flash'']] (20/100) (60/100) None,
      priced [[''deepseek'', ''chat'']] (50/100) (150/100) None,
      priced [[''deepseek'', ''reasoner'']] (80/100) 2 None,
      priced [[''deepseek'', ''v3'']] (27/100) (110/100) None,
      priced [[''claude'', ''opus'']] 15 75 (Some (150/100)),
      priced [[''claude'', ''sonnet'']] 3 15 (Some (30/100)),
      priced [[''claude'', ''haiku'']] (80/100) 4 (Some (8/100)),
      priced [[''gpt-4o-mini'']] (15/100) (60/100) (Some (75/1000)),
      priced [[''gpt-4o'']] (250/100) 10 (Some (125/100)),
      priced [[''gpt-4.1'']] 2 8 (Some (50/100)),
      priced [[''gpt-5'']] 2 8 (Some (50/100)),
      priced [[''o1-mini''], [''o3-mini''], [''o4-mini'']] (110/100) (440/100) None,
      priced [[''o1-pro''], [''o3-pro''], [''o4-pro'']] 10 40 None,
      priced [[''o1''], [''o3''], [''o4'']] (250/100) 10 None,
      priced [[''gemini'', ''flash'']] (10/100) (40/100) None,
      priced [[''gemini'', ''pro'']] (125/100) 5 None,
      priced [[''glm'']] (50/100) 1 None,
      priced [[''qwen'', ''turbo'']] (30/100) (60/100) None,
      priced [[''qwen'', ''plus'']] (80/100) 2 None,
      priced [[''qwen'', ''max'']] 2 6 None,
      priced [[''qwen'']] (50/100) (150/100) None,
      priced [[''llama'', ''70b'']] (80/100) (80/100) None,
      priced [[''llama'', ''405b'']] 3 3 None,
      priced [[''llama'']] (20/100) (20/100) None,
      priced [[''mistral'', ''large'']] 2 6 None,
      priced [[''mistral'', ''small'']] (10/100) (30/100) None,
      priced [[''mistral'']] (25/100) (25/100) None,
      priced [[''yi-'']] (30/100) (30/100) None,
      priced [[''moonshot''], [''kimi'']] 1 2 None,
      priced [[''doubao'']] (40/100) (80/100) None]"

definition FALLBACK_PRICING :: pricing where
  "FALLBACK_PRICING = \<lparr>pr_input = Some (50/100), pr_output = Some (150/100), pr_cacheRead = None\<rparr>"

definition lookupModelPricing :: "string \<Rightarrow> string \<Rightarrow> (string \<times> pricing) list option \<Rightarrow> pricing" where
  "lookupModelPricing provider model modelPricing =
     (let combined = provider @ ''/'' @ model;
          table = (case find (\<lambda>(alts, _). list_ex (\<lambda>ps. parts_match ps combined) alts
                                \<or> list_ex (\<lambda>ps. parts_match ps model) alts) DEFAULT_PRICING of
                     Some (_, p) \<Rightarrow> p
                   | None \<Rightarrow> FALLBACK_PRICING)
      in case modelPricing of
           None \<Rightarrow> table
         | Some mp \<Rightarrow>
             (case jget mp combined of
                Some p \<Rightarrow> p
              | None \<Rightarrow>
                  (case find (\<lambda>(key, _). str_includes model key \<or> str_includes key model) mp of
                     Some (_, p) \<Rightarrow> p
                   | None \<Rightarrow> table)))"

definition calculateInputCost :: "int \<Rightarrow> string \<Rightarrow> string \<Rightarrow> (string \<times> pricing) list option \<Rightarrow> rat" where
  "calculateInputCost tokens provider model modelPricing =
     (of_int tokens / 1000000)
     * (case pr_input (lookupModelPricing provider model modelPricing) of None \<Rightarrow> 0 | Some r \<Rightarrow> r)"

definition calculateCacheReadCost :: "int \<Rightarrow> string \<Rightarrow> string \<Rightarrow> (string \<times> pricing) list option \<Rightarrow> rat" where
  "calculateCacheReadCost tokens provider model modelPricing =
     (of_int tokens / 1000000)
     * (let p = lookupModelPricing provider model modelPricing
        in case pr_cacheRead p of Some r \<Rightarrow> r | None \<Rightarrow> (case pr_input p of None \<Rightarrow> 0 | Some r \<Rightarrow> r))"

section \<open>The judge\<close>

fun extract_last :: "message list \<Rightarrow> string option" where
  "extract_last [] = None"
| "extract_last (m # ms) =
     (let text = trim (join [CHR 0x0A] (concat (map (\<lambda>b. case b of TextB t _ \<Rightarrow> [t] | _ \<Rightarrow> []) (content m))))
      in if isRealUserRequestMessage m \<and> text \<noteq> [] then Some text else extract_last ms)"

definition extractLastUserMessage :: "message list \<Rightarrow> string option" where
  "extractLastUserMessage messages = extract_last (rev messages)"

definition fence :: string where
  "fence = [CHR 0x60, CHR 0x60, CHR 0x60]"

definition drop_newline :: "string \<Rightarrow> string" where
  "drop_newline s = (case s of [] \<Rightarrow> [] | c # r \<Rightarrow> if c = CHR 0x0A then r else s)"

definition is_az :: "char \<Rightarrow> bool" where
  "is_az c \<longleftrightarrow> (let n = of_char c :: nat in 97 \<le> n \<and> n \<le> 122)"

text \<open>The two \<open>replace\<close> calls: a fence with its language tag and line break, then any fence left.\<close>

function strip_lang_fences :: "string \<Rightarrow> string" where
  "strip_lang_fences s =
     (case s of
        [] \<Rightarrow> []
      | c # r \<Rightarrow> if prefix fence s then strip_lang_fences (drop_newline (dropWhile is_az (drop 3 s)))
                 else c # strip_lang_fences r)"
  by pat_completeness auto

lemma length_drop_newline: "length (drop_newline s) \<le> length s"
  by (simp add: drop_newline_def split: list.split)

termination strip_lang_fences
proof (relation "measure length", goal_cases)
  case (2 s c r)
  have "length (drop_newline (dropWhile is_az (drop 3 s))) \<le> length (drop 3 s)"
    using length_drop_newline length_dropWhile_le le_trans by blast
  also have "\<dots> < length s" using 2 by simp
  finally show ?case by simp
qed auto

function strip_fences :: "string \<Rightarrow> string" where
  "strip_fences s =
     (case s of
        [] \<Rightarrow> []
      | c # r \<Rightarrow> if prefix fence s then strip_fences (drop 3 s) else c # strip_fences r)"
  by pat_completeness auto
termination strip_fences by (relation "measure length") auto

declare strip_lang_fences.simps [simp del] strip_fences.simps [simp del]

definition tier_char :: "char \<Rightarrow> bool" where
  "tier_char c \<longleftrightarrow> (let n = of_char (lower_char c) :: nat
     in (97 \<le> n \<and> n \<le> 122) \<or> (48 \<le> n \<and> n \<le> 57) \<or> n = 95 \<or> n = 45)"

definition tier_tag_here :: "string \<Rightarrow> string option" where
  "tier_tag_here s =
     (if prefix_ci ''<tier>'' s
      then (let r = trimStart (drop 6 s); name = takeWhile tier_char r
            in if name \<noteq> [] \<and> prefix_ci ''</tier>'' (trimStart (dropWhile tier_char r)) then Some name else None)
      else None)"

fun tier_tag :: "string \<Rightarrow> string option" where
  "tier_tag [] = None"
| "tier_tag (c # s) = (case tier_tag_here (c # s) of Some t \<Rightarrow> Some t | None \<Rightarrow> tier_tag s)"

definition word_char :: "char \<Rightarrow> bool" where
  "word_char c \<longleftrightarrow> (let n = of_char c :: nat
     in (97 \<le> n \<and> n \<le> 122) \<or> (65 \<le> n \<and> n \<le> 90) \<or> (48 \<le> n \<and> n \<le> 57) \<or> n = 95)"

definition next_word :: "string \<Rightarrow> bool" where
  "next_word s = (case s of [] \<Rightarrow> False | c # _ \<Rightarrow> word_char c)"

text \<open>\<open>\<backslash>b\<close>, the tier, \<open>\<backslash>b\<close>; the flag tells whether the previous character is a word character.\<close>

definition word_here :: "string \<Rightarrow> bool \<Rightarrow> string \<Rightarrow> bool" where
  "word_here t before s \<longleftrightarrow>
     prefix_ci t s \<and> before \<noteq> next_word s
     \<and> (if t = [] then before else word_char (s ! (length t - 1))) \<noteq> next_word (drop (length t) s)"

fun has_word :: "string \<Rightarrow> bool \<Rightarrow> string \<Rightarrow> bool" where
  "has_word t before [] = word_here t before []"
| "has_word t before (c # s) = (word_here t before (c # s) \<or> has_word t (word_char c) s)"

definition parseTier :: "string \<Rightarrow> string list \<Rightarrow> string option" where
  "parseTier judgeOutput knownTiers =
     (let cleaned = trim (strip_fences (strip_lang_fences judgeOutput));
          tagged = (case tier_tag cleaned of
                      None \<Rightarrow> None
                    | Some cand \<Rightarrow> find (\<lambda>t. toLowerCase t = toLowerCase cand) knownTiers);
          exact = find (\<lambda>t. toLowerCase t = toLowerCase cleaned) knownTiers
      in if present tagged then tagged
         else if present exact then exact
         else find (\<lambda>t. has_word t False cleaned) (sort_key (\<lambda>t. - int (length t)) knownTiers))"

record token_saver_config =
  ts_enabled :: bool
  ts_defaultTier :: string
  ts_tiers :: "(string \<times> model_ref) list"
  ts_subagentSkip :: bool
  ts_cacheAware :: "(bool \<times> rat) option"

datatype judge_answer =
    JudgeText string
  | JudgeTimeout
  | JudgeProviderError bool
  | JudgeRequestError
  | JudgeOtherError
  | JudgeAborted

datatype failure_reason = TimeoutFailure | ModelFailure | ParseFailure

datatype tier_source = FromJudge | FromDefault | FromFallback

record token_saver_decision =
  td_tier :: string
  td_selection :: model_ref
  td_resolvedFrom :: tier_source
  td_failure :: "(failure_reason \<times> nat) option"

definition shouldRetryJudgeFailure :: "judge_answer \<Rightarrow> bool" where
  "shouldRetryJudgeFailure a =
     (case a of JudgeTimeout \<Rightarrow> False | JudgeRequestError \<Rightarrow> False | JudgeProviderError retryable \<Rightarrow> retryable | _ \<Rightarrow> True)"

definition judge_failed :: "token_saver_config \<Rightarrow> model_ref \<Rightarrow> failure_reason \<Rightarrow> nat \<Rightarrow> token_saver_decision" where
  "judge_failed cfg d reason attempts =
     \<lparr>td_tier = ts_defaultTier cfg, td_selection = d, td_resolvedFrom = FromFallback, td_failure = Some (reason, attempts)\<rparr>"

text \<open>The attempts of the judge from \<open>attempt\<close> on, with so many left; \<open>None\<close> when the turn is aborted.\<close>

fun judge_loop ::
    "token_saver_config \<Rightarrow> model_ref \<Rightarrow> (nat \<Rightarrow> judge_answer) \<Rightarrow> nat \<Rightarrow> nat \<Rightarrow> token_saver_decision option" where
  "judge_loop cfg d judge attempt 0 = Some (judge_failed cfg d ParseFailure (attempt - 1))"
| "judge_loop cfg d judge attempt (Suc left) =
     (case judge attempt of
        JudgeAborted \<Rightarrow> None
      | JudgeText text \<Rightarrow>
          (let tier = (if text = [] then None else parseTier text (map fst (ts_tiers cfg)))
           in if \<not> present tier
              then (if 0 < left then judge_loop cfg d judge (attempt + 1) left
                    else Some (judge_failed cfg d ParseFailure attempt))
              else (case jget (ts_tiers cfg) (the tier) of
                      None \<Rightarrow> Some (judge_failed cfg d ParseFailure attempt)
                    | Some m \<Rightarrow> Some \<lparr>td_tier = the tier, td_selection = m, td_resolvedFrom = FromJudge, td_failure = None\<rparr>))
      | answer \<Rightarrow>
          if 0 < left \<and> shouldRetryJudgeFailure answer then judge_loop cfg d judge (attempt + 1) left
          else Some (judge_failed cfg d (if answer = JudgeTimeout then TimeoutFailure else ModelFailure) attempt))"

text \<open>\<open>Inl\<close> is the abort; \<open>Inr None\<close> is no decision.\<close>

definition classifyAndRoute ::
    "token_saver_config \<Rightarrow> message list \<Rightarrow> (nat \<Rightarrow> judge_answer) \<Rightarrow> unit + token_saver_decision option" where
  "classifyAndRoute cfg messages judge =
     (if \<not> ts_enabled cfg then Inr None
      else (case jget (ts_tiers cfg) (ts_defaultTier cfg) of
              None \<Rightarrow> Inr None
            | Some d \<Rightarrow>
                (case extractLastUserMessage messages of
                   None \<Rightarrow> Inr (Some \<lparr>td_tier = ts_defaultTier cfg, td_selection = d, td_resolvedFrom = FromDefault,
                                       td_failure = None\<rparr>)
                 | Some _ \<Rightarrow>
                     (case judge_loop cfg d judge 1 3 of None \<Rightarrow> Inl () | Some r \<Rightarrow> Inr (Some r)))))"

section \<open>Orchestration\<close>

record orchestrate_config =
  oc_enabled :: bool
  oc_triggerTiers :: "string list"
  oc_subagentMaxTokens :: "int option"

text \<open>The applied mutation (tier and whether it continues), or \<open>None\<close> when orchestration does not apply.\<close>

definition applyOrchestration :: "orchestrate_config \<Rightarrow> bool \<Rightarrow> string option \<Rightarrow> bool \<Rightarrow> (string \<times> bool) option" where
  "applyOrchestration cfg isMainAgent tier alreadyOrchestrating =
     (if \<not> oc_enabled cfg \<or> \<not> isMainAgent then None
      else if \<not> alreadyOrchestrating \<and> oc_triggerTiers cfg \<noteq> []
              \<and> (\<not> present tier \<or> the tier \<notin> set (oc_triggerTiers cfg)) then None
      else Some ((case tier of None \<Rightarrow> ''main'' | Some t \<Rightarrow> t), alreadyOrchestrating))"

section \<open>The decision\<close>

datatype resolution = ByExplicit | ByScenario | ByTokenSaver | ByCustom | ByFallback

datatype cache_switch = KeptSticky string string rat rat int | Switched string string rat rat int

record mutations_log =
  mu_orchestrationActivated :: "(string \<times> bool) option"
  mu_subagentTagStripped :: bool
  mu_mediaCapabilityRerouted :: "(modality list \<times> string \<times> string) option"
  mu_cacheAwareSwitch :: "cache_switch option"

definition no_mutations :: mutations_log where
  "no_mutations = \<lparr>mu_orchestrationActivated = None, mu_subagentTagStripped = False,
     mu_mediaCapabilityRerouted = None, mu_cacheAwareSwitch = None\<rparr>"

record decision =
  de_provider :: string
  de_model :: string
  de_scenarioType :: scenario_type
  de_tokenSaverTier :: "string option"
  de_isSubagent :: bool
  de_orchestrating :: bool
  de_resolvedFrom :: resolution
  de_mutations :: mutations_log

record router_config =
  rc_enabled :: bool
  rc_default :: "model_ref option"
  rc_fallback :: "fallback_config option"
  rc_tokenSaver :: "token_saver_config option"
  rc_autoOrchestrate :: "orchestrate_config option"
  rc_modelPricing :: "(string \<times> pricing) list option"
  rc_storeCapacity :: nat
  rc_storeTtlMs :: int

record router_deps =
  getMultimodal :: modalities
  tokenCount :: "string \<Rightarrow> int"
  jsonStringify :: "js_value \<Rightarrow> string"

fun countable_text :: "(js_value \<Rightarrow> string) \<Rightarrow> block \<Rightarrow> string list" where
  "countable_text js (TextB t _) = [t]"
| "countable_text js (ThinkingB th) = [th_text th]"
| "countable_text js (ToolCallB c) =
     (case tc_input c of JUndefined \<Rightarrow> [] | JString s \<Rightarrow> [s] | v \<Rightarrow> [js v])"
| "countable_text js (ToolResultB r) = [flattenToolResultBlockText r]"
| "countable_text js _ = []"

definition countMessagesTokens :: "router_deps \<Rightarrow> message list \<Rightarrow> int" where
  "countMessagesTokens deps messages =
     tokenCount deps (join [CHR 0x0A] (concat (map (\<lambda>m. concat (map (countable_text (jsonStringify deps)) (content m))) messages)))"

definition NUMBER_EPSILON :: rat where
  "NUMBER_EPSILON = 1 / 2 ^ 52"

definition maybePreserveStickyForCache ::
    "router_config \<Rightarrow> router_deps \<Rightarrow> model_ref option \<Rightarrow> model_ref \<Rightarrow> message list \<Rightarrow> usage option
      \<Rightarrow> model_ref \<times> cache_switch option" where
  "maybePreserveStickyForCache cfg deps current nxt messages lastUsage =
     (let cacheAware = (case rc_tokenSaver cfg of None \<Rightarrow> None | Some ts \<Rightarrow> ts_cacheAware ts)
      in case current of
           None \<Rightarrow> (nxt, None)
         | Some cur \<Rightarrow>
             if map_option fst cacheAware = Some False \<or> same_model cur nxt then (nxt, None)
             else (let estimated = countMessagesTokens deps messages;
                       zero_or = (\<lambda>f. case lastUsage of None \<Rightarrow> 0
                                        | Some u \<Rightarrow> (case f u of None \<Rightarrow> 0 | Some n \<Rightarrow> n));
                       observedInput = (zero_or inputTokens :: int);
                       observedRead = (zero_or cacheReadTokens :: int);
                       ratio = (if 0 < observedInput then min 1 (max 0 (of_int observedRead / of_int observedInput)) else 0 :: rat)
                   in if ratio \<le> 0 then (nxt, None)
                      else (let cacheRead = \<lfloor>of_int estimated * ratio\<rfloor>;
                                uncached = max 0 (estimated - cacheRead);
                                cachedCost = calculateCacheReadCost cacheRead (ref_provider cur) (ref_model cur) (rc_modelPricing cfg)
                                  + calculateInputCost uncached (ref_provider cur) (ref_model cur) (rc_modelPricing cfg);
                                prefillCost = calculateInputCost estimated (ref_provider nxt) (ref_model nxt) (rc_modelPricing cfg);
                                required = cachedCost * (case cacheAware of None \<Rightarrow> 0 | Some (_, r) \<Rightarrow> r);
                                from = ref_provider cur @ ''/'' @ ref_model cur;
                                to = ref_provider nxt @ ''/'' @ ref_model nxt
                            in if prefillCost + NUMBER_EPSILON < cachedCost - required
                               then (nxt, Some (Switched from to cachedCost prefillCost estimated))
                               else (cur, Some (KeptSticky from to cachedCost prefillCost estimated)))))"

definition rerouteDecisionForMedia ::
    "router_config \<Rightarrow> router_deps \<Rightarrow> message list \<Rightarrow> decision \<Rightarrow> decision" where
  "rerouteDecisionForMedia cfg deps messages d =
     (let required = collectRequiredInputModalities messages;
          selected = ref_of (de_provider d) (de_model d)
      in if required = [] \<or> supportsMediaRequirements (getMultimodal deps) selected required then d
         else (case findCompatibleFallback (getMultimodal deps) (rc_fallback cfg) (de_scenarioType d) required of
                 None \<Rightarrow> d
               | Some r \<Rightarrow>
                   d\<lparr>de_provider := ref_provider r, de_model := ref_model r, de_resolvedFrom := ByFallback,
                     de_mutations := (de_mutations d)\<lparr>mu_mediaCapabilityRerouted :=
                       Some (required, ref_id selected,
                             (if ref_id r = [] then ref_provider r @ ''/'' @ ref_model r else ref_id r))\<rparr>\<rparr>))"

text \<open>What the stages of \<open>decide\<close> pass on: the selection, its origin, the tier, the cache decision.\<close>

record choice =
  ch_selection :: "model_ref option"
  ch_resolvedFrom :: resolution
  ch_tier :: "string option"
  ch_cacheSwitch :: "cache_switch option"

type_synonym router_store = "(string \<times> router_slot) list"

definition sticky_ref :: "routing_state option \<Rightarrow> model_ref option" where
  "sticky_ref s = (case s of None \<Rightarrow> None | Some st \<Rightarrow> pair_ref (rs_stickyProvider st) (rs_stickyModel st))"

definition sticky_tier :: "routing_state option \<Rightarrow> string option" where
  "sticky_tier s = (case s of None \<Rightarrow> None | Some st \<Rightarrow> rs_tokenSaverTier st)"

definition hasConversationHistory :: "message list \<Rightarrow> bool" where
  "hasConversationHistory messages \<longleftrightarrow>
     1 < length (filter (\<lambda>m. case metadata m of None \<Rightarrow> True | Some md \<Rightarrow> md_synthetic md \<noteq> Some True) messages)"

text \<open>The judge's answer, then the cache-aware switch; \<open>Inl\<close> is the abort.\<close>

definition judged_choice ::
    "router_config \<Rightarrow> router_deps \<Rightarrow> token_saver_config \<Rightarrow> decide_input \<Rightarrow> (nat \<Rightarrow> judge_answer) \<Rightarrow> usage option
      \<Rightarrow> routing_state option \<Rightarrow> choice \<Rightarrow> unit + choice" where
  "judged_choice cfg deps ts inp judge baseUsage sticky ch =
     (case classifyAndRoute ts (di_messages inp) judge of
        Inl u \<Rightarrow> Inl u
      | Inr None \<Rightarrow> Inr ch
      | Inr (Some td) \<Rightarrow>
          (let previous = (case pair_ref (di_previousProvider inp) (di_previousModel inp) of
                             Some r \<Rightarrow> Some r | None \<Rightarrow> sticky_ref sticky);
               (sel, switch) = maybePreserveStickyForCache cfg deps previous (td_selection td) (di_messages inp) baseUsage
           in Inr \<lparr>ch_selection = Some sel, ch_resolvedFrom = ByTokenSaver,
                   ch_tier = (case switch of
                                Some (KeptSticky _ _ _ _ _) \<Rightarrow>
                                  (case sticky_tier sticky of
                                     Some t \<Rightarrow> Some t
                                   | None \<Rightarrow> (case di_previousTier inp of Some t \<Rightarrow> Some t | None \<Rightarrow> Some (td_tier td)))
                              | _ \<Rightarrow> Some (td_tier td)),
                   ch_cacheSwitch = switch\<rparr>))"

text \<open>The token saver: a sticky model of the session first, the judge otherwise. Both readings of the
  store ask for the caller's own session, main or subagent.\<close>

definition token_saver_choice ::
    "router_config \<Rightarrow> router_deps \<Rightarrow> decide_input \<Rightarrow> (nat \<Rightarrow> judge_answer) \<Rightarrow> int \<Rightarrow> usage option
      \<Rightarrow> routing_state option \<Rightarrow> bool \<Rightarrow> choice \<Rightarrow> router_store \<Rightarrow> (unit + choice) \<times> router_store" where
  "token_saver_choice cfg deps inp judge now baseUsage sticky overridden ch store =
     (case rc_tokenSaver cfg of
        None \<Rightarrow> (Inr ch, store)
      | Some ts \<Rightarrow>
          if overridden \<or> \<not> ts_enabled ts \<or> \<not> (di_isMainAgent inp \<or> \<not> ts_subagentSkip ts) then (Inr ch, store)
          else if hasConversationHistory (di_messages inp)
          then (let (st, store') = router_get now (di_sessionId inp) (\<not> di_isMainAgent inp) store
                in case sticky_ref st of
                     Some r \<Rightarrow> (Inr \<lparr>ch_selection = Some r, ch_resolvedFrom = ByTokenSaver,
                                      ch_tier = sticky_tier st, ch_cacheSwitch = None\<rparr>, store')
                   | None \<Rightarrow> (judged_choice cfg deps ts inp judge baseUsage sticky ch, store'))
          else (judged_choice cfg deps ts inp judge baseUsage sticky ch, store))"

datatype decide_error = DecideAborted | NoDefaultScenario

text \<open>The end of the selection: the hint of a subagent tag, then the default model.\<close>

definition final_selection ::
    "router_config \<Rightarrow> scenario_resolution \<Rightarrow> choice \<Rightarrow> model_ref option \<times> resolution \<times> scenario_type" where
  "final_selection cfg sc ch =
     (let hinted = (case ch_selection ch of
                      Some r \<Rightarrow> (Some r, ch_resolvedFrom ch)
                    | None \<Rightarrow>
                        (if present (sc_subagentModelHint sc)
                         then (let h = the (sc_subagentModelHint sc)
                               in if CHR ''/'' \<in> set h \<and> before_slash h \<noteq> [] \<and> after_slash h \<noteq> []
                                  then (Some \<lparr>ref_id = h, ref_provider = before_slash h, ref_model = after_slash h\<rparr>, ByExplicit)
                                  else (None, ch_resolvedFrom ch))
                         else (None, ch_resolvedFrom ch)))
      in case hinted of
           (Some r, from) \<Rightarrow> (Some r, from, sc_scenarioType sc)
         | (None, from) \<Rightarrow> (rc_default cfg, from,
              if sc_scenarioType sc = ExplicitScenario then ExplicitScenario else DefaultScenario))"

definition orchestrated_decision ::
    "router_config \<Rightarrow> decide_input \<Rightarrow> routing_state option \<Rightarrow> scenario_resolution \<Rightarrow> choice \<Rightarrow> model_ref \<Rightarrow> resolution
      \<Rightarrow> scenario_type \<Rightarrow> decision" where
  "orchestrated_decision cfg inp sticky sc ch sel from scenario =
     (let already = (case sticky of None \<Rightarrow> False | Some st \<Rightarrow> rs_orchestrating st);
          active = ((case rc_tokenSaver cfg of None \<Rightarrow> False | Some ts \<Rightarrow> ts_enabled ts) \<and> ch_tier ch \<noteq> None);
          orch = (case rc_autoOrchestrate cfg of
                    None \<Rightarrow> None
                  | Some oc \<Rightarrow> if oc_enabled oc \<and> (active \<or> already)
                               then applyOrchestration oc (di_isMainAgent inp) (ch_tier ch) already else None)
      in \<lparr>de_provider = ref_provider sel, de_model = ref_model sel, de_scenarioType = scenario,
          de_tokenSaverTier = ch_tier ch, de_isSubagent = sc_isSubagent sc, de_orchestrating = (orch \<noteq> None),
          de_resolvedFrom = from,
          de_mutations = no_mutations\<lparr>mu_cacheAwareSwitch := ch_cacheSwitch ch, mu_orchestrationActivated := orch,
            mu_subagentTagStripped := (present (sc_subagentModelHint sc) \<or> sc_isSubagent sc)\<rparr>\<rparr>)"

text \<open>The state \<open>decide\<close> stores for the session.\<close>

definition stored_decision :: "decide_input \<Rightarrow> routing_state option \<Rightarrow> int \<Rightarrow> decision \<Rightarrow> routing_state" where
  "stored_decision inp sticky updatedAt d =
     \<lparr>rs_sessionId = di_sessionId inp, rs_isSubagent = (\<not> di_isMainAgent inp),
      rs_tokenSaverTier = de_tokenSaverTier d, rs_stickyProvider = Some (de_provider d),
      rs_stickyModel = Some (de_model d), rs_orchestrating = de_orchestrating d,
      rs_lastUsage = (case sticky of None \<Rightarrow> None | Some st \<Rightarrow> rs_lastUsage st), rs_updatedAt = updatedAt\<rparr>"

text \<open>The custom router's model, else the scenario's.\<close>

definition first_choice :: "(string option \<times> string option) option \<Rightarrow> scenario_resolution \<Rightarrow> choice" where
  "first_choice custom sc =
     (let (prov, mdl) = (case custom of None \<Rightarrow> (None, None) | Some pm \<Rightarrow> pm)
      in \<lparr>ch_selection = (case pair_ref prov mdl of Some r \<Rightarrow> Some r | None \<Rightarrow> sc_selection sc),
          ch_resolvedFrom = (if present prov then ByCustom
                             else if sc_scenarioType sc = ExplicitScenario then ByExplicit else ByScenario),
          ch_tier = None, ch_cacheSwitch = None\<rparr>)"

definition finish_decision ::
    "router_config \<Rightarrow> router_deps \<Rightarrow> bool \<Rightarrow> int \<Rightarrow> int \<Rightarrow> decide_input \<Rightarrow> routing_state option \<Rightarrow> scenario_resolution
      \<Rightarrow> choice \<Rightarrow> router_store \<Rightarrow> (decide_error + decision) \<times> router_store" where
  "finish_decision cfg deps aborted updatedAt now inp sticky sc ch store =
     (case final_selection cfg sc ch of
        (None, _, _) \<Rightarrow> (Inl NoDefaultScenario, store)
      | (Some sel, from, scenario) \<Rightarrow>
          (let d = rerouteDecisionForMedia cfg deps (di_messages inp)
                     (orchestrated_decision cfg inp sticky sc ch sel from scenario)
           in if aborted then (Inl DecideAborted, store)
              else (Inr d, router_set (rc_storeCapacity cfg) (rc_storeTtlMs cfg) now
                             (stored_decision inp sticky updatedAt d) store)))"

text \<open>\<open>aborted n\<close> is the signal at the n-th check, \<open>clock n\<close> the n-th reading of the clock; \<open>custom\<close> is what
  the custom router answered, if one is configured and did not throw.\<close>

definition decide ::
    "router_config \<Rightarrow> router_deps \<Rightarrow> (nat \<Rightarrow> bool) \<Rightarrow> (nat \<Rightarrow> int) \<Rightarrow> (string option \<times> string option) option
      \<Rightarrow> (nat \<Rightarrow> judge_answer) \<Rightarrow> (string \<times> usage) list \<Rightarrow> decide_input \<Rightarrow> router_store
      \<Rightarrow> (decide_error + decision) \<times> router_store" where
  "decide cfg deps aborted clock custom judge usages inp store =
     (if aborted 0 then (Inl DecideAborted, store)
      else if \<not> rc_enabled cfg then
        (Inr \<lparr>de_provider = di_provider inp, de_model = di_model inp, de_scenarioType = DefaultScenario,
              de_tokenSaverTier = None, de_isSubagent = (\<not> di_isMainAgent inp), de_orchestrating = False,
              de_resolvedFrom = ByScenario, de_mutations = no_mutations\<rparr>, store)
      else (let (sticky, store1) = router_get (clock 0) (di_sessionId inp) (\<not> di_isMainAgent inp) store
            in if aborted 1 then (Inl DecideAborted, store1)
               else (let sc = decideScenario inp (rc_default cfg);
                         overridden = ((case custom of None \<Rightarrow> False | Some (prov, _) \<Rightarrow> present prov)
                                       \<or> sc_scenarioType sc = ExplicitScenario);
                         (r, store2) = token_saver_choice cfg deps inp judge (clock 1) (jget usages (di_sessionId inp))
                                         sticky overridden (first_choice custom sc) store1
                     in case r of
                          Inl _ \<Rightarrow> (Inl DecideAborted, store2)
                        | Inr ch \<Rightarrow> finish_decision cfg deps (aborted 2) (clock 2) (clock 3) inp sticky sc ch store2)))"

text \<open>\<open>invalidateSticky\<close>, at the start of a user turn: the session forgets its model, except that an
  orchestrating session keeps it with its tier.\<close>

definition invalidateSticky ::
    "router_config \<Rightarrow> (nat \<Rightarrow> int) \<Rightarrow> string \<Rightarrow> router_store
      \<Rightarrow> (string option \<times> string option \<times> string option \<times> bool) \<times> router_store" where
  "invalidateSticky cfg clock sessionId store =
     (if \<not> rc_enabled cfg then ((None, None, None, False), store)
      else (let (current, store1) = router_get (clock 0) sessionId False store;
                tier = sticky_tier current;
                prov = (case current of None \<Rightarrow> None | Some st \<Rightarrow> rs_stickyProvider st);
                mdl = (case current of None \<Rightarrow> None | Some st \<Rightarrow> rs_stickyModel st);
                orchestrating = (case current of None \<Rightarrow> False | Some st \<Rightarrow> rs_orchestrating st);
                fresh = \<lparr>rs_sessionId = sessionId, rs_isSubagent = False, rs_tokenSaverTier = None,
                         rs_stickyProvider = None, rs_stickyModel = None, rs_orchestrating = orchestrating,
                         rs_lastUsage = None, rs_updatedAt = clock 1\<rparr>
            in ((tier, prov, mdl, orchestrating),
                router_set (rc_storeCapacity cfg) (rc_storeTtlMs cfg) (clock 2)
                  (if orchestrating \<and> present tier
                   then fresh\<lparr>rs_tokenSaverTier := tier, rs_stickyProvider := prov, rs_stickyModel := mdl\<rparr>
                   else fresh) store1)))"

section \<open>The judge's answer is a configured tier\<close>

lemma find_in_set: "find P xs = Some x \<Longrightarrow> x \<in> set xs \<and> P x"
  by (induction xs) (auto split: if_splits)

lemma parseTier_known:
  assumes "parseTier out tiers = Some t"
  shows "t \<in> set tiers"
  using assms by (auto simp: parseTier_def Let_def dest!: find_in_set split: if_splits option.splits)

definition td_ok :: "token_saver_config \<Rightarrow> token_saver_decision \<Rightarrow> bool" where
  "td_ok ts td \<longleftrightarrow>
     jget (ts_tiers ts) (td_tier td) = Some (td_selection td)
     \<and> (case td_failure td of None \<Rightarrow> td_resolvedFrom td \<in> {FromJudge, FromDefault}
        | Some (_, n) \<Rightarrow> td_resolvedFrom td = FromFallback \<and> td_tier td = ts_defaultTier ts \<and> n \<in> {1, 2, 3})"

lemma judge_failed_ok:
  "jget (ts_tiers ts) (ts_defaultTier ts) = Some d \<Longrightarrow> n \<in> {1, 2, 3} \<Longrightarrow> td_ok ts (judge_failed ts d r n)"
  by (simp add: td_ok_def judge_failed_def)

lemma judge_loop_ok:
  assumes "jget (ts_tiers ts) (ts_defaultTier ts) = Some d" and "1 \<le> attempt" and "attempt + left = 4"
    and "0 < left" and "judge_loop ts d judge attempt left = Some td"
  shows "td_ok ts td"
  using assms(2-)
proof (induction left arbitrary: attempt)
  case (Suc left)
  have fail: "td_ok ts (judge_failed ts d r attempt)" for r
    using Suc.prems by (intro judge_failed_ok [OF assms(1)]) auto
  have more: "td_ok ts td" if "0 < left" "judge_loop ts d judge (attempt + 1) left = Some td"
    using Suc.prems that by (intro Suc.IH [of "attempt + 1"]) auto
  show ?case
    using Suc.prems(4) fail more
    by (auto simp: Let_def td_ok_def [of ts "token_saver_decision.make _ _ _ _"] token_saver_decision.defs
        split: judge_answer.splits if_splits option.splits) (auto simp: td_ok_def)
qed simp

lemma judge_loop_cong:
  "(\<And>k. attempt \<le> k \<Longrightarrow> k < attempt + left \<Longrightarrow> judge k = judge' k)
    \<Longrightarrow> judge_loop ts d judge attempt left = judge_loop ts d judge' attempt left"
proof (induction left arbitrary: attempt)
  case (Suc left)
  have e: "judge attempt = judge' attempt" by (rule Suc.prems) auto
  have r: "judge_loop ts d judge (attempt + 1) left = judge_loop ts d judge' (attempt + 1) left"
    by (rule Suc.IH) (rule Suc.prems, auto)
  show ?case unfolding judge_loop.simps e r by (rule refl)
qed simp

text \<open>A stored state is read back, and read again, until its time is over.\<close>

lemma router_get_of_slot:
  assumes "jget m (makeKey s b) = Some slot" and "now \<le> slot_expiresAt slot"
  shows "fst (router_get now s b m) = Some (slot_state slot)"
    and "jget (snd (router_get now s b m)) (makeKey s b) = Some slot"
  using assms by (auto simp: router_get_def Let_def jget_jset)

lemma jget_router_set:
  "jget (router_set cap ttl t st m) (makeKey (rs_sessionId st) (rs_isSubagent st))
    = Some \<lparr>slot_state = st, slot_expiresAt = t + ttl\<rparr>"
  by (simp add: router_set_def router_put_def jget_jset)

lemma supports_ref_of [simp]:
  "supportsMediaRequirements g (ref_of (ref_provider r) (ref_model r)) required = supportsMediaRequirements g r required"
  by (simp add: supportsMediaRequirements_def missingForModel_def ref_of_def)

lemma supports_none [simp]: "supportsMediaRequirements g r []"
  by (simp add: supportsMediaRequirements_def missingForModel_def)

lemma find_None_filter: "find P xs = None \<longleftrightarrow> filter P xs = []"
  by (induction xs) auto

lemma find_Some_P: "find P xs = Some x \<Longrightarrow> P x"
  by (induction xs) (auto split: if_splits)

lemma reroute_scenario [simp]: "de_scenarioType (rerouteDecisionForMedia cfg deps ms d) = de_scenarioType d"
  by (simp add: rerouteDecisionForMedia_def Let_def split: option.splits)

lemma reroute_supports:
  fixes cfg deps ms d
  defines "d' \<equiv> rerouteDecisionForMedia cfg deps ms d"
    and "required \<equiv> collectRequiredInputModalities ms"
  shows "supportsMediaRequirements (getMultimodal deps) (ref_of (de_provider d') (de_model d')) required
         \<or> filter (\<lambda>r. supportsMediaRequirements (getMultimodal deps) r required)
             (fallbackCandidatesFor (rc_fallback cfg) (de_scenarioType d)) = []"
  unfolding d'_def required_def rerouteDecisionForMedia_def Let_def findCompatibleFallback_def
  by (auto simp: find_None_filter split: option.splits dest!: find_Some_P)

lemma reroute_id:
  assumes "supportsMediaRequirements (getMultimodal deps) (ref_of (de_provider d) (de_model d)) (collectRequiredInputModalities ms)"
  shows "rerouteDecisionForMedia cfg deps ms d = d"
  using assms by (simp add: rerouteDecisionForMedia_def Let_def)

text \<open>What an enabled router's decision is made of, and what it stores.\<close>

lemma finish_Inr:
  assumes "finish_decision cfg deps ab upd now inp sticky sc ch store = (Inr d, store')"
  shows "\<exists>sel from scenario. d = rerouteDecisionForMedia cfg deps (di_messages inp)
             (orchestrated_decision cfg inp sticky sc ch sel from scenario)"
    and "store' = router_set (rc_storeCapacity cfg) (rc_storeTtlMs cfg) now (stored_decision inp sticky upd d) store"
  using assms by (auto simp: finish_decision_def Let_def split: prod.splits option.splits if_splits)

lemma decide_Inr:
  assumes "decide cfg deps aborted clock custom judge usages inp store = (Inr d, store')" and "rc_enabled cfg"
  shows "\<exists>sticky sc ch store2.
           finish_decision cfg deps (aborted 2) (clock 2) (clock 3) inp sticky sc ch store2 = (Inr d, store')"
  using assms
  by (auto simp: decide_def Let_def split: prod.splits sum.splits if_splits)

text \<open>An enabled router never sends a request to a model that lacks a required input modality while a
  configured fallback candidate has them all: the decided model supports the request's media, or no
  candidate for its scenario does. A disabled router passes the request's own model through.\<close>

lemma decided_model_supports_media:
  "case decide cfg deps aborted clock custom judge usages inp store of
     (Inl _, _) \<Rightarrow> True
   | (Inr d, store') \<Rightarrow>
       if rc_enabled cfg
       then supportsMediaRequirements (getMultimodal deps) (ref_of (de_provider d) (de_model d))
              (collectRequiredInputModalities (di_messages inp))
            \<or> filter (\<lambda>r. supportsMediaRequirements (getMultimodal deps) r
                              (collectRequiredInputModalities (di_messages inp)))
                (fallbackCandidatesFor (rc_fallback cfg) (de_scenarioType d)) = []
       else de_provider d = di_provider inp \<and> de_model d = di_model inp \<and> store' = store"
proof (cases "decide cfg deps aborted clock custom judge usages inp store")
  case (Pair r store')
  show ?thesis
  proof (cases r)
    case (Inr d)
    show ?thesis
    proof (cases "rc_enabled cfg")
      case True
      obtain d0 where d: "d = rerouteDecisionForMedia cfg deps (di_messages inp) d0"
        using decide_Inr [OF Pair [unfolded Inr] True] finish_Inr(1) by blast
      show ?thesis
        using True reroute_supports [of deps cfg "di_messages inp" d0] by (simp add: Pair Inr d)
    next
      case False
      then show ?thesis using Pair Inr by (auto simp: decide_def split: if_splits)
    qed
  qed (simp add: Pair)
qed

lemma orchestrated_fields [simp]:
  "de_provider (orchestrated_decision cfg inp sticky sc ch sel from k) = ref_provider sel"
  "de_model (orchestrated_decision cfg inp sticky sc ch sel from k) = ref_model sel"
  "de_tokenSaverTier (orchestrated_decision cfg inp sticky sc ch sel from k) = ch_tier ch"
  "de_resolvedFrom (orchestrated_decision cfg inp sticky sc ch sel from k) = from"
  "de_scenarioType (orchestrated_decision cfg inp sticky sc ch sel from k) = k"
  by (simp_all add: orchestrated_decision_def Let_def)

lemma ref_of_sel [simp]: "ref_provider (ref_of p m) = p" "ref_model (ref_of p m) = m"
  by (simp_all add: ref_of_def)

text \<open>C32. Routing is sticky within a user turn. After a decision of an enabled router with the token saver on for the
  agent, a later request of the same agent in the same session goes to the same provider and model with the same tier,
  whatever the judge would answer, provided the entry of that decision is still the one in the store (so nothing
  invalidated it, as the start of the next user turn does, and nothing evicted or replaced it) and its time-to-live has
  not passed, and the request carries conversation history, no explicit model and only media the model supports, no
  custom router is set and the turn is not aborted.\<close>

theorem sticky_continuation:
  assumes "decide cfg deps ab clk custom judge us inp store = (Inr d, store')"
    and "rc_enabled cfg" and "rc_tokenSaver cfg = Some ts" and "ts_enabled ts"
    and "di_isMainAgent inp \<or> \<not> ts_subagentSkip ts"
    and "de_provider d \<noteq> []" and "de_model d \<noteq> []"
    and "di_sessionId nxt = di_sessionId inp" and "di_isMainAgent nxt = di_isMainAgent inp"
    and "readExplicit nxt = None" and "hasConversationHistory (di_messages nxt)"
    and "clk' 0 \<le> clk 3 + rc_storeTtlMs cfg" and "clk' 1 \<le> clk 3 + rc_storeTtlMs cfg"
    and "supportsMediaRequirements (getMultimodal deps) (ref_of (de_provider d) (de_model d))
           (collectRequiredInputModalities (di_messages nxt))"
    and "jget later (makeKey (di_sessionId nxt) (\<not> di_isMainAgent nxt)) = jget store' (makeKey (di_sessionId nxt) (\<not> di_isMainAgent nxt))"
  shows "map_sum id (\<lambda>e. (de_provider e, de_model e, de_tokenSaverTier e, de_resolvedFrom e))
           (fst (decide cfg deps (\<lambda>_. False) clk' None judge' us' nxt later))
         = Inr (de_provider d, de_model d, de_tokenSaverTier d, ByTokenSaver)"
proof -
  obtain sticky sc ch store2 where
    "finish_decision cfg deps (ab 2) (clk 2) (clk 3) inp sticky sc ch store2 = (Inr d, store')"
    using decide_Inr [OF assms(1,2)] by blast
  then have store': "store' = router_set (rc_storeCapacity cfg) (rc_storeTtlMs cfg) (clk 3)
      (stored_decision inp sticky (clk 2) d) store2"
    by (rule finish_Inr(2))
  define st where "st = stored_decision inp sticky (clk 2) d"
  define slot where "slot = \<lparr>slot_state = st, slot_expiresAt = clk 3 + rc_storeTtlMs cfg\<rparr>"
  define sub where "sub = (\<not> di_isMainAgent nxt)"
  have st: "rs_sessionId st = di_sessionId nxt" "rs_isSubagent st = sub" "rs_tokenSaverTier st = de_tokenSaverTier d"
    "sticky_ref (Some st) = Some (ref_of (de_provider d) (de_model d))"
    using assms(6-9) by (simp_all add: st_def sub_def stored_decision_def sticky_ref_def pair_ref_def present_def)
  have "jget store' (makeKey (di_sessionId nxt) sub) = Some slot"
    unfolding store' slot_def st_def [symmetric] st(1,2) [symmetric] by (rule jget_router_set)
  then have "jget later (makeKey (di_sessionId nxt) sub) = Some slot" using assms(15) by (simp add: sub_def)
  note g1 = router_get_of_slot [OF this, of "clk' 0"]
  obtain m1 where m1: "router_get (clk' 0) (di_sessionId nxt) sub later = (Some st, m1)"
      "jget m1 (makeKey (di_sessionId nxt) sub) = Some slot"
    using g1 assms(12) by (cases "router_get (clk' 0) (di_sessionId nxt) sub later") (auto simp: slot_def)
  obtain m2 where m2: "router_get (clk' 1) (di_sessionId nxt) sub m1 = (Some st, m2)"
    using router_get_of_slot(1) [OF m1(2), of "clk' 1"] assms(13)
    by (cases "router_get (clk' 1) (di_sessionId nxt) sub m1") (auto simp: slot_def)
  define c where "c = \<lparr>ch_selection = Some (ref_of (de_provider d) (de_model d)), ch_resolvedFrom = ByTokenSaver,
                       ch_tier = de_tokenSaverTier d, ch_cacheSwitch = None\<rparr>"
  have main: "di_isMainAgent nxt \<or> \<not> ts_subagentSkip ts" using assms(5,9) by simp
  have "token_saver_choice cfg deps nxt judge' (clk' 1) base stk False c0 m1 = (Inr c, m2)" for base stk c0
    using main assms(4,11) m2 st(3,4)
    by (simp add: token_saver_choice_def assms(3) c_def sticky_tier_def sub_def)
  then have "decide cfg deps (\<lambda>_. False) clk' None judge' us' nxt later
      = finish_decision cfg deps False (clk' 2) (clk' 3) nxt (Some st) (decideScenario nxt (rc_default cfg)) c m2"
    using m1(1) assms(2,10) by (simp add: decide_def Let_def decideScenario_def sub_def)
  moreover have "rerouteDecisionForMedia cfg deps (di_messages nxt)
        (orchestrated_decision cfg nxt (Some st) s c (ref_of (de_provider d) (de_model d)) r k)
      = orchestrated_decision cfg nxt (Some st) s c (ref_of (de_provider d) (de_model d)) r k" for s r k
    using assms(14) by (intro reroute_id) simp
  ultimately show ?thesis
    by (simp add: finish_decision_def final_selection_def c_def Let_def)
qed

text \<open>A router with two tiers whose judge always answers \<open>fast\<close>.\<close>

definition demo_router :: router_config where
  "demo_router = \<lparr>rc_enabled = True, rc_default = None, rc_fallback = None,
     rc_tokenSaver = Some \<lparr>ts_enabled = True, ts_defaultTier = ''fast'',
       ts_tiers = [(''fast'', ref_of ''p'' ''small''), (''deep'', ref_of ''q'' ''large'')],
       ts_subagentSkip = False, ts_cacheAware = None\<rparr>,
     rc_autoOrchestrate = None, rc_modelPricing = None, rc_storeCapacity = 500, rc_storeTtlMs = 3600000\<rparr>"

definition demo_router_deps :: router_deps where
  "demo_router_deps = \<lparr>getMultimodal = (\<lambda>_ _. Some [TextModality]), tokenCount = (\<lambda>s. int (length s)),
     jsonStringify = (\<lambda>_. [])\<rparr>"

definition demo_input :: "message list \<Rightarrow> decide_input" where
  "demo_input ms = \<lparr>di_sessionId = ''s'', di_isMainAgent = True, di_messages = ms, di_tools = None, di_provider = [], di_model = [],
     di_explicitProvider = None, di_explicitModel = None, di_previousTier = None, di_previousProvider = None,
     di_previousModel = None\<rparr>"

definition demo_question :: message where
  "demo_question = plain_message User [text_block ''hi'']"

definition demo_first :: "(decide_error + decision) \<times> router_store" where
  "demo_first = decide demo_router demo_router_deps (\<lambda>_. False) (\<lambda>_. 0) None (\<lambda>_. JudgeText ''fast'') []
     (demo_input [demo_question]) []"

lemma demo_first_facts:
  "(let d = projr (fst demo_first)
    in \<not> isl (fst demo_first) \<and> de_provider d = ''p'' \<and> de_model d = ''small'' \<and> de_tokenSaverTier d = Some ''fast'')"
  by code_simp

text \<open>The store after a decision for another session came in between.\<close>

definition demo_later :: router_store where
  "demo_later = snd (decide demo_router demo_router_deps (\<lambda>_. False) (\<lambda>_. 50000) None (\<lambda>_. JudgeText ''deep'') []
     ((demo_input [demo_question])\<lparr>di_sessionId := ''t''\<rparr>) (snd demo_first))"

lemma demo_later_facts:
  "jget demo_later (makeKey ''s'' False) = jget (snd demo_first) (makeKey ''s'' False)" "length demo_later = 2"
  by code_simp+

theorem sticky_continuation_witness:
  "map_sum id (\<lambda>e. (de_provider e, de_model e, de_tokenSaverTier e, de_resolvedFrom e))
     (fst (decide demo_router demo_router_deps (\<lambda>_. False) (\<lambda>_. 60000) None (\<lambda>_. JudgeText ''deep'') []
        (demo_input [demo_question, plain_message Assistant [], demo_question]) demo_later))
   = Inr (''p'', ''small'', Some ''fast'', ByTokenSaver)"
proof -
  define d where "d = projr (fst demo_first)"
  have d: "demo_first = (Inr d, snd demo_first)" "de_provider d = ''p''" "de_model d = ''small''"
    "de_tokenSaverTier d = Some ''fast''"
    using demo_first_facts by (auto simp: d_def Let_def prod_eq_iff)
  have h: "hasConversationHistory [demo_question, plain_message Assistant [], demo_question]"
    by (simp add: hasConversationHistory_def demo_question_def)
  have i: "di_messages (demo_input ms) = ms" "di_isMainAgent (demo_input ms)" "di_sessionId (demo_input ms) = ''s''" for ms
    by (simp_all add: demo_input_def)
  have r: "readExplicit (demo_input ms) = None" for ms
    by (simp add: readExplicit_def demo_input_def pair_ref_def present_def)
  have m: "collectRequiredInputModalities [demo_question, plain_message Assistant [], demo_question] = []"
    by (simp add: collectRequiredInputModalities_def demo_question_def MEDIA_MODALITY_ORDER_def)
  have first: "decide demo_router demo_router_deps (\<lambda>_. False) (\<lambda>_. 0) None (\<lambda>_. JudgeText ''fast'') []
      (demo_input [demo_question]) [] = (Inr d, snd demo_first)"
    using d(1) by (simp add: demo_first_def)
  show ?thesis
    unfolding d(2-4) [symmetric]
  proof (rule sticky_continuation [where ts = "the (rc_tokenSaver demo_router)", OF first], goal_cases)
    case 14
    show ?case using demo_later_facts(1) by (simp only: i) simp
  qed (simp_all add: d h r m demo_router_def i)
qed

text \<open>The token saver answers with a configured tier: when it decides, the tier is one of the configuration
  and the selection is that tier's model; a failure falls back to the default tier after at most three
  attempts; and no more than three answers of the judge are ever looked at.\<close>

lemma judged_tier_configured:
  "(case classifyAndRoute ts ms judge of
      Inr (Some td) \<Rightarrow> jget (ts_tiers ts) (td_tier td) = Some (td_selection td)
        \<and> (case td_failure td of
             None \<Rightarrow> td_resolvedFrom td \<in> {FromJudge, FromDefault}
           | Some (_, n) \<Rightarrow> td_resolvedFrom td = FromFallback \<and> td_tier td = ts_defaultTier ts \<and> n \<in> {1, 2, 3})
    | _ \<Rightarrow> True)
   \<and> classifyAndRoute ts ms judge = classifyAndRoute ts ms (\<lambda>k. if k \<in> {1, 2, 3} then judge k else JudgeAborted)"
proof
  have "td_ok ts td" if "classifyAndRoute ts ms judge = Inr (Some td)" for td
    using that judge_loop_ok [of ts _ 1 3 judge td]
    by (auto simp: classifyAndRoute_def td_ok_def split: if_splits option.splits simp del: judge_loop.simps)
  then show "case classifyAndRoute ts ms judge of
      Inr (Some td) \<Rightarrow> jget (ts_tiers ts) (td_tier td) = Some (td_selection td)
        \<and> (case td_failure td of
             None \<Rightarrow> td_resolvedFrom td \<in> {FromJudge, FromDefault}
           | Some (_, n) \<Rightarrow> td_resolvedFrom td = FromFallback \<and> td_tier td = ts_defaultTier ts \<and> n \<in> {1, 2, 3})
    | _ \<Rightarrow> True"
    unfolding td_ok_def [symmetric] by (simp split: sum.splits option.splits)
next
  have "judge_loop ts d judge 1 3 = judge_loop ts d (\<lambda>k. if k \<in> {1, 2, 3} then judge k else JudgeAborted) 1 3" for d
    by (rule judge_loop_cong) auto
  then show "classifyAndRoute ts ms judge = classifyAndRoute ts ms (\<lambda>k. if k \<in> {1, 2, 3} then judge k else JudgeAborted)"
    unfolding classifyAndRoute_def by metis
qed

end
