(* ===== verification/ProviderHealth.thy ===== *)
theory ProviderHealth
  imports Caches
begin

text \<open>
  The circuit breaker of the router: \<open>router/health/ProviderHealthTracker.ts\<close>. The tracker is a map from
  provider ids to records; the clock is an argument of the operations that read it. The reference
  meaning of a record is the circuit of the provider, a machine of its own over the reports, queries and resets and
  their times, and the results reported since the last reset.
\<close>

section \<open>The tracker\<close>

datatype health_state = Healthy | Degraded | Open | HalfOpen

record provider_record =
  health :: health_state
  consecutiveFailures :: nat
  openedAt :: int
  window :: "bool list"

record health_options =
  degradeThreshold :: nat
  openThreshold :: nat
  openDurationMs :: int
  windowSize :: nat

definition default_health_options :: health_options where
  "default_health_options = \<lparr>degradeThreshold = 3, openThreshold = 5, openDurationMs = 30000, windowSize = 20\<rparr>"

type_synonym tracker = "(string \<times> provider_record) list"

definition fresh_record :: provider_record where
  "fresh_record = \<lparr>health = Healthy, consecutiveFailures = 0, openedAt = 0, window = []\<rparr>"

definition getOrCreate :: "string \<Rightarrow> tracker \<Rightarrow> provider_record" where
  "getOrCreate p t = (case jget t p of Some r \<Rightarrow> r | None \<Rightarrow> fresh_record)"

definition push_window :: "nat \<Rightarrow> bool \<Rightarrow> bool list \<Rightarrow> bool list" where
  "push_window n b w = (let w' = w @ [b] in if n < length w' then tl w' else w')"

definition success_record :: "health_options \<Rightarrow> provider_record \<Rightarrow> provider_record" where
  "success_record opts r =
     r\<lparr>consecutiveFailures := 0, window := push_window (windowSize opts) True (window r),
       health := (if health r = HalfOpen \<or> health r = Degraded \<or> health r = Open then Healthy else health r)\<rparr>"

definition failure_record :: "health_options \<Rightarrow> int \<Rightarrow> provider_record \<Rightarrow> provider_record" where
  "failure_record opts now r =
     (let n = consecutiveFailures r + 1;
          r1 = r\<lparr>consecutiveFailures := n, window := push_window (windowSize opts) False (window r)\<rparr>;
          r2 = (if openThreshold opts \<le> n then
                  (if health r1 \<noteq> Open then r1\<lparr>health := Open, openedAt := now\<rparr> else r1)
                else if degradeThreshold opts \<le> n then
                  (if health r1 = Healthy then r1\<lparr>health := Degraded\<rparr> else r1)
                else r1)
      in if health r2 = HalfOpen then r2\<lparr>health := Open, openedAt := now\<rparr> else r2)"

definition recordSuccess :: "health_options \<Rightarrow> string \<Rightarrow> tracker \<Rightarrow> tracker" where
  "recordSuccess opts p t = jset p (success_record opts (getOrCreate p t)) t"

definition recordFailure :: "health_options \<Rightarrow> string \<Rightarrow> int \<Rightarrow> tracker \<Rightarrow> tracker" where
  "recordFailure opts p now t = jset p (failure_record opts now (getOrCreate p t)) t"

definition probed :: "health_options \<Rightarrow> int \<Rightarrow> provider_record \<Rightarrow> provider_record" where
  "probed opts now r =
     (if health r = Open \<and> openDurationMs opts \<le> now - openedAt r then r\<lparr>health := HalfOpen\<rparr> else r)"

definition getState :: "health_options \<Rightarrow> string \<Rightarrow> int \<Rightarrow> tracker \<Rightarrow> health_state \<times> tracker" where
  "getState opts p now t =
     (case jget t p of
        None \<Rightarrow> (Healthy, t)
      | Some r \<Rightarrow> (health (probed opts now r), jset p (probed opts now r) t))"

definition shouldSkip :: "health_options \<Rightarrow> string \<Rightarrow> int \<Rightarrow> tracker \<Rightarrow> bool \<times> tracker" where
  "shouldSkip opts p now t = (let (s, t') = getState opts p now t in (s = Open, t'))"

definition isAvailable :: "health_options \<Rightarrow> string \<Rightarrow> int \<Rightarrow> tracker \<Rightarrow> bool \<times> tracker" where
  "isAvailable opts p now t = (let (s, t') = getState opts p now t in (s \<noteq> Open, t'))"

definition getSuccessRate :: "string \<Rightarrow> tracker \<Rightarrow> rat" where
  "getSuccessRate p t =
     (case jget t p of
        None \<Rightarrow> 1
      | Some r \<Rightarrow> if window r = [] then 1
                  else of_nat (length (filter (\<lambda>b. b) (window r))) / of_nat (length (window r)))"

definition reset :: "string \<Rightarrow> tracker \<Rightarrow> tracker" where
  "reset p t = jdelete p t"

section \<open>What a record means\<close>

datatype health_op =
    Success string
  | Failure string int
  | Query string int
  | Reset string
  | ResetAll

fun health_step :: "health_options \<Rightarrow> tracker \<Rightarrow> health_op \<Rightarrow> tracker" where
  "health_step opts t (Success p) = recordSuccess opts p t"
| "health_step opts t (Failure p now) = recordFailure opts p now t"
| "health_step opts t (Query p now) = snd (getState opts p now t)"
| "health_step opts t (Reset p) = reset p t"
| "health_step opts t ResetAll = []"

text \<open>The results reported for a provider since its last reset, the latest last.\<close>

fun outcomes_step :: "string \<Rightarrow> bool list \<Rightarrow> health_op \<Rightarrow> bool list" where
  "outcomes_step p bs (Success q) = (if q = p then bs @ [True] else bs)"
| "outcomes_step p bs (Failure q _) = (if q = p then bs @ [False] else bs)"
| "outcomes_step p bs (Query _ _) = bs"
| "outcomes_step p bs (Reset q) = (if q = p then [] else bs)"
| "outcomes_step p bs ResetAll = []"

definition outcomes :: "string \<Rightarrow> health_op list \<Rightarrow> bool list" where
  "outcomes p ops = foldl (outcomes_step p) [] ops"

definition trailing_failures :: "bool list \<Rightarrow> nat" where
  "trailing_failures bs = length (takeWhile (\<lambda>b. \<not> b) (rev bs))"

text \<open>The circuit of a provider as a machine of its own, apart from the records: closed after some failures in a row, open
  since the failure that opened it, or let through by a query that found it open for long enough.\<close>

datatype circuit = Closed nat | OpenSince int nat | Probing nat

fun circuit_step :: "health_options \<Rightarrow> string \<Rightarrow> circuit \<Rightarrow> health_op \<Rightarrow> circuit" where
  "circuit_step opts p c (Success q) = (if q = p then Closed 0 else c)"
| "circuit_step opts p c (Failure q now) =
     (if q \<noteq> p then c
      else (case c of
              Closed n \<Rightarrow> if openThreshold opts \<le> Suc n then OpenSince now (Suc n) else Closed (Suc n)
            | OpenSince t n \<Rightarrow> OpenSince t (Suc n)
            | Probing n \<Rightarrow> OpenSince now (Suc n)))"
| "circuit_step opts p c (Query q now) =
     (if q \<noteq> p then c
      else (case c of OpenSince t n \<Rightarrow> if t + openDurationMs opts \<le> now then Probing n else c | _ \<Rightarrow> c))"
| "circuit_step opts p c (Reset q) = (if q = p then Closed 0 else c)"
| "circuit_step opts p c ResetAll = Closed 0"

definition circuit_of :: "health_options \<Rightarrow> string \<Rightarrow> health_op list \<Rightarrow> circuit" where
  "circuit_of opts p ops = foldl (circuit_step opts p) (Closed 0) ops"

text \<open>The record that shows a circuit after some results.\<close>

definition shows_circuit :: "health_options \<Rightarrow> circuit \<Rightarrow> bool list \<Rightarrow> provider_record \<Rightarrow> bool" where
  "shows_circuit opts c bs r \<longleftrightarrow>
     window r = slice_last (windowSize opts) bs \<and> consecutiveFailures r = trailing_failures bs
     \<and> (case c of
          Closed n \<Rightarrow> n = trailing_failures bs \<and> n < openThreshold opts
            \<and> health r = (if degradeThreshold opts \<le> n then Degraded else Healthy)
        | OpenSince t n \<Rightarrow> n = trailing_failures bs \<and> openThreshold opts \<le> n \<and> health r = Open \<and> openedAt r = t
        | Probing n \<Rightarrow> n = trailing_failures bs \<and> openThreshold opts \<le> n \<and> health r = HalfOpen)"

lemma push_window_slice: "push_window n b (slice_last n bs) = slice_last n (bs @ [b])"
proof (cases "n = 0")
  case True
  then show ?thesis by (simp add: push_window_def slice_last_def)
next
  case False
  show ?thesis
  proof (cases "n \<le> length bs")
    case True
    then have l: "length (slice_last n bs) = n" by simp
    have ne: "slice_last n bs \<noteq> []" using l False by (metis list.size(3))
    have "tl (slice_last n bs) = drop (Suc (length bs - n)) bs" by (simp add: slice_last_def drop_Suc tl_drop)
    moreover have "slice_last n (bs @ [b]) = drop (Suc (length bs - n)) bs @ [b]"
      using True False by (simp add: slice_last_def Suc_diff_le)
    ultimately show ?thesis using l ne by (simp add: push_window_def)
  next
    case False
    then have "slice_last n bs = bs" "slice_last n (bs @ [b]) = bs @ [b]" by (simp_all add: slice_last_all)
    then show ?thesis using False by (simp add: push_window_def)
  qed
qed

lemma trailing_failures_simps [simp]:
  "trailing_failures [] = 0"
  "trailing_failures (bs @ [True]) = 0"
  "trailing_failures (bs @ [False]) = Suc (trailing_failures bs)"
  by (simp_all add: trailing_failures_def)

lemma shows_fresh:
  "0 < degradeThreshold opts \<Longrightarrow> 0 < openThreshold opts \<Longrightarrow> shows_circuit opts (Closed 0) [] fresh_record"
  by (simp add: shows_circuit_def fresh_record_def slice_last_def)

lemma shows_success:
  assumes "shows_circuit opts c bs r" and "0 < degradeThreshold opts" and "0 < openThreshold opts"
  shows "shows_circuit opts (Closed 0) (bs @ [True]) (success_record opts r)"
  using assms by (cases "health r") (auto simp: shows_circuit_def success_record_def push_window_slice)

lemma shows_failure:
  assumes "shows_circuit opts c bs r"
  shows "shows_circuit opts (circuit_step opts p c (Failure p now)) (bs @ [False]) (failure_record opts now r)"
  using assms
  by (cases c) (auto simp: shows_circuit_def failure_record_def Let_def push_window_slice split: if_splits)

lemma shows_probed:
  "shows_circuit opts c bs r \<Longrightarrow> shows_circuit opts (circuit_step opts p c (Query p now)) bs (probed opts now r)"
  by (cases c) (auto simp: shows_circuit_def probed_def)

definition tracker_ok :: "health_options \<Rightarrow> (string \<Rightarrow> circuit) \<Rightarrow> (string \<Rightarrow> bool list) \<Rightarrow> tracker \<Rightarrow> bool" where
  "tracker_ok opts C B t \<longleftrightarrow>
     (\<forall>p. case jget t p of None \<Rightarrow> B p = [] \<and> C p = Closed 0 | Some r \<Rightarrow> shows_circuit opts (C p) (B p) r)"

lemma tracker_ok_get:
  assumes "tracker_ok opts C B t" and "0 < degradeThreshold opts" and "0 < openThreshold opts"
  shows "shows_circuit opts (C p) (B p) (getOrCreate p t)"
  using assms shows_fresh by (cases "jget t p") (auto simp: tracker_ok_def getOrCreate_def dest: spec [of _ p])

lemma tracker_ok_step:
  assumes "tracker_ok opts C B t" and "0 < degradeThreshold opts" and "0 < openThreshold opts"
  shows "tracker_ok opts (\<lambda>p. circuit_step opts p (C p) e) (\<lambda>p. outcomes_step p (B p) e) (health_step opts t e)"
proof (cases e)
  case (Success q)
  have "shows_circuit opts (Closed 0) (B q @ [True]) (success_record opts (getOrCreate q t))"
    by (rule shows_success [OF tracker_ok_get [OF assms] assms(2,3)])
  then show ?thesis
    using assms(1) by (simp add: Success tracker_ok_def recordSuccess_def jget_jset)
next
  case (Failure q now)
  have "shows_circuit opts (circuit_step opts q (C q) e) (B q @ [False]) (failure_record opts now (getOrCreate q t))"
    unfolding Failure by (rule shows_failure [OF tracker_ok_get [OF assms]])
  then show ?thesis
    using assms(1) by (simp add: Failure tracker_ok_def recordFailure_def jget_jset)
next
  case (Query q now)
  show ?thesis
  proof (cases "jget t q")
    case None
    moreover from this have "C q = Closed 0" using assms(1) by (auto simp: tracker_ok_def dest: spec [of _ q])
    ultimately have "circuit_step opts p (C p) (Query q now) = C p" for p by auto
    then show ?thesis using assms(1) None by (simp add: Query getState_def del: circuit_step.simps)
  next
    case (Some r)
    then have "shows_circuit opts (C q) (B q) r" using assms(1) by (auto simp: tracker_ok_def dest: spec [of _ q])
    then have "shows_circuit opts (circuit_step opts q (C q) e) (B q) (probed opts now r)"
      unfolding Query by (rule shows_probed)
    then show ?thesis using assms(1) Some by (simp add: Query tracker_ok_def getState_def jget_jset)
  qed
next
  case (Reset q)
  then show ?thesis using assms(1) by (simp add: tracker_ok_def reset_def jget_jdelete)
next
  case ResetAll
  then show ?thesis by (simp add: tracker_ok_def)
qed

lemma tracker_ok_run:
  assumes "0 < degradeThreshold opts" and "0 < openThreshold opts"
  shows "tracker_ok opts (\<lambda>p. circuit_of opts p ops) (\<lambda>p. outcomes p ops) (foldl (health_step opts) [] ops)"
proof (induction ops rule: rev_induct)
  case Nil
  then show ?case by (simp add: tracker_ok_def outcomes_def circuit_of_def)
next
  case (snoc e ops)
  then show ?case using tracker_ok_step [OF snoc assms] by (simp add: outcomes_def circuit_of_def)
qed

lemma skip_iff:
  assumes "tracker_ok opts C B t"
  shows "fst (shouldSkip opts p now t) \<longleftrightarrow> (case C p of OpenSince since _ \<Rightarrow> now < since + openDurationMs opts | _ \<Rightarrow> False)"
proof (cases "jget t p")
  case None
  then have "C p = Closed 0" using assms by (auto simp: tracker_ok_def dest: spec [of _ p])
  then show ?thesis using None by (simp add: shouldSkip_def getState_def)
next
  case (Some r)
  then have "shows_circuit opts (C p) (B p) r" using assms by (auto simp: tracker_ok_def dest: spec [of _ p])
  then show ?thesis using Some
    by (auto simp: shouldSkip_def getState_def probed_def shows_circuit_def split: circuit.splits)
qed

lemma record_shows:
  assumes "tracker_ok opts C B t"
  shows "case jget t p of None \<Rightarrow> B p = [] \<and> C p = Closed 0 | Some r \<Rightarrow> shows_circuit opts (C p) (B p) r"
  using assms by (simp add: tracker_ok_def)


text \<open>A half-open provider is not skipped by any number of requests until one of them is reported.\<close>

lemma half_open_not_skipped:
  assumes "jget t p = Some r" and "health r = HalfOpen"
  shows "\<not> fst (shouldSkip opts p now t) \<and> jget (snd (shouldSkip opts p now t)) p = Some r"
  using assms by (simp add: shouldSkip_def getState_def probed_def Let_def jget_jset)

end
