(* ===== verification/RouterExecute.thy ===== *)
theory RouterExecute
  imports RoutePlan ProviderHealth
begin

text \<open>
  Running a routed request: \<open>RouterRuntime.execute\<close> with \<open>streamAttempt\<close> and \<open>retry/zeroUsageRetry.ts\<close>.
  Parameters: the model runtime's stream as a function of the number of the call, the model and whether
  the request was downgraded; the clock; the jitter; the abort signal where it is read. A run is a fold
  over the planned attempts whose state has the events given to the caller, the log of the calls, the
  circuit breaker of the session and the locals of the loop. Telemetry and the router's event bus are
  left out.
\<close>

section \<open>What a stream leaves behind\<close>

fun isContentEvent :: "model_event \<Rightarrow> bool" where
  "isContentEvent (TextDelta _) = True"
| "isContentEvent (ThinkingDelta _ _ _) = True"
| "isContentEvent (ToolCallStart _ _) = True"
| "isContentEvent (ToolCallDelta _ _) = True"
| "isContentEvent (ToolCallEnd _ _) = True"
| "isContentEvent _ = False"

fun isErrorEvent :: "model_event \<Rightarrow> bool" where
  "isErrorEvent (ErrorEvent _) = True"
| "isErrorEvent _ = False"

record zero_usage_state =
  observedAnyText :: bool
  observedFinish :: bool
  observedUsage :: "usage option"
  observedError :: bool

definition createZeroUsageState :: zero_usage_state where
  "createZeroUsageState =
     \<lparr>observedAnyText = False, observedFinish = False, observedUsage = None, observedError = False\<rparr>"

fun observeEventForZeroUsage :: "zero_usage_state \<Rightarrow> model_event \<Rightarrow> zero_usage_state" where
  "observeEventForZeroUsage s (TextDelta t) = (if t \<noteq> [] then s\<lparr>observedAnyText := True\<rparr> else s)"
| "observeEventForZeroUsage s (ToolCallDelta _ t) = (if t \<noteq> [] then s\<lparr>observedAnyText := True\<rparr> else s)"
| "observeEventForZeroUsage s (ToolCallEnd _ _) = s\<lparr>observedAnyText := True\<rparr>"
| "observeEventForZeroUsage s (MessageEnd _) = s\<lparr>observedFinish := True\<rparr>"
| "observeEventForZeroUsage s (UsageEvent u) = s\<lparr>observedUsage := Some u\<rparr>"
| "observeEventForZeroUsage s (ErrorEvent _) = s\<lparr>observedError := True\<rparr>"
| "observeEventForZeroUsage s _ = s"

definition zero_or :: "int option \<Rightarrow> int" where
  "zero_or n = (case n of None \<Rightarrow> 0 | Some k \<Rightarrow> k)"

definition usage_total :: "usage \<Rightarrow> int" where
  "usage_total u = zero_or (totalTokens u) + zero_or (inputTokens u) + zero_or (outputTokens u)
     + zero_or (cacheReadTokens u) + zero_or (cacheWriteTokens u)"

definition shouldRetryZeroUsage :: "zero_usage_state \<Rightarrow> bool" where
  "shouldRetryZeroUsage s =
     (if observedError s then False
      else if \<not> observedFinish s then False
      else if observedAnyText s then False
      else (case observedUsage s of None \<Rightarrow> True | Some u \<Rightarrow> usage_total u = 0))"

text \<open>What a stream may throw: an error that carries a provider error, a \<open>ModelRequestError\<close>, another
  \<open>Error\<close> with its name and message, or a value that is not an \<open>Error\<close>.\<close>

datatype thrown =
    CarriesModelError model_error
  | RequestRejected string string
  | OtherError string string
  | NonError string

datatype stream_end = Ended | Thrown thrown | AbortThrown

definition isNetworkTransient :: "thrown \<Rightarrow> bool" where
  "isNetworkTransient t =
     (case t of
        OtherError name message \<Rightarrow>
          (let msg = toLowerCase message
           in list_ex (str_includes msg)
                [''econnreset'', ''econnrefused'', ''etimedout'', ''epipe'', ''socket hang up'', ''network'', ''dns'',
                 ''fetch failed'', ''abort'']
              \<or> name = ''TimeoutError'' \<or> name = ''AbortError'')
      | _ \<Rightarrow> False)"

definition classifyNetworkErrorCode :: "thrown \<Rightarrow> string" where
  "classifyNetworkErrorCode t =
     (case t of
        OtherError name message \<Rightarrow>
          (let msg = toLowerCase message
           in if str_includes msg ''timeout'' \<or> name = ''TimeoutError'' then ''timeout''
              else if str_includes msg ''abort'' \<or> name = ''AbortError'' then ''aborted''
              else ''network_error'')
      | _ \<Rightarrow> ''unknown'')"

definition plain_error :: "string \<Rightarrow> string \<Rightarrow> string \<Rightarrow> bool \<Rightarrow> model_error" where
  "plain_error provider code message retryable =
     \<lparr>err_provider = provider, err_model = None, err_code = code, err_message = message, err_retryable = retryable,
      err_recoverableViaCompact = None, err_recoverableViaImageStrip = None, err_retryAfterMs = None,
      err_maxContextTokens = None, err_maxOutputTokens = None, err_availableOutputTokens = None,
      err_streamInterruption = None\<rparr>"

text \<open>The \<open>catch\<close> of \<open>streamAttempt\<close>.\<close>

definition canonical_thrown :: "string \<Rightarrow> thrown \<Rightarrow> model_error" where
  "canonical_thrown provider t =
     (case t of
        CarriesModelError e \<Rightarrow> e
      | RequestRejected code message \<Rightarrow> plain_error provider code message False
      | OtherError name message \<Rightarrow> plain_error provider (classifyNetworkErrorCode t) message (isNetworkTransient t)
      | NonError text \<Rightarrow> plain_error provider (classifyNetworkErrorCode t) text (isNetworkTransient t))"

record attempt_outcome =
  ao_buffered :: "model_event list"
  ao_error :: "model_error option"
  ao_usage :: "usage option"
  ao_zeroUsage :: bool

definition last_error_event :: "model_event list \<Rightarrow> model_error option" where
  "last_error_event evs = foldl (\<lambda>e ev. case ev of ErrorEvent x \<Rightarrow> Some x | _ \<Rightarrow> e) None evs"

text \<open>The outcome \<open>streamAttempt\<close> ends with, unless the signal made it throw.\<close>

definition attempt_outcome_of :: "string \<Rightarrow> model_event list \<Rightarrow> stream_end \<Rightarrow> attempt_outcome" where
  "attempt_outcome_of provider evs fin =
     (let z = foldl observeEventForZeroUsage createZeroUsageState evs
      in \<lparr>ao_buffered = evs,
          ao_error = (case fin of Thrown t \<Rightarrow> Some (canonical_thrown provider t) | _ \<Rightarrow> last_error_event evs),
          ao_usage = observedUsage z, ao_zeroUsage = shouldRetryZeroUsage z\<rparr>)"

section \<open>The state of a run\<close>

record attempt_plan =
  ap_attempt :: model_ref
  ap_downgrade :: bool

record retry_config =
  xc_zeroUsageRetry :: "(bool \<times> int) option"
  xc_transientRetry :: "(bool \<times> int \<times> rat \<times> rat) option" \<comment> \<open>enabled, attempts, base and longest delay\<close>
  xc_subagentMaxTokens :: "int option"

definition LITELLM_DEFAULT_MAX_RETRIES :: int where
  "LITELLM_DEFAULT_MAX_RETRIES = 5"

definition zeroUsageMax :: "retry_config \<Rightarrow> nat" where
  "zeroUsageMax xc = nat (max 1 (case xc_zeroUsageRetry xc of None \<Rightarrow> 5 | Some (_, n) \<Rightarrow> n))"

definition zeroUsageEnabled :: "retry_config \<Rightarrow> bool" where
  "zeroUsageEnabled xc = (case xc_zeroUsageRetry xc of None \<Rightarrow> True | Some (b, _) \<Rightarrow> b)"

definition transientRetryEnabled :: "retry_config \<Rightarrow> bool" where
  "transientRetryEnabled xc = (case xc_transientRetry xc of None \<Rightarrow> True | Some (b, _) \<Rightarrow> b)"

definition transientRetryMax :: "retry_config \<Rightarrow> nat" where
  "transientRetryMax xc =
     nat (max 1 (case xc_transientRetry xc of None \<Rightarrow> LITELLM_DEFAULT_MAX_RETRIES | Some (_, n, _) \<Rightarrow> n))"

definition transientBaseDelayMs :: "retry_config \<Rightarrow> rat" where
  "transientBaseDelayMs xc = (case xc_transientRetry xc of None \<Rightarrow> 500 | Some (_, _, b, _) \<Rightarrow> b)"

definition transientMaxDelayMs :: "retry_config \<Rightarrow> rat" where
  "transientMaxDelayMs xc = (case xc_transientRetry xc of None \<Rightarrow> 10000 | Some (_, _, _, m) \<Rightarrow> m)"

definition LITELLM_RETRY_JITTER :: rat where
  "LITELLM_RETRY_JITTER = 1 / 10"

definition calculateLiteLLMRetryDelay :: "nat \<Rightarrow> rat \<Rightarrow> rat \<Rightarrow> rat \<Rightarrow> rat" where
  "calculateLiteLLMRetryDelay attempt baseDelayMs maxDelayMs random =
     (let deterministicDelay = baseDelayMs * (of_nat attempt + 1);
          jitterDelay = deterministicDelay * LITELLM_RETRY_JITTER * random
      in min (deterministicDelay + jitterDelay) maxDelayMs)"

definition transient_delay :: "retry_config \<Rightarrow> model_error \<Rightarrow> nat \<Rightarrow> rat \<Rightarrow> rat" where
  "transient_delay xc e retries random =
     (case err_retryAfterMs e of
        Some ms \<Rightarrow> min (of_int ms) (transientMaxDelayMs xc)
      | None \<Rightarrow> calculateLiteLLMRetryDelay retries (transientBaseDelayMs xc) (transientMaxDelayMs xc) random)"

record exec_env =
  xe_stream :: "nat \<Rightarrow> model_ref \<Rightarrow> bool \<Rightarrow> model_event list \<times> stream_end"
  xe_aborted :: "nat \<Rightarrow> bool"       \<comment> \<open>the signal before the attempt of this index streams\<close>
  xe_delayAborted :: "nat \<Rightarrow> bool"  \<comment> \<open>the signal during the wait after this many calls\<close>
  xe_clock :: "nat \<Rightarrow> int"          \<comment> \<open>the clock after this many calls\<close>
  xe_random :: "nat \<Rightarrow> rat"
  xe_estimate :: "model_ref \<Rightarrow> bool \<Rightarrow> int"  \<comment> \<open>tokens of the attempt's request\<close>
  xe_responseTokens :: "model_event list \<Rightarrow> int"
  xe_isSubagent :: bool
  xe_health :: health_options

record call_record =
  cr_attempt :: model_ref
  cr_events :: "model_event list"
  cr_end :: stream_end

record exec_state =
  x_out :: "model_event list"
  x_calls :: "call_record list"
  x_tracker :: tracker
  x_lastBuffered :: "model_event list"
  x_lastError :: "model_error option"
  x_lastAttempt :: "model_ref option"
  x_lastYielded :: bool
  x_waits :: "rat list"
  x_observed :: "usage option"

definition initial_exec :: "tracker \<Rightarrow> exec_state" where
  "initial_exec t = \<lparr>x_out = [], x_calls = [], x_tracker = t, x_lastBuffered = [], x_lastError = None,
     x_lastAttempt = None, x_lastYielded = False, x_waits = [], x_observed = None\<rparr>"

definition emit :: "model_event list \<Rightarrow> exec_state \<Rightarrow> exec_state" where
  "emit evs st = st\<lparr>x_out := x_out st @ evs\<rparr>"

section \<open>One call\<close>

text \<open>The body of the \<open>for await\<close>: what has been given out, what is pending, whether content was seen.\<close>

fun stream_item :: "model_event list \<times> model_event list \<times> bool \<Rightarrow> model_event \<Rightarrow> model_event list \<times> model_event list \<times> bool" where
  "stream_item (given, pending, yielded) ev =
     (if \<not> yielded \<and> isContentEvent ev then (given @ pending @ [ev], [], True)
      else if yielded then (given @ [ev], pending, yielded)
      else (given, pending @ [ev], yielded))"

definition run_stream :: "model_event list \<Rightarrow> model_event list \<times> model_event list \<times> bool" where
  "run_stream evs = foldl stream_item ([], [], False) evs"

definition finalUsage :: "exec_env \<Rightarrow> attempt_plan \<Rightarrow> attempt_outcome \<Rightarrow> usage" where
  "finalUsage env plan oc =
     (let missing = (case ao_usage oc of None \<Rightarrow> True
                     | Some u \<Rightarrow> zero_or (inputTokens u) = 0 \<and> zero_or (outputTokens u) = 0);
          inputEst = xe_estimate env (ap_attempt plan) (ap_downgrade plan);
          outputEst = xe_responseTokens env (ao_buffered oc)
      in if missing
         then empty_usage\<lparr>inputTokens := Some inputEst, outputTokens := Some outputEst,
                          totalTokens := Some (inputEst + outputEst)\<rparr>
         else the (ao_usage oc))"

datatype attempt_result = NextAttempt | BreakOuter | Completed | Threw

text \<open>The \<open>while (true)\<close> of an attempt, with the two counters of the loop.\<close>

function attempt_loop ::
    "retry_config \<Rightarrow> exec_env \<Rightarrow> attempt_plan \<Rightarrow> bool \<Rightarrow> nat \<Rightarrow> nat \<Rightarrow> exec_state \<Rightarrow> attempt_result \<times> exec_state" where
  "attempt_loop xc env plan isLast zeroBefore transient st =
     (let zero = zeroBefore + 1;
          n = length (x_calls st);
          attempt = ap_attempt plan;
          (evs, fin) = xe_stream env n attempt (ap_downgrade plan);
          (given, pending, yielded) = run_stream evs;
          st1 = emit given (st\<lparr>x_calls := x_calls st @ [\<lparr>cr_attempt = attempt, cr_events = evs, cr_end = fin\<rparr>]\<rparr>)
      in if fin = AbortThrown then (Threw, st1)
         else (let oc = attempt_outcome_of (ref_provider attempt) evs fin;
                   st2 = st1\<lparr>x_lastBuffered := ao_buffered oc\<rparr>
               in case ao_error oc of
                    Some e \<Rightarrow>
                      (let st3 = st2\<lparr>x_lastError := Some e,
                             x_tracker := recordFailure (xe_health env) (ref_provider attempt) (xe_clock env n) (x_tracker st2)\<rparr>
                       in if \<not> yielded \<and> isFallbackEligible e \<and> \<not> isLast then (NextAttempt, st3)
                          else if \<not> yielded \<and> isFallbackEligible e \<and> transientRetryEnabled xc
                                  \<and> transient < transientRetryMax xc
                          then (let st4 = st3\<lparr>x_waits := x_waits st3 @ [transient_delay xc e transient (xe_random env n)]\<rparr>
                                in if xe_delayAborted env n then (Threw, st4)
                                   else attempt_loop xc env plan isLast zero (transient + 1) st4)
                          else (BreakOuter, (emit pending st3)\<lparr>x_lastYielded := yielded\<rparr>))
                  | None \<Rightarrow>
                      if \<not> yielded \<and> zeroUsageEnabled xc \<and> ao_zeroUsage oc \<and> zero < zeroUsageMax xc
                      then (let st4 = st2\<lparr>x_waits := x_waits st2 @ [500 * of_nat zero]\<rparr>
                            in if xe_delayAborted env n then (Threw, st4)
                               else attempt_loop xc env plan isLast zero transient st4)
                      else (let st3 = st2\<lparr>x_tracker := recordSuccess (xe_health env) (ref_provider attempt) (x_tracker st2)\<rparr>;
                                st4 = (if \<not> yielded then emit pending st3 else st3)
                            in (Completed, st4\<lparr>x_observed := Some (finalUsage env plan oc)\<rparr>))))"
  by pat_completeness auto

termination
  by (relation "measure (\<lambda>(xc, env, plan, isLast, zero, transient, st).
        (zeroUsageMax xc - zero) + (transientRetryMax xc - transient))")
    (auto simp: less_diff_conv2)

declare attempt_loop.simps [simp del]

section \<open>The run\<close>

text \<open>The candidates without an earlier one of the same provider and model.\<close>

fun first_of_model :: "model_ref list \<Rightarrow> model_ref list \<Rightarrow> model_ref list" where
  "first_of_model earlier [] = []"
| "first_of_model earlier (r # rs) =
     (if list_ex (\<lambda>c. same_model c r) earlier then first_of_model (earlier @ [r]) rs
      else r # first_of_model (earlier @ [r]) rs)"

definition attemptPlans ::
    "modalities \<Rightarrow> modality list \<Rightarrow> fallback_config option \<Rightarrow> scenario_type \<Rightarrow> model_ref \<Rightarrow> attempt_plan list" where
  "attemptPlans g required fallback scenario requested =
     (let candidates = first_of_model [] (requested # planFallback fallback scenario);
          native = filter (\<lambda>r. supportsMediaRequirements g r required) candidates;
          downgraded = (if required \<noteq> [] then filter (\<lambda>r. \<not> supportsMediaRequirements g r required) candidates else [])
      in map (\<lambda>r. \<lparr>ap_attempt = r, ap_downgrade = False\<rparr>) native
         @ map (\<lambda>r. \<lparr>ap_attempt = r, ap_downgrade = True\<rparr>) downgraded)"

datatype exec_result = Delivered | Failed | OverBudget | Stopped | Aborted

definition budget_error :: "string \<Rightarrow> model_error" where
  "budget_error provider = plain_error provider ''subagent_budget_exceeded'' ''Sub-agent budget exceeded'' False"

definition over_budget :: "retry_config \<Rightarrow> exec_env \<Rightarrow> attempt_plan \<Rightarrow> bool" where
  "over_budget xc env plan \<longleftrightarrow>
     xe_isSubagent env
     \<and> (case xc_subagentMaxTokens xc of
          None \<Rightarrow> False
        | Some budget \<Rightarrow> budget \<noteq> 0 \<and> budget < xe_estimate env (ap_attempt plan) (ap_downgrade plan))"

text \<open>What follows the loop when the last attempt failed.\<close>

definition report_failure :: "exec_state \<Rightarrow> exec_result \<times> exec_state" where
  "report_failure st =
     (case (x_lastError st, x_lastAttempt st) of
        (Some e, Some r) \<Rightarrow>
          (let st1 = (if \<not> x_lastYielded st then emit (filter (\<lambda>ev. \<not> isErrorEvent ev) (x_lastBuffered st)) st else st)
           in (Failed, emit [ErrorEvent (e\<lparr>err_provider := ref_provider r, err_model := Some (ref_model r)\<rparr>)] st1))
      | _ \<Rightarrow> (Stopped, st))"

text \<open>The loop over the plans, from the index on. The breaker is asked for every plan but the first, even
  for the last, which is tried whatever it says.\<close>

fun run_plans :: "retry_config \<Rightarrow> exec_env \<Rightarrow> nat \<Rightarrow> attempt_plan list \<Rightarrow> exec_state \<Rightarrow> exec_result \<times> exec_state" where
  "run_plans xc env idx [] st = report_failure st"
| "run_plans xc env idx (plan # rest) st =
     (if xe_aborted env idx then (Stopped, st)
      else (let prov = ref_provider (ap_attempt plan);
                (skip, t') = (if 0 < idx then shouldSkip (xe_health env) prov (xe_clock env (length (x_calls st))) (x_tracker st)
                              else (False, x_tracker st));
                st1 = st\<lparr>x_tracker := t'\<rparr>
            in if skip \<and> rest \<noteq> [] then run_plans xc env (idx + 1) rest st1
               else (let st2 = st1\<lparr>x_lastAttempt := Some (ap_attempt plan)\<rparr>
                     in if over_budget xc env plan then (OverBudget, emit [ErrorEvent (budget_error prov)] st2)
                        else (case attempt_loop xc env plan (rest = []) 0 0 st2 of
                                (NextAttempt, st3) \<Rightarrow> run_plans xc env (idx + 1) rest st3
                              | (BreakOuter, st3) \<Rightarrow> report_failure st3
                              | (Completed, st3) \<Rightarrow> (Delivered, st3)
                              | (Threw, st3) \<Rightarrow> (Aborted, st3)))))"

definition execute :: "retry_config \<Rightarrow> exec_env \<Rightarrow> attempt_plan list \<Rightarrow> tracker \<Rightarrow> exec_result \<times> exec_state" where
  "execute xc env plans t = run_plans xc env 0 plans (initial_exec t)"

text \<open>With the router disabled a request is streamed once, as it comes; an error that was thrown is given out
  unless the stream had reported one.\<close>

definition passthrough :: "string \<Rightarrow> model_event list \<Rightarrow> stream_end \<Rightarrow> exec_result \<times> model_event list" where
  "passthrough provider evs fin =
     (if fin = AbortThrown then (Aborted, evs)
      else (case ao_error (attempt_outcome_of provider evs fin) of
              None \<Rightarrow> (Delivered, evs)
            | Some e \<Rightarrow> (Failed, if list_ex isErrorEvent evs then evs else evs @ [ErrorEvent e])))"

definition clampMaxOutputTokens :: "int option \<Rightarrow> int option \<Rightarrow> int option" where
  "clampMaxOutputTokens requested cap =
     (case (requested, cap) of
        (Some r, Some c) \<Rightarrow> if 0 < c \<and> c < r then Some c else Some r
      | _ \<Rightarrow> requested)"

section \<open>Streams of a call\<close>

lemma run_stream_fold:
  "foldl stream_item (given, pending, yielded) evs =
     (if yielded then (given @ evs, pending, True)
      else if list_ex isContentEvent evs then (given @ pending @ evs, [], True)
      else (given, pending @ evs, False))"
  by (induction evs arbitrary: given pending yielded) auto

text \<open>A stream with content is passed on whole and in order; one without is held back whole.\<close>

lemma run_stream_eq:
  "run_stream evs = (if list_ex isContentEvent evs then (evs, [], True) else ([], evs, False))"
  by (simp add: run_stream_def run_stream_fold)

definition contentless :: "call_record \<Rightarrow> bool" where
  "contentless c \<longleftrightarrow> \<not> list_ex isContentEvent (cr_events c)"

definition given_out :: "call_record \<Rightarrow> model_event list" where
  "given_out c = (if contentless c then [] else cr_events c)"

text \<open>What the last call of an attempt leaves, by the result of the attempt.\<close>

definition last_call_effect :: "attempt_plan \<Rightarrow> exec_state \<Rightarrow> attempt_result \<Rightarrow> call_record \<Rightarrow> exec_state \<Rightarrow> bool" where
  "last_call_effect plan st r c st' \<longleftrightarrow>
     (let e = ao_error (attempt_outcome_of (ref_provider (ap_attempt plan)) (cr_events c) (cr_end c))
      in case r of
           NextAttempt \<Rightarrow> contentless c \<and> x_out st' = x_out st \<and> x_lastYielded st' = x_lastYielded st
         | BreakOuter \<Rightarrow> x_out st' = x_out st @ cr_events c \<and> x_lastYielded st' = (\<not> contentless c)
             \<and> x_lastBuffered st' = cr_events c \<and> x_lastError st' = e \<and> e \<noteq> None \<and> cr_end c \<noteq> AbortThrown
         | Completed \<Rightarrow> x_out st' = x_out st @ cr_events c \<and> e = None \<and> cr_end c = Ended
         | Threw \<Rightarrow> x_out st' = x_out st @ given_out c)"

text \<open>What one attempt does to the state: it makes at least one call, all but the last without content, and
  gives out what its last call did, or nothing when the last call is left to a retry or to the next plan.\<close>

definition attempt_effect :: "retry_config \<Rightarrow> attempt_plan \<Rightarrow> nat \<Rightarrow> nat \<Rightarrow> exec_state \<Rightarrow> attempt_result \<Rightarrow> exec_state \<Rightarrow> bool" where
  "attempt_effect xc plan zero transient st r st' \<longleftrightarrow>
     (\<exists>cs c. x_calls st' = x_calls st @ cs @ [c]
        \<and> list_all contentless cs
        \<and> list_all (\<lambda>c. cr_attempt c = ap_attempt plan) (cs @ [c])
        \<and> length cs \<le> (zeroUsageMax xc - Suc zero) + (transientRetryMax xc - transient)
        \<and> x_lastAttempt st' = x_lastAttempt st
        \<and> last_call_effect plan st r c st')"

lemma last_call_effect_cong:
  "x_out st1 = x_out st \<Longrightarrow> x_lastYielded st1 = x_lastYielded st
    \<Longrightarrow> last_call_effect plan st1 r c st' = last_call_effect plan st r c st'"
  by (cases r) (simp_all add: last_call_effect_def)

lemma attempt_effect_more:
  assumes "attempt_effect xc plan z' t' st1 r st'"
    and "x_calls st1 = x_calls st @ [c0]" and "contentless c0" and "cr_attempt c0 = ap_attempt plan"
    and "x_out st1 = x_out st" and "x_lastAttempt st1 = x_lastAttempt st" and "x_lastYielded st1 = x_lastYielded st"
    and "(zeroUsageMax xc - Suc z') + (transientRetryMax xc - t') < (zeroUsageMax xc - Suc z) + (transientRetryMax xc - t)"
  shows "attempt_effect xc plan z t st r st'"
proof -
  obtain cs c where "x_calls st' = x_calls st1 @ cs @ [c]" "list_all contentless cs"
    "list_all (\<lambda>c. cr_attempt c = ap_attempt plan) (cs @ [c])"
    "length cs \<le> (zeroUsageMax xc - Suc z') + (transientRetryMax xc - t')"
    "x_lastAttempt st' = x_lastAttempt st1" "last_call_effect plan st1 r c st'"
    using assms(1) unfolding attempt_effect_def by blast
  then show ?thesis
    unfolding attempt_effect_def using assms(2-) last_call_effect_cong [OF assms(5,7)]
    by (intro exI [of _ "c0 # cs"] exI [of _ c]) simp
qed

lemma attempt_effect_last:
  assumes "x_calls st' = x_calls st @ [c]" and "cr_attempt c = ap_attempt plan"
    and "x_lastAttempt st' = x_lastAttempt st" and "last_call_effect plan st r c st'"
  shows "attempt_effect xc plan z t st r st'"
  unfolding attempt_effect_def using assms by (intro exI [of _ "[]"] exI [of _ c]) simp

lemma ao_buffered_of [simp]: "ao_buffered (attempt_outcome_of p evs fin) = evs"
  by (simp add: attempt_outcome_of_def Let_def)

lemma thrown_is_error [simp]: "ao_error (attempt_outcome_of p evs (Thrown t)) = Some (canonical_thrown p t)"
  by (simp add: attempt_outcome_of_def Let_def)

lemma no_error_ended: "ao_error (attempt_outcome_of p evs fin) = None \<Longrightarrow> fin \<noteq> AbortThrown \<Longrightarrow> fin = Ended"
  by (cases fin) auto

lemma attempt_loop_effect:
  "case attempt_loop xc env plan isLast zero transient st of (r, st') \<Rightarrow> attempt_effect xc plan zero transient st r st'"
proof (induction "(zeroUsageMax xc - zero) + (transientRetryMax xc - transient)" arbitrary: zero transient st
    rule: less_induct)
  case less
  define n where "n = length (x_calls st)"
  obtain evs fin where stream: "xe_stream env n (ap_attempt plan) (ap_downgrade plan) = (evs, fin)" by fastforce
  obtain given pending yielded where rs: "run_stream evs = (given, pending, yielded)" by (metis prod_cases3)
  define c where "c = \<lparr>cr_attempt = ap_attempt plan, cr_events = evs, cr_end = fin\<rparr>"
  define oc where "oc = attempt_outcome_of (ref_provider (ap_attempt plan)) evs fin"
  have y: "yielded = (\<not> contentless c)" "given @ pending = evs" "given = given_out c"
    using rs by (auto simp: run_stream_eq contentless_def given_out_def c_def split: if_splits)
  have c: "cr_attempt c = ap_attempt plan" "cr_events c = evs" "cr_end c = fin" by (simp_all add: c_def)
  have none: "given = []" if "contentless c" using that by (simp add: y(3) given_out_def)
  have all: "given = evs" if "\<not> contentless c" using that by (simp add: y(3) given_out_def c)
  define st1 where "st1 = emit given (st\<lparr>x_calls := x_calls st @ [c]\<rparr>)"
  note step = attempt_loop.simps [of xc env plan isLast zero transient st, unfolded Let_def n_def [symmetric], unfolded stream rs prod.case, folded c_def st1_def oc_def]
  show ?case
  proof (cases "fin = AbortThrown")
    case True
    have "last_call_effect plan st Threw c st1"
      by (simp add: last_call_effect_def st1_def emit_def y(3))
    then have "attempt_effect xc plan zero transient st Threw st1"
      by (intro attempt_effect_last [of _ _ c]) (simp_all add: st1_def emit_def c)
    then show ?thesis using True by (simp add: step st1_def)
  next
    case False
    note nab = this
    show ?thesis
    proof (cases "ao_error oc")
      case None
      then have fin: "fin = Ended" using nab no_error_ended by (simp add: oc_def)
      show ?thesis
      proof (cases "\<not> yielded \<and> zeroUsageEnabled xc \<and> ao_zeroUsage oc \<and> zero + 1 < zeroUsageMax xc")
        case True
        define st4 where "st4 = st1\<lparr>x_lastBuffered := evs, x_waits := x_waits st @ [500 * of_nat (zero + 1)]\<rparr>"
        have st4: "x_calls st4 = x_calls st @ [c]" "x_out st4 = x_out st" "x_lastAttempt st4 = x_lastAttempt st"
          "x_lastYielded st4 = x_lastYielded st" "contentless c"
          using True none y(1) by (simp_all add: st4_def st1_def emit_def)
        have eq: "attempt_loop xc env plan isLast zero transient st =
          (if xe_delayAborted env n then (Threw, st4) else attempt_loop xc env plan isLast (zero + 1) transient st4)"
          using True nab None by (simp add: step st4_def st1_def oc_def emit_def)
        have "case attempt_loop xc env plan isLast (zero + 1) transient st4 of
            (r, st') \<Rightarrow> attempt_effect xc plan (zero + 1) transient st4 r st'"
          using True by (intro less) auto
        then have "case attempt_loop xc env plan isLast (zero + 1) transient st4 of
            (r, st') \<Rightarrow> attempt_effect xc plan zero transient st r st'"
          using True by (auto intro!: attempt_effect_more [OF _ st4(1,5) c(1) st4(2-4)])
        moreover have "attempt_effect xc plan zero transient st Threw st4"
          using st4(5) by (intro attempt_effect_last [OF st4(1) c(1) st4(3)])
            (simp add: last_call_effect_def st4(2) given_out_def)
        ultimately show ?thesis by (simp add: eq)
      next
        case False
        define st4 where "st4 = (let st3 = st1\<lparr>x_lastBuffered := evs,
              x_tracker := recordSuccess (xe_health env) (ref_provider (ap_attempt plan)) (x_tracker st)\<rparr>
            in (if \<not> yielded then emit pending st3 else st3)\<lparr>x_observed := Some (finalUsage env plan oc)\<rparr>)"
        have eq: "attempt_loop xc env plan isLast zero transient st = (Completed, st4)"
          using False nab None by (auto simp: step st4_def st1_def oc_def emit_def Let_def)
        have st4: "x_calls st4 = x_calls st @ [c]" "x_lastAttempt st4 = x_lastAttempt st" "x_out st4 = x_out st @ evs"
          using y(1,2) none all by (auto simp: st4_def st1_def emit_def Let_def)
        have "last_call_effect plan st Completed c st4"
          using None by (simp add: last_call_effect_def st4 c fin oc_def)
        then show ?thesis by (simp add: eq attempt_effect_last [OF st4(1) c(1) st4(2)])
      qed
    next
      case (Some e)
      define st3 where "st3 = st1\<lparr>x_lastBuffered := evs, x_lastError := Some e,
          x_tracker := recordFailure (xe_health env) (ref_provider (ap_attempt plan)) (xe_clock env n) (x_tracker st)\<rparr>"
      have st3: "x_calls st3 = x_calls st @ [c]" "x_lastAttempt st3 = x_lastAttempt st"
        "x_lastYielded st3 = x_lastYielded st" "x_out st3 = x_out st @ given_out c"
        by (simp_all add: st3_def st1_def emit_def y(3))
      show ?thesis
      proof (cases "\<not> yielded \<and> isFallbackEligible e \<and> \<not> isLast")
        case True
        have eq: "attempt_loop xc env plan isLast zero transient st = (NextAttempt, st3)"
          unfolding step using True nab Some by (simp add: st3_def st1_def oc_def emit_def)
        have "last_call_effect plan st NextAttempt c st3"
          using True y(1) by (simp add: last_call_effect_def st3 given_out_def)
        then show ?thesis by (simp add: eq attempt_effect_last [OF st3(1) c(1) st3(2)])
      next
        case no_next: False
        show ?thesis
        proof (cases "\<not> yielded \<and> isFallbackEligible e \<and> transientRetryEnabled xc \<and> transient < transientRetryMax xc")
          case True
          define st4 where "st4 = st3\<lparr>x_waits := x_waits st @ [transient_delay xc e transient (xe_random env n)]\<rparr>"
          have st4: "x_calls st4 = x_calls st @ [c]" "x_out st4 = x_out st" "x_lastAttempt st4 = x_lastAttempt st"
            "x_lastYielded st4 = x_lastYielded st" "contentless c"
            using True y(1) by (simp_all add: st4_def st3 given_out_def)
          have eq: "attempt_loop xc env plan isLast zero transient st =
            (if xe_delayAborted env n then (Threw, st4) else attempt_loop xc env plan isLast (zero + 1) (transient + 1) st4)"
            unfolding step using True nab Some no_next by (auto simp: st4_def st3_def st1_def oc_def emit_def)
          have "case attempt_loop xc env plan isLast (zero + 1) (transient + 1) st4 of
              (r, st') \<Rightarrow> attempt_effect xc plan (zero + 1) (transient + 1) st4 r st'"
            using True by (intro less) auto
          then have "case attempt_loop xc env plan isLast (zero + 1) (transient + 1) st4 of
              (r, st') \<Rightarrow> attempt_effect xc plan zero transient st r st'"
            using True by (auto intro!: attempt_effect_more [OF _ st4(1,5) c(1) st4(2-4)])
          moreover have "attempt_effect xc plan zero transient st Threw st4"
            using st4(5) by (intro attempt_effect_last [OF st4(1) c(1) st4(3)])
              (simp add: last_call_effect_def st4(2) given_out_def)
          ultimately show ?thesis by (simp add: eq)
        next
          case False
          define st4 where "st4 = (emit pending st3)\<lparr>x_lastYielded := yielded\<rparr>"
          have eq: "attempt_loop xc env plan isLast zero transient st = (BreakOuter, st4)"
            unfolding step using False nab Some no_next by (auto simp: st4_def st3_def st1_def oc_def emit_def)
          have st4: "x_calls st4 = x_calls st @ [c]" "x_lastAttempt st4 = x_lastAttempt st" "x_out st4 = x_out st @ evs"
            "x_lastYielded st4 = (\<not> contentless c)" "x_lastBuffered st4 = evs" "x_lastError st4 = Some e"
            using y(1,2,3) by (auto simp: st4_def st3 emit_def) (simp_all add: st3_def)
          have "last_call_effect plan st BreakOuter c st4"
            using Some nab by (simp add: last_call_effect_def st4 c oc_def)
          then show ?thesis by (simp add: eq attempt_effect_last [OF st4(1) c(1) st4(2)])
        qed
      qed
    qed
  qed
qed

lemma no_next_on_last: "fst (attempt_loop xc env plan True zero transient st) \<noteq> NextAttempt"
proof (induction "(zeroUsageMax xc - zero) + (transientRetryMax xc - transient)" arbitrary: zero transient st
    rule: less_induct)
  case less
  show ?case
    by (subst attempt_loop.simps) (auto simp: Let_def split: prod.splits option.splits intro!: less)
qed

section \<open>What a run does\<close>

definition failure_report :: "call_record \<Rightarrow> model_event list" where
  "failure_report c =
     cr_events c @ (if contentless c then filter (\<lambda>ev. \<not> isErrorEvent ev) (cr_events c) else [])
     @ [ErrorEvent ((the (ao_error (attempt_outcome_of (ref_provider (cr_attempt c)) (cr_events c) (cr_end c))))
          \<lparr>err_provider := ref_provider (cr_attempt c), err_model := Some (ref_model (cr_attempt c))\<rparr>)]"

text \<open>The events of a run, from its calls and its result.\<close>

definition result_effect :: "exec_result \<Rightarrow> call_record list \<Rightarrow> exec_state \<Rightarrow> bool" where
  "result_effect res cs st \<longleftrightarrow>
     (case res of
        Delivered \<Rightarrow> cs \<noteq> [] \<and> x_out st = cr_events (last cs) \<and> cr_end (last cs) = Ended
      | Failed \<Rightarrow> cs \<noteq> [] \<and> x_out st = failure_report (last cs)
      | OverBudget \<Rightarrow> list_all contentless cs
          \<and> x_out st = [ErrorEvent (budget_error (ref_provider (the (x_lastAttempt st))))]
      | Stopped \<Rightarrow> list_all contentless cs \<and> x_out st = []
      | Aborted \<Rightarrow> cs \<noteq> [] \<and> x_out st = given_out (last cs))"

definition run_effect :: "nat \<Rightarrow> exec_state \<Rightarrow> exec_result \<Rightarrow> exec_state \<Rightarrow> bool" where
  "run_effect bound st res st' \<longleftrightarrow>
     (\<exists>cs. x_calls st' = x_calls st @ cs \<and> length cs \<le> bound \<and> list_all contentless (butlast cs) \<and> result_effect res cs st')"

lemma run_effect_more:
  assumes "run_effect b st1 res st'" and "x_calls st1 = x_calls st @ pre" and "list_all contentless pre"
    and "length pre + b \<le> b'"
  shows "run_effect b' st res st'"
proof -
  obtain cs where cs: "x_calls st' = x_calls st1 @ cs" "length cs \<le> b" "list_all contentless (butlast cs)"
    "result_effect res cs st'"
    using assms(1) unfolding run_effect_def by blast
  have "result_effect res (pre @ cs) st'"
    using cs(4) assms(3) by (cases res) (auto simp: result_effect_def)
  moreover have "list_all contentless (butlast (pre @ cs))"
    using cs(3) assms(3) by (auto simp: butlast_append list_all_iff dest: in_set_butlastD)
  ultimately show ?thesis
    unfolding run_effect_def using cs assms(2,4) by (intro exI [of _ "pre @ cs"]) simp
qed

lemma zeroUsageMax_pos: "0 < zeroUsageMax xc"
  by (simp add: zeroUsageMax_def)

lemma attempt_calls:
  assumes "attempt_effect xc plan 0 0 st r st'"
  obtains cs c where "x_calls st' = x_calls st @ cs @ [c]" and "list_all contentless cs"
    and "length (cs @ [c]) \<le> zeroUsageMax xc + transientRetryMax xc" and "cr_attempt c = ap_attempt plan"
    and "x_lastAttempt st' = x_lastAttempt st" and "last_call_effect plan st r c st'"
proof -
  obtain cs c where "x_calls st' = x_calls st @ cs @ [c]" "list_all contentless cs" "cr_attempt c = ap_attempt plan"
    "length cs \<le> (zeroUsageMax xc - Suc 0) + transientRetryMax xc"
    "x_lastAttempt st' = x_lastAttempt st" "last_call_effect plan st r c st'"
    using assms unfolding attempt_effect_def by auto
  moreover have "length (cs @ [c]) \<le> zeroUsageMax xc + transientRetryMax xc"
    using calculation(4) zeroUsageMax_pos [of xc] by simp
  ultimately show ?thesis using that by blast
qed

lemma run_effect_finish:
  assumes "x_calls st' = x_calls st @ cs @ [c]" and "list_all contentless cs" and "length (cs @ [c]) \<le> b"
    and "result_effect res (cs @ [c]) st'"
  shows "run_effect b st res st'"
  unfolding run_effect_def using assms by (intro exI [of _ "cs @ [c]"]) simp

lemma run_effect_none: "x_calls st' = x_calls st \<Longrightarrow> result_effect res [] st' \<Longrightarrow> run_effect b st res st'"
  unfolding run_effect_def by (intro exI [of _ "[]"]) simp

lemma report_failure_effect:
  assumes "x_out st = []" and "last_call_effect plan st BreakOuter c st3" and "cr_attempt c = ap_attempt plan"
    and "x_lastAttempt st3 = Some (ap_attempt plan)"
  shows "case report_failure st3 of (res, st') \<Rightarrow> res = Failed \<and> x_out st' = failure_report c \<and> x_calls st' = x_calls st3"
  using assms
  by (auto simp: last_call_effect_def Let_def report_failure_def failure_report_def emit_def)

declare run_plans.simps [simp del]

lemma run_plans_effect:
  assumes "plans \<noteq> []" and "x_out st = []"
  shows "case run_plans xc env idx plans st of
           (res, st') \<Rightarrow> run_effect (length plans * (zeroUsageMax xc + transientRetryMax xc)) st res st'"
  using assms
proof (induction plans arbitrary: idx st)
  case (Cons plan rest)
  let ?M = "zeroUsageMax xc + transientRetryMax xc"
  obtain skip t' where skip: "(if 0 < idx then shouldSkip (xe_health env) (ref_provider (ap_attempt plan))
      (xe_clock env (length (x_calls st))) (x_tracker st) else (False, x_tracker st)) = (skip, t')"
    by fastforce
  define st1 where "st1 = st\<lparr>x_tracker := t'\<rparr>"
  define st2 where "st2 = st1\<lparr>x_lastAttempt := Some (ap_attempt plan)\<rparr>"
  have st2: "x_calls st2 = x_calls st" "x_out st2 = []" "x_lastAttempt st2 = Some (ap_attempt plan)"
    and st1: "x_calls st1 = x_calls st" "x_out st1 = []"
    using Cons.prems(2) by (simp_all add: st1_def st2_def)
  obtain r st3 where loop: "attempt_loop xc env plan (rest = []) 0 0 st2 = (r, st3)" by fastforce
  have eq: "run_plans xc env idx (plan # rest) st =
      (if xe_aborted env idx then (Stopped, st)
       else if skip \<and> rest \<noteq> [] then run_plans xc env (idx + 1) rest st1
       else if over_budget xc env plan then (OverBudget, emit [ErrorEvent (budget_error (ref_provider (ap_attempt plan)))] st2)
       else (case r of NextAttempt \<Rightarrow> run_plans xc env (idx + 1) rest st3 | BreakOuter \<Rightarrow> report_failure st3
              | Completed \<Rightarrow> (Delivered, st3) | Threw \<Rightarrow> (Aborted, st3)))"
    unfolding run_plans.simps Let_def skip prod.case st1_def [symmetric] st2_def [symmetric] loop
    by (simp split: attempt_result.splits)
  have bound: "?M \<le> length (plan # rest) * ?M" by simp
  consider "xe_aborted env idx" | "\<not> xe_aborted env idx" "skip \<and> rest \<noteq> []"
    | "\<not> xe_aborted env idx" "\<not> (skip \<and> rest \<noteq> [])" "over_budget xc env plan"
    | "\<not> xe_aborted env idx" "\<not> (skip \<and> rest \<noteq> [])" "\<not> over_budget xc env plan"
    by blast
  then show ?case
  proof cases
    case 1
    then show ?thesis using Cons.prems(2) by (simp add: eq) (rule run_effect_none, simp_all add: result_effect_def)
  next
    case 2
    then have "case run_plans xc env (idx + 1) rest st1 of
        (res, st') \<Rightarrow> run_effect (length rest * ?M) st1 res st'"
      using st1 by (intro Cons.IH) auto
    then have "case run_plans xc env (idx + 1) rest st1 of
        (res, st') \<Rightarrow> run_effect (length (plan # rest) * ?M) st res st'"
      by (auto intro: run_effect_more [of _ _ _ _ _ "[]"] simp: st1)
    then show ?thesis unfolding eq using 2 by simp
  next
    case 3
    then have eq': "run_plans xc env idx (plan # rest) st =
        (OverBudget, emit [ErrorEvent (budget_error (ref_provider (ap_attempt plan)))] st2)"
      unfolding eq by auto
    show ?thesis
      unfolding eq' prod.case by (rule run_effect_none) (simp_all add: result_effect_def emit_def st2)
  next
    case 4
    have eq': "run_plans xc env idx (plan # rest) st =
       (case r of NextAttempt \<Rightarrow> run_plans xc env (idx + 1) rest st3 | BreakOuter \<Rightarrow> report_failure st3
              | Completed \<Rightarrow> (Delivered, st3) | Threw \<Rightarrow> (Aborted, st3))"
      unfolding eq using 4 by auto
    have "attempt_effect xc plan 0 0 st2 r st3"
      using attempt_loop_effect [where xc = xc and env = env and plan = plan and isLast = "rest = []" and zero = 0 and transient = 0 and st = st2] by (simp add: loop)
    then obtain cs c where calls: "x_calls st3 = x_calls st @ cs @ [c]" "list_all contentless cs"
      "length (cs @ [c]) \<le> ?M" "cr_attempt c = ap_attempt plan" "x_lastAttempt st3 = Some (ap_attempt plan)"
      and eff: "last_call_effect plan st2 r c st3"
      by (rule attempt_calls) (auto simp: st2)
    have le: "length (cs @ [c]) \<le> length (plan # rest) * ?M" using calls(3) bound by linarith
    show ?thesis
    proof (cases r)
      case NextAttempt
      have "rest \<noteq> []"
        using no_next_on_last [of xc env plan 0 0 st2] loop NextAttempt by auto
      moreover have "x_out st3 = []" "contentless c"
        using eff by (simp_all add: last_call_effect_def NextAttempt st2 Let_def)
      ultimately have "case run_plans xc env (idx + 1) rest st3 of (res, st') \<Rightarrow> run_effect (length rest * ?M) st3 res st'"
        by (intro Cons.IH) auto
      then have "case run_plans xc env (idx + 1) rest st3 of
          (res, st') \<Rightarrow> run_effect (length (plan # rest) * ?M) st res st'"
        using calls \<open>contentless c\<close> by (auto intro!: run_effect_more [of _ st3 _ _ st "cs @ [c]"])
      then show ?thesis by (simp add: eq' NextAttempt)
    next
      case BreakOuter
      then have "case report_failure st3 of (res, st') \<Rightarrow> res = Failed \<and> x_out st' = failure_report c \<and> x_calls st' = x_calls st3"
        using eff by (intro report_failure_effect [OF st2(2) _ calls(4,5)]) simp
      then show ?thesis
        using le by (auto simp: eq' BreakOuter result_effect_def calls(1) intro!: run_effect_finish [OF _ calls(2)])
    next
      case Completed
      have "result_effect Delivered (cs @ [c]) st3"
        using eff by (simp add: result_effect_def last_call_effect_def Completed st2 Let_def)
      then show ?thesis by (simp only: eq' Completed attempt_result.case prod.case) (rule run_effect_finish [OF calls(1,2) le])
    next
      case Threw
      have "result_effect Aborted (cs @ [c]) st3"
        using eff by (simp add: result_effect_def last_call_effect_def Threw st2 Let_def)
      then show ?thesis by (simp only: eq' Threw attempt_result.case prod.case) (rule run_effect_finish [OF calls(1,2) le])
    qed
  qed
qed simp

lemma execute_effect:
  "case execute xc env plans t of
     (res, st) \<Rightarrow> run_effect (length plans * (zeroUsageMax xc + transientRetryMax xc)) (initial_exec t) res st"
proof (cases "plans = []")
  case True
  then show ?thesis
    by (simp add: execute_def run_plans.simps report_failure_def initial_exec_def result_effect_def run_effect_none)
next
  case False
  then show ?thesis unfolding execute_def by (rule run_plans_effect) (simp add: initial_exec_def)
qed

lemma execute_calls:
  assumes "execute xc env plans t = (res, st)"
  shows "length (x_calls st) \<le> length plans * (zeroUsageMax xc + transientRetryMax xc)"
    and "list_all contentless (butlast (x_calls st))" and "result_effect res (x_calls st) st"
  using execute_effect [where xc = xc and env = env and plans = plans and t = t] assms by (auto simp: run_effect_def initial_exec_def)

definition contents :: "model_event list \<Rightarrow> model_event list" where
  "contents evs = filter isContentEvent evs"

lemma contents_contentless: "contentless c \<Longrightarrow> contents (cr_events c) = []"
  by (simp add: contents_def contentless_def filter_empty_conv list_ex_iff)

lemma concat_contents:
  assumes "list_all contentless (butlast cs)" and "cs \<noteq> []"
  shows "concat (map (\<lambda>c. contents (cr_events c)) cs) = contents (cr_events (last cs))"
proof -
  have "concat (map (\<lambda>c. contents (cr_events c)) (butlast cs)) = []"
    using assms(1) by (auto simp: list_all_iff contents_contentless)
  then have "concat (map (\<lambda>c. contents (cr_events c)) (butlast cs @ [last cs])) = contents (cr_events (last cs))"
    by simp
  then show ?thesis using assms(2) by simp
qed

lemma concat_contents_none:
  "list_all contentless cs \<Longrightarrow> concat (map (\<lambda>c. contents (cr_events c)) cs) = []"
  by (auto simp: list_all_iff contents_contentless)

lemma contents_failure_report: "contents (failure_report c) = contents (cr_events c)"
proof -
  have "filter isContentEvent (filter (\<lambda>ev. \<not> isErrorEvent ev) evs) = filter isContentEvent evs" for evs
    by (induction evs) (auto elim: isErrorEvent.elims)
  then show ?thesis
    using contents_contentless [of c] by (simp add: failure_report_def contents_def)
qed

lemma contents_given_out: "contents (given_out c) = contents (cr_events c)"
  using contents_contentless [of c] by (simp add: given_out_def contents_def)

lemma execute_contents:
  assumes "execute xc env plans t = (res, st)"
  shows "contents (x_out st) = concat (map (\<lambda>c. contents (cr_events c)) (x_calls st))"
proof -
  note e = execute_calls [OF assms]
  show ?thesis
    using e(3) concat_contents [OF e(2)] concat_contents_none [of "x_calls st"]
    by (cases res) (auto simp: result_effect_def contents_failure_report contents_given_out, simp_all add: contents_def)
qed

text \<open>C30. Retries and fallbacks never repeat content. Whatever the providers stream, fail with or are aborted
  in, the content events given to the caller are exactly the content events of all the calls made, each once
  and in order, and every call but the last had none.\<close>

theorem execute_content_once:
  "case execute xc env plans t of
     (res, st) \<Rightarrow> filter isContentEvent (x_out st) = concat (map (\<lambda>c. filter isContentEvent (cr_events c)) (x_calls st))
       \<and> list_all (\<lambda>c. filter isContentEvent (cr_events c) = []) (butlast (x_calls st))"
proof (cases "execute xc env plans t")
  case (Pair res st)
  have "list_all (\<lambda>c. contents (cr_events c) = []) (butlast (x_calls st))"
    using execute_calls(2) [OF Pair] by (auto simp: list_all_iff contents_contentless)
  then show ?thesis using execute_contents [OF Pair] by (simp add: Pair contents_def)
qed

text \<open>C31. Every run ends, after at most as many calls as there are plans times the two retry budgets, and gives
  out exactly this: a delivered run the whole stream of its last call, which ended; a failed run that stream
  and a final error naming the last model (with the events of a stream without content given a second time);
  a run over the subagent's budget one error; a stopped run nothing; an aborted run its last stream as far
  as it had content.\<close>

theorem execute_result:
  "case execute xc env plans t of
     (res, st) \<Rightarrow>
       length (x_calls st) \<le> length plans * (zeroUsageMax xc + transientRetryMax xc)
       \<and> (case res of
            Delivered \<Rightarrow> x_out st = cr_events (last (x_calls st)) \<and> cr_end (last (x_calls st)) = Ended
          | Failed \<Rightarrow> x_out st = failure_report (last (x_calls st))
          | OverBudget \<Rightarrow> x_out st = [ErrorEvent (budget_error (ref_provider (the (x_lastAttempt st))))]
          | Stopped \<Rightarrow> x_out st = []
          | Aborted \<Rightarrow> x_out st = given_out (last (x_calls st)))"
proof (cases "execute xc env plans t")
  case (Pair res st)
  note e = execute_calls [OF Pair]
  show ?thesis using e(1,3) by (cases res) (simp_all add: Pair result_effect_def)
qed

text \<open>A stream that fails after its framing gives the framing to the caller twice, and its error event besides
  the final error.\<close>

definition demo_env :: exec_env where
  "demo_env = \<lparr>xe_stream = (\<lambda>_ _ _. ([RequestStarted ''p'' ''m'', MessageStart, ErrorEvent (plain_error ''p'' ''server_error'' [] False)], Ended)),
     xe_aborted = (\<lambda>_. False), xe_delayAborted = (\<lambda>_. False), xe_clock = (\<lambda>_. 0), xe_random = (\<lambda>_. 0),
     xe_estimate = (\<lambda>_ _. 0), xe_responseTokens = (\<lambda>_. 0), xe_isSubagent = False, xe_health = default_health_options\<rparr>"

lemma failed_framing_repeated:
  "x_out (snd (execute \<lparr>xc_zeroUsageRetry = None, xc_transientRetry = None, xc_subagentMaxTokens = None\<rparr> demo_env
      [\<lparr>ap_attempt = ref_of ''p'' ''m'', ap_downgrade = False\<rparr>] []))
   = (let e = plain_error ''p'' ''server_error'' [] False; framing = [RequestStarted ''p'' ''m'', MessageStart]
      in framing @ [ErrorEvent e] @ framing @ [ErrorEvent (e\<lparr>err_model := Some ''m''\<rparr>)])"
  by code_simp

section \<open>The plans\<close>

text \<open>There is always a plan: the error for a request no model supports is never reported, since an unsupported
  model is tried with a downgraded request.\<close>

lemma attemptPlans_nonempty: "attemptPlans g required fallback scenario requested \<noteq> []"
  by (auto simp: attemptPlans_def Let_def)

definition model_key :: "model_ref \<Rightarrow> string \<times> string" where
  "model_key r = (ref_provider r, ref_model r)"

lemma same_model_key: "same_model a b \<longleftrightarrow> model_key a = model_key b"
  by (auto simp: same_model_def model_key_def)

lemma first_of_model_dedupe:
  "map model_key (first_of_model earlier rs) = dedupe_from (map model_key earlier) (map model_key rs)"
proof (induction rs arbitrary: earlier)
  case (Cons r rs)
  have "list_ex (\<lambda>c. same_model c r) earlier \<longleftrightarrow> model_key r \<in> set (map model_key earlier)"
    by (auto simp: list_ex_iff same_model_key) (metis image_eqI)
  moreover have "dedupe_from (map model_key (earlier @ [r])) ks = dedupe_from (model_key r # map model_key earlier) ks" for ks
    by (rule dedupe_from_cong) auto
  moreover have "dedupe_from (model_key r # map model_key earlier) ks = dedupe_from (map model_key earlier) ks"
    if "model_key r \<in> set (map model_key earlier)" for ks
    by (rule dedupe_from_cong) (use that in auto)
  ultimately show ?case using Cons [of "earlier @ [r]"] by auto
qed simp

text \<open>No model is planned twice, and the plans without a downgrade come first.\<close>

lemma attemptPlans_distinct:
  "distinct (map (\<lambda>p. model_key (ap_attempt p)) (attemptPlans g required fallback scenario requested))"
proof -
  define cands where "cands = first_of_model [] (requested # planFallback fallback scenario)"
  have "map model_key cands = dedupe (map model_key (requested # planFallback fallback scenario))"
    unfolding cands_def first_of_model_dedupe by (simp add: dedupe_def)
  then have "distinct (map model_key cands)" by (metis distinct_dedupe)
  then have d: "inj_on model_key (set cands)" "distinct cands" by (simp_all add: distinct_map)
  then show ?thesis
    unfolding attemptPlans_def Let_def cands_def [symmetric]
    by (auto simp: distinct_map comp_def inj_on_def)
qed

end
