(* ===== verification/Assembler.thy ===== *)
theory Assembler
  imports ToolResults
begin

text \<open>
  From a stream of model events to the assistant message: \<open>model/streaming/assembleModelMessage.ts\<close>, with
  the checkpoint of a broken stream (\<open>StreamingCheckpoint.ts\<close>), the continuation request
  (\<open>continuationRequest.ts\<close>). The assembler
  is a fold over the events; its meaning is the sequence of the atoms (characters of text, characters of
  reasoning, tool calls) of the events.
\<close>

section \<open>The assembler\<close>

record assembler =
  as_responseId :: "string option"
  as_content :: "block list"
  as_textBuffer :: string
  as_model :: "string option"
  as_thinkingBuffer :: string
  as_reasoningBuffer :: string
  as_signature :: "string option"
  as_usage :: usage
  as_finishReason :: "finish_reason option"
  as_hasMessageEnd :: bool
  as_error :: "model_error option"
  as_toolCalls :: "tool_call list"
  as_repaired :: bool

definition createAssembler :: "string option \<Rightarrow> assembler" where
  "createAssembler responseId =
     \<lparr>as_responseId = (if responseId = Some [] then None else responseId), as_content = [], as_textBuffer = [],
      as_model = None, as_thinkingBuffer = [], as_reasoningBuffer = [], as_signature = None,
      as_usage = empty_usage, as_finishReason = None, as_hasMessageEnd = False, as_error = None,
      as_toolCalls = [], as_repaired = False\<rparr>"

fun isTextBlock :: "block \<Rightarrow> bool" where
  "isTextBlock (TextB _ _) = True"
| "isTextBlock _ = False"

fun isThinkingBlock :: "block \<Rightarrow> bool" where
  "isThinkingBlock (ThinkingB _) = True"
| "isThinkingBlock _ = False"

text \<open>\<open>getModelStreamBlockId\<close>, by the kind's name and its test.\<close>

definition streamBlockId :: "assembler \<Rightarrow> string \<Rightarrow> (block \<Rightarrow> bool) \<Rightarrow> string option" where
  "streamBlockId s kind is_kind =
     (case as_responseId s of
        None \<Rightarrow> None
      | Some r \<Rightarrow> Some (r @ '':'' @ kind @ '':'' @ show_nat (length (filter is_kind (as_content s)))))"

definition thinking_pending :: "assembler \<Rightarrow> bool" where
  "thinking_pending s \<longleftrightarrow> as_thinkingBuffer s \<noteq> [] \<or> as_reasoningBuffer s \<noteq> [] \<or> as_signature s \<noteq> None"

definition flush_thinking :: "assembler \<Rightarrow> assembler" where
  "flush_thinking s =
     (if thinking_pending s
      then s\<lparr>as_content := as_content s @ [ThinkingB \<lparr>th_text = as_thinkingBuffer s,
               th_blockId = streamBlockId s ''thinking'' isThinkingBlock,
               th_signature = as_signature s,
               th_reasoningContent = (if as_reasoningBuffer s \<noteq> [] then Some (as_reasoningBuffer s) else None)\<rparr>],
             as_thinkingBuffer := [], as_reasoningBuffer := [], as_signature := None\<rparr>
      else s)"

definition flush_text :: "assembler \<Rightarrow> assembler" where
  "flush_text s =
     (if as_textBuffer s \<noteq> []
      then s\<lparr>as_content := as_content s @ [TextB (as_textBuffer s) (streamBlockId s ''text'' isTextBlock)],
             as_textBuffer := []\<rparr>
      else s)"

definition flushTextBuffers :: "assembler \<Rightarrow> assembler" where
  "flushTextBuffers s = flush_text (flush_thinking s)"

fun applyModelEvent :: "assembler \<Rightarrow> model_event \<Rightarrow> assembler" where
  "applyModelEvent s (RequestStarted _ model) = s\<lparr>as_model := Some model\<rparr>"
| "applyModelEvent s MessageStart = s"
| "applyModelEvent s (ToolCallStart _ _) = s"
| "applyModelEvent s (ToolCallDelta _ _) = s"
| "applyModelEvent s (TextDelta t) =
     (let s1 = (if thinking_pending s then flushTextBuffers s else s)
      in s1\<lparr>as_textBuffer := as_textBuffer s1 @ t\<rparr>)"
| "applyModelEvent s (ThinkingDelta t signature reasoning) =
     (let s1 = (if as_textBuffer s \<noteq> [] then flushTextBuffers s else s)
      in s1\<lparr>as_thinkingBuffer := as_thinkingBuffer s1 @ t,
            as_reasoningBuffer := (case reasoning of None \<Rightarrow> as_reasoningBuffer s1 | Some r \<Rightarrow> as_reasoningBuffer s1 @ r),
            as_signature := (case signature of None \<Rightarrow> as_signature s1
                             | Some g \<Rightarrow> if g \<noteq> [] then Some g else as_signature s1)\<rparr>)"
| "applyModelEvent s (ToolCallEnd c wasRepaired) =
     (let s1 = flushTextBuffers s
      in s1\<lparr>as_toolCalls := as_toolCalls s1 @ [c], as_content := as_content s1 @ [ToolCallB c],
            as_repaired := (if wasRepaired then True else as_repaired s1)\<rparr>)"
| "applyModelEvent s (MessageEnd reason) =
     (flushTextBuffers s)\<lparr>as_finishReason := Some reason, as_hasMessageEnd := True\<rparr>"
| "applyModelEvent s (UsageEvent u) = s\<lparr>as_usage := mergeUsage (as_usage s) u\<rparr>"
| "applyModelEvent s (ErrorEvent e) = (flushTextBuffers s)\<lparr>as_error := Some e, as_finishReason := Some FinError\<rparr>"

text \<open>The search for a free suffix; it needs at most one try more than there are used ids.\<close>

fun free_suffix :: "string \<Rightarrow> string list \<Rightarrow> nat \<Rightarrow> nat \<Rightarrow> string" where
  "free_suffix base used n 0 = base @ ''_'' @ show_nat n"
| "free_suffix base used n (Suc fuel) =
     (let candidate = base @ ''_'' @ show_nat n
      in if candidate \<notin> set used then candidate else free_suffix base used (n + 1) fuel)"

definition nextToolCallId :: "string \<Rightarrow> nat \<Rightarrow> string list \<Rightarrow> string" where
  "nextToolCallId rawId index used =
     (let base = (if trim rawId \<noteq> [] then trim rawId else ''call_'' @ show_nat index)
      in if base \<notin> set used then base else free_suffix base used 2 (length used))"

fun normalized_calls :: "nat \<Rightarrow> string list \<Rightarrow> tool_call list \<Rightarrow> tool_call list" where
  "normalized_calls index used [] = []"
| "normalized_calls index used (c # cs) =
     (let i = nextToolCallId (tc_id c) index used
      in c\<lparr>tc_id := i\<rparr> # normalized_calls (index + 1) (i # used) cs)"

text \<open>The ids of the normalized calls, given to the tool-call blocks in order.\<close>

fun renamed_blocks :: "tool_call list \<Rightarrow> block list \<Rightarrow> block list" where
  "renamed_blocks cs [] = []"
| "renamed_blocks cs (ToolCallB b # bs) =
     (case cs of [] \<Rightarrow> ToolCallB b # renamed_blocks [] bs
      | c # cs' \<Rightarrow> ToolCallB (b\<lparr>tc_id := tc_id c\<rparr>) # renamed_blocks cs' bs)"
| "renamed_blocks cs (b # bs) = b # renamed_blocks cs bs"

definition normalizeToolCallIds :: "assembler \<Rightarrow> assembler" where
  "normalizeToolCallIds s =
     (if as_toolCalls s = [] then s
      else (let cs = normalized_calls 0 [] (as_toolCalls s)
            in s\<lparr>as_content := renamed_blocks cs (as_content s), as_toolCalls := cs\<rparr>))"

definition hasUsage :: "usage \<Rightarrow> bool" where
  "hasUsage u \<longleftrightarrow> inputTokens u \<noteq> None \<or> outputTokens u \<noteq> None \<or> cacheReadTokens u \<noteq> None
     \<or> cacheWriteTokens u \<noteq> None \<or> totalTokens u \<noteq> None \<or> nativeCost u \<noteq> None"

record assembled =
  am_message :: message
  am_finishReason :: finish_reason
  am_usage :: "usage option"
  am_toolCalls :: "tool_call list"
  am_error :: "model_error option"
  am_repaired :: bool
  am_hasMessageEnd :: bool

definition assembleAssistantMessage :: "assembler \<Rightarrow> assembled" where
  "assembleAssistantMessage s0 =
     (let s = normalizeToolCallIds (flushTextBuffers s0)
      in \<lparr>am_message = \<lparr>role = Assistant, content = as_content s,
            metadata = (case as_model s of
                          Some m \<Rightarrow> if m \<noteq> [] then Some (empty_metadata\<lparr>md_model := Some m\<rparr>) else None
                        | None \<Rightarrow> None)\<rparr>,
          am_finishReason = (case as_finishReason s of Some r \<Rightarrow> r
                             | None \<Rightarrow> if as_error s \<noteq> None then FinError else FinUnknown),
          am_usage = (if hasUsage (as_usage s) then Some (as_usage s) else None),
          am_toolCalls = as_toolCalls s, am_error = as_error s, am_repaired = as_repaired s,
          am_hasMessageEnd = as_hasMessageEnd s\<rparr>)"

definition assemble :: "string option \<Rightarrow> model_event list \<Rightarrow> assembled" where
  "assemble responseId evs = assembleAssistantMessage (foldl applyModelEvent (createAssembler responseId) evs)"

section \<open>A broken stream\<close>

record checkpoint =
  cp_partialText :: string
  cp_tokensReceived :: nat
  cp_hasToolCalls :: bool
  cp_hasReasoning :: bool
  cp_active :: "(string \<times> string \<times> nat) list"

definition empty_checkpoint :: checkpoint where
  "empty_checkpoint = \<lparr>cp_partialText = [], cp_tokensReceived = 0, cp_hasToolCalls = False, cp_hasReasoning = False,
     cp_active = []\<rparr>"

fun checkpoint_event :: "checkpoint \<Rightarrow> model_event \<Rightarrow> checkpoint" where
  "checkpoint_event s (TextDelta t) =
     s\<lparr>cp_partialText := cp_partialText s @ t, cp_tokensReceived := cp_tokensReceived s + 1\<rparr>"
| "checkpoint_event s (ThinkingDelta _ _ _) = s\<lparr>cp_hasReasoning := True, cp_tokensReceived := cp_tokensReceived s + 1\<rparr>"
| "checkpoint_event s (ToolCallStart i name) =
     s\<lparr>cp_hasToolCalls := True, cp_active := jset i (name, 0) (cp_active s), cp_tokensReceived := cp_tokensReceived s + 1\<rparr>"
| "checkpoint_event s (ToolCallDelta i delta) =
     (let (name, n) = (case jget (cp_active s) i of Some a \<Rightarrow> a | None \<Rightarrow> ([], 0))
      in s\<lparr>cp_hasToolCalls := True, cp_active := jset i (name, n + length delta) (cp_active s),
           cp_tokensReceived := cp_tokensReceived s + 1\<rparr>)"
| "checkpoint_event s (ToolCallEnd c _) =
     s\<lparr>cp_hasToolCalls := True, cp_active := jdelete (tc_id c) (cp_active s), cp_tokensReceived := cp_tokensReceived s + 1\<rparr>"
| "checkpoint_event s _ = s"

definition hasSubstantialContent :: "checkpoint \<Rightarrow> bool" where
  "hasSubstantialContent s \<longleftrightarrow> trim (cp_partialText s) \<noteq> []"

definition canContinueText :: "checkpoint \<Rightarrow> bool" where
  "canContinueText s \<longleftrightarrow> hasSubstantialContent s \<and> \<not> cp_hasReasoning s \<and> \<not> cp_hasToolCalls s"

definition interruption_of :: "checkpoint \<Rightarrow> interruption" where
  "interruption_of s =
     (if cp_hasToolCalls s then InToolCall (cp_active s)
      else if trim (cp_partialText s) \<noteq> [] then InText
      else if cp_hasReasoning s then InReasoning else InNothing)"

definition CONTINUATION_INSTRUCTION :: string where
  "CONTINUATION_INSTRUCTION =
     ''You are a helpful assistant. You are given a message and you need to respond to it. '' @
     ''You are also given a generated content. You need to respond to the message in continuation of the generated content. '' @
     ''Do not repeat the same content. Your response should be in continuation of this text:''"

fun is_instruction :: "block list \<Rightarrow> bool" where
  "is_instruction [TextB t _] = (t = CONTINUATION_INSTRUCTION)"
| "is_instruction _ = False"

definition stripContinuationMessages :: "message list \<Rightarrow> message list" where
  "stripContinuationMessages ms =
     (if length ms < 2 then ms
      else (let lst = ms ! (length ms - 1); second = ms ! (length ms - 2)
            in if role lst = User \<and> role second = Assistant \<and> is_instruction (content lst)
               then take (length ms - 2) ms else ms))"

definition buildContinuationMessages :: "message list \<Rightarrow> string \<Rightarrow> message list" where
  "buildContinuationMessages ms partialText =
     stripContinuationMessages ms
     @ [plain_message Assistant [text_block partialText], plain_message User [text_block CONTINUATION_INSTRUCTION]]"

section \<open>What the message means\<close>

datatype atom = TextChar char | ThinkChar char | CallAtom string js_value "js_value option"

fun block_atoms :: "block \<Rightarrow> atom list" where
  "block_atoms (TextB t _) = map TextChar t"
| "block_atoms (ThinkingB th) = map ThinkChar (th_text th)"
| "block_atoms (ToolCallB c) = [CallAtom (tc_name c) (tc_input c) (tc_raw c)]"
| "block_atoms _ = []"

fun event_atoms :: "model_event \<Rightarrow> atom list" where
  "event_atoms (TextDelta t) = map TextChar t"
| "event_atoms (ThinkingDelta t _ _) = map ThinkChar t"
| "event_atoms (ToolCallEnd c _) = [CallAtom (tc_name c) (tc_input c) (tc_raw c)]"
| "event_atoms _ = []"

definition content_atoms :: "block list \<Rightarrow> atom list" where
  "content_atoms bs = concat (map block_atoms bs)"

definition stream_atoms :: "model_event list \<Rightarrow> atom list" where
  "stream_atoms evs = concat (map event_atoms evs)"

lemma content_atoms_simps [simp]:
  "content_atoms [] = []" "content_atoms (b # bs) = block_atoms b @ content_atoms bs"
  "content_atoms (bs @ cs) = content_atoms bs @ content_atoms cs"
  by (simp_all add: content_atoms_def)

lemma stream_atoms_simps [simp]:
  "stream_atoms [] = []" "stream_atoms (e # es) = event_atoms e @ stream_atoms es"
  "stream_atoms (es @ fs) = stream_atoms es @ stream_atoms fs"
  by (simp_all add: stream_atoms_def)

lemma collect_append [simp]:
  "collectToolCalls (bs @ cs) = collectToolCalls bs @ collectToolCalls cs"
  by (induction bs rule: collectToolCalls.induct) auto

definition assembler_ok :: "assembler \<Rightarrow> bool" where
  "assembler_ok s \<longleftrightarrow>
     (as_textBuffer s = [] \<or> \<not> thinking_pending s) \<and> collectToolCalls (as_content s) = as_toolCalls s"

definition state_atoms :: "assembler \<Rightarrow> atom list" where
  "state_atoms s = content_atoms (as_content s) @ map ThinkChar (as_thinkingBuffer s) @ map TextChar (as_textBuffer s)"

lemma flush_ok:
  assumes "assembler_ok s"
  shows "assembler_ok (flushTextBuffers s)" and "state_atoms (flushTextBuffers s) = state_atoms s"
    and "as_textBuffer (flushTextBuffers s) = []" and "\<not> thinking_pending (flushTextBuffers s)"
    and "as_toolCalls (flushTextBuffers s) = as_toolCalls s"
  using assms
  by (auto simp: flushTextBuffers_def flush_text_def flush_thinking_def assembler_ok_def state_atoms_def thinking_pending_def)

lemma apply_ok:
  assumes "assembler_ok s"
  shows "assembler_ok (applyModelEvent s e) \<and> state_atoms (applyModelEvent s e) = state_atoms s @ event_atoms e
         \<and> map (\<lambda>c. (tc_name c, tc_input c, tc_raw c)) (as_toolCalls (applyModelEvent s e))
           = map (\<lambda>c. (tc_name c, tc_input c, tc_raw c)) (as_toolCalls s @ (case e of ToolCallEnd c _ \<Rightarrow> [c] | _ \<Rightarrow> []))"
proof (cases e)
  case (TextDelta t)
  show ?thesis
  proof (cases "thinking_pending s")
    case True
    then show ?thesis using flush_ok [OF assms] by (auto simp: TextDelta Let_def assembler_ok_def state_atoms_def thinking_pending_def)
  next
    case False
    then show ?thesis using assms by (auto simp: TextDelta Let_def assembler_ok_def state_atoms_def thinking_pending_def)
  qed
next
  case (ThinkingDelta t g r)
  show ?thesis
  proof (cases "as_textBuffer s = []")
    case False
    then show ?thesis using flush_ok [OF assms] by (auto simp: ThinkingDelta Let_def assembler_ok_def state_atoms_def)
  next
    case True
    then show ?thesis using assms by (auto simp: ThinkingDelta Let_def assembler_ok_def state_atoms_def)
  qed
next
  case (ToolCallEnd c w)
  then show ?thesis using flush_ok [OF assms] by (auto simp: Let_def assembler_ok_def state_atoms_def thinking_pending_def)
next
  case (MessageEnd r)
  then show ?thesis using flush_ok [OF assms] by (auto simp: assembler_ok_def state_atoms_def thinking_pending_def)
next
  case (ErrorEvent x)
  then show ?thesis using flush_ok [OF assms] by (auto simp: assembler_ok_def state_atoms_def thinking_pending_def)
qed (use assms in \<open>simp_all add: assembler_ok_def state_atoms_def thinking_pending_def\<close>)

fun isCallEnd :: "model_event \<Rightarrow> bool" where
  "isCallEnd (ToolCallEnd _ _) = True"
| "isCallEnd _ = False"

lemma fold_ok:
  "assembler_ok s \<Longrightarrow> assembler_ok (foldl applyModelEvent s evs)
     \<and> state_atoms (foldl applyModelEvent s evs) = state_atoms s @ stream_atoms evs
     \<and> length (as_toolCalls (foldl applyModelEvent s evs)) = length (as_toolCalls s) + length (filter isCallEnd evs)"
proof (induction evs arbitrary: s)
  case (Cons e evs)
  have "length (as_toolCalls (applyModelEvent s e)) = length (as_toolCalls s) + (if isCallEnd e then 1 else 0)"
    using arg_cong [where f = length, OF conjunct2 [OF conjunct2 [OF apply_ok [OF Cons.prems, of e]]]]
    by (cases e) auto
  then show ?case using apply_ok [OF Cons.prems, of e] Cons.IH [of "applyModelEvent s e"] by simp
qed simp

subsection \<open>Ids\<close>

lemma free_suffix_used:
  "free_suffix base used n fuel \<in> set used \<Longrightarrow> j \<le> fuel \<Longrightarrow> base @ ''_'' @ show_nat (n + j) \<in> set used"
proof (induction fuel arbitrary: n j)
  case (Suc fuel)
  have here: "base @ ''_'' @ show_nat n \<in> set used" "free_suffix base used (n + 1) fuel \<in> set used"
    using Suc.prems(1) by (auto simp: Let_def split: if_splits)
  then show ?case using Suc.IH [of "n + 1" "j - 1"] Suc.prems(2) by (cases j) auto
qed simp

lemma free_suffix_fresh: "free_suffix base used n (length used) \<notin> set used"
proof
  assume "free_suffix base used n (length used) \<in> set used"
  then have "(\<lambda>j. base @ ''_'' @ show_nat (n + j)) ` {..length used} \<subseteq> set used"
    using free_suffix_used by blast
  then have "card ((\<lambda>j. base @ ''_'' @ show_nat (n + j)) ` {..length used}) \<le> card (set used)"
    by (intro card_mono) auto
  moreover have "card ((\<lambda>j. base @ ''_'' @ show_nat (n + j)) ` {..length used}) = Suc (length used)"
    by (subst card_image) (auto simp: inj_on_def)
  ultimately show False using card_length [of used] by simp
qed

lemma nextToolCallId_fresh: "nextToolCallId i k used \<notin> set used"
  using free_suffix_fresh by (auto simp: nextToolCallId_def Let_def)

lemma free_suffix_nonempty: "free_suffix base used n fuel \<noteq> []"
  by (induction fuel arbitrary: n) (auto simp: Let_def)

lemma nextToolCallId_nonempty: "nextToolCallId i k used \<noteq> []"
  using free_suffix_nonempty by (auto simp: nextToolCallId_def Let_def)

lemma normalized_ids:
  "distinct (map tc_id (normalized_calls k used cs)) \<and> set (map tc_id (normalized_calls k used cs)) \<inter> set used = {}
   \<and> [] \<notin> set (map tc_id (normalized_calls k used cs))"
proof (induction k used cs rule: normalized_calls.induct)
  case (2 k used c cs)
  show ?case
    using 2 [OF refl] nextToolCallId_fresh [of "tc_id c" k used] nextToolCallId_nonempty [of "tc_id c" k used]
    by (auto simp: Let_def)
qed simp

definition same_call :: "tool_call \<Rightarrow> tool_call \<Rightarrow> bool" where
  "same_call c b \<longleftrightarrow> tc_name c = tc_name b \<and> tc_input c = tc_input b \<and> tc_raw c = tc_raw b"

lemma same_call_rename: "same_call c b \<Longrightarrow> b\<lparr>tc_id := tc_id c\<rparr> = c"
  by (simp add: same_call_def)

lemma same_call_update [simp]: "same_call (c\<lparr>tc_id := i\<rparr>) c"
  by (simp add: same_call_def)

lemma same_call_atoms: "same_call c b \<Longrightarrow> block_atoms (ToolCallB c) = block_atoms (ToolCallB b)"
  by (simp add: same_call_def)

lemma normalized_same:
  "list_all2 same_call (normalized_calls k used cs) cs"
  by (induction k used cs rule: normalized_calls.induct) (auto simp: Let_def)

lemma renamed_collect:
  "list_all2 same_call cs (collectToolCalls bs)
    \<Longrightarrow> collectToolCalls (renamed_blocks cs bs) = cs \<and> content_atoms (renamed_blocks cs bs) = content_atoms bs"
proof (induction cs bs rule: renamed_blocks.induct)
  case (2 cs b bs)
  show ?case
  proof (cases cs)
    case (Cons c cs')
    then have c: "same_call c b" "list_all2 same_call cs' (collectToolCalls bs)" using 2 by auto
    show ?thesis
      using 2(2) [OF Cons c(2)] same_call_rename [OF c(1)] same_call_atoms [OF c(1)] by (simp add: Cons del: block_atoms.simps)
  qed (use 2 in simp)
qed auto

lemma normalize_ok:
  assumes "assembler_ok s"
  shows "collectToolCalls (as_content (normalizeToolCallIds s)) = as_toolCalls (normalizeToolCallIds s)"
    and "content_atoms (as_content (normalizeToolCallIds s)) = content_atoms (as_content s)"
    and "distinct (map tc_id (as_toolCalls (normalizeToolCallIds s)))"
    and "[] \<notin> set (map tc_id (as_toolCalls (normalizeToolCallIds s)))"
    and "length (as_toolCalls (normalizeToolCallIds s)) = length (as_toolCalls s)"
proof -
  have same: "list_all2 same_call (normalized_calls 0 [] (as_toolCalls s)) (collectToolCalls (as_content s))"
    using assms normalized_same by (simp add: assembler_ok_def)
  note r = renamed_collect [OF same] and n = normalized_ids [of 0 "[]" "as_toolCalls s"]
  have "length (normalized_calls 0 [] (as_toolCalls s)) = length (as_toolCalls s)"
    by (rule list_all2_lengthD [OF normalized_same])
  then show "collectToolCalls (as_content (normalizeToolCallIds s)) = as_toolCalls (normalizeToolCallIds s)"
    and "content_atoms (as_content (normalizeToolCallIds s)) = content_atoms (as_content s)"
    and "distinct (map tc_id (as_toolCalls (normalizeToolCallIds s)))"
    and "[] \<notin> set (map tc_id (as_toolCalls (normalizeToolCallIds s)))"
    and "length (as_toolCalls (normalizeToolCallIds s)) = length (as_toolCalls s)"
    using r n assms by (auto simp: normalizeToolCallIds_def Let_def assembler_ok_def)
qed

lemma create_ok: "assembler_ok (createAssembler r)" "state_atoms (createAssembler r) = []" "as_toolCalls (createAssembler r) = []"
  by (simp_all add: createAssembler_def assembler_ok_def state_atoms_def thinking_pending_def)

lemma assemble_correct:
  fixes r evs
  defines "a \<equiv> assemble r evs"
  shows "content_atoms (content (am_message a)) = stream_atoms evs"
    and "collectToolCalls (content (am_message a)) = am_toolCalls a"
    and "distinct (map tc_id (am_toolCalls a))"
    and "[] \<notin> set (map tc_id (am_toolCalls a))"
    and "length (am_toolCalls a) = length (filter isCallEnd evs)"
    and "role (am_message a) = Assistant"
proof -
  define s where "s = foldl applyModelEvent (createAssembler r) evs"
  have s: "assembler_ok s" "state_atoms s = stream_atoms evs" "length (as_toolCalls s) = length (filter isCallEnd evs)"
    using fold_ok [OF create_ok(1), of r evs] by (simp_all add: s_def create_ok)
  note f = flush_ok [OF s(1)] and n = normalize_ok [OF flush_ok(1) [OF s(1)]]
  have a: "content (am_message a) = as_content (normalizeToolCallIds (flushTextBuffers s))"
    "am_toolCalls a = as_toolCalls (normalizeToolCallIds (flushTextBuffers s))" "role (am_message a) = Assistant"
    by (simp_all add: a_def assemble_def assembleAssistantMessage_def s_def Let_def)
  have "content_atoms (as_content (flushTextBuffers s)) = stream_atoms evs"
    using f(2-4) s(2) by (simp add: state_atoms_def thinking_pending_def)
  then show "content_atoms (content (am_message a)) = stream_atoms evs" by (simp add: a n(2))
  show "collectToolCalls (content (am_message a)) = am_toolCalls a" by (simp add: a n(1))
  show "distinct (map tc_id (am_toolCalls a))" "[] \<notin> set (map tc_id (am_toolCalls a))"
    "length (am_toolCalls a) = length (filter isCallEnd evs)" "role (am_message a) = Assistant"
    using n(3-5) f(5) s(3) by (simp_all add: a)
qed

text \<open>C35. The assembled message says exactly what the stream said. Its characters of text and of reasoning and
  its tool calls (name, input, raw) are those of the events, in the order in which they came; its tool-call
  blocks are the reported tool calls, with pairwise different and non-empty ids however the provider repeats
  or omits them; and the loop goes on exactly if the stream ended a tool call.\<close>

theorem assembled_message_faithful:
  "(let a = assemble r evs
    in content_atoms (content (am_message a)) = stream_atoms evs
       \<and> collectToolCalls (content (am_message a)) = am_toolCalls a
       \<and> distinct (map tc_id (am_toolCalls a)) \<and> [] \<notin> set (map tc_id (am_toolCalls a))
       \<and> decideLoopContinuation (am_message a) = (if list_ex isCallEnd evs then Continue else Stop))"
proof -
  have "0 < length (am_toolCalls (assemble r evs)) \<longleftrightarrow> list_ex isCallEnd evs"
    unfolding assemble_correct(5) by (induction evs) auto
  then show ?thesis
    using assemble_correct(1-4) [of r evs] by (simp add: Let_def decideLoopContinuation_def)
qed

text \<open>Building a continuation request again replaces the partial text instead of piling up.\<close>

lemma continuation_replaces:
  "buildContinuationMessages (buildContinuationMessages ms t) u = buildContinuationMessages ms u"
  by (simp add: buildContinuationMessages_def stripContinuationMessages_def [of "_ @ [_, _]"] nth_append)

end
