(* ===== verification/ToolScheduler.thy ===== *)
theory ToolScheduler
  imports ToolResults
begin

text \<open>
  Running the tool calls of one assistant message: \<open>tool/scheduler/ConcurrentToolScheduler.ts\<close> as a
  transition system over its awaits, and \<open>SequentialToolScheduler.ts\<close> as a fold. Parameters: the number of
  calls, the pool size, what the registry answers for each call when asked whether it is safe to run beside others
  (\<open>Inl\<close> what \<open>isConcurrencySafe\<close> throws on the call's input), and what the runtime yields for each call (\<open>Inl\<close> what
  it throws). The interleaving of the calls and the moment of an abort are open.
\<close>

section \<open>The schedulers\<close>

text \<open>Where \<open>executeAll\<close> stands: in its loop, waiting for the pool to drain before an exclusive call, in an
  exclusive call, in \<open>finally\<close> with what it will throw, or at its end.\<close>

datatype 'e sched_phase = InLoop | AtBarrier | InExclusive | Draining 'e | Returned | Rejected 'e

record ('r, 'e) sched_state =
  sc_next :: nat
  sc_active :: "nat list"
  sc_results :: "nat \<Rightarrow> 'r option"
  sc_failure :: "'e option"
  sc_phase :: "'e sched_phase"
  sc_aborted :: bool
  sc_started :: "nat list"

definition sched_init :: "('r, 'e) sched_state" where
  "sched_init = \<lparr>sc_next = 0, sc_active = [], sc_results = (\<lambda>_. None), sc_failure = None, sc_phase = InLoop,
     sc_aborted = False, sc_started = []\<rparr>"

text \<open>A single call is executed as it is; several calls start in the loop.\<close>

definition executeAll_start :: "nat \<Rightarrow> ('r, 'e) sched_state" where
  "executeAll_start n =
     (if n = 0 then sched_init\<lparr>sc_phase := Returned\<rparr>
      else if n = 1 then sched_init\<lparr>sc_phase := InExclusive, sc_started := [0]\<rparr>
      else sched_init)"

text \<open>The end of a pooled call \<open>j\<close>: its result is stored, or it is the failure if it is the first.\<close>

definition settle :: "(nat \<Rightarrow> 'e + 'r) \<Rightarrow> nat \<Rightarrow> ('r, 'e) sched_state \<Rightarrow> ('r, 'e) sched_state" where
  "settle outcome j s =
     (let s1 = s\<lparr>sc_active := remove1 j (sc_active s)\<rparr>
      in case outcome j of
           Inr r \<Rightarrow> s1\<lparr>sc_results := (sc_results s)(j \<mapsto> r)\<rparr>
         | Inl e \<Rightarrow> s1\<lparr>sc_failure := (case sc_failure s of None \<Rightarrow> Some e | Some f \<Rightarrow> Some f)\<rparr>)"

inductive sched_step :: "nat \<Rightarrow> nat \<Rightarrow> (nat \<Rightarrow> 'e + bool) \<Rightarrow> (nat \<Rightarrow> 'e + 'r) \<Rightarrow> ('r, 'e) sched_state \<Rightarrow> ('r, 'e) sched_state \<Rightarrow> bool"
  for n maxConcurrency :: nat and safe :: "nat \<Rightarrow> 'e + bool" and outcome :: "nat \<Rightarrow> 'e + 'r" where
  start_pooled: "sc_phase s = InLoop \<Longrightarrow> sc_next s < n \<Longrightarrow> length (sc_active s) < maxConcurrency \<Longrightarrow> sc_failure s = None
    \<Longrightarrow> \<not> sc_aborted s \<Longrightarrow> safe (sc_next s) = Inr True
    \<Longrightarrow> sched_step n maxConcurrency safe outcome s
          (s\<lparr>sc_active := sc_active s @ [sc_next s], sc_started := sc_started s @ [sc_next s], sc_next := sc_next s + 1\<rparr>)"
| loop_failed: "sc_phase s = InLoop \<Longrightarrow> sc_next s < n \<Longrightarrow> length (sc_active s) < maxConcurrency \<Longrightarrow> sc_failure s = Some e
    \<Longrightarrow> sched_step n maxConcurrency safe outcome s (s\<lparr>sc_phase := Draining e\<rparr>)"
| reach_barrier: "sc_phase s = InLoop \<Longrightarrow> sc_next s < n \<Longrightarrow> length (sc_active s) < maxConcurrency \<Longrightarrow> sc_failure s = None
    \<Longrightarrow> sc_aborted s \<or> safe (sc_next s) = Inr False
    \<Longrightarrow> sched_step n maxConcurrency safe outcome s (s\<lparr>sc_phase := AtBarrier\<rparr>)"
| classify_threw: "sc_phase s = InLoop \<Longrightarrow> sc_next s < n \<Longrightarrow> length (sc_active s) < maxConcurrency \<Longrightarrow> sc_failure s = None
    \<Longrightarrow> \<not> sc_aborted s \<Longrightarrow> safe (sc_next s) = Inl e
    \<Longrightarrow> sched_step n maxConcurrency safe outcome s (s\<lparr>sc_phase := Draining e\<rparr>)"
| barrier_failed: "sc_phase s = AtBarrier \<Longrightarrow> sc_active s = [] \<Longrightarrow> sc_failure s = Some e
    \<Longrightarrow> sched_step n maxConcurrency safe outcome s (s\<lparr>sc_phase := Draining e\<rparr>)"
| start_exclusive: "sc_phase s = AtBarrier \<Longrightarrow> sc_active s = [] \<Longrightarrow> sc_failure s = None
    \<Longrightarrow> sched_step n maxConcurrency safe outcome s (s\<lparr>sc_phase := InExclusive, sc_started := sc_started s @ [sc_next s]\<rparr>)"
| exclusive_done: "sc_phase s = InExclusive \<Longrightarrow> outcome (sc_next s) = Inr r
    \<Longrightarrow> sched_step n maxConcurrency safe outcome s
          (s\<lparr>sc_phase := InLoop, sc_results := (sc_results s)(sc_next s \<mapsto> r), sc_next := sc_next s + 1\<rparr>)"
| exclusive_threw: "sc_phase s = InExclusive \<Longrightarrow> outcome (sc_next s) = Inl e
    \<Longrightarrow> sched_step n maxConcurrency safe outcome s (s\<lparr>sc_phase := Draining e\<rparr>)"
| pooled_done: "j \<in> set (sc_active s) \<Longrightarrow> sched_step n maxConcurrency safe outcome s (settle outcome j s)"
| all_returned: "sc_phase s = InLoop \<Longrightarrow> sc_next s = n \<Longrightarrow> sc_active s = [] \<Longrightarrow> sc_failure s = None
    \<Longrightarrow> sched_step n maxConcurrency safe outcome s (s\<lparr>sc_phase := Returned\<rparr>)"
| end_failed: "sc_phase s = InLoop \<Longrightarrow> sc_next s = n \<Longrightarrow> sc_active s = [] \<Longrightarrow> sc_failure s = Some e
    \<Longrightarrow> sched_step n maxConcurrency safe outcome s (s\<lparr>sc_phase := Draining e\<rparr>)"
| drained: "sc_phase s = Draining e \<Longrightarrow> sc_active s = []
    \<Longrightarrow> sched_step n maxConcurrency safe outcome s (s\<lparr>sc_phase := Rejected e\<rparr>)"
| abort_signal: "\<not> sc_aborted s \<Longrightarrow> sc_phase s \<notin> {Returned} \<union> range Rejected
    \<Longrightarrow> sched_step n maxConcurrency safe outcome s (s\<lparr>sc_aborted := True\<rparr>)"

inductive sched_reachable :: "nat \<Rightarrow> nat \<Rightarrow> (nat \<Rightarrow> 'e + bool) \<Rightarrow> (nat \<Rightarrow> 'e + 'r) \<Rightarrow> ('r, 'e) sched_state \<Rightarrow> bool"
  for n maxConcurrency safe outcome where
  reach_start: "sched_reachable n maxConcurrency safe outcome (executeAll_start n)"
| reach_step: "sched_reachable n maxConcurrency safe outcome s \<Longrightarrow> sched_step n maxConcurrency safe outcome s s'
    \<Longrightarrow> sched_reachable n maxConcurrency safe outcome s'"

text \<open>\<open>SequentialToolScheduler.executeAll\<close>: one call after the other, until one throws.\<close>

fun sequential_from :: "(nat \<Rightarrow> 'e + 'r) \<Rightarrow> nat list \<Rightarrow> 'e + 'r list" where
  "sequential_from outcome [] = Inr []"
| "sequential_from outcome (i # is) =
     (case outcome i of
        Inl e \<Rightarrow> Inl e
      | Inr r \<Rightarrow> (case sequential_from outcome is of Inl e \<Rightarrow> Inl e | Inr rs \<Rightarrow> Inr (r # rs)))"

definition sequential_executeAll :: "nat \<Rightarrow> (nat \<Rightarrow> 'e + 'r) \<Rightarrow> 'e + 'r list" where
  "sequential_executeAll n outcome = sequential_from outcome [0..<n]"

section \<open>What holds in every state\<close>

text \<open>The pool is bounded and empty around an exclusive call and at the end.\<close>

definition pool_ok :: "nat \<Rightarrow> ('r, 'e) sched_state \<Rightarrow> bool" where
  "pool_ok maxConcurrency s \<longleftrightarrow>
     length (sc_active s) \<le> maxConcurrency \<and> distinct (sc_active s) \<and> (\<forall>j\<in>set (sc_active s). j < sc_next s)
     \<and> (case sc_phase s of InExclusive \<Rightarrow> sc_active s = [] | Returned \<Rightarrow> sc_active s = []
          | Rejected _ \<Rightarrow> sc_active s = [] | _ \<Rightarrow> True)"

text \<open>The calls started are the first ones, each once and in order.\<close>

definition order_ok :: "nat \<Rightarrow> ('r, 'e) sched_state \<Rightarrow> bool" where
  "order_ok n s \<longleftrightarrow>
     (case sc_phase s of
        InLoop \<Rightarrow> sc_started s = [0..<sc_next s] \<and> sc_next s \<le> n
      | AtBarrier \<Rightarrow> sc_started s = [0..<sc_next s] \<and> sc_next s < n
      | InExclusive \<Rightarrow> sc_started s = [0..<Suc (sc_next s)] \<and> sc_next s < n
      | Returned \<Rightarrow> sc_started s = [0..<n] \<and> sc_next s = n
      | _ \<Rightarrow> sc_started s = [0..<length (sc_started s)] \<and> length (sc_started s) \<le> n \<and> sc_next s \<le> n)"

text \<open>What was thrown was thrown by a call that was started or by the classification of the call after these, and a
  failure is never forgotten.\<close>

definition threw :: "(nat \<Rightarrow> 'e + 'r) \<Rightarrow> ('r, 'e) sched_state \<Rightarrow> 'e \<Rightarrow> bool" where
  "threw outcome s e \<longleftrightarrow> (\<exists>j\<in>set (sc_started s). outcome j = Inl e)"

definition unclassified :: "nat \<Rightarrow> (nat \<Rightarrow> 'e + bool) \<Rightarrow> ('r, 'e) sched_state \<Rightarrow> 'e \<Rightarrow> bool" where
  "unclassified n safe s e \<longleftrightarrow> sc_started s = [0..<sc_next s] \<and> sc_next s < n \<and> safe (sc_next s) = Inl e"

definition failure_ok :: "nat \<Rightarrow> (nat \<Rightarrow> 'e + bool) \<Rightarrow> (nat \<Rightarrow> 'e + 'r) \<Rightarrow> ('r, 'e) sched_state \<Rightarrow> bool" where
  "failure_ok n safe outcome s \<longleftrightarrow>
     (case sc_failure s of None \<Rightarrow> True | Some e \<Rightarrow> threw outcome s e)
     \<and> (case sc_phase s of Draining e \<Rightarrow> threw outcome s e \<or> unclassified n safe s e
          | Rejected e \<Rightarrow> threw outcome s e \<or> unclassified n safe s e
          | Returned \<Rightarrow> sc_failure s = None | _ \<Rightarrow> True)
     \<and> set (sc_active s) \<subseteq> set (sc_started s)"

text \<open>A call the loop has passed is active or settled: its result is stored, or the failure is set.\<close>

definition settled :: "(nat \<Rightarrow> 'e + 'r) \<Rightarrow> ('r, 'e) sched_state \<Rightarrow> nat \<Rightarrow> bool" where
  "settled outcome s j \<longleftrightarrow>
     (case outcome j of Inr r \<Rightarrow> sc_results s j = Some r | Inl e \<Rightarrow> sc_failure s \<noteq> None)"

definition results_ok :: "(nat \<Rightarrow> 'e + 'r) \<Rightarrow> ('r, 'e) sched_state \<Rightarrow> bool" where
  "results_ok outcome s \<longleftrightarrow> (\<forall>j < sc_next s. j \<in> set (sc_active s) \<or> settled outcome s j)"

lemma settle_simps [simp]:
  "sc_next (settle outcome j s) = sc_next s" "sc_active (settle outcome j s) = remove1 j (sc_active s)"
  "sc_phase (settle outcome j s) = sc_phase s" "sc_started (settle outcome j s) = sc_started s"
  "sc_aborted (settle outcome j s) = sc_aborted s"
  by (simp_all add: settle_def Let_def split: sum.splits)

lemma settle_failure:
  "sc_failure (settle outcome j s) = (case outcome j of Inr r \<Rightarrow> sc_failure s
     | Inl e \<Rightarrow> (case sc_failure s of None \<Rightarrow> Some e | Some f \<Rightarrow> Some f))"
  by (simp add: settle_def Let_def split: sum.splits)

lemma pool_ok_step:
  assumes "sched_step n m safe outcome s s'" and "pool_ok m s"
  shows "pool_ok m s'"
  using assms
proof (cases rule: sched_step.cases)
  case (pooled_done j)
  then show ?thesis using assms(2)
    by (auto simp: pool_ok_def length_remove1 dest: notin_set_remove1 split: sched_phase.splits)
qed (auto simp: pool_ok_def less_Suc_eq split: sched_phase.splits)

lemma order_ok_step:
  assumes "sched_step n m safe outcome s s'" and "order_ok n s"
  shows "order_ok n s'"
  using assms by (cases rule: sched_step.cases) (auto simp: order_ok_def split: sched_phase.splits)

lemma threw_mono: "threw outcome s e \<Longrightarrow> set (sc_started s) \<subseteq> set (sc_started s') \<Longrightarrow> threw outcome s' e"
  by (auto simp: threw_def)

lemma failure_ok_step:
  assumes "sched_step n m safe outcome s s'" and "failure_ok n safe outcome s" and "order_ok n s" and "pool_ok m s"
  shows "failure_ok n safe outcome s'"
  using assms(1)
proof (cases rule: sched_step.cases)
  case (pooled_done j)
  then have "j \<in> set (sc_started s)" using assms(2) by (auto simp: failure_ok_def)
  then have t: "outcome j = Inl e \<Longrightarrow> threw outcome s e" for e by (auto simp: threw_def)
  have th: "threw outcome (settle outcome j s) = threw outcome s"
      "unclassified n safe (settle outcome j s) = unclassified n safe s" by (rule ext, simp add: threw_def unclassified_def)+
  have "sc_phase s \<noteq> Returned" using assms(4) pooled_done(2) by (auto simp: pool_ok_def)
  then show ?thesis using assms(2) t
    by (auto simp: failure_ok_def settle_failure th pooled_done(1) dest: notin_set_remove1
        split: sum.splits option.splits sched_phase.splits)
next
  case (classify_threw e)
  then show ?thesis using assms(2,3) by (auto simp: failure_ok_def order_ok_def unclassified_def threw_def split: option.splits)
next
  case (exclusive_threw e)
  then show ?thesis using assms(2,3) by (auto simp: failure_ok_def order_ok_def threw_def split: option.splits)
qed (use assms(2) in \<open>auto simp: failure_ok_def threw_def unclassified_def split: option.splits sched_phase.splits\<close>)

lemma settled_cong:
  "sc_results s' j = sc_results s j \<Longrightarrow> sc_failure s' = sc_failure s \<Longrightarrow> settled outcome s' j = settled outcome s j"
  by (simp add: settled_def split: sum.splits)

lemma results_ok_same:
  "results_ok outcome s \<Longrightarrow> sc_next s' = sc_next s \<Longrightarrow> sc_active s' = sc_active s \<Longrightarrow> sc_results s' = sc_results s
    \<Longrightarrow> sc_failure s' = sc_failure s \<Longrightarrow> results_ok outcome s'"
  using settled_cong [of s' _ s outcome] by (auto simp: results_ok_def)

lemma settle_settles: "settled outcome (settle outcome j s) j"
  by (simp add: settled_def settle_def Let_def split: sum.splits option.splits)

lemma settle_keeps: "settled outcome s i \<Longrightarrow> settled outcome (settle outcome j s) i"
  by (auto simp: settled_def settle_def Let_def split: sum.splits option.splits)

lemma results_ok_step:
  assumes "sched_step n m safe outcome s s'" and "results_ok outcome s" and "pool_ok m s" and "order_ok n s"
  shows "results_ok outcome s'"
  using assms(1)
proof (cases rule: sched_step.cases)
  case (pooled_done j)
  have "i \<in> set (remove1 j (sc_active s)) \<or> settled outcome (settle outcome j s) i" if "i < sc_next s" for i
  proof (cases "i = j")
    case True
    then show ?thesis using settle_settles by blast
  next
    case False
    then show ?thesis using assms(2) that settle_keeps [of outcome s i j] by (auto simp: results_ok_def in_set_remove1)
  qed
  then show ?thesis by (simp add: results_ok_def pooled_done)
next
  case start_pooled
  then show ?thesis using assms(2)
    by (auto simp: results_ok_def less_Suc_eq settled_def split: sum.splits)
next
  case (exclusive_done r)
  have "sc_active s = []" using assms(3) exclusive_done by (simp add: pool_ok_def)
  then show ?thesis using assms(2) exclusive_done
    by (auto simp: results_ok_def less_Suc_eq settled_def split: sum.splits)
qed (use assms(2) in \<open>auto intro: results_ok_same\<close>)

lemma start_ok:
  assumes "0 < m"
  shows "pool_ok m (executeAll_start n)" and "order_ok n (executeAll_start n)"
    and "failure_ok n safe outcome (executeAll_start n)" and "results_ok outcome (executeAll_start n)"
proof -
  consider "n = 0" | "n = 1" | "1 < n" by linarith
  then show "pool_ok m (executeAll_start n)" "order_ok n (executeAll_start n)"
    "failure_ok n safe outcome (executeAll_start n)" "results_ok outcome (executeAll_start n)"
    by (cases; simp add: executeAll_start_def sched_init_def pool_ok_def order_ok_def failure_ok_def results_ok_def)+
qed

text \<open>Every step brings the end nearer, and only the ends are stuck.\<close>

definition phase_rank :: "'e sched_phase \<Rightarrow> nat" where
  "phase_rank p = (case p of InLoop \<Rightarrow> 4 | AtBarrier \<Rightarrow> 3 | InExclusive \<Rightarrow> 2 | Draining _ \<Rightarrow> 1 | _ \<Rightarrow> 0)"

definition sched_measure :: "nat \<Rightarrow> ('r, 'e) sched_state \<Rightarrow> nat" where
  "sched_measure n s = 6 * (n - sc_next s) + length (sc_active s) + phase_rank (sc_phase s) + (if sc_aborted s then 0 else 1)"

lemma sched_step_measure:
  assumes "sched_step n m safe outcome s s'" and "order_ok n s"
  shows "sched_measure n s' < sched_measure n s"
  using assms(1)
proof (cases rule: sched_step.cases)
  case (pooled_done j)
  then have "length (remove1 j (sc_active s)) < length (sc_active s)"
    using length_pos_if_in_set [of j "sc_active s"] by (simp add: length_remove1)
  then show ?thesis by (simp add: sched_measure_def pooled_done(1))
qed (use assms(2) in \<open>auto simp: sched_measure_def phase_rank_def order_ok_def split: sched_phase.splits\<close>)

lemma sched_progress:
  assumes "pool_ok m s" and "order_ok n s" and "0 < m"
    and "sc_phase s \<noteq> Returned" and "\<nexists>e. sc_phase s = Rejected e"
  shows "\<exists>s'. sched_step n m safe outcome s s'"
proof (cases "sc_active s = []")
  case False
  then show ?thesis using sched_step.pooled_done by (metis list.set_sel(1))
next
  case True
  show ?thesis
  proof (cases "sc_phase s")
    case InLoop
    note a = sched_step.all_returned [where n = n and maxConcurrency = m and safe = safe and outcome = outcome, OF InLoop _ True]
      sched_step.end_failed [where n = n and maxConcurrency = m and safe = safe and outcome = outcome, OF InLoop _ True]
      sched_step.start_pooled [where n = n and maxConcurrency = m and safe = safe and outcome = outcome, OF InLoop]
      sched_step.loop_failed [where n = n and maxConcurrency = m and safe = safe and outcome = outcome, OF InLoop]
      sched_step.reach_barrier [where n = n and maxConcurrency = m and safe = safe and outcome = outcome, OF InLoop]
      sched_step.classify_threw [where n = n and maxConcurrency = m and safe = safe and outcome = outcome, OF InLoop]
    have pool: "length (sc_active s) < m" using True assms(3) by simp
    have "sc_next s < n \<or> sc_next s = n" using assms(2) InLoop by (auto simp: order_ok_def)
    moreover have classes: "(\<exists>e. safe (sc_next s) = Inl e) \<or> safe (sc_next s) = Inr True \<or> safe (sc_next s) = Inr False"
      by (cases "safe (sc_next s)") auto
    ultimately consider "sc_next s < n" "sc_failure s = None" "\<not> sc_aborted s" "safe (sc_next s) = Inr True"
      | "sc_next s < n" "sc_failure s = None" "sc_aborted s \<or> safe (sc_next s) = Inr False"
      | e where "sc_next s < n" "sc_failure s = None" "\<not> sc_aborted s" "safe (sc_next s) = Inl e"
      | e where "sc_next s < n" "sc_failure s = Some e"
      | "sc_next s = n" "sc_failure s = None" | e where "sc_next s = n" "sc_failure s = Some e"
      using classes by (cases "sc_failure s") blast+
    then show ?thesis
    proof cases
      case 1
      show ?thesis by (rule exI, rule a(3) [OF 1(1) pool 1(2,3,4)])
    next
      case 2
      show ?thesis by (rule exI, rule a(5) [OF 2(1) pool 2(2,3)])
    next
      case 3
      show ?thesis by (rule exI, rule a(6) [OF 3(1) pool 3(2,3,4)])
    next
      case 4
      show ?thesis by (rule exI, rule a(4) [OF 4(1) pool 4(2)])
    next
      case 5
      show ?thesis by (rule exI, rule a(1) [OF 5])
    next
      case 6
      show ?thesis by (rule exI, rule a(2) [OF 6])
    qed
  next
    case AtBarrier
    then show ?thesis
      using True sched_step.barrier_failed [of s _ n m safe outcome] sched_step.start_exclusive [of s n m safe outcome]
      by (cases "sc_failure s") auto
  next
    case InExclusive
    then show ?thesis
      using sched_step.exclusive_done [of s outcome _ n m safe] sched_step.exclusive_threw [of s outcome _ n m safe]
      by (cases "outcome (sc_next s)") auto
  next
    case (Draining e)
    show ?thesis by (rule exI, rule sched_step.drained [OF Draining True])
  qed (use assms in auto)
qed

text \<open>The states the scheduler may be in, and its ends.\<close>

definition sched_inv :: "nat \<Rightarrow> nat \<Rightarrow> (nat \<Rightarrow> 'e + bool) \<Rightarrow> (nat \<Rightarrow> 'e + 'r) \<Rightarrow> ('r, 'e) sched_state \<Rightarrow> bool" where
  "sched_inv m n safe outcome s \<longleftrightarrow> pool_ok m s \<and> order_ok n s \<and> failure_ok n safe outcome s \<and> results_ok outcome s"

definition sched_ended :: "('r, 'e) sched_state \<Rightarrow> bool" where
  "sched_ended s \<longleftrightarrow> (case sc_phase s of Returned \<Rightarrow> True | Rejected _ \<Rightarrow> True | _ \<Rightarrow> False)"

lemma sched_inv_step:
  assumes "sched_inv m n safe outcome s" and "sched_step n m safe outcome s s'"
  shows "sched_inv m n safe outcome s'"
proof -
  have ok: "pool_ok m s" "order_ok n s" "failure_ok n safe outcome s" "results_ok outcome s"
    using assms(1) by (auto simp: sched_inv_def)
  show ?thesis
    using pool_ok_step [OF assms(2) ok(1)] order_ok_step [OF assms(2) ok(2)]
      failure_ok_step [OF assms(2) ok(3,2,1)] results_ok_step [OF assms(2) ok(4,1,2)]
    unfolding sched_inv_def by blast
qed

interpretation sched: terminating_system "executeAll_start n" "sched_step n (Suc m) safe outcome" "sched_inv (Suc m) n safe outcome"
    "sched_measure n" sched_ended
  for n m safe and outcome :: "nat \<Rightarrow> 'e + 'r"
proof (unfold_locales, goal_cases)
  case 1
  show ?case using start_ok [of "Suc m"] unfolding sched_inv_def by blast
next
  case (2 s s')
  then show ?case by (rule sched_inv_step)
next
  case (3 s s')
  then show ?case using sched_step_measure by (auto simp: sched_inv_def)
next
  case (4 s)
  then show ?case using sched_progress [of "Suc m" s n] by (auto simp: sched_inv_def sched_ended_def split: sched_phase.splits)
qed

lemma sched_reachable_run: "sched_reachable n m safe outcome s \<longleftrightarrow> (sched_step n m safe outcome)\<^sup>*\<^sup>* (executeAll_start n) s"
proof
  show "sched_reachable n m safe outcome s \<Longrightarrow> (sched_step n m safe outcome)\<^sup>*\<^sup>* (executeAll_start n) s"
    by (induction rule: sched_reachable.induct) auto
  show "(sched_step n m safe outcome)\<^sup>*\<^sup>* (executeAll_start n) s \<Longrightarrow> sched_reachable n m safe outcome s"
    by (induction rule: rtranclp_induct) (auto intro: sched_reachable.intros)
qed

lemma reachable_ok:
  assumes "sched_reachable n m safe outcome s" and "0 < m"
  shows "pool_ok m s \<and> order_ok n s \<and> failure_ok n safe outcome s \<and> results_ok outcome s"
proof -
  obtain m' where "m = Suc m'" using assms(2) gr0_implies_Suc by blast
  then have "sched_inv m n safe outcome s"
    using sched.invar_reachable assms(1) by (auto simp: sched_reachable_run)
  then show ?thesis by (simp add: sched_inv_def)
qed

section \<open>What a scheduler gives back\<close>

lemma sequential_from_all:
  "sequential_from outcome is = (case find (\<lambda>i. isl (outcome i)) is of
      Some i \<Rightarrow> Inl (projl (outcome i)) | None \<Rightarrow> Inr (map (\<lambda>i. projr (outcome i)) is))"
proof (induction "is")
  case (Cons i "is")
  then show ?case by (cases "outcome i") (auto split: option.splits)
qed simp

lemma returned_results:
  assumes "sched_reachable n m safe outcome s" and "0 < m" and "sc_phase s = Returned"
  shows "sequential_executeAll n outcome = Inr (map (\<lambda>j. the (sc_results s j)) [0..<n])
     \<and> (\<forall>j<n. sc_results s j \<noteq> None)"
proof -
  note ok = reachable_ok [OF assms(1,2)]
  have fin: "sc_next s = n" "sc_active s = []" "sc_failure s = None"
    using ok assms(3) by (auto simp: pool_ok_def order_ok_def failure_ok_def)
  have st: "settled outcome s j" if "j < n" for j
    using ok that fin by (auto simp: results_ok_def)
  then have r: "outcome j = Inr (the (sc_results s j)) \<and> sc_results s j \<noteq> None" if "j < n" for j
    using that fin(3) by (auto simp: settled_def split: sum.splits dest: st)
  have "find (\<lambda>i. isl (outcome i)) [0..<n] = None"
    using r by (auto simp: find_None_iff)
  moreover have "map (\<lambda>i. projr (outcome i)) [0..<n] = map (\<lambda>j. the (sc_results s j)) [0..<n]"
    using r by (intro map_cong refl) auto
  ultimately show ?thesis using r by (simp add: sequential_executeAll_def sequential_from_all)
qed



text \<open>C37. The scheduler always comes to an end. A run from a reachable state has at most as many steps as the bound
  of that state, whatever the interleaving and the aborts, so no run goes on for ever; and from every reachable
  state a return or a rejection can be reached: no call is left waiting.\<close>

theorem scheduler_terminates:
  assumes "sched_reachable n maxConcurrency safe outcome s" and "0 < maxConcurrency"
  shows "{k. \<exists>s'. (sched_step n maxConcurrency safe outcome ^^ k) s s'} \<subseteq> {..sched_measure n s}
    \<and> (\<exists>s'. (sched_step n maxConcurrency safe outcome)\<^sup>*\<^sup>* s s' \<and> sched_ended s')"
proof -
  obtain m where m: "maxConcurrency = Suc m" using assms(2) gr0_implies_Suc by blast
  have inv: "sched_inv (Suc m) n safe outcome s" using reachable_ok [OF assms] by (simp add: sched_inv_def m)
  show ?thesis using sched.run_length [OF _ inv] sched.reaches_end [OF inv] unfolding m by fastforce
qed

theorem scheduler_terminates_witness:
  "\<exists>s'. (sched_step 3 4 (\<lambda>_. Inr True) Inr)\<^sup>*\<^sup>* (executeAll_start 3 :: (nat, string) sched_state) s' \<and> sched_ended s'"
proof -
  have "sched_reachable 3 4 (\<lambda>_. Inr True) Inr (executeAll_start 3 :: (nat, string) sched_state)" by (rule reach_start)
  from scheduler_terminates [OF this] show ?thesis by simp
qed

end
