(* ===== verification/ToolSchema.thy ===== *)
theory ToolSchema
  imports Prelude
begin

text \<open>
  The check of a tool call's input against the tool's JSON schema: \<open>tool/execution/validateToolInput.ts\<close> and
  the schema types of \<open>tool/protocol/schema.ts\<close>. An issue keeps its path and code; its wording is left out.
  The properties of a schema that the validator never reads are left out.
\<close>

section \<open>Schemas\<close>

datatype type_spec = OneType string | TypeUnion "string list"

datatype json_schema = Schema
  (s_type: "type_spec option")
  (s_properties: "(string \<times> json_schema) list option")
  (s_required: "string list option")
  (s_additional: "bool option")
  (s_items: "json_schema option")
  (s_enum: "js_value list option")

datatype issue_code = RequiredIssue | UnknownProperty | InvalidType | InvalidEnum

record issue =
  issue_path :: string
  issue_code :: issue_code

section \<open>The language's operators\<close>

text \<open>\<open>Object.is\<close>: two arrays or objects are the same only if they are one object, which an input and a schema
  never share. The values have no negative zero.\<close>

fun object_is :: "js_value \<Rightarrow> js_value \<Rightarrow> bool" where
  "object_is (JArray _) _ = False"
| "object_is (JObject _) _ = False"
| "object_is a b = (a = b)"

text \<open>\<open>k in o\<close> also looks into the prototype of a plain object. What it finds there is a function (of no
  schema type, as \<open>undefined\<close> is) or the prototype object itself.\<close>

definition prototype_names :: "string list" where
  "prototype_names = [''constructor'', ''__defineGetter__'', ''__defineSetter__'', ''hasOwnProperty'',
     ''__lookupGetter__'', ''__lookupSetter__'', ''isPrototypeOf'', ''propertyIsEnumerable'', ''toString'',
     ''valueOf'', ''__proto__'', ''toLocaleString'']"

definition js_in :: "string \<Rightarrow> (string \<times> 'v) list \<Rightarrow> bool" where
  "js_in k fs \<longleftrightarrow> k \<in> fst ` set fs \<or> k \<in> set prototype_names"

definition js_read :: "(string \<times> js_value) list \<Rightarrow> string \<Rightarrow> js_value" where
  "js_read fs k =
     (case map_of fs k of Some v \<Rightarrow> v | None \<Rightarrow> if k = ''__proto__'' then JObject [] else JUndefined)"

section \<open>The validator\<close>

definition matchesTypeName :: "js_value \<Rightarrow> string \<Rightarrow> bool" where
  "matchesTypeName v t =
     (if t = ''null'' then v = JNull
      else if t = ''object'' then isRecord v
      else if t = ''array'' then (case v of JArray _ \<Rightarrow> True | _ \<Rightarrow> False)
      else if t = ''string'' then (case v of JString _ \<Rightarrow> True | _ \<Rightarrow> False)
      else if t = ''number'' then (case v of JNumber _ \<Rightarrow> True | _ \<Rightarrow> False)
      else if t = ''integer'' then (case v of JNumber r \<Rightarrow> snd (quotient_of r) = 1 | _ \<Rightarrow> False)
      else if t = ''boolean'' then (case v of JBool _ \<Rightarrow> True | _ \<Rightarrow> False)
      else False)"

fun matchesType :: "js_value \<Rightarrow> type_spec \<Rightarrow> bool" where
  "matchesType v (OneType t) = matchesTypeName v t"
| "matchesType v (TypeUnion ts) = list_ex (matchesTypeName v) ts"

definition enum_ok :: "js_value \<Rightarrow> json_schema \<Rightarrow> bool" where
  "enum_ok v s = (case s_enum s of None \<Rightarrow> True | Some items \<Rightarrow> list_ex (\<lambda>item. object_is item v) items)"

definition type_ok :: "js_value \<Rightarrow> json_schema \<Rightarrow> bool" where
  "type_ok v s = (case s_type s of None \<Rightarrow> True | Some t \<Rightarrow> matchesType v t)"

definition effectiveType :: "json_schema \<Rightarrow> string option" where
  "effectiveType s =
     (case s_type s of
        None \<Rightarrow> None
      | Some (OneType t) \<Rightarrow> Some t
      | Some (TypeUnion ts) \<Rightarrow> find (\<lambda>t. t \<noteq> ''null'') ts)"

definition expects_object :: "js_value \<Rightarrow> json_schema \<Rightarrow> bool" where
  "expects_object v s \<longleftrightarrow> effectiveType s = Some ''object'' \<or> (effectiveType s = None \<and> isRecord v)"

definition properties_of :: "json_schema \<Rightarrow> (string \<times> json_schema) list" where
  "properties_of s = (case s_properties s of None \<Rightarrow> [] | Some ps \<Rightarrow> ps)"

text \<open>The two loops of \<open>validateObject\<close> before the one over the declared properties.\<close>

definition missing_issues :: "(string \<times> js_value) list \<Rightarrow> json_schema \<Rightarrow> string \<Rightarrow> issue list" where
  "missing_issues fs s path =
     map (\<lambda>k. \<lparr>issue_path = path @ ''.'' @ k, issue_code = RequiredIssue\<rparr>)
       (filter (\<lambda>k. \<not> js_in k fs) (case s_required s of None \<Rightarrow> [] | Some ks \<Rightarrow> ks))"

definition unknown_issues :: "(string \<times> js_value) list \<Rightarrow> json_schema \<Rightarrow> string \<Rightarrow> issue list" where
  "unknown_issues fs s path =
     (if s_additional s = Some False then
        map (\<lambda>k. \<lparr>issue_path = path @ ''.'' @ k, issue_code = UnknownProperty\<rparr>)
          (filter (\<lambda>k. \<not> js_in k (properties_of s)) (map fst fs))
      else [])"

lemma size_properties_of [termination_simp]:
  "(k, p) \<in> set (properties_of s) \<Longrightarrow> size p < size s"
proof (cases s)
  case (Schema t ps r a i e)
  assume "(k, p) \<in> set (properties_of s)"
  then obtain qs where q: "ps = Some qs" "(k, p) \<in> set qs"
    using Schema by (cases ps) (auto simp: properties_of_def)
  have "size p \<le> size_prod (\<lambda>x. 0) size (k, p)" by simp
  also have "\<dots> \<le> size_list (size_prod (\<lambda>x. 0) size) qs" using q(2) by (rule size_list_estimation') simp
  finally show ?thesis using Schema q(1) by simp
qed

lemma size_items [termination_simp]: "s_items s = Some i \<Longrightarrow> size i < size s"
  by (cases s) simp

fun validateValue :: "js_value \<Rightarrow> json_schema \<Rightarrow> string \<Rightarrow> issue list" where
  "validateValue v s path =
     (if \<not> enum_ok v s then [\<lparr>issue_path = path, issue_code = InvalidEnum\<rparr>]
      else if \<not> type_ok v s then [\<lparr>issue_path = path, issue_code = InvalidType\<rparr>]
      else
        (case v of
           JObject fs \<Rightarrow>
             if expects_object v s then
               missing_issues fs s path @ unknown_issues fs s path
               @ concat (map (\<lambda>(k, p). if js_in k fs then validateValue (js_read fs k) p (path @ ''.'' @ k) else [])
                   (properties_of s))
             else []
         | JArray xs \<Rightarrow>
             if effectiveType s = Some ''array'' then
               (case s_items s of
                  None \<Rightarrow> []
                | Some i \<Rightarrow> concat (map (\<lambda>(n, x). validateValue x i (path @ ''['' @ show_nat n @ '']'')) (List.enumerate 0 xs)))
             else []
         | _ \<Rightarrow> []))"

declare validateValue.simps [simp del]

text \<open>\<open>Inl\<close> the issues.\<close>

definition validateToolInput :: "js_value \<Rightarrow> json_schema \<Rightarrow> issue list + js_value" where
  "validateToolInput input s = (let issues = validateValue input s ''$'' in if issues = [] then Inr input else Inl issues)"

section \<open>What an accepted input holds\<close>

text \<open>A place in a value and the schema of that place.\<close>

datatype place = Key string | Index nat

fun value_at :: "js_value \<Rightarrow> place list \<Rightarrow> js_value option" where
  "value_at v [] = Some v"
| "value_at (JObject fs) (Key k # ps) = (case map_of fs k of None \<Rightarrow> None | Some w \<Rightarrow> value_at w ps)"
| "value_at (JArray xs) (Index n # ps) = (if n < length xs then value_at (xs ! n) ps else None)"
| "value_at _ _ = None"

fun schema_at :: "json_schema \<Rightarrow> place list \<Rightarrow> json_schema option" where
  "schema_at s [] = Some s"
| "schema_at s (Key k # ps) =
     (if effectiveType s \<in> {None, Some ''object''} then
        (case map_of (properties_of s) k of None \<Rightarrow> None | Some p \<Rightarrow> schema_at p ps)
      else None)"
| "schema_at s (Index n # ps) =
     (if effectiveType s = Some ''array'' then (case s_items s of None \<Rightarrow> None | Some i \<Rightarrow> schema_at i ps) else None)"

definition has_required :: "js_value \<Rightarrow> json_schema \<Rightarrow> bool" where
  "has_required v s =
     (case v of
        JObject fs \<Rightarrow> if expects_object v s then list_all (\<lambda>k. js_in k fs) (case s_required s of None \<Rightarrow> [] | Some ks \<Rightarrow> ks) else True
      | _ \<Rightarrow> True)"

definition no_unknown :: "js_value \<Rightarrow> json_schema \<Rightarrow> bool" where
  "no_unknown v s =
     (case v of
        JObject fs \<Rightarrow> if expects_object v s \<and> s_additional s = Some False
                       then list_all (\<lambda>k. js_in k (properties_of s)) (map fst fs) else True
      | _ \<Rightarrow> True)"

lemma valid_here:
  assumes "validateValue v s path = []"
  shows "enum_ok v s \<and> type_ok v s \<and> has_required v s \<and> no_unknown v s"
  using assms
  by (auto simp: validateValue.simps has_required_def no_unknown_def missing_issues_def unknown_issues_def
      filter_empty_conv list_all_iff split: if_splits js_value.splits option.splits)

lemma valid_property:
  assumes "validateValue (JObject fs) s path = []" and "expects_object (JObject fs) s"
    and "map_of (properties_of s) k = Some p" and "map_of fs k = Some w"
  shows "validateValue w p (path @ ''.'' @ k) = []"
proof -
  have "(k, p) \<in> set (properties_of s)" using assms(3) by (rule map_of_SomeD)
  moreover have "js_in k fs" using assms(4) by (force simp: js_in_def dest: map_of_SomeD)
  moreover have "js_read fs k = w" using assms(4) by (simp add: js_read_def)
  ultimately show ?thesis
    using assms(1,2) valid_here [OF assms(1)] by (fastforce simp: validateValue.simps [of "JObject fs" s])
qed

lemma valid_element:
  assumes "validateValue (JArray xs) s path = []" and "effectiveType s = Some ''array''"
    and "s_items s = Some i" and "n < length xs"
  shows "validateValue (xs ! n) i (path @ ''['' @ show_nat n @ '']'') = []"
proof -
  have "(n, xs ! n) \<in> set (List.enumerate 0 xs)" using assms(4) by (simp add: in_set_enumerate_eq)
  then show ?thesis
    using assms(1-3) valid_here [OF assms(1)] by (fastforce simp: validateValue.simps [of "JArray xs" s])
qed

lemma valid_at:
  assumes "validateValue v s path = []" and "schema_at s ps = Some sub" and "value_at v ps = Some w"
  shows "\<exists>path'. validateValue w sub path' = []"
  using assms
proof (induction v ps arbitrary: s path rule: value_at.induct)
  case (2 fs k ps)
  then obtain w' p where h: "map_of fs k = Some w'" "map_of (properties_of s) k = Some p"
      "expects_object (JObject fs) s" "schema_at p ps = Some sub" "value_at w' ps = Some w"
    by (auto simp: expects_object_def split: option.splits if_splits)
  show ?case using 2(1) [OF h(1) valid_property [OF 2(2) h(3,2,1)] h(4,5)] .
next
  case (3 xs n ps)
  then obtain i where h: "s_items s = Some i" "effectiveType s = Some ''array''" "n < length xs"
      "schema_at i ps = Some sub" "value_at (xs ! n) ps = Some w"
    by (auto split: option.splits if_splits)
  show ?case using 3(1) [OF h(3) valid_element [OF 3(2) h(2,1,3)] h(4,5)] .
qed auto

text \<open>C38. An accepted input is well typed at every place the schema describes, however deep: the value there
  has one of the declared types and is in the declared enumeration, an object has every required key and no key
  beside the declared ones where the schema forbids others, except that the names of the members of the object
  prototype, which \<open>in\<close> finds in every object, count as present and as declared.\<close>

theorem accepted_input_typed:
  assumes "validateToolInput input s = Inr input'" and "schema_at s ps = Some sub" and "value_at input ps = Some w"
  shows "input' = input \<and> type_ok w sub \<and> enum_ok w sub \<and> has_required w sub \<and> no_unknown w sub"
proof -
  have "validateValue input s ''$'' = []" and "input' = input"
    using assms(1) by (auto simp: validateToolInput_def Let_def split: if_splits)
  then show ?thesis using valid_at assms(2,3) valid_here by blast
qed

definition edits_schema :: json_schema where
  "edits_schema = Schema (Some (OneType ''object''))
     (Some [(''edits'', Schema (Some (OneType ''array'')) None None None
        (Some (Schema (Some (OneType ''object''))
           (Some [(''line'', Schema (Some (TypeUnion [''null'', ''integer''])) None None None None None)])
           (Some [''line'']) (Some False) None None)) None)])
     (Some [''edits'']) (Some False) None None"

definition edits_input :: js_value where
  "edits_input = JObject [(''edits'', JArray [JObject [(''line'', JNumber 3)], JObject [(''line'', JNull)]])]"

theorem accepted_input_typed_witness:
  "\<exists>sub. schema_at edits_schema [Key ''edits'', Index 1, Key ''line''] = Some sub \<and> type_ok JNull sub \<and> enum_ok JNull sub"
proof -
  have a: "validateToolInput edits_input edits_schema = Inr edits_input"
    by (simp add: validateToolInput_def edits_input_def edits_schema_def validateValue.simps enum_ok_def type_ok_def
        matchesTypeName_def expects_object_def effectiveType_def properties_of_def missing_issues_def unknown_issues_def
        js_in_def js_read_def prototype_names_def)
  have b: "schema_at edits_schema [Key ''edits'', Index 1, Key ''line'']
      = Some (Schema (Some (TypeUnion [''null'', ''integer''])) None None None None None)"
    by (simp add: edits_schema_def effectiveType_def properties_of_def)
  have c: "value_at edits_input [Key ''edits'', Index 1, Key ''line''] = Some JNull"
    by (simp add: edits_input_def)
  show ?thesis using accepted_input_typed [OF a b c] b by blast
qed

text \<open>The exception is real: a schema that forbids every key accepts a key named as a method of the object
  prototype.\<close>

lemma prototype_key_accepted:
  "validateToolInput (JObject [(''toString'', JNumber 1)]) (Schema (Some (OneType ''object'')) None None (Some False) None None)
     = Inr (JObject [(''toString'', JNumber 1)])"
  by (simp add: validateToolInput_def validateValue.simps enum_ok_def type_ok_def matchesTypeName_def
      expects_object_def effectiveType_def properties_of_def missing_issues_def unknown_issues_def js_in_def prototype_names_def)

end
