(* ===== verification/ToolRegistry.thy ===== *)
theory ToolRegistry
  imports PermissionRuntime ToolSchema
begin

text \<open>
  The tools of a session by name: \<open>tool/registry/ToolRegistry.ts\<close> and \<open>filterAvailableTools.ts\<close>, with the
  parts of \<open>PilotDeckToolDefinition\<close> the runtime reads. The three maps of the registry are
  insertion-ordered; \<open>localeCompare\<close> is the parameter \<open>le\<close>. A registry object is a value: an operation that
  throws has changed nothing, which the definitions show by returning \<open>Inl\<close> before any update.
\<close>

section \<open>Tools\<close>

text \<open>\<open>requiresUserInteraction\<close> and \<open>isConcurrencySafe\<close> may throw (\<open>Inl\<close>); \<open>validateInput\<close> answers with issues;
  \<open>checkAvailability\<close> is known by the identity of its function.\<close>

record agent_tool = tool_def +
  aliases :: "string list"
  inputSchema :: json_schema
  requiresUserInteraction :: "js_value \<Rightarrow> (string + bool) option"
  isConcurrencySafe :: "js_value \<Rightarrow> string + bool"
  validateInput :: "js_value \<Rightarrow> issue list option"
  checkAvailability :: "nat option"

datatype unavailable_code = SetupRequired | NotAvailable | FailedCheck

record diagnostic =
  dg_toolName :: string
  dg_code :: unavailable_code
  dg_reason :: string

section \<open>The registry\<close>

record registry =
  toolsByName :: "(string \<times> agent_tool) list"
  alias_names :: "(string \<times> string) list"
  unavailable :: "(string \<times> diagnostic) list"

datatype registry_error =
    AlreadyRegistered string
  | ConflictsWithAlias string
  | AliasIsToolName string
  | AliasTaken string
  | NotRegistered string

definition new_registry :: registry where
  "new_registry = \<lparr>toolsByName = [], alias_names = [], unavailable = []\<rparr>"

fun validate_alias_list :: "registry \<Rightarrow> string \<Rightarrow> string option \<Rightarrow> string list \<Rightarrow> registry_error option" where
  "validate_alias_list r n replacing [] = None"
| "validate_alias_list r n replacing (a # as) =
     (if a \<noteq> n \<and> jhas (toolsByName r) a then Some (AliasIsToolName a)
      else
        (case jget (alias_names r) a of
           Some owner \<Rightarrow> if Some owner \<noteq> replacing then Some (AliasTaken a) else validate_alias_list r n replacing as
         | None \<Rightarrow> validate_alias_list r n replacing as))"

definition validateAliases :: "registry \<Rightarrow> agent_tool \<Rightarrow> string option \<Rightarrow> registry_error option" where
  "validateAliases r t replacing = validate_alias_list r (tool_name t) replacing (dedupe (aliases t))"

text \<open>The updates of the three maps that \<open>register\<close> and \<open>replace\<close> end with.\<close>

definition publish :: "registry \<Rightarrow> agent_tool \<Rightarrow> registry" where
  "publish r t =
     r\<lparr>toolsByName := jset (tool_name t) t (toolsByName r),
       alias_names := fold (\<lambda>a m. jset a (tool_name t) m) (aliases t) (alias_names r),
       unavailable := fold jdelete (aliases t) (jdelete (tool_name t) (unavailable r))\<rparr>"

definition register :: "registry \<Rightarrow> agent_tool \<Rightarrow> registry_error + registry" where
  "register r t =
     (if jhas (toolsByName r) (tool_name t) then Inl (AlreadyRegistered (tool_name t))
      else if jhas (alias_names r) (tool_name t) then Inl (ConflictsWithAlias (tool_name t))
      else
        (case validateAliases r t None of
           Some e \<Rightarrow> Inl e
         | None \<Rightarrow> Inr (publish r t)))"

definition real_name :: "registry \<Rightarrow> string \<Rightarrow> string" where
  "real_name r n = (case jget (alias_names r) n of Some m \<Rightarrow> m | None \<Rightarrow> n)"

definition get_tool :: "registry \<Rightarrow> string \<Rightarrow> agent_tool option" where
  "get_tool r n = jget (toolsByName r) (real_name r n)"

definition has_tool :: "registry \<Rightarrow> string \<Rightarrow> bool" where
  "has_tool r n \<longleftrightarrow> get_tool r n \<noteq> None"

definition list_tools :: "(string \<Rightarrow> string \<Rightarrow> bool) \<Rightarrow> registry \<Rightarrow> agent_tool list" where
  "list_tools le r = sort_by (\<lambda>a b. le (tool_name a) (tool_name b)) (map snd (toolsByName r))"

definition markUnavailable :: "registry \<Rightarrow> diagnostic \<Rightarrow> string list \<Rightarrow> registry" where
  "markUnavailable r d as =
     r\<lparr>unavailable := fold (\<lambda>a m. jset a d m) as (jset (dg_toolName d) d (unavailable r))\<rparr>"

definition getUnavailable :: "registry \<Rightarrow> string \<Rightarrow> diagnostic option" where
  "getUnavailable r n =
     (case jget (unavailable r) (real_name r n) of Some d \<Rightarrow> Some d | None \<Rightarrow> jget (unavailable r) n)"

text \<open>The entries by tool name, each with the other names its diagnostic is filed under.\<close>

fun collect_entries ::
    "(string \<times> diagnostic) list \<Rightarrow> (string \<times> diagnostic \<times> string list) list \<Rightarrow> (string \<times> diagnostic \<times> string list) list" where
  "collect_entries [] m = m"
| "collect_entries ((n, d) # ds) m =
     (let (d0, as) = (case jget m (dg_toolName d) of Some e \<Rightarrow> e | None \<Rightarrow> (d, []));
          as' = (if n \<noteq> dg_toolName d \<and> n \<notin> set as then as @ [n] else as)
      in collect_entries ds (jset (dg_toolName d) (d0, as') m))"

definition listUnavailableEntries :: "(string \<Rightarrow> string \<Rightarrow> bool) \<Rightarrow> (string \<Rightarrow> string \<Rightarrow> bool) \<Rightarrow> registry \<Rightarrow> (diagnostic \<times> string list) list" where
  "listUnavailableEntries le unit_le r =
     sort_by (\<lambda>a b. le (dg_toolName (fst a)) (dg_toolName (fst b)))
       (map (\<lambda>(n, d, as). (d, sort_by unit_le as)) (collect_entries (unavailable r) []))"

definition unregister :: "registry \<Rightarrow> string \<Rightarrow> registry \<times> bool" where
  "unregister r n =
     (case jget (toolsByName r) n of
        None \<Rightarrow> (r, False)
      | Some t \<Rightarrow>
          (r\<lparr>toolsByName := jdelete n (toolsByName r),
             alias_names := fold jdelete (aliases t) (alias_names r),
             unavailable := jdelete n (fold jdelete (aliases t) (unavailable r))\<rparr>, True))"

definition replace_tool :: "registry \<Rightarrow> agent_tool \<Rightarrow> registry_error + registry" where
  "replace_tool r t =
     (case jget (toolsByName r) (tool_name t) of
        None \<Rightarrow> Inl (NotRegistered (tool_name t))
      | Some old \<Rightarrow>
          (case validateAliases r t (Some (tool_name t)) of
             Some e \<Rightarrow> Inl e
           | None \<Rightarrow>
               Inr (publish (r\<lparr>alias_names := fold jdelete (aliases old) (alias_names r),
                               unavailable := fold jdelete (aliases old) (unavailable r)\<rparr>) t)))"

fun register_all :: "registry \<Rightarrow> agent_tool list \<Rightarrow> registry_error + registry" where
  "register_all r [] = Inr r"
| "register_all r (t # ts) = (case register r t of Inl e \<Rightarrow> Inl e | Inr r' \<Rightarrow> register_all r' ts)"

definition replaceGroup :: "registry \<Rightarrow> string list \<Rightarrow> agent_tool list \<Rightarrow> registry_error + registry" where
  "replaceGroup r previousNames ts = register_all (fold (\<lambda>n c. fst (unregister c n)) previousNames r) ts"

section \<open>Availability\<close>

text \<open>What a check answers; \<open>Inl\<close> the message of what it throws.\<close>

type_synonym availability = "(unavailable_code \<times> string) option"

definition settled_check :: "(nat \<Rightarrow> string + availability) \<Rightarrow> nat \<Rightarrow> availability" where
  "settled_check run c = (case run c of Inr a \<Rightarrow> a | Inl m \<Rightarrow> Some (FailedCheck, m))"

text \<open>One answer per check function, kept for the tools that share it.\<close>

definition resolveToolAvailability ::
    "(nat \<Rightarrow> string + availability) \<Rightarrow> agent_tool \<Rightarrow> (nat \<times> availability) list \<Rightarrow> availability \<times> (nat \<times> availability) list" where
  "resolveToolAvailability run t cache =
     (case checkAvailability t of
        None \<Rightarrow> (None, cache)
      | Some c \<Rightarrow>
          (case jget cache c of
             Some a \<Rightarrow> (a, cache)
           | None \<Rightarrow> (settled_check run c, jset c (settled_check run c) cache)))"

fun filter_tools ::
    "(nat \<Rightarrow> string + availability) \<Rightarrow> agent_tool list \<Rightarrow> (nat \<times> availability) list \<Rightarrow> registry \<Rightarrow> diagnostic list
      \<Rightarrow> registry_error + registry \<times> diagnostic list" where
  "filter_tools run [] cache r ds = Inr (r, ds)"
| "filter_tools run (t # ts) cache r ds =
     (let (a, cache') = resolveToolAvailability run t cache
      in case a of
           None \<Rightarrow> (case register r t of Inl e \<Rightarrow> Inl e | Inr r' \<Rightarrow> filter_tools run ts cache' r' ds)
         | Some (code, reason) \<Rightarrow>
             (let d = \<lparr>dg_toolName = tool_name t, dg_code = code, dg_reason = reason\<rparr>
              in filter_tools run ts cache' (markUnavailable r d (aliases t)) (ds @ [d])))"

definition filterAvailableTools ::
    "(string \<Rightarrow> string \<Rightarrow> bool) \<Rightarrow> (string \<Rightarrow> string \<Rightarrow> bool) \<Rightarrow> (nat \<Rightarrow> string + availability) \<Rightarrow> registry
      \<Rightarrow> registry_error + registry \<times> diagnostic list" where
  "filterAvailableTools le unit_le run r =
     (let entries = listUnavailableEntries le unit_le r
      in filter_tools run (list_tools le r) []
           (fold (\<lambda>(d, as) f. markUnavailable f d as) entries new_registry) (map fst entries))"

section \<open>The registry as a set of tools\<close>

definition spellings :: "agent_tool \<Rightarrow> string set" where
  "spellings t = insert (tool_name t) (set (aliases t))"

definition clashes :: "agent_tool set \<Rightarrow> agent_tool \<Rightarrow> bool" where
  "clashes S t \<longleftrightarrow> (\<exists>u\<in>S. spellings u \<inter> spellings t \<noteq> {})"

definition tools_of :: "registry \<Rightarrow> agent_tool set" where
  "tools_of r = ran (map_of (toolsByName r))"

definition spec_register :: "agent_tool set \<Rightarrow> agent_tool \<Rightarrow> agent_tool set option" where
  "spec_register S t = (if clashes S t then None else Some (insert t S))"

definition spec_unregister :: "agent_tool set \<Rightarrow> string \<Rightarrow> agent_tool set" where
  "spec_unregister S n = {u \<in> S. tool_name u \<noteq> n}"

definition spec_replace :: "agent_tool set \<Rightarrow> agent_tool \<Rightarrow> agent_tool set option" where
  "spec_replace S t =
     (if tool_name t \<notin> tool_name ` S then None else spec_register (spec_unregister S (tool_name t)) t)"

fun spec_register_all :: "agent_tool set \<Rightarrow> agent_tool list \<Rightarrow> agent_tool set option" where
  "spec_register_all S [] = Some S"
| "spec_register_all S (t # ts) = Option.bind (spec_register S t) (\<lambda>S'. spec_register_all S' ts)"

text \<open>A name leads to one tool: no two tools share a spelling, and the two maps hold what the tools say.\<close>

definition names_match :: "registry \<Rightarrow> bool" where
  "names_match r \<longleftrightarrow> (\<forall>n t. jget (toolsByName r) n = Some t \<longrightarrow> tool_name t = n)"

definition aliases_match :: "registry \<Rightarrow> bool" where
  "aliases_match r \<longleftrightarrow>
     (\<forall>a n. jget (alias_names r) a = Some n \<longleftrightarrow> (\<exists>t. jget (toolsByName r) n = Some t \<and> a \<in> set (aliases t)))"

definition aliases_free :: "registry \<Rightarrow> bool" where
  "aliases_free r \<longleftrightarrow> (\<forall>a n t. jget (alias_names r) a = Some n \<and> jget (toolsByName r) a = Some t \<longrightarrow> a = n)"

definition registry_ok :: "registry \<Rightarrow> bool" where
  "registry_ok r \<longleftrightarrow> names_match r \<and> aliases_match r \<and> aliases_free r"

lemmas registry_ok_defs = registry_ok_def names_match_def aliases_match_def aliases_free_def

lemma fold_jset [jmap_simps]: "jget (fold (\<lambda>a m. jset a n m) as m) k = (if k \<in> set as then Some n else jget m k)"
  by (induction as arbitrary: m) (auto simp: jmap_simps)

lemma fold_jdelete [jmap_simps]: "jget (fold jdelete as m) k = (if k \<in> set as then None else jget m k)"
  by (induction as arbitrary: m) (auto simp: jmap_simps)

lemma tools_of_iff: "names_match r \<Longrightarrow> t \<in> tools_of r \<longleftrightarrow> jget (toolsByName r) (tool_name t) = Some t"
  by (auto simp: tools_of_def ran_def names_match_def)

lemma registry_ok_new: "registry_ok new_registry" "tools_of new_registry = {}"
  by (simp_all add: registry_ok_defs new_registry_def tools_of_def)

lemma alias_of_tool:
  "aliases_match r \<Longrightarrow> jget (toolsByName r) n = Some t \<Longrightarrow> a \<in> set (aliases t) \<Longrightarrow> jget (alias_names r) a = Some n"
  unfolding aliases_match_def by blast

lemma alias_owner:
  "aliases_match r \<Longrightarrow> jget (alias_names r) a = Some n \<Longrightarrow> \<exists>t. jget (toolsByName r) n = Some t \<and> a \<in> set (aliases t)"
  unfolding aliases_match_def by blast

lemma aliases_matchI:
  assumes "\<And>a n t. jget (toolsByName r) n = Some t \<Longrightarrow> a \<in> set (aliases t) \<Longrightarrow> jget (alias_names r) a = Some n"
    and "\<And>a n. jget (alias_names r) a = Some n \<Longrightarrow> \<exists>t. jget (toolsByName r) n = Some t \<and> a \<in> set (aliases t)"
  shows "aliases_match r"
  unfolding aliases_match_def using assms by blast

lemma real_name_iff:
  assumes "registry_ok r"
  shows "jget (toolsByName r) (real_name r k) = Some t \<longleftrightarrow> t \<in> tools_of r \<and> k \<in> spellings t"
proof -
  have ok: "names_match r" "aliases_match r" "aliases_free r" using assms by (auto simp: registry_ok_def)
  show ?thesis
  proof (cases "jget (alias_names r) k")
    case None
    then have "k \<notin> set (aliases t)" if "jget (toolsByName r) (tool_name t) = Some t"
      using alias_of_tool [OF ok(2) that] None by auto
    then show ?thesis using None ok(1)
      by (auto simp: real_name_def spellings_def tools_of_iff names_match_def)
  next
    case (Some n)
    then obtain u where u: "jget (toolsByName r) n = Some u" "k \<in> set (aliases u)"
      using ok(2) by (auto simp: aliases_match_def)
    have name: "tool_name u = n" using ok(1) u(1) by (simp add: names_match_def)
    have same: "tool_name t = n" if "jget (toolsByName r) (tool_name t) = Some t" "k \<in> spellings t"
    proof (cases "k \<in> set (aliases t)")
      case True
      then show ?thesis using alias_of_tool [OF ok(2) that(1)] Some by simp
    next
      case False
      then have "jget (toolsByName r) k = Some t" using that by (simp add: spellings_def)
      then show ?thesis using ok(3) Some False that(2) unfolding aliases_free_def spellings_def by blast
    qed
    have "t \<in> tools_of r \<and> k \<in> spellings t \<longleftrightarrow> t = u"
    proof
      assume h: "t \<in> tools_of r \<and> k \<in> spellings t"
      then have "jget (toolsByName r) (tool_name t) = Some t" by (simp add: tools_of_iff [OF ok(1)])
      moreover from this have "tool_name t = n" using same h by blast
      ultimately show "t = u" using u(1) by simp
    next
      assume "t = u"
      then show "t \<in> tools_of r \<and> k \<in> spellings t" using u name by (simp add: tools_of_iff [OF ok(1)] spellings_def)
    qed
    then show ?thesis using u(1) Some by (auto simp: real_name_def)
  qed
qed

lemma get_tool_iff: "registry_ok r \<Longrightarrow> get_tool r k = Some t \<longleftrightarrow> t \<in> tools_of r \<and> k \<in> spellings t"
  unfolding get_tool_def by (rule real_name_iff)

lemma one_tool_per_spelling:
  "registry_ok r \<Longrightarrow> t \<in> tools_of r \<Longrightarrow> u \<in> tools_of r \<Longrightarrow> k \<in> spellings t \<Longrightarrow> k \<in> spellings u \<Longrightarrow> t = u"
  using get_tool_iff [of r k] by (metis option.inject)

subsection \<open>The checks of a new tool\<close>

lemma validate_alias_list_None:
  "validate_alias_list r n replacing as = None \<longleftrightarrow>
     (\<forall>a\<in>set as. (a = n \<or> jget (toolsByName r) a = None)
        \<and> (case jget (alias_names r) a of None \<Rightarrow> True | Some owner \<Rightarrow> Some owner = replacing))"
  by (induction as) (auto simp: jhas_def split: option.splits)

lemma clash_iff:
  assumes "registry_ok r"
  shows "clashes (tools_of r) t \<longleftrightarrow> (\<exists>k\<in>spellings t. get_tool r k \<noteq> None)"
  using get_tool_iff [OF assms] unfolding clashes_def by (metis disjoint_iff not_Some_eq)

lemma get_tool_None:
  assumes "registry_ok r"
  shows "get_tool r k = None \<longleftrightarrow> jget (toolsByName r) k = None \<and> jget (alias_names r) k = None"
proof (cases "jget (alias_names r) k")
  case None
  then show ?thesis by (simp add: get_tool_def real_name_def)
next
  case (Some n)
  then obtain t where "jget (toolsByName r) n = Some t"
    using assms alias_owner by (fastforce simp: registry_ok_def)
  then show ?thesis using Some by (simp add: get_tool_def real_name_def)
qed

definition all_free :: "registry \<Rightarrow> string set \<Rightarrow> bool" where
  "all_free r ks \<longleftrightarrow> (\<forall>k\<in>ks. jget (toolsByName r) k = None \<and> jget (alias_names r) k = None)"

lemma clashes_all_free: "registry_ok r \<Longrightarrow> clashes (tools_of r) t \<longleftrightarrow> \<not> all_free r (spellings t)"
  unfolding all_free_def by (simp only: clash_iff get_tool_None) blast

lemma validate_new:
  assumes "jget (toolsByName r) (tool_name t) = None" and "jget (alias_names r) (tool_name t) = None"
  shows "validateAliases r t None = None \<longleftrightarrow> all_free r (spellings t)"
proof -
  have "(case jget (alias_names r) a of None \<Rightarrow> True | Some owner \<Rightarrow> Some owner = None) = (jget (alias_names r) a = None)" for a
    by (simp split: option.split)
  then show ?thesis using assms
    by (auto simp only: validateAliases_def validate_alias_list_None set_dedupe all_free_def spellings_def ball_simps)
qed

lemma register_cases:
  assumes "registry_ok r"
  shows "if clashes (tools_of r) t then isl (register r t) else register r t = Inr (publish r t)"
proof (cases "jget (toolsByName r) (tool_name t) = None \<and> jget (alias_names r) (tool_name t) = None")
  case True
  then have "validateAliases r t None = None \<longleftrightarrow> \<not> clashes (tools_of r) t"
    using validate_new clashes_all_free [OF assms] by blast
  then show ?thesis using True by (cases "validateAliases r t None") (simp_all add: register_def jhas_def)
next
  case False
  then have "\<not> all_free r (spellings t)" by (auto simp: all_free_def spellings_def)
  then show ?thesis using False by (auto simp: clashes_all_free [OF assms] register_def jhas_def)
qed

text \<open>Publishing a tool whose spellings nothing else uses.\<close>

lemma publish_maps [jmap_simps]:
  "jget (toolsByName (publish r t)) k = (if k = tool_name t then Some t else jget (toolsByName r) k)"
  "jget (alias_names (publish r t)) k = (if k \<in> set (aliases t) then Some (tool_name t) else jget (alias_names r) k)"
  by (simp_all add: publish_def jmap_simps)

lemma publish_ok:
  assumes "registry_ok r" and "\<not> clashes (tools_of r) t"
  shows "registry_ok (publish r t) \<and> tools_of (publish r t) = insert t (tools_of r)"
proof -
  have ok: "names_match r" "aliases_match r" "aliases_free r" using assms(1) by (auto simp: registry_ok_def)
  have free: "jget (toolsByName r) k = None" "jget (alias_names r) k = None" if "k \<in> spellings t" for k
    using assms that by (auto simp: clash_iff get_tool_None)
  have n: "jget (toolsByName r) (tool_name t) = None" using free by (simp add: spellings_def)
  have a: "jget (toolsByName r) k = None" "jget (alias_names r) k = None" if "k \<in> set (aliases t)" for k
    using free that by (auto simp: spellings_def)
  have "names_match (publish r t)" using ok(1) by (auto simp: names_match_def jmap_simps)
  moreover have "aliases_match (publish r t)"
  proof (rule aliases_matchI)
    fix b m u
    assume "jget (toolsByName (publish r t)) m = Some u" and "b \<in> set (aliases u)"
    then show "jget (alias_names (publish r t)) b = Some m"
      using alias_of_tool [OF ok(2), of m u b] a(2) [of b] by (auto simp: jmap_simps split: if_splits)
  next
    fix b m
    assume "jget (alias_names (publish r t)) b = Some m"
    then show "\<exists>u. jget (toolsByName (publish r t)) m = Some u \<and> b \<in> set (aliases u)"
      using alias_owner [OF ok(2), of b m] n by (auto simp: jmap_simps split: if_splits)
  qed
  moreover have "aliases_free (publish r t)"
    using ok(3) a(1) free [of "tool_name t"] by (fastforce simp: aliases_free_def spellings_def jmap_simps split: if_splits)
  moreover have "tools_of (publish r t) = insert t (tools_of r)"
    using n by (simp add: tools_of_def publish_def update_conv')
  ultimately show ?thesis by (simp add: registry_ok_def)
qed

subsection \<open>Taking a tool away\<close>

definition withdrawn :: "registry \<Rightarrow> string \<Rightarrow> agent_tool \<Rightarrow> registry" where
  "withdrawn r n t =
     r\<lparr>toolsByName := jdelete n (toolsByName r), alias_names := fold jdelete (aliases t) (alias_names r)\<rparr>"

lemma withdrawn_maps [jmap_simps]:
  "jget (toolsByName (withdrawn r n t)) k = (if k = n then None else jget (toolsByName r) k)"
  "jget (alias_names (withdrawn r n t)) k = (if k \<in> set (aliases t) then None else jget (alias_names r) k)"
  by (simp_all add: withdrawn_def jmap_simps)

lemma withdrawn_ok:
  assumes "registry_ok r" and "jget (toolsByName r) n = Some t"
  shows "registry_ok (withdrawn r n t) \<and> tools_of (withdrawn r n t) = spec_unregister (tools_of r) n"
proof -
  have ok: "names_match r" "aliases_match r" "aliases_free r" using assms(1) by (auto simp: registry_ok_def)
  have nm: "names_match (withdrawn r n t)" using ok(1) by (auto simp: names_match_def jmap_simps)
  have own: "jget (alias_names r) b = Some n" if "b \<in> set (aliases t)" for b
    using alias_of_tool [OF ok(2) assms(2) that] .
  have "aliases_match (withdrawn r n t)"
  proof (rule aliases_matchI)
    fix b m u
    assume "jget (toolsByName (withdrawn r n t)) m = Some u" and "b \<in> set (aliases u)"
    then show "jget (alias_names (withdrawn r n t)) b = Some m"
      using alias_of_tool [OF ok(2), of m u b] own [of b] by (auto simp: jmap_simps split: if_splits)
  next
    fix b m
    assume "jget (alias_names (withdrawn r n t)) b = Some m"
    then show "\<exists>u. jget (toolsByName (withdrawn r n t)) m = Some u \<and> b \<in> set (aliases u)"
      using alias_owner [OF ok(2), of b m] assms(2) by (auto simp: jmap_simps split: if_splits)
  qed
  moreover have "aliases_free (withdrawn r n t)"
    using ok(3) by (auto simp: aliases_free_def jmap_simps split: if_splits)
  moreover have "tools_of (withdrawn r n t) = spec_unregister (tools_of r) n"
  proof (rule set_eqI)
    fix u
    show "u \<in> tools_of (withdrawn r n t) \<longleftrightarrow> u \<in> spec_unregister (tools_of r) n"
      by (simp add: tools_of_iff [OF nm] tools_of_iff [OF ok(1)] spec_unregister_def jmap_simps)
  qed
  ultimately show ?thesis using nm by (simp add: registry_ok_def)
qed

lemma registry_ok_unavailable [simp]:
  "registry_ok (r\<lparr>unavailable := u\<rparr>) = registry_ok r" "tools_of (r\<lparr>unavailable := u\<rparr>) = tools_of r"
  by (simp_all add: registry_ok_defs tools_of_def)

lemma unregister_ok:
  assumes "registry_ok r"
  shows "registry_ok (fst (unregister r n)) \<and> tools_of (fst (unregister r n)) = spec_unregister (tools_of r) n"
proof (cases "jget (toolsByName r) n")
  case None
  then have "spec_unregister (tools_of r) n = tools_of r"
    using assms by (auto simp: spec_unregister_def registry_ok_def tools_of_iff)
  then show ?thesis using assms None by (simp add: unregister_def)
next
  case (Some t)
  then have "fst (unregister r n) = (withdrawn r n t)\<lparr>unavailable := jdelete n (fold jdelete (aliases t) (unavailable r))\<rparr>"
    by (simp add: unregister_def withdrawn_def)
  then show ?thesis using withdrawn_ok [OF assms Some] by simp
qed

subsection \<open>Replacing tools\<close>

lemma registry_ok_cong:
  assumes "\<And>k. jget (toolsByName r) k = jget (toolsByName r') k" and "\<And>k. jget (alias_names r) k = jget (alias_names r') k"
  shows "registry_ok r = registry_ok r'" and "tools_of r = tools_of r'"
  using assms by (simp_all add: registry_ok_defs tools_of_def ran_def)

lemma replace_check:
  assumes "registry_ok r" and "jget (toolsByName r) (tool_name t) = Some old"
  shows "validateAliases r t (Some (tool_name t)) = None \<longleftrightarrow> \<not> clashes (spec_unregister (tools_of r) (tool_name t)) t"
proof -
  let ?n = "tool_name t" and ?w = "withdrawn r (tool_name t) old"
  have ok: "names_match r" "aliases_match r" "aliases_free r" using assms(1) by (auto simp: registry_ok_def)
  have w: "registry_ok ?w" "tools_of ?w = spec_unregister (tools_of r) ?n"
    using withdrawn_ok [OF assms] by auto
  have own: "jget (alias_names r) a = Some ?n \<longleftrightarrow> a \<in> set (aliases old)" for a
    using alias_of_tool [OF ok(2) assms(2)] alias_owner [OF ok(2), of a ?n] assms(2) by auto
  have "jget (alias_names r) ?n = None \<or> ?n \<in> set (aliases old)"
  proof (cases "jget (alias_names r) ?n")
    case (Some m)
    then have "?n = m" using ok(3) assms(2) unfolding aliases_free_def by blast
    then show ?thesis using own [of ?n] Some by simp
  qed simp
  then have "get_tool ?w ?n = None" by (auto simp: get_tool_None [OF w(1)] jmap_simps)
  then have "clashes (tools_of ?w) t \<longleftrightarrow> (\<exists>a\<in>set (aliases t). get_tool ?w a \<noteq> None)"
    by (simp add: clash_iff [OF w(1)] spellings_def)
  moreover have "get_tool ?w a = None \<longleftrightarrow>
      (a = ?n \<or> jget (toolsByName r) a = None) \<and> (case jget (alias_names r) a of None \<Rightarrow> True | Some m \<Rightarrow> Some m = Some ?n)" for a
    using own [of a] by (auto simp: get_tool_None [OF w(1)] jmap_simps split: option.splits)
  ultimately show ?thesis
    by (simp add: validateAliases_def validate_alias_list_None w(2) [symmetric])
qed

lemma replace_ok:
  assumes "registry_ok r"
  shows "case replace_tool r t of
     Inl e \<Rightarrow> spec_replace (tools_of r) t = None
   | Inr r' \<Rightarrow> registry_ok r' \<and> spec_replace (tools_of r) t = Some (tools_of r')"
proof (cases "jget (toolsByName r) (tool_name t)")
  case None
  then have "tool_name t \<notin> tool_name ` tools_of r"
    using assms by (auto simp: registry_ok_def tools_of_iff)
  then show ?thesis by (simp add: replace_tool_def None spec_replace_def)
next
  case (Some old)
  have "tool_name t \<in> tool_name ` tools_of r"
  proof (rule image_eqI)
    show "old \<in> tools_of r" using Some by (auto simp: tools_of_def intro: ranI)
    show "tool_name t = tool_name old" using Some assms by (simp add: registry_ok_defs)
  qed
  then have spec: "spec_replace (tools_of r) t = spec_register (spec_unregister (tools_of r) (tool_name t)) t"
    by (simp add: spec_replace_def)
  show ?thesis
  proof (cases "validateAliases r t (Some (tool_name t))")
    case (Some e)
    then show ?thesis using replace_check [OF assms \<open>jget _ _ = Some old\<close>]
      by (simp add: replace_tool_def \<open>jget _ _ = Some old\<close> spec spec_register_def)
  next
    case None
    let ?w = "withdrawn r (tool_name t) old"
    let ?r = "publish (r\<lparr>alias_names := fold jdelete (aliases old) (alias_names r),
                         unavailable := fold jdelete (aliases old) (unavailable r)\<rparr>) t"
    have c: "\<not> clashes (tools_of ?w) t" and w: "registry_ok ?w" "tools_of ?w = spec_unregister (tools_of r) (tool_name t)"
      using None replace_check [OF assms Some] withdrawn_ok [OF assms Some] by auto
    have "registry_ok ?r = registry_ok (publish ?w t)" "tools_of ?r = tools_of (publish ?w t)"
      by (rule registry_ok_cong; simp add: jmap_simps)+
    then show ?thesis using publish_ok [OF w(1) c] c w(2)
      by (simp add: replace_tool_def Some None spec spec_register_def)
  qed
qed

lemma register_ok:
  assumes "registry_ok r"
  shows "case register r t of
     Inl e \<Rightarrow> spec_register (tools_of r) t = None
   | Inr r' \<Rightarrow> registry_ok r' \<and> spec_register (tools_of r) t = Some (tools_of r')"
  using register_cases [OF assms, of t] publish_ok [OF assms, of t]
  by (cases "clashes (tools_of r) t") (auto simp: spec_register_def isl_def)

lemma register_all_ok:
  assumes "registry_ok r"
  shows "case register_all r ts of
     Inl e \<Rightarrow> spec_register_all (tools_of r) ts = None
   | Inr r' \<Rightarrow> registry_ok r' \<and> spec_register_all (tools_of r) ts = Some (tools_of r')"
  using assms
proof (induction ts arbitrary: r)
  case (Cons t ts)
  show ?case
  proof (cases "register r t")
    case (Inl e)
    then show ?thesis using register_ok [OF Cons.prems, of t] by simp
  next
    case (Inr r')
    then show ?thesis using register_ok [OF Cons.prems, of t] Cons.IH [of r']
      by (auto split: sum.splits)
  qed
qed simp

lemma unregister_all_ok:
  "registry_ok r \<Longrightarrow> registry_ok (fold (\<lambda>n c. fst (unregister c n)) ns r)
     \<and> tools_of (fold (\<lambda>n c. fst (unregister c n)) ns r) = fold (\<lambda>n S. spec_unregister S n) ns (tools_of r)"
  by (induction ns arbitrary: r) (use unregister_ok in auto)

subsection \<open>Every run of the operations\<close>

datatype registry_op =
    Register agent_tool
  | Unregister string
  | Replace agent_tool
  | ReplaceGroup "string list" "agent_tool list"
  | MarkUnavailable diagnostic "string list"

text \<open>An operation that throws leaves the registry as it was.\<close>

definition kept :: "registry \<Rightarrow> registry_error + registry \<Rightarrow> registry" where
  "kept r result = (case result of Inl _ \<Rightarrow> r | Inr r' \<Rightarrow> r')"

fun apply_op :: "registry \<Rightarrow> registry_op \<Rightarrow> registry" where
  "apply_op r (Register t) = kept r (register r t)"
| "apply_op r (Unregister n) = fst (unregister r n)"
| "apply_op r (Replace t) = kept r (replace_tool r t)"
| "apply_op r (ReplaceGroup ns ts) = kept r (replaceGroup r ns ts)"
| "apply_op r (MarkUnavailable d as) = markUnavailable r d as"

definition spec_kept :: "agent_tool set \<Rightarrow> agent_tool set option \<Rightarrow> agent_tool set" where
  "spec_kept S result = (case result of None \<Rightarrow> S | Some S' \<Rightarrow> S')"

fun spec_op :: "agent_tool set \<Rightarrow> registry_op \<Rightarrow> agent_tool set" where
  "spec_op S (Register t) = spec_kept S (spec_register S t)"
| "spec_op S (Unregister n) = spec_unregister S n"
| "spec_op S (Replace t) = spec_kept S (spec_replace S t)"
| "spec_op S (ReplaceGroup ns ts) = spec_kept S (spec_register_all (fold (\<lambda>n S. spec_unregister S n) ns S) ts)"
| "spec_op S (MarkUnavailable d as) = S"

lemma kept_ok:
  assumes "case result of Inl e \<Rightarrow> spec = None | Inr r' \<Rightarrow> registry_ok r' \<and> spec = Some (tools_of r')"
    and "registry_ok r"
  shows "registry_ok (kept r result) \<and> tools_of (kept r result) = spec_kept (tools_of r) spec"
  using assms by (cases result) (auto simp: kept_def spec_kept_def)

lemma apply_op_ok:
  assumes "registry_ok r"
  shows "registry_ok (apply_op r p) \<and> tools_of (apply_op r p) = spec_op (tools_of r) p"
proof (cases p)
  case (Register t)
  then show ?thesis using kept_ok [OF register_ok assms] assms by simp
next
  case (Unregister n)
  then show ?thesis using unregister_ok [OF assms] by simp
next
  case (Replace t)
  then show ?thesis using kept_ok [OF replace_ok assms] assms by simp
next
  case (ReplaceGroup ns ts)
  have g: "registry_ok (fold (\<lambda>n c. fst (unregister c n)) ns r)"
      "tools_of (fold (\<lambda>n c. fst (unregister c n)) ns r) = fold (\<lambda>n S. spec_unregister S n) ns (tools_of r)"
    using unregister_all_ok [OF assms, of ns] by auto
  then show ?thesis using kept_ok [OF register_all_ok [OF g(1), of ts] assms]
    by (simp add: ReplaceGroup replaceGroup_def)
next
  case (MarkUnavailable d as)
  then show ?thesis using assms by (simp add: markUnavailable_def)
qed

lemma run_ops_ok:
  "registry_ok r \<Longrightarrow> registry_ok (foldl apply_op r ops) \<and> tools_of (foldl apply_op r ops) = foldl spec_op (tools_of r) ops"
  by (induction ops arbitrary: r) (use apply_op_ok in auto)

subsection \<open>Filtering\<close>

definition available :: "(nat \<Rightarrow> string + availability) \<Rightarrow> agent_tool \<Rightarrow> bool" where
  "available run t = (case checkAvailability t of None \<Rightarrow> True | Some c \<Rightarrow> settled_check run c = None)"

definition cache_ok :: "(nat \<Rightarrow> string + availability) \<Rightarrow> (nat \<times> availability) list \<Rightarrow> bool" where
  "cache_ok run cache \<longleftrightarrow> (\<forall>c a. jget cache c = Some a \<longrightarrow> a = settled_check run c)"

lemma resolve_ok:
  assumes "cache_ok run cache" and "resolveToolAvailability run t cache = (a, cache')"
  shows "cache_ok run cache' \<and> (a = None \<longleftrightarrow> available run t)"
  using assms by (auto simp: resolveToolAvailability_def available_def cache_ok_def jmap_simps split: option.splits if_splits)

lemma mark_ok [simp]: "registry_ok (markUnavailable r d as) = registry_ok r" "tools_of (markUnavailable r d as) = tools_of r"
  by (simp_all add: markUnavailable_def)

definition apart :: "agent_tool list \<Rightarrow> bool" where
  "apart ts \<longleftrightarrow> sorted_wrt (\<lambda>t u. spellings t \<inter> spellings u = {}) ts"

lemma filter_tools_ok:
  assumes "cache_ok run cache" and "registry_ok r" and "apart ts" and "\<And>t. t \<in> set ts \<Longrightarrow> \<not> clashes (tools_of r) t"
  shows "case filter_tools run ts cache r ds of
     Inl e \<Rightarrow> False
   | Inr (r', _) \<Rightarrow> registry_ok r' \<and> tools_of r' = tools_of r \<union> {t \<in> set ts. available run t}"
  using assms
proof (induction ts arbitrary: cache r ds)
  case (Cons t ts)
  obtain a cache' where res: "resolveToolAvailability run t cache = (a, cache')" by fastforce
  note c = resolve_ok [OF Cons.prems(1) res]
  have ap: "apart ts" and sep: "\<And>u. u \<in> set ts \<Longrightarrow> spellings t \<inter> spellings u = {}"
    using Cons.prems(3) by (auto simp: apart_def)
  show ?case
  proof (cases a)
    case None
    have free: "\<not> clashes (tools_of r) t" using Cons.prems(4) by simp
    then have reg: "register r t = Inr (publish r t)" using register_cases [OF Cons.prems(2), of t] by simp
    have pub: "registry_ok (publish r t)" "tools_of (publish r t) = insert t (tools_of r)"
      using publish_ok [OF Cons.prems(2) free] by auto
    have "\<not> clashes (tools_of (publish r t)) u" if "u \<in> set ts" for u
      using sep [OF that] Cons.prems(4) [of u] that pub(2) by (auto simp: clashes_def)
    from Cons.IH [OF conjunct1 [OF c] pub(1) ap this, of ds] show ?thesis
      using None c pub(2) by (auto simp: res reg split: sum.splits)
  next
    case (Some p)
    obtain code reason where p: "p = (code, reason)" by fastforce
    let ?d = "\<lparr>dg_toolName = tool_name t, dg_code = code, dg_reason = reason\<rparr>"
    have "\<not> clashes (tools_of (markUnavailable r ?d (aliases t))) u" if "u \<in> set ts" for u
      using Cons.prems(4) [of u] that by simp
    from Cons.IH [OF conjunct1 [OF c] _ ap this, of "ds @ [?d]"] show ?thesis
      using Some p c Cons.prems(2) by (auto simp: res Let_def split: sum.splits)
  qed
qed simp

definition keys_distinct :: "registry \<Rightarrow> bool" where
  "keys_distinct r \<longleftrightarrow> distinct (jkeys (toolsByName r))"

lemma register_all_keys: "keys_distinct r \<Longrightarrow> register_all r ts = Inr r' \<Longrightarrow> keys_distinct r'"
proof (induction ts arbitrary: r)
  case (Cons t ts)
  then obtain r1 where r1: "register r t = Inr r1" "register_all r1 ts = Inr r'" by (auto split: sum.splits)
  then have "keys_distinct r1"
    using Cons.prems(1) by (auto simp: register_def publish_def keys_distinct_def split: if_splits option.splits)
  then show ?case using Cons.IH r1(2) by blast
qed simp

lemma unregister_keys: "keys_distinct r \<Longrightarrow> keys_distinct (fst (unregister r n))"
  by (auto simp: unregister_def keys_distinct_def split: option.splits)

lemma unregister_all_keys: "keys_distinct r \<Longrightarrow> keys_distinct (fold (\<lambda>n c. fst (unregister c n)) ns r)"
  by (induction ns arbitrary: r) (auto simp: unregister_keys)

lemma apply_op_keys: "keys_distinct r \<Longrightarrow> keys_distinct (apply_op r p)"
proof (cases p)
  case (ReplaceGroup ns ts)
  assume "keys_distinct r"
  then show ?thesis using unregister_all_keys [of r ns] register_all_keys
    by (auto simp: ReplaceGroup kept_def replaceGroup_def split: sum.splits)
qed (auto simp: kept_def register_def replace_tool_def publish_def markUnavailable_def keys_distinct_def
    unregister_keys [unfolded keys_distinct_def] split: sum.splits option.splits if_splits)

lemma run_ops_keys: "keys_distinct r \<Longrightarrow> keys_distinct (foldl apply_op r ops)"
  by (induction ops arbitrary: r) (auto simp: apply_op_keys)

lemma distinct_sorted_wrt_disjoint:
  assumes "distinct xs" and "\<And>x y. x \<in> set xs \<Longrightarrow> y \<in> set xs \<Longrightarrow> x \<noteq> y \<Longrightarrow> P x y"
  shows "sorted_wrt P xs"
  using assms by (induction xs) auto

lemma list_tools_apart:
  assumes "registry_ok r" and "keys_distinct r"
  shows "apart (list_tools le r)" and "set (list_tools le r) = tools_of r"
proof -
  have all: "set (map snd (toolsByName r)) = tools_of r"
    using assms(2) by (simp add: tools_of_def keys_distinct_def ran_distinct)
  then show "set (list_tools le r) = tools_of r" by (simp add: list_tools_def)
  have "map tool_name (map snd (toolsByName r)) = jkeys (toolsByName r)"
    using assms by (auto simp: registry_ok_defs keys_distinct_def)
  then have "distinct (map snd (toolsByName r))"
    using assms(2) unfolding keys_distinct_def by (metis distinct_map)
  then have "distinct (list_tools le r)" by (simp add: list_tools_def)
  moreover have "spellings t \<inter> spellings u = {}" if "t \<in> tools_of r" "u \<in> tools_of r" "t \<noteq> u" for t u
    using that one_tool_per_spelling [OF assms(1)] by blast
  ultimately show "apart (list_tools le r)"
    using \<open>set (list_tools le r) = tools_of r\<close> unfolding apart_def by (intro distinct_sorted_wrt_disjoint) auto
qed

text \<open>Filtering never throws, and keeps exactly the available tools under all their spellings.\<close>

lemma filterAvailableTools_exact:
  assumes "registry_ok r" and "keys_distinct r"
  shows "case filterAvailableTools le unit_le run r of
     Inl e \<Rightarrow> False
   | Inr (f, _) \<Rightarrow> registry_ok f \<and> tools_of f = {t \<in> tools_of r. available run t}"
proof -
  define entries where "entries = listUnavailableEntries le unit_le r"
  have "registry_ok (fold (\<lambda>(d, as) f. markUnavailable f d as) es f) = registry_ok f
      \<and> tools_of (fold (\<lambda>(d, as) f. markUnavailable f d as) es f) = tools_of f" for es f
    by (induction es arbitrary: f) auto
  then have start: "registry_ok (fold (\<lambda>(d, as) f. markUnavailable f d as) entries new_registry)"
      "tools_of (fold (\<lambda>(d, as) f. markUnavailable f d as) entries new_registry) = {}"
    using registry_ok_new by auto
  have "cache_ok run []" by (simp add: cache_ok_def)
  from filter_tools_ok [OF this start(1) list_tools_apart(1) [OF assms, of le], of "map fst entries"]
  have "case filter_tools run (list_tools le r) [] (fold (\<lambda>(d, as) f. markUnavailable f d as) entries new_registry)
            (map fst entries) of
     Inl e \<Rightarrow> False
   | Inr (f, _) \<Rightarrow> registry_ok f \<and> tools_of f = {t \<in> tools_of r. available run t}"
    by (auto simp: start(2) clashes_def list_tools_apart(2) [OF assms] split: sum.splits)
  then show ?thesis by (simp add: filterAvailableTools_def entries_def [symmetric])
qed

text \<open>C39. The registry is a set of tools with pairwise disjoint spellings: after any sequence of registrations,
  removals, replacements and group replacements, succeeding or throwing, looking a name up finds exactly the
  tool of that set whose name or alias it is, and an operation that throws (because a spelling is taken) has
  changed nothing.\<close>

theorem registry_refines_tool_set:
  "{t. get_tool (foldl apply_op new_registry ops) k = Some t} = {t \<in> foldl spec_op {} ops. k \<in> spellings t}"
  using run_ops_ok [OF registry_ok_new(1), of ops] by (auto simp: get_tool_iff registry_ok_new(2))

end
