(* ===== verification/ToolNames.thy ===== *)
theory ToolNames
  imports ToolRegistry
begin

text \<open>
  Guessing the tool a model meant by a name it got wrong: \<open>tool/execution/repairToolName.ts\<close>. The index keeps
  sets of names as lists without repetition, in insertion order. \<open>Inl\<close> is a thrown \<open>TypeError\<close>.
\<close>

section \<open>Spellings\<close>

definition is_upper :: "char \<Rightarrow> bool" where
  "is_upper c \<longleftrightarrow> (let n = of_char c :: nat in 65 \<le> n \<and> n \<le> 90)"

definition is_lower :: "char \<Rightarrow> bool" where
  "is_lower c \<longleftrightarrow> (let n = of_char c :: nat in 97 \<le> n \<and> n \<le> 122)"

definition is_digit_char :: "char \<Rightarrow> bool" where
  "is_digit_char c \<longleftrightarrow> (let n = of_char c :: nat in 48 \<le> n \<and> n \<le> 57)"

definition is_alnum :: "char \<Rightarrow> bool" where
  "is_alnum c \<longleftrightarrow> is_upper c \<or> is_lower c \<or> is_digit_char c"

text \<open>\<open>/([A-Z]+)([A-Z][a-z])/g\<close>: the greedy run backs off to its last letter, so the underscore goes before a
  capital that has a capital before it and a small letter after it.\<close>

fun split_acronyms :: "string \<Rightarrow> string" where
  "split_acronyms (a # b # c # s) =
     (if is_upper a \<and> is_upper b \<and> is_lower c then a # CHR ''_'' # b # c # split_acronyms s
      else a # split_acronyms (b # c # s))"
| "split_acronyms s = s"

text \<open>\<open>/([a-z0-9])([A-Z])/g\<close>\<close>

fun split_words :: "string \<Rightarrow> string" where
  "split_words (a # b # s) =
     (if (is_lower a \<or> is_digit_char a) \<and> is_upper b then a # CHR ''_'' # b # split_words s
      else a # split_words (b # s))"
| "split_words s = s"

text \<open>Every maximal run of the characters given becomes one underscore.\<close>

function squash :: "(char \<Rightarrow> bool) \<Rightarrow> string \<Rightarrow> string" where
  "squash p [] = []"
| "squash p (c # s) = (if p c then CHR ''_'' # squash p (dropWhile p s) else c # squash p s)"
  by pat_completeness auto
termination
  by (relation "measure (\<lambda>(p, s). length s)") (auto simp: less_Suc_eq_le length_dropWhile_le)

definition strip_underscores :: "string \<Rightarrow> string" where
  "strip_underscores s = rev (dropWhile (\<lambda>c. c = CHR ''_'') (rev (dropWhile (\<lambda>c. c = CHR ''_'') s)))"

definition normalizeToolName :: "string \<Rightarrow> string" where
  "normalizeToolName s =
     toLowerCase (squash (\<lambda>c. c = CHR ''_'')
       (strip_underscores (squash (\<lambda>c. \<not> is_alnum c) (split_words (split_acronyms s)))))"

definition drop_prefix :: "string \<Rightarrow> string \<Rightarrow> string" where
  "drop_prefix p s = (if prefix p s \<and> length p < length s then drop (length p) s else s)"

definition drop_suffix :: "string \<Rightarrow> string \<Rightarrow> string" where
  "drop_suffix p s = (if suffix p s \<and> length p < length s then take (length s - length p) s else s)"

definition tool_prefixes :: "string list" where
  "tool_prefixes = [''tool_'', ''tools_'', ''function_'', ''functions_'', ''pilotdeck_'', ''builtin_'']"

definition tool_suffixes :: "string list" where
  "tool_suffixes = [''_tool'', ''_tools'', ''_function'', ''_functions'']"

definition strip_pass :: "string \<Rightarrow> string" where
  "strip_pass s = fold drop_suffix tool_suffixes (fold drop_prefix tool_prefixes s)"

definition shortens :: "(string \<Rightarrow> string) \<Rightarrow> bool" where
  "shortens f \<longleftrightarrow> (\<forall>s. f s = s \<or> length (f s) < length s)"

lemma shortens_comp: "shortens f \<Longrightarrow> shortens g \<Longrightarrow> shortens (\<lambda>s. f (g s))"
  unfolding shortens_def by (metis less_trans)

lemma shortens_fold: "(\<And>p. shortens (f p)) \<Longrightarrow> shortens (fold f ps)"
proof (induction ps)
  case (Cons p ps)
  then show ?case using shortens_comp [of "fold f ps" "f p"] by (simp add: comp_def)
qed (simp add: shortens_def)

lemma shortens_drop: "shortens (drop_prefix p)" "shortens (drop_suffix p)"
proof -
  have "length p < length s \<Longrightarrow> length (drop (length p) s) < length s \<or> drop (length p) s = s" for s :: string
    by (cases p) auto
  then show "shortens (drop_prefix p)" unfolding shortens_def drop_prefix_def by auto
  have "length p < length s \<Longrightarrow> length (take (length s - length p) s) < length s \<or> take (length s - length p) s = s" for s :: string
    by (cases p) auto
  then show "shortens (drop_suffix p)" unfolding shortens_def drop_suffix_def by auto
qed

lemma length_strip_pass: "strip_pass s \<noteq> s \<Longrightarrow> length (strip_pass s) < length s"
  using shortens_comp [OF shortens_fold [where f = drop_suffix and ps = tool_suffixes, OF shortens_drop(2)]
      shortens_fold [where f = drop_prefix and ps = tool_prefixes, OF shortens_drop(1)]]
  unfolding strip_pass_def shortens_def by blast

text \<open>The loop goes on while a pass has changed something.\<close>

function stripToolAffixes :: "string \<Rightarrow> string" where
  "stripToolAffixes s = (if strip_pass s = s then s else stripToolAffixes (strip_pass s))"
  by pat_completeness auto
termination by (relation "measure length") (auto dest: length_strip_pass)

declare stripToolAffixes.simps [simp del]

text \<open>\<open>split(/::|[./\\]/u)\<close>\<close>

definition is_separator :: "char \<Rightarrow> bool" where
  "is_separator c \<longleftrightarrow> c \<in> {CHR ''.'', CHR ''/'', CHR 0x5C}"

definition cons_head :: "char \<Rightarrow> string list \<Rightarrow> string list" where
  "cons_head c ws = (case ws of [] \<Rightarrow> [[c]] | w # ws' \<Rightarrow> (c # w) # ws')"

fun split_name :: "string \<Rightarrow> string list" where
  "split_name [] = [[]]"
| "split_name [a] = (if is_separator a then [[], []] else [[a]])"
| "split_name (a # b # s) =
     (if a = CHR '':'' \<and> b = CHR '':'' then [] # split_name s
      else if is_separator a then [] # split_name (b # s)
      else cons_head a (split_name (b # s)))"

definition add_new :: "'a list \<Rightarrow> 'a \<Rightarrow> 'a list" where
  "add_new xs x = (if x \<in> set xs then xs else xs @ [x])"

definition addNormalized :: "string list \<Rightarrow> string \<Rightarrow> string list" where
  "addNormalized vs v = (if normalizeToolName v = [] then vs else add_new vs (normalizeToolName v))"

definition normalizedVariants :: "string \<Rightarrow> string list" where
  "normalizedVariants name =
     (if trim name = [] then []
      else
        (let vs = foldl addNormalized (addNormalized [] (trim name)) (split_name (trim name))
         in foldl (\<lambda>ws v. addNormalized ws (stripToolAffixes v)) vs vs))"

section \<open>Edit distance\<close>

text \<open>The inner loop: one row from the row before it; \<open>left\<close> is the entry just written.\<close>

fun lev_row :: "char \<Rightarrow> string \<Rightarrow> nat list \<Rightarrow> nat \<Rightarrow> nat list" where
  "lev_row c (y # ys) (diag # up # prev) left =
     (let v = min (min (left + 1) (up + 1)) (diag + (if c = y then 0 else 1))
      in v # lev_row c ys (up # prev) v)"
| "lev_row c _ _ left = []"

fun lev_rows :: "nat \<Rightarrow> string \<Rightarrow> string \<Rightarrow> nat list \<Rightarrow> nat list" where
  "lev_rows i [] right previous = previous"
| "lev_rows i (c # left) right previous = lev_rows (i + 1) left right (i # lev_row c right previous i)"

definition levenshtein :: "string \<Rightarrow> string \<Rightarrow> nat" where
  "levenshtein left right =
     (if left = right then 0
      else if left = [] then length right
      else if right = [] then length left
      else lev_rows 1 left right [0..<Suc (length right)] ! length right)"

definition maxFuzzyDistance :: "string \<Rightarrow> string \<Rightarrow> nat" where
  "maxFuzzyDistance left right =
     (let m = min (length left) (length right) in if m \<le> 2 then 0 else if m \<le> 4 then 1 else 2)"

section \<open>Repairing a name\<close>

datatype repair_reason = ConfiguredAlias | BuiltinAlias | NormalizedMatch | FuzzyMatch

record repair_target =
  rt_name :: string
  rt_aliases :: "string list"

record name_index =
  byNormalizedName :: "(string \<times> string list) list"
  ni_spellings :: "(string \<times> string) list"

definition add_variant :: "string \<Rightarrow> string \<Rightarrow> name_index \<Rightarrow> name_index" where
  "add_variant canonicalName normalized ix =
     (let existing = (case jget (byNormalizedName ix) normalized of None \<Rightarrow> [] | Some s \<Rightarrow> s)
      in ix\<lparr>byNormalizedName := jset normalized (add_new existing canonicalName) (byNormalizedName ix),
            ni_spellings := ni_spellings ix @ [(normalized, canonicalName)]\<rparr>)"

definition addSpelling :: "string \<Rightarrow> string \<Rightarrow> name_index \<Rightarrow> name_index" where
  "addSpelling spelling canonicalName index = fold (add_variant canonicalName) (normalizedVariants spelling) index"

definition buildToolNameIndex :: "repair_target list \<Rightarrow> name_index" where
  "buildToolNameIndex ts =
     fold (\<lambda>t ix. fold (\<lambda>a. addSpelling a (rt_name t)) (rt_aliases t) (addSpelling (rt_name t) (rt_name t) ix))
       ts \<lparr>byNormalizedName = [], ni_spellings = []\<rparr>"

text \<open>A name is used only if it is not empty.\<close>

definition uniqueCandidate :: "string list option \<Rightarrow> string option" where
  "uniqueCandidate candidates = (case candidates of Some [n] \<Rightarrow> truthy_string (Some n) | _ \<Rightarrow> None)"

fun first_unique :: "name_index \<Rightarrow> string list \<Rightarrow> string option" where
  "first_unique index [] = None"
| "first_unique index (v # vs) =
     (case uniqueCandidate (jget (byNormalizedName index) v) of Some n \<Rightarrow> Some n | None \<Rightarrow> first_unique index vs)"

definition resolveAliasTargets :: "string list \<Rightarrow> name_index \<Rightarrow> string option" where
  "resolveAliasTargets targets index = first_unique index (concat (map normalizedVariants targets))"

fun resolveConfiguredAlias :: "string \<Rightarrow> string list \<Rightarrow> (string \<times> string) list \<Rightarrow> name_index \<Rightarrow> string option" where
  "resolveConfiguredAlias rawName variants [] index = None"
| "resolveConfiguredAlias rawName variants ((source, target) # as) index =
     (if rawName = source \<or> list_ex (\<lambda>v. v \<in> set (normalizedVariants source)) variants
      then resolveAliasTargets [target] index
      else resolveConfiguredAlias rawName variants as index)"

definition fuzzy_candidate :: "string \<Rightarrow> string \<times> string \<Rightarrow> (string \<times> nat) option \<times> bool \<Rightarrow> (string \<times> nat) option \<times> bool" where
  "fuzzy_candidate variant cand st =
     (let d = levenshtein variant (fst cand)
      in if maxFuzzyDistance variant (fst cand) < d then st
         else
           (case st of
              (None, _) \<Rightarrow> (Some (snd cand, d), False)
            | (Some (n, best), tied) \<Rightarrow>
                if d < best then (Some (snd cand, d), False)
                else if d = best \<and> snd cand \<noteq> n then (Some (n, best), True)
                else st))"

definition findFuzzyMatch :: "string list \<Rightarrow> name_index \<Rightarrow> string option" where
  "findFuzzyMatch variants index =
     (case fold (\<lambda>v st. fold (fuzzy_candidate v) (ni_spellings index) st) variants (None, False) of
        (Some (n, _), False) \<Rightarrow> Some n
      | _ \<Rightarrow> None)"

definition BUILTIN_ALIASES :: "(string \<times> string list) list" where
  "BUILTIN_ALIASES =
    [(''run'', [''bash'']),
     (''shell'', [''bash'']),
     (''sh'', [''bash'']),
     (''terminal'', [''bash'']),
     (''command'', [''bash'']),
     (''exec'', [''bash'']),
     (''execute'', [''bash'']),
     (''write'', [''write_file'', ''write'']),
     (''write_file'', [''write_file'', ''write'']),
     (''writefile'', [''write_file'', ''write'']),
     (''create_file'', [''write_file'', ''write'']),
     (''createfile'', [''write_file'', ''write'']),
     (''save_file'', [''write_file'', ''write'']),
     (''savefile'', [''write_file'', ''write'']),
     (''read'', [''read_file'', ''read'']),
     (''read_file'', [''read_file'', ''read'']),
     (''readfile'', [''read_file'', ''read'']),
     (''open_file'', [''read_file'', ''read'']),
     (''openfile'', [''read_file'', ''read'']),
     (''cat_file'', [''read_file'', ''read'']),
     (''catfile'', [''read_file'', ''read'']),
     (''edit'', [''edit_file'', ''edit'']),
     (''edit_file'', [''edit_file'', ''edit'']),
     (''editfile'', [''edit_file'', ''edit'']),
     (''modify_file'', [''edit_file'', ''edit'']),
     (''modifyfile'', [''edit_file'', ''edit'']),
     (''patch_file'', [''edit_file'', ''edit'']),
     (''patchfile'', [''edit_file'', ''edit'']),
     (''replace_file'', [''edit_file'', ''edit'']),
     (''replacefile'', [''edit_file'', ''edit'']),
     (''web_fetch'', [''web_fetch'', ''webfetch'']),
     (''webfetch'', [''web_fetch'', ''webfetch'']),
     (''fetch_url'', [''web_fetch'']),
     (''fetchurl'', [''web_fetch'']),
     (''url_fetch'', [''web_fetch'']),
     (''urlfetch'', [''web_fetch'']),
     (''web_search'', [''web_search'', ''websearch'']),
     (''websearch'', [''web_search'', ''websearch'']),
     (''search_web'', [''web_search'']),
     (''searchweb'', [''web_search'']),
     (''todo_write'', [''todo_write'', ''todowrite'']),
     (''todowrite'', [''todo_write'', ''todowrite'']),
     (''todo'', [''todo_write'']),
     (''update_todo'', [''todo_write'']),
     (''updatetodo'', [''todo_write'']),
     (''ask_user'', [''ask_user_question'', ''ask_user'']),
     (''ask_user_question'', [''ask_user_question'', ''ask_user'']),
     (''askuser'', [''ask_user_question'']),
     (''ask_question'', [''ask_user_question'']),
     (''askquestion'', [''ask_user_question'']),
     (''task'', [''agent'']),
     (''subagent'', [''agent'']),
     (''edit_notebook'', [''edit_notebook'', ''notebook_edit'']),
     (''notebook_edit'', [''edit_notebook'', ''notebook_edit'']),
     (''notebookedit'', [''edit_notebook'', ''notebook_edit'']),
     (''editnotebook'', [''edit_notebook'']),
     (''enter_plan_mode'', [''enter_plan_mode'', ''enterplanmode'']),
     (''enterplanmode'', [''enter_plan_mode'', ''enterplanmode'']),
     (''exit_plan_mode'', [''exit_plan_mode'', ''exitplanmode'']),
     (''exitplanmode'', [''exit_plan_mode'', ''exitplanmode'']),
     (''list_mcp_resources'', [''list_mcp_resources'', ''listmcpresources'']),
     (''listmcpresources'', [''list_mcp_resources'', ''listmcpresources'']),
     (''read_mcp_resource'', [''read_mcp_resource'', ''readmcpresource'']),
     (''readmcpresource'', [''read_mcp_resource'', ''readmcpresource''])]"

text \<open>The loop over the built-in aliases. The table is a plain object: its \<open>constructor\<close> is a function, which
  the loop over the targets cannot iterate.\<close>

fun builtin_match :: "string list \<Rightarrow> name_index \<Rightarrow> unit + string option" where
  "builtin_match [] index = Inr None"
| "builtin_match (v # vs) index =
     (if v = ''constructor'' then Inl ()
      else
        (case jget BUILTIN_ALIASES v of
           None \<Rightarrow> builtin_match vs index
         | Some targets \<Rightarrow>
             (case resolveAliasTargets targets index of
                Some n \<Rightarrow> Inr (Some n)
              | None \<Rightarrow> builtin_match vs index)))"

definition repairToolName ::
    "string \<Rightarrow> repair_target list \<Rightarrow> (string \<times> string) list option \<Rightarrow> repair_target list
      \<Rightarrow> unit + (string \<times> repair_reason) option" where
  "repairToolName rawName tools configuredAliases additionalTools =
     (let index = buildToolNameIndex (tools @ additionalTools);
          variants = normalizedVariants rawName
      in if variants = [] then Inr None
         else
           (case resolveConfiguredAlias rawName variants (case configuredAliases of None \<Rightarrow> [] | Some as \<Rightarrow> as) index of
              Some n \<Rightarrow> Inr (Some (n, ConfiguredAlias))
            | None \<Rightarrow>
                (case first_unique index variants of
                   Some n \<Rightarrow> Inr (Some (n, NormalizedMatch))
                 | None \<Rightarrow>
                     (case builtin_match variants index of
                        Inl e \<Rightarrow> Inl e
                      | Inr (Some n) \<Rightarrow> Inr (Some (n, BuiltinAlias))
                      | Inr None \<Rightarrow>
                          (case findFuzzyMatch variants index of
                             Some n \<Rightarrow> Inr (if n = [] then None else Some (n, FuzzyMatch))
                           | None \<Rightarrow> Inr None)))))"

section \<open>The loop computes the edit distance\<close>

text \<open>An alignment of two strings and the number of its edits.\<close>

inductive edits :: "nat \<Rightarrow> string \<Rightarrow> string \<Rightarrow> bool" where
  nothing: "edits 0 [] []"
| keep: "edits n xs ys \<Longrightarrow> edits n (xs @ [x]) (ys @ [x])"
| change: "edits n xs ys \<Longrightarrow> edits (Suc n) (xs @ [x]) (ys @ [y])"
| remove: "edits n xs ys \<Longrightarrow> edits (Suc n) (xs @ [x]) ys"
| insertion: "edits n xs ys \<Longrightarrow> edits (Suc n) xs (ys @ [y])"

text \<open>The distance by recursion from the ends of the strings.\<close>

fun ed :: "string \<Rightarrow> string \<Rightarrow> nat" where
  "ed [] ys = length ys"
| "ed (x # xs) [] = Suc (length xs)"
| "ed (x # xs) (y # ys) = min (min (ed (x # xs) ys + 1) (ed xs (y # ys) + 1)) (ed xs ys + (if x = y then 0 else 1))"

lemma ed_Nil [simp]: "ed xs [] = length xs"
  by (cases xs) auto

lemma ed_left: "ed (x # xs) ys \<le> Suc (ed xs ys)"
  by (cases ys) auto

lemma ed_right: "ed xs (y # ys) \<le> Suc (ed xs ys)"
  by (cases xs) auto

lemma ed_same [simp]: "ed xs xs = 0"
  by (induction xs) auto

lemma edits_ed: "edits n xs ys \<Longrightarrow> ed (rev xs) (rev ys) \<le> n"
proof (induction rule: edits.induct)
  case (remove n xs ys x)
  then show ?case using ed_left [of x "rev xs" "rev ys"] by simp
next
  case (insertion n xs ys y)
  then show ?case using ed_right [of "rev xs" y "rev ys"] by simp
qed auto

lemma edits_insertions: "edits (length ys) [] ys"
proof (induction ys rule: rev_induct)
  case (snoc y ys)
  then show ?case using insertion by simp
qed (simp add: edits.nothing)

lemma edits_removals: "edits (length xs) xs []"
proof (induction xs rule: rev_induct)
  case (snoc x xs)
  then show ?case using remove by simp
qed (simp add: edits.nothing)

lemma ed_edits: "edits (ed xs ys) (rev xs) (rev ys)"
proof (induction xs ys rule: ed.induct)
  case (1 ys)
  then show ?case using edits_insertions [of "rev ys"] by simp
next
  case (2 x xs)
  then show ?case using edits_removals [of "rev (x # xs)"] by simp
next
  case (3 x xs y ys)
  have "edits (Suc (ed (x # xs) ys)) (rev (x # xs)) (rev (y # ys))" using insertion [OF 3(1)] by simp
  moreover have "edits (Suc (ed xs (y # ys))) (rev (x # xs)) (rev (y # ys))" using remove [OF 3(2)] by simp
  moreover have "edits (ed xs ys + (if x = y then 0 else 1)) (rev (x # xs)) (rev (y # ys))"
  proof (cases "x = y")
    case True
    then show ?thesis using keep [OF 3(3), of x] by simp
  next
    case False
    then show ?thesis using change [OF 3(3), of x y] by simp
  qed
  ultimately show ?case by (simp add: min_def)
qed

text \<open>The rows of the loop are the rows of \<open>ed\<close>.\<close>

fun ed_row :: "string \<Rightarrow> string \<Rightarrow> string \<Rightarrow> nat list" where
  "ed_row rl rr [] = [ed rl rr]"
| "ed_row rl rr (y # ys) = ed rl rr # ed_row rl (y # rr) ys"

lemma ed_row_Cons: "ed_row rl rr ys = ed rl rr # tl (ed_row rl rr ys)"
  by (cases ys) auto

lemma lev_row_ed: "lev_row c ys (ed_row rl rr ys) (ed (c # rl) rr) = tl (ed_row (c # rl) rr ys)"
proof (induction ys arbitrary: rr)
  case (Cons y ys)
  obtain prev where prev: "ed_row rl (y # rr) ys = ed rl (y # rr) # prev" using ed_row_Cons by blast
  then have "lev_row c (y # ys) (ed_row rl rr (y # ys)) (ed (c # rl) rr)
      = lev_row c (y # ys) (ed rl rr # ed rl (y # rr) # prev) (ed (c # rl) rr)" by simp
  also have "\<dots> = ed (c # rl) (y # rr) # lev_row c ys (ed_row rl (y # rr) ys) (ed (c # rl) (y # rr))"
    by (simp only: prev lev_row.simps Let_def ed.simps)
  also have "\<dots> = ed_row (c # rl) (y # rr) ys"
    using Cons [of "y # rr"] ed_row_Cons [of "c # rl" "y # rr" ys] by simp
  finally show ?case by simp
qed simp

lemma lev_rows_ed: "lev_rows (Suc (length rl)) left right (ed_row rl [] right) = ed_row (rev left @ rl) [] right"
proof (induction left arbitrary: rl)
  case (Cons c left)
  have "Suc (length rl) # lev_row c right (ed_row rl [] right) (Suc (length rl)) = ed_row (c # rl) [] right"
    using lev_row_ed [of c right rl "[]"] ed_row_Cons [of "c # rl" "[]" right] by simp
  then show ?case using Cons [of "c # rl"] by simp
qed simp

lemma ed_row_start: "ed_row [] rr ys = [length rr..<Suc (length rr + length ys)]"
proof (induction ys arbitrary: rr)
  case (Cons y ys)
  then show ?case by (simp add: upt_conv_Cons del: upt_Suc)
qed simp

lemma ed_row_last: "ed_row a rr ys ! length ys = ed a (rev ys @ rr)"
  by (induction ys arbitrary: rr) auto

lemma levenshtein_ed: "levenshtein left right = ed (rev left) (rev right)"
  using lev_rows_ed [of "[]" left right] ed_row_start [of "[]" right] ed_row_last [of "rev left" "[]" right]
  by (auto simp: levenshtein_def simp del: upt_Suc)

text \<open>The two-row loop computes the edit distance: the number it returns is that of some alignment of the
  two strings, and no alignment has fewer edits.\<close>

lemma levenshtein_is_edit_distance:
  "edits (levenshtein left right) left right \<and> {n. edits n left right} \<subseteq> {levenshtein left right..}"
  using ed_edits [of "rev left" "rev right"] edits_ed [of _ left right] by (auto simp: levenshtein_ed)

section \<open>What a repair gives\<close>

definition index_within :: "string set \<Rightarrow> name_index \<Rightarrow> bool" where
  "index_within N ix \<longleftrightarrow>
     (\<forall>v ns. jget (byNormalizedName ix) v = Some ns \<longrightarrow> set ns \<subseteq> N) \<and> snd ` set (ni_spellings ix) \<subseteq> N"

lemma add_variant_within: "index_within N ix \<Longrightarrow> n \<in> N \<Longrightarrow> index_within N (add_variant n v ix)"
  by (cases "jget (byNormalizedName ix) v")
    (auto simp: add_variant_def index_within_def jmap_simps add_new_def Let_def split: if_splits)

lemma addSpelling_within: "index_within N ix \<Longrightarrow> n \<in> N \<Longrightarrow> index_within N (addSpelling s n ix)"
proof -
  have "index_within N ix \<Longrightarrow> n \<in> N \<Longrightarrow> index_within N (fold (add_variant n) vs ix)" for vs
    by (induction vs arbitrary: ix) (auto intro: add_variant_within)
  then show "index_within N ix \<Longrightarrow> n \<in> N \<Longrightarrow> index_within N (addSpelling s n ix)" by (simp add: addSpelling_def)
qed

lemma addSpellings_within:
  "index_within N ix \<Longrightarrow> n \<in> N \<Longrightarrow> index_within N (fold (\<lambda>a. addSpelling a n) as ix)"
  by (induction as arbitrary: ix) (auto intro: addSpelling_within)

lemma add_targets_within:
  "index_within N ix \<Longrightarrow> rt_name ` set ts \<subseteq> N \<Longrightarrow> index_within N
      (fold (\<lambda>t ix. fold (\<lambda>a. addSpelling a (rt_name t)) (rt_aliases t) (addSpelling (rt_name t) (rt_name t) ix)) ts ix)"
  by (induction ts arbitrary: ix) (auto intro: addSpelling_within addSpellings_within)

lemma buildToolNameIndex_within: "index_within (rt_name ` set ts) (buildToolNameIndex ts)"
  unfolding buildToolNameIndex_def by (rule add_targets_within) (simp_all add: index_within_def)

lemma uniqueCandidate_in: "uniqueCandidate c = Some n \<Longrightarrow> \<exists>ns. c = Some ns \<and> n \<in> set ns"
  by (auto simp: uniqueCandidate_def truthy_string_def split: option.splits list.splits if_splits)

lemma first_unique_in: "index_within N ix \<Longrightarrow> first_unique ix vs = Some n \<Longrightarrow> n \<in> N"
  by (induction vs) (auto simp: index_within_def split: option.splits dest!: uniqueCandidate_in)

lemma resolveConfiguredAlias_in: "index_within N ix \<Longrightarrow> resolveConfiguredAlias raw vs as ix = Some n \<Longrightarrow> n \<in> N"
  by (induction raw vs as ix rule: resolveConfiguredAlias.induct)
    (auto simp: resolveAliasTargets_def first_unique_in split: if_splits)

lemma builtin_match_in: "index_within N ix \<Longrightarrow> builtin_match vs ix = Inr (Some n) \<Longrightarrow> n \<in> N"
  by (induction vs) (auto simp: resolveAliasTargets_def first_unique_in split: if_splits option.splits)

subsection \<open>The fuzzy match\<close>

text \<open>The pairs of a variant and a spelling within reach of each other.\<close>

definition near :: "string \<times> string \<times> string \<Rightarrow> bool" where
  "near c = (case c of (v, s, n) \<Rightarrow> levenshtein v s \<le> maxFuzzyDistance v s)"

definition distance :: "string \<times> string \<times> string \<Rightarrow> nat" where
  "distance c = (case c of (v, s, n) \<Rightarrow> levenshtein v s)"

definition tool_of :: "string \<times> string \<times> string \<Rightarrow> string" where
  "tool_of c = snd (snd c)"

text \<open>The state after the pairs \<open>seen\<close>: the nearest so far, and whether two tools are equally near.\<close>

definition fuzzy_ok :: "(string \<times> string \<times> string) set \<Rightarrow> (string \<times> nat) option \<times> bool \<Rightarrow> bool" where
  "fuzzy_ok seen st =
     (case st of
        (None, tied) \<Rightarrow> {c \<in> seen. near c} = {}
      | (Some (n, best), tied) \<Rightarrow>
          (\<exists>c\<in>seen. near c \<and> tool_of c = n \<and> distance c = best)
          \<and> (\<forall>c\<in>seen. near c \<longrightarrow> best < distance c \<or> best = distance c \<and> (tied \<or> tool_of c = n)))"

lemma fuzzy_candidate_ok:
  assumes "fuzzy_ok seen st"
  shows "fuzzy_ok (insert (v, cand) seen) (fuzzy_candidate v cand st)"
proof (cases "near (v, cand)")
  case False
  then have "maxFuzzyDistance v (fst cand) < levenshtein v (fst cand)" by (auto simp: near_def split: prod.splits)
  then have "fuzzy_candidate v cand st = st" by (simp add: fuzzy_candidate_def)
  moreover have "{c \<in> insert (v, cand) seen. near c} = {c \<in> seen. near c}" using False by auto
  ultimately show ?thesis using assms False by (auto simp: fuzzy_ok_def split: prod.splits option.splits)
next
  case True
  then have reach: "levenshtein v (fst cand) \<le> maxFuzzyDistance v (fst cand)" by (auto simp: near_def split: prod.splits)
  have d: "distance (v, cand) = levenshtein v (fst cand)" "tool_of (v, cand) = snd cand"
    by (auto simp: distance_def tool_of_def split: prod.splits)
  obtain b tied where st: "st = (b, tied)" by fastforce
  show ?thesis
  proof (cases b)
    case None
    then show ?thesis using assms True reach d by (auto simp: fuzzy_ok_def fuzzy_candidate_def st)
  next
    case (Some nb)
    obtain n best where nb: "nb = (n, best)" by fastforce
    from assms have seen: "\<exists>c\<in>seen. near c \<and> tool_of c = n \<and> distance c = best"
        "\<And>c. c \<in> seen \<Longrightarrow> near c \<Longrightarrow> best < distance c \<or> best = distance c \<and> (tied \<or> tool_of c = n)"
      by (auto simp: fuzzy_ok_def st Some nb)
    consider "levenshtein v (fst cand) < best" | "levenshtein v (fst cand) = best" "snd cand \<noteq> n"
      | "levenshtein v (fst cand) = best" "snd cand = n" | "best < levenshtein v (fst cand)" by linarith
    then show ?thesis
      using seen True reach d
      by cases (auto simp: fuzzy_ok_def fuzzy_candidate_def st Some nb dest!: seen(2))
  qed
qed

lemma fuzzy_fold_ok:
  "fuzzy_ok seen st \<Longrightarrow> fuzzy_ok (seen \<union> Pair v ` set cands) (fold (fuzzy_candidate v) cands st)"
proof (induction cands arbitrary: seen st)
  case (Cons c cands)
  from Cons.IH [OF fuzzy_candidate_ok [OF Cons.prems, of v c]] show ?case by (simp add: insert_commute)
qed simp

lemma fuzzy_all_ok:
  "fuzzy_ok seen st \<Longrightarrow> fuzzy_ok (seen \<union> set vs \<times> set cands) (fold (\<lambda>v st. fold (fuzzy_candidate v) cands st) vs st)"
proof (induction vs arbitrary: seen st)
  case (Cons v vs)
  from Cons.IH [OF fuzzy_fold_ok [OF Cons.prems, of v cands]]
  have "fuzzy_ok (seen \<union> Pair v ` set cands \<union> set vs \<times> set cands) (fold (\<lambda>v st. fold (fuzzy_candidate v) cands st) (v # vs) st)"
    by simp
  moreover have "seen \<union> Pair v ` set cands \<union> set vs \<times> set cands = seen \<union> set (v # vs) \<times> set cands" by auto
  ultimately show ?case by simp
qed simp

lemma findFuzzyMatch_ok:
  assumes "findFuzzyMatch vs ix = Some n"
  shows "\<exists>c \<in> set vs \<times> set (ni_spellings ix). near c \<and> tool_of c = n
     \<and> {c' \<in> set vs \<times> set (ni_spellings ix). near c' \<and> tool_of c' \<noteq> n \<and> distance c' \<le> distance c} = {}"
proof -
  have "fuzzy_ok ({} \<union> set vs \<times> set (ni_spellings ix)) (fold (\<lambda>v st. fold (fuzzy_candidate v) (ni_spellings ix) st) vs (None, False))"
    by (rule fuzzy_all_ok) (simp add: fuzzy_ok_def)
  moreover obtain best where "fold (\<lambda>v st. fold (fuzzy_candidate v) (ni_spellings ix) st) vs (None, False) = (Some (n, best), False)"
    using assms by (auto simp: findFuzzyMatch_def split: prod.splits option.splits bool.splits)
  ultimately have f: "\<exists>c\<in>set vs \<times> set (ni_spellings ix). near c \<and> tool_of c = n \<and> distance c = best"
      "\<And>c. c \<in> set vs \<times> set (ni_spellings ix) \<Longrightarrow> near c \<Longrightarrow> best < distance c \<or> best = distance c \<and> tool_of c = n"
    by (auto simp: fuzzy_ok_def)
  then show ?thesis by (metis (mono_tags, lifting) empty_Collect_eq leD)
qed

text \<open>The distance is the least number of edits that align the two strings.\<close>

definition least_edits :: "string \<times> string \<times> string \<Rightarrow> bool" where
  "least_edits c \<longleftrightarrow>
     edits (distance c) (fst c) (fst (snd c)) \<and> {n. edits n (fst c) (fst (snd c))} \<subseteq> {distance c..}"

text \<open>A name that throws.\<close>

lemma constructor_throws: "repairToolName ''constructor'' [] None [] = Inl ()"
proof -
  have n: "normalizeToolName ''constructor'' = ''constructor''" by code_simp
  have "strip_pass ''constructor'' = ''constructor''" by code_simp
  then have s: "stripToolAffixes ''constructor'' = ''constructor''" by (simp add: stripToolAffixes.simps)
  have "trim ''constructor'' = ''constructor''" and "split_name ''constructor'' = [''constructor'']" by code_simp+
  then have v: "normalizedVariants ''constructor'' = [''constructor'']"
    by (simp add: normalizedVariants_def addNormalized_def n s add_new_def)
  have "buildToolNameIndex [] = \<lparr>byNormalizedName = [], ni_spellings = []\<rparr>" by (simp add: buildToolNameIndex_def)
  then show ?thesis by (simp add: repairToolName_def v uniqueCandidate_def)
qed

text \<open>C40. A repaired name is always the name of a tool of the list, available or known to be unavailable. A
  fuzzy guess is made only when one tool is nearest: it is within the bound for its length, at most two edits
  (the distance is the edit distance), and every spelling of every other tool that is within its own bound is strictly farther away. The repair
  throws only for a name with a variant \<open>constructor\<close>.\<close>

theorem repair_sound:
  "case repairToolName raw tools configured extra of
     Inl _ \<Rightarrow> ''constructor'' \<in> set (normalizedVariants raw)
   | Inr None \<Rightarrow> True
   | Inr (Some (n, reason)) \<Rightarrow>
       n \<in> rt_name ` set (tools @ extra)
       \<and> (if reason = FuzzyMatch
          then (let cands = set (normalizedVariants raw) \<times> set (ni_spellings (buildToolNameIndex (tools @ extra)))
                in \<exists>c\<in>cands. tool_of c = n \<and> near c \<and> distance c \<le> 2 \<and> least_edits c
                     \<and> {c' \<in> cands. near c' \<and> tool_of c' \<noteq> n \<and> distance c' \<le> distance c} = {})
          else True)"
proof -
  let ?ix = "buildToolNameIndex (tools @ extra)" and ?vs = "normalizedVariants raw"
  note w = buildToolNameIndex_within [of "tools @ extra"]
  have thrown: "builtin_match vs ix = Inl e \<Longrightarrow> ''constructor'' \<in> set vs" for vs ix e
    by (induction vs) (auto split: if_splits option.splits)
  have two: "near c \<Longrightarrow> distance c \<le> 2" for c
    by (auto simp: near_def distance_def maxFuzzyDistance_def Let_def split: prod.splits if_splits)
  have least: "least_edits c" for c
    using levenshtein_is_edit_distance by (auto simp: least_edits_def distance_def split: prod.splits)
  have fuzzy: "n \<in> rt_name ` set (tools @ extra) \<and> (\<exists>c\<in>set ?vs \<times> set (ni_spellings ?ix). tool_of c = n \<and> near c \<and> distance c \<le> 2 \<and> least_edits c
      \<and> {c' \<in> set ?vs \<times> set (ni_spellings ?ix). near c' \<and> tool_of c' \<noteq> n \<and> distance c' \<le> distance c} = {})"
    if f: "findFuzzyMatch ?vs ?ix = Some n" for n
  proof -
    obtain c where c: "c \<in> set ?vs \<times> set (ni_spellings ?ix)" "near c" "tool_of c = n"
        "{c' \<in> set ?vs \<times> set (ni_spellings ?ix). near c' \<and> tool_of c' \<noteq> n \<and> distance c' \<le> distance c} = {}"
      using findFuzzyMatch_ok [OF f] by blast
    have "n \<in> snd ` set (ni_spellings ?ix)" using c(1,3) by (force simp: tool_of_def)
    then have "n \<in> rt_name ` set (tools @ extra)" using w unfolding index_within_def by blast
    then show ?thesis using c two least by blast
  qed
  show ?thesis
  proof (cases "?vs = []")
    case True
    then show ?thesis by (simp add: repairToolName_def)
  next
    case False
    define conf where "conf = resolveConfiguredAlias raw ?vs (case configured of None \<Rightarrow> [] | Some as \<Rightarrow> as) ?ix"
    note unf = repairToolName_def Let_def conf_def [symmetric] False if_False
    show ?thesis
    proof (cases conf)
      case (Some n)
      then show ?thesis using resolveConfiguredAlias_in [OF w Some [unfolded conf_def]] by (simp add: unf)
    next
      case None
      note c = None
      show ?thesis
      proof (cases "first_unique ?ix ?vs")
        case (Some n)
        then show ?thesis using first_unique_in [OF w] by (simp add: unf c)
      next
        case None
        note u = None
        show ?thesis
        proof (cases "builtin_match ?vs ?ix")
          case (Inl e)
          then show ?thesis using thrown by (simp add: unf c u)
        next
          case (Inr b)
          show ?thesis
          proof (cases b)
            case (Some n)
            then show ?thesis using builtin_match_in [OF w] Inr by (simp add: unf c u)
          next
            case None
            then show ?thesis using fuzzy Inr by (cases "findFuzzyMatch ?vs ?ix") (simp_all add: unf c u)
          qed
        qed
      qed
    qed
  qed
qed

end
