(* ===== verification/Hooks.thy ===== *)
theory Hooks
  imports Prelude
begin

text \<open>
  Hooks: which hooks an event runs (\<open>extension/hooks/config\<close>), what their output means
  (\<open>execution/parseHookOutput.ts\<close>) and the loop that runs them and gathers their effects
  (\<open>execution/HookRuntime.ts\<close>, \<open>AsyncHookRegistry.ts\<close>). Parameters: \<open>JSON.parse\<close> and \<open>JSON.stringify\<close>, the
  regular expressions of matchers, the clock, and the executors (processes, HTTP, models, callbacks), which
  yield the output of a hook on an input. Settings the runtime never reads are left out.
\<close>

section \<open>Effects, outputs and settings\<close>

datatype permission_behavior = PbAllow | PbDeny | PbAsk | PbPassthrough

datatype permission_answer =
    AnswerAllow "js_value option"
  | AnswerDeny "string option"

datatype hook_effect =
    AdditionalContext string string
  | SystemMessage string
  | Block string "string option"
  | PermissionDecision permission_behavior "string option"
  | UpdatedToolInput js_value
  | UpdatedMcpOutput js_value
  | PermissionRequestResult permission_answer
  | InitialUserMessage string
  | WatchPaths "string list"
  | WorktreePath string
  | RetryPermissionDenied

record specific_output =
  so_additionalContext :: "string option"
  so_initialUserMessage :: "string option"
  so_watchPaths :: "string list option"
  so_permissionDecision :: "permission_behavior option"
  so_permissionDecisionReason :: "string option"
  so_updatedInput :: "js_value option"
  so_updatedMCPToolOutput :: js_value
  so_decision :: "permission_answer option"
  so_retry :: "bool option"
  so_worktreePath :: "string option"

record sync_output =
  ho_continue :: "bool option"
  ho_stopReason :: "string option"
  ho_block :: bool
  ho_reason :: "string option"
  ho_systemMessage :: "string option"
  ho_specific :: "specific_output option"

datatype hook_output = Sync sync_output | Async

definition empty_output :: sync_output where
  "empty_output = \<lparr>ho_continue = None, ho_stopReason = None, ho_block = False, ho_reason = None,
     ho_systemMessage = None, ho_specific = None\<rparr>"

datatype hook_command =
    CommandHook (hc_command: string) (hc_if: "string option") (hc_asyncRewake: "bool option")
  | PromptHook (hc_prompt: string) (hc_if: "string option")
  | HttpHook (hc_url: string) (hc_if: "string option")
  | AgentHook (hc_prompt: string) (hc_if: "string option")
  | CallbackHook (hc_name: string) (hc_if: "string option")

fun hook_type :: "hook_command \<Rightarrow> string" where
  "hook_type (CommandHook _ _ _) = ''command''"
| "hook_type (PromptHook _ _) = ''prompt''"
| "hook_type (HttpHook _ _) = ''http''"
| "hook_type (AgentHook _ _) = ''agent''"
| "hook_type (CallbackHook _ _) = ''callback''"

record hook_matcher =
  hm_matcher :: "string option"
  hm_hooks :: "hook_command list"
  hm_pluginName :: "string option"

type_synonym hooks_settings = "(string \<times> hook_matcher list) list"

definition HOOK_EVENTS :: "string list" where
  "HOOK_EVENTS = [''PreToolUse'', ''PostToolUse'', ''PostToolUseFailure'', ''Notification'', ''UserPromptSubmit'',
     ''PreModelRequest'', ''SessionStart'', ''SessionEnd'', ''Stop'', ''StopFailure'', ''SubagentStart'',
     ''SubagentStop'', ''PreCompact'', ''PostCompact'', ''PermissionRequest'', ''PermissionDenied'', ''Setup'',
     ''ConfigChange'', ''InstructionsLoaded'', ''CwdChanged'', ''FileChanged'', ''WorktreeCreate'',
     ''WorktreeRemove'', ''Elicitation'', ''ElicitationResult'']"

section \<open>The settings file\<close>

datatype hook_diagnostic =
    HooksNotObject
  | UnsupportedEvent string
  | MatchersNotArray string
  | MatcherNotObject string
  | HooksNotArray string
  | HookWithoutType string
  | FieldMissing string string
  | CallbackInConfig string
  | UnsupportedHookType string string

fun js_bool :: "js_value \<Rightarrow> bool option" where
  "js_bool (JBool b) = Some b"
| "js_bool _ = None"

definition parseHookCommand :: "string \<Rightarrow> js_value \<Rightarrow> hook_diagnostic + hook_command" where
  "parseHookCommand eventName raw =
     (let field = js_property raw; cond = js_string (field ''if'')
      in case (if isRecord raw then js_string (field ''type'') else None) of
           None \<Rightarrow> Inl (HookWithoutType eventName)
         | Some t \<Rightarrow>
             if t = ''command'' then
               (case js_string (field ''command'') of
                  None \<Rightarrow> Inl (FieldMissing ''command'' eventName)
                | Some c \<Rightarrow> Inr (CommandHook c cond (js_bool (field ''asyncRewake''))))
             else if t = ''prompt'' then
               (case js_string (field ''prompt'') of
                  None \<Rightarrow> Inl (FieldMissing ''prompt'' eventName) | Some p \<Rightarrow> Inr (PromptHook p cond))
             else if t = ''http'' then
               (case js_string (field ''url'') of
                  None \<Rightarrow> Inl (FieldMissing ''url'' eventName) | Some u \<Rightarrow> Inr (HttpHook u cond))
             else if t = ''agent'' then
               (case js_string (field ''prompt'') of
                  None \<Rightarrow> Inl (FieldMissing ''prompt'' eventName) | Some p \<Rightarrow> Inr (AgentHook p cond))
             else if t = ''callback'' then Inl (CallbackInConfig eventName)
             else Inl (UnsupportedHookType t eventName))"

text \<open>The values that parsed and the diagnostics of the others, both in order.\<close>

definition partition_parsed :: "('d + 'v) list \<Rightarrow> 'v list \<times> 'd list" where
  "partition_parsed rs = (map projr (filter (\<lambda>r. \<not> isl r) rs), map projl (filter isl rs))"

definition parseMatcher :: "string \<Rightarrow> js_value \<Rightarrow> hook_matcher option \<times> hook_diagnostic list" where
  "parseMatcher eventName raw =
     (if \<not> isRecord raw then (None, [MatcherNotObject eventName])
      else
        (case js_property raw ''hooks'' of
           JArray rawHooks \<Rightarrow>
             (let (hooks, ds) = partition_parsed (map (parseHookCommand eventName) rawHooks)
              in (Some \<lparr>hm_matcher = js_string (js_property raw ''matcher''), hm_hooks = hooks,
                        hm_pluginName = js_string (js_property raw ''pluginName'')\<rparr>, ds))
         | _ \<Rightarrow> (None, [HooksNotArray eventName])))"

definition parse_event :: "string \<times> js_value \<Rightarrow> hooks_settings \<times> hook_diagnostic list" where
  "parse_event entry =
     (case entry of (eventName, rawMatchers) \<Rightarrow>
        if eventName \<notin> set HOOK_EVENTS then ([], [UnsupportedEvent eventName])
        else
          (case rawMatchers of
             JArray ms \<Rightarrow>
               (let rs = map (parseMatcher eventName) ms; matchers = List.map_filter fst rs
                in (if matchers = [] then [] else [(eventName, matchers)], concat (map snd rs)))
           | _ \<Rightarrow> ([], [MatchersNotArray eventName])))"

definition parseHooksConfig :: "js_value \<Rightarrow> hooks_settings \<times> hook_diagnostic list" where
  "parseHooksConfig raw =
     (if raw = JUndefined \<or> raw = JNull then ([], [])
      else
        (case raw of
           JObject fs \<Rightarrow> (concat (map (fst \<circ> parse_event) fs), concat (map (snd \<circ> parse_event) fs))
         | _ \<Rightarrow> ([], [HooksNotObject])))"

section \<open>Which hooks match\<close>

text \<open>One alternative of a matcher against a query that is there. \<open>regex\<close> compiles and tests; \<open>None\<close> where
  compiling throws.\<close>

definition match_one :: "(string \<Rightarrow> string \<Rightarrow> bool option) \<Rightarrow> string \<Rightarrow> string \<Rightarrow> bool" where
  "match_one regex m query =
     (if m = ''*'' then True
      else if hd m = CHR ''/'' \<and> last m = CHR ''/'' \<and> 2 < length m then regex (butlast (tl m)) query = Some True
      else m = query)"

definition matchHookMatcher :: "(string \<Rightarrow> string \<Rightarrow> bool option) \<Rightarrow> string option \<Rightarrow> string option \<Rightarrow> bool" where
  "matchHookMatcher regex matcher query =
     (case matcher of
        None \<Rightarrow> True
      | Some m \<Rightarrow>
          if m = [] \<or> m = ''*'' then True
          else
            (case query of
               None \<Rightarrow> False
             | Some q \<Rightarrow>
                 if q = [] then False
                 else
                   (let alternatives = filter (\<lambda>a. a \<noteq> []) (map trim (split_char (CHR ''|'') m))
                    in if 1 < length alternatives then list_ex (\<lambda>a. match_one regex a q) alternatives
                       else match_one regex m q)))"

definition condition_char :: "char \<Rightarrow> bool" where
  "condition_char c \<longleftrightarrow>
     (let n = of_char c :: nat
      in (48 \<le> n \<and> n \<le> 58) \<or> (65 \<le> n \<and> n \<le> 90) \<or> (97 \<le> n \<and> n \<le> 122) \<or> c \<in> {CHR ''_'', CHR ''.'', CHR ''-''})"

text \<open>\<open>/^([A-Za-z0-9_.:-]+)(?:\((.*)\))?$/\<close>: the tool, and the pattern in parentheses if there is one.\<close>

definition parse_condition :: "string \<Rightarrow> (string \<times> string option) option" where
  "parse_condition s =
     (let t = takeWhile condition_char s; r = dropWhile condition_char s
      in if t = [] then None
         else if r = [] then Some (t, None)
         else if 2 \<le> length r \<and> hd r = CHR ''('' \<and> last r = CHR '')''
                 \<and> list_all (\<lambda>c. c \<noteq> CHR 0x0A \<and> c \<noteq> CHR 0x0D) (butlast (tl r))
           then Some (t, Some (butlast (tl r)))
         else None)"

definition condition_name :: "string \<Rightarrow> string" where
  "condition_name s =
     toLowerCase (filter (\<lambda>c. let n = of_char c :: nat in (48 \<le> n \<and> n \<le> 57) \<or> (65 \<le> n \<and> n \<le> 90) \<or> (97 \<le> n \<and> n \<le> 122)) s)"

definition matchHookCondition :: "(js_value \<Rightarrow> string) \<Rightarrow> string option \<Rightarrow> string option \<Rightarrow> js_value \<Rightarrow> bool" where
  "matchHookCondition stringify condition toolName toolInput =
     (case condition of
        None \<Rightarrow> True
      | Some c \<Rightarrow>
          if c = [] then True
          else
            (case parse_condition (trim c) of
               None \<Rightarrow> False
             | Some (expected, pattern) \<Rightarrow>
                 if (case toolName of None \<Rightarrow> False | Some n \<Rightarrow> n \<noteq> [] \<and> condition_name expected \<noteq> condition_name n) then False
                 else
                   (case pattern of
                      None \<Rightarrow> True
                    | Some p \<Rightarrow>
                        if p = [] \<or> p = ''*'' then True
                        else str_includes (stringify (js_nullish toolInput (JObject []))) (filter (\<lambda>x. x \<noteq> CHR ''*'') p))))"

text \<open>A regular expression with an alternative is taken apart before it is recognised, and never matches.\<close>

lemma regex_alternative_lost:
  "\<not> matchHookMatcher regex (Some ''/Write|Edit/'') (Some ''Write'')" "\<not> matchHookMatcher regex (Some ''/Write|Edit/'') (Some ''Edit'')"
  by (simp_all add: matchHookMatcher_def match_one_def trim_def trimStart_def trimEnd_def is_ws_def)

section \<open>The output of a hook\<close>

text \<open>\<open>split(/\r?\n/)\<close>\<close>

definition strip_cr :: "string \<Rightarrow> string" where
  "strip_cr l = (if l \<noteq> [] \<and> last l = CHR 0x0D then butlast l else l)"

definition split_lines :: "string \<Rightarrow> string list" where
  "split_lines s = (let ls = split_char (CHR 0x0A) s in map strip_cr (butlast ls) @ [last ls])"

fun first_json_line :: "(string \<Rightarrow> js_value option) \<Rightarrow> string list \<Rightarrow> js_value" where
  "first_json_line parse [] = JUndefined"
| "first_json_line parse (l # ls) =
     (if \<not> startsWith (trim l) ''{'' then first_json_line parse ls
      else (case parse (trim l) of Some v \<Rightarrow> v | None \<Rightarrow> JUndefined))"

definition parsePermissionDecision :: "js_value \<Rightarrow> permission_behavior option" where
  "parsePermissionDecision v =
     (if v = JString ''allow'' then Some PbAllow
      else if v = JString ''deny'' then Some PbDeny
      else if v = JString ''ask'' then Some PbAsk
      else if v = JString ''passthrough'' then Some PbPassthrough
      else None)"

definition record_or_none :: "js_value \<Rightarrow> js_value option" where
  "record_or_none v = (if isRecord v then Some v else None)"

definition parsePermissionRequestDecision :: "js_value \<Rightarrow> permission_answer option" where
  "parsePermissionRequestDecision v =
     (if \<not> isRecord v then None
      else if js_property v ''behavior'' = JString ''allow'' then Some (AnswerAllow (record_or_none (js_property v ''updatedInput'')))
      else if js_property v ''behavior'' = JString ''deny'' then Some (AnswerDeny (js_string (js_property v ''message'')))
      else None)"

definition parseSpecificOutput :: "js_value \<Rightarrow> specific_output option" where
  "parseSpecificOutput v =
     (if \<not> isRecord v \<or> js_string (js_property v ''hookEventName'') = None then None
      else Some
        \<lparr>so_additionalContext = js_string (js_property v ''additionalContext''),
         so_initialUserMessage = js_string (js_property v ''initialUserMessage''),
         so_watchPaths = (case js_property v ''watchPaths'' of JArray xs \<Rightarrow> Some (List.map_filter js_string xs) | _ \<Rightarrow> None),
         so_permissionDecision = parsePermissionDecision (js_property v ''permissionDecision''),
         so_permissionDecisionReason = js_string (js_property v ''permissionDecisionReason''),
         so_updatedInput = record_or_none (js_property v ''updatedInput''),
         so_updatedMCPToolOutput = js_property v ''updatedMCPToolOutput'',
         so_decision = parsePermissionRequestDecision (js_property v ''decision''),
         so_retry = js_bool (js_property v ''retry''),
         so_worktreePath = js_string (js_property v ''worktreePath'')\<rparr>)"

definition parseHookOutput :: "(string \<Rightarrow> js_value option) \<Rightarrow> string \<Rightarrow> hook_output" where
  "parseHookOutput parse stdout =
     (let v = first_json_line parse (split_lines stdout)
      in if \<not> isRecord v then Sync empty_output
         else if js_property v ''async'' = JBool True then Async
         else Sync
           \<lparr>ho_continue = js_bool (js_property v ''continue''),
            ho_stopReason = js_string (js_property v ''stopReason''),
            ho_block = (js_property v ''decision'' = JString ''block''),
            ho_reason = js_string (js_property v ''reason''),
            ho_systemMessage = js_string (js_property v ''systemMessage''),
            ho_specific = parseSpecificOutput (js_property v ''hookSpecificOutput'')\<rparr>)"

definition isBlockingOutput :: "sync_output \<Rightarrow> bool" where
  "isBlockingOutput out \<longleftrightarrow> ho_continue out = Some False \<or> ho_block out"

text \<open>A string that is there and not empty; the first of two that is there.\<close>

definition when_truthy :: "string option \<Rightarrow> (string \<Rightarrow> 'e) \<Rightarrow> 'e list" where
  "when_truthy v f = (case v of None \<Rightarrow> [] | Some s \<Rightarrow> if s = [] then [] else [f s])"

definition or_else :: "'a option \<Rightarrow> 'a option \<Rightarrow> 'a option" where
  "or_else a b = (case a of None \<Rightarrow> b | Some x \<Rightarrow> Some x)"

definition specific_effects :: "specific_output \<Rightarrow> string \<Rightarrow> hook_effect list" where
  "specific_effects so hookName =
     when_truthy (so_additionalContext so) (\<lambda>c. AdditionalContext c hookName)
     @ when_truthy (so_initialUserMessage so) InitialUserMessage
     @ (case so_watchPaths so of None \<Rightarrow> [] | Some ps \<Rightarrow> if ps = [] then [] else [WatchPaths ps])
     @ when_truthy (so_worktreePath so) WorktreePath
     @ (case so_permissionDecision so of None \<Rightarrow> [] | Some b \<Rightarrow> [PermissionDecision b (so_permissionDecisionReason so)])
     @ (case so_updatedInput so of None \<Rightarrow> [] | Some i \<Rightarrow> [UpdatedToolInput i])
     @ (if so_updatedMCPToolOutput so = JUndefined then [] else [UpdatedMcpOutput (so_updatedMCPToolOutput so)])
     @ (case so_decision so of None \<Rightarrow> [] | Some d \<Rightarrow> [PermissionRequestResult d])
     @ (if so_retry so = Some True then [RetryPermissionDenied] else [])"

fun effectsFromHookOutput :: "hook_output \<Rightarrow> string \<Rightarrow> hook_effect list" where
  "effectsFromHookOutput Async hookName = []"
| "effectsFromHookOutput (Sync out) hookName =
     when_truthy (ho_systemMessage out) SystemMessage
     @ (if isBlockingOutput out
        then [Block (the (or_else (or_else (ho_reason out) (ho_stopReason out)) (Some ''Hook blocked execution.'')))
                (ho_stopReason out)]
        else [])
     @ (case ho_specific out of None \<Rightarrow> [] | Some so \<Rightarrow> specific_effects so hookName)"

section \<open>The executors\<close>

datatype hook_outcome = HookSuccess | HookBlocking | HookNonBlocking | HookCancelled | HookTimeout

record hook_result =
  hr_stdout :: string
  hr_stderr :: string
  hr_exitCode :: "int option"
  hr_outcome :: hook_outcome
  hr_output :: hook_output

text \<open>How a process ended: with an exit code (none if a signal killed it), by the timer, by the abort signal, or
  never started.\<close>

datatype process_end = Exited "int option" | TimedOut | Aborted | SpawnError string

datatype callback_reply = CallbackThrew string | CallbackText string | CallbackOutput "hook_output option"

text \<open>What lies outside: one answer per execution, numbered within a run.\<close>

record hook_world =
  hw_parse :: "string \<Rightarrow> js_value option"
  hw_process :: "nat \<Rightarrow> string \<Rightarrow> process_end \<times> string \<times> string"
  hw_evaluator :: "(nat \<Rightarrow> string \<Rightarrow> string + string) option"
  hw_fetch :: "nat \<Rightarrow> string \<Rightarrow> string + (bool \<times> string \<times> string)"
  hw_runner :: "(nat \<Rightarrow> string \<Rightarrow> string + string) option"
  hw_callbacks :: "(string \<times> (nat \<Rightarrow> callback_reply)) list"
  hw_clock :: "nat \<Rightarrow> nat"

definition failed_result :: "string \<Rightarrow> hook_result" where
  "failed_result stderr = \<lparr>hr_stdout = [], hr_stderr = stderr, hr_exitCode = None, hr_outcome = HookNonBlocking,
     hr_output = Sync empty_output\<rparr>"

definition text_result :: "(string \<Rightarrow> js_value option) \<Rightarrow> string \<Rightarrow> hook_result" where
  "text_result parse stdout = \<lparr>hr_stdout = stdout, hr_stderr = [], hr_exitCode = Some 0, hr_outcome = HookSuccess,
     hr_output = parseHookOutput parse stdout\<rparr>"

definition command_result :: "(string \<Rightarrow> js_value option) \<Rightarrow> process_end \<times> string \<times> string \<Rightarrow> hook_result" where
  "command_result parse reply =
     (case reply of (how, stdout, stderr) \<Rightarrow>
        \<lparr>hr_stdout = stdout,
         hr_stderr = (case how of SpawnError m \<Rightarrow> stderr @ m | _ \<Rightarrow> stderr),
         hr_exitCode = (case how of Exited code \<Rightarrow> code | _ \<Rightarrow> None),
         hr_outcome =
           (case how of
              Exited code \<Rightarrow> if code = Some 0 then HookSuccess else if code = Some 2 then HookBlocking else HookNonBlocking
            | TimedOut \<Rightarrow> HookTimeout
            | Aborted \<Rightarrow> HookCancelled
            | SpawnError _ \<Rightarrow> HookNonBlocking),
         hr_output = parseHookOutput parse stdout\<rparr>)"

definition model_result :: "(string \<Rightarrow> js_value option) \<Rightarrow> string \<Rightarrow> (string + string) option \<Rightarrow> hook_result" where
  "model_result parse missing reply =
     (case reply of
        None \<Rightarrow> failed_result missing
      | Some (Inl m) \<Rightarrow> failed_result m
      | Some (Inr stdout) \<Rightarrow> text_result parse stdout)"

definition http_result :: "(string \<Rightarrow> js_value option) \<Rightarrow> string + (bool \<times> string \<times> string) \<Rightarrow> hook_result" where
  "http_result parse reply =
     (case reply of
        Inl m \<Rightarrow> failed_result m
      | Inr (ok, status, stdout) \<Rightarrow>
          \<lparr>hr_stdout = stdout, hr_stderr = (if ok then [] else ''HTTP hook returned '' @ status @ ''.''),
           hr_exitCode = Some (if ok then 0 else 1), hr_outcome = (if ok then HookSuccess else HookNonBlocking),
           hr_output = parseHookOutput parse stdout\<rparr>)"

definition callback_result :: "(string \<Rightarrow> js_value option) \<Rightarrow> string \<Rightarrow> callback_reply option \<Rightarrow> hook_result" where
  "callback_result parse name reply =
     (case reply of
        None \<Rightarrow> failed_result (''Callback hook '' @ name @ '' is not registered.'')
      | Some (CallbackThrew m) \<Rightarrow> failed_result m
      | Some (CallbackText s) \<Rightarrow> text_result parse s
      | Some (CallbackOutput out) \<Rightarrow>
          \<lparr>hr_stdout = [], hr_stderr = [], hr_exitCode = Some 0, hr_outcome = HookSuccess,
           hr_output = (case out of None \<Rightarrow> Sync empty_output | Some v \<Rightarrow> v)\<rparr>)"

fun executeHook :: "hook_world \<Rightarrow> nat \<Rightarrow> hook_command \<Rightarrow> hook_result" where
  "executeHook w i (CommandHook c _ _) = command_result (hw_parse w) (hw_process w i c)"
| "executeHook w i (PromptHook p _) =
     model_result (hw_parse w) ''Prompt hook evaluator is not configured.'' (map_option (\<lambda>f. f i p) (hw_evaluator w))"
| "executeHook w i (HttpHook u _) = http_result (hw_parse w) (hw_fetch w i u)"
| "executeHook w i (AgentHook p _) =
     model_result (hw_parse w) ''Agent hook runner is not configured.'' (map_option (\<lambda>f. f i p) (hw_runner w))"
| "executeHook w i (CallbackHook n _) =
     callback_result (hw_parse w) n (map_option (\<lambda>f. f i) (map_of (hw_callbacks w) n))"

section \<open>The hook runtime\<close>

record hook_input =
  hi_event :: string
  hi_matchQuery :: "string option"
  hi_toolName :: "string option"
  hi_toolInput :: js_value

record hook_matching =
  mt_regex :: "string \<Rightarrow> string \<Rightarrow> bool option"
  mt_stringify :: "js_value \<Rightarrow> string"

definition matchHooks :: "hook_matching \<Rightarrow> hooks_settings \<Rightarrow> hook_input \<Rightarrow> (hook_matcher \<times> hook_command) list" where
  "matchHooks mt settings inp =
     concat (map (\<lambda>m. if matchHookMatcher (mt_regex mt) (hm_matcher m) (hi_matchQuery inp)
                      then map (Pair m) (filter (\<lambda>h. matchHookCondition (mt_stringify mt) (hc_if h) (hi_toolName inp) (hi_toolInput inp))
                             (hm_hooks m))
                      else [])
       (case map_of settings (hi_event inp) of None \<Rightarrow> [] | Some ms \<Rightarrow> ms))"

datatype run_event = HookStarted string string | HookResponse string string hook_outcome

record pending_hook =
  ph_id :: string
  ph_hookName :: string
  ph_hookEvent :: string
  ph_stdout :: string
  ph_delivered :: bool
  ph_asyncRewake :: "bool option"

record hook_run =
  run_effects :: "hook_effect list"
  run_events :: "run_event list"
  run_blockingErrors :: "string list"
  run_nonBlockingErrors :: "string list"
  run_registry :: "(string \<times> pending_hook) list"

definition hook_label :: "hook_matcher \<Rightarrow> hook_command \<Rightarrow> string" where
  "hook_label m h = (case hm_pluginName m of
      Some n \<Rightarrow> if n = [] then hook_type h else n @ '':'' @ hook_type h
    | None \<Rightarrow> hook_type h)"

text \<open>The first of two strings that is not empty, else a default.\<close>

definition first_text :: "string \<Rightarrow> string \<Rightarrow> string \<Rightarrow> string" where
  "first_text a b dflt = (if a \<noteq> [] then a else if b \<noteq> [] then b else dflt)"

definition async_rewake :: "hook_command \<Rightarrow> bool option" where
  "async_rewake h = (case h of CommandHook _ _ r \<Rightarrow> r | _ \<Rightarrow> None)"

definition blocking_effects :: "hook_result \<Rightarrow> hook_effect list" where
  "blocking_effects r =
     (if hr_outcome r = HookBlocking then [Block (first_text (hr_stderr r) (hr_stdout r) ''Hook blocked execution.'') None] else [])"

text \<open>One turn of the loop: the hook \<open>h\<close> of the matcher \<open>m\<close>, executed as number \<open>i\<close>.\<close>

definition run_hook :: "hook_world \<Rightarrow> string \<Rightarrow> nat \<Rightarrow> hook_matcher \<Rightarrow> hook_command \<Rightarrow> hook_run \<Rightarrow> hook_run" where
  "run_hook w event i m h st =
     (let name = hook_label m h; r = executeHook w i h; key = name @ '':'' @ show_nat (hw_clock w i)
      in st\<lparr>run_events := run_events st @ [HookStarted name event, HookResponse name event (hr_outcome r)],
            run_registry :=
              (if hr_output r = Async
               then jset key \<lparr>ph_id = key, ph_hookName = name, ph_hookEvent = event, ph_stdout = hr_stdout r,
                       ph_delivered = False, ph_asyncRewake = async_rewake h\<rparr> (run_registry st)
               else run_registry st),
            run_blockingErrors :=
              (if hr_outcome r = HookBlocking
               then run_blockingErrors st @ [first_text (hr_stderr r) (hr_stdout r) ''Hook blocked execution.'']
               else run_blockingErrors st),
            run_nonBlockingErrors :=
              (if hr_outcome r \<in> {HookNonBlocking, HookTimeout, HookCancelled} then run_nonBlockingErrors st @ [name]
               else run_nonBlockingErrors st),
            run_effects := run_effects st @ blocking_effects r @ effectsFromHookOutput (hr_output r) name\<rparr>)"

fun run_hooks :: "hook_world \<Rightarrow> string \<Rightarrow> nat \<Rightarrow> (hook_matcher \<times> hook_command) list \<Rightarrow> hook_run \<Rightarrow> hook_run" where
  "run_hooks w event i [] st = st"
| "run_hooks w event i ((m, h) # hs) st = run_hooks w event (i + 1) hs (run_hook w event i m h st)"

text \<open>A run on the registry left by earlier ones.\<close>

definition hook_runtime_run ::
    "hook_matching \<Rightarrow> hook_world \<Rightarrow> hooks_settings \<Rightarrow> (string \<times> pending_hook) list \<Rightarrow> hook_input \<Rightarrow> hook_run" where
  "hook_runtime_run mt w settings registry inp =
     run_hooks w (hi_event inp) 0 (matchHooks mt settings inp)
       \<lparr>run_effects = [], run_events = [], run_blockingErrors = [], run_nonBlockingErrors = [], run_registry = registry\<rparr>"

text \<open>The responses of the registered hooks: a hook whose output is asynchronous is passed over.\<close>

definition deliverable :: "(string \<Rightarrow> js_value option) \<Rightarrow> pending_hook \<Rightarrow> bool" where
  "deliverable parse p \<longleftrightarrow> \<not> ph_delivered p \<and> trim (ph_stdout p) \<noteq> [] \<and> parseHookOutput parse (ph_stdout p) \<noteq> Async"

definition collectResponses ::
    "(string \<Rightarrow> js_value option) \<Rightarrow> (string \<times> pending_hook) list \<Rightarrow> (string \<times> bool) list \<times> (string \<times> pending_hook) list" where
  "collectResponses parse registry =
     (map (\<lambda>(k, p). (ph_id p, ph_asyncRewake p = Some True
                      \<and> (case parseHookOutput parse (ph_stdout p) of Sync out \<Rightarrow> isBlockingOutput out | Async \<Rightarrow> False)))
        (filter (\<lambda>(k, p). deliverable parse p) registry),
      map (\<lambda>(k, p). (k, if deliverable parse p then p\<lparr>ph_delivered := True\<rparr> else p)) registry)"

definition removeDelivered :: "(string \<times> pending_hook) list \<Rightarrow> (string \<times> pending_hook) list" where
  "removeDelivered registry = filter (\<lambda>(k, p). \<not> ph_delivered p) registry"

section \<open>What a run gives\<close>

text \<open>The executions of a run, and what each adds.\<close>

definition executions :: "hook_world \<Rightarrow> nat \<Rightarrow> (hook_matcher \<times> hook_command) list \<Rightarrow> (string \<times> hook_result) list" where
  "executions w i hs = map (\<lambda>(j, m, h). (hook_label m h, executeHook w j h)) (List.enumerate i hs)"

definition execution_effects :: "string \<times> hook_result \<Rightarrow> hook_effect list" where
  "execution_effects x = blocking_effects (snd x) @ effectsFromHookOutput (hr_output (snd x)) (fst x)"

lemma run_hooks_effects:
  "run_effects (run_hooks w event i hs st) = run_effects st @ concat (map execution_effects (executions w i hs))"
  by (induction w event i hs st rule: run_hooks.induct)
    (simp_all add: run_hook_def Let_def executions_def execution_effects_def)

lemma hook_runtime_effects:
  "run_effects (hook_runtime_run mt w settings registry inp) = concat (map execution_effects (executions w 0 (matchHooks mt settings inp)))"
  by (simp add: hook_runtime_run_def run_hooks_effects)

definition blocks :: "hook_result \<Rightarrow> bool" where
  "blocks r \<longleftrightarrow> hr_outcome r = HookBlocking \<or> (case hr_output r of Sync out \<Rightarrow> isBlockingOutput out | Async \<Rightarrow> False)"

definition is_block :: "hook_effect \<Rightarrow> bool" where
  "is_block e \<longleftrightarrow> (case e of Block _ _ \<Rightarrow> True | _ \<Rightarrow> False)"

lemma specific_no_block: "\<not> list_ex is_block (specific_effects so name)"
  by (auto simp: specific_effects_def when_truthy_def is_block_def list_ex_append split: option.splits)

lemma execution_blocks: "list_ex is_block (execution_effects (name, r)) \<longleftrightarrow> blocks r"
  using specific_no_block
  by (cases "hr_output r")
    (auto simp: execution_effects_def blocks_def blocking_effects_def is_block_def when_truthy_def split: option.splits)

lemma run_blocks_iff:
  "list_ex is_block (run_effects (hook_runtime_run mt w settings registry inp))
     \<longleftrightarrow> list_ex (\<lambda>x. blocks (snd x)) (executions w 0 (matchHooks mt settings inp))"
proof -
  have "list_ex is_block (concat (map execution_effects xs)) \<longleftrightarrow> list_ex (\<lambda>x. blocks (snd x)) xs" for xs
    by (induction xs) (auto simp: execution_blocks [of "fst x" "snd x" for x, simplified])
  then show ?thesis by (simp add: hook_runtime_effects)
qed

subsection \<open>Asynchronous hooks\<close>

text \<open>A hook is registered only when its output, parsed from the text that is registered with it, is
  asynchronous; the text never changes afterwards. So no response is ever delivered.\<close>

definition stuck :: "(string \<Rightarrow> js_value option) \<Rightarrow> pending_hook \<Rightarrow> bool" where
  "stuck parse p \<longleftrightarrow> \<not> ph_delivered p \<and> (ph_stdout p = [] \<or> parseHookOutput parse (ph_stdout p) = Async)"

lemma executeHook_async: "hr_output (executeHook w i h) = Async
    \<Longrightarrow> hr_stdout (executeHook w i h) = [] \<or> parseHookOutput (hw_parse w) (hr_stdout (executeHook w i h)) = Async"
  by (cases h)
    (auto simp: command_result_def model_result_def http_result_def callback_result_def failed_result_def text_result_def
      split: prod.splits option.splits sum.splits callback_reply.splits if_splits)

lemma run_hooks_stuck:
  "list_all (\<lambda>(k, p). stuck (hw_parse w) p) (run_registry st)
    \<Longrightarrow> list_all (\<lambda>(k, p). stuck (hw_parse w) p) (run_registry (run_hooks w event i hs st))"
proof (induction w event i hs st rule: run_hooks.induct)
  case (2 w event i m h hs st)
  have "list_all (\<lambda>(k, p). stuck (hw_parse w) p) (run_registry (run_hook w event i m h st))"
  proof (cases "hr_output (executeHook w i h) = Async")
    case True
    then show ?thesis
      using 2(2) executeHook_async [OF True] set_jset
      by (fastforce simp: run_hook_def Let_def list_all_iff stuck_def)
  next
    case False
    then show ?thesis using 2(2) by (simp add: run_hook_def Let_def)
  qed
  then show ?case using 2(1) by simp
qed simp

lemma no_async_response:
  assumes "list_all (\<lambda>(k, p). stuck (hw_parse w) p) registry"
  shows "fst (collectResponses (hw_parse w) (run_registry (hook_runtime_run mt w settings registry inp))) = []"
proof -
  have "list_all (\<lambda>(k, p). stuck (hw_parse w) p) (run_registry (hook_runtime_run mt w settings registry inp))"
    unfolding hook_runtime_run_def by (rule run_hooks_stuck) (simp add: assms)
  then show ?thesis
    by (auto simp: collectResponses_def filter_empty_conv list_all_iff stuck_def deliverable_def)
qed

end
