(* ===== verification/PlanTodo.thy ===== *)
theory PlanTodo
  imports Prelude
begin

text \<open>
  The todo list of an approved plan: \<open>agent/runtime/PlanTodoState.ts\<close>, the state of one session. The clock and
  the wording of the messages are left out; a status that is not one of the four is as none.
\<close>

section \<open>Todos\<close>

datatype todo_status = Pending | InProgress | Completed | Cancelled

record todo_item =
  td_id :: string
  td_content :: string
  td_status :: todo_status
  td_priority :: "string option"

record todo_update =
  tu_id :: "string option"
  tu_content :: "string option"
  tu_status :: "todo_status option"
  tu_priority :: "string option"

text \<open>\<open>value?.trim() || undefined\<close>\<close>

definition trimmed :: "string option \<Rightarrow> string option" where
  "trimmed v = (case v of None \<Rightarrow> None | Some s \<Rightarrow> if trim s = [] then None else Some (trim s))"

definition todo_id :: "todo_update \<Rightarrow> nat \<Rightarrow> string" where
  "todo_id u i = (case trimmed (tu_id u) of Some s \<Rightarrow> s | None \<Rightarrow> ''todo-'' @ show_nat (i + 1))"

definition normalizeTodoItem :: "todo_update \<Rightarrow> nat \<Rightarrow> todo_item" where
  "normalizeTodoItem u i =
     \<lparr>td_id = todo_id u i,
      td_content = (case trimmed (tu_content u) of Some c \<Rightarrow> c | None \<Rightarrow> ''(no description)''),
      td_status = (case tu_status u of Some s \<Rightarrow> s | None \<Rightarrow> Pending),
      td_priority = trimmed (tu_priority u)\<rparr>"

definition as_update :: "todo_item \<Rightarrow> todo_update" where
  "as_update t = \<lparr>tu_id = Some (td_id t), tu_content = Some (td_content t), tu_status = Some (td_status t),
     tu_priority = td_priority t\<rparr>"

text \<open>The last of the todos with an id, at its place.\<close>

definition dedupeById :: "todo_update list \<Rightarrow> todo_update list" where
  "dedupeById us =
     (let lastIndex = fold (\<lambda>(i, u) m. jset (todo_id u i) i m) (List.enumerate 0 us) []
      in map (\<lambda>i. us ! i) (sort (map snd lastIndex)))"

definition replaceTodos :: "todo_update list \<Rightarrow> todo_item list" where
  "replaceTodos us = map (\<lambda>(i, u). normalizeTodoItem u i) (List.enumerate 0 (dedupeById us))"

definition open_status :: "todo_status \<Rightarrow> bool" where
  "open_status s \<longleftrightarrow> s = Pending \<or> s = InProgress"

definition activeTodos :: "todo_item list \<Rightarrow> todo_item list" where
  "activeTodos ts = filter (\<lambda>t. open_status (td_status t)) ts"

subsection \<open>Merging\<close>

definition existing_by_id :: "todo_item list \<Rightarrow> (string \<times> todo_item) list" where
  "existing_by_id ts =
     fold (\<lambda>(i, t) m. jset (td_id (normalizeTodoItem (as_update t) i)) (normalizeTodoItem (as_update t) i) m) (List.enumerate 0 ts) []"

definition updated_todo :: "todo_item \<Rightarrow> todo_update \<Rightarrow> todo_item" where
  "updated_todo t u =
     t\<lparr>td_content := (case trimmed (tu_content u) of Some c \<Rightarrow> c | None \<Rightarrow> td_content t),
       td_status := (case tu_status u of Some s \<Rightarrow> s | None \<Rightarrow> td_status t),
       td_priority := (case trimmed (tu_priority u) of Some p \<Rightarrow> Some p | None \<Rightarrow> td_priority t)\<rparr>"

text \<open>An update of a known id changes its todo, any other is to be appended.\<close>

fun apply_updates :: "todo_update list \<Rightarrow> (string \<times> todo_item) list \<Rightarrow> (string \<times> todo_item) list \<times> todo_update list" where
  "apply_updates [] m = (m, [])"
| "apply_updates (u # us) m =
     (case trimmed (tu_id u) of
        Some i \<Rightarrow>
          (case jget m i of
             Some t \<Rightarrow> apply_updates us (jset i (updated_todo t u) m)
           | None \<Rightarrow> (let (m', as) = apply_updates us m in (m', u # as)))
      | None \<Rightarrow> (let (m', as) = apply_updates us m in (m', u # as)))"

definition push_unseen :: "todo_item \<Rightarrow> todo_item list \<Rightarrow> todo_item list" where
  "push_unseen t ts = (if td_id t \<in> td_id ` set ts then ts else ts @ [t])"

definition mergeTodos :: "todo_item list \<Rightarrow> todo_update list \<Rightarrow> todo_item list" where
  "mergeTodos existing updates =
     (let (byId, append) = apply_updates (dedupeById updates) (existing_by_id existing);
          current = (\<lambda>(i, t). case jget byId (todo_id (as_update t) i) of
                                Some c \<Rightarrow> c | None \<Rightarrow> normalizeTodoItem (as_update t) i);
          merged = fold push_unseen (map current (List.enumerate 0 existing)) []
      in fold push_unseen (map (\<lambda>(i, u). normalizeTodoItem u i) (List.enumerate (length merged) append)) merged)"

section \<open>The state of a session\<close>

datatype write_mode = Markdown | Structured

record last_write =
  lw_mode :: write_mode
  lw_merge :: bool
  lw_reason :: "string option"
  lw_addedCount :: nat
  lw_removedCount :: nat
  lw_changedCount :: nat
  lw_deletedOpenItemCount :: nat
  lw_largeRewrite :: bool
  lw_allCompleted :: bool

record todo_diagnostics =
  dx_writeCount :: nat
  dx_todoCount :: nat
  dx_activeCount :: nat
  dx_completedCount :: nat
  dx_cancelledCount :: nat
  dx_largeRewriteCount :: nat
  dx_deletedOpenItemCount :: nat
  dx_completedWithoutActiveCount :: nat
  dx_lastWrite :: "last_write option"

record history_entry =
  he_mode :: write_mode
  he_merge :: bool
  he_reason :: "string option"
  he_markdown :: "string option"
  he_todos :: "todo_item list"
  he_diagnostics :: todo_diagnostics

record plan_todo =
  pt_approvedPlan :: "string option"
  pt_requiresInitialization :: bool
  pt_toolCalls :: nat
  pt_lastMarkdown :: "string option"
  pt_todos :: "todo_item list"
  pt_history :: "history_entry list"
  pt_largeRewriteCount :: nat
  pt_deletedOpenItemCount :: nat
  pt_completedWithoutActiveCount :: nat
  pt_lastWrite :: "last_write option"

definition fresh_plan_todo :: plan_todo where
  "fresh_plan_todo = \<lparr>pt_approvedPlan = None, pt_requiresInitialization = False, pt_toolCalls = 0, pt_lastMarkdown = None,
     pt_todos = [], pt_history = [], pt_largeRewriteCount = 0, pt_deletedOpenItemCount = 0,
     pt_completedWithoutActiveCount = 0, pt_lastWrite = None\<rparr>"

definition buildTodoDiagnostics :: "plan_todo \<Rightarrow> todo_diagnostics" where
  "buildTodoDiagnostics s =
     \<lparr>dx_writeCount = length (pt_history s),
      dx_todoCount = length (pt_todos s),
      dx_activeCount = length (activeTodos (pt_todos s)),
      dx_completedCount = length (filter (\<lambda>t. td_status t = Completed) (pt_todos s)),
      dx_cancelledCount = length (filter (\<lambda>t. td_status t = Cancelled) (pt_todos s)),
      dx_largeRewriteCount = pt_largeRewriteCount s,
      dx_deletedOpenItemCount = pt_deletedOpenItemCount s,
      dx_completedWithoutActiveCount = pt_completedWithoutActiveCount s,
      dx_lastWrite = pt_lastWrite s\<rparr>"

definition by_id :: "todo_item list \<Rightarrow> (string \<times> todo_item) list" where
  "by_id ts = fold (\<lambda>t m. jset (td_id t) t m) ts []"

definition changed_todo :: "todo_item \<Rightarrow> todo_item \<Rightarrow> bool" where
  "changed_todo p t \<longleftrightarrow> td_content p \<noteq> td_content t \<or> td_status p \<noteq> td_status t \<or> td_priority p \<noteq> td_priority t"

definition write_summary ::
    "todo_item list \<Rightarrow> todo_item list \<Rightarrow> write_mode \<Rightarrow> bool \<Rightarrow> string option \<Rightarrow> last_write" where
  "write_summary previous nextTodos mode merge reason =
     (let previousById = by_id previous; nextById = by_id nextTodos;
          removed = filter (\<lambda>t. \<not> jhas nextById (td_id t)) previous;
          preserved = filter (\<lambda>t. jhas previousById (td_id t)) nextTodos
      in \<lparr>lw_mode = mode, lw_merge = merge, lw_reason = trimmed reason,
          lw_addedCount = length (filter (\<lambda>t. \<not> jhas previousById (td_id t)) nextTodos),
          lw_removedCount = length removed,
          lw_changedCount = length (filter (\<lambda>t. case jget previousById (td_id t) of
                                                 None \<Rightarrow> False | Some p \<Rightarrow> changed_todo p t) nextTodos),
          lw_deletedOpenItemCount = length (filter (\<lambda>t. open_status (td_status t)) removed),
          lw_largeRewrite = (previous \<noteq> [] \<and> nextTodos \<noteq> [] \<and> length preserved < (length previous + 1) div 2),
          lw_allCompleted = (nextTodos \<noteq> [] \<and> activeTodos nextTodos = []
             \<and> list_all (\<lambda>t. td_status t = Completed \<or> td_status t = Cancelled) nextTodos)\<rparr>)"

definition recordWrite ::
    "plan_todo \<Rightarrow> todo_item list \<Rightarrow> write_mode \<Rightarrow> bool \<Rightarrow> string option \<Rightarrow> string option \<Rightarrow> plan_todo" where
  "recordWrite s nextTodos mode merge markdown reason =
     (let lw = write_summary (pt_todos s) nextTodos mode merge reason;
          s1 = s\<lparr>pt_todos := nextTodos, pt_lastMarkdown := markdown, pt_requiresInitialization := False, pt_toolCalls := 0,
                 pt_largeRewriteCount := pt_largeRewriteCount s + (if lw_largeRewrite lw then 1 else 0),
                 pt_deletedOpenItemCount := pt_deletedOpenItemCount s + lw_deletedOpenItemCount lw,
                 pt_completedWithoutActiveCount := pt_completedWithoutActiveCount s
                   + (if lw_allCompleted lw \<and> activeTodos (pt_todos s) \<noteq> [] then 1 else 0),
                 pt_lastWrite := Some lw\<rparr>
      in s1\<lparr>pt_history := pt_history s1 @ [\<lparr>he_mode = mode, he_merge = merge, he_reason = trimmed reason,
             he_markdown = markdown, he_todos = nextTodos, he_diagnostics = buildTodoDiagnostics s1\<rparr>]\<rparr>)"

definition markPlanApproved :: "string \<Rightarrow> plan_todo \<Rightarrow> plan_todo" where
  "markPlanApproved plan s =
     fresh_plan_todo\<lparr>pt_approvedPlan := trimmed (Some plan), pt_requiresInitialization := trimmed (Some plan) \<noteq> None\<rparr>"

definition recordTodoWrite :: "string \<Rightarrow> todo_update list \<Rightarrow> string option \<Rightarrow> plan_todo \<Rightarrow> plan_todo" where
  "recordTodoWrite markdown us reason s = recordWrite s (replaceTodos us) Markdown False (Some markdown) reason"

definition writeTodos :: "todo_update list \<Rightarrow> string option \<Rightarrow> bool \<Rightarrow> string option \<Rightarrow> plan_todo \<Rightarrow> plan_todo" where
  "writeTodos us markdown merge reason s =
     recordWrite s (if merge then mergeTodos (pt_todos s) us else replaceTodos us) Structured merge markdown reason"

definition TODO_WRITE_TOOL_NAME :: string where
  "TODO_WRITE_TOOL_NAME = ''todo_write''"

definition markToolProgressChanged :: "string \<Rightarrow> plan_todo \<Rightarrow> plan_todo" where
  "markToolProgressChanged toolName s =
     (if pt_approvedPlan s = None \<or> toolName = TODO_WRITE_TOOL_NAME then s
      else if pt_requiresInitialization s then s
      else s\<lparr>pt_toolCalls := pt_toolCalls s + 1\<rparr>)"

datatype todo_addendum = MustInitialize | ReminderAfter nat

definition buildPromptAddendum :: "plan_todo \<Rightarrow> todo_addendum option" where
  "buildPromptAddendum s =
     (if pt_approvedPlan s = None then None
      else if pt_requiresInitialization s then Some MustInitialize
      else if 10 \<le> pt_toolCalls s then Some (ReminderAfter (pt_toolCalls s))
      else None)"

text \<open>Whether the call of a tool is blocked.\<close>

definition blockingMessageFor :: "plan_todo \<Rightarrow> string \<Rightarrow> bool \<Rightarrow> bool" where
  "blockingMessageFor s toolName isReadOnly =
     (if toolName = TODO_WRITE_TOOL_NAME \<or> isReadOnly then False else pt_requiresInitialization s)"

section \<open>What holds of every session\<close>

datatype todo_op =
    Approve string
  | WriteMarkdown string "todo_update list" "string option"
  | WriteStructured "todo_update list" "string option" bool "string option"
  | ToolRan string

fun apply_todo_op :: "plan_todo \<Rightarrow> todo_op \<Rightarrow> plan_todo" where
  "apply_todo_op s (Approve plan) = markPlanApproved plan s"
| "apply_todo_op s (WriteMarkdown markdown us reason) = recordTodoWrite markdown us reason s"
| "apply_todo_op s (WriteStructured us markdown merge reason) = writeTodos us markdown merge reason s"
| "apply_todo_op s (ToolRan n) = markToolProgressChanged n s"

definition session_todo :: "todo_op list \<Rightarrow> plan_todo" where
  "session_todo ops = foldl apply_todo_op fresh_plan_todo ops"

fun is_write :: "todo_op \<Rightarrow> bool" where
  "is_write (WriteMarkdown _ _ _) = True"
| "is_write (WriteStructured _ _ _ _) = True"
| "is_write _ = False"

fun approves :: "todo_op \<Rightarrow> bool" where
  "approves (Approve plan) = (trim plan \<noteq> [])"
| "approves _ = False"

fun is_approval :: "todo_op \<Rightarrow> bool" where
  "is_approval (Approve _) = True"
| "is_approval _ = False"

text \<open>The operations since the last approval, and whether that approval had a plan.\<close>

definition since_approval :: "todo_op list \<Rightarrow> todo_op list" where
  "since_approval ops = rev (takeWhile (\<lambda>p. \<not> is_approval p) (rev ops))"

definition plan_active :: "todo_op list \<Rightarrow> bool" where
  "plan_active ops = (case dropWhile (\<lambda>p. \<not> is_approval p) (rev ops) of [] \<Rightarrow> False | p # _ \<Rightarrow> approves p)"

definition todo_ok :: "plan_todo \<Rightarrow> bool" where
  "todo_ok s \<longleftrightarrow>
     (if pt_history s = [] then pt_todos s = [] else he_todos (last (pt_history s)) = pt_todos s)"

lemma status_partition:
  "length (activeTodos ts) + length (filter (\<lambda>t. td_status t = Completed) ts) + length (filter (\<lambda>t. td_status t = Cancelled) ts)
     = length ts"
proof (induction ts)
  case (Cons t ts)
  then show ?case by (cases "td_status t") (auto simp: activeTodos_def open_status_def)
qed (simp add: activeTodos_def)

lemma recordWrite_fields [simp]:
  "pt_requiresInitialization (recordWrite s ts m mg md r) = False"
  "pt_approvedPlan (recordWrite s ts m mg md r) = pt_approvedPlan s"
  "length (pt_history (recordWrite s ts m mg md r)) = Suc (length (pt_history s))"
  "pt_todos (recordWrite s ts m mg md r) = ts"
  "he_todos (last (pt_history (recordWrite s ts m mg md r))) = ts"
  by (simp_all add: recordWrite_def Let_def)

lemma todo_ok_write: "todo_ok (recordWrite s ts m mg md r)"
  using recordWrite_fields(3) [of s ts m mg md r] by (auto simp: todo_ok_def simp del: recordWrite_fields(3))

lemma todo_ok_op: "todo_ok s \<Longrightarrow> todo_ok (apply_todo_op s p)"
  by (cases p)
    (simp_all add: todo_ok_write recordTodoWrite_def writeTodos_def,
     simp_all add: todo_ok_def markPlanApproved_def fresh_plan_todo_def markToolProgressChanged_def)

lemma session_todo_snoc: "session_todo (ops @ [p]) = apply_todo_op (session_todo ops) p"
  by (simp add: session_todo_def)

definition gate_matches :: "todo_op list \<Rightarrow> plan_todo \<Rightarrow> bool" where
  "gate_matches ops s \<longleftrightarrow>
     pt_requiresInitialization s = (plan_active ops \<and> \<not> list_ex is_write (since_approval ops))
     \<and> (pt_approvedPlan s \<noteq> None) = plan_active ops
     \<and> length (pt_history s) = length (filter is_write (since_approval ops))"

lemma session_gate: "gate_matches ops (session_todo ops)"
proof (induction ops rule: rev_induct)
  case Nil
  then show ?case by (simp add: gate_matches_def session_todo_def fresh_plan_todo_def plan_active_def since_approval_def)
next
  case (snoc p ops)
  show ?case
  proof (cases p)
    case (Approve plan)
    then show ?thesis
      by (auto simp: gate_matches_def session_todo_snoc markPlanApproved_def fresh_plan_todo_def plan_active_def
          since_approval_def trimmed_def)
  qed (use snoc in \<open>auto simp: gate_matches_def session_todo_snoc recordTodoWrite_def writeTodos_def
        markToolProgressChanged_def plan_active_def since_approval_def\<close>)
qed

lemma session_todo_ok: "todo_ok (session_todo ops)"
proof (induction ops rule: rev_induct)
  case Nil
  then show ?case
    by (simp add: todo_ok_def session_todo_def fresh_plan_todo_def)
next
  case (snoc p ops)
  then show ?case by (simp add: session_todo_snoc todo_ok_op)
qed

text \<open>The todo gate is exact: after any sequence of approvals, todo writes and tool runs, a tool that is
  neither read-only nor the todo tool is blocked just when a plan is approved and no todo list has been written
  since; the writes counted are those since the last approval; open, completed and cancelled todos make up the
  list, which is the one the history ends with.\<close>

lemma todo_gate_exact:
  "blockingMessageFor (session_todo ops) toolName isReadOnly
     = (toolName \<noteq> ''todo_write'' \<and> \<not> isReadOnly \<and> plan_active ops \<and> \<not> list_ex is_write (since_approval ops))
   \<and> dx_writeCount (buildTodoDiagnostics (session_todo ops)) = length (filter is_write (since_approval ops))
   \<and> dx_activeCount (buildTodoDiagnostics (session_todo ops)) + dx_completedCount (buildTodoDiagnostics (session_todo ops))
       + dx_cancelledCount (buildTodoDiagnostics (session_todo ops)) = dx_todoCount (buildTodoDiagnostics (session_todo ops))
   \<and> todo_ok (session_todo ops)"
proof -
  have g: "gate_matches ops (session_todo ops)" by (rule session_gate)
  have "blockingMessageFor (session_todo ops) toolName isReadOnly
     = (toolName \<noteq> ''todo_write'' \<and> \<not> isReadOnly \<and> plan_active ops \<and> \<not> list_ex is_write (since_approval ops))"
    using g by (simp add: gate_matches_def blockingMessageFor_def TODO_WRITE_TOOL_NAME_def)
  moreover have "dx_writeCount (buildTodoDiagnostics (session_todo ops)) = length (filter is_write (since_approval ops))"
    using g by (simp add: gate_matches_def buildTodoDiagnostics_def)
  ultimately show ?thesis using session_todo_ok by (simp add: buildTodoDiagnostics_def status_partition)
qed

subsection \<open>Ids\<close>

lemma distinct_push: "distinct (map td_id ts) \<Longrightarrow> distinct (map td_id (push_unseen t ts))"
  by (auto simp: push_unseen_def)

lemma distinct_fold_push: "distinct (map td_id ts) \<Longrightarrow> distinct (map td_id (fold push_unseen us ts))"
  by (induction us arbitrary: ts) (auto simp: distinct_push)

lemma fold_push_ids: "td_id ` set (fold push_unseen us ts) = td_id ` set ts \<union> td_id ` set us"
  by (induction us arbitrary: ts) (auto simp: push_unseen_def)

text \<open>Merging keeps ids apart.\<close>

lemma merge_distinct: "distinct (map td_id (mergeTodos existing updates))"
  by (auto simp: mergeTodos_def Let_def split: prod.splits intro!: distinct_fold_push)

text \<open>Replacing does not: ids are made from the places after the repetitions are gone.\<close>

lemma replace_repeats_id:
  "\<exists>us. \<not> distinct (map td_id (replaceTodos us))"
proof
  let ?u = "\<lambda>i c. \<lparr>tu_id = i, tu_content = Some c, tu_status = None, tu_priority = None\<rparr>"
  show "\<not> distinct (map td_id (replaceTodos [?u (Some ''a'') ''x'', ?u (Some ''a'') ''y'', ?u None ''z'', ?u (Some ''todo-2'') ''w'']))"
    by code_simp
qed

text \<open>Merging drops a new todo without an id when the id made for it is taken.\<close>

lemma merge_drops_todo:
  "map td_content (mergeTodos [\<lparr>td_id = ''todo-2'', td_content = ''old'', td_status = Pending, td_priority = None\<rparr>]
      [\<lparr>tu_id = None, tu_content = Some ''new'', tu_status = None, tu_priority = None\<rparr>]) = [''old'']"
  by code_simp

end
