(* ===== verification/ToolExecution.thy ===== *)
theory ToolExecution
  imports Canonical ToolNames Hooks PlanTodo
begin

text \<open>
  One tool call from the model to the tool: \<open>tool/execution/ToolRuntime.ts\<close>, with the constraints of plan mode
  and ask mode. A run yields the result and the actions taken, in order: lifecycle dispatches, emitted events,
  audit records, the execution of the tool. Parameters (\<open>exec_world\<close>): what the abort signal, the hooks and the
  todo gate say at each of the points where the code looks, whether a shell command only reads
  (\<open>tool/builtin/bash\<close>), the collation of names, and what the tool yields. Times, messages, progress events and
  the metadata of results are left out; recorders, emitters and dispatches do not throw.
\<close>

section \<open>Modes\<close>

definition PLAN_MODE_ALLOWED_TOOLS :: "string list" where
  "PLAN_MODE_ALLOWED_TOOLS = [''read_file'', ''get_current_time'', ''grep'', ''glob'', ''web_search'', ''web_fetch'',
     ''ask_user_question'', ''todo_write'', ''exit_plan_mode'', ''read_skill'', ''structured_output'', ''agent'',
     ''bash'', ''task_list'', ''task_output'', ''task_wait'', ''write_file'', ''edit_file'']"

definition ASK_MODE_ALLOWED_TOOLS :: "string list" where
  "ASK_MODE_ALLOWED_TOOLS = [''read_file'', ''get_current_time'', ''grep'', ''glob'', ''web_search'', ''web_fetch'',
     ''ask_user_question'', ''read_skill'', ''structured_output'', ''agent'', ''execute_code'', ''bash'',
     ''task_list'', ''task_output'', ''task_wait'']"

record exec_context =
  xc_permissionMode :: permission_mode
  xc_permission :: permission_context
  xc_askRun :: bool
  xc_cwd :: string
  xc_planDirectory :: "string option"
  xc_toolAliases :: "(string \<times> string) list option"

text \<open>The points at which the code looks at the abort signal or the todo gate.\<close>

datatype look = AtStart | AtInput | AtUpdated | AtFinal | AtExecution

datatype tool_error_code =
    TeNotFound | TeUnavailable | TeInvalidInput | TePermissionDenied | TePermissionCancelled | TePermissionRequired
  | TeExecutionFailed | TeAborted | TePlanMode | TeAskMode | TeUnsupported | TeSetupRequired | TeOther string

record exec_world =
  ew_env :: decision_env
  ew_le :: "string \<Rightarrow> string \<Rightarrow> bool"
  ew_unitLe :: "string \<Rightarrow> string \<Rightarrow> bool"
  ew_aborted :: "look \<Rightarrow> bool"
  ew_preHooks :: "string \<Rightarrow> js_value \<Rightarrow> hook_effect list"
  ew_permissionHooks :: "string \<Rightarrow> js_value \<Rightarrow> permission_request \<Rightarrow> hook_effect list"
  ew_todoGate :: "look \<Rightarrow> string \<Rightarrow> bool \<Rightarrow> bool"
  ew_readOnlyShell :: "string \<Rightarrow> bool"
  ew_execute :: "string \<Rightarrow> js_value \<Rightarrow> permission_decision \<Rightarrow> tool_error_code + js_value"

definition string_property :: "js_value \<Rightarrow> string \<Rightarrow> string option" where
  "string_property input k = js_string (js_property input k)"

definition isPlanMarkdownPath :: "exec_world \<Rightarrow> exec_context \<Rightarrow> string option \<Rightarrow> bool" where
  "isPlanMarkdownPath w ctx filePath =
     (case (truthy_string filePath, truthy_string (xc_planDirectory ctx)) of
        (Some f, Some dir) \<Rightarrow>
          (let base = processCwd (env_host (ew_env w));
               absPath = resolve base (if isAbsolute f then f else resolve (resolve base (xc_cwd ctx)) f);
               rel = relative dir absPath
           in ends_with (toLowerCase absPath) ''.md''
              \<and> rel \<noteq> [] \<and> \<not> isAbsolute rel \<and> \<not> startsWith rel ''..'' \<and> \<not> startsWith rel ''../'')
      | _ \<Rightarrow> False)"

definition reads_only :: "exec_world \<Rightarrow> js_value \<Rightarrow> bool" where
  "reads_only w input = (case truthy_string (string_property input ''command'') of None \<Rightarrow> False | Some c \<Rightarrow> ew_readOnlyShell w c)"

definition getPlanModeViolation :: "exec_world \<Rightarrow> exec_context \<Rightarrow> string \<Rightarrow> js_value \<Rightarrow> bool" where
  "getPlanModeViolation w ctx toolName input =
     (if xc_permissionMode ctx \<noteq> ModePlan then False
      else if toolName \<notin> set PLAN_MODE_ALLOWED_TOOLS then True
      else if toolName = ''bash'' then \<not> reads_only w input
      else if toolName \<in> {''write_file'', ''edit_file''}
        then \<not> isPlanMarkdownPath w ctx (or_else (string_property input ''file_path'') (string_property input ''filePath''))
      else False)"

definition isAskModeAllowedTool :: "agent_tool \<Rightarrow> bool" where
  "isAskModeAllowedTool t =
     (if tool_kind t = ''mcp'' then isReadOnly t (JObject []) else tool_name t \<in> set ASK_MODE_ALLOWED_TOOLS)"

definition getAskModeViolation :: "exec_world \<Rightarrow> agent_tool \<Rightarrow> js_value \<Rightarrow> bool" where
  "getAskModeViolation w t input =
     (if \<not> isAskModeAllowedTool t then True
      else if tool_name t = ''bash'' then \<not> reads_only w input
      else \<not> isReadOnly t input \<and> tool_name t \<noteq> ''agent'')"

definition requiresPromptCapability :: "agent_tool \<Rightarrow> js_value \<Rightarrow> bool" where
  "requiresPromptCapability t input =
     (if tool_name t = ''enter_plan_mode'' then True
      else (case requiresUserInteraction t input of Some (Inr b) \<Rightarrow> b | _ \<Rightarrow> False))"

text \<open>\<open>checkInput\<close>: the error, if there is one.\<close>

definition checkInput :: "exec_world \<Rightarrow> exec_context \<Rightarrow> look \<Rightarrow> agent_tool \<Rightarrow> js_value \<Rightarrow> tool_error_code option" where
  "checkInput w ctx point t input =
     (if ew_aborted w point then Some TeAborted
      else if getPlanModeViolation w ctx (tool_name t) input then Some TePlanMode
      else if xc_askRun ctx \<and> getAskModeViolation w t input then Some TeAskMode
      else if isl (validateToolInput input (inputSchema t)) then Some TeInvalidInput
      else if \<not> pm_canPrompt (xc_permission ctx) \<and> requiresPromptCapability t input then Some TeUnsupported
      else None)"

text \<open>In plan mode the plan directory is one more workspace root.\<close>

definition withPlanDirectoryWorkspaceRoot :: "exec_world \<Rightarrow> exec_context \<Rightarrow> exec_context" where
  "withPlanDirectoryWorkspaceRoot w ctx =
     (case truthy_string (pm_planDirectory (xc_permission ctx)) of
        None \<Rightarrow> ctx
      | Some dir \<Rightarrow>
          if pm_mode (xc_permission ctx) \<noteq> ModePlan then ctx
          else
            (let base = processCwd (env_host (ew_env w)); root = resolve base dir;
                 roots = pm_directories (xc_permission ctx)
             in if list_ex (\<lambda>r. resolve base r = root) roots then ctx
                else ctx\<lparr>xc_permission := (xc_permission ctx)\<lparr>pm_directories := roots @ [root]\<rparr>\<rparr>))"

section \<open>Results and actions\<close>

datatype exec_result =
    ToolSuccess (er_callId: string) (er_toolName: string) js_value
  | ToolFailure (er_callId: string) (er_toolName: string) tool_error_code

datatype exec_action =
    Dispatch string js_value
  | Emit string
  | AuditPermission permission_decision
  | AuditTool "tool_error_code option"
  | Ran string js_value permission_decision
  | ProgressChanged string

text \<open>\<open>Inl\<close> is a throw.\<close>

type_synonym exec_outcome = "(unit + exec_result) \<times> exec_action list"

definition fail_call :: "exec_action list \<Rightarrow> string \<Rightarrow> string \<Rightarrow> tool_error_code \<Rightarrow> exec_outcome" where
  "fail_call acts callId toolName code = (Inr (ToolFailure callId toolName code), acts @ [AuditTool (Some code)])"

definition repair_targets :: "agent_tool list \<Rightarrow> repair_target list" where
  "repair_targets ts = map (\<lambda>t. \<lparr>rt_name = tool_name t, rt_aliases = aliases t\<rparr>) ts"

definition unavailable_targets :: "(diagnostic \<times> string list) list \<Rightarrow> repair_target list" where
  "unavailable_targets es = map (\<lambda>(d, as). \<lparr>rt_name = dg_toolName d, rt_aliases = as\<rparr>) es"

text \<open>The tool a name leads to, and the name it was repaired to.\<close>

definition resolveTool :: "exec_world \<Rightarrow> exec_context \<Rightarrow> registry \<Rightarrow> string \<Rightarrow> unit + (agent_tool option \<times> string option)" where
  "resolveTool w ctx reg name =
     (case get_tool reg name of
        Some t \<Rightarrow> Inr (Some t, None)
      | None \<Rightarrow>
          (case repairToolName name (repair_targets (list_tools (ew_le w) reg)) (xc_toolAliases ctx)
                  (unavailable_targets (listUnavailableEntries (ew_le w) (ew_unitLe w) reg)) of
             Inl e \<Rightarrow> Inl e
           | Inr None \<Rightarrow> Inr (None, None)
           | Inr (Some (n, _)) \<Rightarrow> Inr (get_tool reg n, Some n)))"

definition missing_tool :: "registry \<Rightarrow> string \<Rightarrow> string option \<Rightarrow> tool_error_code" where
  "missing_tool reg name repaired =
     (case getUnavailable reg (case repaired of Some n \<Rightarrow> n | None \<Rightarrow> name) of
        Some d \<Rightarrow> if dg_code d = SetupRequired then TeSetupRequired else TeUnavailable
      | None \<Rightarrow> TeNotFound)"

text \<open>The first effect of a kind.\<close>

fun first_block :: "hook_effect list \<Rightarrow> bool" where
  "first_block [] = False"
| "first_block (Block _ _ # es) = True"
| "first_block (_ # es) = first_block es"

fun first_permission :: "hook_effect list \<Rightarrow> permission_behavior option" where
  "first_permission [] = None"
| "first_permission (PermissionDecision b _ # es) = Some b"
| "first_permission (_ # es) = first_permission es"

fun first_updated_input :: "hook_effect list \<Rightarrow> js_value option" where
  "first_updated_input [] = None"
| "first_updated_input (UpdatedToolInput i # es) = Some i"
| "first_updated_input (_ # es) = first_updated_input es"

fun first_answer :: "hook_effect list \<Rightarrow> permission_answer option" where
  "first_answer [] = None"
| "first_answer (PermissionRequestResult a # es) = Some a"
| "first_answer (_ # es) = first_answer es"

definition hooks_refuse :: "hook_effect list \<Rightarrow> bool" where
  "hooks_refuse es \<longleftrightarrow> first_block es \<or> first_permission es = Some PbDeny"

text \<open>An ask may be answered by a \<open>PermissionRequest\<close> hook.\<close>

text \<open>The code of a denial: one about prompts asks for a permission. A hook's message says what it is about; the
  denials the runtime makes for its own reasons all are.\<close>

definition denial_code :: "string \<Rightarrow> permission_decision \<Rightarrow> hook_effect list \<Rightarrow> permission_decision \<Rightarrow> tool_error_code" where
  "denial_code toolName d0 es d =
     (if d \<noteq> Deny ByRuntime then TePermissionDenied
      else if d0 = d then TePermissionRequired
      else
        (case first_answer es of
           Some (AnswerDeny (Some m)) \<Rightarrow> if str_includes m ''prompt'' then TePermissionRequired else TePermissionDenied
         | _ \<Rightarrow> if str_includes (''PermissionRequest hook denied '' @ toolName @ ''.'') ''prompt''
                then TePermissionRequired else TePermissionDenied))"

definition answered :: "permission_decision \<Rightarrow> hook_effect list \<Rightarrow> permission_decision" where
  "answered d es =
     (case first_answer es of
        Some (AnswerAllow updated) \<Rightarrow> Allow ByRuntime updated
      | Some (AnswerDeny _) \<Rightarrow> Deny ByRuntime
      | None \<Rightarrow> d)"

section \<open>Executing a call\<close>

text \<open>The tool runs on the input with the decision; its exceptions become results.\<close>

definition run_tool :: "exec_world \<Rightarrow> exec_action list \<Rightarrow> string \<Rightarrow> agent_tool \<Rightarrow> js_value \<Rightarrow> permission_decision \<Rightarrow> exec_outcome" where
  "run_tool w acts callId t input d =
     (case ew_execute w (tool_name t) input d of
        Inr output \<Rightarrow>
          (Inr (ToolSuccess callId (tool_name t) output),
           acts @ [Ran (tool_name t) input d, Dispatch ''PostToolUse'' input, Emit ''post_tool_execute'']
           @ (if \<not> isReadOnly t input \<and> tool_name t \<noteq> TODO_WRITE_TOOL_NAME then [ProgressChanged (tool_name t)] else [])
           @ [AuditTool None])
      | Inl code \<Rightarrow>
          fail_call (acts @ [Ran (tool_name t) input d, Dispatch ''PostToolUseFailure'' input, Emit ''post_tool_execute''])
            callId (tool_name t) code)"

text \<open>From the decision on: the checks are made once more on the input that will run.\<close>

definition execute_allowed ::
    "exec_world \<Rightarrow> exec_context \<Rightarrow> bool \<Rightarrow> exec_action list \<Rightarrow> string \<Rightarrow> agent_tool \<Rightarrow> js_value \<Rightarrow> js_value option
      \<Rightarrow> permission_decision \<Rightarrow> exec_outcome" where
  "execute_allowed w ctx requireSafe acts callId t input updated d =
     (let x = (case updated of Some u \<Rightarrow> u | None \<Rightarrow> input); fail = fail_call acts callId (tool_name t)
      in case checkInput w ctx AtFinal t x of
           Some code \<Rightarrow> fail code
         | None \<Rightarrow>
             if updated \<noteq> None \<and> validateInput t x \<noteq> None then fail TeInvalidInput
             else if ew_todoGate w AtFinal (tool_name t) (isReadOnly t x) then fail TeExecutionFailed
             else if requireSafe \<and> isConcurrencySafe t x \<noteq> Inr True then fail TeExecutionFailed
             else if ew_aborted w AtExecution then fail TeAborted
             else run_tool w acts callId t x d)"

definition decide_and_execute ::
    "exec_world \<Rightarrow> exec_context \<Rightarrow> bool \<Rightarrow> exec_action list \<Rightarrow> string \<Rightarrow> agent_tool \<Rightarrow> js_value \<Rightarrow> exec_outcome" where
  "decide_and_execute w ctx requireSafe acts callId t input =
     (let d0 = decide (ew_env w) (tool_def.truncate t) input (xc_permission ctx) callId;
          answers = (case d0 of Ask reason req \<Rightarrow> ew_permissionHooks w (tool_name t) input req | _ \<Rightarrow> []);
          d = (case d0 of Ask reason req \<Rightarrow> answered d0 answers | _ \<Rightarrow> d0);
          acts1 = (case d0 of
                     Ask reason req \<Rightarrow> acts @ [Dispatch ''PermissionRequest'' input, Emit ''permission_requested'']
                   | _ \<Rightarrow> acts);
          acts2 = acts1 @ [AuditPermission d]
      in case d of
           Deny _ \<Rightarrow>
             fail_call (acts2 @ [Dispatch ''PermissionDenied'' input, Emit ''permission_denied'']) callId (tool_name t)
               (denial_code (tool_name t) d0 answers d)
         | Cancel _ \<Rightarrow> fail_call acts2 callId (tool_name t) TePermissionCancelled
         | Ask _ _ \<Rightarrow> fail_call acts2 callId (tool_name t) TePermissionRequired
         | Allow _ updated \<Rightarrow> execute_allowed w ctx requireSafe acts2 callId t input updated d)"

definition execute_tool ::
    "exec_world \<Rightarrow> exec_context \<Rightarrow> bool \<Rightarrow> string \<Rightarrow> agent_tool \<Rightarrow> js_value \<Rightarrow> exec_outcome" where
  "execute_tool w ctx requireSafe callId t input =
     (let fail = (\<lambda>acts. fail_call acts callId (tool_name t))
      in case checkInput w ctx AtInput t input of
           Some code \<Rightarrow> fail [] code
         | None \<Rightarrow>
             (let acts = [Dispatch ''PreToolUse'' input, Emit ''pre_tool_execute''];
                  effects = ew_preHooks w (tool_name t) input;
                  x = (case first_updated_input effects of Some u \<Rightarrow> u | None \<Rightarrow> input)
              in if hooks_refuse effects then fail acts TePermissionDenied
                 else
                   (case (if first_updated_input effects = None then None else checkInput w ctx AtUpdated t x) of
                      Some code \<Rightarrow> fail acts code
                    | None \<Rightarrow>
                        if validateInput t x \<noteq> None then fail acts TeInvalidInput
                        else if ew_todoGate w AtInput (tool_name t) (isReadOnly t x) then fail acts TeExecutionFailed
                        else decide_and_execute w ctx requireSafe acts callId t x)))"

definition tool_runtime_execute :: "exec_world \<Rightarrow> registry \<Rightarrow> exec_context \<Rightarrow> bool \<Rightarrow> tool_call \<Rightarrow> exec_outcome" where
  "tool_runtime_execute w reg ctx0 requireSafe call =
     (let ctx = withPlanDirectoryWorkspaceRoot w ctx0
      in case resolveTool w ctx reg (tc_name call) of
           Inl e \<Rightarrow> (Inl e, [])
         | Inr (tl', repaired) \<Rightarrow>
             if ew_aborted w AtStart
             then fail_call [] (tc_id call) (case tl' of Some t \<Rightarrow> tool_name t | None \<Rightarrow> tc_name call) TeAborted
             else
               (case tl' of
                  None \<Rightarrow> fail_call [] (tc_id call) (tc_name call) (missing_tool reg (tc_name call) repaired)
                | Some t \<Rightarrow> execute_tool w ctx requireSafe (tc_id call) t (tc_input call)))"

section \<open>What a run is made of\<close>

definition is_ran :: "exec_action \<Rightarrow> bool" where
  "is_ran a \<longleftrightarrow> (case a of Ran _ _ _ \<Rightarrow> True | _ \<Rightarrow> False)"

definition is_tool_audit :: "exec_action \<Rightarrow> bool" where
  "is_tool_audit a \<longleftrightarrow> (case a of AuditTool _ \<Rightarrow> True | _ \<Rightarrow> False)"

fun result_code :: "exec_result \<Rightarrow> tool_error_code option" where
  "result_code (ToolSuccess _ _ _) = None"
| "result_code (ToolFailure _ _ c) = Some c"

lemma is_ran_simps [simp]: "is_ran (Ran n x d)" "\<not> is_ran (Dispatch e x)" "\<not> is_ran (Emit e)" "\<not> is_ran (AuditPermission d)"
  "\<not> is_ran (AuditTool c)" "\<not> is_ran (ProgressChanged n)"
  by (simp_all add: is_ran_def)

lemma is_tool_audit_simps [simp]: "is_tool_audit (AuditTool c)" "\<not> is_tool_audit (Ran n x d)" "\<not> is_tool_audit (Dispatch e x)"
  "\<not> is_tool_audit (Emit e)" "\<not> is_tool_audit (AuditPermission d)" "\<not> is_tool_audit (ProgressChanged n)"
  by (simp_all add: is_tool_audit_def)

text \<open>A run of the call \<open>callId\<close> accounts for itself: one audit record, at the end, of the status of the result, and
  at most one execution, which a success needs.\<close>

definition accounted :: "string \<Rightarrow> exec_outcome \<Rightarrow> bool" where
  "accounted callId out \<longleftrightarrow>
     (case out of
        (Inl _, acts) \<Rightarrow> acts = []
      | (Inr r, acts) \<Rightarrow>
          er_callId r = callId
          \<and> filter is_tool_audit acts = [AuditTool (result_code r)] \<and> last acts = AuditTool (result_code r)
          \<and> (case r of ToolSuccess _ n _ \<Rightarrow> \<exists>x d. filter is_ran acts = [Ran n x d] | ToolFailure _ _ _ \<Rightarrow> length (filter is_ran acts) \<le> 1))"

definition quiet :: "exec_action list \<Rightarrow> bool" where
  "quiet acts \<longleftrightarrow> filter is_tool_audit acts = [] \<and> filter is_ran acts = []"

lemma quiet_Nil [simp]: "quiet []"
  by (simp add: quiet_def)

lemma quiet_snoc [simp]: "quiet (acts @ [a]) \<longleftrightarrow> quiet acts \<and> \<not> is_tool_audit a \<and> \<not> is_ran a"
  by (auto simp: quiet_def)

lemma quiet_append [simp]: "quiet (xs @ ys) \<longleftrightarrow> quiet xs \<and> quiet ys"
  by (auto simp: quiet_def)

lemma quiet_Cons [simp]: "quiet (a # ys) \<longleftrightarrow> \<not> is_tool_audit a \<and> \<not> is_ran a \<and> quiet ys"
  by (auto simp: quiet_def)

lemma accounted_fail [intro]: "quiet acts \<Longrightarrow> accounted callId (fail_call acts callId n c)"
  by (simp add: accounted_def fail_call_def quiet_def)

lemma accounted_run_tool: "quiet acts \<Longrightarrow> accounted callId (run_tool w acts callId t x d)"
  by (auto simp: run_tool_def accounted_def fail_call_def quiet_def split: sum.splits)

lemma accounted_allowed: "quiet acts \<Longrightarrow> accounted callId (execute_allowed w ctx rs acts callId t x u d)"
  by (auto simp: execute_allowed_def Let_def accounted_run_tool split: option.splits)

lemma accounted_decide: "quiet acts \<Longrightarrow> accounted callId (decide_and_execute w ctx rs acts callId t x)"
  by (auto simp: decide_and_execute_def Let_def intro!: accounted_allowed split: permission_decision.splits)

lemma accounted_execute_tool: "accounted callId (execute_tool w ctx rs callId t x)"
  by (auto simp: execute_tool_def Let_def intro!: accounted_decide split: option.splits)

section \<open>What has to hold for a tool to run\<close>

text \<open>The executions of a run: tool, input and decision, each after its permission record.\<close>

definition runs_of :: "exec_outcome \<Rightarrow> (string \<times> js_value \<times> permission_decision) set" where
  "runs_of out = {(n, x, d). Ran n x d \<in> set (snd out)}"

lemma runs_of_fail [simp]: "runs_of (fail_call acts callId n c) = {(n, x, d). Ran n x d \<in> set acts}"
  by (simp add: runs_of_def fail_call_def)

lemma quiet_no_run: "quiet acts \<Longrightarrow> {(n, x, d). Ran n x d \<in> set acts} = {}"
  by (auto simp: quiet_def filter_empty_conv)

definition modes_permit :: "exec_world \<Rightarrow> exec_context \<Rightarrow> agent_tool \<Rightarrow> js_value \<Rightarrow> bool" where
  "modes_permit w ctx t x \<longleftrightarrow>
     (if xc_permissionMode ctx = ModePlan then
        tool_name t \<in> set PLAN_MODE_ALLOWED_TOOLS
        \<and> (if tool_name t = ''bash'' then reads_only w x else True)
        \<and> (if tool_name t \<in> {''write_file'', ''edit_file''}
           then isPlanMarkdownPath w ctx (or_else (string_property x ''file_path'') (string_property x ''filePath'')) else True)
      else True)
     \<and> (if xc_askRun ctx then
          isAskModeAllowedTool t
          \<and> (if tool_name t = ''bash'' then reads_only w x else isReadOnly t x \<or> tool_name t = ''agent'')
        else True)"

lemma checkInput_None:
  assumes "checkInput w ctx point t x = None"
  shows "\<not> ew_aborted w point \<and> modes_permit w ctx t x \<and> validateToolInput x (inputSchema t) = Inr x"
  using assms
  by (auto simp: checkInput_def modes_permit_def getPlanModeViolation_def getAskModeViolation_def validateToolInput_def Let_def
      split: if_splits)

text \<open>The input that runs, and the decision it runs with.\<close>

definition final_input :: "js_value \<Rightarrow> permission_decision \<Rightarrow> js_value" where
  "final_input x d = (case d of Allow _ (Some u) \<Rightarrow> u | _ \<Rightarrow> x)"

definition final_decision :: "exec_world \<Rightarrow> exec_context \<Rightarrow> agent_tool \<Rightarrow> js_value \<Rightarrow> string \<Rightarrow> permission_decision" where
  "final_decision w ctx t x callId =
     (let d0 = decide (ew_env w) (tool_def.truncate t) x (xc_permission ctx) callId
      in case d0 of Ask reason req \<Rightarrow> answered d0 (ew_permissionHooks w (tool_name t) x req) | _ \<Rightarrow> d0)"

definition hooked_input :: "exec_world \<Rightarrow> agent_tool \<Rightarrow> js_value \<Rightarrow> js_value" where
  "hooked_input w t x = (case first_updated_input (ew_preHooks w (tool_name t) x) of Some u \<Rightarrow> u | None \<Rightarrow> x)"

definition may_run :: "exec_world \<Rightarrow> exec_context \<Rightarrow> bool \<Rightarrow> agent_tool \<Rightarrow> js_value \<Rightarrow> bool" where
  "may_run w ctx rs t x \<longleftrightarrow>
     validateToolInput x (inputSchema t) = Inr x \<and> modes_permit w ctx t x
     \<and> \<not> ew_aborted w AtFinal \<and> \<not> ew_aborted w AtExecution
     \<and> \<not> ew_todoGate w AtFinal (tool_name t) (isReadOnly t x)
     \<and> (if rs then isConcurrencySafe t x = Inr True else True)"

lemma runs_allowed:
  assumes "quiet acts" and "(n, y, e) \<in> runs_of (execute_allowed w ctx rs acts callId t x u d)"
  shows "n = tool_name t \<and> y = (case u of Some v \<Rightarrow> v | None \<Rightarrow> x) \<and> e = d \<and> may_run w ctx rs t y"
proof -
  let ?y = "case u of Some v \<Rightarrow> v | None \<Rightarrow> x"
  have none: "Ran n y e \<notin> set acts" using quiet_no_run [OF assms(1)] by blast
  have c: "checkInput w ctx AtFinal t ?y = None"
    using assms(2) none by (cases "checkInput w ctx AtFinal t ?y") (auto simp: execute_allowed_def Let_def)
  have g: "\<not> ew_todoGate w AtFinal (tool_name t) (isReadOnly t ?y)" "\<not> ew_aborted w AtExecution"
      "rs \<Longrightarrow> isConcurrencySafe t ?y = Inr True"
      "(n, y, e) \<in> runs_of (run_tool w acts callId t ?y d)"
    using assms(2) none by (auto simp: execute_allowed_def Let_def c split: if_splits)
  have "n = tool_name t \<and> y = ?y \<and> e = d"
    using g(4) none by (auto simp: run_tool_def runs_of_def fail_call_def split: sum.splits if_splits)
  then show ?thesis using checkInput_None [OF c] g(1-3) by (simp add: may_run_def)
qed

lemma runs_decide:
  assumes "quiet acts" and "(n, y, e) \<in> runs_of (decide_and_execute w ctx rs acts callId t x)"
  shows "n = tool_name t \<and> e = final_decision w ctx t x callId \<and> y = final_input x e \<and> may_run w ctx rs t y
     \<and> (\<exists>reason u. e = Allow reason u)"
proof -
  define d where "d = final_decision w ctx t x callId"
  define d0 where "d0 = decide (ew_env w) (tool_def.truncate t) x (xc_permission ctx) callId"
  define acts1 where "acts1 = (case d0 of
      Ask reason req \<Rightarrow> acts @ [Dispatch ''PermissionRequest'' x, Emit ''permission_requested''] | _ \<Rightarrow> acts)"
  have q: "quiet acts1" using assms(1) by (simp add: acts1_def split: permission_decision.split)
  then have none: "Ran n y e \<notin> set acts1" using quiet_no_run by blast
  have deq: "(case d0 of Ask reason req \<Rightarrow> answered d0 (case d0 of Ask reason req \<Rightarrow> ew_permissionHooks w (tool_name t) x req | _ \<Rightarrow> []) | _ \<Rightarrow> d0) = d"
    by (simp add: d_def d0_def final_decision_def Let_def split: permission_decision.split)
  obtain reason u where d: "d = Allow reason u"
    and r: "(n, y, e) \<in> runs_of (execute_allowed w ctx rs (acts1 @ [AuditPermission d]) callId t x u d)"
    using assms(2) none unfolding decide_and_execute_def Let_def d0_def [symmetric] deq acts1_def [symmetric]
    by (cases d) auto
  have "quiet (acts1 @ [AuditPermission d])" using q by simp
  from runs_allowed [OF this r] show ?thesis using d by (cases u) (auto simp: d_def [symmetric] final_input_def)
qed

lemma runs_execute_tool:
  assumes "(n, y, e) \<in> runs_of (execute_tool w ctx rs callId t x)"
  shows "n = tool_name t \<and> \<not> hooks_refuse (ew_preHooks w (tool_name t) x)
     \<and> e = final_decision w ctx t (hooked_input w t x) callId \<and> y = final_input (hooked_input w t x) e
     \<and> may_run w ctx rs t y \<and> (\<exists>reason u. e = Allow reason u)"
proof -
  let ?acts = "[Dispatch ''PreToolUse'' x, Emit ''pre_tool_execute'']"
  have "\<not> hooks_refuse (ew_preHooks w (tool_name t) x)
     \<and> (n, y, e) \<in> runs_of (decide_and_execute w ctx rs ?acts callId t (hooked_input w t x))"
    using assms by (auto simp: execute_tool_def Let_def hooked_input_def split: option.splits if_splits)
  moreover have "quiet ?acts" by simp
  ultimately show ?thesis using runs_decide [of ?acts n y e w ctx rs callId t "hooked_input w t x"] by blast
qed

lemma runs_runtime:
  assumes "(n, y, e) \<in> runs_of (tool_runtime_execute w reg ctx0 rs call)"
  shows "\<exists>t repaired. resolveTool w (withPlanDirectoryWorkspaceRoot w ctx0) reg (tc_name call) = Inr (Some t, repaired)
     \<and> \<not> ew_aborted w AtStart
     \<and> (n, y, e) \<in> runs_of (execute_tool w (withPlanDirectoryWorkspaceRoot w ctx0) rs (tc_id call) t (tc_input call))"
  using assms
  by (auto simp: tool_runtime_execute_def Let_def runs_of_def fail_call_def split: sum.splits prod.splits option.splits if_splits)

lemma resolveTool_registered:
  "resolveTool w ctx reg name = Inr (Some t, repaired) \<Longrightarrow> \<exists>k. get_tool reg k = Some t"
  by (auto simp: resolveTool_def split: option.splits sum.splits)

lemma withPlan_fields [simp]:
  "xc_permissionMode (withPlanDirectoryWorkspaceRoot w ctx) = xc_permissionMode ctx"
  "xc_askRun (withPlanDirectoryWorkspaceRoot w ctx) = xc_askRun ctx"
  "xc_cwd (withPlanDirectoryWorkspaceRoot w ctx) = xc_cwd ctx"
  "xc_planDirectory (withPlanDirectoryWorkspaceRoot w ctx) = xc_planDirectory ctx"
  "pm_rules (xc_permission (withPlanDirectoryWorkspaceRoot w ctx)) = pm_rules (xc_permission ctx)"
  by (auto simp: withPlanDirectoryWorkspaceRoot_def Let_def split: option.splits)

lemma modes_permit_withPlan [simp]: "modes_permit w (withPlanDirectoryWorkspaceRoot w' ctx) t x = modes_permit w ctx t x"
proof -
  have "isPlanMarkdownPath w (withPlanDirectoryWorkspaceRoot w' ctx) p = isPlanMarkdownPath w ctx p" for p
    by (simp add: isPlanMarkdownPath_def Let_def split: option.split)
  then show ?thesis by (simp add: modes_permit_def)
qed

lemma first_block_ex: "first_block es \<longleftrightarrow> list_ex is_block es"
  by (induction es rule: first_block.induct) (auto simp: is_block_def)

text \<open>C10. A tool runs only if everything allows it. Whenever a call makes a tool run on an input, the tool is a
  registered one; no \<open>PreToolUse\<close> hook blocked the call and the first permission decision among their effects, if
  there is one, is not a denial (a denial after it is not looked at); the input that runs (after hooks and permission answers changed it)
  satisfies the tool's schema and the restrictions of plan and ask mode, passed the todo gate and, in the pool,
  is safe to run beside others; the turn was not aborted; and the decision it runs with is an allow, the
  permission decision on the hooks' input or the answer of a permission hook to an ask.\<close>

theorem tool_runs_only_if_permitted:
  assumes "(n, y, d) \<in> runs_of (tool_runtime_execute w reg ctx0 requireSafe call)"
  shows "\<exists>t k x. get_tool reg k = Some t \<and> tool_name t = n
     \<and> \<not> list_ex is_block (ew_preHooks w n (tc_input call))
     \<and> first_permission (ew_preHooks w n (tc_input call)) \<noteq> Some PbDeny \<and> x = hooked_input w t (tc_input call)
     \<and> d = final_decision w (withPlanDirectoryWorkspaceRoot w ctx0) t x (tc_id call) \<and> (\<exists>reason u. d = Allow reason u)
     \<and> y = final_input x d
     \<and> validateToolInput y (inputSchema t) = Inr y \<and> modes_permit w ctx0 t y
     \<and> \<not> ew_todoGate w AtFinal n (isReadOnly t y) \<and> (if requireSafe then isConcurrencySafe t y = Inr True else True)
     \<and> \<not> ew_aborted w AtStart \<and> \<not> ew_aborted w AtExecution"
proof -
  obtain t repaired where t: "resolveTool w (withPlanDirectoryWorkspaceRoot w ctx0) reg (tc_name call) = Inr (Some t, repaired)"
      "\<not> ew_aborted w AtStart"
      "(n, y, d) \<in> runs_of (execute_tool w (withPlanDirectoryWorkspaceRoot w ctx0) requireSafe (tc_id call) t (tc_input call))"
    using runs_runtime [OF assms] by blast
  obtain k where "get_tool reg k = Some t" using resolveTool_registered [OF t(1)] by blast
  moreover have "\<not> list_ex is_block (ew_preHooks w (tool_name t) (tc_input call))"
      "first_permission (ew_preHooks w (tool_name t) (tc_input call)) \<noteq> Some PbDeny"
    using runs_execute_tool [OF t(3)] by (auto simp: hooks_refuse_def first_block_ex)
  moreover have n: "n = tool_name t" and "may_run w (withPlanDirectoryWorkspaceRoot w ctx0) requireSafe t y"
    using runs_execute_tool [OF t(3)] by blast+
  moreover from this(2) have "validateToolInput y (inputSchema t) = Inr y" "modes_permit w ctx0 t y" "\<not> ew_aborted w AtExecution"
      "\<not> ew_todoGate w AtFinal (tool_name t) (isReadOnly t y)" "if requireSafe then isConcurrencySafe t y = Inr True else True"
    unfolding may_run_def modes_permit_withPlan by blast+
  ultimately show ?thesis using runs_execute_tool [OF t(3)] t(2) unfolding n by blast
qed

text \<open>A policy denial cannot be circumvented: once a deny rule that is not the user's matches the call of a
  tool on the input the hooks leave, the tool does not run, whatever the mode, the other rules, the session
  grants, the permission hooks and the tool itself say.\<close>

lemma denied_call_never_runs:
  assumes "resolveTool w (withPlanDirectoryWorkspaceRoot w ctx0) reg (tc_name call) = Inr (Some t, repaired)"
    and "rules_deny (pm_rules (xc_permission ctx0)) = mergeUserRules target userRules"
    and "list_ex (\<lambda>r. matchPermissionRule (permission_env.truncate (ew_env w)) r (tool_name t) (hooked_input w t (tc_input call))
            (Some (xc_permission (withPlanDirectoryWorkspaceRoot w ctx0)))) (filter (\<lambda>r. rule_source r \<noteq> SUser) target)"
  shows "runs_of (tool_runtime_execute w reg ctx0 requireSafe call) = {}"
proof -
  let ?ctx = "withPlanDirectoryWorkspaceRoot w ctx0" and ?x = "hooked_input w t (tc_input call)"
  have name: "tool_name (tool_def.truncate t) = tool_name t" by (simp add: tool_def.truncate_def)
  obtain r where r: "findMatchingRule (ew_env w) (mergeUserRules target userRules) (tool_name t) ?x (xc_permission ?ctx) = Some r"
      "rule_source r \<noteq> SUser"
    using first_deny [of "ew_env w" "tool_def.truncate t" ?x "xc_permission ?ctx" target userRules] assms(3) name by auto
  then have "decide (ew_env w) (tool_def.truncate t) ?x (xc_permission ?ctx) (tc_id call) = Deny (ByRule BDeny r)"
    using assms(2) name by (auto simp: decide_def Let_def split: option.splits)
  then have "final_decision w ?ctx t ?x (tc_id call) = Deny (ByRule BDeny r)" by (simp add: final_decision_def)
  moreover have "final_decision w ?ctx t ?x (tc_id call) \<noteq> Deny (ByRule BDeny r)"
    if "z \<in> runs_of (tool_runtime_execute w reg ctx0 requireSafe call)" for z
  proof -
    obtain n y e where z: "z = (n, y, e)" by (cases z)
    have "(n, y, e) \<in> runs_of (tool_runtime_execute w reg ctx0 requireSafe call)" using that z by simp
    from runs_runtime [OF this] have "(n, y, e) \<in> runs_of (execute_tool w ?ctx requireSafe (tc_id call) t (tc_input call))"
      using assms(1) by auto
    then show ?thesis using runs_execute_tool by fastforce
  qed
  ultimately show ?thesis by blast
qed

text \<open>Every call accounts for itself: unless the repair of its name throws, the run ends with one audit record
  of the status of its result, under the call's id, and at most one tool ran: if it succeeds, the tool it names.\<close>

lemma every_call_accounted: "accounted (tc_id call) (tool_runtime_execute w reg ctx0 requireSafe call)"
proof -
  have "accounted (tc_id call) (Inl e, [])" for e by (simp add: accounted_def)
  moreover have "accounted (tc_id call) (fail_call [] (tc_id call) n c)" for n c by (rule accounted_fail) simp
  ultimately show ?thesis
    by (auto simp: tool_runtime_execute_def Let_def accounted_execute_tool split: sum.splits option.splits)
qed

subsection \<open>Hooks and the tool\<close>

definition hook_question :: "string \<Rightarrow> string \<Rightarrow> js_value \<Rightarrow> hook_input" where
  "hook_question event toolName input =
     \<lparr>hi_event = event, hi_matchQuery = Some toolName, hi_toolName = Some toolName, hi_toolInput = input\<rparr>"

text \<open>The world in which the hooks are those of the settings.\<close>

definition with_hooks :: "hook_matching \<Rightarrow> hook_world \<Rightarrow> hooks_settings \<Rightarrow> exec_world \<Rightarrow> exec_world" where
  "with_hooks mt hw settings w =
     w\<lparr>ew_preHooks := (\<lambda>n x. run_effects (hook_runtime_run mt hw settings [] (hook_question ''PreToolUse'' n x))),
       ew_permissionHooks := (\<lambda>n x req. run_effects (hook_runtime_run mt hw settings [] (hook_question ''PermissionRequest'' n x)))\<rparr>"

text \<open>A blocking hook stops the tool: if any of the \<open>PreToolUse\<close> hooks that match the tool and the input ends
  with exit code 2 or answers with a block, the tool does not run, whatever the other hooks say.\<close>

lemma blocking_hook_stops_tool:
  "runs_of (tool_runtime_execute (with_hooks mt hw settings w) reg ctx requireSafe call)
     \<inter> {(n, y, d). list_ex (\<lambda>x. blocks (snd x)) (executions hw 0 (matchHooks mt settings (hook_question ''PreToolUse'' n (tc_input call))))} = {}"
proof -
  have "\<not> list_ex (\<lambda>x. blocks (snd x)) (executions hw 0 (matchHooks mt settings (hook_question ''PreToolUse'' n (tc_input call))))"
    if run: "(n, y, d) \<in> runs_of (tool_runtime_execute (with_hooks mt hw settings w) reg ctx requireSafe call)" for n y d
  proof -
    obtain t where "(n, y, d) \<in> runs_of (execute_tool (with_hooks mt hw settings w)
        (withPlanDirectoryWorkspaceRoot (with_hooks mt hw settings w) ctx) requireSafe (tc_id call) t (tc_input call))"
      using runs_runtime [OF run] by blast
    from runs_execute_tool [OF this] have "\<not> hooks_refuse (ew_preHooks (with_hooks mt hw settings w) n (tc_input call))"
      by blast
    then show ?thesis by (simp add: hooks_refuse_def first_block_ex with_hooks_def run_blocks_iff)
  qed
  then show ?thesis by blast
qed

text \<open>A denial is heard only from the first hook that answers: an earlier answer of any kind hides it.\<close>

lemma later_denial_ignored:
  "\<not> hooks_refuse [PermissionDecision PbPassthrough None, PermissionDecision PbDeny (Some ''no'')]"
  by (simp add: hooks_refuse_def)

subsection \<open>Instances\<close>

definition example_tool :: agent_tool where
  "example_tool = \<lparr>tool_name = ''read_file'', tool_kind = ''filesystem'', isReadOnly = (\<lambda>_. True), checkPermissions = (\<lambda>_. None),
     aliases = [''read''], inputSchema = Schema (Some (OneType ''object'')) None None None None None,
     requiresUserInteraction = (\<lambda>_. None), isConcurrencySafe = (\<lambda>_. Inr True), validateInput = (\<lambda>_. None),
     checkAvailability = None\<rparr>"

definition example_world :: exec_world where
  "example_world = \<lparr>ew_env = example_env, ew_le = (\<lambda>_ _. True), ew_unitLe = (\<lambda>_ _. True), ew_aborted = (\<lambda>_. False),
     ew_preHooks = (\<lambda>_ _. []), ew_permissionHooks = (\<lambda>_ _ _. []), ew_todoGate = (\<lambda>_ _ _. False),
     ew_readOnlyShell = (\<lambda>_. False), ew_execute = (\<lambda>_ x _. Inr x)\<rparr>"

definition example_exec :: exec_context where
  "example_exec = \<lparr>xc_permissionMode = ModePlan, xc_permission = example_pm\<lparr>pm_mode := ModePlan\<rparr>, xc_askRun = True,
     xc_cwd = ''/w'', xc_planDirectory = Some ''/w/p'', xc_toolAliases = None\<rparr>"

definition example_call :: tool_call where
  "example_call = \<lparr>tc_id = ''c1'', tc_name = ''read'', tc_input = push_input, tc_raw = None\<rparr>"

theorem tool_runs_only_if_permitted_witness:
  "\<exists>t k. get_tool (publish new_registry example_tool) k = Some t \<and> tool_name t = ''read_file''
     \<and> modes_permit example_world example_exec t push_input"
proof -
  have "(''read_file'', push_input, Allow (ByMode ModePlan) None)
      \<in> runs_of (tool_runtime_execute example_world (publish new_registry example_tool) example_exec True example_call)"
    unfolding runs_of_def mem_Collect_eq split_conv by code_simp
  from tool_runs_only_if_permitted [OF this] show ?thesis by (auto simp: final_input_def)
qed

definition pushing_tool :: agent_tool where
  "pushing_tool = example_tool\<lparr>tool_name := ''bash'', aliases := []\<rparr>"

lemma denied_call_never_runs_witness:
  "runs_of (tool_runtime_execute example_world (publish new_registry pushing_tool) (example_exec\<lparr>xc_permission := example_pm\<rparr>) False
     (example_call\<lparr>tc_name := ''bash''\<rparr>)) = {}"
proof (rule denied_call_never_runs)
  show "resolveTool example_world (withPlanDirectoryWorkspaceRoot example_world (example_exec\<lparr>xc_permission := example_pm\<rparr>))
      (publish new_registry pushing_tool) (tc_name (example_call\<lparr>tc_name := ''bash''\<rparr>)) = Inr (Some pushing_tool, None)"
    by (simp add: resolveTool_def get_tool_def real_name_def publish_def new_registry_def pushing_tool_def example_tool_def
        example_call_def)
  show "rules_deny (pm_rules (xc_permission (example_exec\<lparr>xc_permission := example_pm\<rparr>))) = mergeUserRules [git_push_deny] None"
    by (simp add: example_exec_def example_pm_def)
  show "list_ex (\<lambda>r. matchPermissionRule (permission_env.truncate (ew_env example_world)) r (tool_name pushing_tool)
        (hooked_input example_world pushing_tool (tc_input (example_call\<lparr>tc_name := ''bash''\<rparr>)))
        (Some (xc_permission (withPlanDirectoryWorkspaceRoot example_world (example_exec\<lparr>xc_permission := example_pm\<rparr>)))))
      (filter (\<lambda>r. rule_source r \<noteq> SUser) [git_push_deny])"
    by code_simp
qed

end
