(* ===== verification/BashSafety.thy ===== *)
theory BashSafety
  imports PermissionRuntime
begin

text \<open>
  Which shell commands only read: \<open>tool/builtin/bash/permissions.ts\<close> and the commands of a script,
  \<open>parser.ts\<close>. The grammar (tree-sitter) is a parameter: \<open>parse\<close> gives the tree of a script and whether it has
  errors, \<open>None\<close> while the grammar is not loaded. A node has its type, whether it is named, its text, its children
  and which of them are its fields \<open>destination\<close> and \<open>body\<close>. The regular expressions of the two lists of
  dangerous commands are parameters of the classification.
\<close>

section \<open>Trees\<close>

datatype node = Node
  (nd_type: string)
  (nd_named: bool)
  (nd_text: string)
  (nd_destination: "nat option")
  (nd_body: "nat option")
  (nd_children: "node list")

type_synonym bash_parser = "string \<Rightarrow> (node \<times> bool) option"

definition field_child :: "node \<Rightarrow> nat option \<Rightarrow> node option" where
  "field_child n field = (case field of None \<Rightarrow> None | Some i \<Rightarrow> if i < length (nd_children n) then Some (nd_children n ! i) else None)"

text \<open>A node and everything below it, each with its parent, in the order of the text.\<close>

fun descend :: "node option \<Rightarrow> node \<Rightarrow> (node \<times> node option) list" where
  "descend p (Node t nm tx d b ch) = (Node t nm tx d b ch, p) # concat (map (descend (Some (Node t nm tx d b ch))) ch)"

section \<open>Words\<close>

text \<open>\<open>\(.)\<close> stands for its character, any one or only those given.\<close>

fun unescape :: "(char \<Rightarrow> bool) \<Rightarrow> string \<Rightarrow> string" where
  "unescape p (c # e # s) = (if c = CHR 0x5C \<and> p e then e # unescape p s else c # unescape p (e # s))"
| "unescape p s = s"

definition slice_quotes :: "string \<Rightarrow> string" where
  "slice_quotes s = butlast (tl s)"

fun join_words :: "string option list \<Rightarrow> string option" where
  "join_words [] = Some []"
| "join_words (None # ws) = None"
| "join_words (Some w # ws) = map_option (\<lambda>v. w @ v) (join_words ws)"

fun readLiteralWord :: "node \<Rightarrow> string option" where
  "readLiteralWord (Node t nm tx d b ch) =
     (if t = ''word'' then Some (unescape (\<lambda>_. True) tx)
      else if t = ''number'' then Some tx
      else if t = ''raw_string'' then Some (slice_quotes tx)
      else if t = ''string'' then
        join_words (map (\<lambda>c. if nd_type c = ''string_content''
                            then Some (unescape (\<lambda>e. e \<in> {CHR 0x5C, CHR 0x22, CHR 0x24, CHR 0x60}) (nd_text c)) else None)
          (filter nd_named ch))
      else if t = ''concatenation'' then join_words (map readLiteralWord (filter nd_named ch))
      else None)"

definition REDIRECT_NODES :: "string list" where
  "REDIRECT_NODES = [''file_redirect'', ''heredoc_redirect'', ''herestring_redirect'']"

text \<open>The words of a simple command; a word that depends on an expansion is \<open>None\<close>.\<close>

definition readCommandArgv :: "node \<Rightarrow> string option list" where
  "readCommandArgv command =
     map (\<lambda>c. if nd_type c = ''command_name''
              then (case filter nd_named (nd_children c) of [] \<Rightarrow> None | n # _ \<Rightarrow> readLiteralWord n)
              else readLiteralWord c)
       (filter (\<lambda>c. nd_type c \<noteq> ''variable_assignment'' \<and> nd_type c \<notin> set REDIRECT_NODES) (filter nd_named (nd_children command)))"

definition digits_or_dash :: "string \<Rightarrow> bool" where
  "digits_or_dash s \<longleftrightarrow> s = ''-'' \<or> (s \<noteq> [] \<and> list_all (\<lambda>c. let n = of_char c :: nat in 48 \<le> n \<and> n \<le> 57) s)"

definition isReadOnlyFileRedirect :: "node \<Rightarrow> bool" where
  "isReadOnlyFileRedirect r =
     (let operator = map_option nd_type (find (\<lambda>c. \<not> nd_named c) (nd_children r));
          target = (case field_child r (nd_destination r) of None \<Rightarrow> None | Some n \<Rightarrow> readLiteralWord n)
      in if operator = Some ''<'' \<or> target = Some ''/dev/null'' then True
         else operator \<in> {Some ''>&'', Some ''<&''} \<and> (case target of None \<Rightarrow> False | Some s \<Rightarrow> digits_or_dash s))"

section \<open>The walk over a script\<close>

definition READ_ONLY_SYNTAX_NODES :: "string list" where
  "READ_ONLY_SYNTAX_NODES = [''program'', ''list'', ''pipeline'', ''subshell'', ''compound_statement'', ''negated_command'',
     ''redirected_statement'', ''comment'', ''command'', ''command_name'', ''word'', ''number'', ''raw_string'', ''string'',
     ''string_content'', ''ansi_c_string'', ''concatenation'', ''simple_expansion'', ''expansion'', ''variable_name'',
     ''special_variable_name'', ''file_redirect'', ''file_descriptor'', ''heredoc_redirect'', ''heredoc_start'',
     ''heredoc_body'', ''heredoc_content'', ''heredoc_end'', ''herestring_redirect'']"

record shell_analysis =
  sa_commandTexts :: "string list"
  sa_argvs :: "string option list list"
  sa_readOnlySyntax :: bool

definition bashCommandSource :: "node \<times> node option \<Rightarrow> string" where
  "bashCommandSource np =
     trim (case snd np of Some p \<Rightarrow> if nd_type p = ''redirected_statement'' then nd_text p else nd_text (fst np)
           | None \<Rightarrow> nd_text (fst np))"

definition syntax_ok :: "node \<Rightarrow> bool" where
  "syntax_ok n \<longleftrightarrow>
     (if nd_named n then nd_type n \<in> set READ_ONLY_SYNTAX_NODES else nd_type n \<noteq> ''&'')
     \<and> (if nd_type n = ''file_redirect'' then isReadOnlyFileRedirect n else True)"

definition visit :: "node \<times> node option \<Rightarrow> shell_analysis \<Rightarrow> shell_analysis" where
  "visit np a =
     (let a1 = (if nd_type (fst np) = ''command''
                then a\<lparr>sa_commandTexts := sa_commandTexts a @ [bashCommandSource np],
                       sa_argvs := sa_argvs a @ [readCommandArgv (fst np)]\<rparr>
                else a)
      in if syntax_ok (fst np) then a1 else a1\<lparr>sa_readOnlySyntax := False\<rparr>)"

text \<open>The loop over the stack, whose top is the head of the list: the last child is visited first.\<close>

definition stack_size :: "(node \<times> node option) list \<Rightarrow> nat" where
  "stack_size st = sum_list (map (\<lambda>np. size (fst np)) st)"

lemma children_smaller: "stack_size (rev (map (\<lambda>c. (c, p)) (nd_children n))) < size n"
proof -
  have "sum_list (map size cs) \<le> size_list size cs" for cs :: "node list" by (induction cs) auto
  moreover have "size_list size (nd_children n) < size n" by (cases n) simp
  ultimately show ?thesis
    by (simp add: stack_size_def rev_map [symmetric] comp_def sum_list_rev) (meson le_less_trans)
qed

function walk :: "(node \<times> node option) list \<Rightarrow> shell_analysis \<Rightarrow> shell_analysis" where
  "walk [] a = a"
| "walk (np # st) a = walk (rev (map (\<lambda>c. (c, Some (fst np))) (nd_children (fst np))) @ st) (visit np a)"
  by pat_completeness auto
termination
proof (relation "measure (\<lambda>(st, a). stack_size st)", goal_cases)
  case (2 np st a)
  have "stack_size (xs @ ys) = stack_size xs + stack_size ys" for xs ys by (simp add: stack_size_def)
  then show ?case using children_smaller [of "Some (fst np)" "fst np"] by (simp add: stack_size_def)
qed simp

text \<open>\<open>/\\\r?\n/.test(command)\<close>\<close>

fun hasBashLineContinuation :: "string \<Rightarrow> bool" where
  "hasBashLineContinuation (a # b # s) =
     (a = CHR 0x5C \<and> (b = CHR 0x0A \<or> (b = CHR 0x0D \<and> (case s of c # _ \<Rightarrow> c = CHR 0x0A | [] \<Rightarrow> False)))
      \<or> hasBashLineContinuation (b # s))"
| "hasBashLineContinuation s = False"

definition analyzeShellCommand :: "bash_parser \<Rightarrow> string \<Rightarrow> shell_analysis option" where
  "analyzeShellCommand parse command =
     (case parse command of
        None \<Rightarrow> None
      | Some (rootNode, hasErr) \<Rightarrow>
          Some (walk [(rootNode, None)] \<lparr>sa_commandTexts = [], sa_argvs = [],
                  sa_readOnlySyntax = (\<not> hasErr \<and> \<not> hasBashLineContinuation command)\<rparr>))"

section \<open>Commands that only read\<close>

definition SIMPLE_READ_COMMANDS :: "string list" where
  "SIMPLE_READ_COMMANDS = [''cat'', ''date'', ''echo'', ''head'', ''ls'', ''printf'', ''pwd'', ''wc'', ''whoami'']"

definition WINDOWS_READ_COMMANDS :: "string list" where
  "WINDOWS_READ_COMMANDS = [''dir'', ''findstr'', ''get-childitem'', ''get-command'', ''get-content'', ''get-date'',
     ''get-item'', ''get-itemproperty'', ''get-location'', ''get-process'', ''resolve-path'', ''select-string'',
     ''test-path'', ''type'', ''where'']"

definition READ_ONLY_GIT_SUBCOMMANDS :: "string list" where
  "READ_ONLY_GIT_SUBCOMMANDS = [''diff'', ''log'', ''show'', ''status'']"

definition normalizeExecutableName :: "string \<Rightarrow> string" where
  "normalizeExecutableName s =
     (let l = toLowerCase s
      in if list_ex (\<lambda>e. ends_with l e) [''.exe'', ''.cmd'', ''.bat''] then take (length l - 4) l else l)"

definition git_unsafe :: "string \<Rightarrow> bool" where
  "git_unsafe arg \<longleftrightarrow>
     arg \<in> {''-C'', ''-c'', ''--config-env'', ''--exec-path'', ''--git-dir'', ''--work-tree''}
     \<or> list_ex (startsWith arg) [''-C'', ''-c'', ''--config-env='', ''--exec-path='', ''--git-dir='', ''--work-tree='']"

fun getGitSubcommand :: "string list \<Rightarrow> string option" where
  "getGitSubcommand [] = None"
| "getGitSubcommand (arg # args) =
     (if arg = ''--'' then None
      else if git_unsafe arg then None
      else if arg \<in> {''--namespace'', ''--super-prefix''} then
        (case args of [] \<Rightarrow> None | _ # rest \<Rightarrow> getGitSubcommand rest)
      else if startsWith arg ''--namespace='' \<or> startsWith arg ''--super-prefix='' then getGitSubcommand args
      else if startsWith arg ''-'' then getGitSubcommand args
      else Some (toLowerCase arg))"

definition FIND_MUTATING_OR_EXEC_ACTIONS :: "string list" where
  "FIND_MUTATING_OR_EXEC_ACTIONS = [''-delete'', ''-exec'', ''-execdir'', ''-ok'', ''-okdir'', ''-fls'', ''-fprint'',
     ''-fprint0'', ''-fprintf'']"

record token_state_sh =
  tk_tokens :: "string list"
  tk_current :: string
  tk_quote :: "char option"
  tk_escaped :: bool

definition pushCurrent :: "token_state_sh \<Rightarrow> token_state_sh" where
  "pushCurrent s = (if tk_current s = [] then s else s\<lparr>tk_tokens := tk_tokens s @ [tk_current s], tk_current := []\<rparr>)"

text \<open>One character and the one after it; \<open>None\<close> where the code gives up.\<close>

definition token_step :: "token_state_sh \<Rightarrow> char \<Rightarrow> char option \<Rightarrow> token_state_sh option" where
  "token_step s c nxt =
     (let add = s\<lparr>tk_current := tk_current s @ [c]\<rparr>; subst = (c = CHR 0x24 \<and> nxt = Some (CHR ''(''))
      in if tk_escaped s then Some (add\<lparr>tk_escaped := False\<rparr>)
         else
           (case tk_quote s of
              Some q \<Rightarrow>
                if c = q then Some (s\<lparr>tk_quote := None\<rparr>)
                else if q = CHR 0x22 \<and> (c = CHR 0x60 \<or> subst) then None
                else if c = CHR 0x5C \<and> q = CHR 0x22 then Some (s\<lparr>tk_escaped := True\<rparr>)
                else Some add
            | None \<Rightarrow>
                if c = CHR 0x27 \<or> c = CHR 0x22 then Some (s\<lparr>tk_quote := Some c\<rparr>)
                else if is_ws c then Some (pushCurrent s)
                else if c \<in> set ''|;&<>'' \<or> c = CHR 0x60 \<or> subst then None
                else if c = CHR 0x5C then Some (s\<lparr>tk_escaped := True\<rparr>)
                else Some add))"

fun token_loop :: "token_state_sh \<Rightarrow> string \<Rightarrow> token_state_sh option" where
  "token_loop s [] = Some s"
| "token_loop s (c # cs) =
     (case token_step s c (case cs of [] \<Rightarrow> None | d # _ \<Rightarrow> Some d) of None \<Rightarrow> None | Some s' \<Rightarrow> token_loop s' cs)"

definition tokenizeSimpleShell :: "string \<Rightarrow> string list option" where
  "tokenizeSimpleShell command =
     (case token_loop \<lparr>tk_tokens = [], tk_current = [], tk_quote = None, tk_escaped = False\<rparr> command of
        None \<Rightarrow> None
      | Some s \<Rightarrow> if tk_escaped s \<or> tk_quote s \<noteq> None then None else Some (tk_tokens (pushCurrent s)))"

text \<open>\<open>/\$\s*\(/\<close>\<close>

fun has_substitution :: "string \<Rightarrow> bool" where
  "has_substitution [] = False"
| "has_substitution (c # s) =
     ((c = CHR 0x24 \<and> (case dropWhile is_ws s of d # _ \<Rightarrow> d = CHR ''('' | [] \<Rightarrow> False)) \<or> has_substitution s)"

definition reads_by_name :: "string \<Rightarrow> bool" where
  "reads_by_name n \<longleftrightarrow> n \<in> set SIMPLE_READ_COMMANDS \<or> n \<in> set WINDOWS_READ_COMMANDS"

definition isReadOnlyPowerShellCommand :: "string list \<Rightarrow> bool" where
  "isReadOnlyPowerShellCommand tokens =
     (if tokens = [] then False
      else
        (let text = join '' '' tokens
         in if list_ex (\<lambda>c. c \<in> set ''{}|;&<>'' \<or> c \<in> {CHR 0x60, CHR 0x0D, CHR 0x0A}) text \<or> has_substitution text then False
            else
              (case tokenizeSimpleShell text of
                 Some (t # _) \<Rightarrow> reads_by_name (normalizeExecutableName t)
               | _ \<Rightarrow> False)))"

fun isReadOnlyPowerShellInvocation :: "string list \<Rightarrow> bool" where
  "isReadOnlyPowerShellInvocation [] = False"
| "isReadOnlyPowerShellInvocation (arg # args) =
     (let n = toLowerCase arg
      in if n \<in> {''-noprofile'', ''-noninteractive'', ''-nologo''} then isReadOnlyPowerShellInvocation args
         else if n \<in> {''-command'', ''-c''} then isReadOnlyPowerShellCommand args
         else if startsWith n ''-command:'' then isReadOnlyPowerShellCommand [drop (length ''-command:'') arg]
         else False)"

text \<open>\<open>/^exit\s+\d+$/\<close>\<close>

definition is_exit :: "string \<Rightarrow> bool" where
  "is_exit s \<longleftrightarrow>
     (let r = drop 4 s
      in startsWith s ''exit'' \<and> r \<noteq> [] \<and> is_ws (hd r) \<and> dropWhile is_ws r \<noteq> []
         \<and> list_all (\<lambda>c. let n = of_char c :: nat in 48 \<le> n \<and> n \<le> 57) (dropWhile is_ws r))"

definition literal_args_read_only :: "string \<Rightarrow> string list \<Rightarrow> bool" where
  "literal_args_read_only n args =
     (if n = ''git'' then
        (case getGitSubcommand args of
           None \<Rightarrow> False
         | Some sub \<Rightarrow> sub \<in> set READ_ONLY_GIT_SUBCOMMANDS \<and> \<not> list_ex (\<lambda>a. a = ''--output'' \<or> startsWith a ''--output='') args)
      else if n = ''powershell'' \<or> n = ''pwsh'' then isReadOnlyPowerShellInvocation args
      else if n = ''find'' then \<not> list_ex (\<lambda>a. a \<in> set FIND_MUTATING_OR_EXEC_ACTIONS) args
      else n = ''sh'' \<and> length args = 2 \<and> args ! 0 = ''-c'' \<and> is_exit (args ! 1))"

definition isReadOnlyArgv :: "string option list \<Rightarrow> bool" where
  "isReadOnlyArgv argv =
     (case argv of
        Some commandName # args \<Rightarrow>
          (let n = normalizeExecutableName commandName
           in if reads_by_name n then True
              else if list_ex (\<lambda>a. a = None) args then False
              else literal_args_read_only n (map the args))
      | _ \<Rightarrow> False)"

definition isReadOnlyAnalysis :: "shell_analysis \<Rightarrow> bool" where
  "isReadOnlyAnalysis a = (sa_readOnlySyntax a \<and> sa_argvs a \<noteq> [] \<and> list_all isReadOnlyArgv (sa_argvs a))"

definition isReadOnlyShellCommand :: "bash_parser \<Rightarrow> string \<Rightarrow> bool" where
  "isReadOnlyShellCommand parse command =
     (case analyzeShellCommand parse command of None \<Rightarrow> False | Some a \<Rightarrow> isReadOnlyAnalysis a)"

text \<open>The answer of the tool's own check.\<close>

definition askForShellPermission :: "string \<Rightarrow> permission_result" where
  "askForShellPermission command =
     Decided (Ask (ByTool ''bash'') \<lparr>req_toolCallId = [], req_toolName = ''bash'', req_inputSummary = command,
       req_reason = ByTool ''bash'', req_options = [AllowOnce, DenyOption, CancelOption]\<rparr>)"

definition classifyBashPermission ::
    "bash_parser \<Rightarrow> (string \<Rightarrow> bool) list \<Rightarrow> (string \<Rightarrow> bool) list \<Rightarrow> string \<Rightarrow> permission_result" where
  "classifyBashPermission parse hardDeny dangerousAsk command =
     (let analysis = analyzeShellCommand parse command;
          candidates = command # (case analysis of None \<Rightarrow> [] | Some a \<Rightarrow> sa_commandTexts a)
      in if list_ex (\<lambda>p. list_ex p candidates) hardDeny then Decided (Deny BySafety)
         else if list_ex (\<lambda>p. list_ex p candidates) dangerousAsk then askForShellPermission command
         else if (case analysis of None \<Rightarrow> False | Some a \<Rightarrow> isReadOnlyAnalysis a) then Passthrough
         else askForShellPermission command)"

text \<open>The commands of a script, the redirections that run without one included.\<close>

definition splitBashCommands :: "bash_parser \<Rightarrow> string \<Rightarrow> bash_commands option" where
  "splitBashCommands parse command =
     (case parse command of
        None \<Rightarrow> None
      | Some (rootNode, hasErr) \<Rightarrow>
          (let all = descend None rootNode;
               body_type = (\<lambda>n. map_option nd_type (field_child n (nd_body n)));
               parent_type = (\<lambda>p. map_option nd_type p)
           in Some \<lparr>commands =
                map bashCommandSource (filter (\<lambda>(n, p). nd_type n = ''command'') all)
                @ map (\<lambda>(n, p). trim (nd_text n))
                    (filter (\<lambda>(n, p). nd_type n = ''redirected_statement'' \<and> body_type n \<noteq> Some ''command'') all)
                @ map (\<lambda>(n, p). trim (nd_text n))
                    (filter (\<lambda>(n, p). nd_type n \<in> set REDIRECT_NODES \<and> parent_type p \<notin> {Some ''command'', Some ''redirected_statement''}) all),
              hasError = hasErr\<rparr>))"

section \<open>The walk sees every node\<close>

definition visited :: "(node \<times> node option) list \<Rightarrow> (node \<times> node option) list" where
  "visited st = concat (map (\<lambda>np. descend (snd np) (fst np)) st)"

lemma descend_unfold: "descend p n = (n, p) # concat (map (descend (Some n)) (nd_children n))"
  by (cases n) simp

lemma visited_simps [simp]:
  "visited [] = []" "visited (np # st) = descend (snd np) (fst np) @ visited st" "visited (st @ st') = visited st @ visited st'"
  by (simp_all add: visited_def)

lemma mset_visited_rev [simp]: "mset (visited (rev st)) = mset (visited st)"
  by (induction st) (simp_all add: union_commute)

text \<open>The loop is a pass over the nodes in some order.\<close>

lemma walk_order: "\<exists>nps. mset nps = mset (visited st) \<and> walk st a = fold visit nps a"
proof (induction st a rule: walk.induct)
  case (1 a)
  show ?case by (rule exI [of _ "[]"]) simp
next
  case (2 np st a)
  let ?ch = "map (\<lambda>c. (c, Some (fst np))) (nd_children (fst np))"
  obtain nps where n: "mset nps = mset (visited (rev ?ch @ st))" "walk (rev ?ch @ st) (visit np a) = fold visit nps (visit np a)"
    using 2 by blast
  have "visited ?ch = concat (map (descend (Some (fst np))) (nd_children (fst np)))"
    by (simp add: visited_def comp_def)
  then have "descend (snd np) (fst np) = np # visited ?ch" by (simp add: descend_unfold [of "snd np" "fst np"])
  then have "mset (np # nps) = mset (visited (np # st))" using n(1) by simp
  moreover have "walk (np # st) a = fold visit (np # nps) a" using n(2) by simp
  ultimately show ?case by blast
qed

lemma fold_visit:
  "sa_readOnlySyntax (fold visit nps a) = (sa_readOnlySyntax a \<and> list_all (\<lambda>np. syntax_ok (fst np)) nps)
   \<and> sa_argvs (fold visit nps a) = sa_argvs a @ map (\<lambda>np. readCommandArgv (fst np)) (filter (\<lambda>np. nd_type (fst np) = ''command'') nps)
   \<and> sa_commandTexts (fold visit nps a) = sa_commandTexts a @ map bashCommandSource (filter (\<lambda>np. nd_type (fst np) = ''command'') nps)"
  by (induction nps arbitrary: a) (auto simp: visit_def Let_def)

lemma walk_sees:
  "sa_readOnlySyntax (walk st a) = (sa_readOnlySyntax a \<and> (\<forall>np\<in>set (visited st). syntax_ok (fst np)))"
  "set (sa_argvs (walk st a)) = set (sa_argvs a) \<union> (\<lambda>np. readCommandArgv (fst np)) ` {np \<in> set (visited st). nd_type (fst np) = ''command''}"
proof -
  obtain nps where n: "mset nps = mset (visited st)" "walk st a = fold visit nps a" using walk_order by blast
  have s: "set nps = set (visited st)" using n(1) by (metis set_mset_mset)
  show "sa_readOnlySyntax (walk st a) = (sa_readOnlySyntax a \<and> (\<forall>np\<in>set (visited st). syntax_ok (fst np)))"
    by (simp add: n(2) fold_visit list_all_iff s)
  show "set (sa_argvs (walk st a)) = set (sa_argvs a) \<union> (\<lambda>np. readCommandArgv (fst np)) ` {np \<in> set (visited st). nd_type (fst np) = ''command''}"
    by (simp add: n(2) fold_visit s image_Un)
qed

text \<open>The parts of a script that decide whether it only reads.\<close>

definition script_nodes :: "node \<Rightarrow> node list" where
  "script_nodes rootNode = map fst (descend None rootNode)"

definition script_commands :: "node \<Rightarrow> node list" where
  "script_commands rootNode = filter (\<lambda>n. nd_type n = ''command'') (script_nodes rootNode)"

text \<open>The classification of shell commands misses nothing: a command only reads exactly if it parses without
  error or line continuation, every node of the tree, however deep, is of the read-only syntax, no background
  operator, and a file redirect only if it reads, discards or duplicates, and there is at least one simple
  command and each of them, nested ones included, is on the list of readers with arguments that do not write.\<close>

lemma read_only_shell_exact:
  "isReadOnlyShellCommand parse command =
     (case parse command of
        None \<Rightarrow> False
      | Some (rootNode, hasErr) \<Rightarrow>
          \<not> hasErr \<and> \<not> hasBashLineContinuation command
          \<and> list_all syntax_ok (script_nodes rootNode)
          \<and> script_commands rootNode \<noteq> [] \<and> list_all (\<lambda>c. isReadOnlyArgv (readCommandArgv c)) (script_commands rootNode))"
proof (cases "parse command")
  case None
  then show ?thesis by (simp add: isReadOnlyShellCommand_def analyzeShellCommand_def)
next
  case (Some t)
  obtain rootNode hasErr where t: "t = (rootNode, hasErr)" by fastforce
  define a0 where "a0 = \<lparr>sa_commandTexts = [], sa_argvs = [], sa_readOnlySyntax = (\<not> hasErr \<and> \<not> hasBashLineContinuation command)\<rparr>"
  define a where "a = walk [(rootNode, None)] a0"
  note w = walk_sees [of "[(rootNode, None)]" a0, folded a_def]
  have ro: "sa_readOnlySyntax a = (\<not> hasErr \<and> \<not> hasBashLineContinuation command \<and> list_all syntax_ok (script_nodes rootNode))"
    using w(1) by (simp add: script_nodes_def a0_def list_all_iff)
  have args: "set (sa_argvs a) = readCommandArgv ` set (script_commands rootNode)"
  proof -
    have "set (script_commands rootNode) = fst ` {np \<in> set (visited [(rootNode, None)]). nd_type (fst np) = ''command''}"
      by (auto simp: script_commands_def script_nodes_def)
    then show ?thesis using w(2) by (simp add: a0_def image_image)
  qed
  have "sa_argvs a = [] \<longleftrightarrow> script_commands rootNode = []" using args by (metis image_is_empty set_empty)
  moreover have "list_all isReadOnlyArgv (sa_argvs a) = list_all (\<lambda>c. isReadOnlyArgv (readCommandArgv c)) (script_commands rootNode)"
    using args by (simp add: list_all_iff)
  ultimately show ?thesis
    using ro Some by (auto simp: isReadOnlyShellCommand_def analyzeShellCommand_def isReadOnlyAnalysis_def t a0_def a_def)
qed

section \<open>What it means to only read\<close>

text \<open>The criterion the restricted modes are held to, apart from the lists of the code. The nodes of a tree at any depth.\<close>

inductive part_of :: "node \<Rightarrow> node \<Rightarrow> bool" where
  whole: "part_of n n"
| child: "c \<in> set (nd_children n) \<Longrightarrow> part_of m c \<Longrightarrow> part_of m n"

text \<open>A redirect that opens a file for writing: neither an input redirect, nor to the null device, nor one between
  descriptors.\<close>

definition writes_file :: "node \<Rightarrow> bool" where
  "writes_file r \<longleftrightarrow>
     (let operators = nd_type ` {c \<in> set (nd_children r). \<not> nd_named c};
          target = (case field_child r (nd_destination r) of None \<Rightarrow> None | Some n \<Rightarrow> readLiteralWord n)
      in nd_type r = ''file_redirect'' \<and> ''<'' \<notin> operators \<and> target \<noteq> Some ''/dev/null''
         \<and> (operators \<inter> {''>&'', ''<&''} = {}
            \<or> (case target of None \<Rightarrow> True | Some s \<Rightarrow> s \<noteq> ''-'' \<and> (s = [] \<or> \<not> set s \<subseteq> set ''0123456789''))))"

text \<open>A node that may run something else than the commands of the script, changes the shell, leaves the script in the
  background or writes a file.\<close>

definition has_effect :: "node \<Rightarrow> bool" where
  "has_effect n \<longleftrightarrow>
     (if nd_named n
      then nd_type n \<in> {''command_substitution'', ''process_substitution'', ''variable_assignment'', ''variable_assignments'',
             ''declaration_command'', ''unset_command'', ''function_definition'', ''arithmetic_expansion'', ''test_command'',
             ''if_statement'', ''while_statement'', ''for_statement'', ''c_style_for_statement'', ''case_statement''}
      else nd_type n = ''&'')
     \<or> writes_file n"

text \<open>The options before a subcommand of \<open>git\<close> that cannot run a program or move the repository.\<close>

inductive git_options :: "string list \<Rightarrow> bool" where
  no_option: "git_options []"
| switch: "startsWith a ''-'' \<Longrightarrow> a \<noteq> ''--'' \<Longrightarrow> \<not> startsWith a ''-C'' \<Longrightarrow> \<not> startsWith a ''-c''
    \<Longrightarrow> a \<notin> {''--config-env'', ''--exec-path'', ''--git-dir'', ''--work-tree''}
    \<Longrightarrow> \<not> startsWith a ''--config-env='' \<Longrightarrow> \<not> startsWith a ''--exec-path='' \<Longrightarrow> \<not> startsWith a ''--git-dir=''
    \<Longrightarrow> \<not> startsWith a ''--work-tree='' \<Longrightarrow> git_options as \<Longrightarrow> git_options (a # as)"
| valued: "a \<in> {''--namespace'', ''--super-prefix''} \<Longrightarrow> git_options as \<Longrightarrow> git_options (a # v # as)"

text \<open>The programs that show something and write no file, whatever their arguments.\<close>

definition showing_program :: "string \<Rightarrow> bool" where
  "showing_program n \<longleftrightarrow>
     n \<in> {''cat'', ''date'', ''echo'', ''head'', ''ls'', ''printf'', ''pwd'', ''wc'', ''whoami''}
     \<or> n \<in> {''dir'', ''findstr'', ''get-childitem'', ''get-command'', ''get-content'', ''get-date'', ''get-item'', ''get-itemproperty'',
            ''get-location'', ''get-process'', ''resolve-path'', ''select-string'', ''test-path'', ''type'', ''where''}"

text \<open>A name in lower case, without its extension on Windows.\<close>

definition program_name :: "string \<Rightarrow> string \<Rightarrow> bool" where
  "program_name w n \<longleftrightarrow> (\<exists>e\<in>{[], ''.exe'', ''.cmd'', ''.bat''}. toLowerCase w = n @ e)"

definition single_reader :: "string \<Rightarrow> bool" where
  "single_reader text \<longleftrightarrow>
     set text \<inter> set ''{}|;&<>'' = {} \<and> CHR 0x60 \<notin> set text \<and> CHR 0x0A \<notin> set text \<and> CHR 0x0D \<notin> set text
     \<and> (\<exists>w ws n. tokenizeSimpleShell text = Some (w # ws) \<and> program_name w n \<and> showing_program n)"

definition reading_call :: "string \<Rightarrow> string list \<Rightarrow> bool" where
  "reading_call n args \<longleftrightarrow>
     (n = ''git'' \<and> (\<exists>options sub rest. args = options @ sub # rest \<and> git_options options
        \<and> toLowerCase sub \<in> {''diff'', ''log'', ''show'', ''status''}
        \<and> (\<forall>a\<in>set args. a \<noteq> ''--output'' \<and> \<not> startsWith a ''--output='')))
     \<or> (n = ''find'' \<and> set args \<inter> {''-delete'', ''-exec'', ''-execdir'', ''-ok'', ''-okdir'', ''-fls'', ''-fprint'', ''-fprint0'', ''-fprintf''} = {})
     \<or> (n = ''sh'' \<and> (\<exists>blank digits. args = [''-c'', ''exit'' @ blank @ digits] \<and> blank \<noteq> [] \<and> digits \<noteq> []
          \<and> list_all is_ws blank \<and> set digits \<subseteq> set ''0123456789''))
     \<or> (n \<in> {''powershell'', ''pwsh''} \<and> (\<exists>switches command rest. args = switches @ command # rest
          \<and> (\<forall>s\<in>set switches. toLowerCase s \<in> {''-noprofile'', ''-noninteractive'', ''-nologo''})
          \<and> (toLowerCase command \<in> {''-command'', ''-c''} \<and> single_reader (join '' '' rest)
             \<or> startsWith (toLowerCase command) ''-command:'' \<and> single_reader (drop 9 command))))"

text \<open>The words of a simple command: its program is literal, and so are the arguments of all programs but those that only
  show something.\<close>

definition reading_words :: "string option list \<Rightarrow> bool" where
  "reading_words ws \<longleftrightarrow>
     (\<exists>w args n. ws = Some w # args \<and> program_name w n
        \<and> (showing_program n \<or> (\<exists>literals. args = map Some literals \<and> reading_call n literals)))"

definition reading_script :: "bash_parser \<Rightarrow> string \<Rightarrow> bool" where
  "reading_script parse c \<longleftrightarrow>
     (\<exists>rootNode. parse c = Some (rootNode, False) \<and> (\<forall>n. part_of n rootNode \<longrightarrow> \<not> has_effect n)
        \<and> (\<exists>n. part_of n rootNode \<and> nd_type n = ''command'')
        \<and> (\<forall>n. part_of n rootNode \<and> nd_type n = ''command'' \<longrightarrow> reading_words (readCommandArgv n)))"

lemma descend_nodes: "fst ` set (descend p n) = insert n (\<Union>c\<in>set (nd_children n). fst ` set (descend (Some n) c))"
  by (cases n) (simp add: image_UN)

lemma descend_part: "n \<in> fst ` set (descend p m) \<Longrightarrow> part_of n m"
proof (induction m arbitrary: p)
  case (Node t nm tx d b ch)
  then consider "n = Node t nm tx d b ch"
    | c where "c \<in> set ch" "n \<in> fst ` set (descend (Some (Node t nm tx d b ch)) c)"
    using descend_nodes [of p "Node t nm tx d b ch"] by auto
  then show ?case
  proof cases
    case 1
    then show ?thesis by (simp add: part_of.whole)
  next
    case 2
    have "c \<in> set (nd_children (Node t nm tx d b ch))" using 2(1) by simp
    then show ?thesis by (rule part_of.child) (rule Node.IH [OF 2])
  qed
qed

lemma part_descend: "part_of n m \<Longrightarrow> n \<in> fst ` set (descend p m)"
proof (induction arbitrary: p rule: part_of.induct)
  case (whole n)
  show ?case using descend_nodes [of p n] by blast
next
  case (child c n m)
  show ?case using descend_nodes [of p n] child by blast
qed

lemma part_of_nodes: "part_of n rootNode \<longleftrightarrow> n \<in> set (script_nodes rootNode)"
  using descend_part [of n None rootNode] part_descend [of n rootNode None] by (auto simp: script_nodes_def)

lemma digit_range: "48 \<le> n \<and> n \<le> 57 \<longleftrightarrow> n \<in> {48, 49, 50, 51, 52, 53, 54, 55, 56, 57 :: nat}"
  by (simp only: insert_iff empty_iff) presburger

lemma digit_char: "(48 \<le> (of_char c :: nat) \<and> (of_char c :: nat) \<le> 57) \<longleftrightarrow> c \<in> set ''0123456789''"
proof -
  have "{48, 49, 50, 51, 52, 53, 54, 55, 56, 57} = (of_char :: char \<Rightarrow> nat) ` set ''0123456789''" by simp
  then have "(of_char c :: nat) \<in> {48, 49, 50, 51, 52, 53, 54, 55, 56, 57} \<longleftrightarrow> (of_char c :: nat) \<in> of_char ` set ''0123456789''"
    by simp
  also have "\<dots> \<longleftrightarrow> c \<in> set ''0123456789''" by (rule inj_image_mem_iff) (simp add: inj_def)
  finally show ?thesis unfolding digit_range .
qed

lemma ends_with_split: "ends_with s e \<Longrightarrow> s = take (length s - length e) s @ e"
proof -
  assume "ends_with s e"
  then obtain zs where "rev s = rev e @ zs" by (auto simp: ends_with_def startsWith_def prefix_def)
  then have "s = rev zs @ e" by (metis rev_append rev_rev_ident)
  then show ?thesis by simp
qed

lemma digits_or_dash_set: "digits_or_dash s \<longleftrightarrow> s = ''-'' \<or> s \<noteq> [] \<and> set s \<subseteq> set ''0123456789''"
  unfolding digits_or_dash_def Let_def digit_char list_all_iff by blast

lemma redirect_reads: "isReadOnlyFileRedirect r \<Longrightarrow> \<not> writes_file r"
proof
  assume r: "isReadOnlyFileRedirect r" and w: "writes_file r"
  define operators where "operators = nd_type ` {c \<in> set (nd_children r). \<not> nd_named c}"
  define target where "target = (case field_child r (nd_destination r) of None \<Rightarrow> None | Some n \<Rightarrow> readLiteralWord n)"
  define first where "first = map_option nd_type (find (\<lambda>c. \<not> nd_named c) (nd_children r))"
  have first: "first = Some x \<Longrightarrow> x \<in> operators" for x
    unfolding first_def operators_def by (force simp: find_Some_iff in_set_conv_nth)
  have no: "''<'' \<notin> operators" "target \<noteq> Some ''/dev/null''"
      "operators \<inter> {''>&'', ''<&''} = {} \<or> (case target of None \<Rightarrow> True | Some s \<Rightarrow> \<not> digits_or_dash s)"
    using w unfolding writes_file_def Let_def operators_def [symmetric] target_def [symmetric] digits_or_dash_set
    by (auto split: option.splits)
  have "first \<noteq> Some ''<''" using first no(1) by blast
  then have "first \<in> {Some ''>&'', Some ''<&''}" "case target of None \<Rightarrow> False | Some s \<Rightarrow> digits_or_dash s"
    using r no(2) unfolding isReadOnlyFileRedirect_def Let_def first_def [symmetric] target_def [symmetric] by (simp_all split: if_splits)
  moreover from this(1) have "operators \<inter> {''>&'', ''<&''} \<noteq> {}" using first by blast
  ultimately show False using no(3) by (auto split: option.splits)
qed

lemma syntax_no_effect: "syntax_ok n \<Longrightarrow> \<not> has_effect n"
proof -
  assume s: "syntax_ok n"
  have "nd_named n \<Longrightarrow> nd_type n \<in> set READ_ONLY_SYNTAX_NODES" "\<not> nd_named n \<Longrightarrow> nd_type n \<noteq> ''&''"
    using s by (auto simp: syntax_ok_def split: if_splits)
  moreover have "\<not> writes_file n" using s redirect_reads [of n] by (auto simp: syntax_ok_def writes_file_def Let_def split: if_splits)
  ultimately show ?thesis unfolding has_effect_def READ_ONLY_SYNTAX_NODES_def by auto
qed

lemma program_name_normal: "program_name w (normalizeExecutableName w)"
proof (cases "list_ex (\<lambda>e. ends_with (toLowerCase w) e) [''.exe'', ''.cmd'', ''.bat'']")
  case True
  then obtain e where e: "e \<in> {''.exe'', ''.cmd'', ''.bat''}" "ends_with (toLowerCase w) e" by auto
  have "length e = 4" using e(1) by auto
  then have "toLowerCase w = take (length (toLowerCase w) - 4) (toLowerCase w) @ e" using ends_with_split [OF e(2)] by simp
  then show ?thesis using True e(1) unfolding program_name_def normalizeExecutableName_def Let_def by auto
next
  case False
  then show ?thesis unfolding program_name_def normalizeExecutableName_def Let_def by simp
qed

lemma showing_by_name: "reads_by_name n \<Longrightarrow> showing_program n"
  unfolding reads_by_name_def SIMPLE_READ_COMMANDS_def WINDOWS_READ_COMMANDS_def showing_program_def by simp

lemma namespace_dash: "startsWith a ''--namespace='' \<or> startsWith a ''--super-prefix='' \<Longrightarrow> startsWith a ''-''"
  by (cases a) (auto simp: startsWith_def)

lemma git_cases:
  assumes "getGitSubcommand (arg # args) = Some s"
  shows "arg \<noteq> ''--'' \<and> \<not> git_unsafe arg
    \<and> ((\<exists>v rest. arg \<in> {''--namespace'', ''--super-prefix''} \<and> args = v # rest \<and> getGitSubcommand rest = Some s)
       \<or> (arg \<notin> {''--namespace'', ''--super-prefix''} \<and> startsWith arg ''-'' \<and> getGitSubcommand args = Some s)
       \<or> s = toLowerCase arg)"
proof -
  have safe: "arg \<noteq> ''--''" "\<not> git_unsafe arg" using assms by (simp_all split: if_splits)
  show ?thesis
  proof (cases "arg \<in> {''--namespace'', ''--super-prefix''}")
    case True
    then show ?thesis using assms safe by (cases args) simp_all
  next
    case no: False
    show ?thesis
    proof (cases "startsWith arg ''--namespace='' \<or> startsWith arg ''--super-prefix='' \<or> startsWith arg ''-''")
      case True
      then have "startsWith arg ''-''" using namespace_dash by blast
      moreover have "getGitSubcommand args = Some s" using assms safe no True by (simp split: if_splits)
      ultimately show ?thesis using safe no by blast
    next
      case False
      then have "s = toLowerCase arg" using assms safe no by simp
      then show ?thesis using safe by blast
    qed
  qed
qed

lemma safe_switch: "startsWith a ''-'' \<Longrightarrow> a \<noteq> ''--'' \<Longrightarrow> \<not> git_unsafe a \<Longrightarrow> git_options as \<Longrightarrow> git_options (a # as)"
  by (rule git_options.switch) (simp_all add: git_unsafe_def)

lemma git_reads:
  "getGitSubcommand args = Some s \<Longrightarrow> \<exists>options sub rest. args = options @ sub # rest \<and> git_options options \<and> s = toLowerCase sub"
proof (induction "length args" arbitrary: args rule: less_induct)
  case less
  then obtain arg more where args: "args = arg # more" by (cases args) auto
  have safe: "arg \<noteq> ''--''" "\<not> git_unsafe arg" using git_cases less.prems args by blast+
  consider v rest where "arg \<in> {''--namespace'', ''--super-prefix''}" "more = v # rest" "getGitSubcommand rest = Some s"
    | "startsWith arg ''-''" "getGitSubcommand more = Some s" | "s = toLowerCase arg"
    using git_cases less.prems args by blast
  then show ?case
  proof cases
    case 1
    obtain options sub tail where o: "rest = options @ sub # tail" "git_options options" "s = toLowerCase sub"
      using less.hyps [of rest] 1(2,3) args by auto
    then show ?thesis using git_options.valued [OF 1(1) o(2), of v] args 1(2)
      by (intro exI [of _ "arg # v # options"] exI [of _ sub] exI [of _ tail]) simp
  next
    case 2
    obtain options sub tail where o: "more = options @ sub # tail" "git_options options" "s = toLowerCase sub"
      using less.hyps [of more] 2(2) args by auto
    then show ?thesis using safe_switch [OF 2(1) safe o(2)] args
      by (intro exI [of _ "arg # options"] exI [of _ sub] exI [of _ tail]) simp
  next
    case 3
    then show ?thesis using git_options.no_option args by (intro exI [of _ "[]"] exI [of _ arg] exI [of _ more]) simp
  qed
qed

lemma powershell_command_reads: "isReadOnlyPowerShellCommand ws \<Longrightarrow> single_reader (join '' '' ws)"
  unfolding isReadOnlyPowerShellCommand_def single_reader_def Let_def
  by (auto simp: list_ex_iff split: if_splits option.splits list.splits dest!: showing_by_name intro: program_name_normal)

lemma powershell_reads:
  "isReadOnlyPowerShellInvocation args \<Longrightarrow> \<exists>switches command rest. args = switches @ command # rest
     \<and> (\<forall>s\<in>set switches. toLowerCase s \<in> {''-noprofile'', ''-noninteractive'', ''-nologo''})
     \<and> (toLowerCase command \<in> {''-command'', ''-c''} \<and> single_reader (join '' '' rest)
        \<or> startsWith (toLowerCase command) ''-command:'' \<and> single_reader (drop 9 command))"
proof (induction args rule: isReadOnlyPowerShellInvocation.induct)
  case (2 arg args)
  show ?case
  proof (cases "toLowerCase arg \<in> {''-noprofile'', ''-noninteractive'', ''-nologo''}")
    case True
    then have "isReadOnlyPowerShellInvocation args" using 2(2) by (simp add: Let_def)
    from 2(1) [OF refl True this] obtain switches command rest where "args = switches @ command # rest"
        "\<forall>s\<in>set switches. toLowerCase s \<in> {''-noprofile'', ''-noninteractive'', ''-nologo''}"
        "toLowerCase command \<in> {''-command'', ''-c''} \<and> single_reader (join '' '' rest)
        \<or> startsWith (toLowerCase command) ''-command:'' \<and> single_reader (drop 9 command)" by blast
    then show ?thesis using True by (intro exI [of _ "arg # switches"] exI [of _ command] exI [of _ rest]) simp
  next
    case False
    then have "toLowerCase arg \<in> {''-command'', ''-c''} \<and> isReadOnlyPowerShellCommand args
        \<or> startsWith (toLowerCase arg) ''-command:'' \<and> isReadOnlyPowerShellCommand [drop 9 arg]"
    proof -
      have nine: "length ''-command:'' = 9" by simp
      show ?thesis using 2(2) False unfolding isReadOnlyPowerShellInvocation.simps nine Let_def by (auto split: if_splits)
    qed
    then show ?thesis using powershell_command_reads [of args] powershell_command_reads [of "[drop 9 arg]"]
      by (intro exI [of _ "[]"] exI [of _ arg] exI [of _ args]) auto
  qed
qed simp

lemma exit_reads:
  "is_exit e \<Longrightarrow> \<exists>blank digits. e = ''exit'' @ blank @ digits \<and> blank \<noteq> [] \<and> digits \<noteq> [] \<and> list_all is_ws blank
     \<and> set digits \<subseteq> set ''0123456789''"
proof -
  assume e: "is_exit e"
  define r where "r = drop 4 e"
  have "e = ''exit'' @ r" using e by (auto simp: is_exit_def r_def startsWith_def prefix_def Let_def)
  moreover have "r = takeWhile is_ws r @ dropWhile is_ws r" by simp
  moreover have parts: "r \<noteq> []" "is_ws (hd r)" "dropWhile is_ws r \<noteq> []" "list_all (\<lambda>c. c \<in> set ''0123456789'') (dropWhile is_ws r)"
    using e unfolding is_exit_def r_def [symmetric] Let_def digit_char by blast+
  moreover have "takeWhile is_ws r \<noteq> []" using parts(1,2) by (cases r) simp_all
  moreover have "set (dropWhile is_ws r) \<subseteq> set ''0123456789''" using parts(4) unfolding list_all_iff by blast
  moreover have "list_all is_ws (takeWhile is_ws r)" by (auto simp: list_all_iff dest: set_takeWhileD)
  ultimately show ?thesis
    by (intro exI [of _ "takeWhile is_ws r"] exI [of _ "dropWhile is_ws r"]) simp
qed

lemma find_reads: "\<not> list_ex (\<lambda>a. a \<in> set FIND_MUTATING_OR_EXEC_ACTIONS) args \<Longrightarrow> reading_call ''find'' args"
proof -
  assume "\<not> list_ex (\<lambda>a. a \<in> set FIND_MUTATING_OR_EXEC_ACTIONS) args"
  then have "set args \<inter> set FIND_MUTATING_OR_EXEC_ACTIONS = {}" unfolding list_ex_iff by blast
  then show ?thesis unfolding reading_call_def FIND_MUTATING_OR_EXEC_ACTIONS_def list.set by (intro disjI2 disjI1 conjI refl)
qed

lemma git_call_reads:
  "getGitSubcommand args = Some s \<Longrightarrow> s \<in> set READ_ONLY_GIT_SUBCOMMANDS
    \<Longrightarrow> \<not> list_ex (\<lambda>a. a = ''--output'' \<or> startsWith a ''--output='') args \<Longrightarrow> reading_call ''git'' args"
proof -
  assume g: "getGitSubcommand args = Some s" "s \<in> set READ_ONLY_GIT_SUBCOMMANDS"
    "\<not> list_ex (\<lambda>a. a = ''--output'' \<or> startsWith a ''--output='') args"
  have "\<forall>a\<in>set args. a \<noteq> ''--output'' \<and> \<not> startsWith a ''--output=''" using g(3) unfolding list_ex_iff by blast
  moreover have "s \<in> {''diff'', ''log'', ''show'', ''status''}" using g(2) unfolding READ_ONLY_GIT_SUBCOMMANDS_def list.set .
  moreover obtain options sub rest where "args = options @ sub # rest" "git_options options" "s = toLowerCase sub"
    using git_reads [OF g(1)] by blast
  ultimately have "\<exists>options sub rest. args = options @ sub # rest \<and> git_options options
        \<and> toLowerCase sub \<in> {''diff'', ''log'', ''show'', ''status''}
        \<and> (\<forall>a\<in>set args. a \<noteq> ''--output'' \<and> \<not> startsWith a ''--output='')"
    by (intro exI conjI) simp_all
  then show ?thesis unfolding reading_call_def by (intro disjI1 conjI refl)
qed

lemma literal_reads: "literal_args_read_only n args \<Longrightarrow> reading_call n args"
proof -
  assume l: "literal_args_read_only n args"
  consider (git) "n = ''git''" | (power) "n \<noteq> ''git''" "n \<in> {''powershell'', ''pwsh''}"
    | (find) "n = ''find''" | (sh) "n \<notin> {''git'', ''powershell'', ''pwsh'', ''find''}" by blast
  then show ?thesis
  proof cases
    case git
    then show ?thesis using l git_call_reads unfolding literal_args_read_only_def by (simp split: option.splits)
  next
    case power
    then have "isReadOnlyPowerShellInvocation args" using l by (simp add: literal_args_read_only_def)
    then show ?thesis unfolding reading_call_def by (intro disjI2 conjI power(2) powershell_reads)
  next
    case find
    then show ?thesis using l find_reads by (simp add: literal_args_read_only_def)
  next
    case sh
    then have s: "n = ''sh''" "length args = 2" "args ! 0 = ''-c''" "is_exit (args ! 1)"
      using l by (simp_all add: literal_args_read_only_def)
    then obtain e where e: "args = [''-c'', e]" "is_exit e"
      by (cases args; cases "tl args") (simp_all add: numeral_2_eq_2)
    have "\<exists>blank digits. args = [''-c'', ''exit'' @ blank @ digits] \<and> blank \<noteq> [] \<and> digits \<noteq> []
          \<and> list_all is_ws blank \<and> set digits \<subseteq> set ''0123456789''"
      using exit_reads [OF e(2)] unfolding e(1) by blast
    then show ?thesis using s(1) unfolding reading_call_def by (intro disjI2 disjI1 conjI)
  qed
qed

lemma argv_reads: "isReadOnlyArgv argv \<Longrightarrow> reading_words argv"
proof -
  assume a: "isReadOnlyArgv argv"
  then obtain w args where ws: "argv = Some w # args"
    by (auto simp: isReadOnlyArgv_def split: list.splits option.splits)
  define n where "n = normalizeExecutableName w"
  consider "reads_by_name n" | "\<not> list_ex (\<lambda>a. a = None) args" "literal_args_read_only n (map the args)"
    using a by (auto simp: ws isReadOnlyArgv_def n_def Let_def split: if_splits)
  then have "showing_program n \<or> (\<exists>literals. args = map Some literals \<and> reading_call n literals)"
  proof cases
    case 2
    have "args = map Some (map the args)" using 2(1) by (induction args) auto
    then show ?thesis using literal_reads [OF 2(2)] by blast
  qed (simp add: showing_by_name)
  then show ?thesis using ws program_name_normal [of w] unfolding reading_words_def n_def by blast
qed

text \<open>The classification only lets such scripts pass.\<close>

lemma classified_reads: "isReadOnlyShellCommand parse c \<Longrightarrow> reading_script parse c"
proof -
  assume "isReadOnlyShellCommand parse c"
  then obtain rootNode where r: "parse c = Some (rootNode, False)" "list_all syntax_ok (script_nodes rootNode)"
      "script_commands rootNode \<noteq> []" "list_all (\<lambda>k. isReadOnlyArgv (readCommandArgv k)) (script_commands rootNode)"
    unfolding read_only_shell_exact by (auto split: option.splits)
  have cmds: "n \<in> set (script_commands rootNode) \<longleftrightarrow> part_of n rootNode \<and> nd_type n = ''command''" for n
    by (auto simp: script_commands_def part_of_nodes)
  have "\<not> has_effect n" if "part_of n rootNode" for n
    using that r(2) syntax_no_effect unfolding part_of_nodes list_all_iff by blast
  moreover have "reading_words (readCommandArgv n)" if "part_of n rootNode" "nd_type n = ''command''" for n
    using that r(4) argv_reads cmds unfolding list_all_iff by blast
  moreover obtain n where "n \<in> set (script_commands rootNode)" using r(3) by (cases "script_commands rootNode") auto
  ultimately show ?thesis using r(1) cmds unfolding reading_script_def by blast
qed

text \<open>The comment on the list of readers does not hold of \<open>date\<close>, which sets the clock.\<close>

lemma date_sets_clock: "isReadOnlyArgv [Some ''date'', Some ''-s'', Some ''12:00'']"
  by code_simp

end
