(* ===== verification/LargeFileRepair.thy ===== *)
theory LargeFileRepair
  imports ToolResults
begin

text \<open>
  The repair of oversized file writes: \<open>agent/loop/LargeFileRepair.ts\<close>. The object counts its attempts before
  and after a first file exists and the truncated calls it answered; each of its entry points returns what the
  loop has to do, if anything.
\<close>

section \<open>State and decisions\<close>

datatype strip_mode = StripAssistant | StripErrorPair

datatype repair_decision =
    RepairContinue string string "strip_mode option" \<comment> \<open>prompt, purpose, strip\<close>
  | RepairStop string

record repair_context =
  rc_outputTruncated :: bool
  rc_repairedToolCalls :: bool
  rc_finishReason :: finish_reason

record repair_state =
  preDraftAttempts :: nat
  postDraftAttempts :: nat
  truncationRecoveries :: nat
  wroteFile :: bool
  pendingLargeFileRepair :: bool
  recentFilePaths :: "string list"

definition new_repair :: repair_state where
  "new_repair = \<lparr>preDraftAttempts = 0, postDraftAttempts = 0, truncationRecoveries = 0, wroteFile = False,
     pendingLargeFileRepair = False, recentFilePaths = []\<rparr>"

definition MAX_PRE_DRAFT_REPAIR_ATTEMPTS :: nat where "MAX_PRE_DRAFT_REPAIR_ATTEMPTS = 5"
definition MAX_POST_DRAFT_REPAIR_ATTEMPTS :: nat where "MAX_POST_DRAFT_REPAIR_ATTEMPTS = 5"
definition MAX_TRUNCATION_RECOVERIES :: nat where "MAX_TRUNCATION_RECOVERIES = 10"
definition LARGE_FILE_OUTPUT_RETRY_TOKENS :: nat where "LARGE_FILE_OUTPUT_RETRY_TOKENS = 16384"

definition REPAIR_WRITE_TOOLS :: "string list" where
  "REPAIR_WRITE_TOOLS = [''write_file'', ''edit_file'']"

definition INTERNAL_RECOVERY_HINT :: string where
  "INTERNAL_RECOVERY_HINT = ''INTERNAL RECOVERY HINT - not a user request. Continue the original task.''"

section \<open>Prompts\<close>

text \<open>\<open>lines.filter(Boolean).join("\n")\<close>\<close>

definition prompt_lines :: "string list \<Rightarrow> string" where
  "prompt_lines ls = join [CHR 0x0A] (filter (\<lambda>l. l \<noteq> []) ls)"

definition preDraftPrompt :: "nat \<Rightarrow> string" where
  "preDraftPrompt attempt =
     (let lastAttempt = (attempt \<ge> MAX_PRE_DRAFT_REPAIR_ATTEMPTS);
          maxLines = (if attempt \<le> 2 then 80 else if attempt \<le> 4 then 40 else 20 :: nat)
      in prompt_lines
       [INTERNAL_RECOVERY_HINT,
        [],
        ''The previous file write/edit attempt appears incomplete or invalid, likely because the model output was truncated. Recovery attempt ''
          @ show_nat attempt @ ''/'' @ show_nat MAX_PRE_DRAFT_REPAIR_ATTEMPTS @ ''.'',
        ''Use one small direct file tool call. Keep write_file content under '' @ show_nat maxLines @ '' lines.'',
        [],
        ''Recovery guidance:'',
        ''1. Continue the original task; do not treat this hint as a new user request.'',
        ''2. Provide the required tool parameters such as file_path and content.'',
        ''3. Create a minimal structurally valid skeleton first:'',
        ''   - HTML: doctype, head, minimal style, body with one section, closing tags.'',
        ''   - Code: imports, one function/class stub, exports if needed.'',
        ''   - Prose/report: title, first paragraph, and a clear continuation marker.'',
        ''4. After a file exists, extend it incrementally with focused edit_file calls.'',
        ''5. Do not attempt to generate the complete artifact in one oversized call.'',
        [],
        ''Prefer write_file for the initial skeleton. Avoid shell heredocs or echo for this recovery step.'',
        if lastAttempt then ''Final recovery attempt: write the smallest viable skeleton, even if it only establishes the file structure.'' else []])"

definition postDraftPrompt :: "string list \<Rightarrow> nat \<Rightarrow> string" where
  "postDraftPrompt filePaths attempt =
     (let fileText = (if filePaths \<noteq> []
            then ''Recent file path context for orientation only: '' @ join '', '' filePaths @ ''.''
            else ''A workspace draft already exists.'');
          lastAttempt = (attempt \<ge> MAX_POST_DRAFT_REPAIR_ATTEMPTS)
      in prompt_lines
       [INTERNAL_RECOVERY_HINT,
        [],
        fileText,
        [],
        ''Post-draft recovery attempt '' @ show_nat attempt @ ''/'' @ show_nat MAX_POST_DRAFT_REPAIR_ATTEMPTS
          @ '': continue the original task from the current workspace state.'',
        [],
        ''Recovery guidance:'',
        ''1. If current content matters, inspect the file first with read_file.'',
        ''2. Add or replace one small section at a time with edit_file; keep new content under 60 lines.'',
        ''3. Do not rewrite the whole file or regenerate from scratch.'',
        ''4. If you just wrote a script or generator, run it and verify the produced output before asking for clarification.'',
        ''5. Ask the user only for a real blocker that cannot be resolved from the workspace or the original task.'',
        [],
        ''Use a focused edit_file replacement or insertion point such as a continuation marker when available.'',
        if lastAttempt then ''Final recovery attempt: make one focused edit, run/verify if applicable, or explain the concrete blocker.'' else []])"

section \<open>What the results say\<close>

definition is_success :: "pd_result \<Rightarrow> bool" where
  "is_success r = (case pr_outcome r of PSuccess \<Rightarrow> True | PError _ _ \<Rightarrow> False)"

definition result_error :: "pd_result \<Rightarrow> (string \<times> string) option" where
  "result_error r = (case pr_outcome r of PSuccess \<Rightarrow> None | PError code msg \<Rightarrow> Some (code, msg))"

fun issue_code :: "js_value \<Rightarrow> string list" where
  "issue_code (JObject fs) = [case js_property (JObject fs) ''code'' of JString c \<Rightarrow> c | _ \<Rightarrow> []]"
| "issue_code _ = []"

text \<open>The codes of the issues a validation error lists; their paths are never read.\<close>

definition readIssues :: "pd_result \<Rightarrow> string list" where
  "readIssues r =
     (case pr_outcome r of
        PSuccess \<Rightarrow> []
      | PError _ _ \<Rightarrow> (case js_property (pr_details r) ''issues'' of JArray is \<Rightarrow> concat (map issue_code is) | _ \<Rightarrow> []))"

fun readResultFilePath :: "js_value \<Rightarrow> string option" where
  "readResultFilePath (JObject fs) =
     (case js_property (JObject fs) ''filePath'' of JString p \<Rightarrow> if p \<noteq> [] then Some p else None | _ \<Rightarrow> None)"
| "readResultFilePath _ = None"

definition looksLikeLargeFileError :: "string \<Rightarrow> bool" where
  "looksLikeLargeFileError msg =
     list_ex (str_includes (toLowerCase msg))
       [''output token'', ''truncated'', ''too large'', ''large file'', ''large artifact'', ''max_output'',
        ''missing required parameter `content`'', ''required parameter `content` is missing'']"

definition isSuccessfulFileWrite :: "pd_result \<Rightarrow> bool" where
  "isSuccessfulFileWrite r \<longleftrightarrow> is_success r \<and> pr_toolName r \<in> set REPAIR_WRITE_TOOLS"

definition hasPreDraftLargeFileRisk :: "pd_result list \<Rightarrow> repair_context \<Rightarrow> bool" where
  "hasPreDraftLargeFileRisk results ctx =
     list_ex (\<lambda>r. case result_error r of
         None \<Rightarrow> False
       | Some (code, msg) \<Rightarrow>
           if pr_toolName r \<notin> set REPAIR_WRITE_TOOLS then False
           else if pr_toolName r = ''write_file'' \<and> ''required'' \<in> set (readIssues r) then True
           else if rc_outputTruncated ctx \<and> ''required'' \<in> set (readIssues r) then True
           else looksLikeLargeFileError msg) results"

definition hasPostDraftRisk :: "pd_result list \<Rightarrow> repair_context \<Rightarrow> bool \<Rightarrow> bool" where
  "hasPostDraftRisk results ctx pending =
     (let evidence = rc_outputTruncated ctx \<or> rc_repairedToolCalls ctx \<or> rc_finishReason ctx = FinLength
      in list_ex (\<lambda>r. case result_error r of
         None \<Rightarrow> False
       | Some (code, msg) \<Rightarrow>
           if pr_toolName r \<notin> set REPAIR_WRITE_TOOLS then False
           else if code \<in> {''permission_denied'', ''permission_required'', ''permission_cancelled''} then False
           else pending \<or> evidence \<or> code = ''result_too_large'' \<or> looksLikeLargeFileError msg) results)"

section \<open>The operations\<close>

definition truncationRecovery :: "string \<Rightarrow> bool \<Rightarrow> repair_state \<Rightarrow> repair_decision" where
  "truncationRecovery purpose post s =
     (if post then RepairContinue (postDraftPrompt (recentFilePaths s) (postDraftAttempts s)) purpose (Some StripAssistant)
      else RepairContinue (preDraftPrompt (preDraftAttempts s + 1)) purpose (Some StripAssistant))"

definition tryPreDraft :: "string \<Rightarrow> strip_mode \<Rightarrow> repair_state \<Rightarrow> repair_decision \<times> repair_state" where
  "tryPreDraft purpose strip s =
     (if preDraftAttempts s \<ge> MAX_PRE_DRAFT_REPAIR_ATTEMPTS
      then (RepairStop (''Large file repair failed before any workspace file was created after ''
              @ show_nat (preDraftAttempts s) @ '' attempts.''), s)
      else (let s1 = s\<lparr>preDraftAttempts := preDraftAttempts s + 1\<rparr>
            in (RepairContinue (preDraftPrompt (preDraftAttempts s1)) purpose (Some strip), s1)))"

definition tryPostDraft :: "string \<Rightarrow> repair_state \<Rightarrow> repair_decision \<times> repair_state" where
  "tryPostDraft purpose s =
     (if postDraftAttempts s \<ge> MAX_POST_DRAFT_REPAIR_ATTEMPTS
      then (RepairStop (''Large file repair stopped after '' @ show_nat (postDraftAttempts s)
              @ '' post-draft attempts. A workspace file already exists; report the current file path and remaining gap.''), s)
      else (let s1 = s\<lparr>postDraftAttempts := postDraftAttempts s + 1\<rparr>
            in (RepairContinue (postDraftPrompt (recentFilePaths s1) (postDraftAttempts s1)) purpose None, s1)))"

definition record_write :: "repair_state \<Rightarrow> pd_result \<Rightarrow> repair_state" where
  "record_write s r =
     (if \<not> is_success r \<or> pr_toolName r \<notin> set REPAIR_WRITE_TOOLS then s
      else (let s1 = s\<lparr>wroteFile := True\<rparr>
            in case readResultFilePath (pr_data r) of
                 None \<Rightarrow> s1
               | Some p \<Rightarrow> s1\<lparr>recentFilePaths := take 5 (p # filter (\<lambda>q. q \<noteq> p) (recentFilePaths s1))\<rparr>))"

definition recordWrites :: "pd_result list \<Rightarrow> repair_state \<Rightarrow> repair_state" where
  "recordWrites results s = foldl record_write s results"

definition onInvalidToolInput :: "repair_state \<Rightarrow> repair_decision option \<times> repair_state" where
  "onInvalidToolInput s =
     (if \<not> pendingLargeFileRepair s then (None, s)
      else if wroteFile s then apfst Some (tryPostDraft ''large_file_invalid_input_after_write'' s)
      else apfst Some (tryPreDraft ''large_file_invalid_input'' StripErrorPair s))"

definition onNoToolCalls :: "repair_state \<Rightarrow> repair_decision option \<times> repair_state" where
  "onNoToolCalls s =
     (if \<not> pendingLargeFileRepair s \<or> wroteFile s then (None, s)
      else apfst Some (tryPreDraft ''large_file_no_tool_call'' StripAssistant s))"

definition analyzeToolResults :: "pd_result list \<Rightarrow> repair_context \<Rightarrow> repair_state \<Rightarrow> repair_decision option \<times> repair_state" where
  "analyzeToolResults results ctx s0 =
     (let s = recordWrites results s0
      in if wroteFile s then
           (if \<not> hasPostDraftRisk results ctx (pendingLargeFileRepair s) then
              (None, if list_all is_success results \<or> list_ex isSuccessfulFileWrite results
                     then s\<lparr>pendingLargeFileRepair := False\<rparr> else s)
            else apfst Some (tryPostDraft ''large_file_post_draft_repair'' (s\<lparr>pendingLargeFileRepair := True\<rparr>)))
         else if hasPreDraftLargeFileRisk results ctx then
           apfst Some (tryPreDraft ''large_file_pre_draft_repair'' StripErrorPair (s\<lparr>pendingLargeFileRepair := True\<rparr>))
         else (None, s))"

definition recoverFromRepairedTruncation :: "tool_call list \<Rightarrow> repair_state \<Rightarrow> repair_decision option \<times> repair_state" where
  "recoverFromRepairedTruncation calls s =
     (if \<not> list_ex (\<lambda>c. tc_name c \<in> set REPAIR_WRITE_TOOLS) calls then (None, s)
      else if truncationRecoveries s \<ge> MAX_TRUNCATION_RECOVERIES then (None, s)
      else (let s1 = s\<lparr>truncationRecoveries := truncationRecoveries s + 1, pendingLargeFileRepair := True\<rparr>
            in (Some (if wroteFile s1 then truncationRecovery ''large_file_repaired_truncation_after_write'' True s1
                      else truncationRecovery ''large_file_repaired_truncation'' False s1), s1)))"

section \<open>Every repair uses up an attempt\<close>

text \<open>The attempts that are left.\<close>

definition repairs_left :: "repair_state \<Rightarrow> nat" where
  "repairs_left s = (MAX_PRE_DRAFT_REPAIR_ATTEMPTS - preDraftAttempts s)
     + (MAX_POST_DRAFT_REPAIR_ATTEMPTS - postDraftAttempts s)
     + (MAX_TRUNCATION_RECOVERIES - truncationRecoveries s)"

definition is_continue :: "repair_decision option \<Rightarrow> bool" where
  "is_continue d = (case d of Some (RepairContinue _ _ _) \<Rightarrow> True | _ \<Rightarrow> False)"

definition repair_ok :: "repair_state \<Rightarrow> bool" where
  "repair_ok s \<longleftrightarrow> preDraftAttempts s \<le> MAX_PRE_DRAFT_REPAIR_ATTEMPTS
     \<and> postDraftAttempts s \<le> MAX_POST_DRAFT_REPAIR_ATTEMPTS \<and> truncationRecoveries s \<le> MAX_TRUNCATION_RECOVERIES
     \<and> distinct (recentFilePaths s) \<and> length (recentFilePaths s) \<le> 5"

named_theorems repair_simps \<open>the bounds and attempts of the repair\<close>

lemmas [repair_simps] = MAX_PRE_DRAFT_REPAIR_ATTEMPTS_def MAX_POST_DRAFT_REPAIR_ATTEMPTS_def
  MAX_TRUNCATION_RECOVERIES_def tryPreDraft_def tryPostDraft_def truncationRecovery_def Let_def

lemma record_write_fields [simp]:
  "preDraftAttempts (record_write s r) = preDraftAttempts s" "postDraftAttempts (record_write s r) = postDraftAttempts s"
  "truncationRecoveries (record_write s r) = truncationRecoveries s"
  by (auto simp: record_write_def Let_def split: option.splits)

lemma recordWrites_fields [simp]:
  "preDraftAttempts (recordWrites rs s) = preDraftAttempts s" "postDraftAttempts (recordWrites rs s) = postDraftAttempts s"
  "truncationRecoveries (recordWrites rs s) = truncationRecoveries s"
  unfolding recordWrites_def by (induction rs arbitrary: s) auto

lemma recordWrites_recent:
  "distinct (recentFilePaths s) \<and> length (recentFilePaths s) \<le> 5 \<Longrightarrow>
   distinct (recentFilePaths (recordWrites rs s)) \<and> length (recentFilePaths (recordWrites rs s)) \<le> 5"
  unfolding recordWrites_def
proof (induction rs arbitrary: s)
  case (Cons r rs)
  have "distinct (recentFilePaths (record_write s r)) \<and> length (recentFilePaths (record_write s r)) \<le> 5"
    using Cons.prems by (auto simp: record_write_def Let_def distinct_take split: option.splits dest: in_set_takeD)
  then show ?case using Cons.IH by simp
qed simp

text \<open>An entry point asks for another model call only at the price of an attempt.\<close>

definition costs_attempt :: "repair_state \<Rightarrow> repair_decision option \<times> repair_state \<Rightarrow> bool" where
  "costs_attempt s out \<longleftrightarrow>
     (if is_continue (fst out) then repairs_left (snd out) < repairs_left s else repairs_left (snd out) = repairs_left s)"

lemma onInvalidToolInput_cost: "costs_attempt s (onInvalidToolInput s)"
  by (auto simp: costs_attempt_def onInvalidToolInput_def repairs_left_def is_continue_def repair_simps)

lemma onNoToolCalls_cost: "costs_attempt s (onNoToolCalls s)"
  by (auto simp: costs_attempt_def onNoToolCalls_def repairs_left_def is_continue_def repair_simps)

lemma recover_cost: "costs_attempt s (recoverFromRepairedTruncation calls s)"
  by (auto simp: costs_attempt_def recoverFromRepairedTruncation_def repairs_left_def is_continue_def repair_simps)

lemma analyze_cost: "costs_attempt s (analyzeToolResults rs ctx s)"
  by (auto simp: costs_attempt_def analyzeToolResults_def repairs_left_def is_continue_def repair_simps)

text \<open>The counters stay within their limits.\<close>

lemma repair_ok_ops:
  assumes "repair_ok s"
  shows "repair_ok (snd (onInvalidToolInput s))" "repair_ok (snd (onNoToolCalls s))"
    "repair_ok (snd (recoverFromRepairedTruncation calls s))" "repair_ok (snd (analyzeToolResults rs ctx s))"
  using assms recordWrites_recent [of s rs]
  by (auto simp: repair_ok_def onInvalidToolInput_def onNoToolCalls_def recoverFromRepairedTruncation_def analyzeToolResults_def repair_simps)

lemma new_repair_ok [simp]: "repair_ok new_repair"
  by (simp add: repair_ok_def new_repair_def)

end
