(* ===== verification/LoopMessages.thy ===== *)
theory LoopMessages
  imports LargeFileRepair Paths
begin

text \<open>
  What the agent loop computes from messages and results: the helpers at the end of \<open>agent/loop/AgentLoop.ts\<close>.
\<close>

section \<open>Text\<close>

fun block_text :: "block \<Rightarrow> string list" where
  "block_text (TextB t _) = [t]"
| "block_text _ = []"

definition textFromMessage :: "message \<Rightarrow> string" where
  "textFromMessage m = join [CHR 0x0A] (concat (map block_text (content m)))"

fun isThinking :: "block \<Rightarrow> bool" where
  "isThinking (ThinkingB _) = True"
| "isThinking _ = False"

definition withoutThinkingBlocks :: "message \<Rightarrow> message" where
  "withoutThinkingBlocks m = m\<lparr>content := filter (\<lambda>b. \<not> isThinking b) (content m)\<rparr>"

definition safeFinalTextMessage :: "message \<Rightarrow> tool_call list \<Rightarrow> message option" where
  "safeFinalTextMessage m calls =
     (if calls \<noteq> [] then None
      else (let textMessage = withoutThinkingBlocks m
            in if trim (textFromMessage textMessage) \<noteq> [] then Some textMessage else None))"

section \<open>Prompts of the recovery\<close>

definition buildStreamInterruptionRecoveryPrompt :: "interruption \<Rightarrow> string" where
  "buildStreamInterruptionRecoveryPrompt i =
     (case i of
        InToolCall active \<Rightarrow>
          (let tools = map (\<lambda>(ident, name, n). if name = [] then ''unknown'' else name) active;
               toolLabel = (if tools \<noteq> [] then '' ('' @ join '', '' (take 3 tools) @ '')'' else [])
           in join [CHR 0x0A]
             [''The previous model stream disconnected while generating a tool call'' @ toolLabel @ ''. No incomplete tool call was executed.'',
              ''Continue the original task from the current workspace state. Inspect relevant files before writing.'',
              ''Do not retry the same large atomic write. Create or extend the artifact through small focused write_file or edit_file calls, keeping each tool call well under 8K output tokens.''])
      | InReasoning \<Rightarrow>
          ''The previous model stream disconnected during reasoning. Continue the original task directly from the current workspace state; do not repeat analysis or recap.''
      | InText \<Rightarrow>
          ''The previous model stream disconnected mid-response. Continue exactly where the visible response ended; do not repeat prior text or recap.''
      | InNothing \<Rightarrow>
          ''The previous model stream disconnected before producing a response. Continue the original task directly from the current workspace state.'')"

definition buildUnknownFinishRecoveryPrompt :: "tool_call list \<Rightarrow> string" where
  "buildUnknownFinishRecoveryPrompt calls =
     (if calls \<noteq> [] then
        join [CHR 0x0A]
          [''The previous response ended without a recognized finish reason after generating tool calls. No tool call was executed.'',
           ''Continue the original task from the current workspace state. Inspect relevant files before acting.'',
           ''Do not repeat the same large atomic write. Use small focused write_file or edit_file calls.'']
      else ''The previous response ended without a recognized finish reason. Continue exactly where the visible response ended; do not repeat prior text or recap.'')"

definition CIRCUIT_BREAKER_GRACE_PROMPT :: string where
  "CIRCUIT_BREAKER_GRACE_PROMPT = join '' ''
     [''Your last several tool calls all failed input validation with the same error.'',
      ''This may indicate a tool-side issue rather than a problem with your approach.'',
      ''Options: (1) try a different tool or different parameters,'',
      ''(2) explain the situation in text without calling tools,'',
      ''(3) if you believe the tool should work, try once more with corrected input.'']"

section \<open>Errors of the model\<close>

definition is_word_char :: "char \<Rightarrow> bool" where
  "is_word_char c \<longleftrightarrow> (let n = of_char c :: nat in (48 \<le> n \<and> n \<le> 57) \<or> (65 \<le> n \<and> n \<le> 90) \<or> n = 95 \<or> (97 \<le> n \<and> n \<le> 122))"

text \<open>\<open>/\bw\b/i\<close> for a word in small letters, given whether the character in front is one of a word.\<close>

fun has_word :: "bool \<Rightarrow> string \<Rightarrow> string \<Rightarrow> bool" where
  "has_word inside w [] = False"
| "has_word inside w (c # s) =
     ((\<not> inside \<and> prefix w (toLowerCase (c # s))
        \<and> (case drop (length w) (c # s) of [] \<Rightarrow> True | d # _ \<Rightarrow> \<not> is_word_char d))
      \<or> has_word (is_word_char c) w s)"

text \<open>\<open>/a\s+b/i\<close> for words in small letters.\<close>

fun has_spaced :: "string \<Rightarrow> string \<Rightarrow> string \<Rightarrow> bool" where
  "has_spaced a b [] = False"
| "has_spaced a b (c # s) =
     ((prefix a (toLowerCase (c # s))
        \<and> (let r = drop (length a) (toLowerCase (c # s)) in r \<noteq> [] \<and> is_ws (hd r) \<and> prefix b (dropWhile is_ws r)))
      \<or> has_spaced a b s)"

definition isMissingReasoningContentError :: "model_error \<Rightarrow> bool" where
  "isMissingReasoningContentError e \<longleftrightarrow>
     has_word False ''reasoning_content'' (err_message e) \<and> has_spaced ''thinking'' ''mode'' (err_message e)
     \<and> (has_spaced ''pass'' ''back'' (err_message e) \<or> has_spaced ''passed'' ''back'' (err_message e))"

definition isPromptTooLong :: "model_error \<Rightarrow> bool" where
  "isPromptTooLong e \<longleftrightarrow>
     err_code e = ''prompt_too_long'' \<or> err_recoverableViaCompact e = Some True
     \<or> list_ex (str_includes (toLowerCase (err_message e)))
         [''prompt is too long'', ''input length and max_tokens exceed context limit'', ''request too large'']"

definition modelErrorTarget :: "model_error \<Rightarrow> string \<Rightarrow> string \<Rightarrow> string \<times> string" where
  "modelErrorTarget e fallbackProvider fallbackModel =
     (if err_provider e \<noteq> [] then err_provider e else fallbackProvider,
      case err_model e of Some m \<Rightarrow> if m \<noteq> [] then m else fallbackModel | None \<Rightarrow> fallbackModel)"

section \<open>Editing the history\<close>

fun replayable_thinking :: "block \<Rightarrow> bool" where
  "replayable_thinking (ThinkingB t) =
     ((case th_reasoningContent t of Some r \<Rightarrow> r | None \<Rightarrow> th_text t) \<noteq> [] \<or> th_reasoningContent t = Some [])"
| "replayable_thinking _ = False"

definition hasReplayableReasoningContent :: "message \<Rightarrow> bool" where
  "hasReplayableReasoningContent m = list_ex replayable_thinking (content m)"

definition empty_thinking :: block where
  "empty_thinking = ThinkingB \<lparr>th_text = [], th_blockId = None, th_signature = None, th_reasoningContent = Some []\<rparr>"

definition reasoning_marker :: "message \<Rightarrow> message" where
  "reasoning_marker m =
     (if role m \<noteq> Assistant \<or> hasReplayableReasoningContent m then m else m\<lparr>content := empty_thinking # content m\<rparr>)"

definition addEmptyReasoningContentMarkers :: "message list \<Rightarrow> message list" where
  "addEmptyReasoningContentMarkers ms =
     map (\<lambda>(i, m). if i + 1 = length ms \<and> role m = Assistant \<and> content m = [] then m else reasoning_marker m)
       (enumerate 0 ms)"

fun isToolResultBlock :: "block \<Rightarrow> bool" where
  "isToolResultBlock (ToolResultB _) = True"
| "isToolResultBlock _ = False"

definition drop_last_if :: "(message \<Rightarrow> bool) \<Rightarrow> message list \<Rightarrow> message list" where
  "drop_last_if p ms = (if ms \<noteq> [] \<and> p (last ms) then butlast ms else ms)"

definition stripTrailingErrorPair :: "message list \<Rightarrow> message list" where
  "stripTrailingErrorPair ms =
     drop_last_if (\<lambda>m. role m = Assistant) (drop_last_if (\<lambda>m. role m = User \<and> list_all isToolResultBlock (content m)) ms)"

definition REMOVED_IMAGE_TEXT :: string where
  "REMOVED_IMAGE_TEXT = ''[Image removed: multimodal processor error recovery]''"

fun strip_result_image :: "result_block \<Rightarrow> result_block" where
  "strip_result_image (RImage _) = RText REMOVED_IMAGE_TEXT None"
| "strip_result_image b = b"

fun strip_image_block :: "block \<Rightarrow> block" where
  "strip_image_block (ImageB _) = text_block REMOVED_IMAGE_TEXT"
| "strip_image_block (ToolResultB r) = ToolResultB (r\<lparr>tr_content := map strip_result_image (tr_content r)\<rparr>)"
| "strip_image_block b = b"

definition stripImagesFromMessages :: "message list \<Rightarrow> message list" where
  "stripImagesFromMessages ms = map (\<lambda>m. m\<lparr>content := map strip_image_block (content m)\<rparr>) ms"

definition is_transient :: "string list \<Rightarrow> message \<Rightarrow> bool" where
  "is_transient ids m \<longleftrightarrow>
     role m = User
     \<and> (case metadata m of
          None \<Rightarrow> False
        | Some md \<Rightarrow> md_transient md = Some True \<and> (case md_transientId md of None \<Rightarrow> False | Some i \<Rightarrow> i \<in> set ids))"

definition removeTransientPromptsById :: "message list \<Rightarrow> string list \<Rightarrow> message list" where
  "removeTransientPromptsById ms ids = filter (\<lambda>m. \<not> is_transient ids m) ms"

definition transient_prompt :: "string \<Rightarrow> string \<Rightarrow> string \<Rightarrow> message" where
  "transient_prompt ident prompt purpose =
     \<lparr>role = User, content = [text_block prompt],
      metadata = Some (empty_metadata\<lparr>md_synthetic := Some True, md_transient := Some True,
        md_transientId := Some ident, md_purpose := Some purpose\<rparr>)\<rparr>"

section \<open>Repeated failures\<close>

text \<open>Strings in the order of \<open>sort()\<close>.\<close>

fun code_le :: "string \<Rightarrow> string \<Rightarrow> bool" where
  "code_le [] t = True"
| "code_le (c # s) [] = False"
| "code_le (c # s) (d # t) = ((of_char c :: nat) < of_char d \<or> (c = d \<and> code_le s t))"

definition readRecoveryMetadata :: "pd_result \<Rightarrow> js_value option" where
  "readRecoveryMetadata r = (let v = js_property (pr_metadata r) ''recovery'' in if isRecord v then Some v else None)"

definition failure_class :: "(js_value \<Rightarrow> string) \<Rightarrow> js_value option \<Rightarrow> string" where
  "failure_class template rec =
     (case rec of
        None \<Rightarrow> ''unknown''
      | Some v \<Rightarrow> (case js_nullish (js_property v ''failureClass'') (JString ''unknown'') of JString s \<Rightarrow> s | w \<Rightarrow> template w))"

definition toolFailureKey :: "(js_value \<Rightarrow> string) \<Rightarrow> pd_result \<Rightarrow> string \<Rightarrow> string" where
  "toolFailureKey template r code =
     pr_toolName r @ ''::'' @ code @ ''::'' @ failure_class template (readRecoveryMetadata r)"

definition failure_key :: "(js_value \<Rightarrow> string) \<Rightarrow> pd_result \<Rightarrow> string list" where
  "failure_key template r =
     (case pr_outcome r of PSuccess \<Rightarrow> [] | PError code _ \<Rightarrow> [toolFailureKey template r code])"

definition buildToolFailureKeys :: "(js_value \<Rightarrow> string) \<Rightarrow> pd_result list \<Rightarrow> string list" where
  "buildToolFailureKeys template rs = sort_by code_le (concat (map (failure_key template) rs))"

fun repeated_values :: "string list \<Rightarrow> string list \<Rightarrow> string list" where
  "repeated_values seen [] = []"
| "repeated_values seen (v # vs) =
     (if v \<in> set seen then v # repeated_values seen vs else repeated_values (v # seen) vs)"

definition findRepeatedValues :: "string list \<Rightarrow> string list" where
  "findRepeatedValues vs = dedupe (repeated_values [] vs)"

definition detectRepeatedToolFailure ::
    "(js_value \<Rightarrow> string) \<Rightarrow> pd_result list \<Rightarrow> string option \<Rightarrow> string option \<times> string list" where
  "detectRepeatedToolFailure template rs lastFingerprint =
     (let keys = buildToolFailureKeys template rs;
          fingerprint = (if keys \<noteq> [] then Some (join [CHR 0x0A] keys) else None);
          repeated = findRepeatedValues keys
      in (fingerprint, if fingerprint \<noteq> None \<and> fingerprint = lastFingerprint then dedupe (repeated @ keys) else repeated))"

definition appendTextToFirstContent :: "pd_content list \<Rightarrow> string \<Rightarrow> pd_content list" where
  "appendTextToFirstContent cs text =
     (case cs of
        [] \<Rightarrow> [PText (trimStart text)]
      | PText t # rest \<Rightarrow> PText (t @ text) # rest
      | c # rest \<Rightarrow> PText (trimStart text) # c # rest)"

text \<open>\<open>{ ...value, k: v }\<close>\<close>

fun js_with :: "js_value \<Rightarrow> (string \<times> js_value) list \<Rightarrow> js_value" where
  "js_with (JObject fs) new = JObject (foldl (\<lambda>m (k, v). jset k v m) fs new)"
| "js_with _ new = JObject (foldl (\<lambda>m (k, v). jset k v m) [] new)"

definition avoid_retry_reason :: "js_value option \<Rightarrow> string" where
  "avoid_retry_reason rec =
     (case Option.bind rec (\<lambda>v. js_string (js_property v ''avoidRetryReason'')) of
        Some s \<Rightarrow> s
      | None \<Rightarrow> ''The same tool, error code, and recovery class repeated. Retrying unchanged is likely to fail again.'')"

definition annotate_failure :: "pd_result \<Rightarrow> pd_result" where
  "annotate_failure r =
     (let recovery = readRecoveryMetadata r;
          why = avoid_retry_reason recovery;
          repeatedText = [CHR 0x0A, CHR 0x0A] @ ''Repeated failure: '' @ why @ [CHR 0x0A]
            @ ''Change at least one of the tool, parameters, path, scope, permission path, or explain the blocker in text.'';
          marks = [(''avoidRetryReason'', JString why), (''repeatedFailure'', JBool True)]
      in r\<lparr>pr_content := appendTextToFirstContent (pr_content r) repeatedText,
           pr_metadata := js_with (pr_metadata r)
             [(''recovery'', case recovery of Some v \<Rightarrow> js_with v marks | None \<Rightarrow> JObject marks)]\<rparr>)"

definition annotateRepeatedToolFailures :: "(js_value \<Rightarrow> string) \<Rightarrow> pd_result list \<Rightarrow> string list \<Rightarrow> pd_result list" where
  "annotateRepeatedToolFailures template rs keys =
     (if keys = [] then rs
      else map (\<lambda>r. if list_ex (\<lambda>k. k \<in> set keys) (failure_key template r) then annotate_failure r else r) rs)"

definition invalid_input_message :: "pd_result \<Rightarrow> string option" where
  "invalid_input_message r =
     (case result_error r of Some (code, msg) \<Rightarrow> if code = ''invalid_tool_input'' then Some msg else None | None \<Rightarrow> None)"

definition buildInvalidFingerprint :: "pd_result list \<Rightarrow> string" where
  "buildInvalidFingerprint rs =
     join [CHR 0x0A] (sort_by code_le (concat (map (\<lambda>r.
       case invalid_input_message r of Some msg \<Rightarrow> [pr_toolName r @ ''::'' @ msg] | None \<Rightarrow> []) rs)))"

section \<open>What results ask of the loop\<close>

record permission_denial =
  dn_toolName :: string
  dn_toolCallId :: string
  dn_errorCode :: string

definition collectPermissionDenials :: "pd_result list \<Rightarrow> permission_denial list" where
  "collectPermissionDenials rs =
     concat (map (\<lambda>r. case result_error r of
         Some (code, _) \<Rightarrow>
           if code \<in> {''permission_denied'', ''permission_required'', ''permission_cancelled''}
           then [\<lparr>dn_toolName = pr_toolName r, dn_toolCallId = pr_toolCallId r, dn_errorCode = code\<rparr>] else []
       | None \<Rightarrow> []) rs)"

definition readRequestedMode :: "js_value \<Rightarrow> permission_mode option" where
  "readRequestedMode v =
     (case js_property v ''requestedMode'' of
        JString m \<Rightarrow> if m = ''default'' then Some ModeDefault else if m = ''plan'' then Some ModePlan
          else if m = ''bypassPermissions'' then Some ModeBypass else None
      | _ \<Rightarrow> None)"

definition blocked_reason :: "pd_result \<Rightarrow> string option" where
  "blocked_reason r =
     (let lifecycle = js_property (pr_metadata r) ''lifecycle''; blocked = js_property lifecycle ''blocked''
      in if isRecord lifecycle \<and> isRecord blocked then js_string (js_property blocked ''reason'') else None)"

fun findToolLifecycleBlock :: "pd_result list \<Rightarrow> string option" where
  "findToolLifecycleBlock [] = None"
| "findToolLifecycleBlock (r # rs) = (case blocked_reason r of Some reason \<Rightarrow> Some reason | None \<Rightarrow> findToolLifecycleBlock rs)"

definition mergeUsageOption :: "usage \<Rightarrow> usage option \<Rightarrow> usage" where
  "mergeUsageOption first second = (case second of None \<Rightarrow> first | Some u \<Rightarrow> mergeUsage first u)"

end
