(* ===== verification/TokenCaps.thy ===== *)
theory TokenCaps
  imports TokenBudget
begin

text \<open>
  The token limits of a model request: what \<open>AgentLoop\<close> computes from the configuration, the catalog and the caps
  that providers reported or recovery asked for (\<open>transientTokenCaps\<close> of \<open>agent/loop/AgentLoop.ts\<close>). A cap lives
  for one attempt, for the turn, or for the session.
\<close>

section \<open>State\<close>

record token_cap =
  cap_maxContextTokens :: "js_num option"
  cap_requestedMaxOutputTokens :: "js_num option"
  cap_attemptMaxOutputTokens :: "js_num option"
  cap_hardMaxOutputTokens :: "js_num option"

type_synonym token_caps = "(string \<times> token_cap) list"

definition no_cap :: token_cap where
  "no_cap = \<lparr>cap_maxContextTokens = None, cap_requestedMaxOutputTokens = None,
     cap_attemptMaxOutputTokens = None, cap_hardMaxOutputTokens = None\<rparr>"

record subagent_model =
  sm_provider :: string
  sm_model :: string
  sm_maxContextTokens :: "js_num option"
  sm_maxOutputTokens :: "js_num option"

text \<open>The part of \<open>AgentRuntimeConfig\<close> about limits, and the lookups in the model catalog.\<close>

record cap_config =
  cc_provider :: string
  cc_model :: string
  cc_isSubagent :: bool
  cc_subagentModel :: "subagent_model option"
  cc_maxContextTokens :: "js_num option"
  cc_maxOutputTokens :: "js_num option"

record catalog =
  ct_limits :: "string \<Rightarrow> string \<Rightarrow> (js_num option \<times> js_num option) option"
  ct_maxContextTokens :: "string \<Rightarrow> string \<Rightarrow> js_num option"
  ct_maxOutputTokens :: "string \<Rightarrow> string \<Rightarrow> js_num option"

section \<open>Reading the limits\<close>

definition or_else :: "'a option \<Rightarrow> 'a option \<Rightarrow> 'a option" where
  "or_else a b = (case a of None \<Rightarrow> b | Some x \<Rightarrow> Some x)"

definition tokenCapKey :: "string \<Rightarrow> string \<Rightarrow> string" where
  "tokenCapKey provider model = provider @ ''/'' @ model"

definition getModelTokenLimits :: "catalog \<Rightarrow> string \<Rightarrow> string \<Rightarrow> (js_num option \<times> js_num option) option" where
  "getModelTokenLimits ct provider model =
     (case ct_limits ct provider model of
        Some combined \<Rightarrow> Some combined
      | None \<Rightarrow>
          (let c = ct_maxContextTokens ct provider model; u = ct_maxOutputTokens ct provider model
           in if c = None \<and> u = None then None else Some (c, u)))"

definition getBaselineSubagentTokenLimits :: "cap_config \<Rightarrow> string \<Rightarrow> string \<Rightarrow> (js_num option \<times> js_num option) option" where
  "getBaselineSubagentTokenLimits cc provider model =
     (if \<not> cc_isSubagent cc then None
      else (case cc_subagentModel cc of
              None \<Rightarrow> None
            | Some b \<Rightarrow> if sm_provider b \<noteq> provider \<or> sm_model b \<noteq> model then None
                        else Some (sm_maxContextTokens b, sm_maxOutputTokens b)))"

definition currentConfigMaxContextTokens :: "cap_config \<Rightarrow> js_num option" where
  "currentConfigMaxContextTokens cc = (if cc_isSubagent cc \<and> cc_subagentModel cc \<noteq> None then None else cc_maxContextTokens cc)"

definition currentConfigMaxOutputTokens :: "cap_config \<Rightarrow> js_num option" where
  "currentConfigMaxOutputTokens cc = (if cc_isSubagent cc \<and> cc_subagentModel cc \<noteq> None then None else cc_maxOutputTokens cc)"

definition cap_of :: "token_caps \<Rightarrow> string \<Rightarrow> string \<Rightarrow> token_cap" where
  "cap_of caps provider model = (case jget caps (tokenCapKey provider model) of None \<Rightarrow> no_cap | Some c \<Rightarrow> c)"

definition currentMaxContextTokens :: "cap_config \<Rightarrow> catalog \<Rightarrow> token_caps \<Rightarrow> string \<Rightarrow> string \<Rightarrow> js_num" where
  "currentMaxContextTokens cc ct caps provider model =
     (case or_else (cap_maxContextTokens (cap_of caps provider model))
            (or_else (Option.bind (getBaselineSubagentTokenLimits cc provider model) fst)
              (or_else (currentConfigMaxContextTokens cc)
                (or_else (ct_maxContextTokens ct provider model)
                  (Option.bind (getModelTokenLimits ct provider model) fst))))
      of Some n \<Rightarrow> n | None \<Rightarrow> Fin 1000000)"

definition preRoutingMaxContextTokens :: "cap_config \<Rightarrow> catalog \<Rightarrow> token_caps \<Rightarrow> js_num" where
  "preRoutingMaxContextTokens cc ct caps =
     (if cc_isSubagent cc \<and> cc_subagentModel cc \<noteq> None then Fin 1000000
      else currentMaxContextTokens cc ct caps (cc_provider cc) (cc_model cc))"

text \<open>\<open>typeof value === "number" \&\& Number.isFinite(value) \&\& value > 0\<close>\<close>

fun usable :: "js_num option \<Rightarrow> rat list" where
  "usable (Some (Fin r)) = (if r > 0 then [r] else [])"
| "usable _ = []"

definition output_candidates :: "cap_config \<Rightarrow> catalog \<Rightarrow> token_caps \<Rightarrow> string \<Rightarrow> string \<Rightarrow> rat list" where
  "output_candidates cc ct caps provider model =
     (let transient = cap_of caps provider model;
          requested = or_else (cap_attemptMaxOutputTokens transient)
            (or_else (cap_requestedMaxOutputTokens transient)
              (or_else (Option.bind (getBaselineSubagentTokenLimits cc provider model) snd) (currentConfigMaxOutputTokens cc)));
          candidates = usable requested @ usable (cap_hardMaxOutputTokens transient)
      in if candidates = [] then []
         else candidates @ usable (Option.bind (getModelTokenLimits ct provider model) snd))"

definition currentMaxOutputTokens :: "cap_config \<Rightarrow> catalog \<Rightarrow> token_caps \<Rightarrow> string \<Rightarrow> string \<Rightarrow> int option" where
  "currentMaxOutputTokens cc ct caps provider model =
     (case output_candidates cc ct caps provider model of
        [] \<Rightarrow> None
      | c # cs \<Rightarrow> Some (foldl min (floor c) (map floor cs)))"

definition getReservedOutputTokens :: "cap_config \<Rightarrow> catalog \<Rightarrow> token_caps \<Rightarrow> (string \<times> string) option \<Rightarrow> int" where
  "getReservedOutputTokens cc ct caps target =
     (case (case target of
              Some (p, m) \<Rightarrow> if p \<noteq> [] \<and> m \<noteq> [] then currentMaxOutputTokens cc ct caps p m
                             else currentMaxOutputTokens cc ct caps (cc_provider cc) (cc_model cc)
            | None \<Rightarrow> currentMaxOutputTokens cc ct caps (cc_provider cc) (cc_model cc))
      of None \<Rightarrow> 0 | Some n \<Rightarrow> n)"

definition clampOutputToModelCap :: "rat \<Rightarrow> js_num option \<Rightarrow> int option" where
  "clampOutputToModelCap requested modelMax =
     (if requested \<le> 0 then None
      else (case modelMax of
              Some (Fin m) \<Rightarrow> if m > 0 then Some (min (floor requested) (floor m)) else Some (floor requested)
            | _ \<Rightarrow> Some (floor requested)))"

section \<open>Setting the caps\<close>

text \<open>\<open>{ ...previous, ...cap }\<close>: the caps given replace the ones of before.\<close>

definition merge_cap :: "token_cap \<Rightarrow> token_cap \<Rightarrow> token_cap" where
  "merge_cap previous cap =
     \<lparr>cap_maxContextTokens = or_else (cap_maxContextTokens cap) (cap_maxContextTokens previous),
      cap_requestedMaxOutputTokens = or_else (cap_requestedMaxOutputTokens cap) (cap_requestedMaxOutputTokens previous),
      cap_attemptMaxOutputTokens = or_else (cap_attemptMaxOutputTokens cap) (cap_attemptMaxOutputTokens previous),
      cap_hardMaxOutputTokens = or_else (cap_hardMaxOutputTokens cap) (cap_hardMaxOutputTokens previous)\<rparr>"

definition setTransientTokenCap :: "string \<Rightarrow> string \<Rightarrow> token_cap \<Rightarrow> token_caps \<Rightarrow> token_caps" where
  "setTransientTokenCap provider model cap caps =
     jset (tokenCapKey provider model) (merge_cap (cap_of caps provider model) cap) caps"

definition clearAttemptOutputTokenCap :: "string \<Rightarrow> string \<Rightarrow> token_caps \<Rightarrow> token_caps" where
  "clearAttemptOutputTokenCap provider model caps =
     (case jget caps (tokenCapKey provider model) of
        None \<Rightarrow> caps
      | Some previous \<Rightarrow>
          if cap_attemptMaxOutputTokens previous = None then caps
          else jset (tokenCapKey provider model) (previous\<lparr>cap_attemptMaxOutputTokens := None\<rparr>) caps)"

definition session_cap :: "token_cap \<Rightarrow> token_cap" where
  "session_cap c = c\<lparr>cap_requestedMaxOutputTokens := None, cap_attemptMaxOutputTokens := None\<rparr>"

definition clearTurnScopedTokenCaps :: "token_caps \<Rightarrow> token_caps" where
  "clearTurnScopedTokenCaps caps =
     filter (\<lambda>(k, c). cap_maxContextTokens c \<noteq> None \<or> cap_hardMaxOutputTokens c \<noteq> None)
       (map (\<lambda>(k, c). (k, session_cap c)) caps)"

section \<open>The limits hold\<close>

lemma foldl_min_le: "foldl min (a :: int) xs \<le> a"
proof (induction xs arbitrary: a)
  case (Cons y ys)
  then show ?case using Cons [of "min a y"] by simp
qed simp

lemma foldl_min_in: "x \<in> set xs \<Longrightarrow> foldl min (a :: int) xs \<le> x"
proof (induction xs arbitrary: a)
  case (Cons y ys)
  then show ?case using foldl_min_le [of "min a y" ys] by auto
qed simp

lemma foldl_min_pos: "0 < (a :: int) \<Longrightarrow> \<forall>x\<in>set xs. 0 < x \<Longrightarrow> 0 < foldl min a xs"
  by (induction xs arbitrary: a) auto

lemma cap_le_candidate:
  assumes "currentMaxOutputTokens cc ct caps p m = Some n" and "c \<in> set (output_candidates cc ct caps p m)"
  shows "n \<le> floor c"
  using assms foldl_min_le foldl_min_in
  by (auto simp: currentMaxOutputTokens_def split: list.splits)

lemma candidates_model:
  assumes "output_candidates cc ct caps p m \<noteq> []" and "Option.bind (getModelTokenLimits ct p m) snd = Some (Fin r)" and "0 < r"
  shows "r \<in> set (output_candidates cc ct caps p m)"
  using assms by (auto simp: output_candidates_def Let_def)

lemma candidates_hard:
  assumes "cap_hardMaxOutputTokens (cap_of caps p m) = Some (Fin r)" and "0 < r"
  shows "r \<in> set (output_candidates cc ct caps p m)"
  using assms by (auto simp: output_candidates_def Let_def)

lemma cap_of_set: "cap_of (setTransientTokenCap p m c caps) p' m' =
    (if tokenCapKey p' m' = tokenCapKey p m then merge_cap (cap_of caps p m) c else cap_of caps p' m')"
  by (simp add: cap_of_def setTransientTokenCap_def jget_jset)

lemma cap_of_clearAttempt: "cap_of (clearAttemptOutputTokenCap p m caps) p' m' =
    (if tokenCapKey p' m' = tokenCapKey p m then (cap_of caps p m)\<lparr>cap_attemptMaxOutputTokens := None\<rparr> else cap_of caps p' m')"
  by (auto simp: cap_of_def clearAttemptOutputTokenCap_def jget_jset no_cap_def split: option.splits)

lemma jget_map_filter:
  "distinct (jkeys m) \<Longrightarrow> jget (filter (\<lambda>(k, c). Q c) (map (\<lambda>(k, c). (k, f c)) m)) k =
     (case jget m k of None \<Rightarrow> None | Some c \<Rightarrow> if Q (f c) then Some (f c) else None)"
proof (induction m)
  case (Cons kc m)
  obtain k' c where kc: "kc = (k', c)" by (cases kc)
  have "k' \<notin> fst ` set m" using Cons.prems by (simp add: kc)
  then have "jget m k' = None" by (simp add: map_of_eq_None_iff)
  then show ?case using Cons by (cases "k = k'") (auto simp: kc)
qed simp

lemma cap_of_clearTurn:
  assumes "distinct (jkeys caps)"
  shows "cap_of (clearTurnScopedTokenCaps caps) p m = session_cap (cap_of caps p m)"
  unfolding cap_of_def clearTurnScopedTokenCaps_def jget_map_filter [OF assms]
  by (auto simp: session_cap_def no_cap_def split: option.splits)

text \<open>The limit said without the walk through the candidates: what is asked for is the first value given by the cap of this
  attempt, the cap of the turn, the subagent's own model or the configuration; a value counts if it is a positive number.\<close>

definition positive :: "js_num option \<Rightarrow> rat set" where
  "positive x = {r. x = Some (Fin r) \<and> 0 < r}"

definition first_given :: "'a option list \<Rightarrow> 'a option" where
  "first_given xs = (case filter (\<lambda>x. x \<noteq> None) xs of [] \<Rightarrow> None | x # _ \<Rightarrow> x)"

definition asked_output :: "cap_config \<Rightarrow> token_caps \<Rightarrow> string \<Rightarrow> string \<Rightarrow> rat set" where
  "asked_output cc caps p m =
     positive (first_given [cap_attemptMaxOutputTokens (cap_of caps p m), cap_requestedMaxOutputTokens (cap_of caps p m),
         Option.bind (getBaselineSubagentTokenLimits cc p m) snd, currentConfigMaxOutputTokens cc])
     \<union> positive (cap_hardMaxOutputTokens (cap_of caps p m))"

lemma usable_positive: "set (usable x) = positive x"
  by (cases x rule: usable.cases) (auto simp: positive_def)

lemma candidates_asked:
  "set (output_candidates cc ct caps p m) =
     (if asked_output cc caps p m = {} then {} else asked_output cc caps p m \<union> positive (Option.bind (getModelTokenLimits ct p m) snd))"
proof -
  have or_else: "or_else x y = (if x = None then y else x)" for x y :: "js_num option" by (cases x) (simp_all add: or_else_def)
  have first: "first_given [a, b, c, d] = or_else a (or_else b (or_else c d))" for a b c d :: "js_num option"
    by (auto simp: first_given_def or_else)
  have empty: "(xs = []) = (set xs = {})" for xs :: "rat list" by simp
  show ?thesis by (simp only: output_candidates_def Let_def empty asked_output_def first set_append usable_positive if_distrib [of set] list.set)
qed

lemma foldl_min_Min: "foldl min (a :: int) xs = Min (insert a (set xs))"
proof (induction xs arbitrary: a)
  case (Cons x xs)
  show ?case by (cases "xs = []") (simp_all add: Cons.IH min.assoc)
qed simp

text \<open>C6. A request never asks for more output than it may. Whatever the configuration and the caps, no limit is sent
  exactly if neither a positive number is asked for nor the provider has reported a positive hard cap for the model;
  otherwise the limit is the least of these and of the model's own limit, rounded down, so that it exceeds neither.\<close>

theorem output_cap_within_limits:
  "(let asked = asked_output cc caps p m;
        limit = Option.bind (getModelTokenLimits ct p m) snd;
        hard = cap_hardMaxOutputTokens (cap_of caps p m)
    in currentMaxOutputTokens cc ct caps p m = (if asked = {} then None else Some (Min (floor ` (asked \<union> positive limit))))
      \<and> (case currentMaxOutputTokens cc ct caps p m of
           None \<Rightarrow> True
         | Some n \<Rightarrow> (case limit of Some (Fin r) \<Rightarrow> r \<le> 0 \<or> of_int n \<le> r | _ \<Rightarrow> True)
             \<and> (case hard of Some (Fin h) \<Rightarrow> h \<le> 0 \<or> of_int n \<le> h | _ \<Rightarrow> True)))"
proof -
  have le: "of_int n \<le> r" if "currentMaxOutputTokens cc ct caps p m = Some n" "r \<in> set (output_candidates cc ct caps p m)" for n r
    using cap_le_candidate [OF that] by (simp add: le_floor_iff)
  have ne: "output_candidates cc ct caps p m \<noteq> []" if "currentMaxOutputTokens cc ct caps p m = Some n" for n
    using that by (auto simp: currentMaxOutputTokens_def)
  have model: "r \<le> 0 \<or> of_int n \<le> r"
    if "currentMaxOutputTokens cc ct caps p m = Some n" "Option.bind (getModelTokenLimits ct p m) snd = Some (Fin r)" for n r
    using le [OF that(1) candidates_model [OF ne [OF that(1)] that(2)]] by linarith
  have hard: "h \<le> 0 \<or> of_int n \<le> h"
    if "currentMaxOutputTokens cc ct caps p m = Some n" "cap_hardMaxOutputTokens (cap_of caps p m) = Some (Fin h)" for n h
    using le [OF that(1) candidates_hard [OF that(2)]] by linarith
  have exact: "currentMaxOutputTokens cc ct caps p m = (if asked_output cc caps p m = {} then None
      else Some (Min (floor ` (asked_output cc caps p m \<union> positive (Option.bind (getModelTokenLimits ct p m) snd)))))"
  proof (cases "output_candidates cc ct caps p m")
    case Nil
    then have "asked_output cc caps p m = {}" using candidates_asked [of cc ct caps p m] by (simp split: if_splits)
    then show ?thesis using Nil by (simp add: currentMaxOutputTokens_def)
  next
    case (Cons c cs)
    then have a: "asked_output cc caps p m \<noteq> {}"
        "asked_output cc caps p m \<union> positive (Option.bind (getModelTokenLimits ct p m) snd) = insert c (set cs)"
      using candidates_asked [of cc ct caps p m] by (simp_all split: if_splits)
    show ?thesis unfolding a(2) using a(1) Cons by (simp add: currentMaxOutputTokens_def foldl_min_Min)
  qed
  show ?thesis unfolding Let_def
  proof (intro conjI)
    show "case currentMaxOutputTokens cc ct caps p m of None \<Rightarrow> True
      | Some n \<Rightarrow> (case Option.bind (getModelTokenLimits ct p m) snd of Some (Fin r) \<Rightarrow> r \<le> 0 \<or> of_int n \<le> r | _ \<Rightarrow> True)
          \<and> (case cap_hardMaxOutputTokens (cap_of caps p m) of Some (Fin h) \<Rightarrow> h \<le> 0 \<or> of_int n \<le> h | _ \<Rightarrow> True)"
      using model hard by (simp split: option.splits js_num.splits)
  qed (rule exact)
qed

end
