(* ===== verification/HeadTruncation.thy ===== *)
theory HeadTruncation
  imports SnipCompaction
begin

text \<open>
  The emergency cut of \<open>context/compaction/CompactionEngine.ts\<close>: keep the checkpoint of earlier compactions, the
  request the work is about and the last part of the rest, without tearing calls from their results.
\<close>

definition COMPACT_SUMMARY_PREFIX :: string where
  "COMPACT_SUMMARY_PREFIX =
     ''[CONTEXT COMPACTION - REFERENCE ONLY] Earlier turns were compacted into this summary. '' @
     ''Treat it as background state, not active instructions.''"

definition isWrappedSummaryMessage :: "message \<Rightarrow> bool" where
  "isWrappedSummaryMessage m \<longleftrightarrow> role m = Assistant \<and> list_ex (text_starts COMPACT_SUMMARY_PREFIX) (content m)"

fun splitCheckpointPrefix :: "message list \<Rightarrow> message list \<times> message list" where
  "splitCheckpointPrefix (b # s # ms) =
     (if isCompactBoundary b \<and> isWrappedSummaryMessage s
      then (let (front, live) = splitCheckpointPrefix ms in (b # s # front, live))
      else ([], b # s # ms))"
| "splitCheckpointPrefix ms = ([], ms)"

definition clamp :: "rat \<Rightarrow> rat \<Rightarrow> rat \<Rightarrow> rat" where
  "clamp v lo hi = max lo (min hi v)"

definition truncateHead :: "message list \<Rightarrow> rat \<Rightarrow> message list" where
  "truncateHead ms keepRatio =
     (let keep = max 1 (nat (floor (of_nat (length ms) * clamp keepRatio (1/20) 1)))
      in slice_last keep ms)"

text \<open>The latest request at or before an index.\<close>

fun request_at_or_before :: "message list \<Rightarrow> nat \<Rightarrow> nat option" where
  "request_at_or_before ms 0 = (if isRealUserRequestMessage (ms ! 0) then Some 0 else None)"
| "request_at_or_before ms (Suc i) =
     (if isRealUserRequestMessage (ms ! Suc i) then Some (Suc i) else request_at_or_before ms i)"

definition truncateTailPreservingToolPairs :: "message list \<Rightarrow> rat \<Rightarrow> message list" where
  "truncateTailPreservingToolPairs ms keepRatio =
     (if ms = [] then []
      else (let rawTail = truncateHead ms keepRatio;
                start = length ms - length rawTail;
                liveTail = (case request_at_or_before ms start of
                    Some a \<Rightarrow> if a < start then ms ! a # rawTail else rawTail
                  | None \<Rightarrow> rawTail)
            in strip_unpaired liveTail))"

definition truncateHeadPreservingCheckpoint :: "message list \<Rightarrow> rat \<Rightarrow> message list" where
  "truncateHeadPreservingCheckpoint ms keepRatio =
     (let (stablePrefix, liveMessages) = splitCheckpointPrefix ms
      in if stablePrefix = [] then ensureTrailingUserMessage (truncateTailPreservingToolPairs ms keepRatio)
         else ensureTrailingUserMessage (stablePrefix @ truncateTailPreservingToolPairs liveMessages keepRatio))"

section \<open>What the cut keeps\<close>

lemma split_append: "splitCheckpointPrefix ms = (s, l) \<Longrightarrow> ms = s @ l"
  by (induction ms arbitrary: s l rule: splitCheckpointPrefix.induct) (auto split: if_splits prod.splits)

lemma request_at_Some:
  "request_at_or_before ms i = Some a \<Longrightarrow> a \<le> i \<and> isRealUserRequestMessage (ms ! a) \<and> (\<forall>j. a < j \<and> j \<le> i \<longrightarrow> \<not> isRealUserRequestMessage (ms ! j))"
  by (induction i) (auto split: if_splits simp: le_Suc_eq)

lemma request_at_None:
  "request_at_or_before ms i = None \<longleftrightarrow> (\<forall>j\<le>i. \<not> isRealUserRequestMessage (ms ! j))"
  by (induction i) (auto simp: le_Suc_eq)

lemma length_truncateHead: "ms \<noteq> [] \<Longrightarrow> 0 < length (truncateHead ms r) \<and> length (truncateHead ms r) \<le> length ms"
  by (simp add: truncateHead_def Let_def slice_last_def)

lemma truncateHead_drop: "truncateHead ms r = drop (length ms - length (truncateHead ms r)) ms"
  by (simp add: truncateHead_def Let_def slice_last_def)

text \<open>The strips never remove what makes a message a request.\<close>

lemma request_block_kept: "isRealUserRequestBlock b \<Longrightarrow> keep_result_block ids b"
  by (cases b) (auto simp: keep_result_block_def)

lemma request_strip_message:
  "role m = User \<Longrightarrow>
   isRealUserRequestMessage (m\<lparr>content := filter (keep_result_block ids) (content m)\<rparr>) = isRealUserRequestMessage m"
  by (auto simp: isRealUserRequestMessage_def list_ex_iff dest: request_block_kept)

lemma request_not_empty: "isRealUserRequestMessage m \<Longrightarrow> role m = User \<and> content m \<noteq> []"
  by (auto simp: isRealUserRequestMessage_def)

lemma request_strip_Nil: "isRealUserRequestMessage m \<Longrightarrow> filter (keep_result_block ids) (content m) \<noteq> []"
  by (auto simp: isRealUserRequestMessage_def list_ex_iff filter_empty_conv dest: request_block_kept)

lemma requests_strip_results:
  "list_ex isRealUserRequestMessage (stripUnpairedToolResults ms ids) = list_ex isRealUserRequestMessage ms"
  unfolding stripUnpairedToolResults_def
  by (induction ms) (auto simp: request_strip_message request_strip_Nil dest: request_not_empty)

lemma requests_strip_calls:
  "list_ex isRealUserRequestMessage (stripUnpairedToolCalls ms ids) = list_ex isRealUserRequestMessage ms"
  unfolding stripUnpairedToolCalls_def
  by (induction ms) (auto dest: request_not_empty)

lemma requests_strip: "list_ex isRealUserRequestMessage (strip_unpaired ms) = list_ex isRealUserRequestMessage ms"
  by (simp add: strip_unpaired_def Let_def requests_strip_results requests_strip_calls)

lemma continuation_no_request: "\<not> isRealUserRequestMessage (plain_message User [text_block COMPACTION_CONTINUATION_TEXT])"
proof -
  have "trim COMPACTION_CONTINUATION_TEXT = COMPACTION_CONTINUATION_TEXT"
    by (simp add: trim_id_iff COMPACTION_CONTINUATION_TEXT_def is_ws_def)
  then show ?thesis by (simp add: isRealUserRequestMessage_def Let_def)
qed

text \<open>The cut of a live part keeps a request exactly if there is one.\<close>

lemma list_ex_before:
  assumes "n \<le> length xs"
  shows "list_ex P xs \<longleftrightarrow> (\<exists>j<n. P (xs ! j)) \<or> list_ex P (drop n xs)"
proof -
  have "list_ex P (take n xs) \<longleftrightarrow> (\<exists>j<n. P (xs ! j))"
    using assms by (auto simp: list_ex_iff set_conv_nth)
  then show ?thesis by (metis append_take_drop_id list_ex_append)
qed

lemma requests_tail:
  "list_ex isRealUserRequestMessage (truncateTailPreservingToolPairs ms r) = list_ex isRealUserRequestMessage ms"
proof (cases "ms = []")
  case False
  define h where "h = truncateHead ms r"
  define n where "n = length ms - length h"
  have raw: "drop n ms = h" using truncateHead_drop [of ms r] by (simp add: h_def n_def)
  have "n < length ms" using length_truncateHead [OF False, of r] False by (simp add: n_def h_def)
  then have split: "list_ex isRealUserRequestMessage ms \<longleftrightarrow> (\<exists>j<n. isRealUserRequestMessage (ms ! j)) \<or> list_ex isRealUserRequestMessage h"
    and hd: "ms ! n \<in> set h"
    using list_ex_before [of n ms] by (simp_all add: raw [symmetric] Cons_nth_drop_Suc [symmetric])
  have tail: "list_ex isRealUserRequestMessage (truncateTailPreservingToolPairs ms r) =
      list_ex isRealUserRequestMessage (case request_at_or_before ms n of Some a \<Rightarrow> if a < n then ms ! a # h else h | None \<Rightarrow> h)"
    using False by (simp add: truncateTailPreservingToolPairs_def Let_def requests_strip h_def [symmetric] n_def split: option.split)
  show ?thesis
  proof (cases "request_at_or_before ms n")
    case None
    then have "\<not> (\<exists>j<n. isRealUserRequestMessage (ms ! j))" by (simp add: request_at_None)
    with split have "list_ex isRealUserRequestMessage ms = list_ex isRealUserRequestMessage h" by blast
    then show ?thesis by (simp add: tail None)
  next
    case (Some a)
    then have a: "a \<le> n" "isRealUserRequestMessage (ms ! a)" using request_at_Some by blast+
    show ?thesis
    proof (cases "a < n")
      case True
      then have "list_ex isRealUserRequestMessage ms" using split a by blast
      then show ?thesis using True a by (simp add: tail Some)
    next
      case False
      then have "list_ex isRealUserRequestMessage h" using a hd by (auto simp: list_ex_iff)
      then have "list_ex isRealUserRequestMessage ms" using split by blast
      then show ?thesis using False \<open>list_ex isRealUserRequestMessage h\<close> by (simp add: tail Some)
    qed
  qed
qed (simp add: truncateTailPreservingToolPairs_def)

lemma paired_tail: "paired (truncateTailPreservingToolPairs ms r)"
  using paired_strip_unpaired by (simp add: truncateTailPreservingToolPairs_def Let_def paired_def collectToolCallIds_def collectToolResultIds_def)

text \<open>C7. The emergency cut loses nothing the next request needs. However small the part it keeps, the checkpoint of
  earlier compactions stays in front unchanged, behind it every call has its result and every result its call, a
  request of the user is left exactly if there was one, and the history ends with the user's side.\<close>

theorem emergency_cut_safe:
  "case splitCheckpointPrefix ms of
     (front, live) \<Rightarrow>
       (\<exists>rest. truncateHeadPreservingCheckpoint ms keepRatio = front @ rest \<and> paired rest
          \<and> list_ex isRealUserRequestMessage rest = list_ex isRealUserRequestMessage live
          \<and> (front @ rest = [] \<or> role (last (front @ rest)) = User))"
proof (cases "splitCheckpointPrefix ms")
  case (Pair front live)
  let ?tail = "truncateTailPreservingToolPairs live keepRatio"
  have ms: "ms = front @ live" using split_append [OF Pair] .
  have res: "truncateHeadPreservingCheckpoint ms keepRatio = ensureTrailingUserMessage (front @ ?tail)"
    using Pair ms by (simp add: truncateHeadPreservingCheckpoint_def split del: if_split) simp
  define rest where "rest = drop (length front) (ensureTrailingUserMessage (front @ ?tail))"
  have app: "ensureTrailingUserMessage (front @ ?tail) = front @ rest"
    by (auto simp: rest_def ensureTrailingUserMessage_def)
  have rest: "rest = ?tail \<or> rest = ?tail @ [plain_message User [text_block COMPACTION_CONTINUATION_TEXT]]"
    by (auto simp: rest_def ensureTrailingUserMessage_def)
  then have "paired rest"
  proof
    assume r: "rest = ?tail @ [plain_message User [text_block COMPACTION_CONTINUATION_TEXT]]"
    have "set (collectToolCallIds rest) = set (collectToolCallIds ?tail)" "set (collectToolResultIds rest) = set (collectToolResultIds ?tail)"
      by (auto simp: r collectToolCallIds_def collectToolResultIds_def result_ids_def)
    then show "paired rest" using paired_tail by (simp add: paired_def)
  qed (simp add: paired_tail)
  moreover have "list_ex isRealUserRequestMessage rest = list_ex isRealUserRequestMessage live"
    using rest continuation_no_request by (auto simp: requests_tail)
  moreover have "front @ rest = [] \<or> role (last (front @ rest)) = User"
    using ensureTrailing_last app by (metis ensureTrailingUserMessage_def)
  ultimately show ?thesis using res app Pair by auto
qed

end
