(* ===== verification/AgentLoop.thy ===== *)
theory AgentLoop
  imports LoopMessages TokenCaps HeadTruncation Assembler
begin

text \<open>
  The agent loop: \<open>AgentLoop.runOrdered\<close> of \<open>agent/loop/AgentLoop.ts\<close>. The local variables of the method and the
  configuration it changes are one record, \<open>loop_state\<close>, which also keeps the effects in order: the events yielded
  and the calls made. Everything outside is a parameter: \<open>loop_env\<close> holds what is fixed for the turn, \<open>loop_world\<close>
  the answers one iteration gets, from the steering messages to the results of the executor, with the point at which
  the abort signal is first seen. \<open>iteration\<close> is one pass of the \<open>while (true)\<close>, composed of the phases the code has
  in order: each either goes on or leaves the pass, by \<open>continue\<close> (\<open>Again\<close>), \<open>return\<close> (\<open>Done\<close>) or an exception
  that leaves the method (\<open>Thrown\<close>).

  Left out: the events of the side buffer and the timeline, the calibration of the token estimate, the context
  snapshots for inspection, the metadata the router is given, and the texts of status messages (their names are kept).
\<close>

section \<open>What a turn yields\<close>

datatype turn_kind = TurnSuccess | TurnError | TurnAborted | TurnMaxTurns

datatype stop_reason =
  StopCompleted | StopMaxTurns | StopAborted | StopModelError | StopPromptTooLong | StopToolError

record agent_error =
  ae_code :: string
  ae_message :: string

record turn_result =
  tu_kind :: turn_kind
  tu_stopReason :: stop_reason
  tu_usage :: usage
  tu_permissionDenials :: "permission_denial list"
  tu_turns :: int
  tu_finalMessage :: "message option"
  tu_structuredOutput :: js_value
  tu_errors :: "agent_error list"

datatype cap_kind = CapContext | CapOutput

datatype loop_effect =
    EvStatus string
  | EvSteerApplied string message
  | EvTurnContinued string
  | EvContextBudget budget_snapshot
  | EvStopFailure string
  | EvTurnFailed agent_error
  | EvTurnCompleted turn_result
  | EvModelRequestStarted string string
  | EvModelEvent model_event
  | EvAssistantMessage message
  | EvTokenCapAdjusted string string cap_kind "js_num option" rat string
  | EvEmptyOutputRecovery string string "int option" int
  | EvToolCallsDetected "tool_call list"
  | EvToolResult pd_result
  | EvToolResultsProjected message
  | EvModeChangeRequested permission_mode
  | EvStopRequested
  | DoDurable message
  | DoSteerAcknowledged string
  | DoPersistCompact "message list"
  | DoCaptureTurn "message list" bool
  | DoDispatch string
  | DoCallModel string string "int option" "message list"
  | DoExecuteTools "tool_call list"

section \<open>State\<close>

record loop_state =
  ls_messages :: "message list"
  ls_turnCount :: int
  ls_usage :: usage
  ls_permissionDenials :: "permission_denial list"
  ls_structuredOutput :: js_value
  ls_finalMessage :: "message option"
  ls_hasAttemptedCompact :: bool
  ls_hasAttemptedOutputRetry :: bool
  ls_hasAttemptedEmptyRetry :: bool
  ls_maxOutputRecoveryCount :: nat
  ls_consecutiveEmptyCount :: nat
  ls_jsonSelfCorrectCount :: nat
  ls_hasAttemptedReasoningContentRetry :: bool
  ls_hasAttemptedImageStrip :: bool
  ls_streamInterruptionRecoveryCount :: nat
  ls_unknownFinishRecoveryCount :: nat
  ls_largeFileRepair :: repair_state
  ls_lastInvalidFingerprint :: "string option"
  ls_sameInvalidFingerprintCount :: nat
  ls_hasUsedInvalidGracePeriod :: bool
  ls_lastToolFailureFingerprint :: "string option"
  ls_transientPromptCounter :: nat
  ls_activeTransientPromptIds :: "string list"
  ls_aborted :: bool
  ls_config :: cap_config
  ls_caps :: token_caps
  ls_permissionMode :: permission_mode
  ls_permissionModeBeforePlan :: "permission_mode option"
  ls_allowedReadFiles :: "string list"
  ls_trace :: "loop_effect list"

definition MAX_OUTPUT_RECOVERY_LIMIT :: nat where "MAX_OUTPUT_RECOVERY_LIMIT = 50"
definition MAX_CONSECUTIVE_EMPTY :: nat where "MAX_CONSECUTIVE_EMPTY = 3"
definition MAX_JSON_SELF_CORRECT_RETRIES :: nat where "MAX_JSON_SELF_CORRECT_RETRIES = 3"
definition MAX_STREAM_INTERRUPTION_RECOVERIES :: nat where "MAX_STREAM_INTERRUPTION_RECOVERIES = 2"
definition MAX_UNKNOWN_FINISH_RECOVERIES :: nat where "MAX_UNKNOWN_FINISH_RECOVERIES = 2"
definition MAX_SAME_INVALID_FINGERPRINT :: nat where "MAX_SAME_INVALID_FINGERPRINT = 3"
definition EMPTY_LENGTH_OUTPUT_RETRY_FLOOR :: int where "EMPTY_LENGTH_OUTPUT_RETRY_FLOOR = 4096"

section \<open>The outside\<close>

datatype abort_reason = NoReason | ReasonText string | ReasonError string | ReasonOther string \<comment> \<open>as JSON\<close>

record steer_message =
  sm_itemId :: string
  sm_message :: message
  sm_allowedReadFiles :: "string list"

text \<open>An answer of \<open>tryAutoCompact\<close>: the new history with its budget, the error left after emergency compaction and
  the id of the compaction.\<close>

datatype compact_answer =
    CompactThrew
  | NotCompacted budget_snapshot
  | Compacted "message list" budget_snapshot "string option" "string option"

datatype apply_answer = NoApply | ApplyThrew | Applied "message list" "message list option"

record loop_env =
  le_maxTurns :: "int option"
  le_modelOverride :: "(string \<times> string) option"
  le_jsonSelfCorrect :: bool
  le_stopOnStructuredOutput :: bool
  le_abortReason :: abort_reason
  le_hasAutoCompact :: bool
  le_staged :: bool
  le_recover :: "model_error \<Rightarrow> message list \<Rightarrow> bool \<Rightarrow> recovery_decision option"
  le_catalog :: catalog
  le_stringify :: "js_value \<Rightarrow> string"
  le_stringifyContent :: "pd_content \<Rightarrow> string"
  le_sanitizeRaw :: "pd_result \<Rightarrow> js_value"
  le_recovery :: "permission_mode \<Rightarrow> tool_call \<Rightarrow> string \<Rightarrow> string \<times> js_value"
  le_template :: "js_value \<Rightarrow> string"
  le_showError :: "model_error \<Rightarrow> string"
  le_overflowMessage :: "budget_snapshot \<Rightarrow> string"

record loop_world =
  lw_abortAt :: "nat option"
  lw_steers :: "steer_message list"
  lw_refreshFails :: bool
  lw_compact :: compact_answer
  lw_requestFails :: bool
  lw_route :: "(string \<times> string \<times> bool) option" \<comment> \<open>provider, model, patched\<close>
  lw_recompact :: compact_answer
  lw_rebuildFails :: bool
  lw_responseId :: string
  lw_stream :: "model_event list"
  lw_thrown :: "(string \<times> model_error option) option"
  lw_targets :: "(string \<times> string) list"
  lw_errorCompact :: compact_answer
  lw_tools :: "string + pd_result list"
  lw_apply :: apply_answer
  lw_terminalSteers :: "steer_message list option"
  lw_stopMessages :: "message list"
  lw_stopBlock :: "string option"
  lw_uuid :: "string option"
  lw_now :: int

text \<open>Whether the signal is seen as aborted at the \<open>k\<close>th place the pass looks at it.\<close>

definition aborted_at :: "nat \<Rightarrow> loop_world \<Rightarrow> loop_state \<Rightarrow> bool" where
  "aborted_at k w s \<longleftrightarrow> ls_aborted s \<or> (case lw_abortAt w of None \<Rightarrow> False | Some p \<Rightarrow> p \<le> k)"

section \<open>Ways out of a pass\<close>

datatype loop_step =
    Again loop_state
  | Done turn_result loop_state
  | Thrown loop_state

definition outs :: "loop_effect list \<Rightarrow> loop_state \<Rightarrow> loop_state" where
  "outs es s = s\<lparr>ls_trace := ls_trace s @ es\<rparr>"

definition again :: "loop_world \<Rightarrow> loop_state \<Rightarrow> loop_step" where
  "again w s = Again (s\<lparr>ls_aborted := (ls_aborted s \<or> lw_abortAt w \<noteq> None)\<rparr>)"

definition continued :: "loop_world \<Rightarrow> string \<Rightarrow> loop_state \<Rightarrow> loop_step" where
  "continued w reason s = again w (outs [EvTurnContinued reason] s)"

definition result_of :: "turn_kind \<Rightarrow> stop_reason \<Rightarrow> int \<Rightarrow> js_value \<Rightarrow> agent_error list \<Rightarrow> loop_state \<Rightarrow> turn_result" where
  "result_of kind reason turns structured errors s =
     \<lparr>tu_kind = kind, tu_stopReason = reason, tu_usage = ls_usage s, tu_permissionDenials = ls_permissionDenials s,
      tu_turns = turns, tu_finalMessage = ls_finalMessage s, tu_structuredOutput = structured, tu_errors = errors\<rparr>"

definition finish :: "bool \<Rightarrow> turn_result \<Rightarrow> loop_state \<Rightarrow> loop_step" where
  "finish errored r s = Done r (outs [DoCaptureTurn (ls_messages s) errored, EvTurnCompleted r] s)"

definition stringifyAbortReason :: "abort_reason \<Rightarrow> string option" where
  "stringifyAbortReason r =
     (case r of NoReason \<Rightarrow> None | ReasonText t \<Rightarrow> Some t | ReasonError t \<Rightarrow> Some t | ReasonOther t \<Rightarrow> Some t)"

definition shouldSurfaceAbortStatus :: "abort_reason \<Rightarrow> bool" where
  "shouldSurfaceAbortStatus r =
     (case stringifyAbortReason r of
        None \<Rightarrow> False
      | Some t \<Rightarrow> list_ex (str_includes (toLowerCase t)) [''timeout'', ''cancel'', ''abort''])"

definition abort_turn :: "loop_env \<Rightarrow> bool \<Rightarrow> loop_state \<Rightarrow> loop_step" where
  "abort_turn env withStatus s =
     finish False (result_of TurnAborted StopAborted (ls_turnCount s) JUndefined [] s)
       (if withStatus \<and> shouldSurfaceAbortStatus (le_abortReason env) then outs [EvStatus ''turn_aborted''] s else s)"

definition fail_turn :: "stop_reason \<Rightarrow> agent_error \<Rightarrow> js_value \<Rightarrow> string \<Rightarrow> loop_state \<Rightarrow> loop_step" where
  "fail_turn reason err structured status s =
     finish True (result_of TurnError reason (ls_turnCount s) structured [err] s) (outs [EvStatus status, EvTurnFailed err] s)"

definition fail_model :: "stop_reason \<Rightarrow> agent_error \<Rightarrow> js_value \<Rightarrow> string \<Rightarrow> loop_state \<Rightarrow> loop_step" where
  "fail_model reason err structured stopText s =
     fail_turn reason err structured ''model_request_failed'' (outs [DoDispatch ''StopFailure'', EvStopFailure stopText] s)"

definition succeed :: "bool \<Rightarrow> js_value \<Rightarrow> loop_state \<Rightarrow> loop_step" where
  "succeed errored structured s = finish errored (result_of TurnSuccess StopCompleted (ls_turnCount s) structured [] s) s"

section \<open>Shared steps\<close>

definition push :: "message list \<Rightarrow> loop_state \<Rightarrow> loop_state" where
  "push ms s = s\<lparr>ls_messages := ls_messages s @ ms\<rparr>"

definition pushTransientSyntheticPrompt :: "loop_world \<Rightarrow> string \<Rightarrow> string \<Rightarrow> loop_state \<Rightarrow> loop_state" where
  "pushTransientSyntheticPrompt w prompt purpose s =
     (let s1 = (if lw_uuid w = None then s\<lparr>ls_transientPromptCounter := ls_transientPromptCounter s + 1\<rparr> else s);
          ident = (case lw_uuid w of Some i \<Rightarrow> i | None \<Rightarrow> ''transient-'' @ show_nat (ls_transientPromptCounter s1))
      in (push [transient_prompt ident prompt purpose] s1)
           \<lparr>ls_activeTransientPromptIds := ls_activeTransientPromptIds s @ [ident]\<rparr>)"

definition expireConsumedTransientPrompts :: "loop_state \<Rightarrow> loop_state" where
  "expireConsumedTransientPrompts s =
     (if ls_activeTransientPromptIds s = [] then s
      else s\<lparr>ls_messages := removeTransientPromptsById (ls_messages s) (ls_activeTransientPromptIds s),
             ls_activeTransientPromptIds := []\<rparr>)"

definition show_assistant :: "message \<Rightarrow> loop_state \<Rightarrow> loop_state" where
  "show_assistant m s = outs [EvAssistantMessage m, DoDurable m] s"

definition add_allowed :: "string list \<Rightarrow> loop_state \<Rightarrow> loop_state" where
  "add_allowed fs s = s\<lparr>ls_allowedReadFiles := dedupe (ls_allowedReadFiles s @ fs)\<rparr>"

definition apply_steer :: "steer_message \<Rightarrow> loop_state \<Rightarrow> loop_state" where
  "apply_steer st s =
     outs [DoSteerAcknowledged (sm_itemId st), EvSteerApplied (sm_itemId st) (sm_message st)]
       (push [sm_message st] (add_allowed (sm_allowedReadFiles st) (outs [DoDurable (sm_message st)] s)))"

definition applySteerMessages :: "steer_message list \<Rightarrow> loop_state \<Rightarrow> loop_state" where
  "applySteerMessages pending s = fold apply_steer pending s"

definition continueWithSyntheticPrompt :: "loop_world \<Rightarrow> repair_decision \<Rightarrow> bool \<Rightarrow> loop_state \<Rightarrow> loop_step" where
  "continueWithSyntheticPrompt w d stripCurrentAssistant s =
     (case d of
        RepairStop reason \<Rightarrow>
          fail_turn StopToolError \<lparr>ae_code = ''agent_tool_error_loop'', ae_message = reason\<rparr> (ls_structuredOutput s)
            ''tool_error_loop'' s
      | RepairContinue prompt purpose strip \<Rightarrow>
          (let s1 = (if \<not> stripCurrentAssistant then s
                     else case strip of
                       Some StripErrorPair \<Rightarrow> s\<lparr>ls_messages := stripTrailingErrorPair (ls_messages s)\<rparr>
                     | Some StripAssistant \<Rightarrow> s\<lparr>ls_messages := drop_last_if (\<lambda>m. role m = Assistant) (ls_messages s)\<rparr>
                     | None \<Rightarrow> s);
               s2 = pushTransientSyntheticPrompt w prompt purpose s1;
               s3 = (case cc_maxOutputTokens (ls_config s2) of
                       Some (Fin n) \<Rightarrow>
                         if n < of_nat LARGE_FILE_OUTPUT_RETRY_TOKENS
                         then s2\<lparr>ls_config := (ls_config s2)\<lparr>cc_maxOutputTokens := Some (Fin (of_nat LARGE_FILE_OUTPUT_RETRY_TOKENS))\<rparr>\<rparr>
                         else s2
                     | _ \<Rightarrow> s2)
           in continued w ''model_error'' s3))"

definition last_assistant :: "message list \<Rightarrow> message option" where
  "last_assistant ms = (case filter (\<lambda>m. role m = Assistant) ms of [] \<Rightarrow> None | xs \<Rightarrow> Some (last xs))"

definition max_out :: "loop_env \<Rightarrow> loop_state \<Rightarrow> string \<times> string \<Rightarrow> int option" where
  "max_out env s t = currentMaxOutputTokens (ls_config s) (le_catalog env) (ls_caps s) (fst t) (snd t)"

definition max_ctx :: "loop_env \<Rightarrow> loop_state \<Rightarrow> string \<times> string \<Rightarrow> js_num" where
  "max_ctx env s t = currentMaxContextTokens (ls_config s) (le_catalog env) (ls_caps s) (fst t) (snd t)"

definition model_out_cap :: "loop_env \<Rightarrow> string \<times> string \<Rightarrow> js_num option" where
  "model_out_cap env t = Option.bind (getModelTokenLimits (le_catalog env) (fst t) (snd t)) snd"

definition set_cap :: "string \<times> string \<Rightarrow> token_cap \<Rightarrow> loop_state \<Rightarrow> loop_state" where
  "set_cap t cap s = s\<lparr>ls_caps := setTransientTokenCap (fst t) (snd t) cap (ls_caps s)\<rparr>"

abbreviation js_int :: "int option \<Rightarrow> js_num option" where
  "js_int \<equiv> map_option (\<lambda>n. Fin (of_int n))"

text \<open>Phase A of the output recovery: double the cap if that changes it.\<close>

definition bump_output_cap :: "loop_env \<Rightarrow> string \<times> string \<Rightarrow> loop_state \<Rightarrow> (rat \<times> int option) option" where
  "bump_output_cap env t s =
     map_option (\<lambda>next. (next, max_out env s t)) (resolveOutputTokenRetryBump (js_int (max_out env s t)) (model_out_cap env t))"

definition adjust_output :: "string \<times> string \<Rightarrow> int option \<Rightarrow> rat \<Rightarrow> string \<Rightarrow> loop_state \<Rightarrow> loop_state" where
  "adjust_output t previous next reason s =
     outs [EvTokenCapAdjusted (fst t) (snd t) CapOutput (js_int previous) next reason] s"

definition requested_cap :: "rat \<Rightarrow> token_cap" where
  "requested_cap n = no_cap\<lparr>cap_requestedMaxOutputTokens := Some (Fin n)\<rparr>"

definition MAX_OUTPUT_PROMPT :: "string \<Rightarrow> string" where
  "MAX_OUTPUT_PROMPT tail =
     ''Output token limit hit. Resume directly - no apology, no recap of what you were doing. '' @ tail"

definition MID_THOUGHT :: string where
  "MID_THOUGHT = ''Pick up mid-thought if that is where the cut happened. Break remaining work into smaller pieces.''"

definition MID_SENTENCE :: string where
  "MID_SENTENCE = ''Pick up mid-sentence if that is where the cut happened.''"

definition EMPTY_RESPONSE_PROMPT :: string where
  "EMPTY_RESPONSE_PROMPT =
     ''Your previous response was empty (thinking only, no visible text). Please provide your answer as visible text output.''"

definition JSON_SELF_CORRECT_PROMPT :: string where
  "JSON_SELF_CORRECT_PROMPT =
     ''Your previous tool call contained invalid JSON in the arguments and could not be parsed. '' @
     ''Please retry with valid JSON. Common issues: missing quotes around keys/values, '' @
     ''trailing commas, unescaped special characters in strings.''"

definition output_recovery :: "loop_world \<Rightarrow> string \<Rightarrow> loop_state \<Rightarrow> loop_step" where
  "output_recovery w tail s =
     continued w ''model_error''
       (pushTransientSyntheticPrompt w (MAX_OUTPUT_PROMPT tail) ''max_output_recovery''
         (s\<lparr>ls_maxOutputRecoveryCount := ls_maxOutputRecoveryCount s + 1\<rparr>))"

section \<open>Before the request\<close>

text \<open>The top of the pass: the abort check, the guidance of the user, the refresh of the tools.\<close>

definition top_phase :: "loop_env \<Rightarrow> loop_world \<Rightarrow> loop_state \<Rightarrow> loop_step + loop_state" where
  "top_phase env w s =
     (if aborted_at 0 w s then Inl (abort_turn env True s)
      else (let s1 = applySteerMessages (lw_steers w) s
            in if lw_refreshFails w \<and> aborted_at 1 w s1 then Inl (again w s1) else Inr s1))"

definition compact_mark :: "string \<Rightarrow> message \<Rightarrow> message" where
  "compact_mark i m = m\<lparr>metadata := Some ((case metadata m of None \<Rightarrow> empty_metadata | Some md \<Rightarrow> md)
     \<lparr>md_compactReplacement := Some True, md_compactSnapshotId := Some i\<rparr>)\<rparr>"

definition persistCompactSnapshot :: "message list \<Rightarrow> string option \<Rightarrow> loop_state \<Rightarrow> loop_state" where
  "persistCompactSnapshot ms ident s =
     (case ident of None \<Rightarrow> s | Some i \<Rightarrow> outs [DoPersistCompact (map (compact_mark i) ms)] s)"

definition contextOverflowAfterEmergency :: "loop_env \<Rightarrow> budget_snapshot \<Rightarrow> loop_state \<Rightarrow> loop_step" where
  "contextOverflowAfterEmergency env snap s =
     (let err = \<lparr>ae_code = ''agent_context_recovery_failed'', ae_message = le_overflowMessage env snap\<rparr>
      in fail_model StopPromptTooLong err (ls_structuredOutput s) (ae_message err) s)"

definition replace_history :: "message list \<Rightarrow> loop_state \<Rightarrow> loop_state" where
  "replace_history ms s = s\<lparr>ls_messages := ms\<rparr>"

definition compact_phase :: "loop_env \<Rightarrow> loop_world \<Rightarrow> loop_state \<Rightarrow> loop_step + loop_state \<times> budget_snapshot option" where
  "compact_phase env w s =
     (if \<not> le_hasAutoCompact env then Inr (s, None)
      else (case lw_compact w of
              CompactThrew \<Rightarrow> if aborted_at 2 w s then Inl (again w s) else Inr (s, None)
            | NotCompacted snap \<Rightarrow> Inr (s, Some snap)
            | Compacted ms snap err ident \<Rightarrow>
                (let s1 = outs [EvTurnContinued ''auto_compact''] (persistCompactSnapshot ms ident (replace_history ms s))
                 in if err \<noteq> None then Inl (contextOverflowAfterEmergency env snap s1) else Inr (s1, Some snap))))"

text \<open>Preparing the request and choosing the model.\<close>

definition route_of :: "loop_env \<Rightarrow> loop_world \<Rightarrow> ((string \<times> string) \<times> bool) option" where
  "route_of env w =
     map_option (\<lambda>(p, m, patched). case le_modelOverride env of Some t \<Rightarrow> (t, False) | None \<Rightarrow> ((p, m), patched)) (lw_route w)"

definition route_phase :: "loop_env \<Rightarrow> loop_world \<Rightarrow> loop_state \<Rightarrow> loop_step + (string \<times> string) \<times> bool" where
  "route_phase env w s =
     (if lw_requestFails w then (if aborted_at 3 w s then Inl (again w s) else Inl (Thrown s))
      else if aborted_at 4 w s then Inl (abort_turn env True s)
      else if aborted_at 5 w s then Inl (again w s)
      else (case route_of env w of None \<Rightarrow> Inl (Thrown s) | Some d \<Rightarrow> Inr d))"

definition route_changed :: "loop_env \<Rightarrow> loop_state \<Rightarrow> (string \<times> string) \<times> bool \<Rightarrow> bool" where
  "route_changed env s d \<longleftrightarrow>
     le_staged env
     \<and> (fst d \<noteq> (case le_modelOverride env of Some t \<Rightarrow> t | None \<Rightarrow> (cc_provider (ls_config s), cc_model (ls_config s))) \<or> snd d)"

definition recompact_phase ::
    "loop_env \<Rightarrow> loop_world \<Rightarrow> (string \<times> string) \<times> bool \<Rightarrow> loop_state \<Rightarrow> loop_step + loop_state \<times> bool" where
  "recompact_phase env w d s =
     (if \<not> le_hasAutoCompact env
         \<or> (max_ctx env s (fst d) = preRoutingMaxContextTokens (ls_config s) (le_catalog env) (ls_caps s) \<and> \<not> route_changed env s d)
      then Inr (s, False)
      else (let failed = (\<lambda>s'. if aborted_at 6 w s' then Inl (again w s') else Inr (s', False))
            in case lw_recompact w of
                 CompactThrew \<Rightarrow> failed s
               | NotCompacted snap \<Rightarrow> Inr (outs [EvContextBudget snap] s, True)
               | Compacted ms snap err ident \<Rightarrow>
                   (let s1 = replace_history ms s
                    in if lw_rebuildFails w then failed s1
                       else (let s2 = outs [EvTurnContinued ''auto_compact'', EvContextBudget snap] (persistCompactSnapshot ms ident s1)
                             in if err \<noteq> None then Inl (contextOverflowAfterEmergency env snap s2) else Inr (s2, True)))))"

section \<open>The call of the model\<close>

text \<open>The events up to the first error, where the code stops listening.\<close>

fun heard :: "model_event list \<Rightarrow> model_event list" where
  "heard [] = []"
| "heard (ErrorEvent e # evs) = [ErrorEvent e]"
| "heard (ev # evs) = ev # heard evs"

definition has_error_event :: "model_event list \<Rightarrow> bool" where
  "has_error_event evs = list_ex (\<lambda>ev. case ev of ErrorEvent _ \<Rightarrow> True | _ \<Rightarrow> False) evs"

definition clear_attempt_caps :: "(string \<times> string) list \<Rightarrow> loop_state \<Rightarrow> loop_state" where
  "clear_attempt_caps ts s = s\<lparr>ls_caps := fold (\<lambda>t. clearAttemptOutputTokenCap (fst t) (snd t)) ts (ls_caps s)\<rparr>"

text \<open>What an aborted turn keeps of the answer under way.\<close>

definition keep_partial :: "assembled \<Rightarrow> loop_state \<Rightarrow> loop_state" where
  "keep_partial a s =
     (case safeFinalTextMessage (am_message a) (am_toolCalls a) of
        None \<Rightarrow> s
      | Some m \<Rightarrow>
          (let s1 = expireConsumedTransientPrompts (push [m] (s\<lparr>ls_finalMessage := Some m\<rparr>))
           in show_assistant m (s1\<lparr>ls_usage := mergeUsageOption (ls_usage s1) (am_usage a)\<rparr>)))"

definition call_phase ::
    "loop_env \<Rightarrow> loop_world \<Rightarrow> string \<times> string \<Rightarrow> budget_snapshot option \<Rightarrow> loop_state \<Rightarrow> loop_step + loop_state \<times> assembled" where
  "call_phase env w t budget s =
     (if aborted_at 7 w s then Inl (again w s)
      else (let s1 = outs ((case budget of None \<Rightarrow> [] | Some snap \<Rightarrow> [EvContextBudget snap])
                 @ [DoDispatch ''PreModelRequest'', EvModelRequestStarted (fst t) (snd t),
                    DoCallModel (fst t) (snd t) (max_out env s t) (ls_messages s)]) s;
                evs = heard (lw_stream w);
                s2 = clear_attempt_caps (t # lw_targets w) (outs (map EvModelEvent evs) s1);
                a = assemble (Some (lw_responseId w)) evs
            in case (if has_error_event (lw_stream w) then None else lw_thrown w) of
                 Some (msg, modelError) \<Rightarrow>
                   if aborted_at 8 w s2 then Inl (abort_turn env False (keep_partial a s2))
                   else (let text = (case modelError of Some e \<Rightarrow> err_message e | None \<Rightarrow> msg)
                         in Inl (fail_model StopModelError \<lparr>ae_code = ''agent_model_error'', ae_message = text\<rparr> JUndefined text s2))
               | None \<Rightarrow>
                   if aborted_at 9 w s2 then Inl (abort_turn env True (keep_partial a s2))
                   else Inr (expireConsumedTransientPrompts
                          (s2\<lparr>ls_usage := mergeUsageOption (ls_usage s2) (am_usage a), ls_finalMessage := Some (am_message a)\<rparr>), a)))"

section \<open>Answers that cannot be used\<close>

definition keep_text :: "message \<Rightarrow> loop_state \<Rightarrow> loop_state" where
  "keep_text m s =
     (let text = withoutThinkingBlocks m
      in if trim (textFromMessage text) \<noteq> [] then show_assistant text (push [text] (s\<lparr>ls_finalMessage := Some text\<rparr>)) else s)"

definition exhausted :: "assembled \<Rightarrow> string \<Rightarrow> loop_state \<Rightarrow> loop_step" where
  "exhausted a msg s =
     (let safe = safeFinalTextMessage (am_message a) (collectToolCalls (content (am_message a)));
          s1 = s\<lparr>ls_finalMessage := safe\<rparr>;
          s2 = (case safe of None \<Rightarrow> s1 | Some m \<Rightarrow> show_assistant m (push [m] s1))
      in fail_model StopModelError \<lparr>ae_code = ''agent_model_error'', ae_message = msg\<rparr> (ls_structuredOutput s2) msg s2)"

definition phase_name :: "interruption \<Rightarrow> string" where
  "phase_name i = (case i of InToolCall _ \<Rightarrow> ''tool_call'' | InText \<Rightarrow> ''text'' | InReasoning \<Rightarrow> ''reasoning'' | InNothing \<Rightarrow> ''empty'')"

definition interruption_phase :: "loop_world \<Rightarrow> assembled \<Rightarrow> loop_state \<Rightarrow> loop_step + loop_state" where
  "interruption_phase w a s =
     (case Option.bind (am_error a) err_streamInterruption of
        None \<Rightarrow> Inr (s\<lparr>ls_streamInterruptionRecoveryCount := 0\<rparr>)
      | Some i \<Rightarrow>
          if ls_streamInterruptionRecoveryCount s < MAX_STREAM_INTERRUPTION_RECOVERIES then
            (let calls = collectToolCalls (content (am_message a));
                 structured = (calls \<noteq> [] \<or> (case i of InToolCall _ \<Rightarrow> True | _ \<Rightarrow> False));
                 s1 = s\<lparr>ls_streamInterruptionRecoveryCount := ls_streamInterruptionRecoveryCount s + 1\<rparr>;
                 s2 = (if structured then s1\<lparr>ls_finalMessage := None\<rparr> else s1);
                 s3 = (if i = InText \<and> \<not> structured then keep_text (am_message a) s2 else s2);
                 told = (if structured then (case i of InToolCall _ \<Rightarrow> i | _ \<Rightarrow> InToolCall []) else i)
             in Inl (continued w ''model_error''
                  (pushTransientSyntheticPrompt w (buildStreamInterruptionRecoveryPrompt told) ''stream_interruption_recovery'' s3)))
          else Inl (exhausted a (''Stream interruption recovery exhausted after '' @ show_nat MAX_STREAM_INTERRUPTION_RECOVERIES
                 @ '' attempts ('' @ phase_name i @ '').'') s))"

definition unknown_phase :: "loop_world \<Rightarrow> assembled \<Rightarrow> loop_state \<Rightarrow> loop_step + loop_state" where
  "unknown_phase w a s =
     (if am_error a = None \<and> am_hasMessageEnd a \<and> am_finishReason a = FinUnknown then
        (if ls_unknownFinishRecoveryCount s < MAX_UNKNOWN_FINISH_RECOVERIES then
           (let calls = collectToolCalls (content (am_message a));
                s1 = s\<lparr>ls_unknownFinishRecoveryCount := ls_unknownFinishRecoveryCount s + 1\<rparr>;
                s2 = (if calls = [] then keep_text (am_message a) s1 else s1)
            in Inl (continued w ''model_error''
                 (pushTransientSyntheticPrompt w (buildUnknownFinishRecoveryPrompt calls) ''unknown_finish_recovery'' s2)))
         else Inl (exhausted a (''Unknown finish reason recovery exhausted after '' @ show_nat MAX_UNKNOWN_FINISH_RECOVERIES
                @ '' attempts.'') s))
      else Inr (s\<lparr>ls_unknownFinishRecoveryCount := 0\<rparr>))"

text \<open>Calls whose arguments were repaired from a cut-off answer.\<close>

definition dirty_calls :: "assembled \<Rightarrow> bool" where
  "dirty_calls a \<longleftrightarrow> am_repaired a \<and> am_finishReason a \<in> {FinLength, FinToolCall, FinStop}"

definition repaired_phase :: "loop_env \<Rightarrow> loop_world \<Rightarrow> string \<times> string \<Rightarrow> assembled \<Rightarrow> loop_state \<Rightarrow> loop_step + loop_state" where
  "repaired_phase env w t a s =
     (if \<not> dirty_calls a then Inr s
      else (let (d, rep) = recoverFromRepairedTruncation (collectToolCalls (content (am_message a))) (ls_largeFileRepair s);
                s1 = s\<lparr>ls_largeFileRepair := rep\<rparr>
            in case d of
                 Some decision \<Rightarrow> Inl (continueWithSyntheticPrompt w decision False s1)
               | None \<Rightarrow>
                   (case (if ls_hasAttemptedOutputRetry s1 then None else bump_output_cap env t s1) of
                      Some (next, previous) \<Rightarrow>
                        Inl (continued w ''model_error''
                          (adjust_output t previous next ''max-output-retry-bump''
                            (set_cap t (requested_cap next) (s1\<lparr>ls_hasAttemptedOutputRetry := True\<rparr>))))
                    | None \<Rightarrow>
                        if ls_maxOutputRecoveryCount s1 < MAX_OUTPUT_RECOVERY_LIMIT then Inl (output_recovery w MID_THOUGHT s1)
                        else Inl (fail_turn StopModelError
                               \<lparr>ae_code = ''agent_model_error'',
                                ae_message = ''Recovered tool call still looked repaired/truncated after max-output recovery was exhausted.''\<rparr>
                               (ls_structuredOutput s1) ''tool_call_recovery_exhausted'' s1))))"

text \<open>Nothing to see: ask once for visible text, and go on a few times after a cut-off.\<close>

definition grow_output :: "loop_env \<Rightarrow> string \<times> string \<Rightarrow> assembled \<Rightarrow> loop_state \<Rightarrow> loop_state" where
  "grow_output env t a s =
     (if am_finishReason a \<noteq> FinLength then s
      else (let previous = max_out env s t;
                next = clampOutputToModelCap
                  (of_int (max ((case previous of None \<Rightarrow> 0 | Some n \<Rightarrow> n) * 2) EMPTY_LENGTH_OUTPUT_RETRY_FLOOR)) (model_out_cap env t)
            in case next of
                 None \<Rightarrow> s
               | Some n \<Rightarrow>
                   if Some n = previous then s
                   else outs [EvEmptyOutputRecovery (fst t) (snd t) previous n] (set_cap t (requested_cap (of_int n)) s)))"

definition retry_after_recovery :: "loop_env \<Rightarrow> loop_world \<Rightarrow> string \<times> string \<Rightarrow> assembled \<Rightarrow> loop_state \<Rightarrow> loop_step" where
  "retry_after_recovery env w t a s =
     (let s1 = s\<lparr>ls_consecutiveEmptyCount := ls_consecutiveEmptyCount s + 1\<rparr>
      in if ls_consecutiveEmptyCount s1 < MAX_CONSECUTIVE_EMPTY \<and> ls_maxOutputRecoveryCount s1 < MAX_OUTPUT_RECOVERY_LIMIT then
           continued w ''model_error''
             (pushTransientSyntheticPrompt w (MAX_OUTPUT_PROMPT MID_SENTENCE) ''max_output_recovery''
               (grow_output env t a (s1\<lparr>ls_maxOutputRecoveryCount := ls_maxOutputRecoveryCount s1 + 1\<rparr>)))
         else (let s2 = s1\<lparr>ls_finalMessage := last_assistant (ls_messages s1)\<rparr>
               in succeed True JUndefined (outs [EvStatus ''model_empty_response_exhausted''] s2)))"

definition first_empty_retry :: "loop_env \<Rightarrow> loop_world \<Rightarrow> string \<times> string \<Rightarrow> assembled \<Rightarrow> loop_state \<Rightarrow> loop_step" where
  "first_empty_retry env w t a s =
     continued w ''model_error''
       (pushTransientSyntheticPrompt w EMPTY_RESPONSE_PROMPT ''empty_response_retry''
         (grow_output env t a (s\<lparr>ls_hasAttemptedEmptyRetry := True, ls_maxOutputRecoveryCount := ls_maxOutputRecoveryCount s + 1\<rparr>)))"

definition empty_phase :: "loop_env \<Rightarrow> loop_world \<Rightarrow> string \<times> string \<Rightarrow> assembled \<Rightarrow> loop_state \<Rightarrow> loop_step + loop_state" where
  "empty_phase env w t a s =
     (if am_error a = None \<and> collectToolCalls (content (am_message a)) = [] \<and> textFromMessage (am_message a) = [] then
        (if ls_maxOutputRecoveryCount s > 0 then Inl (retry_after_recovery env w t a s)
         else if \<not> ls_hasAttemptedEmptyRetry s then Inl (first_empty_retry env w t a s)
         else (let s1 = outs [EvStatus ''model_empty_response_exhausted''] s
               in Inl (finish True ((result_of TurnSuccess StopCompleted (ls_turnCount s1) JUndefined [] s1)
                      \<lparr>tu_finalMessage := last_assistant (ls_messages s1)\<rparr>) s1)))
      else Inr s)"

section \<open>Errors of the model\<close>

definition missing_results :: "loop_env \<Rightarrow> loop_world \<Rightarrow> string \<Rightarrow> tool_call list \<Rightarrow> loop_state \<Rightarrow> pd_result list" where
  "missing_results env w msg calls s = map (createMissingToolResult (le_recovery env (ls_permissionMode s)) (lw_now w) msg) calls"

definition project_results :: "loop_env \<Rightarrow> pd_result list \<Rightarrow> message list" where
  "project_results env rs = projectToolResults (le_stringify env) (le_stringifyContent env) (le_sanitizeRaw env) rs"

text \<open>The calls of a failed answer are answered by errors.\<close>

definition answer_failed_calls :: "loop_env \<Rightarrow> loop_world \<Rightarrow> tool_call list \<Rightarrow> loop_state \<Rightarrow> loop_state" where
  "answer_failed_calls env w calls s =
     (if calls = [] then s
      else (let projected = project_results env (missing_results env w ''Model error interrupted tool execution.'' calls s)
            in outs (EvToolResultsProjected (hd projected) # map DoDurable projected) (push projected s)))"

definition strip_error_pair :: "loop_state \<Rightarrow> loop_state" where
  "strip_error_pair s = s\<lparr>ls_messages := stripTrailingErrorPair (ls_messages s)\<rparr>"

definition cut_head :: "rat \<Rightarrow> loop_state \<Rightarrow> loop_state" where
  "cut_head keepRatio s = s\<lparr>ls_messages := truncateHeadPreservingCheckpoint (ls_messages s) keepRatio\<rparr>"

definition attempt_cap :: "int \<Rightarrow> token_cap" where
  "attempt_cap n = no_cap\<lparr>cap_attemptMaxOutputTokens := Some (Fin (of_int n))\<rparr>"

definition hard_cap :: "int \<Rightarrow> token_cap" where
  "hard_cap n = no_cap\<lparr>cap_hardMaxOutputTokens := Some (Fin (of_int n))\<rparr>"

definition context_cap :: "int \<Rightarrow> token_cap" where
  "context_cap n = no_cap\<lparr>cap_maxContextTokens := Some (Fin (of_int n))\<rparr>"

text \<open>A cap for one attempt also binds the model the router is asked for.\<close>

definition also_routed :: "string \<times> string \<Rightarrow> string \<times> string \<Rightarrow> int \<Rightarrow> loop_state \<Rightarrow> loop_state" where
  "also_routed target t n s = (if target \<noteq> t then set_cap t (attempt_cap n) s else s)"

definition recover_adjust ::
    "loop_env \<Rightarrow> loop_world \<Rightarrow> string \<times> string \<Rightarrow> string \<times> string \<Rightarrow> int \<Rightarrow> string \<Rightarrow> recovery_scope \<Rightarrow> loop_state \<Rightarrow> loop_step" where
  "recover_adjust env w target t n reason scope s =
     (let s1 = s\<lparr>ls_hasAttemptedOutputRetry := True\<rparr>;
          previous = max_out env s1 target;
          s2 = set_cap target (case scope of Attempt \<Rightarrow> attempt_cap n | HardCap \<Rightarrow> hard_cap n) s1
      in continued w ''model_error''
           (adjust_output target previous (of_int n) reason (strip_error_pair (also_routed target t n s2))))"

definition recover_compact ::
    "loop_env \<Rightarrow> loop_world \<Rightarrow> string \<times> string \<Rightarrow> string \<times> string \<Rightarrow> int option \<Rightarrow> int option \<Rightarrow> string \<Rightarrow> loop_state \<Rightarrow> loop_step" where
  "recover_compact env w target t maxContext maxOutput reason s =
     (let previousContext = max_ctx env s target;
          s1 = (case maxContext of
                  None \<Rightarrow> s
                | Some n \<Rightarrow> outs [EvTokenCapAdjusted (fst target) (snd target) CapContext (Some previousContext) (of_int n) reason]
                              (set_cap target (context_cap n) s));
          s2 = (case maxOutput of
                  None \<Rightarrow> s1
                | Some n \<Rightarrow> adjust_output target (max_out env s1 target) (of_int n) reason
                              (also_routed target t n (set_cap target (attempt_cap n) s1)));
          s3 = strip_error_pair s2;
          go_on = (\<lambda>s'. continued w ''model_error'' (s'\<lparr>ls_hasAttemptedCompact := True\<rparr>))
      in if \<not> le_hasAutoCompact env then go_on (cut_head (1/2) s3)
         else (case lw_errorCompact w of
                 CompactThrew \<Rightarrow> go_on (cut_head (1/2) s3)
               | NotCompacted snap \<Rightarrow> go_on (cut_head (1/2) s3)
               | Compacted ms snap err ident \<Rightarrow>
                   (let s4 = persistCompactSnapshot ms ident (replace_history ms s3)
                    in if err \<noteq> None then contextOverflowAfterEmergency env snap s4 else go_on s4)))"

text \<open>What the context runtime decided, where the loop acts on it.\<close>

definition react ::
    "loop_env \<Rightarrow> loop_world \<Rightarrow> string \<times> string \<Rightarrow> string \<times> string \<Rightarrow> recovery_decision option \<Rightarrow> loop_state \<Rightarrow> loop_step option" where
  "react env w target t d s =
     (case d of
        Some (AdjustOutputAndRetry n reason scope) \<Rightarrow>
          if \<not> ls_hasAttemptedOutputRetry s then Some (recover_adjust env w target t n reason scope s) else None
      | Some (CompactAndRetry maxContext maxOutput reason) \<Rightarrow>
          if \<not> ls_hasAttemptedCompact s then Some (recover_compact env w target t maxContext maxOutput reason s) else None
      | Some (TruncateHeadAndRetry keepRatio reason) \<Rightarrow>
          Some (continued w ''model_error'' ((cut_head keepRatio (strip_error_pair s))\<lparr>ls_hasAttemptedCompact := True\<rparr>))
      | Some (StripImagesAndRetry reason) \<Rightarrow>
          if \<not> ls_hasAttemptedImageStrip s then
            Some (let s1 = strip_error_pair (s\<lparr>ls_hasAttemptedImageStrip := True\<rparr>)
                  in continued w ''model_error'' (s1\<lparr>ls_messages := stripImagesFromMessages (ls_messages s1)\<rparr>))
          else None
      | _ \<Rightarrow> None)"

definition surface_error :: "loop_env \<Rightarrow> model_error \<Rightarrow> loop_state \<Rightarrow> loop_step" where
  "surface_error env e s =
     (if isPromptTooLong e
      then fail_model StopPromptTooLong \<lparr>ae_code = ''agent_prompt_too_long'', ae_message = err_message e\<rparr> JUndefined (le_showError env e) s
      else fail_model StopModelError \<lparr>ae_code = ''agent_model_error'', ae_message = err_message e\<rparr> JUndefined (le_showError env e) s)"

definition output_reached :: "loop_env \<Rightarrow> loop_world \<Rightarrow> string \<times> string \<Rightarrow> model_error \<Rightarrow> loop_state \<Rightarrow> loop_step" where
  "output_reached env w t e s =
     (let s1 = s\<lparr>ls_hasAttemptedOutputRetry := True\<rparr>
      in case (if ls_hasAttemptedOutputRetry s then None else bump_output_cap env t s1) of
           Some (next, previous) \<Rightarrow>
             continued w ''model_error''
               (adjust_output t previous next ''max-output-retry-bump'' (set_cap t (requested_cap next) (strip_error_pair s1)))
         | None \<Rightarrow>
             if ls_maxOutputRecoveryCount s1 < MAX_OUTPUT_RECOVERY_LIMIT then output_recovery w MID_THOUGHT s1
             else surface_error env e s1)"

definition error_phase :: "loop_env \<Rightarrow> loop_world \<Rightarrow> string \<times> string \<Rightarrow> assembled \<Rightarrow> model_error \<Rightarrow> loop_state \<Rightarrow> loop_step" where
  "error_phase env w t a e s =
     (if \<not> ls_hasAttemptedReasoningContentRetry s \<and> isMissingReasoningContentError e then
        continued w ''model_error''
          (s\<lparr>ls_hasAttemptedReasoningContentRetry := True, ls_messages := addEmptyReasoningContentMarkers (ls_messages s)\<rparr>)
      else
        (let s1 = answer_failed_calls env w (collectToolCalls (content (am_message a))) s
         in if le_jsonSelfCorrect env \<and> err_code e = ''invalid_tool_arguments''
               \<and> ls_jsonSelfCorrectCount s1 < MAX_JSON_SELF_CORRECT_RETRIES
            then continued w ''model_error''
                   (pushTransientSyntheticPrompt w JSON_SELF_CORRECT_PROMPT ''json_self_correct''
                     (s1\<lparr>ls_jsonSelfCorrectCount := ls_jsonSelfCorrectCount s1 + 1\<rparr>))
            else (case react env w (modelErrorTarget e (fst t) (snd t)) t
                         (le_recover env e (ls_messages s1) (ls_hasAttemptedCompact s1)) s1 of
                    Some step \<Rightarrow> step
                  | None \<Rightarrow> if err_code e = ''max_output_reached'' then output_reached env w t e s1 else surface_error env e s1)))"

section \<open>An answer without calls\<close>

definition visible_text :: "assembled \<Rightarrow> string" where
  "visible_text a = textFromMessage (am_message a)"

text \<open>The guard against an empty answer that the code repeats here.\<close>

definition late_empty_guard :: "loop_env \<Rightarrow> loop_world \<Rightarrow> string \<times> string \<Rightarrow> assembled \<Rightarrow> loop_state \<Rightarrow> loop_step + loop_state" where
  "late_empty_guard env w t a s =
     (if visible_text a \<noteq> [] then Inr s
      else (let s1 = s\<lparr>ls_messages := butlast (ls_messages s)\<rparr>
            in if ls_maxOutputRecoveryCount s1 > 0 then Inl (retry_after_recovery env w t a s1)
               else if \<not> ls_hasAttemptedEmptyRetry s1 then Inl (first_empty_retry env w t a s1)
               else Inr (outs [EvStatus ''model_empty_response_exhausted''] s1)))"

definition cut_off_text :: "loop_world \<Rightarrow> assembled \<Rightarrow> loop_state \<Rightarrow> loop_step + loop_state" where
  "cut_off_text w a s =
     (if am_finishReason a \<noteq> FinLength then Inr s
      else (let s1 = s\<lparr>ls_consecutiveEmptyCount := 0\<rparr>
            in if ls_maxOutputRecoveryCount s1 < MAX_OUTPUT_RECOVERY_LIMIT then Inl (output_recovery w MID_SENTENCE s1)
               else Inr (outs [EvStatus ''max_output_recovery_exhausted''] s1)))"

definition createFinishReasonStatus :: "finish_reason \<Rightarrow> string \<Rightarrow> string option" where
  "createFinishReasonStatus reason text =
     (if trim text = [] then None
      else if reason = FinContentFilter then Some ''content_filter_stop''
      else if reason = FinUnknown then Some ''unknown_finish_reason'' else None)"

definition stop_turn :: "loop_world \<Rightarrow> assembled \<Rightarrow> loop_state \<Rightarrow> loop_step" where
  "stop_turn w a s =
     (let s1 = push (lw_stopMessages w) (outs [DoDispatch ''Stop'', EvStopRequested] s)
      in case lw_stopBlock w of
           Some reason \<Rightarrow>
             fail_turn StopToolError \<lparr>ae_code = ''agent_unsupported_feature'', ae_message = reason\<rparr> (ls_structuredOutput s1)
               ''lifecycle_blocked'' s1
         | None \<Rightarrow>
             succeed False (ls_structuredOutput s1)
               (outs (case createFinishReasonStatus (am_finishReason a) (visible_text a) of None \<Rightarrow> [] | Some st \<Rightarrow> [EvStatus st]) s1))"

definition within_turns :: "loop_env \<Rightarrow> int \<Rightarrow> bool" where
  "within_turns env n \<longleftrightarrow> (case le_maxTurns env of None \<Rightarrow> True | Some m \<Rightarrow> m = 0 \<or> n \<le> m)"

text \<open>Guidance that is waiting when the answer is complete starts another request, as long as turns are left.\<close>

definition steer_or_stop :: "loop_env \<Rightarrow> loop_world \<Rightarrow> assembled \<Rightarrow> loop_state \<Rightarrow> loop_step" where
  "steer_or_stop env w a s =
     (case (if within_turns env (ls_turnCount s + 1) then lw_terminalSteers w else None) of
        Some (st # sts) \<Rightarrow>
          continued w ''user_steer''
            ((applySteerMessages (st # sts) s)\<lparr>ls_turnCount := ls_turnCount s + 1\<rparr>)
      | _ \<Rightarrow> stop_turn w a s)"

definition text_phase :: "loop_env \<Rightarrow> loop_world \<Rightarrow> string \<times> string \<Rightarrow> assembled \<Rightarrow> loop_state \<Rightarrow> loop_step" where
  "text_phase env w t a s =
     (case late_empty_guard env w t a s of
        Inl step \<Rightarrow> step
      | Inr s1 \<Rightarrow>
          (case cut_off_text w a s1 of
             Inl step \<Rightarrow> step
           | Inr s2 \<Rightarrow>
               (let (d, rep) = onNoToolCalls (ls_largeFileRepair s2); s3 = s2\<lparr>ls_largeFileRepair := rep\<rparr>
                in case d of
                     Some decision \<Rightarrow> continueWithSyntheticPrompt w decision True s3
                   | None \<Rightarrow> steer_or_stop env w a s3)))"

section \<open>An answer with calls\<close>

text \<open>Entering plan mode remembers the mode of before, leaving it goes back there.\<close>

definition request_mode :: "permission_mode \<Rightarrow> loop_state \<Rightarrow> loop_state" where
  "request_mode requested s =
     (let s1 = (if requested = ModePlan \<and> ls_permissionMode s \<noteq> ModePlan
                then s\<lparr>ls_permissionModeBeforePlan := Some (ls_permissionMode s)\<rparr> else s);
          effective = (if ls_permissionMode s = ModePlan \<and> requested \<noteq> ModePlan
                       then (case ls_permissionModeBeforePlan s of Some m \<Rightarrow> m | None \<Rightarrow> requested) else requested);
          s2 = (if ls_permissionMode s = ModePlan \<and> requested \<noteq> ModePlan then s1\<lparr>ls_permissionModeBeforePlan := None\<rparr> else s1)
      in outs [EvModeChangeRequested effective] (s2\<lparr>ls_permissionMode := effective\<rparr>))"

definition take_result :: "pd_result \<Rightarrow> loop_state \<Rightarrow> loop_state" where
  "take_result r s =
     (let s1 = (if is_success r \<and> js_truthy (js_property (pr_metadata r) ''structuredOutput'')
                then s\<lparr>ls_structuredOutput := pr_data r\<rparr> else s);
          s2 = (case (if is_success r then readRequestedMode (pr_data r) else None) of
                  None \<Rightarrow> s1 | Some m \<Rightarrow> request_mode m s1)
      in outs [EvToolResult r] s2)"

definition append_results :: "loop_env \<Rightarrow> loop_world \<Rightarrow> pd_result list \<Rightarrow> loop_state \<Rightarrow> loop_state" where
  "append_results env w rs s =
     (let projected = project_results env rs;
          (ms, appended) = (case lw_apply w of
              Applied ms apps \<Rightarrow> (ms, case apps of None \<Rightarrow> projected | Some xs \<Rightarrow> xs)
            | _ \<Rightarrow> (ls_messages s @ projected, projected))
      in outs (concat (map (\<lambda>m. [EvToolResultsProjected m, DoDurable m]) appended)) (s\<lparr>ls_messages := ms\<rparr>))"

definition all_invalid :: "pd_result list \<Rightarrow> bool" where
  "all_invalid rs \<longleftrightarrow> rs \<noteq> [] \<and> list_all (\<lambda>r. invalid_input_message r \<noteq> None) rs"

text \<open>The circuit breaker counts turns whose calls all failed in the same way.\<close>

definition count_invalid :: "pd_result list \<Rightarrow> loop_state \<Rightarrow> loop_state" where
  "count_invalid rs s =
     (let fingerprint = buildInvalidFingerprint rs
      in if Some fingerprint = ls_lastInvalidFingerprint s
         then s\<lparr>ls_sameInvalidFingerprintCount := ls_sameInvalidFingerprintCount s + 1\<rparr>
         else s\<lparr>ls_sameInvalidFingerprintCount := 1, ls_lastInvalidFingerprint := Some fingerprint,
                ls_hasUsedInvalidGracePeriod := False\<rparr>)"

definition breaker :: "loop_world \<Rightarrow> pd_result list \<Rightarrow> loop_state \<Rightarrow> loop_step + loop_state" where
  "breaker w rs s =
     (if all_invalid rs then
        (let s1 = count_invalid rs s
         in if ls_sameInvalidFingerprintCount s1 < MAX_SAME_INVALID_FINGERPRINT then Inr s1
            else if \<not> ls_hasUsedInvalidGracePeriod s1 then
              Inl (continued w ''model_error''
                (pushTransientSyntheticPrompt w CIRCUIT_BREAKER_GRACE_PROMPT ''circuit_breaker_grace''
                  (s1\<lparr>ls_hasUsedInvalidGracePeriod := True\<rparr>)))
            else Inl (fail_turn StopToolError
                   \<lparr>ae_code = ''agent_tool_error_loop'',
                    ae_message = ''Terminated: '' @ show_nat (ls_sameInvalidFingerprintCount s1)
                      @ '' consecutive turns with identical tool input validation failures (same tool + same error). The model appears stuck in a loop.''\<rparr>
                   (ls_structuredOutput s1) ''tool_error_loop'' s1))
      else Inr (s\<lparr>ls_sameInvalidFingerprintCount := 0, ls_lastInvalidFingerprint := None,
                  ls_hasUsedInvalidGracePeriod := False,
                  ls_lastToolFailureFingerprint := (if list_all is_success rs then None else ls_lastToolFailureFingerprint s),
                  ls_maxOutputRecoveryCount := 0, ls_consecutiveEmptyCount := 0, ls_hasAttemptedOutputRetry := False,
                  ls_hasAttemptedEmptyRetry := False, ls_hasAttemptedImageStrip := False\<rparr>))"

definition next_turn :: "loop_env \<Rightarrow> loop_world \<Rightarrow> loop_state \<Rightarrow> loop_step" where
  "next_turn env w s =
     (if le_stopOnStructuredOutput env \<and> ls_structuredOutput s \<noteq> JUndefined then
        succeed False (ls_structuredOutput s) (outs [EvStatus ''structured_output_completed''] s)
      else if \<not> within_turns env (ls_turnCount s + 1) then
        finish False
          (result_of TurnMaxTurns StopMaxTurns (ls_turnCount s + 1) (ls_structuredOutput s)
            [\<lparr>ae_code = ''agent_max_turns_reached'',
              ae_message = ''Reached maximum number of turns ('' @ show_int (case le_maxTurns env of Some m \<Rightarrow> m | None \<Rightarrow> 0) @ '').''\<rparr>] s)
          (outs [EvStatus ''max_turns_reached''] s)
      else continued w ''next_turn'' (s\<lparr>ls_turnCount := ls_turnCount s + 1\<rparr>))"

text \<open>From the results to the end of the pass.\<close>

definition settle_results :: "loop_env \<Rightarrow> loop_world \<Rightarrow> repair_decision option \<Rightarrow> pd_result list \<Rightarrow> loop_state \<Rightarrow> loop_step" where
  "settle_results env w d rs s =
     (case d of
        Some decision \<Rightarrow> continueWithSyntheticPrompt w decision True s
      | None \<Rightarrow>
          (case findToolLifecycleBlock rs of
             Some reason \<Rightarrow>
               fail_turn StopToolError \<lparr>ae_code = ''agent_unsupported_feature'', ae_message = reason\<rparr> (ls_structuredOutput s)
                 ''lifecycle_blocked'' s
           | None \<Rightarrow>
               (let (d', rep) = (if all_invalid rs \<and> pendingLargeFileRepair (ls_largeFileRepair s)
                                 then onInvalidToolInput (ls_largeFileRepair s) else (None, ls_largeFileRepair s));
                    s1 = s\<lparr>ls_largeFileRepair := rep\<rparr>
                in case d' of
                     Some decision \<Rightarrow> continueWithSyntheticPrompt w decision True s1
                   | None \<Rightarrow> (case breaker w rs s1 of Inl step \<Rightarrow> step | Inr s2 \<Rightarrow> next_turn env w s2))))"

definition executed_results :: "loop_env \<Rightarrow> loop_world \<Rightarrow> tool_call list \<Rightarrow> loop_state \<Rightarrow> pd_result list" where
  "executed_results env w calls s = (case lw_tools w of Inr rs \<Rightarrow> rs | Inl msg \<Rightarrow> missing_results env w msg calls s)"

definition pair_results :: "loop_env \<Rightarrow> loop_world \<Rightarrow> tool_call list \<Rightarrow> loop_state \<Rightarrow> pd_result list" where
  "pair_results env w calls s =
     ensureToolResultPairing (le_recovery env (ls_permissionMode s)) (lw_now w) ''Tool execution did not produce a result.''
       calls (executed_results env w calls s)"

definition repair_context_of :: "assembled \<Rightarrow> repair_context" where
  "repair_context_of a =
     \<lparr>rc_outputTruncated = (am_finishReason a = FinLength \<or> am_repaired a), rc_repairedToolCalls = am_repaired a,
      rc_finishReason = am_finishReason a\<rparr>"

definition tools_phase :: "loop_env \<Rightarrow> loop_world \<Rightarrow> assembled \<Rightarrow> loop_state \<Rightarrow> loop_step" where
  "tools_phase env w a s0 =
     (let calls = collectToolCalls (content (am_message a));
          s = outs [EvToolCallsDetected calls] s0
      in if aborted_at 10 w s then abort_turn env False s
         else (let s1 = outs [DoExecuteTools calls] s
               in if aborted_at 11 w s1 then abort_turn env False s1
                  else (let paired0 = pair_results env w calls s1;
                            (fingerprint, repeated) = detectRepeatedToolFailure (le_template env) paired0 (ls_lastToolFailureFingerprint s1);
                            paired = annotateRepeatedToolFailures (le_template env) paired0 repeated;
                            (d, rep) = analyzeToolResults paired (repair_context_of a) (ls_largeFileRepair s1);
                            s2 = s1\<lparr>ls_lastToolFailureFingerprint := fingerprint, ls_largeFileRepair := rep,
                                   ls_permissionDenials := ls_permissionDenials s1 @ collectPermissionDenials paired\<rparr>
                        in settle_results env w d paired (append_results env w paired (fold take_result paired s2)))))"

section \<open>One pass and the turn\<close>

definition answer_phase :: "loop_env \<Rightarrow> loop_world \<Rightarrow> string \<times> string \<Rightarrow> assembled \<Rightarrow> loop_state \<Rightarrow> loop_step" where
  "answer_phase env w t a s =
     (case interruption_phase w a s of
        Inl step \<Rightarrow> step
      | Inr s1 \<Rightarrow>
     (case unknown_phase w a s1 of
        Inl step \<Rightarrow> step
      | Inr s2 \<Rightarrow>
     (case repaired_phase env w t a s2 of
        Inl step \<Rightarrow> step
      | Inr s3 \<Rightarrow>
     (case empty_phase env w t a s3 of
        Inl step \<Rightarrow> step
      | Inr s4 \<Rightarrow>
          (let s5 = show_assistant (am_message a) (push [am_message a] s4)
           in case am_error a of
                Some e \<Rightarrow> error_phase env w t a e s5
              | None \<Rightarrow> if collectToolCalls (content (am_message a)) = [] then text_phase env w t a s5 else tools_phase env w a s5)))))"

definition iteration :: "loop_env \<Rightarrow> loop_world \<Rightarrow> loop_state \<Rightarrow> loop_step" where
  "iteration env w s =
     (case top_phase env w s of
        Inl step \<Rightarrow> step
      | Inr s1 \<Rightarrow>
     (case compact_phase env w s1 of
        Inl step \<Rightarrow> step
      | Inr (s2, budget) \<Rightarrow>
     (case route_phase env w s2 of
        Inl step \<Rightarrow> step
      | Inr d \<Rightarrow>
     (case recompact_phase env w d s2 of
        Inl step \<Rightarrow> step
      | Inr (s3, emitted) \<Rightarrow>
     (case call_phase env w (fst d) (if emitted then None else budget) s3 of
        Inl step \<Rightarrow> step
      | Inr (s4, a) \<Rightarrow> answer_phase env w (fst d) a s4)))))"

text \<open>The start of the method: the caps of the last turn are dropped, the overrides applied.\<close>

definition applyPermissionOverrides ::
    "permission_mode option \<Rightarrow> permission_mode option \<Rightarrow> permission_mode \<times> permission_mode option \<Rightarrow> permission_mode \<times> permission_mode option" where
  "applyPermissionOverrides permissionMode basePermissionMode c =
     (case permissionMode of
        None \<Rightarrow> c
      | Some m \<Rightarrow>
          (m, if m = ModePlan \<and> fst c \<noteq> ModePlan
              then Some (case basePermissionMode of Some b \<Rightarrow> b | None \<Rightarrow> fst c) else snd c))"

record loop_input =
  li_messages :: "message list"
  li_permissionMode :: "permission_mode option"
  li_basePermissionMode :: "permission_mode option"
  li_allowedReadFiles :: "string list"

record loop_object =
  lo_config :: cap_config
  lo_caps :: token_caps
  lo_permissionMode :: permission_mode
  lo_permissionModeBeforePlan :: "permission_mode option"
  lo_allowedReadFiles :: "string list"

definition start_turn :: "loop_input \<Rightarrow> loop_object \<Rightarrow> loop_state" where
  "start_turn input obj =
     (let (mode, before) = applyPermissionOverrides (li_permissionMode input) (li_basePermissionMode input)
            (lo_permissionMode obj, lo_permissionModeBeforePlan obj)
      in \<lparr>ls_messages = li_messages input, ls_turnCount = 1, ls_usage = empty_usage, ls_permissionDenials = [],
          ls_structuredOutput = JUndefined, ls_finalMessage = None, ls_hasAttemptedCompact = False,
          ls_hasAttemptedOutputRetry = False, ls_hasAttemptedEmptyRetry = False, ls_maxOutputRecoveryCount = 0,
          ls_consecutiveEmptyCount = 0, ls_jsonSelfCorrectCount = 0, ls_hasAttemptedReasoningContentRetry = False,
          ls_hasAttemptedImageStrip = False, ls_streamInterruptionRecoveryCount = 0, ls_unknownFinishRecoveryCount = 0,
          ls_largeFileRepair = new_repair, ls_lastInvalidFingerprint = None, ls_sameInvalidFingerprintCount = 0,
          ls_hasUsedInvalidGracePeriod = False, ls_lastToolFailureFingerprint = None, ls_transientPromptCounter = 0,
          ls_activeTransientPromptIds = [], ls_aborted = False, ls_config = lo_config obj,
          ls_caps = clearTurnScopedTokenCaps (lo_caps obj), ls_permissionMode = mode, ls_permissionModeBeforePlan = before,
          ls_allowedReadFiles = dedupe (lo_allowedReadFiles obj @ li_allowedReadFiles input), ls_trace = []\<rparr>)"

text \<open>The whole turn, given the answers of every pass; with fuel, since nothing outside bounds the passes.\<close>

fun run_turn :: "nat \<Rightarrow> loop_env \<Rightarrow> (nat \<Rightarrow> loop_world) \<Rightarrow> loop_state \<Rightarrow> loop_step" where
  "run_turn 0 env ws s = Again s"
| "run_turn (Suc n) env ws s =
     (case iteration env (ws 0) s of Again s' \<Rightarrow> run_turn n env (\<lambda>k. ws (Suc k)) s' | step \<Rightarrow> step)"

end
