(* ===== verification/LoopTrace.thy ===== *)
theory LoopTrace
  imports AgentLoop
begin

text \<open>
  What a turn leaves in its trace: how it ends, which calls it lets the executor run and which results it shows.
\<close>

section \<open>The deeds of a turn\<close>

fun deed :: "loop_effect \<Rightarrow> bool" where
  "deed (EvTurnFailed e) = True"
| "deed (EvTurnCompleted r) = True"
| "deed (DoExecuteTools cs) = True"
| "deed (EvToolResult r) = True"
| "deed (DoCallModel p m c ms) = True"
| "deed e = False"

definition deeds :: "loop_state \<Rightarrow> loop_effect list" where
  "deeds s = filter deed (ls_trace s)"

named_theorems deed_simps \<open>the deeds after the shared steps\<close>

lemma deeds_outs [deed_simps]: "deeds (outs es s) = deeds s @ filter deed es"
  by (simp add: deeds_def outs_def)

lemma deeds_updates [deed_simps]:
  "deeds (s\<lparr>ls_messages := ms\<rparr>) = deeds s" "deeds (s\<lparr>ls_finalMessage := fm\<rparr>) = deeds s" "deeds (s\<lparr>ls_config := c\<rparr>) = deeds s"
  "deeds (s\<lparr>ls_caps := cs\<rparr>) = deeds s" "deeds (s\<lparr>ls_usage := us\<rparr>) = deeds s" "deeds (s\<lparr>ls_turnCount := n\<rparr>) = deeds s"
  "deeds (s\<lparr>ls_aborted := b\<rparr>) = deeds s" "deeds (s\<lparr>ls_permissionMode := pm\<rparr>) = deeds s"
  "deeds (s\<lparr>ls_permissionModeBeforePlan := pb\<rparr>) = deeds s" "deeds (s\<lparr>ls_structuredOutput := v\<rparr>) = deeds s"
  "deeds (s\<lparr>ls_allowedReadFiles := fs\<rparr>) = deeds s" "deeds (s\<lparr>ls_permissionDenials := pd\<rparr>) = deeds s"
  "deeds (s\<lparr>ls_transientPromptCounter := k\<rparr>) = deeds s" "deeds (s\<lparr>ls_activeTransientPromptIds := ids\<rparr>) = deeds s"
  "deeds (s\<lparr>ls_largeFileRepair := rp\<rparr>) = deeds s" "deeds (s\<lparr>ls_lastToolFailureFingerprint := fp\<rparr>) = deeds s"
  by (simp_all add: deeds_def)

lemma deeds_counters [deed_simps]:
  "deeds (s\<lparr>ls_hasAttemptedCompact := b\<rparr>) = deeds s" "deeds (s\<lparr>ls_hasAttemptedOutputRetry := b\<rparr>) = deeds s"
  "deeds (s\<lparr>ls_hasAttemptedEmptyRetry := b\<rparr>) = deeds s" "deeds (s\<lparr>ls_maxOutputRecoveryCount := k\<rparr>) = deeds s"
  "deeds (s\<lparr>ls_consecutiveEmptyCount := k\<rparr>) = deeds s" "deeds (s\<lparr>ls_jsonSelfCorrectCount := k\<rparr>) = deeds s"
  "deeds (s\<lparr>ls_hasAttemptedReasoningContentRetry := b\<rparr>) = deeds s" "deeds (s\<lparr>ls_hasAttemptedImageStrip := b\<rparr>) = deeds s"
  "deeds (s\<lparr>ls_streamInterruptionRecoveryCount := k\<rparr>) = deeds s" "deeds (s\<lparr>ls_unknownFinishRecoveryCount := k\<rparr>) = deeds s"
  "deeds (s\<lparr>ls_lastInvalidFingerprint := fp\<rparr>) = deeds s" "deeds (s\<lparr>ls_sameInvalidFingerprintCount := k\<rparr>) = deeds s"
  "deeds (s\<lparr>ls_hasUsedInvalidGracePeriod := b\<rparr>) = deeds s"
  by (simp_all add: deeds_def)

lemma deeds_history [deed_simps]:
  "deeds (push ms s) = deeds s" "deeds (strip_error_pair s) = deeds s" "deeds (cut_head q s) = deeds s"
  "deeds (replace_history ms s) = deeds s" "deeds (show_assistant m s) = deeds s" "deeds (set_cap t c s) = deeds s"
  "deeds (adjust_output t prev n r s) = deeds s" "deeds (add_allowed fs s) = deeds s" "deeds (clear_attempt_caps ts s) = deeds s"
  "deeds (expireConsumedTransientPrompts s) = deeds s" "deeds (pushTransientSyntheticPrompt w prompt purpose s) = deeds s"
  "deeds (persistCompactSnapshot ms i s) = deeds s" "deeds (also_routed tg t k s) = deeds s"
  by (simp_all add: push_def strip_error_pair_def cut_head_def replace_history_def show_assistant_def set_cap_def adjust_output_def
      add_allowed_def clear_attempt_caps_def expireConsumedTransientPrompts_def pushTransientSyntheticPrompt_def
      persistCompactSnapshot_def also_routed_def deed_simps Let_def split: option.split)

lemma deeds_keep [deed_simps]:
  "deeds (keep_text m s) = deeds s" "deeds (keep_partial a s) = deeds s" "deeds (grow_output env t a s) = deeds s"
  by (simp_all add: keep_text_def keep_partial_def grow_output_def deed_simps Let_def split: option.split)

lemma deeds_steers [deed_simps]: "deeds (applySteerMessages sts s) = deeds s"
  unfolding applySteerMessages_def by (induction sts arbitrary: s) (simp_all add: apply_steer_def deed_simps)

lemma no_deed_shown [deed_simps]:
  "filter deed (map DoDurable ms) = []" "filter deed (concat (map (\<lambda>m. [EvToolResultsProjected m, DoDurable m]) ms)) = []"
  by (induction ms) simp_all

lemma no_deed_event [deed_simps]: "filter deed (map EvModelEvent evs) = []"
  by (induction evs) simp_all

lemma deeds_failed_calls [deed_simps]: "deeds (answer_failed_calls env w cs s) = deeds s"
  by (simp add: answer_failed_calls_def deed_simps Let_def)

section \<open>How a step ends\<close>

text \<open>A step that leaves the deeds alone, but for the end of the turn.\<close>

definition ends_well :: "loop_effect list \<Rightarrow> loop_step \<Rightarrow> bool" where
  "ends_well ds st \<longleftrightarrow>
     (case st of
        Again s' \<Rightarrow> deeds s' = ds
      | Done r s' \<Rightarrow>
          deeds s' = ds @ (if tu_kind r = TurnError then [EvTurnFailed (hd (tu_errors r))] else []) @ [EvTurnCompleted r]
          \<and> last (ls_trace s') = EvTurnCompleted r
      | Thrown s' \<Rightarrow> deeds s' = ds)"

lemma ends_again [simp]: "ends_well ds (again w u) = (deeds u = ds)" "ends_well ds (continued w reason u) = (deeds u = ds)"
    "ends_well ds (Thrown u) = (deeds u = ds)"
  by (simp_all add: ends_well_def again_def continued_def deed_simps)

lemma ends_finish:
  "tu_kind r \<noteq> TurnError \<Longrightarrow> ends_well ds (finish b r u) = (deeds u = ds)"
  by (simp add: ends_well_def finish_def deed_simps) (simp add: outs_def)

lemma ends_calls [simp]:
  "ends_well ds (abort_turn env b u) = (deeds u = ds)" "ends_well ds (succeed b v u) = (deeds u = ds)"
  by (simp_all add: abort_turn_def succeed_def ends_finish result_of_def deed_simps)

lemma ends_fail [simp]: "ends_well ds (fail_turn sr e v st u) = (deeds u = ds)"
  by (simp add: ends_well_def fail_turn_def finish_def result_of_def deed_simps) (simp add: outs_def)

lemma ends_model [simp]:
  "ends_well ds (fail_model sr e v st u) = (deeds u = ds)" "ends_well ds (surface_error env err u) = (deeds u = ds)"
  "ends_well ds (contextOverflowAfterEmergency env snap u) = (deeds u = ds)"
  "ends_well ds (exhausted a msg u) = (deeds u = ds)"
  by (simp_all add: fail_model_def surface_error_def contextOverflowAfterEmergency_def exhausted_def deed_simps Let_def split: option.split)

lemma ends_synthetic [simp]: "ends_well ds (continueWithSyntheticPrompt w d b u) = (deeds u = ds)"
  by (simp add: continueWithSyntheticPrompt_def deed_simps Let_def split: repair_decision.split option.split strip_mode.split js_num.split)

definition phase_well :: "loop_state \<Rightarrow> loop_step + loop_state \<Rightarrow> bool" where
  "phase_well s p \<longleftrightarrow> (case p of Inl st \<Rightarrow> ends_well (deeds s) st | Inr u \<Rightarrow> deeds u = deeds s)"

lemma output_recovery_well [simp]: "ends_well ds (output_recovery w tail u) = (deeds u = ds)"
  by (simp add: output_recovery_def deed_simps)

lemma retry_well [simp]: "ends_well ds (retry_after_recovery env w t a u) = (deeds u = ds)"
  by (simp add: retry_after_recovery_def deed_simps Let_def)

lemma first_empty_well [simp]: "ends_well ds (first_empty_retry env w t a u) = (deeds u = ds)"
  by (simp add: first_empty_retry_def deed_simps)

section \<open>The phases\<close>

lemma top_well: "phase_well s (top_phase env w s)"
  by (simp add: phase_well_def top_phase_def Let_def deed_simps)

lemma compact_well: "case compact_phase env w s of Inl st \<Rightarrow> ends_well (deeds s) st | Inr (u, b) \<Rightarrow> deeds u = deeds s"
  by (simp add: compact_phase_def Let_def deed_simps split: compact_answer.split)

lemma route_well: "case route_phase env w s of Inl st \<Rightarrow> ends_well (deeds s) st | Inr d \<Rightarrow> True"
  by (simp add: route_phase_def split: option.split)

lemma recompact_well: "case recompact_phase env w d s of Inl st \<Rightarrow> ends_well (deeds s) st | Inr (u, b) \<Rightarrow> deeds u = deeds s"
  by (simp add: recompact_phase_def Let_def deed_simps split: compact_answer.split)

lemma deeds_call_prefix [deed_simps]:
  "filter deed (case budget of None \<Rightarrow> [] | Some snap \<Rightarrow> [EvContextBudget snap]) = []"
  by (simp split: option.split)

text \<open>The request of a pass.\<close>

definition request :: "loop_env \<Rightarrow> string \<times> string \<Rightarrow> loop_state \<Rightarrow> loop_effect" where
  "request env t s = DoCallModel (fst t) (snd t) (max_out env s t) (ls_messages s)"

lemma call_well:
  "case call_phase env w t b s of
     Inl st \<Rightarrow> ends_well (deeds s) st \<or> ends_well (deeds s @ [request env t s]) st
   | Inr (u, a) \<Rightarrow> deeds u = deeds s @ [request env t s] \<and> a = assemble (Some (lw_responseId w)) (heard (lw_stream w))"
  by (simp add: call_phase_def request_def Let_def deed_simps split: option.split)

lemma interruption_well: "phase_well s (interruption_phase w a s)"
  by (simp add: phase_well_def interruption_phase_def Let_def deed_simps split: option.split interruption.split)

lemma unknown_well: "phase_well s (unknown_phase w a s)"
  by (simp add: phase_well_def unknown_phase_def Let_def deed_simps)

lemma repaired_well: "phase_well s (repaired_phase env w t a s)"
  by (simp add: phase_well_def repaired_phase_def Let_def deed_simps split: option.split prod.split)

lemma empty_well: "phase_well s (empty_phase env w t a s)"
  by (simp add: phase_well_def empty_phase_def Let_def deed_simps ends_finish result_of_def)

lemma recover_adjust_well [simp]: "ends_well ds (recover_adjust env w tg t n r sc u) = (deeds u = ds)"
  by (simp add: recover_adjust_def Let_def deed_simps)

lemma recover_compact_well [simp]: "ends_well ds (recover_compact env w tg t mc mo r u) = (deeds u = ds)"
  by (simp add: recover_compact_def Let_def deed_simps split: option.split compact_answer.split)

lemma react_well: "case react env w tg t d s of None \<Rightarrow> True | Some st \<Rightarrow> ends_well (deeds s) st"
  by (simp add: react_def Let_def deed_simps split: option.split recovery_decision.split)

lemma output_reached_well [simp]: "ends_well ds (output_reached env w t e u) = (deeds u = ds)"
  by (simp add: output_reached_def Let_def deed_simps split: option.split)

lemma error_well: "ends_well (deeds s) (error_phase env w t a e s)"
proof -
  let ?s = "answer_failed_calls env w (collectToolCalls (content (am_message a))) s"
  have "deeds ?s = deeds s" by (simp add: deed_simps)
  then show ?thesis
    using react_well [of ?s env w "modelErrorTarget e (fst t) (snd t)" t "le_recover env e (ls_messages ?s) (ls_hasAttemptedCompact ?s)"]
    by (simp add: error_phase_def Let_def deed_simps split: option.splits)
qed

lemma text_well: "ends_well (deeds s) (text_phase env w t a s)"
proof -
  have late: "phase_well s (late_empty_guard env w t a s)"
    by (simp add: phase_well_def late_empty_guard_def Let_def deed_simps)
  have cut: "phase_well u (cut_off_text w a u)" for u
    by (simp add: phase_well_def cut_off_text_def Let_def deed_simps)
  have stop: "ends_well (deeds u) (stop_turn w a u)" for u
    by (simp add: stop_turn_def Let_def deed_simps split: option.split)
  have steer: "ends_well (deeds u) (steer_or_stop env w a u)" for u
    using stop by (simp add: steer_or_stop_def deed_simps split: option.split list.split)
  show ?thesis
  proof (cases "late_empty_guard env w t a s")
    case (Inl st)
    then show ?thesis using late by (simp add: text_phase_def phase_well_def)
  next
    case 1: (Inr s1)
    show ?thesis
    proof (cases "cut_off_text w a s1")
      case (Inl st)
      then show ?thesis using late cut [of s1] 1 by (simp add: text_phase_def phase_well_def)
    next
      case 2: (Inr s2)
      have "deeds s2 = deeds s" using late cut [of s1] 1 2 by (simp add: phase_well_def)
      then show ?thesis using 1 2 steer [of "s2\<lparr>ls_largeFileRepair := snd (onNoToolCalls (ls_largeFileRepair s2))\<rparr>"]
        by (cases "onNoToolCalls (ls_largeFileRepair s2)") (simp add: text_phase_def deed_simps Let_def split: option.split)
    qed
  qed
qed

section \<open>The calls of a pass\<close>

lemma deeds_mode [deed_simps]: "deeds (request_mode m s) = deeds s"
  by (simp add: request_mode_def Let_def deed_simps)

lemma deeds_taken: "deeds (fold take_result rs s) = deeds s @ map EvToolResult rs"
proof (induction rs arbitrary: s)
  case (Cons r rs)
  have "deeds (take_result r s) = deeds s @ [EvToolResult r]"
    by (simp add: take_result_def Let_def deed_simps split: option.split)
  then show ?case by (simp add: Cons)
qed simp

lemma deeds_appended [deed_simps]: "deeds (append_results env w rs s) = deeds s"
  by (simp add: append_results_def Let_def deed_simps split: apply_answer.split prod.split)

lemma breaker_well: "phase_well s (breaker w rs s)"
  by (simp add: phase_well_def breaker_def count_invalid_def Let_def deed_simps)

lemma next_turn_well: "ends_well (deeds s) (next_turn env w s)"
  by (simp add: next_turn_def deed_simps ends_finish result_of_def)

lemma settle_well: "ends_well (deeds s) (settle_results env w d rs s)"
proof (cases "d = None \<and> findToolLifecycleBlock rs = None")
  case True
  obtain d' rep where d': "(if all_invalid rs \<and> pendingLargeFileRepair (ls_largeFileRepair s)
      then onInvalidToolInput (ls_largeFileRepair s) else (None, ls_largeFileRepair s)) = (d', rep)" by fastforce
  let ?s = "s\<lparr>ls_largeFileRepair := rep\<rparr>"
  have "ends_well (deeds ?s) (case breaker w rs ?s of Inl st \<Rightarrow> st | Inr u \<Rightarrow> next_turn env w u)"
    using breaker_well [of ?s w rs] next_turn_well by (simp add: phase_well_def split: sum.splits) (metis next_turn_well)
  then show ?thesis using d' True by (simp add: settle_results_def deed_simps Let_def split: option.split)
qed (auto simp: settle_results_def split: option.split)

text \<open>An answer whose calls may run: no error, nothing repaired under one of the reasons length, tool call and stop, and
  no end with an unknown reason.\<close>

definition clean_answer :: "assembled \<Rightarrow> bool" where
  "clean_answer a \<longleftrightarrow>
     am_error a = None \<and> \<not> (am_repaired a \<and> am_finishReason a \<in> {FinLength, FinToolCall, FinStop})
     \<and> \<not> (am_hasMessageEnd a \<and> am_finishReason a = FinUnknown)"

definition clean_answers :: "loop_world \<Rightarrow> assembled set" where
  "clean_answers w = {a. a = assemble (Some (lw_responseId w)) (heard (lw_stream w)) \<and> clean_answer a}"

text \<open>What a pass adds to the deeds: nothing; the execution of the calls of a clean answer, in a turn that is then
  aborted; or that and one result for each call.\<close>

definition ran :: "assembled \<Rightarrow> loop_effect" where
  "ran a = DoExecuteTools (collectToolCalls (content (am_message a)))"

definition pass_well :: "assembled set \<Rightarrow> loop_effect list \<Rightarrow> loop_step \<Rightarrow> bool" where
  "pass_well as ds st \<longleftrightarrow>
     ends_well ds st
     \<or> (\<exists>a\<in>as. (ends_well (ds @ [ran a]) st \<and> (case st of Done r _ \<Rightarrow> tu_kind r = TurnAborted | _ \<Rightarrow> False))
          \<or> (\<exists>rs. map pr_toolCallId rs = tool_call_ids (content (am_message a)) \<and> ends_well (ds @ ran a # map EvToolResult rs) st))"

lemma annotate_ids: "map pr_toolCallId (annotateRepeatedToolFailures template rs keys) = map pr_toolCallId rs"
  by (simp add: annotateRepeatedToolFailures_def annotate_failure_def Let_def)

lemma tools_well: "pass_well {a} (deeds s) (tools_phase env w a s)"
proof -
  let ?calls = "collectToolCalls (content (am_message a))"
  define s0 where "s0 = outs [EvToolCallsDetected ?calls] s"
  define s1 where "s1 = outs [DoExecuteTools ?calls] s0"
  have s0: "deeds s0 = deeds s" by (simp add: s0_def deed_simps)
  have s1: "deeds s1 = deeds s @ [ran a]" by (simp add: s1_def s0 deed_simps ran_def)
  show ?thesis
  proof (cases "aborted_at 10 w s0 \<or> aborted_at 11 w s1")
    case True
    have kind: "case abort_turn env False u of Done r _ \<Rightarrow> tu_kind r = TurnAborted | _ \<Rightarrow> False" for u
      by (simp add: abort_turn_def finish_def result_of_def)
    show ?thesis using True kind s0 s1
      by (auto simp: tools_phase_def s0_def [symmetric] s1_def [symmetric] Let_def pass_well_def)
  next
    case False
    obtain fp again where f: "detectRepeatedToolFailure (le_template env) (pair_results env w ?calls s1) (ls_lastToolFailureFingerprint s1) = (fp, again)"
      by fastforce
    define rs where "rs = annotateRepeatedToolFailures (le_template env) (pair_results env w ?calls s1) again"
    obtain d rep where d: "analyzeToolResults rs (repair_context_of a) (ls_largeFileRepair s1) = (d, rep)" by fastforce
    define u where "u = append_results env w rs (fold take_result rs (s1\<lparr>ls_lastToolFailureFingerprint := fp,
      ls_largeFileRepair := rep, ls_permissionDenials := ls_permissionDenials s1 @ collectPermissionDenials rs\<rparr>))"
    have "deeds u = deeds s @ ran a # map EvToolResult rs" by (simp add: u_def deed_simps deeds_taken s1)
    moreover have "map pr_toolCallId rs = tool_call_ids (content (am_message a))"
      by (simp add: rs_def annotate_ids pair_results_def ensureToolResultPairing_ids ids_collectToolCalls)
    moreover have "tools_phase env w a s = settle_results env w d rs u"
      using False f d by (simp add: tools_phase_def Let_def s0_def [symmetric] s1_def [symmetric] rs_def [symmetric] u_def)
    ultimately have "map pr_toolCallId rs = tool_call_ids (content (am_message a)) \<and> ends_well (deeds s @ ran a # map EvToolResult rs) (tools_phase env w a s)"
      using settle_well [of u env w d rs] by simp
    then show ?thesis by (auto simp: pass_well_def)
  qed
qed

lemma pass_well_mono: "ends_well ds st \<Longrightarrow> pass_well as ds st" "pass_well as ds st \<Longrightarrow> as \<subseteq> bs \<Longrightarrow> pass_well bs ds st"
  by (auto simp: pass_well_def)

lemma answer_well:
  "pass_well {b. b = a \<and> clean_answer a} (deeds s) (answer_phase env w t a s)"
proof (cases "interruption_phase w a s")
  case (Inl st)
  then show ?thesis using interruption_well [of s w a] by (simp add: answer_phase_def phase_well_def pass_well_mono)
next
  case 1: (Inr s1)
  then have d1: "deeds s1 = deeds s" using interruption_well [of s w a] by (simp add: phase_well_def)
  show ?thesis
  proof (cases "unknown_phase w a s1")
    case (Inl st)
    then show ?thesis using unknown_well [of s1 w a] 1 d1 by (simp add: answer_phase_def phase_well_def pass_well_mono)
  next
    case 2: (Inr s2)
    then have d2: "deeds s2 = deeds s" using unknown_well [of s1 w a] d1 by (simp add: phase_well_def)
    have known: "\<not> (am_error a = None \<and> am_hasMessageEnd a \<and> am_finishReason a = FinUnknown)"
      using 2 by (auto simp: unknown_phase_def Let_def split: if_splits)
    show ?thesis
    proof (cases "repaired_phase env w t a s2")
      case (Inl st)
      then show ?thesis using repaired_well [of s2 env w t a] 1 2 d2 by (simp add: answer_phase_def phase_well_def pass_well_mono)
    next
      case 3: (Inr s3)
      then have d3: "deeds s3 = deeds s" using repaired_well [of s2 env w t a] d2 by (simp add: phase_well_def)
      have whole: "\<not> dirty_calls a"
        using 3 by (auto simp: repaired_phase_def Let_def split: if_splits prod.splits option.splits)
      show ?thesis
      proof (cases "empty_phase env w t a s3")
        case (Inl st)
        then show ?thesis using empty_well [of s3 env w t a] 1 2 3 d3 by (simp add: answer_phase_def phase_well_def pass_well_mono)
      next
        case 4: (Inr s4)
        let ?s5 = "show_assistant (am_message a) (push [am_message a] s4)"
        have d5: "deeds ?s5 = deeds s" using empty_well [of s3 env w t a] 4 d3 by (simp add: phase_well_def deed_simps)
        show ?thesis
        proof (cases "am_error a = None \<and> collectToolCalls (content (am_message a)) \<noteq> []")
          case True
          then have "{a} \<subseteq> {b. b = a \<and> clean_answer a}" using known whole by (simp add: clean_answer_def dirty_calls_def)
          moreover have "pass_well {a} (deeds s) (tools_phase env w a ?s5)" using tools_well [of a ?s5 env w] by (simp add: d5)
          ultimately show ?thesis using True 1 2 3 4 by (simp add: answer_phase_def pass_well_mono)
        next
          case False
          then show ?thesis using error_well [of ?s5 env w t a] text_well [of ?s5 env w t a] 1 2 3 4
            by (auto simp: answer_phase_def d5 Let_def intro: pass_well_mono(1) split: option.split)
        qed
      qed
    qed
  qed
qed

definition only_requests :: "loop_effect list \<Rightarrow> bool" where
  "only_requests es \<longleftrightarrow> list_all (\<lambda>e. case e of DoCallModel _ _ _ _ \<Rightarrow> True | _ \<Rightarrow> False) es"

lemma only_requests_simps [simp]: "only_requests []" "only_requests [request env t s]"
  by (simp_all add: only_requests_def request_def)

lemma iteration_well: "\<exists>rq. only_requests rq \<and> pass_well (clean_answers w) (deeds s @ rq) (iteration env w s)"
proof (cases "top_phase env w s")
  case (Inl st)
  then have "pass_well (clean_answers w) (deeds s @ []) (iteration env w s)"
    using top_well [of s env w] by (simp add: iteration_def phase_well_def pass_well_mono)
  then show ?thesis using only_requests_simps by blast
next
  case 1: (Inr s1)
  then have d1: "deeds s1 = deeds s" using top_well [of s env w] by (simp add: phase_well_def)
  have quiet: ?thesis if "ends_well (deeds s) (iteration env w s)"
    using pass_well_mono(1) [OF that] only_requests_simps(1) by (metis append_Nil2)
  show ?thesis
  proof (cases "compact_phase env w s1")
    case (Inl st)
    then show ?thesis using compact_well [of s1 env w] 1 d1 by (intro quiet) (simp add: iteration_def)
  next
    case 2: (Inr p)
    obtain s2 b where p: "p = (s2, b)" by fastforce
    then have d2: "deeds s2 = deeds s" using compact_well [of s1 env w] 2 d1 by simp
    show ?thesis
    proof (cases "route_phase env w s2")
      case (Inl st)
      then show ?thesis using route_well [of s2 env w] 1 2 p d2 by (intro quiet) (simp add: iteration_def)
    next
      case 3: (Inr d)
      show ?thesis
      proof (cases "recompact_phase env w d s2")
        case (Inl st)
        then show ?thesis using recompact_well [of s2 env w d] 1 2 3 p d2 by (intro quiet) (simp add: iteration_def)
      next
        case 4: (Inr q)
        obtain s3 e where q: "q = (s3, e)" by fastforce
        then have d3: "deeds s3 = deeds s" using recompact_well [of s2 env w d] 4 d2 by simp
        let ?call = "call_phase env w (fst d) (if e then None else b) s3"
        note call = call_well [where s = s3 and env = env and w = w and t = "fst d" and b = "if e then None else b"]
        show ?thesis
        proof (cases ?call)
          case (Inl st)
          then have "iteration env w s = st" using 1 2 3 4 p q by (simp add: iteration_def)
          moreover have "ends_well (deeds s) st \<or> ends_well (deeds s @ [request env (fst d) s3]) st" using call Inl d3 by simp
          ultimately show ?thesis using quiet pass_well_mono(1) only_requests_simps(2) by metis
        next
          case 5: (Inr r)
          obtain s4 a where r: "r = (s4, a)" by fastforce
          have d4: "deeds s4 = deeds s @ [request env (fst d) s3]" and a: "a = assemble (Some (lw_responseId w)) (heard (lw_stream w))"
            using call 5 r d3 by simp_all
          have "{b. b = a \<and> clean_answer a} \<subseteq> clean_answers w" by (auto simp: clean_answers_def a)
          then have "pass_well (clean_answers w) (deeds s @ [request env (fst d) s3]) (iteration env w s)"
            using answer_well [of a s4 env w "fst d"] 1 2 3 4 5 p q r by (simp add: iteration_def d4 pass_well_mono)
          then show ?thesis using only_requests_simps(2) by blast
        qed
      qed
    qed
  qed
qed

section \<open>The deeds of a whole turn\<close>

fun is_end :: "loop_effect \<Rightarrow> bool" where
  "is_end (EvTurnFailed e) = True"
| "is_end (EvTurnCompleted r) = True"
| "is_end e = False"

fun run_ids_of :: "loop_effect \<Rightarrow> string list" where
  "run_ids_of (DoExecuteTools cs) = map tc_id cs"
| "run_ids_of e = []"

fun shown_ids_of :: "loop_effect \<Rightarrow> string list" where
  "shown_ids_of (EvToolResult r) = [pr_toolCallId r]"
| "shown_ids_of e = []"

definition run_ids :: "loop_effect list \<Rightarrow> string list" where "run_ids es = concat (map run_ids_of es)"
definition shown_ids :: "loop_effect list \<Rightarrow> string list" where "shown_ids es = concat (map shown_ids_of es)"
definition executed :: "loop_effect list \<Rightarrow> tool_call list set" where "executed es = {cs. DoExecuteTools cs \<in> set es}"

definition answer_calls :: "assembled \<Rightarrow> tool_call list" where "answer_calls a = collectToolCalls (content (am_message a))"

text \<open>All of that is read off the deeds.\<close>

lemma only_deeds_count:
  "filter is_end (ls_trace s) = filter is_end (deeds s)" "run_ids (ls_trace s) = run_ids (deeds s)"
  "shown_ids (ls_trace s) = shown_ids (deeds s)" "executed (ls_trace s) = executed (deeds s)"
proof -
  have "is_end e \<Longrightarrow> deed e" "\<not> deed e \<Longrightarrow> run_ids_of e = []" "\<not> deed e \<Longrightarrow> shown_ids_of e = []" for e
    by (cases e; simp)+
  note silent = this
  have "filter is_end es = filter is_end (filter deed es)" "run_ids es = run_ids (filter deed es)"
      "shown_ids es = shown_ids (filter deed es)" "executed es = executed (filter deed es)" for es
    by (induction es) (auto simp: run_ids_def shown_ids_def executed_def silent)
  then show "filter is_end (ls_trace s) = filter is_end (deeds s)" "run_ids (ls_trace s) = run_ids (deeds s)"
    "shown_ids (ls_trace s) = shown_ids (deeds s)" "executed (ls_trace s) = executed (deeds s)"
    unfolding deeds_def by blast+
qed

definition open_deeds :: "assembled set \<Rightarrow> loop_effect list \<Rightarrow> bool" where
  "open_deeds as ds \<longleftrightarrow> filter is_end ds = [] \<and> shown_ids ds = run_ids ds \<and> executed ds \<subseteq> answer_calls ` as"

definition turn_well :: "assembled set \<Rightarrow> loop_step \<Rightarrow> bool" where
  "turn_well as st \<longleftrightarrow>
     (case st of
        Again s \<Rightarrow> open_deeds as (deeds s)
      | Thrown s \<Rightarrow> open_deeds as (deeds s)
      | Done r s \<Rightarrow> (\<exists>ds. ends_well ds st
          \<and> (open_deeds as ds \<or> (tu_kind r = TurnAborted \<and> (\<exists>ds0. \<exists>a\<in>as. open_deeds as ds0 \<and> ds = ds0 @ [ran a])))))"

lemma ran_deeds: "is_end (ran a) = False" "run_ids [ran a] = map tc_id (answer_calls a)" "shown_ids [ran a] = []" "executed [ran a] = {answer_calls a}"
  by (simp_all add: ran_def run_ids_def shown_ids_def executed_def answer_calls_def)

lemma deeds_append: "run_ids (xs @ ys) = run_ids xs @ run_ids ys" "shown_ids (xs @ ys) = shown_ids xs @ shown_ids ys"
    "executed (xs @ ys) = executed xs \<union> executed ys"
  by (auto simp: run_ids_def shown_ids_def executed_def)

lemma result_deeds: "run_ids (map EvToolResult rs) = []" "filter is_end (map EvToolResult rs) = []"
    "executed (map EvToolResult rs) = {}" "shown_ids (map EvToolResult rs) = map pr_toolCallId rs"
  by (induction rs) (auto simp: run_ids_def shown_ids_def executed_def)

lemma open_deeds_ran:
  assumes "open_deeds as ds" "a \<in> as" "map pr_toolCallId rs = tool_call_ids (content (am_message a))"
  shows "open_deeds as (ds @ ran a # map EvToolResult rs)"
proof -
  have "run_ids (ran a # es) = tool_call_ids (content (am_message a)) @ run_ids es" "shown_ids (ran a # es) = shown_ids es"
      "executed (ran a # es) = insert (answer_calls a) (executed es)" for es
    by (auto simp: ran_def run_ids_def shown_ids_def executed_def answer_calls_def ids_collectToolCalls)
  then show ?thesis using assms by (simp add: open_deeds_def deeds_append ran_deeds result_deeds)
qed

lemma open_deeds_requests:
  assumes "only_requests rq" "open_deeds as ds"
  shows "open_deeds as (ds @ rq)"
proof -
  have "filter is_end rq = [] \<and> run_ids rq = [] \<and> shown_ids rq = [] \<and> executed rq = {}" using assms(1)
    by (induction rq) (auto simp: only_requests_def run_ids_def shown_ids_def executed_def split: loop_effect.splits)
  then show ?thesis using assms(2) by (simp add: open_deeds_def deeds_append)
qed

lemma pass_turn_well:
  assumes "pass_well as ds0 st" "open_deeds as ds0"
  shows "turn_well as st"
proof -
  have closed: "turn_well as st" if "ends_well ds st" "open_deeds as ds" for ds
  proof (cases st)
    case (Done r u)
    then show ?thesis using that by (auto simp: turn_well_def)
  qed (use that in \<open>simp_all add: turn_well_def ends_well_def\<close>)
  from assms(1) consider "ends_well ds0 st"
    | a where "a \<in> as" "ends_well (ds0 @ [ran a]) st" "case st of Done r _ \<Rightarrow> tu_kind r = TurnAborted | _ \<Rightarrow> False"
    | a rs where "a \<in> as" "map pr_toolCallId rs = tool_call_ids (content (am_message a))"
        "ends_well (ds0 @ ran a # map EvToolResult rs) st"
    unfolding pass_well_def by blast
  then show ?thesis
  proof cases
    case 1
    then show ?thesis using closed assms(2) by blast
  next
    case 2
    then show ?thesis using assms(2) by (cases st) (auto simp: turn_well_def)
  next
    case 3
    then show ?thesis using closed open_deeds_ran [OF assms(2)] by blast
  qed
qed

lemma run_turn_well:
  assumes "open_deeds as (deeds s)" "\<And>k. clean_answers (ws k) \<subseteq> as"
  shows "turn_well as (run_turn n env ws s)"
  using assms
proof (induction n arbitrary: ws s)
  case 0
  then show ?case by (simp add: turn_well_def)
next
  case (Suc n)
  have well: "turn_well as (iteration env (ws 0) s)"
  proof -
    obtain rq where "only_requests rq" "pass_well (clean_answers (ws 0)) (deeds s @ rq) (iteration env (ws 0) s)"
      using iteration_well by blast
    then show ?thesis using pass_turn_well pass_well_mono(2) open_deeds_requests Suc.prems by meson
  qed
  show ?case
  proof (cases "iteration env (ws 0) s")
    case (Again u)
    then have "open_deeds as (deeds u)" using well by (simp add: turn_well_def)
    then show ?thesis using Suc.IH [of u "\<lambda>k. ws (Suc k)"] Suc.prems(2) Again by simp
  qed (use well in simp_all)
qed

definition turn_answers :: "(nat \<Rightarrow> loop_world) \<Rightarrow> assembled set" where
  "turn_answers ws = (\<Union>k. clean_answers (ws k))"

lemma turn_well_start: "turn_well (turn_answers ws) (run_turn n env ws (start_turn input obj))"
proof (rule run_turn_well)
  have "ls_trace (start_turn input obj) = []" by (simp add: start_turn_def split: prod.split)
  then show "open_deeds (turn_answers ws) (deeds (start_turn input obj))"
    by (simp add: deeds_def open_deeds_def run_ids_def shown_ids_def executed_def)
qed (auto simp: turn_answers_def)

text \<open>The end of a turn names its result, and nothing else in the turn does.\<close>

definition turn_ends :: "turn_result \<Rightarrow> loop_effect list" where
  "turn_ends r = (if tu_kind r = TurnError then [EvTurnFailed (hd (tu_errors r))] else []) @ [EvTurnCompleted r]"

lemma turn_ends_deeds: "filter is_end (turn_ends r) = turn_ends r" "run_ids (turn_ends r) = []" "shown_ids (turn_ends r) = []"
    "executed (turn_ends r) = {}"
  by (auto simp: turn_ends_def run_ids_def shown_ids_def executed_def)

lemma turn_well_Done:
  assumes "turn_well as (Done r s)"
  shows "filter is_end (ls_trace s) = turn_ends r \<and> last (ls_trace s) = EvTurnCompleted r \<and> executed (ls_trace s) \<subseteq> answer_calls ` as
    \<and> (shown_ids (ls_trace s) = run_ids (ls_trace s)
       \<or> (tu_kind r = TurnAborted \<and> (\<exists>a\<in>as. run_ids (ls_trace s) = shown_ids (ls_trace s) @ map tc_id (answer_calls a))))"
proof -
  obtain ds where ds: "deeds s = ds @ turn_ends r" "last (ls_trace s) = EvTurnCompleted r"
    and two: "open_deeds as ds \<or> (tu_kind r = TurnAborted \<and> (\<exists>ds0. \<exists>a\<in>as. open_deeds as ds0 \<and> ds = ds0 @ [ran a]))"
    using assms unfolding turn_well_def ends_well_def turn_ends_def by auto
  from two show ?thesis
  proof
    assume "open_deeds as ds"
    then show ?thesis by (simp add: only_deeds_count ds deeds_append turn_ends_deeds open_deeds_def)
  next
    assume "tu_kind r = TurnAborted \<and> (\<exists>ds0. \<exists>a\<in>as. open_deeds as ds0 \<and> ds = ds0 @ [ran a])"
    then obtain ds0 a where "tu_kind r = TurnAborted" "a \<in> as" "open_deeds as ds0" "ds = ds0 @ [ran a]" by blast
    then show ?thesis
      by (auto simp: only_deeds_count ds deeds_append turn_ends_deeds open_deeds_def ran_deeds simp del: append_assoc)
  qed
qed

text \<open>C4. A turn is completed exactly once and that is the last thing it does; it reports a failure exactly once
  before, with the error the result carries, if the result is an error, and never otherwise; a turn that is still
  going on, or that an exception left, has reported neither.\<close>

theorem turn_completes_once:
  "case run_turn n env ws (start_turn input obj) of
     Again s \<Rightarrow> filter is_end (ls_trace s) = []
   | Thrown s \<Rightarrow> filter is_end (ls_trace s) = []
   | Done r s \<Rightarrow>
       filter is_end (ls_trace s)
         = (if tu_kind r = TurnError then [EvTurnFailed (hd (tu_errors r)), EvTurnCompleted r] else [EvTurnCompleted r])
       \<and> last (ls_trace s) = EvTurnCompleted r"
proof (cases "run_turn n env ws (start_turn input obj)")
  case (Done r s)
  then show ?thesis using turn_well_Done turn_well_start [of ws n env input obj] by (auto simp: turn_ends_def)
qed (use turn_well_start [of ws n env input obj] in \<open>simp_all add: turn_well_def open_deeds_def only_deeds_count\<close>)

text \<open>C3. What the executor gets, and that every call it gets is answered: the calls it is given in a turn are those of
  answers that came without an error, that were not repaired while their finish reason is length, tool call or stop,
  and that did not end with an unknown finish reason (a repaired answer whose stream had no end, or that ended for
  another reason, does run); and the results shown are one per call, in order and under its id, except that an abort
  may leave out those of the last execution.\<close>

theorem clean_calls_run_and_answered:
  "case run_turn n env ws (start_turn input obj) of
     Again s \<Rightarrow> executed (ls_trace s) \<subseteq> answer_calls ` turn_answers ws \<and> shown_ids (ls_trace s) = run_ids (ls_trace s)
   | Thrown s \<Rightarrow> executed (ls_trace s) \<subseteq> answer_calls ` turn_answers ws \<and> shown_ids (ls_trace s) = run_ids (ls_trace s)
   | Done r s \<Rightarrow>
       executed (ls_trace s) \<subseteq> answer_calls ` turn_answers ws
       \<and> (shown_ids (ls_trace s) = run_ids (ls_trace s)
          \<or> (tu_kind r = TurnAborted
             \<and> (\<exists>a\<in>turn_answers ws. run_ids (ls_trace s) = shown_ids (ls_trace s) @ map tc_id (answer_calls a))))"
proof (cases "run_turn n env ws (start_turn input obj)")
  case (Done r s)
  then show ?thesis using turn_well_Done turn_well_start [of ws n env input obj] by simp
qed (use turn_well_start [of ws n env input obj] in \<open>simp_all add: turn_well_def open_deeds_def only_deeds_count\<close>)

end
