(* ===== verification/LoopTermination.thy ===== *)
theory LoopTermination
  imports AgentLoop
begin

text \<open>
  How long a turn can go on. Every pass of the loop that does not end the turn is paid for: with a turn of the
  budget, with a recovery that a turn may use only once or a few times, or with one that is restored only when calls
  were executed. The one unguarded recovery is the cut of the history on a context error.
\<close>

section \<open>What a state has left\<close>

definition once_left :: "loop_state \<Rightarrow> nat" where
  "once_left s = repairs_left (ls_largeFileRepair s) + (if ls_hasAttemptedCompact s then 0 else 1)
     + (MAX_JSON_SELF_CORRECT_RETRIES - ls_jsonSelfCorrectCount s) + (if ls_hasAttemptedReasoningContentRetry s then 0 else 1)"

definition turn_left :: "loop_state \<Rightarrow> nat" where
  "turn_left s = (if ls_hasAttemptedOutputRetry s then 0 else 1) + (if ls_hasAttemptedEmptyRetry s then 0 else 1)
     + (if ls_hasAttemptedImageStrip s then 0 else 1) + (MAX_OUTPUT_RECOVERY_LIMIT - ls_maxOutputRecoveryCount s)
     + (if ls_hasUsedInvalidGracePeriod s then 0 else 1)"

definition same_left :: "loop_state \<Rightarrow> loop_state \<Rightarrow> bool" where
  "same_left s s' \<longleftrightarrow> ls_turnCount s' = ls_turnCount s \<and> once_left s' = once_left s \<and> turn_left s' = turn_left s"

definition spends :: "loop_state \<Rightarrow> loop_state \<Rightarrow> bool" where
  "spends s s' \<longleftrightarrow> ls_turnCount s < ls_turnCount s'
     \<or> (ls_turnCount s' = ls_turnCount s
        \<and> (once_left s' < once_left s \<or> (once_left s' = once_left s \<and> turn_left s' < turn_left s)))"

text \<open>The budget of a step: nothing left to do, or a state that has less.\<close>

definition step_spends :: "loop_env \<Rightarrow> loop_state \<Rightarrow> loop_step \<Rightarrow> bool" where
  "step_spends env s st \<longleftrightarrow> (case st of Again s' \<Rightarrow> spends s s' \<and> within_turns env (ls_turnCount s') | _ \<Rightarrow> True)"

section \<open>Helpers leave the budget alone\<close>

named_theorems left_simps \<open>what the shared steps do to the budget\<close>

lemmas left_defs = once_left_def turn_left_def

lemma left_outs [left_simps]:
  "ls_turnCount (outs es s) = ls_turnCount s" "once_left (outs es s) = once_left s" "turn_left (outs es s) = turn_left s"
  "ls_streamInterruptionRecoveryCount (outs es s) = ls_streamInterruptionRecoveryCount s"
  "ls_unknownFinishRecoveryCount (outs es s) = ls_unknownFinishRecoveryCount s" "ls_aborted (outs es s) = ls_aborted s"
  by (simp_all add: outs_def left_defs)

lemma left_push [left_simps]:
  "ls_turnCount (push ms s) = ls_turnCount s" "once_left (push ms s) = once_left s" "turn_left (push ms s) = turn_left s"
  "ls_streamInterruptionRecoveryCount (push ms s) = ls_streamInterruptionRecoveryCount s"
  "ls_unknownFinishRecoveryCount (push ms s) = ls_unknownFinishRecoveryCount s" "ls_aborted (push ms s) = ls_aborted s"
  by (simp_all add: push_def left_defs)

lemma left_transient [left_simps]:
  "ls_turnCount (pushTransientSyntheticPrompt w p q s) = ls_turnCount s"
  "once_left (pushTransientSyntheticPrompt w p q s) = once_left s" "turn_left (pushTransientSyntheticPrompt w p q s) = turn_left s"
  "ls_streamInterruptionRecoveryCount (pushTransientSyntheticPrompt w p q s) = ls_streamInterruptionRecoveryCount s"
  "ls_unknownFinishRecoveryCount (pushTransientSyntheticPrompt w p q s) = ls_unknownFinishRecoveryCount s"
  "ls_aborted (pushTransientSyntheticPrompt w p q s) = ls_aborted s"
  by (simp_all add: pushTransientSyntheticPrompt_def push_def left_defs Let_def)

lemma left_set_cap [left_simps]:
  "ls_turnCount (set_cap t c s) = ls_turnCount s" "once_left (set_cap t c s) = once_left s" "turn_left (set_cap t c s) = turn_left s"
  "ls_aborted (set_cap t c s) = ls_aborted s"
  by (simp_all add: set_cap_def left_defs)

lemma left_adjust [left_simps]:
  "ls_turnCount (adjust_output t p n r s) = ls_turnCount s" "once_left (adjust_output t p n r s) = once_left s"
  "turn_left (adjust_output t p n r s) = turn_left s" "ls_aborted (adjust_output t p n r s) = ls_aborted s"
  by (simp_all add: adjust_output_def left_simps)

lemma left_steers [left_simps]:
  "ls_turnCount (applySteerMessages sts s) = ls_turnCount s" "once_left (applySteerMessages sts s) = once_left s"
  "turn_left (applySteerMessages sts s) = turn_left s" "ls_aborted (applySteerMessages sts s) = ls_aborted s"
  "ls_streamInterruptionRecoveryCount (applySteerMessages sts s) = ls_streamInterruptionRecoveryCount s"
  "ls_unknownFinishRecoveryCount (applySteerMessages sts s) = ls_unknownFinishRecoveryCount s"
  unfolding applySteerMessages_def
  by (induction sts arbitrary: s) (simp_all add: apply_steer_def add_allowed_def outs_def push_def left_defs)

lemma left_grow [left_simps]:
  "ls_turnCount (grow_output env t a s) = ls_turnCount s" "once_left (grow_output env t a s) = once_left s"
  "turn_left (grow_output env t a s) = turn_left s" "ls_aborted (grow_output env t a s) = ls_aborted s"
  by (simp_all add: grow_output_def left_simps Let_def split: option.split)

lemma left_show [left_simps]:
  "ls_turnCount (show_assistant m s) = ls_turnCount s" "once_left (show_assistant m s) = once_left s"
  "turn_left (show_assistant m s) = turn_left s" "ls_aborted (show_assistant m s) = ls_aborted s"
  "ls_streamInterruptionRecoveryCount (show_assistant m s) = ls_streamInterruptionRecoveryCount s"
  "ls_unknownFinishRecoveryCount (show_assistant m s) = ls_unknownFinishRecoveryCount s"
  by (simp_all add: show_assistant_def left_simps)

lemma left_keep_text [left_simps]:
  "ls_turnCount (keep_text m s) = ls_turnCount s" "once_left (keep_text m s) = once_left s" "turn_left (keep_text m s) = turn_left s"
  "ls_streamInterruptionRecoveryCount (keep_text m s) = ls_streamInterruptionRecoveryCount s"
  "ls_unknownFinishRecoveryCount (keep_text m s) = ls_unknownFinishRecoveryCount s" "ls_aborted (keep_text m s) = ls_aborted s"
  by (simp_all add: keep_text_def show_assistant_def outs_def push_def left_defs Let_def)

lemma left_persist [left_simps]:
  "ls_turnCount (persistCompactSnapshot ms i s) = ls_turnCount s" "once_left (persistCompactSnapshot ms i s) = once_left s"
  "turn_left (persistCompactSnapshot ms i s) = turn_left s" "ls_aborted (persistCompactSnapshot ms i s) = ls_aborted s"
  "ls_streamInterruptionRecoveryCount (persistCompactSnapshot ms i s) = ls_streamInterruptionRecoveryCount s"
  "ls_unknownFinishRecoveryCount (persistCompactSnapshot ms i s) = ls_unknownFinishRecoveryCount s"
  by (simp_all add: persistCompactSnapshot_def left_simps split: option.split)

lemma left_messages [left_simps]:
  "once_left (s\<lparr>ls_messages := ms\<rparr>) = once_left s" "turn_left (s\<lparr>ls_messages := ms\<rparr>) = turn_left s"
  "once_left (s\<lparr>ls_finalMessage := m\<rparr>) = once_left s" "turn_left (s\<lparr>ls_finalMessage := m\<rparr>) = turn_left s"
  "once_left (s\<lparr>ls_aborted := b\<rparr>) = once_left s" "turn_left (s\<lparr>ls_aborted := b\<rparr>) = turn_left s"
  "once_left (s\<lparr>ls_config := c\<rparr>) = once_left s" "turn_left (s\<lparr>ls_config := c\<rparr>) = turn_left s"
  "once_left (s\<lparr>ls_streamInterruptionRecoveryCount := k\<rparr>) = once_left s" "turn_left (s\<lparr>ls_streamInterruptionRecoveryCount := k\<rparr>) = turn_left s"
  "once_left (s\<lparr>ls_unknownFinishRecoveryCount := k\<rparr>) = once_left s" "turn_left (s\<lparr>ls_unknownFinishRecoveryCount := k\<rparr>) = turn_left s"
  "once_left (s\<lparr>ls_consecutiveEmptyCount := k\<rparr>) = once_left s" "turn_left (s\<lparr>ls_consecutiveEmptyCount := k\<rparr>) = turn_left s"
  "once_left (s\<lparr>ls_turnCount := i\<rparr>) = once_left s" "turn_left (s\<lparr>ls_turnCount := i\<rparr>) = turn_left s"
  "turn_left (s\<lparr>ls_largeFileRepair := r\<rparr>) = turn_left s"
  "once_left (s\<lparr>ls_structuredOutput := v\<rparr>) = once_left s" "turn_left (s\<lparr>ls_structuredOutput := v\<rparr>) = turn_left s"
  "once_left (s\<lparr>ls_permissionMode := pm\<rparr>) = once_left s" "turn_left (s\<lparr>ls_permissionMode := pm\<rparr>) = turn_left s"
  "once_left (s\<lparr>ls_permissionModeBeforePlan := bp\<rparr>) = once_left s" "turn_left (s\<lparr>ls_permissionModeBeforePlan := bp\<rparr>) = turn_left s"
  "once_left (s\<lparr>ls_trace := tr\<rparr>) = once_left s" "turn_left (s\<lparr>ls_trace := tr\<rparr>) = turn_left s"
  "once_left (s\<lparr>ls_caps := cs\<rparr>) = once_left s" "turn_left (s\<lparr>ls_caps := cs\<rparr>) = turn_left s"
  "once_left (s\<lparr>ls_hasAttemptedOutputRetry := b\<rparr>) = once_left s" "once_left (s\<lparr>ls_hasAttemptedEmptyRetry := b\<rparr>) = once_left s"
  "once_left (s\<lparr>ls_hasAttemptedImageStrip := b\<rparr>) = once_left s" "once_left (s\<lparr>ls_maxOutputRecoveryCount := k\<rparr>) = once_left s"
  by (simp_all add: left_defs)

lemma left_history [left_simps]:
  "ls_turnCount (strip_error_pair s) = ls_turnCount s" "once_left (strip_error_pair s) = once_left s" "turn_left (strip_error_pair s) = turn_left s"
  "ls_turnCount (cut_head r s) = ls_turnCount s" "once_left (cut_head r s) = once_left s" "turn_left (cut_head r s) = turn_left s"
  "ls_turnCount (replace_history ms s) = ls_turnCount s" "once_left (replace_history ms s) = once_left s" "turn_left (replace_history ms s) = turn_left s"
  "ls_aborted (strip_error_pair s) = ls_aborted s" "ls_aborted (cut_head r s) = ls_aborted s" "ls_aborted (replace_history ms s) = ls_aborted s"
  "ls_streamInterruptionRecoveryCount (replace_history ms s) = ls_streamInterruptionRecoveryCount s"
  "ls_unknownFinishRecoveryCount (replace_history ms s) = ls_unknownFinishRecoveryCount s"
  by (simp_all add: strip_error_pair_def cut_head_def replace_history_def left_simps)

lemma left_expire [left_simps]:
  "ls_turnCount (expireConsumedTransientPrompts s) = ls_turnCount s" "once_left (expireConsumedTransientPrompts s) = once_left s"
  "turn_left (expireConsumedTransientPrompts s) = turn_left s" "ls_aborted (expireConsumedTransientPrompts s) = ls_aborted s"
  "ls_streamInterruptionRecoveryCount (expireConsumedTransientPrompts s) = ls_streamInterruptionRecoveryCount s"
  "ls_unknownFinishRecoveryCount (expireConsumedTransientPrompts s) = ls_unknownFinishRecoveryCount s"
  by (simp_all add: expireConsumedTransientPrompts_def left_defs)

lemma left_answer_failed [left_simps]:
  "ls_turnCount (answer_failed_calls env w cs s) = ls_turnCount s" "once_left (answer_failed_calls env w cs s) = once_left s"
  "turn_left (answer_failed_calls env w cs s) = turn_left s" "ls_aborted (answer_failed_calls env w cs s) = ls_aborted s"
  by (simp_all add: answer_failed_calls_def left_simps Let_def)

section \<open>Steps that end the turn or go on\<close>

lemma ends_spend [simp]:
  "step_spends env s (finish b r u)" "step_spends env s (abort_turn env' b u)" "step_spends env s (fail_turn sr e v st u)"
  "step_spends env s (fail_model sr e v st u)" "step_spends env s (succeed b v u)" "step_spends env s (surface_error env' err u)"
  "step_spends env s (contextOverflowAfterEmergency env' snap u)" "step_spends env s (Thrown u)"
  by (simp_all add: step_spends_def finish_def abort_turn_def fail_turn_def fail_model_def succeed_def surface_error_def
      contextOverflowAfterEmergency_def Let_def)

lemma again_spends [simp]: "step_spends env s (again w u) \<longleftrightarrow> spends s u \<and> within_turns env (ls_turnCount u)"
  by (simp add: step_spends_def again_def spends_def left_simps)

lemma continued_spends [simp]: "step_spends env s (continued w reason u) \<longleftrightarrow> spends s u \<and> within_turns env (ls_turnCount u)"
  by (simp add: continued_def spends_def left_simps)

lemma spends_less: "ls_turnCount s' = ls_turnCount s \<Longrightarrow> once_left s' < once_left s \<Longrightarrow> spends s s'"
  "ls_turnCount s' = ls_turnCount s \<Longrightarrow> once_left s' = once_left s \<Longrightarrow> turn_left s' < turn_left s \<Longrightarrow> spends s s'"
  by (simp_all add: spends_def)

lemma spends_same: "same_left s u \<Longrightarrow> spends u s' \<Longrightarrow> spends s s'"
  by (auto simp: same_left_def spends_def)

lemma step_spends_same: "same_left s u \<Longrightarrow> step_spends env u st \<Longrightarrow> step_spends env s st"
  by (auto simp: step_spends_def intro: spends_same split: loop_step.splits)

lemma synthetic_spends:
  assumes "within_turns env (ls_turnCount s)"
    and "case d of RepairContinue _ _ _ \<Rightarrow> spends s0 s | RepairStop _ \<Rightarrow> True"
  shows "step_spends env s0 (continueWithSyntheticPrompt w d b s)"
proof (cases d)
  case (RepairContinue p q strip)
  show ?thesis
    using assms
    by (simp add: RepairContinue continueWithSyntheticPrompt_def Let_def spends_def left_simps
        split: option.splits strip_mode.splits js_num.splits if_splits)
qed (simp add: continueWithSyntheticPrompt_def)

text \<open>What one use of a recovery leaves.\<close>

lemma use_output_recovery:
  "ls_maxOutputRecoveryCount s < MAX_OUTPUT_RECOVERY_LIMIT \<Longrightarrow>
   turn_left (s\<lparr>ls_maxOutputRecoveryCount := Suc (ls_maxOutputRecoveryCount s)\<rparr>) < turn_left s"
  by (simp add: turn_left_def)

lemma use_flags:
  "\<not> ls_hasAttemptedOutputRetry s \<Longrightarrow> turn_left (s\<lparr>ls_hasAttemptedOutputRetry := True\<rparr>) < turn_left s"
  "\<not> ls_hasAttemptedImageStrip s \<Longrightarrow> turn_left (s\<lparr>ls_hasAttemptedImageStrip := True\<rparr>) < turn_left s"
  "\<not> ls_hasAttemptedCompact s \<Longrightarrow> once_left (s\<lparr>ls_hasAttemptedCompact := True\<rparr>) < once_left s"
  "ls_jsonSelfCorrectCount s < MAX_JSON_SELF_CORRECT_RETRIES \<Longrightarrow>
   once_left (s\<lparr>ls_jsonSelfCorrectCount := Suc (ls_jsonSelfCorrectCount s)\<rparr>) < once_left s"
  "\<not> ls_hasAttemptedReasoningContentRetry s \<Longrightarrow> once_left (s\<lparr>ls_hasAttemptedReasoningContentRetry := True\<rparr>) < once_left s"
  by (simp_all add: once_left_def turn_left_def)

lemma use_empty_retry:
  "\<not> ls_hasAttemptedEmptyRetry s \<Longrightarrow>
   turn_left (s\<lparr>ls_hasAttemptedEmptyRetry := True, ls_maxOutputRecoveryCount := Suc (ls_maxOutputRecoveryCount s)\<rparr>) < turn_left s"
  by (simp add: turn_left_def)

section \<open>The phases of an answer\<close>

lemma output_recovery_spends:
  "ls_maxOutputRecoveryCount s < MAX_OUTPUT_RECOVERY_LIMIT \<Longrightarrow> within_turns env (ls_turnCount s) \<Longrightarrow>
   step_spends env s (output_recovery w tail s)"
  using use_output_recovery [of s] by (simp add: output_recovery_def spends_def left_simps)

lemma bump_spends:
  assumes "\<not> ls_hasAttemptedOutputRetry s" "within_turns env (ls_turnCount s)"
  shows "step_spends env s (continued w r (adjust_output t p n q (set_cap t c (s\<lparr>ls_hasAttemptedOutputRetry := True\<rparr>))))"
    and "step_spends env s (continued w r (adjust_output t p n q (set_cap t c (strip_error_pair (s\<lparr>ls_hasAttemptedOutputRetry := True\<rparr>)))))"
  using assms use_flags(1) [OF assms(1)] by (simp_all add: spends_def left_simps)

lemma repaired_spends:
  assumes "within_turns env (ls_turnCount s)"
  shows "case repaired_phase env w t a s of Inl st \<Rightarrow> step_spends env s st | Inr u \<Rightarrow> u = s"
proof (cases "dirty_calls a")
  case True
  obtain d rep where d: "recoverFromRepairedTruncation (collectToolCalls (content (am_message a))) (ls_largeFileRepair s) = (d, rep)"
    by fastforce
  have cost: "costs_attempt (ls_largeFileRepair s) (d, rep)" using recover_cost d by metis
  let ?s = "s\<lparr>ls_largeFileRepair := rep\<rparr>"
  show ?thesis
  proof (cases d)
    case (Some x)
    have "case x of RepairContinue _ _ _ \<Rightarrow> spends s ?s | RepairStop _ \<Rightarrow> True"
      using cost by (cases x) (simp_all add: Some costs_attempt_def is_continue_def spends_def left_defs)
    then show ?thesis using assms by (simp add: repaired_phase_def True d Some synthetic_spends)
  next
    case None
    have rep: "repairs_left rep = repairs_left (ls_largeFileRepair s)" using cost by (simp add: None costs_attempt_def is_continue_def)
    have same: "same_left s ?s" by (simp add: same_left_def left_defs rep)
    have "case repaired_phase env w t a s of Inl st \<Rightarrow> step_spends env ?s st | Inr u \<Rightarrow> u = s"
      using assms bump_spends(1) [of ?s env] output_recovery_spends [of ?s env]
      by (auto simp: repaired_phase_def True d None Let_def split: option.split)
    then show ?thesis using step_spends_same [OF same] by (simp split: sum.splits)
  qed
qed (simp add: repaired_phase_def)

lemma retry_spends:
  assumes "within_turns env (ls_turnCount s)"
  shows "step_spends env s (retry_after_recovery env w t a s)"
  using use_output_recovery [of s] assms
  by (simp add: retry_after_recovery_def Let_def left_simps spends_def) (simp add: turn_left_def)

lemma first_empty_spends:
  assumes "within_turns env (ls_turnCount s)" "\<not> ls_hasAttemptedEmptyRetry s"
  shows "step_spends env s (first_empty_retry env w t a s)"
  using use_empty_retry [OF assms(2)] assms(1) by (simp add: first_empty_retry_def left_simps spends_def)

lemma empty_spends:
  assumes "within_turns env (ls_turnCount s)"
  shows "case empty_phase env w t a s of Inl st \<Rightarrow> step_spends env s st | Inr u \<Rightarrow> u = s"
  using retry_spends [OF assms] first_empty_spends [OF assms] by (simp add: empty_phase_def Let_def)

text \<open>The reactions of the context runtime, all but the repeated cut.\<close>

definition gives_up :: "loop_env \<Rightarrow> bool" where
  "gives_up env \<longleftrightarrow> (\<forall>e ms. case le_recover env e ms True of Some (TruncateHeadAndRetry _ _) \<Rightarrow> False | _ \<Rightarrow> True)"

text \<open>A step that keeps the budget and the mark of the compaction.\<close>

definition keeps_compact :: "loop_state \<Rightarrow> loop_state \<Rightarrow> bool" where
  "keeps_compact s u \<longleftrightarrow> same_left s u \<and> ls_hasAttemptedCompact u = ls_hasAttemptedCompact s"

lemma keeps_compact_refl [simp]: "keeps_compact s s"
  by (simp add: keeps_compact_def same_left_def)

lemma keeps_compact_steps [simp]:
  "keeps_compact s (outs es u) = keeps_compact s u" "keeps_compact s (set_cap t c u) = keeps_compact s u"
  "keeps_compact s (adjust_output t p n r u) = keeps_compact s u" "keeps_compact s (strip_error_pair u) = keeps_compact s u"
  "keeps_compact s (cut_head q u) = keeps_compact s u" "keeps_compact s (replace_history ms u) = keeps_compact s u"
  "keeps_compact s (also_routed target t k u) = keeps_compact s u"
  "keeps_compact s (persistCompactSnapshot ms i u) = keeps_compact s u"
  by (simp_all add: keeps_compact_def same_left_def left_simps outs_def set_cap_def adjust_output_def strip_error_pair_def
      cut_head_def replace_history_def also_routed_def persistCompactSnapshot_def split: option.split)

lemma compact_spends:
  assumes "keeps_compact s u" "within_turns env (ls_turnCount s)" "\<not> ls_hasAttemptedCompact s"
  shows "step_spends env s (continued w r (u\<lparr>ls_hasAttemptedCompact := True\<rparr>))"
  using assms use_flags(3) [of u] by (simp add: keeps_compact_def same_left_def spends_def)

lemma recover_compact_spends:
  assumes "within_turns env (ls_turnCount s)" "\<not> ls_hasAttemptedCompact s"
  shows "step_spends env s (recover_compact env w target t mc mo reason s)"
  using compact_spends [OF _ assms]
  by (simp add: recover_compact_def Let_def split: option.split compact_answer.split)

lemma react_spends:
  assumes "within_turns env (ls_turnCount s)" and "gives_up env"
    and "react env w target t (le_recover env e ms (ls_hasAttemptedCompact s)) s = Some st"
  shows "step_spends env s st"
proof (cases "le_recover env e ms (ls_hasAttemptedCompact s)")
  case (Some d)
  have acted: "react env w target t (Some d) s = Some st" using assms(3) Some by simp
  show ?thesis
  proof (cases d)
    case (StripImagesAndRetry x)
    then show ?thesis using acted assms(1) use_flags(2) [of s]
      by (auto simp: react_def Let_def left_simps spends_def split: if_splits)
  next
    case (CompactAndRetry x y z)
    then show ?thesis using acted recover_compact_spends [OF assms(1), of w target t x y z] by (auto simp: react_def split: if_splits)
  next
    case (TruncateHeadAndRetry r x)
    have "case le_recover env e ms True of Some (TruncateHeadAndRetry _ _) \<Rightarrow> False | _ \<Rightarrow> True"
      using assms(2) unfolding gives_up_def by blast
    then have "\<not> ls_hasAttemptedCompact s" using Some TruncateHeadAndRetry by (cases "ls_hasAttemptedCompact s") simp_all
    then show ?thesis using acted TruncateHeadAndRetry compact_spends [of s "cut_head r (strip_error_pair s)" env w] assms(1)
      by (auto simp: react_def)
  next
    case (AdjustOutputAndRetry n r sc)
    then show ?thesis using acted assms(1) use_flags(1) [of s]
      by (auto simp: react_def recover_adjust_def Let_def left_simps also_routed_def spends_def split: if_splits)
  next
    case (GiveUp x)
    then show ?thesis using acted by (simp add: react_def)
  qed
qed (use assms in \<open>simp add: react_def\<close>)

lemma set_flag_again: "ls_hasAttemptedOutputRetry s \<Longrightarrow> s\<lparr>ls_hasAttemptedOutputRetry := True\<rparr> = s"
  by (cases s) simp

lemma output_reached_spends:
  assumes "within_turns env (ls_turnCount s)"
  shows "step_spends env s (output_reached env w t e s)"
proof (cases "ls_hasAttemptedOutputRetry s")
  case True
  then show ?thesis using output_recovery_spends [OF _ assms] by (simp add: output_reached_def Let_def set_flag_again)
next
  case False
  let ?s = "s\<lparr>ls_hasAttemptedOutputRetry := True\<rparr>"
  have "spends s ?s" using use_flags(1) [OF False] by (simp add: spends_def left_simps)
  moreover have "spends s ?s \<Longrightarrow> step_spends env ?s st \<Longrightarrow> step_spends env s st" for st
    by (auto simp: step_spends_def spends_def split: loop_step.splits)
  ultimately have rest: "step_spends env ?s st \<Longrightarrow> step_spends env s st" for st by blast
  show ?thesis using bump_spends(2) [OF False assms] rest [OF output_recovery_spends] assms False
    by (auto simp: output_reached_def Let_def split: option.split)
qed

lemma error_spends:
  assumes "within_turns env (ls_turnCount s)" and "gives_up env"
  shows "step_spends env s (error_phase env w t a e s)"
proof -
  let ?s = "answer_failed_calls env w (collectToolCalls (content (am_message a))) s"
  have same: "same_left s ?s" by (simp add: same_left_def left_simps)
  have turns: "within_turns env (ls_turnCount ?s)" using assms by (simp add: left_simps)
  have reason: "step_spends env s (continued w r (s\<lparr>ls_hasAttemptedReasoningContentRetry := True, ls_messages := ms\<rparr>))"
    if "\<not> ls_hasAttemptedReasoningContentRetry s" for ms r
    using use_flags(5) [OF that] assms(1) by (simp add: spends_def left_simps)
  have json: "step_spends env ?s (continued w r (pushTransientSyntheticPrompt w p q
        (?s\<lparr>ls_jsonSelfCorrectCount := ls_jsonSelfCorrectCount ?s + 1\<rparr>)))"
    if "ls_jsonSelfCorrectCount ?s < MAX_JSON_SELF_CORRECT_RETRIES" for p q r
    using use_flags(4) [OF that] turns by (simp add: spends_def left_simps)
  have "step_spends env ?s (case react env w target t (le_recover env e (ls_messages ?s) (ls_hasAttemptedCompact ?s)) ?s of
        Some step \<Rightarrow> step | None \<Rightarrow> if err_code e = ''max_output_reached'' then output_reached env w t e ?s else surface_error env e ?s)" for target
    using react_spends [OF turns assms(2)] output_reached_spends [OF turns] by (simp split: option.split)
  then show ?thesis
    using reason step_spends_same [OF same json] step_spends_same [OF same]
    unfolding error_phase_def Let_def by simp
qed

section \<open>Answers without calls and answers with calls\<close>

lemma late_guard_spends:
  assumes "within_turns env (ls_turnCount s)"
  shows "case late_empty_guard env w t a s of Inl st \<Rightarrow> step_spends env s st | Inr u \<Rightarrow> same_left s u"
proof -
  let ?s = "s\<lparr>ls_messages := butlast (ls_messages s)\<rparr>"
  have same: "same_left s ?s" by (simp add: same_left_def left_simps)
  show ?thesis
    using step_spends_same [OF same retry_spends] step_spends_same [OF same first_empty_spends] assms
    by (simp add: late_empty_guard_def Let_def same_left_def left_simps)
qed

lemma cut_off_spends:
  assumes "within_turns env (ls_turnCount s)"
  shows "case cut_off_text w a s of Inl st \<Rightarrow> step_spends env s st | Inr u \<Rightarrow> same_left s u"
proof -
  let ?s = "s\<lparr>ls_consecutiveEmptyCount := 0\<rparr>"
  have same: "same_left s ?s" by (simp add: same_left_def left_simps)
  show ?thesis
    using step_spends_same [OF same output_recovery_spends] assms
    by (simp add: cut_off_text_def Let_def same_left_def left_simps)
qed

lemma steer_spends: "step_spends env s (steer_or_stop env w a s)"
proof -
  have "step_spends env s (stop_turn w a s)" by (simp add: stop_turn_def Let_def split: option.split)
  then show ?thesis by (simp add: steer_or_stop_def spends_def left_simps split: option.split list.split)
qed

lemma paid_repair:
  assumes "costs_attempt (ls_largeFileRepair s) (Some x, rep)" "within_turns env (ls_turnCount s)"
  shows "step_spends env s (continueWithSyntheticPrompt w x b (s\<lparr>ls_largeFileRepair := rep\<rparr>))"
proof -
  have "case x of RepairContinue _ _ _ \<Rightarrow> spends s (s\<lparr>ls_largeFileRepair := rep\<rparr>) | RepairStop _ \<Rightarrow> True"
    using assms(1) by (cases x) (simp_all add: costs_attempt_def is_continue_def spends_def left_defs)
  then show ?thesis using assms(2) by (simp add: synthetic_spends)
qed

lemma free_repair:
  "costs_attempt (ls_largeFileRepair s) (None, rep) \<Longrightarrow> same_left s (s\<lparr>ls_largeFileRepair := rep\<rparr>)"
  by (simp add: costs_attempt_def is_continue_def same_left_def left_defs)

lemma same_left_trans: "same_left s u \<Longrightarrow> same_left u v \<Longrightarrow> same_left s v"
  by (simp add: same_left_def)

lemma within_same: "same_left s u \<Longrightarrow> within_turns env (ls_turnCount s) \<Longrightarrow> within_turns env (ls_turnCount u)"
  by (simp add: same_left_def)

lemma text_spends:
  assumes "within_turns env (ls_turnCount s)"
  shows "step_spends env s (text_phase env w t a s)"
proof (cases "late_empty_guard env w t a s")
  case (Inl st)
  then show ?thesis using late_guard_spends [OF assms] by (simp add: text_phase_def) (metis sum.simps(5))
next
  case guard: (Inr s1)
  have 1: "same_left s s1" using late_guard_spends [OF assms, of w t a] guard by simp
  note in1 = within_same [OF 1 assms]
  show ?thesis
  proof (cases "cut_off_text w a s1")
    case (Inl st)
    then show ?thesis using cut_off_spends [OF in1, of w a] step_spends_same [OF 1] guard by (simp add: text_phase_def)
  next
    case (Inr s2)
    have 2: "same_left s s2" using cut_off_spends [OF in1, of w a] Inr same_left_trans [OF 1] by simp
    obtain d rep where d: "onNoToolCalls (ls_largeFileRepair s2) = (d, rep)" by fastforce
    have cost: "costs_attempt (ls_largeFileRepair s2) (d, rep)" using onNoToolCalls_cost d by metis
    show ?thesis
    proof (cases d)
      case None
      then show ?thesis
        using step_spends_same [OF 2 step_spends_same [OF free_repair steer_spends]] cost guard Inr d by (simp add: text_phase_def)
    next
      case (Some x)
      then show ?thesis
        using step_spends_same [OF 2 paid_repair] cost within_same [OF 2 assms] guard Inr d by (simp add: text_phase_def)
    qed
  qed
qed

lemma next_turn_spends: "ls_turnCount u = ls_turnCount s \<Longrightarrow> step_spends env s (next_turn env w u)"
  by (simp add: next_turn_def spends_def)

lemma breaker_spends:
  assumes "within_turns env (ls_turnCount s)"
  shows "case breaker w rs s of Inl st \<Rightarrow> step_spends env s st | Inr u \<Rightarrow> ls_turnCount u = ls_turnCount s"
proof -
  have grace: "turn_left (s\<lparr>ls_sameInvalidFingerprintCount := k, ls_hasUsedInvalidGracePeriod := True\<rparr>) < turn_left s"
      "once_left (s\<lparr>ls_sameInvalidFingerprintCount := k, ls_hasUsedInvalidGracePeriod := b\<rparr>) = once_left s"
    if "\<not> ls_hasUsedInvalidGracePeriod s" for k b
    using that by (simp_all add: left_defs)
  show ?thesis
  proof (cases "all_invalid rs \<and> Some (buildInvalidFingerprint rs) = ls_lastInvalidFingerprint s")
    case True
    then show ?thesis using grace assms by (simp add: breaker_def count_invalid_def Let_def left_simps spends_def)
  next
    case False
    then show ?thesis using assms
      by (auto simp: breaker_def count_invalid_def Let_def MAX_SAME_INVALID_FINGERPRINT_def)
  qed
qed

lemma settle_spends:
  assumes "within_turns env (ls_turnCount s)"
  shows "step_spends env s (settle_results env w None rs s)"
proof (cases "findToolLifecycleBlock rs")
  case None
  obtain d rep where d: "(if all_invalid rs \<and> pendingLargeFileRepair (ls_largeFileRepair s)
      then onInvalidToolInput (ls_largeFileRepair s) else (None, ls_largeFileRepair s)) = (d, rep)" by fastforce
  have cost: "costs_attempt (ls_largeFileRepair s) (d, rep)"
  proof (cases "all_invalid rs \<and> pendingLargeFileRepair (ls_largeFileRepair s)")
    case True
    then show ?thesis using d onInvalidToolInput_cost by metis
  next
    case False
    then show ?thesis using d by (auto simp: costs_attempt_def is_continue_def)
  qed
  let ?s = "s\<lparr>ls_largeFileRepair := rep\<rparr>"
  show ?thesis
  proof (cases d)
    case (Some x)
    then show ?thesis using d cost paid_repair assms by (simp add: settle_results_def None)
  next
    case none: None
    have same: "same_left s ?s" using cost none free_repair by simp
    have "step_spends env ?s (case breaker w rs ?s of Inl st \<Rightarrow> st | Inr u \<Rightarrow> next_turn env w u)"
      using breaker_spends [of env ?s w rs] assms next_turn_spends [of _ ?s] by (simp split: sum.splits)
    then show ?thesis using d none step_spends_same [OF same] by (simp add: settle_results_def None)
  qed
qed (simp add: settle_results_def)

text \<open>Taking in the results changes neither the turn nor a counter.\<close>

lemma mode_left [left_simps]:
  "ls_turnCount (request_mode m s) = ls_turnCount s" "once_left (request_mode m s) = once_left s"
  "turn_left (request_mode m s) = turn_left s" "ls_largeFileRepair (request_mode m s) = ls_largeFileRepair s"
  by (simp_all add: request_mode_def outs_def Let_def left_simps)

lemma taken_left [left_simps]:
  "ls_turnCount (take_result r s) = ls_turnCount s" "once_left (take_result r s) = once_left s"
  "turn_left (take_result r s) = turn_left s" "ls_largeFileRepair (take_result r s) = ls_largeFileRepair s"
  by (simp_all add: take_result_def outs_def left_simps Let_def split: option.split)

lemma taken_all_left [left_simps]:
  "ls_turnCount (fold take_result rs s) = ls_turnCount s" "once_left (fold take_result rs s) = once_left s"
  "turn_left (fold take_result rs s) = turn_left s" "ls_largeFileRepair (fold take_result rs s) = ls_largeFileRepair s"
  by (induction rs arbitrary: s) (simp_all add: left_simps)

lemma appended_left [left_simps]:
  "ls_turnCount (append_results env w rs s) = ls_turnCount s" "once_left (append_results env w rs s) = once_left s"
  "turn_left (append_results env w rs s) = turn_left s" "ls_largeFileRepair (append_results env w rs s) = ls_largeFileRepair s"
  by (simp_all add: append_results_def outs_def left_simps Let_def split: apply_answer.split)

lemma tools_spends:
  assumes "within_turns env (ls_turnCount s)"
  shows "step_spends env s (tools_phase env w a s)"
proof -
  define s1 where "s1 = outs [DoExecuteTools (collectToolCalls (content (am_message a)))]
    (outs [EvToolCallsDetected (collectToolCalls (content (am_message a)))] s)"
  obtain fp rep0 where f: "detectRepeatedToolFailure (le_template env) (pair_results env w (collectToolCalls (content (am_message a))) s1)
      (ls_lastToolFailureFingerprint s1) = (fp, rep0)" by fastforce
  define paired where "paired = annotateRepeatedToolFailures (le_template env)
    (pair_results env w (collectToolCalls (content (am_message a))) s1) rep0"
  obtain d rep where d: "analyzeToolResults paired (repair_context_of a) (ls_largeFileRepair s1) = (d, rep)" by fastforce
  define u where "u = append_results env w paired (fold take_result paired
    (s1\<lparr>ls_lastToolFailureFingerprint := fp, ls_largeFileRepair := rep,
        ls_permissionDenials := ls_permissionDenials s1 @ collectPermissionDenials paired\<rparr>))"
  have same1: "same_left s s1" by (simp add: same_left_def left_simps s1_def)
  have cost: "costs_attempt (ls_largeFileRepair s1) (d, rep)" using analyze_cost d by metis
  have u: "ls_turnCount u = ls_turnCount s1" "turn_left u = turn_left s1"
      "once_left u = once_left (s1\<lparr>ls_largeFileRepair := rep\<rparr>)"
    by (simp_all add: u_def left_simps) (simp_all add: left_defs)
  have turns: "within_turns env (ls_turnCount u)" using assms within_same [OF same1] u(1) by simp
  have "step_spends env s1 (settle_results env w d paired u)"
  proof (cases d)
    case None
    have "same_left s1 u" using cost None u free_repair [of s1 rep] by (simp add: same_left_def)
    then show ?thesis using step_spends_same settle_spends [OF turns] None by blast
  next
    case (Some x)
    have "case x of RepairContinue _ _ _ \<Rightarrow> spends s1 u | RepairStop _ \<Rightarrow> True"
      using cost Some u by (cases x) (simp_all add: costs_attempt_def is_continue_def spends_def, simp add: once_left_def)
    then show ?thesis using synthetic_spends [OF turns] by (simp add: Some settle_results_def)
  qed
  then have "step_spends env s (settle_results env w d paired u)" using step_spends_same [OF same1] by blast
  then show ?thesis
    using f d by (simp add: tools_phase_def Let_def s1_def [symmetric] paired_def [symmetric] u_def [symmetric])
qed

section \<open>The whole pass\<close>

text \<open>What is left of a turn as one number.\<close>

definition retries_left :: "loop_state \<Rightarrow> nat" where
  "retries_left s = (MAX_UNKNOWN_FINISH_RECOVERIES - ls_unknownFinishRecoveryCount s) * 3
     + (MAX_STREAM_INTERRUPTION_RECOVERIES - ls_streamInterruptionRecoveryCount s)"

definition left_over :: "int \<Rightarrow> loop_state \<Rightarrow> nat" where
  "left_over m s = (if ls_aborted s then 0
     else Suc (((nat (m - ls_turnCount s) * 26 + once_left s) * 55 + turn_left s) * 9 + retries_left s))"

definition PASSES_PER_TURN :: nat where "PASSES_PER_TURN = 26 * 55 * 9"

lemma lex_less: "a' < a \<Longrightarrow> b' < n \<Longrightarrow> a' * n + b' < a * n + (b::nat)"
proof -
  assume "a' < a" "b' < n"
  then have "a' * n + b' < Suc a' * n" by simp
  also have "Suc a' * n \<le> a * n" using \<open>a' < a\<close> by (intro mult_le_mono1) simp
  finally have "a' * n + b' < a * n" .
  then show ?thesis by linarith
qed

lemma left_bounds: "once_left s < 26" "turn_left s < 55" "retries_left s < 9"
  by (auto simp: once_left_def repairs_left_def repair_simps turn_left_def retries_left_def MAX_JSON_SELF_CORRECT_RETRIES_def MAX_OUTPUT_RECOVERY_LIMIT_def
      MAX_UNKNOWN_FINISH_RECOVERIES_def MAX_STREAM_INTERRUPTION_RECOVERIES_def)

lemma spends_left_over:
  assumes "spends s s'" "\<not> ls_aborted s" "ls_turnCount s' \<le> m"
  shows "left_over m s' < left_over m s"
proof -
  have "(nat (m - ls_turnCount s') * 26 + once_left s') * 55 + turn_left s'
      < (nat (m - ls_turnCount s) * 26 + once_left s) * 55 + turn_left s"
    using assms(1,3) lex_less [OF lex_less [of "nat (m - ls_turnCount s')" "nat (m - ls_turnCount s)"]] left_bounds(1,2) [of s']
      lex_less [of "nat (m - ls_turnCount s) * 26 + once_left s'" "nat (m - ls_turnCount s) * 26 + once_left s"]
    by (auto simp: spends_def)
  from lex_less [OF this left_bounds(3)] show ?thesis using assms(2) by (simp add: left_over_def)
qed

lemma retry_left_over:
  "same_left s s' \<Longrightarrow> retries_left s' < retries_left s \<Longrightarrow> \<not> ls_aborted s \<Longrightarrow> left_over m s' < left_over m s"
  by (simp add: same_left_def left_over_def)

lemma aborted_left_over: "ls_aborted s' \<Longrightarrow> \<not> ls_aborted s \<Longrightarrow> left_over m s' < left_over m s"
  by (simp add: left_over_def)

text \<open>A step that ends the pass, seen from its start.\<close>

definition pass_ok :: "loop_env \<Rightarrow> int \<Rightarrow> loop_state \<Rightarrow> loop_step \<Rightarrow> bool" where
  "pass_ok env m s st \<longleftrightarrow> (case st of Again s' \<Rightarrow> left_over m s' < left_over m s \<and> ls_turnCount s' \<le> m | _ \<Rightarrow> True)"

lemma step_spends_pass:
  "step_spends env s st \<Longrightarrow> \<not> ls_aborted s \<Longrightarrow> le_maxTurns env = Some m \<Longrightarrow> 0 < m \<Longrightarrow> pass_ok env m s st"
  by (auto simp: step_spends_def pass_ok_def within_turns_def spends_left_over split: loop_step.splits)

lemma pass_ok_ends [simp]:
  "pass_ok env m s (abort_turn env' b u)" "pass_ok env m s (contextOverflowAfterEmergency env' snap u)" "pass_ok env m s (Thrown u)"
  "pass_ok env m s (fail_model sr e v st u)" "pass_ok env m s (exhausted a msg u)"
  by (simp_all add: pass_ok_def finish_def abort_turn_def fail_turn_def fail_model_def exhausted_def
      contextOverflowAfterEmergency_def Let_def)

text \<open>The recoveries counted in a row.\<close>

lemma retry_pass:
  assumes "same_left s u" "retries_left u < retries_left s" "\<not> ls_aborted s" "ls_turnCount s \<le> m"
  shows "pass_ok env m s (continued w r u)"
  using assms by (auto simp: pass_ok_def continued_def again_def left_over_def same_left_def left_simps retries_left_def outs_def)

lemma interruption_pass:
  assumes "\<not> ls_aborted s" "ls_turnCount s \<le> m"
  shows "case interruption_phase w a s of Inl st \<Rightarrow> pass_ok env m s st
    | Inr u \<Rightarrow> same_left s u \<and> ls_unknownFinishRecoveryCount u = ls_unknownFinishRecoveryCount s"
  using retry_pass [OF _ _ assms]
  by (auto simp: interruption_phase_def Let_def same_left_def left_simps retries_left_def split: option.split)

lemma unknown_pass:
  assumes "\<not> ls_aborted s" "ls_turnCount s \<le> m"
    and "same_left s s1" "ls_unknownFinishRecoveryCount s1 = ls_unknownFinishRecoveryCount s"
  shows "case unknown_phase w a s1 of Inl st \<Rightarrow> pass_ok env m s st | Inr u \<Rightarrow> same_left s u"
proof -
  have "retries_left u < retries_left s"
    if "ls_unknownFinishRecoveryCount u = Suc (ls_unknownFinishRecoveryCount s)"
      "ls_unknownFinishRecoveryCount s < MAX_UNKNOWN_FINISH_RECOVERIES" for u
    using that by (simp add: retries_left_def MAX_UNKNOWN_FINISH_RECOVERIES_def MAX_STREAM_INTERRUPTION_RECOVERIES_def)
  then show ?thesis using retry_pass [OF _ _ assms(1,2)] assms(3,4)
    by (simp add: unknown_phase_def Let_def same_left_def left_simps)
qed

lemma step_spends_of:
  "same_left s u \<Longrightarrow> step_spends env u st \<Longrightarrow> \<not> ls_aborted s \<Longrightarrow> le_maxTurns env = Some m \<Longrightarrow> 0 < m \<Longrightarrow> pass_ok env m s st"
  by (blast intro: step_spends_pass step_spends_same)

lemma answer_pass:
  assumes "\<not> ls_aborted s" "ls_turnCount s \<le> m" "le_maxTurns env = Some m" "0 < m" "gives_up env"
  shows "pass_ok env m s (answer_phase env w t a s)"
proof (cases "interruption_phase w a s")
  case (Inl st)
  then show ?thesis using interruption_pass [OF assms(1,2), of env w a] by (simp add: answer_phase_def)
next
  case 1: (Inr s1)
  have left1: "same_left s s1" "ls_unknownFinishRecoveryCount s1 = ls_unknownFinishRecoveryCount s"
    using interruption_pass [OF assms(1,2), of env w a] 1 by simp_all
  show ?thesis
  proof (cases "unknown_phase w a s1")
    case (Inl st)
    then show ?thesis using unknown_pass [OF assms(1,2) left1, of env w a] 1 by (simp add: answer_phase_def)
  next
    case 2: (Inr s2)
    have left2: "same_left s s2" using unknown_pass [OF assms(1,2) left1, of env w a] 2 by simp
    have turns: "within_turns env (ls_turnCount s2)" using left2 assms(2-4) by (simp add: same_left_def within_turns_def)
    let ?s5 = "show_assistant (am_message a) (push [am_message a] s2)"
    have left5: "same_left s2 ?s5" by (simp add: same_left_def left_simps)
    have turns5: "within_turns env (ls_turnCount ?s5)" using turns by (simp add: left_simps)
    note rest = error_spends [OF turns5 assms(5)] text_spends [OF turns5] tools_spends [OF turns5]
    let ?rest = "case am_error a of Some e \<Rightarrow> error_phase env w t a e ?s5
        | None \<Rightarrow> if collectToolCalls (content (am_message a)) = [] then text_phase env w t a ?s5 else tools_phase env w a ?s5"
    have "step_spends env ?s5 ?rest" using rest by (cases "am_error a") simp_all
    then have five: "step_spends env s2 ?rest" by (rule step_spends_same [OF left5])
    have "step_spends env s2 (case repaired_phase env w t a s2 of Inl step \<Rightarrow> step | Inr s3 \<Rightarrow>
       (case empty_phase env w t a s3 of Inl step \<Rightarrow> step | Inr s4 \<Rightarrow>
          (let s5 = show_assistant (am_message a) (push [am_message a] s4)
           in case am_error a of Some e \<Rightarrow> error_phase env w t a e s5
              | None \<Rightarrow> if collectToolCalls (content (am_message a)) = [] then text_phase env w t a s5 else tools_phase env w a s5)))"
    proof (cases "repaired_phase env w t a s2")
      case (Inl st)
      then show ?thesis using repaired_spends [OF turns, of w t a] by simp
    next
      case 3: (Inr s3)
      then have "s3 = s2" using repaired_spends [OF turns, of w t a] by simp
      then show ?thesis using empty_spends [OF turns, of w t a] five 3
        by (cases "empty_phase env w t a s2") (simp_all add: Let_def)
    qed
    then show ?thesis using step_spends_of [OF left2 _ assms(1,3,4)] 1 2 by (simp add: answer_phase_def)
  qed
qed

text \<open>The phases before the answer change nothing that is counted.\<close>

definition left_alone :: "loop_state \<Rightarrow> loop_state \<Rightarrow> bool" where
  "left_alone s u \<longleftrightarrow> same_left s u \<and> ls_aborted u = ls_aborted s \<and> retries_left u = retries_left s"

lemma left_alone_pass: "left_alone s u \<Longrightarrow> pass_ok env m u st \<Longrightarrow> pass_ok env m s st"
  by (auto simp: left_alone_def same_left_def pass_ok_def left_over_def split: loop_step.splits)

lemma again_pass:
  "aborted_at k w u \<Longrightarrow> \<not> ls_aborted s \<Longrightarrow> ls_turnCount u \<le> m \<Longrightarrow> pass_ok env m s (again w u)"
  by (auto simp: pass_ok_def again_def aborted_at_def left_over_def split: option.splits)

lemma left_alone_refl [simp]: "left_alone s s"
  by (simp add: left_alone_def same_left_def)

lemma left_alone_steps [simp]:
  "left_alone s (outs es u) = left_alone s u" "left_alone s (replace_history ms u) = left_alone s u"
  "left_alone s (persistCompactSnapshot ms i u) = left_alone s u" "left_alone s (applySteerMessages sts u) = left_alone s u"
  "left_alone s (expireConsumedTransientPrompts u) = left_alone s u" "left_alone s (clear_attempt_caps ts u) = left_alone s u"
  "left_alone s (u\<lparr>ls_usage := us, ls_finalMessage := fm\<rparr>) = left_alone s u"
  by (simp_all add: left_alone_def same_left_def left_simps retries_left_def clear_attempt_caps_def)
    (simp_all add: replace_history_def left_defs)

lemma alone_turn: "left_alone s u \<Longrightarrow> ls_turnCount u = ls_turnCount s"
  by (simp add: left_alone_def same_left_def)

lemma top_pass:
  assumes "\<not> ls_aborted s" "ls_turnCount s \<le> m"
  shows "case top_phase env w s of Inl st \<Rightarrow> pass_ok env m s st | Inr u \<Rightarrow> left_alone s u"
  using assms again_pass [OF _ assms(1), of 1 w "applySteerMessages (lw_steers w) s"]
  by (simp add: top_phase_def Let_def left_simps)

lemma compact_pass:
  assumes "\<not> ls_aborted s" "ls_turnCount s \<le> m"
  shows "case compact_phase env w s of Inl st \<Rightarrow> pass_ok env m s st | Inr (u, b) \<Rightarrow> left_alone s u"
  using again_pass [OF _ assms(1,2), of 2 w] by (simp add: compact_phase_def Let_def split: compact_answer.split)

lemma route_pass:
  assumes "\<not> ls_aborted s" "ls_turnCount s \<le> m"
  shows "case route_phase env w s of Inl st \<Rightarrow> pass_ok env m s st | Inr d \<Rightarrow> True"
  using again_pass [OF _ assms(1,2)] by (simp add: route_phase_def split: option.split)

lemma recompact_pass:
  assumes "\<not> ls_aborted s" "ls_turnCount s \<le> m"
  shows "case recompact_phase env w d s of Inl st \<Rightarrow> pass_ok env m s st | Inr (u, b) \<Rightarrow> left_alone s u"
  using again_pass [OF _ assms(1), of 6 w] assms(2)
  by (simp add: recompact_phase_def Let_def left_simps split: compact_answer.split)

lemma call_pass:
  assumes "\<not> ls_aborted s" "ls_turnCount s \<le> m"
  shows "case call_phase env w t b s of Inl st \<Rightarrow> pass_ok env m s st | Inr (u, a) \<Rightarrow> left_alone s u"
  using again_pass [OF _ assms(1,2), of 7 w] by (simp add: call_phase_def Let_def split: option.split)

lemma iteration_pass:
  assumes "\<not> ls_aborted s" "ls_turnCount s \<le> m" "le_maxTurns env = Some m" "0 < m" "gives_up env"
  shows "pass_ok env m s (iteration env w s)"
proof (cases "top_phase env w s")
  case (Inl st)
  then show ?thesis using top_pass [OF assms(1,2), of env w] by (simp add: iteration_def)
next
  case 1: (Inr s1)
  then have alone1: "left_alone s s1" using top_pass [OF assms(1,2), of env w] by simp
  have s1: "\<not> ls_aborted s1" "ls_turnCount s1 \<le> m" using alone1 assms(1,2) by (simp_all add: left_alone_def same_left_def)
  have "pass_ok env m s1 (iteration env w s)"
  proof (cases "compact_phase env w s1")
    case (Inl st)
    then show ?thesis using compact_pass [OF s1, of env w] 1 by (simp add: iteration_def)
  next
    case 2: (Inr r)
    obtain s2 budget where r: "r = (s2, budget)" by fastforce
    have alone2: "left_alone s1 s2" using compact_pass [OF s1, of env w] 2 r by simp
    have s2: "\<not> ls_aborted s2" "ls_turnCount s2 \<le> m" using alone2 s1 by (simp_all add: left_alone_def same_left_def)
    have "pass_ok env m s2 (iteration env w s)"
    proof (cases "route_phase env w s2")
      case (Inl st)
      then show ?thesis using route_pass [OF s2, of env w] 1 2 r by (simp add: iteration_def)
    next
      case 3: (Inr d)
      show ?thesis
      proof (cases "recompact_phase env w d s2")
        case (Inl st)
        then show ?thesis using recompact_pass [OF s2, of env w d] 1 2 3 r by (simp add: iteration_def)
      next
        case 4: (Inr q)
        obtain s3 emitted where q: "q = (s3, emitted)" by fastforce
        have alone3: "left_alone s2 s3" using recompact_pass [OF s2, of env w d] 4 q by simp
        have s3: "\<not> ls_aborted s3" "ls_turnCount s3 \<le> m" using alone3 s2 by (simp_all add: left_alone_def same_left_def)
        have "pass_ok env m s3 (iteration env w s)"
        proof (cases "call_phase env w (fst d) (if emitted then None else budget) s3")
          case (Inl st)
          then show ?thesis using call_pass [OF s3, of env w "fst d" "if emitted then None else budget"] 1 2 3 4 r q
            by (simp add: iteration_def)
        next
          case 5: (Inr p)
          obtain s4 a where p: "p = (s4, a)" by fastforce
          have alone4: "left_alone s3 s4" using call_pass [OF s3, of env w "fst d" "if emitted then None else budget"] 5 p by simp
          have s4: "\<not> ls_aborted s4" "ls_turnCount s4 \<le> m" using alone4 s3 by (simp_all add: left_alone_def same_left_def)
          show ?thesis using left_alone_pass [OF alone4 answer_pass [OF s4 assms(3-5)]] 1 2 3 4 5 r q p by (simp add: iteration_def)
        qed
        then show ?thesis using left_alone_pass [OF alone3] by blast
      qed
    qed
    then show ?thesis using left_alone_pass [OF alone2] by blast
  qed
  then show ?thesis using left_alone_pass [OF alone1] by blast
qed

lemma aborted_pass: "ls_aborted s \<Longrightarrow> iteration env w s \<noteq> Again s'"
  by (simp add: iteration_def top_phase_def aborted_at_def abort_turn_def finish_def)

section \<open>A turn is bounded\<close>

definition pass :: "int \<Rightarrow> loop_state \<Rightarrow> loop_state \<Rightarrow> bool" where
  "pass m s s' \<longleftrightarrow> 0 < m \<and> (\<exists>env w. le_maxTurns env = Some m \<and> gives_up env \<and> iteration env w s = Again s')"

definition in_turns :: "int \<Rightarrow> loop_state \<Rightarrow> bool" where
  "in_turns m s \<longleftrightarrow> (if 0 < m then ls_turnCount s \<le> m else True)"

lemma pass_left_over:
  assumes "in_turns m s" "pass m s s'"
  shows "left_over m s' < left_over m s \<and> in_turns m s'"
proof -
  obtain env w where m: "0 < m" "le_maxTurns env = Some m" "gives_up env" and step: "iteration env w s = Again s'"
    using assms(2) unfolding pass_def by blast
  have "\<not> ls_aborted s" using aborted_pass step by blast
  then have "pass_ok env m s (Again s')" using iteration_pass [of s m env w] assms(1) m step by (simp add: in_turns_def)
  then show ?thesis by (simp add: pass_ok_def in_turns_def)
qed

lemma start_in_turns: "in_turns m (start_turn input obj)"
  by (simp add: in_turns_def start_turn_def Let_def split: prod.split)

interpretation turn: bounded_system "start_turn input obj" "pass m" "in_turns m" "left_over m" for input obj m
  by unfold_locales (use start_in_turns pass_left_over in blast)+

lemma run_turn_passes:
  "run_turn n env ws s = Again s' \<Longrightarrow> le_maxTurns env = Some m \<Longrightarrow> 0 < m \<Longrightarrow> gives_up env \<Longrightarrow> (pass m ^^ n) s s'"
proof (induction n arbitrary: ws s)
  case (Suc n)
  then obtain u where u: "iteration env (ws 0) s = Again u" "run_turn n env (\<lambda>k. ws (Suc k)) u = Again s'"
    by (auto split: loop_step.splits)
  have "pass m s u" using Suc.prems u(1) by (auto simp: pass_def)
  moreover have "(pass m ^^ n) u s'" using Suc.IH [OF u(2)] Suc.prems by blast
  ultimately show ?case by (meson relpowp_Suc_I2)
qed simp

lemma start_left:
  "\<not> ls_aborted (start_turn input obj)" "ls_turnCount (start_turn input obj) = 1" "once_left (start_turn input obj) = 25"
  "turn_left (start_turn input obj) = 54" "retries_left (start_turn input obj) = 8"
  by (simp_all add: start_turn_def once_left_def turn_left_def retries_left_def repairs_left_def new_repair_def
      MAX_PRE_DRAFT_REPAIR_ATTEMPTS_def MAX_POST_DRAFT_REPAIR_ATTEMPTS_def MAX_TRUNCATION_RECOVERIES_def
      MAX_JSON_SELF_CORRECT_RETRIES_def MAX_OUTPUT_RECOVERY_LIMIT_def MAX_UNKNOWN_FINISH_RECOVERIES_def
      MAX_STREAM_INTERRUPTION_RECOVERIES_def split: prod.split)

lemma start_left_over:
  assumes "0 < m"
  shows "left_over m (start_turn input obj) = PASSES_PER_TURN * nat m"
proof -
  have "nat m = Suc (nat (m - 1))" using assms by simp
  then show ?thesis by (simp add: left_over_def start_left PASSES_PER_TURN_def)
qed

text \<open>The runtime without an overflow policy is such a one.\<close>

definition with_recovery :: "recovery_options option \<Rightarrow> rat \<Rightarrow> loop_env \<Rightarrow> loop_env" where
  "with_recovery policy keep env = env\<lparr>le_recover := (\<lambda>e ms attempted. Some (recoverFromModelError policy keep e attempted))\<rparr>"

lemma plain_runtime_gives_up: "gives_up (with_recovery None keep env)"
  by (simp add: gives_up_def with_recovery_def recoverFromModelError_def)

text \<open>The environment and the input of the examples.\<close>

definition sample_env :: "int \<Rightarrow> loop_env" where
  "sample_env turns = \<lparr>le_maxTurns = Some turns, le_modelOverride = None, le_jsonSelfCorrect = True, le_stopOnStructuredOutput = False,
     le_abortReason = NoReason, le_hasAutoCompact = False, le_staged = False, le_recover = (\<lambda>_ _ _. None),
     le_catalog = \<lparr>ct_limits = (\<lambda>_ _. None), ct_maxContextTokens = (\<lambda>_ _. None), ct_maxOutputTokens = (\<lambda>_ _. None)\<rparr>, le_stringify = (\<lambda>_. ''{}''), le_stringifyContent = (\<lambda>_. ''''), le_sanitizeRaw = (\<lambda>_. JUndefined),
     le_recovery = (\<lambda>_ _ e. (e, JUndefined)), le_template = (\<lambda>_. ''''), le_showError = err_message,
     le_overflowMessage = (\<lambda>_. '''')\<rparr>"

definition sample_input :: loop_input where
  "sample_input = \<lparr>li_messages = [], li_permissionMode = None, li_basePermissionMode = None, li_allowedReadFiles = []\<rparr>"

definition sample_object :: loop_object where
  "sample_object = \<lparr>lo_config = \<lparr>cc_provider = ''p'', cc_model = ''m'', cc_isSubagent = False, cc_subagentModel = None,
     cc_maxContextTokens = None, cc_maxOutputTokens = None\<rparr>,
     lo_caps = [], lo_permissionMode = ModeDefault, lo_permissionModeBeforePlan = None, lo_allowedReadFiles = []\<rparr>"

text \<open>A provider that finds every request too long.\<close>

definition too_long_error :: model_error where
  "too_long_error = \<lparr>err_provider = ''p'', err_model = None, err_code = ''prompt_too_long'', err_message = ''prompt is too long'',
     err_retryable = False, err_recoverableViaCompact = Some True, err_recoverableViaImageStrip = None, err_retryAfterMs = None,
     err_maxContextTokens = None, err_maxOutputTokens = None, err_availableOutputTokens = None, err_streamInterruption = None\<rparr>"

definition too_long_world :: loop_world where
  "too_long_world = \<lparr>lw_abortAt = None, lw_steers = [], lw_refreshFails = False, lw_compact = CompactThrew, lw_requestFails = False,
     lw_route = Some (''p'', ''m'', False), lw_recompact = CompactThrew, lw_rebuildFails = False, lw_responseId = ''r'',
     lw_stream = [ErrorEvent too_long_error], lw_thrown = None, lw_targets = [], lw_errorCompact = CompactThrew,
     lw_tools = Inr [], lw_apply = NoApply, lw_terminalSteers = None, lw_stopMessages = [], lw_stopBlock = None,
     lw_uuid = None, lw_now = 0\<rparr>"

text \<open>C1. With a limit of turns and a context runtime that does not ask for another cut of the history once one was
  made, a turn ends: whatever the model, the tools, the user and the compaction answer, there are no more than 12870
  passes of the loop per turn of the limit.\<close>

theorem turn_terminates:
  assumes "le_maxTurns env = Some m" and "0 < m" and "gives_up env"
  shows "case run_turn (Suc (PASSES_PER_TURN * nat m)) env ws (start_turn input obj) of Again _ \<Rightarrow> False | _ \<Rightarrow> True"
proof (cases "run_turn (Suc (PASSES_PER_TURN * nat m)) env ws (start_turn input obj)")
  case (Again s')
  from turn.run_length [OF run_turn_passes [OF this assms] start_in_turns] start_left_over [OF assms(2)]
  show ?thesis by simp
qed simp_all

theorem turn_terminates_witness:
  "case run_turn (Suc (PASSES_PER_TURN * nat 3)) (with_recovery None (1/2) (sample_env 3)) (\<lambda>_. too_long_world)
     (start_turn sample_input sample_object) of Again _ \<Rightarrow> False | _ \<Rightarrow> True"
  by (rule turn_terminates) (simp add: with_recovery_def sample_env_def, simp, rule plain_runtime_gives_up)

section \<open>The cut without a guard\<close>

text \<open>An error of the context that says nothing of images or of the room for the output.\<close>

definition context_overflow :: "model_error \<Rightarrow> bool" where
  "context_overflow e \<longleftrightarrow> isContextError e \<and> err_recoverableViaImageStrip e \<noteq> Some True \<and> err_code e \<noteq> ''image_too_large''
     \<and> positive_cap (err_availableOutputTokens e) = None \<and> positive_cap (err_maxOutputTokens e) = None
     \<and> err_streamInterruption e = None"

definition heard_answer :: "loop_world \<Rightarrow> assembled" where
  "heard_answer w = assemble (Some (lw_responseId w)) (heard (lw_stream w))"

text \<open>A pass in which nothing but the model's context fails: the user does not abort, the request and its route are there,
  no compaction reports that even its emergency cut was too little, and the answer is such an error.\<close>

definition compacts :: "compact_answer \<Rightarrow> bool" where
  "compacts c \<longleftrightarrow> (case c of Compacted _ _ err _ \<Rightarrow> err = None | _ \<Rightarrow> True)"

definition overflows :: "loop_world \<Rightarrow> bool" where
  "overflows w \<longleftrightarrow> lw_abortAt w = None \<and> \<not> lw_requestFails w \<and> lw_route w \<noteq> None
     \<and> compacts (lw_compact w) \<and> compacts (lw_recompact w) \<and> compacts (lw_errorCompact w) \<and> has_error_event (lw_stream w)
     \<and> (case am_error (heard_answer w) of None \<Rightarrow> False | Some e \<Rightarrow> context_overflow e) \<and> \<not> dirty_calls (heard_answer w)"

definition goes_on :: "loop_step \<Rightarrow> bool" where
  "goes_on st \<longleftrightarrow> (case st of Again u \<Rightarrow> \<not> ls_aborted u | _ \<Rightarrow> False)"

lemma goes_on_continued: "lw_abortAt w = None \<Longrightarrow> \<not> ls_aborted s \<Longrightarrow> goes_on (continued w reason s)"
  by (simp add: goes_on_def continued_def again_def left_simps)

lemma overflow_recovery:
  "context_overflow e \<Longrightarrow> \<exists>keepRatio cap reason. recoverFromModelError (Some opts) keep e attempted = TruncateHeadAndRetry keepRatio reason
     \<or> (\<not> attempted \<and> recoverFromModelError (Some opts) keep e attempted = CompactAndRetry cap None reason)"
  by (auto simp: recoverFromModelError_def decide_recovery_def context_overflow_def split: option.split)

lemma overflow_react:
  assumes w: "overflows w" and e: "context_overflow e" and s: "\<not> ls_aborted s"
  shows "case react env w target t (Some (recoverFromModelError (Some opts) keep e (ls_hasAttemptedCompact s))) s of
      Some st \<Rightarrow> goes_on st | None \<Rightarrow> False"
proof -
  have a: "lw_abortAt w = None" and c: "compacts (lw_errorCompact w)" using w by (simp_all add: overflows_def)
  have compact: "goes_on (recover_compact env w target t cap None reason s)" for cap reason
    using a c s by (auto simp: recover_compact_def compacts_def goes_on_continued left_simps Let_def split: compact_answer.split option.split)
  have cut: "goes_on (continued w r ((cut_head k (strip_error_pair s))\<lparr>ls_hasAttemptedCompact := True\<rparr>))" for r k
    using a s by (simp add: goes_on_continued left_simps)
  show ?thesis using overflow_recovery [OF e, of opts keep "ls_hasAttemptedCompact s"] compact cut by (auto simp: react_def)
qed

lemma overflow_error_phase:
  assumes w: "overflows w" and e: "context_overflow e" and s: "\<not> ls_aborted s"
  shows "goes_on (error_phase (with_recovery (Some opts) keep env) w t a e s)"
proof -
  have a: "lw_abortAt w = None" using w by (simp add: overflows_def)
  let ?env = "with_recovery (Some opts) keep env"
  define s1 where "s1 = answer_failed_calls ?env w (collectToolCalls (content (am_message a))) s"
  have s1: "\<not> ls_aborted s1" using s by (simp add: s1_def answer_failed_calls_def left_simps Let_def)
  have "case react ?env w (modelErrorTarget e (fst t) (snd t)) t (le_recover ?env e (ls_messages s1) (ls_hasAttemptedCompact s1)) s1 of
      Some st \<Rightarrow> goes_on st | None \<Rightarrow> False"
    using overflow_react [OF w e s1] by (simp add: with_recovery_def)
  then show ?thesis using a s s1
    by (auto simp: error_phase_def s1_def [symmetric] goes_on_continued left_simps Let_def split: option.splits)
qed

lemma overflow_answer_phase:
  assumes w: "overflows w" and s: "\<not> ls_aborted s"
  shows "goes_on (answer_phase (with_recovery (Some opts) keep env) w t (heard_answer w) s)"
proof -
  obtain e where e: "am_error (heard_answer w) = Some e" "context_overflow e" "\<not> dirty_calls (heard_answer w)"
    using w by (auto simp: overflows_def split: option.splits)
  then have "err_streamInterruption e = None" by (simp add: context_overflow_def)
  then show ?thesis using overflow_error_phase [OF w e(2)] e s
    by (simp add: answer_phase_def interruption_phase_def unknown_phase_def repaired_phase_def empty_phase_def left_simps Let_def)
qed

lemma overflow_pass:
  assumes w: "overflows w" and s: "\<not> ls_aborted s"
  shows "goes_on (iteration (with_recovery (Some opts) keep env) w s)"
proof -
  let ?env = "with_recovery (Some opts) keep env"
  have seen: "\<not> aborted_at k w u" if "\<not> ls_aborted u" for k u using w that by (simp add: aborted_at_def overflows_def)
  obtain s1 where top: "top_phase ?env w s = Inr s1" "\<not> ls_aborted s1"
    using seen s by (auto simp: top_phase_def left_simps Let_def)
  have "compacts (lw_compact w)" using w by (simp add: overflows_def)
  then have "case compact_phase ?env w s1 of Inl _ \<Rightarrow> False | Inr (s2, _) \<Rightarrow> \<not> ls_aborted s2"
    using seen [OF top(2)] top(2) by (auto simp: compact_phase_def compacts_def left_simps Let_def split: compact_answer.split)
  then obtain s2 b where compact: "compact_phase ?env w s1 = Inr (s2, b)" "\<not> ls_aborted s2" by (auto split: sum.splits)
  have "route_of ?env w \<noteq> None" "\<not> lw_requestFails w" using w by (auto simp: route_of_def overflows_def)
  then obtain d where route: "route_phase ?env w s2 = Inr d" using seen [OF compact(2)] by (auto simp: route_phase_def)
  have "compacts (lw_recompact w)" using w by (simp add: overflows_def)
  then have "case recompact_phase ?env w d s2 of Inl _ \<Rightarrow> False | Inr (s3, _) \<Rightarrow> \<not> ls_aborted s3"
    using seen compact(2) by (auto simp: recompact_phase_def compacts_def left_simps Let_def split: compact_answer.split)
  then obtain s3 em where recompact: "recompact_phase ?env w d s2 = Inr (s3, em)" "\<not> ls_aborted s3" by (auto split: sum.splits)
  obtain s4 where call: "call_phase ?env w (fst d) (if em then None else b) s3 = Inr (s4, heard_answer w)" "\<not> ls_aborted s4"
    using seen recompact(2) w
    by (auto simp: call_phase_def heard_answer_def overflows_def left_simps clear_attempt_caps_def Let_def)
  then show ?thesis using overflow_answer_phase [OF w call(2)]
    by (simp add: iteration_def top compact route recompact)
qed


lemma too_long_overflows: "overflows too_long_world"
proof -
  have "am_error (heard_answer too_long_world) = Some too_long_error" "am_repaired (heard_answer too_long_world) = False" by code_simp+
  moreover have "context_overflow too_long_error"
    by (simp add: context_overflow_def isContextError_def positive_cap_def too_long_error_def)
  moreover have "lw_abortAt too_long_world = None" "\<not> lw_requestFails too_long_world" "lw_route too_long_world \<noteq> None"
    "compacts (lw_compact too_long_world)" "compacts (lw_recompact too_long_world)" "compacts (lw_errorCompact too_long_world)"
    "has_error_event (lw_stream too_long_world)"
    by (simp_all add: too_long_world_def compacts_def has_error_event_def)
  ultimately show ?thesis by (simp add: overflows_def dirty_calls_def)
qed


end
