(* ===== verification/LoopHistory.thy ===== *)
theory LoopHistory
  imports LoopTrace LoopTermination MessageProjection
begin

text \<open>
  The histories a turn sends: as long as nothing is cut from the history, every request satisfies the contract of the
  providers (\<open>exchange_ok\<close>), whatever errors, recoveries, steering and tool results came before it.
\<close>

section \<open>Histories\<close>

lemma exchange_ok_append: "exchange_ok opn ms \<Longrightarrow> exchange_ok [] ns \<Longrightarrow> exchange_ok opn (ms @ ns)"
  by (induction opn ms rule: exchange_ok.induct) auto

lemma exchange_ok_quiet:
  "\<forall>m\<in>set ms. role m = User \<and> result_ids (content m) = [] \<Longrightarrow> exchange_ok [] ms"
  by (induction ms) auto

lemma exchange_ok_butlast: "exchange_ok opn (ms @ [m]) \<Longrightarrow> role m = Assistant \<Longrightarrow> exchange_ok opn ms"
  by (induction opn ms rule: exchange_ok.induct) (auto split: if_splits)

lemma exchange_ok_filter:
  "exchange_ok opn ms \<Longrightarrow> \<forall>m\<in>set ms. P m \<or> (role m = User \<and> result_ids (content m) = []) \<Longrightarrow> exchange_ok opn (filter P ms)"
  by (induction opn ms rule: exchange_ok.induct) (auto split: if_splits)

lemma exchange_ok_map:
  "exchange_ok opn ms \<Longrightarrow>
   \<forall>m\<in>set ms. role (f m) = role m \<and> tool_call_ids (content (f m)) = tool_call_ids (content m)
     \<and> result_ids (content (f m)) = result_ids (content m) \<Longrightarrow> exchange_ok opn (map f ms)"
  by (induction opn ms rule: exchange_ok.induct) (auto split: if_splits)

lemma results_message_ids:
  "result_ids (map (\<lambda>r. ToolResultB (toCanonicalToolResultBlock sf raw r)) rs) = map pr_toolCallId rs"
  by (induction rs) (auto simp: result_ids_def toCanonicalToolResultBlock_def Let_def)

definition supplements ::
    "(js_value \<Rightarrow> string) \<Rightarrow> (pd_content \<Rightarrow> string) \<Rightarrow> pd_result list \<Rightarrow> message list" where
  "supplements sf sc rs = concat (map (\<lambda>r. case pr_supplementalMessages r of None \<Rightarrow> []
      | Some msgs \<Rightarrow> map (supplemental_message (toCanonicalSupplementalBlock sf sc) (pr_toolCallId r)) msgs) rs)"

definition results_message :: "(js_value \<Rightarrow> string) \<Rightarrow> (pd_result \<Rightarrow> js_value) \<Rightarrow> pd_result list \<Rightarrow> message" where
  "results_message sf raw rs = plain_message User (map (\<lambda>r. ToolResultB (toCanonicalToolResultBlock sf raw r)) rs)"

lemma project_parts: "projectToolResults sf sc raw rs = results_message sf raw rs # supplements sf sc rs"
  by (simp add: projectToolResults_def results_message_def supplements_def)

text \<open>A prompt the loop takes back after the answer; it never carries results.\<close>

definition marked :: "message \<Rightarrow> bool" where
  "marked m \<longleftrightarrow> role m = User \<and> (case metadata m of None \<Rightarrow> False | Some md \<Rightarrow> md_transient md = Some True)"

definition quiet :: "message \<Rightarrow> bool" where
  "quiet m \<longleftrightarrow> role m = User \<and> result_ids (content m) = []"

definition history_ok :: "message list \<Rightarrow> bool" where
  "history_ok ms \<longleftrightarrow> exchange_ok [] ms \<and> list_all (\<lambda>m. marked m \<longrightarrow> quiet m) ms"

lemma supplements_quiet: "list_all quiet (supplements sf sc rs)"
  by (auto simp: list_all_iff supplements_def supplemental_message_def quiet_def split: option.splits)

lemma supplements_user: "list_all (\<lambda>m. role m = User) (supplements sf sc rs)"
  using supplements_quiet by (auto simp: list_all_iff quiet_def)

lemma history_quiet: "history_ok ms \<Longrightarrow> list_all quiet ns \<Longrightarrow> history_ok (ms @ ns)"
  using exchange_ok_append exchange_ok_quiet [of ns] by (auto simp: history_ok_def quiet_def list_all_iff)

lemma history_text: "history_ok ms \<Longrightarrow> role m = Assistant \<Longrightarrow> tool_call_ids (content m) = [] \<Longrightarrow> history_ok (ms @ [m])"
  using exchange_ok_append [of "[]" ms "[m]"] by (simp add: history_ok_def marked_def)

lemma history_butlast: "history_ok (ms @ [m]) \<Longrightarrow> role m = Assistant \<Longrightarrow> history_ok ms"
  using exchange_ok_butlast [of "[]" ms m] by (simp add: history_ok_def)

lemma history_results:
  assumes "history_ok ms" "role m = Assistant" "map pr_toolCallId rs = tool_call_ids (content m)" "list_all quiet ns"
  shows "history_ok (ms @ m # results_message sf raw rs # ns)"
proof -
  have "exchange_ok [] (m # results_message sf raw rs # ns)"
    using assms exchange_ok_quiet [of ns]
    by (simp add: results_message_def results_message_ids list_all_iff quiet_def filter_empty_conv)
  then show ?thesis using assms exchange_ok_append
    by (auto simp: history_ok_def marked_def results_message_def list_all_iff quiet_def)
qed

lemma history_projected:
  "history_ok ms \<Longrightarrow> role m = Assistant \<Longrightarrow> map pr_toolCallId rs = tool_call_ids (content m) \<Longrightarrow>
   history_ok (ms @ m # projectToolResults sf sc raw rs)"
  by (simp add: project_parts history_results supplements_quiet)

lemma history_remove: "history_ok ms \<Longrightarrow> history_ok (removeTransientPromptsById ms ids)"
proof -
  have "is_transient ids m \<Longrightarrow> marked m" for m
    by (auto simp: is_transient_def marked_def split: option.splits)
  then show "history_ok ms \<Longrightarrow> history_ok (removeTransientPromptsById ms ids)"
    using exchange_ok_filter [of "[]" ms "\<lambda>m. \<not> is_transient ids m"]
    by (auto simp: history_ok_def removeTransientPromptsById_def list_all_iff quiet_def)
qed

lemma transient_quiet: "quiet (transient_prompt i p q)"
  by (simp add: quiet_def transient_prompt_def result_ids_def)

lemma strip_image_ids: "result_ids (map strip_image_block bs) = result_ids bs" "tool_call_ids (map strip_image_block bs) = tool_call_ids bs"
proof -
  have "tool_call_ids (strip_image_block b # cs) = tool_call_ids (b # cs') " if "tool_call_ids cs = tool_call_ids cs'" for b cs cs'
    using that by (cases b) simp_all
  then show "tool_call_ids (map strip_image_block bs) = tool_call_ids bs" by (induction bs) simp_all
  have "result_ids (strip_image_block b # cs) = result_ids (b # cs')" if "result_ids cs = result_ids cs'" for b cs cs'
    using that by (cases b) (simp_all add: result_ids_def)
  then show "result_ids (map strip_image_block bs) = result_ids bs" by (induction bs) simp_all
qed

lemma history_map:
  "history_ok ms \<Longrightarrow>
   \<forall>m\<in>set ms. role (f m) = role m \<and> metadata (f m) = metadata m \<and> tool_call_ids (content (f m)) = tool_call_ids (content m)
     \<and> result_ids (content (f m)) = result_ids (content m) \<Longrightarrow> history_ok (map f ms)"
  using exchange_ok_map [of "[]" ms f] by (auto simp: history_ok_def list_all_iff quiet_def marked_def)

lemma history_images: "history_ok ms \<Longrightarrow> history_ok (stripImagesFromMessages ms)"
  unfolding stripImagesFromMessages_def by (rule history_map) (simp_all add: strip_image_ids)

lemma marker_ids: "tool_call_ids (empty_thinking # bs) = tool_call_ids bs" "result_ids (empty_thinking # bs) = result_ids bs"
  by (simp_all add: empty_thinking_def result_ids_def)

lemma history_markers:
  assumes "history_ok ms"
  shows "history_ok (addEmptyReasoningContentMarkers ms)"
proof -
  let ?f = "\<lambda>(i, m). if i + 1 = length ms \<and> role m = Assistant \<and> content m = [] then m else reasoning_marker m"
  have kept: "role (reasoning_marker m) = role m \<and> metadata (reasoning_marker m) = metadata m
      \<and> tool_call_ids (content (reasoning_marker m)) = tool_call_ids (content m)
      \<and> result_ids (content (reasoning_marker m)) = result_ids (content m)" for m
    by (simp add: reasoning_marker_def marker_ids)
  have "exchange_ok opn xs \<Longrightarrow> exchange_ok opn (map ?f (enumerate k xs))" for opn k xs
    by (induction opn xs arbitrary: k rule: exchange_ok.induct) (auto simp: kept split: if_splits)
  then have "exchange_ok [] (addEmptyReasoningContentMarkers ms)"
    using assms by (simp add: history_ok_def addEmptyReasoningContentMarkers_def)
  moreover have "list_all (\<lambda>m. marked m \<longrightarrow> quiet m) xs \<Longrightarrow> list_all (\<lambda>m. marked m \<longrightarrow> quiet m) (map ?f (enumerate k xs))" for k xs
    by (induction xs arbitrary: k) (auto simp: kept marked_def quiet_def)
  ultimately show ?thesis using assms by (simp add: history_ok_def addEmptyReasoningContentMarkers_def)
qed

section \<open>Taking back the last exchange\<close>

lemma drop_assistant: "history_ok ms \<Longrightarrow> history_ok (drop_last_if (\<lambda>m. role m = Assistant) ms)"
  using history_butlast [of "butlast ms" "last ms"] by (simp add: drop_last_if_def)

lemma strip_text: "role m = Assistant \<Longrightarrow> stripTrailingErrorPair (ms @ [m]) = ms"
  by (simp add: stripTrailingErrorPair_def drop_last_if_def)

lemma strip_results: "role m = Assistant \<Longrightarrow> stripTrailingErrorPair (ms @ [m, results_message sf raw rs]) = ms"
  by (simp add: stripTrailingErrorPair_def drop_last_if_def results_message_def list_all_iff butlast_append)

lemma strip_user: "role (last xs) = User \<Longrightarrow> role n = User \<Longrightarrow> stripTrailingErrorPair (xs @ [n]) \<in> {xs, xs @ [n]}"
  by (simp add: stripTrailingErrorPair_def drop_last_if_def)

lemma strip_exchange:
  assumes "history_ok ms" "role m = Assistant" "map pr_toolCallId rs = tool_call_ids (content m)"
  shows "history_ok (stripTrailingErrorPair (ms @ m # projectToolResults sf sc raw rs))"
proof (cases "supplements sf sc rs" rule: rev_cases)
  case Nil
  then show ?thesis using assms by (simp add: project_parts strip_results)
next
  case (snoc ns n)
  have quiet: "list_all quiet (ns @ [n])" using supplements_quiet [of sf sc rs] snoc by simp
  let ?all = "ms @ m # results_message sf raw rs # ns"
  have "role (last ?all) = User" using quiet by (cases ns rule: rev_cases) (simp_all add: results_message_def quiet_def)
  then have "stripTrailingErrorPair (?all @ [n]) \<in> {?all, ?all @ [n]}"
    using quiet by (intro strip_user) (simp_all add: quiet_def)
  then show ?thesis using history_results [OF assms, of ns] history_results [OF assms, of "ns @ [n]"] quiet
    by (auto simp: project_parts snoc)
qed

section \<open>What the shared steps do to the history\<close>

named_theorems msg_simps \<open>the history after the shared steps\<close>

lemma messages_kept [msg_simps]:
  "ls_messages (outs es s) = ls_messages s" "ls_messages (set_cap t c s) = ls_messages s"
  "ls_messages (adjust_output t prev n r s) = ls_messages s" "ls_messages (show_assistant m s) = ls_messages s"
  "ls_messages (persistCompactSnapshot ms i s) = ls_messages s" "ls_messages (grow_output env t a s) = ls_messages s"
  "ls_messages (add_allowed fs s) = ls_messages s" "ls_messages (clear_attempt_caps ts s) = ls_messages s"
  "ls_messages (also_routed tg t k s) = ls_messages s" "ls_messages (request_mode md s) = ls_messages s"
  by (simp_all add: outs_def set_cap_def adjust_output_def show_assistant_def persistCompactSnapshot_def grow_output_def
      add_allowed_def clear_attempt_caps_def also_routed_def request_mode_def Let_def split: option.split)

lemma messages_changed [msg_simps]:
  "ls_messages (push ms s) = ls_messages s @ ms" "ls_messages (replace_history ms s) = ms"
  "ls_messages (strip_error_pair s) = stripTrailingErrorPair (ls_messages s)"
  by (simp_all add: push_def replace_history_def strip_error_pair_def)

lemma messages_taken [msg_simps]: "ls_messages (fold take_result rs s) = ls_messages s"
  by (induction rs arbitrary: s) (simp_all add: take_result_def msg_simps Let_def split: option.split)

abbreviation state_ok :: "loop_state \<Rightarrow> bool" where
  "state_ok s \<equiv> history_ok (ls_messages s)"

lemma transient_ok: "state_ok s \<Longrightarrow> state_ok (pushTransientSyntheticPrompt w p q s)"
proof -
  have "\<exists>i. ls_messages (pushTransientSyntheticPrompt w p q s) = ls_messages s @ [transient_prompt i p q]"
    by (cases "lw_uuid w") (auto simp: pushTransientSyntheticPrompt_def msg_simps Let_def)
  then obtain i where "ls_messages (pushTransientSyntheticPrompt w p q s) = ls_messages s @ [transient_prompt i p q]" ..
  then show "state_ok s \<Longrightarrow> state_ok (pushTransientSyntheticPrompt w p q s)" by (simp add: history_quiet transient_quiet)
qed

lemma expire_ok: "state_ok s \<Longrightarrow> state_ok (expireConsumedTransientPrompts s)"
  by (simp add: expireConsumedTransientPrompts_def history_remove)

lemma steers_ok:
  "state_ok s \<Longrightarrow> list_all (\<lambda>st. quiet (sm_message st)) sts \<Longrightarrow> state_ok (applySteerMessages sts s)"
  unfolding applySteerMessages_def
  by (induction sts arbitrary: s) (simp_all add: apply_steer_def msg_simps history_quiet)

definition step_ok :: "loop_step \<Rightarrow> bool" where
  "step_ok st \<longleftrightarrow> (case st of Again u \<Rightarrow> state_ok u | _ \<Rightarrow> True)"

lemma step_ok_simps [simp]:
  "step_ok (again w u) = state_ok u" "step_ok (continued w r u) = state_ok u" "step_ok (finish b res u)" "step_ok (Thrown u)"
  "step_ok (abort_turn env sb u)" "step_ok (fail_turn sr e v st u)" "step_ok (fail_model sr e v st u)" "step_ok (succeed b v u)"
  "step_ok (surface_error env er u)" "step_ok (contextOverflowAfterEmergency env sn u)" "step_ok (exhausted a msg u)"
  by (simp_all add: step_ok_def again_def continued_def finish_def abort_turn_def fail_turn_def fail_model_def succeed_def
      surface_error_def contextOverflowAfterEmergency_def exhausted_def msg_simps Let_def)

lemma output_recovery_ok [simp]: "state_ok u \<Longrightarrow> step_ok (output_recovery w tail u)"
  by (simp add: output_recovery_def transient_ok)

lemma retry_ok [simp]: "state_ok u \<Longrightarrow> step_ok (retry_after_recovery env w t a u)"
  by (simp add: retry_after_recovery_def transient_ok msg_simps Let_def)

lemma first_empty_ok [simp]: "state_ok u \<Longrightarrow> step_ok (first_empty_retry env w t a u)"
  by (simp add: first_empty_retry_def transient_ok msg_simps)

text \<open>A prompt of the repair after the last exchange may have been taken back.\<close>

lemma synthetic_ok:
  assumes "state_ok u" "b \<Longrightarrow> history_ok (stripTrailingErrorPair (ls_messages u))"
  shows "step_ok (continueWithSyntheticPrompt w d b u)"
proof (cases d)
  case (RepairContinue p q strip)
  define v where "v = (if \<not> b then u
       else case strip of
              Some StripErrorPair \<Rightarrow> u\<lparr>ls_messages := stripTrailingErrorPair (ls_messages u)\<rparr>
            | Some StripAssistant \<Rightarrow> u\<lparr>ls_messages := drop_last_if (\<lambda>m. role m = Assistant) (ls_messages u)\<rparr>
            | None \<Rightarrow> u)"
  have "state_ok v" using assms by (auto simp: v_def drop_assistant split: option.split strip_mode.split)
  then have "state_ok (pushTransientSyntheticPrompt w p q v)" by (rule transient_ok)
  then show ?thesis
    unfolding RepairContinue continueWithSyntheticPrompt_def repair_decision.case Let_def v_def [symmetric]
    by (simp split: option.split js_num.split)
qed (simp add: continueWithSyntheticPrompt_def)

section \<open>The worlds and environments considered\<close>

text \<open>The context runtime does not ask to compact or cut the history on an error.\<close>

definition never_cuts :: "loop_env \<Rightarrow> bool" where
  "never_cuts env \<longleftrightarrow>
     (\<forall>e ms b. case le_recover env e ms b of Some (TruncateHeadAndRetry _ _) \<Rightarrow> False | Some (CompactAndRetry _ _ _) \<Rightarrow> False | _ \<Rightarrow> True)"

definition compact_ok :: "compact_answer \<Rightarrow> bool" where
  "compact_ok c \<longleftrightarrow> (case c of Compacted ms _ _ _ \<Rightarrow> history_ok ms | _ \<Rightarrow> True)"

text \<open>Guidance carries no tool results, what the compaction and the context runtime put in place of the history is in
  order, also with the last exchange taken back, and a provider that misses the reasoning content says so before it
  has called a tool.\<close>

definition orderly :: "loop_world \<Rightarrow> bool" where
  "orderly w \<longleftrightarrow>
     list_all (\<lambda>st. quiet (sm_message st)) (lw_steers w)
     \<and> (case lw_terminalSteers w of None \<Rightarrow> True | Some sts \<Rightarrow> list_all (\<lambda>st. quiet (sm_message st)) sts)
     \<and> compact_ok (lw_compact w) \<and> compact_ok (lw_recompact w)
     \<and> (case lw_apply w of Applied ms _ \<Rightarrow> history_ok ms \<and> history_ok (stripTrailingErrorPair ms) | _ \<Rightarrow> True)
     \<and> (let a = assemble (Some (lw_responseId w)) (heard (lw_stream w))
        in case am_error a of Some e \<Rightarrow> isMissingReasoningContentError e \<longrightarrow> answer_calls a = [] | None \<Rightarrow> True)"

section \<open>The phases keep the history in order\<close>

lemma top_ok: "orderly w \<Longrightarrow> state_ok s \<Longrightarrow> case top_phase env w s of Inl st \<Rightarrow> step_ok st | Inr u \<Rightarrow> state_ok u"
  by (simp add: top_phase_def Let_def steers_ok orderly_def)

lemma compact_phase_ok:
  "orderly w \<Longrightarrow> state_ok s \<Longrightarrow> case compact_phase env w s of Inl st \<Rightarrow> step_ok st | Inr (u, b) \<Rightarrow> state_ok u"
  by (auto simp: compact_phase_def Let_def orderly_def compact_ok_def msg_simps split: compact_answer.split)

lemma route_phase_ok: "state_ok s \<Longrightarrow> case route_phase env w s of Inl st \<Rightarrow> step_ok st | Inr d \<Rightarrow> True"
  by (simp add: route_phase_def split: option.split)

lemma recompact_phase_ok:
  "orderly w \<Longrightarrow> state_ok s \<Longrightarrow> case recompact_phase env w d s of Inl st \<Rightarrow> step_ok st | Inr (u, b) \<Rightarrow> state_ok u"
  by (auto simp: recompact_phase_def Let_def orderly_def compact_ok_def msg_simps split: compact_answer.split)

lemma call_phase_ok:
  "state_ok s \<Longrightarrow> case call_phase env w t b s of Inl st \<Rightarrow> step_ok st
     | Inr (u, a) \<Rightarrow> state_ok u \<and> a = assemble (Some (lw_responseId w)) (heard (lw_stream w))"
  by (simp add: call_phase_def Let_def msg_simps expire_ok split: option.split)

lemma keep_text_ok:
  assumes "state_ok s" "role m = Assistant" "collectToolCalls (content m) = []"
  shows "state_ok (keep_text m s)"
proof -
  have "tool_call_ids (content m) = []" using assms(3) ids_collectToolCalls [of "content m"] by simp
  moreover have "set (tool_call_ids (filter P bs)) \<subseteq> set (tool_call_ids bs)" for P bs
    by (induction bs rule: tool_call_ids.induct) auto
  ultimately have "tool_call_ids (content (withoutThinkingBlocks m)) = []"
    by (simp add: withoutThinkingBlocks_def) (metis list.set(1) set_empty subset_empty)
  then show ?thesis using assms by (simp add: keep_text_def msg_simps history_text withoutThinkingBlocks_def Let_def)
qed

lemma interruption_ok:
  assumes "state_ok s" "role (am_message a) = Assistant"
  shows "case interruption_phase w a s of Inl st \<Rightarrow> step_ok st | Inr u \<Rightarrow> state_ok u"
  using assms keep_text_ok [of _ "am_message a"]
  by (auto simp: interruption_phase_def Let_def transient_ok split: option.split)

lemma unknown_ok:
  assumes "state_ok s" "role (am_message a) = Assistant"
  shows "case unknown_phase w a s of Inl st \<Rightarrow> step_ok st | Inr u \<Rightarrow> state_ok u"
  using assms keep_text_ok [of _ "am_message a"] by (auto simp: unknown_phase_def Let_def transient_ok)

lemma repaired_ok: "state_ok s \<Longrightarrow> case repaired_phase env w t a s of Inl st \<Rightarrow> step_ok st | Inr u \<Rightarrow> u = s"
  by (auto simp: repaired_phase_def Let_def synthetic_ok msg_simps split: option.split prod.split)

lemma empty_ok:
  "state_ok s \<Longrightarrow> case empty_phase env w t a s of Inl st \<Rightarrow> step_ok st
     | Inr u \<Rightarrow> u = s \<and> \<not> (am_error a = None \<and> collectToolCalls (content (am_message a)) = [] \<and> visible_text a = [])"
  by (simp add: empty_phase_def visible_text_def Let_def)

section \<open>Errors, texts and calls\<close>

text \<open>After the answers to the calls of a failed answer the history is in order again, and taking the pair back gives
  the history of before.\<close>

lemma failed_calls_ok:
  assumes "state_ok s" "role m = Assistant" "ls_messages u = ls_messages s @ [m]" "cs = collectToolCalls (content m)"
  shows "state_ok (answer_failed_calls env w cs u)"
    and "stripTrailingErrorPair (ls_messages (answer_failed_calls env w cs u)) = ls_messages s"
proof -
  let ?rs = "missing_results env w ''Model error interrupted tool execution.'' cs u"
  have sup: "supplements sf sc ?rs = []" for sf sc
    by (simp add: supplements_def missing_results_def createMissingToolResult_def)
  have ids: "map pr_toolCallId ?rs = tool_call_ids (content m)"
    by (simp add: missing_results_def createMissingToolResult_def assms(4) comp_def flip: ids_collectToolCalls)
  have msgs: "ls_messages (answer_failed_calls env w cs u)
      = (if cs = [] then ls_messages s @ [m] else ls_messages s @ m # projectToolResults (le_stringify env) (le_stringifyContent env) (le_sanitizeRaw env) ?rs)"
    by (simp add: answer_failed_calls_def project_results_def msg_simps assms(3) Let_def)
  have none: "tool_call_ids (content m) = []" if "cs = []"
    using that assms(4) ids_collectToolCalls [of "content m"] by simp
  show "state_ok (answer_failed_calls env w cs u)"
    unfolding msgs using history_text [OF assms(1,2)] none history_projected [OF assms(1,2) ids] by simp
  show "stripTrailingErrorPair (ls_messages (answer_failed_calls env w cs u)) = ls_messages s"
    unfolding msgs using strip_text [OF assms(2)] strip_results [OF assms(2)] by (simp add: project_parts sup)
qed

lemma react_ok:
  assumes "never_cuts env" "state_ok s" "history_ok (stripTrailingErrorPair (ls_messages s))"
    "react env w tg t (le_recover env e ms b) s = Some st"
  shows "step_ok st"
proof (cases "le_recover env e ms b")
  case (Some d)
  have "case Some d of Some (TruncateHeadAndRetry _ _) \<Rightarrow> False | Some (CompactAndRetry _ _ _) \<Rightarrow> False | _ \<Rightarrow> True"
    using assms(1) Some unfolding never_cuts_def by metis
  moreover have "react env w tg t (Some d) s = Some st" using assms(4) Some by simp
  ultimately show ?thesis using assms(2,3)
    by (auto simp: react_def recover_adjust_def msg_simps history_images Let_def split: recovery_decision.splits if_splits)
qed (use assms in \<open>simp add: react_def\<close>)

lemma output_reached_ok:
  assumes "state_ok s" "history_ok (stripTrailingErrorPair (ls_messages s))"
  shows "step_ok (output_reached env w t e s)"
  using assms by (simp add: output_reached_def msg_simps Let_def split: option.split)

lemma error_ok:
  assumes "never_cuts env" "state_ok s" "role (am_message a) = Assistant" "ls_messages u = ls_messages s @ [am_message a]"
    and "isMissingReasoningContentError e \<longrightarrow> answer_calls a = []"
  shows "step_ok (error_phase env w t a e u)"
proof -
  let ?u = "answer_failed_calls env w (collectToolCalls (content (am_message a))) u"
  have ok: "state_ok ?u" "history_ok (stripTrailingErrorPair (ls_messages ?u))"
    using failed_calls_ok [OF assms(2-4) refl] assms(2) by simp_all
  have reasoning: "state_ok (u\<lparr>ls_hasAttemptedReasoningContentRetry := True, ls_messages := addEmptyReasoningContentMarkers (ls_messages u)\<rparr>)"
    if "isMissingReasoningContentError e"
  proof -
    have "tool_call_ids (content (am_message a)) = []"
      using that assms(5) ids_collectToolCalls [of "content (am_message a)"] by (simp add: answer_calls_def)
    then show ?thesis using assms(2-4) by (simp add: history_text history_markers)
  qed
  have "step_ok st" if "react env w tg t (le_recover env e ms b) ?u = Some st" for tg ms b st
    using react_ok [OF assms(1) ok that] .
  then show ?thesis using reasoning output_reached_ok [OF ok] ok
    by (auto simp: error_phase_def Let_def transient_ok split: option.split)
qed

lemma stop_ok [simp]: "step_ok (stop_turn w a u)"
  by (simp add: stop_turn_def Let_def split: option.split)

lemma text_ok:
  assumes "orderly w" "state_ok s" "role (am_message a) = Assistant" "ls_messages u = ls_messages s @ [am_message a]"
    and "collectToolCalls (content (am_message a)) = []" "visible_text a \<noteq> []"
  shows "step_ok (text_phase env w t a u)"
proof -
  have none: "tool_call_ids (content (am_message a)) = []" using assms(5) ids_collectToolCalls [of "content (am_message a)"] by simp
  have ok: "state_ok u" using assms(2-4) none by (simp add: history_text)
  have strip: "history_ok (stripTrailingErrorPair (ls_messages u))" using assms(2-4) by (simp add: strip_text)
  have late: "late_empty_guard env w t a u = Inr u" using assms(6) by (simp add: late_empty_guard_def)
  have cut: "case cut_off_text w a u of Inl st \<Rightarrow> step_ok st | Inr v \<Rightarrow> ls_messages v = ls_messages u"
    using ok by (simp add: cut_off_text_def Let_def msg_simps)
  show ?thesis
  proof (cases "cut_off_text w a u")
    case (Inl st)
    then show ?thesis using cut late by (simp add: text_phase_def)
  next
    case (Inr v)
    then have v: "ls_messages v = ls_messages u" using cut by simp
    have steer: "step_ok (steer_or_stop env w a (v\<lparr>ls_largeFileRepair := r\<rparr>))" for r
      using ok v assms(1) steers_ok [of "v\<lparr>ls_largeFileRepair := r\<rparr>"]
      by (auto simp: steer_or_stop_def orderly_def split: option.splits list.split)
    show ?thesis using steer ok strip v late Inr
      by (cases "onNoToolCalls (ls_largeFileRepair v)") (simp add: text_phase_def Let_def synthetic_ok split: option.split)
  qed
qed

lemma settle_ok:
  assumes "state_ok u" "history_ok (stripTrailingErrorPair (ls_messages u))"
  shows "step_ok (settle_results env w d rs u)"
proof -
  have breaker: "case breaker w rs v of Inl st \<Rightarrow> step_ok st | Inr x \<Rightarrow> state_ok x" if "state_ok v" for v
    using that by (simp add: breaker_def count_invalid_def transient_ok Let_def)
  have next_turn: "step_ok (next_turn env w x)" if "state_ok x" for x
    using that by (simp add: next_turn_def)
  have "step_ok (case breaker w rs v of Inl st \<Rightarrow> st | Inr x \<Rightarrow> next_turn env w x)" if "state_ok v" for v
    using breaker [OF that] next_turn by (simp split: sum.splits)
  then show ?thesis using assms
    by (auto simp: settle_results_def synthetic_ok Let_def split: option.split prod.split)
qed

lemma tools_ok:
  assumes "orderly w" "state_ok s" "role (am_message a) = Assistant" "ls_messages u = ls_messages s @ [am_message a]"
  shows "step_ok (tools_phase env w a u)"
proof -
  let ?calls = "collectToolCalls (content (am_message a))"
  define s1 where "s1 = outs [DoExecuteTools ?calls] (outs [EvToolCallsDetected ?calls] u)"
  obtain fp again where f: "detectRepeatedToolFailure (le_template env) (pair_results env w ?calls s1) (ls_lastToolFailureFingerprint s1) = (fp, again)"
    by fastforce
  define rs where "rs = annotateRepeatedToolFailures (le_template env) (pair_results env w ?calls s1) again"
  obtain d rep where d: "analyzeToolResults rs (repair_context_of a) (ls_largeFileRepair s1) = (d, rep)" by fastforce
  define v where "v = fold take_result rs (s1\<lparr>ls_lastToolFailureFingerprint := fp,
    ls_largeFileRepair := rep, ls_permissionDenials := ls_permissionDenials s1 @ collectPermissionDenials rs\<rparr>)"
  have v: "ls_messages v = ls_messages s @ [am_message a]" by (simp add: v_def msg_simps s1_def assms(4))
  have ids: "map pr_toolCallId rs = tool_call_ids (content (am_message a))"
    by (simp add: rs_def annotate_ids pair_results_def ensureToolResultPairing_ids ids_collectToolCalls)
  note projected = history_projected [OF assms(2,3) ids] strip_exchange [OF assms(2,3) ids]
  have "state_ok (append_results env w rs v) \<and> history_ok (stripTrailingErrorPair (ls_messages (append_results env w rs v)))"
    using projected assms(1) by (simp add: append_results_def project_results_def v msg_simps orderly_def Let_def split: apply_answer.splits)
  then have "step_ok (settle_results env w d rs (append_results env w rs v))" by (simp add: settle_ok)
  then show ?thesis using f d
    by (simp add: tools_phase_def Let_def s1_def [symmetric] rs_def [symmetric] v_def [symmetric])
qed

section \<open>The pass and the turn\<close>

lemma answer_ok:
  assumes "never_cuts env" "orderly w" "state_ok s" "a = assemble (Some (lw_responseId w)) (heard (lw_stream w))"
  shows "step_ok (answer_phase env w t a s)"
proof -
  have r: "role (am_message a) = Assistant" by (simp add: assms(4) assemble_correct(6))
  have missing: "isMissingReasoningContentError e \<longrightarrow> answer_calls a = []" if "am_error a = Some e" for e
    using assms(2) that by (simp add: orderly_def assms(4) Let_def)
  show ?thesis
  proof (cases "interruption_phase w a s")
    case (Inl st)
    then show ?thesis using interruption_ok [OF assms(3) r, of w] by (simp add: answer_phase_def)
  next
    case 1: (Inr s1)
    then have s1: "state_ok s1" using interruption_ok [OF assms(3) r, of w] by simp
    show ?thesis
    proof (cases "unknown_phase w a s1")
      case (Inl st)
      then show ?thesis using unknown_ok [OF s1 r, of w] 1 by (simp add: answer_phase_def)
    next
      case 2: (Inr s2)
      then have s2: "state_ok s2" using unknown_ok [OF s1 r, of w] by simp
      show ?thesis
      proof (cases "repaired_phase env w t a s2")
        case (Inl st)
        then show ?thesis using repaired_ok [OF s2, of env w t a] 1 2 by (simp add: answer_phase_def)
      next
        case 3: (Inr s3)
        then have s3: "s3 = s2" using repaired_ok [OF s2, of env w t a] by simp
        show ?thesis
        proof (cases "empty_phase env w t a s2")
          case (Inl st)
          then show ?thesis using empty_ok [OF s2, where env = env and w = w and t = t and a = a] 1 2 3 s3 by (simp add: answer_phase_def)
        next
          case 4: (Inr s4)
          then have s4: "s4 = s2" and visible: "\<not> (am_error a = None \<and> collectToolCalls (content (am_message a)) = [] \<and> visible_text a = [])"
            using empty_ok [OF s2, where env = env and w = w and t = t and a = a] by simp_all
          let ?s5 = "show_assistant (am_message a) (push [am_message a] s2)"
          have m: "ls_messages ?s5 = ls_messages s2 @ [am_message a]" by (simp add: msg_simps)
          show ?thesis
            using error_ok [OF assms(1) s2 r m missing] text_ok [OF assms(2) s2 r m, where t = t and env = env] tools_ok [OF assms(2) s2 r m] visible 1 2 3 4 s3 s4
            by (auto simp: answer_phase_def Let_def split: option.split)
        qed
      qed
    qed
  qed
qed

text \<open>The histories of the requests.\<close>

definition sent :: "loop_effect list \<Rightarrow> message list set" where
  "sent es = {ms. \<exists>p m c. DoCallModel p m c ms \<in> set es}"

lemma sent_deeds: "sent (ls_trace s) = sent (deeds s)"
  by (force simp: sent_def deeds_def)

lemma sent_append: "sent (xs @ ys) = sent xs \<union> sent ys"
  by (auto simp: sent_def)

lemma ends_well_sent: "ends_well ds st \<Longrightarrow> case st of Again u \<Rightarrow> sent (deeds u) = sent ds | Done r u \<Rightarrow> sent (deeds u) = sent ds | Thrown u \<Rightarrow> sent (deeds u) = sent ds"
  by (auto simp: ends_well_def sent_append sent_def split: loop_step.splits)

definition step_sent :: "loop_step \<Rightarrow> message list set" where
  "step_sent st = (case st of Again u \<Rightarrow> sent (ls_trace u) | Done r u \<Rightarrow> sent (ls_trace u) | Thrown u \<Rightarrow> sent (ls_trace u))"

lemma ends_well_step: "ends_well ds st \<Longrightarrow> step_sent st = sent ds"
  using ends_well_sent [of ds st] by (auto simp: step_sent_def sent_deeds split: loop_step.splits)

lemma pass_well_step: "pass_well as ds st \<Longrightarrow> step_sent st = sent ds"
proof -
  have "sent (ds @ [ran a]) = sent ds" "sent (ds @ ran a # map EvToolResult rs) = sent ds" for a rs
    by (auto simp: sent_def ran_def)
  then show "pass_well as ds st \<Longrightarrow> step_sent st = sent ds" unfolding pass_well_def using ends_well_step by metis
qed

lemma iteration_ok:
  assumes "never_cuts env" "orderly w" "state_ok s"
  shows "step_ok (iteration env w s) \<and> step_sent (iteration env w s) \<subseteq> sent (ls_trace s) \<union> {ms. history_ok ms}"
proof (cases "top_phase env w s")
  case (Inl st)
  then show ?thesis using top_ok [OF assms(2,3), of env] top_well [of s env w] ends_well_step
    by (auto simp: iteration_def phase_well_def sent_deeds)
next
  case 1: (Inr s1)
  then have s1: "state_ok s1" "deeds s1 = deeds s" using top_ok [OF assms(2,3), of env] top_well [of s env w] by (simp_all add: phase_well_def)
  show ?thesis
  proof (cases "compact_phase env w s1")
    case (Inl st)
    then show ?thesis using compact_phase_ok [OF assms(2) s1(1), of env] compact_well [of s1 env w] ends_well_step 1 s1(2)
      by (auto simp: iteration_def sent_deeds)
  next
    case 2: (Inr p)
    obtain s2 b where p: "p = (s2, b)" by fastforce
    then have s2: "state_ok s2" "deeds s2 = deeds s"
      using compact_phase_ok [OF assms(2) s1(1), of env] compact_well [of s1 env w] 2 s1(2) by simp_all
    show ?thesis
    proof (cases "route_phase env w s2")
      case (Inl st)
      then show ?thesis using route_phase_ok [OF s2(1), of env w] route_well [of s2 env w] ends_well_step 1 2 p s2(2)
        by (auto simp: iteration_def sent_deeds)
    next
      case 3: (Inr d)
      show ?thesis
      proof (cases "recompact_phase env w d s2")
        case (Inl st)
        then show ?thesis using recompact_phase_ok [OF assms(2) s2(1), of env d] recompact_well [of s2 env w d] ends_well_step 1 2 3 p s2(2)
          by (auto simp: iteration_def sent_deeds)
      next
        case 4: (Inr q)
        obtain s3 e where q: "q = (s3, e)" by fastforce
        then have s3: "state_ok s3" "deeds s3 = deeds s"
          using recompact_phase_ok [OF assms(2) s2(1), of env d] recompact_well [of s2 env w d] 4 s2(2) by simp_all
        have asked: "sent (deeds s @ [request env (fst d) s3]) \<subseteq> sent (ls_trace s) \<union> {ms. history_ok ms}"
        proof -
          have "sent [request env (fst d) s3] \<subseteq> {ms. history_ok ms}" using s3(1) by (auto simp: sent_def request_def)
          then show ?thesis by (auto simp: sent_append sent_deeds)
        qed
        note call = call_phase_ok [where s = s3 and env = env and w = w and t = "fst d" and b = "if e then None else b"]
          call_well [where s = s3 and env = env and w = w and t = "fst d" and b = "if e then None else b"]
        show ?thesis
        proof (cases "call_phase env w (fst d) (if e then None else b) s3")
          case (Inl st)
          have "iteration env w s = st" using 1 2 3 4 p q Inl by (simp add: iteration_def)
          moreover have "ends_well (deeds s) st \<or> ends_well (deeds s @ [request env (fst d) s3]) st" using call(2) Inl s3(2) by simp
          moreover have "step_ok st" using call(1) Inl s3(1) by simp
          ultimately show ?thesis using ends_well_step asked by (auto simp: sent_deeds)
        next
          case 5: (Inr r)
          obtain s4 a where r: "r = (s4, a)" by fastforce
          have s4: "state_ok s4" and a: "a = assemble (Some (lw_responseId w)) (heard (lw_stream w))" using call(1) 5 r s3(1) by simp_all
          have it: "iteration env w s = answer_phase env w (fst d) a s4" using 1 2 3 4 5 p q r by (simp add: iteration_def)
          have "deeds s4 = deeds s @ [request env (fst d) s3]" using call(2) 5 r s3(2) by simp
          then have "step_sent (iteration env w s) = sent (deeds s @ [request env (fst d) s3])"
            using pass_well_step [OF answer_well [where env = env and w = w and t = "fst d" and a = a and s = s4]] it by simp
          then show ?thesis using answer_ok [OF assms(1,2) s4 a, of "fst d"] asked it by simp
        qed
      qed
    qed
  qed
qed

lemma run_turn_ok:
  assumes "never_cuts env" "\<And>k. orderly (ws k)" "state_ok s"
  shows "step_sent (run_turn n env ws s) \<subseteq> sent (ls_trace s) \<union> {ms. history_ok ms}"
  using assms(2,3)
proof (induction n arbitrary: ws s)
  case 0
  then show ?case by (simp add: step_sent_def)
next
  case (Suc n)
  note pass = iteration_ok [OF assms(1) Suc.prems(1) [of 0] Suc.prems(2)]
  show ?case
  proof (cases "iteration env (ws 0) s")
    case (Again u)
    then have "state_ok u" "sent (ls_trace u) \<subseteq> sent (ls_trace s) \<union> {ms. history_ok ms}"
      using pass by (simp_all add: step_ok_def step_sent_def)
    then show ?thesis using Suc.IH [of "\<lambda>k. ws (Suc k)" u] Suc.prems(1) Again by auto
  qed (use pass in simp_all)
qed

text \<open>A turn with a call of a tool, its result, and an answer.\<close>

definition call_world :: loop_world where
  "call_world = too_long_world\<lparr>lw_stream := [ToolCallEnd \<lparr>tc_id = ''c1'', tc_name = ''read_file'', tc_input = JObject [], tc_raw = None\<rparr> False,
     MessageEnd FinToolCall]\<rparr>"

lemma call_world_orderly: "orderly call_world"
proof -
  have "am_error (assemble (Some ''r'') (heard (lw_stream call_world))) = None" by code_simp
  then show ?thesis by (simp add: orderly_def call_world_def too_long_world_def compact_ok_def)
qed



end
