(* ===== verification/WorkspaceLeases.thy ===== *)
theory WorkspaceLeases
  imports Paths
begin

text \<open>
  The coordination of file operations in one process: \<open>session/checkpoints/WorkspaceCoordinator.ts\<close>. Leases on files and
  directories are granted when they conflict with no granted lease and no lease asked for earlier, except that an
  operation nested in a directory lease of the same owner may pass the queue.

  A lease object is its number; an owner is an object of the caller or the fresh object of the lease itself. Granting
  only resolves a promise, so nothing of this component runs in between.
\<close>

section \<open>Leases\<close>

datatype lease_kind = FileLease | DirectoryLease

datatype lease_owner = CallerObject nat | OwnObject nat

datatype lease_label = DefaultLabel | CustomLabel string \<comment> \<open>the default is a fixed Chinese text\<close>

record lease =
  wl_id :: nat
  wl_scope :: string
  wl_kind :: lease_kind
  wl_owner :: lease_owner
  wl_label :: lease_label

record coordinator =
  wc_active :: "lease list"
  wc_waiting :: "lease list"
  wc_next :: nat
  wc_turns :: "(nat \<times> string \<times> string \<times> string) list" \<comment> \<open>object, workspace, session and turn\<close>

definition new_coordinator :: coordinator where
  "new_coordinator = \<lparr>wc_active = [], wc_waiting = [], wc_next = 0, wc_turns = []\<rparr>"

text \<open>The real path, or that of the closest directory above that has one.\<close>

fun canonical_segs :: "host \<Rightarrow> string list \<Rightarrow> string" where
  "canonical_segs h [] = (case realpath h [slash] of Some p \<Rightarrow> p | None \<Rightarrow> [slash])"
| "canonical_segs h (seg # up) =
     (case realpath h (render (rev (seg # up))) of Some p \<Rightarrow> p | None \<Rightarrow> path_join (canonical_segs h up) seg)"

definition canonicalWorkspacePath :: "host \<Rightarrow> string \<Rightarrow> string" where
  "canonicalWorkspacePath h value = canonical_segs h (rev (segs_of (resolve (processCwd h) value)))"

definition contains_path :: "string \<Rightarrow> string \<Rightarrow> bool" where
  "contains_path rootDir target =
     (let rel = relative rootDir target
      in rel = [] \<or> (rel \<noteq> ''..'' \<and> \<not> startsWith rel ''../'' \<and> \<not> isAbsolute rel))"

definition overlappingPaths :: "string \<Rightarrow> string \<Rightarrow> bool" where
  "overlappingPaths left right \<longleftrightarrow> contains_path left right \<or> contains_path right left"

definition conflicts :: "lease \<Rightarrow> lease \<Rightarrow> bool" where
  "conflicts left right \<longleftrightarrow>
     overlappingPaths (wl_scope left) (wl_scope right)
     \<and> \<not> (wl_owner left = wl_owner right \<and> (wl_kind left = DirectoryLease \<or> wl_kind right = DirectoryLease))"

section \<open>Operations\<close>

definition nested_in :: "lease list \<Rightarrow> lease \<Rightarrow> bool" where
  "nested_in active item \<longleftrightarrow>
     list_ex (\<lambda>l. wl_owner l = wl_owner item \<and> wl_kind l = DirectoryLease \<and> overlappingPaths (wl_scope l) (wl_scope item)) active"

definition must_wait :: "lease list \<Rightarrow> lease list \<Rightarrow> lease \<Rightarrow> bool" where
  "must_wait active earlier item \<longleftrightarrow>
     list_ex (\<lambda>l. conflicts l item) active \<or> (\<not> nested_in active item \<and> list_ex (\<lambda>l. conflicts l item) earlier)"

text \<open>The loop of \<open>drain\<close>: \<open>kept\<close> are the waiters before the index.\<close>

fun drain_from :: "lease list \<Rightarrow> lease list \<Rightarrow> lease list \<Rightarrow> lease list \<times> lease list" where
  "drain_from active kept [] = (active, kept)"
| "drain_from active kept (item # rest) =
     (if must_wait active kept item then drain_from active (kept @ [item]) rest
      else drain_from (active @ [item]) kept rest)"

definition drain :: "coordinator \<Rightarrow> coordinator" where
  "drain c = (let (active, waiting) = drain_from (wc_active c) [] (wc_waiting c)
              in c\<lparr>wc_active := active, wc_waiting := waiting\<rparr>)"

definition acquireWorkspaceOperation ::
    "host \<Rightarrow> string \<Rightarrow> lease_kind option \<Rightarrow> nat option \<Rightarrow> string option \<Rightarrow> bool \<Rightarrow> coordinator \<Rightarrow> coordinator" where
  "acquireWorkspaceOperation h scope kind owner label aborted c =
     (if aborted then c
      else (let i = wc_next c;
                item = \<lparr>wl_id = i, wl_scope = canonicalWorkspacePath h scope,
                        wl_kind = (case kind of None \<Rightarrow> DirectoryLease | Some k \<Rightarrow> k),
                        wl_owner = (case owner of None \<Rightarrow> OwnObject i | Some x \<Rightarrow> CallerObject x),
                        wl_label = (case label of None \<Rightarrow> DefaultLabel | Some t \<Rightarrow> CustomLabel t)\<rparr>
            in drain (c\<lparr>wc_waiting := wc_waiting c @ [item], wc_next := i + 1\<rparr>)))"

text \<open>The abort of the signal while the operation waits; the signal is listened to no longer once it is granted.\<close>

definition abort_waiting :: "nat \<Rightarrow> coordinator \<Rightarrow> coordinator" where
  "abort_waiting i c =
     (if list_ex (\<lambda>l. wl_id l = i) (wc_waiting c)
      then drain (c\<lparr>wc_waiting := filter (\<lambda>l. wl_id l \<noteq> i) (wc_waiting c)\<rparr>) else c)"

text \<open>The release a granted operation holds; only its first call has an effect.\<close>

definition release_lease :: "nat \<Rightarrow> coordinator \<Rightarrow> coordinator" where
  "release_lease i c =
     (if list_ex (\<lambda>l. wl_id l = i) (wc_active c)
      then drain (c\<lparr>wc_active := filter (\<lambda>l. wl_id l \<noteq> i) (wc_active c)\<rparr>) else c)"

definition workspaceOperationState :: "host \<Rightarrow> string \<Rightarrow> coordinator \<Rightarrow> bool \<times> lease_label option" where
  "workspaceOperationState h workspace c =
     (let r = canonicalWorkspacePath h workspace
      in case filter (\<lambda>l. overlappingPaths r (wl_scope l)) (wc_active c @ wc_waiting c) of
           [] \<Rightarrow> (False, None) | l # _ \<Rightarrow> (True, Some (wl_label l)))"

definition registerWorkspaceTurn :: "host \<Rightarrow> string \<Rightarrow> string \<Rightarrow> string \<Rightarrow> coordinator \<Rightarrow> nat \<times> coordinator" where
  "registerWorkspaceTurn h workspace sessionId turnId c =
     (wc_next c, c\<lparr>wc_turns := wc_turns c @ [(wc_next c, canonicalWorkspacePath h workspace, sessionId, turnId)], wc_next := wc_next c + 1\<rparr>)"

definition unregisterWorkspaceTurn :: "nat \<Rightarrow> coordinator \<Rightarrow> coordinator" where
  "unregisterWorkspaceTurn i c = c\<lparr>wc_turns := filter (\<lambda>t. fst t \<noteq> i) (wc_turns c)\<rparr>"

definition hasWorkspaceTurn :: "host \<Rightarrow> string \<Rightarrow> string option \<Rightarrow> string option \<Rightarrow> coordinator \<Rightarrow> bool" where
  "hasWorkspaceTurn h workspace sessionId turnId c =
     (let r = canonicalWorkspacePath h workspace
      in list_ex (\<lambda>(i, w, s, t). overlappingPaths r w \<and> (sessionId = None \<or> sessionId = Some s) \<and> (turnId = None \<or> turnId = Some t))
           (wc_turns c))"

section \<open>Runs\<close>

datatype lease_op =
    Acquire string "lease_kind option" "nat option" "string option" bool
  | AbortWait nat
  | Release nat
  | RegisterTurn string string string
  | UnregisterTurn nat

fun lease_step :: "host \<Rightarrow> lease_op \<Rightarrow> coordinator \<Rightarrow> coordinator" where
  "lease_step h (Acquire scope kind owner label aborted) c = acquireWorkspaceOperation h scope kind owner label aborted c"
| "lease_step h (AbortWait i) c = abort_waiting i c"
| "lease_step h (Release i) c = release_lease i c"
| "lease_step h (RegisterTurn w s t) c = snd (registerWorkspaceTurn h w s t c)"
| "lease_step h (UnregisterTurn i) c = unregisterWorkspaceTurn i c"

definition run_leases :: "host \<Rightarrow> lease_op list \<Rightarrow> coordinator" where
  "run_leases h ops = fold (lease_step h) ops new_coordinator"

section \<open>The invariant\<close>

text \<open>A waiter waits for something: a granted lease or an earlier waiter it conflicts with.\<close>

fun waits_for :: "lease list \<Rightarrow> lease list \<Rightarrow> bool" where
  "waits_for ahead [] = True"
| "waits_for ahead (x # xs) = (list_ex (\<lambda>l. conflicts l x) ahead \<and> waits_for (ahead @ [x]) xs)"

definition exclusive :: "lease list \<Rightarrow> bool" where
  "exclusive ls = sorted_wrt (\<lambda>a b. \<not> conflicts a b) ls"

definition ids :: "lease list \<Rightarrow> nat list" where "ids = map wl_id"

definition leases_ok :: "coordinator \<Rightarrow> bool" where
  "leases_ok c \<longleftrightarrow> exclusive (wc_active c) \<and> waits_for (wc_active c) (wc_waiting c)
     \<and> distinct (ids (wc_active c @ wc_waiting c)) \<and> list_all (\<lambda>i. i < wc_next c) (ids (wc_active c @ wc_waiting c))"

lemma exclusive_snoc: "exclusive (ls @ [x]) \<longleftrightarrow> exclusive ls \<and> \<not> list_ex (\<lambda>l. conflicts l x) ls"
  by (auto simp: exclusive_def sorted_wrt_append list_ex_iff)

lemma exclusive_filter: "exclusive ls \<Longrightarrow> exclusive (filter P ls)"
  by (simp add: exclusive_def sorted_wrt_filter)

lemma waits_for_append: "waits_for ahead (xs @ [x]) \<longleftrightarrow> waits_for ahead xs \<and> list_ex (\<lambda>l. conflicts l x) (ahead @ xs)"
  by (induction xs arbitrary: ahead) auto

lemma waits_for_mono: "waits_for ahead xs \<Longrightarrow> set ahead \<subseteq> set ahead' \<Longrightarrow> waits_for ahead' xs"
proof (induction xs arbitrary: ahead ahead')
  case (Cons x xs)
  then have "list_ex (\<lambda>l. conflicts l x) ahead'" by (auto simp: list_ex_iff)
  moreover have "waits_for (ahead' @ [x]) xs" using Cons.IH [of "ahead @ [x]" "ahead' @ [x]"] Cons.prems by auto
  ultimately show ?case by simp
qed simp

text \<open>\<open>drain\<close> makes the waiters wait for something and keeps the granted leases apart, whatever the waiters were.\<close>

lemma drain_from_ok:
  "drain_from active kept rest = (a, w) \<Longrightarrow> exclusive active \<Longrightarrow> waits_for active kept \<Longrightarrow>
   exclusive a \<and> waits_for a w \<and> mset (a @ w) = mset (active @ kept @ rest) \<and> (\<exists>more. a = active @ more)"
proof (induction active kept rest arbitrary: a w rule: drain_from.induct)
  case (2 active kept item rest)
  show ?case
  proof (cases "must_wait active kept item")
    case True
    then have "waits_for active (kept @ [item])" using 2(5) by (auto simp: waits_for_append must_wait_def)
    then show ?thesis using 2(1) [OF True] 2(3,4) True by simp
  next
    case False
    then have "exclusive (active @ [item])" using 2(4) by (simp add: exclusive_snoc must_wait_def)
    moreover have "waits_for (active @ [item]) kept" by (rule waits_for_mono [OF 2(5)]) auto
    ultimately show ?thesis using 2(2) [OF False] 2(3) False by fastforce
  qed
qed auto

lemma drain_ok:
  assumes "exclusive (wc_active c)" "distinct (ids (wc_active c @ wc_waiting c))"
    "list_all (\<lambda>i. i < wc_next c) (ids (wc_active c @ wc_waiting c))"
  shows "leases_ok (drain c)" "mset (wc_active (drain c) @ wc_waiting (drain c)) = mset (wc_active c @ wc_waiting c)"
proof -
  obtain a w where d: "drain_from (wc_active c) [] (wc_waiting c) = (a, w)" by fastforce
  have ok: "exclusive a" "waits_for a w" and same: "mset (a @ w) = mset (wc_active c @ wc_waiting c)"
    using drain_from_ok [OF d assms(1)] by simp_all
  have "mset (ids (a @ w)) = mset (ids (wc_active c @ wc_waiting c))" unfolding ids_def mset_map same ..
  then have "distinct (ids (a @ w))" "set (ids (a @ w)) = set (ids (wc_active c @ wc_waiting c))"
    using assms(2) mset_eq_imp_distinct_iff mset_eq_setD by blast+
  then show "leases_ok (drain c)" using ok assms(3) by (simp add: leases_ok_def drain_def d list_all_iff)
  show "mset (wc_active (drain c) @ wc_waiting (drain c)) = mset (wc_active c @ wc_waiting c)"
    using same by (simp add: drain_def d)
qed

text \<open>Every operation keeps the invariant.\<close>

lemma ids_filter: "distinct (ids xs) \<Longrightarrow> distinct (ids (filter P xs))" "set (ids (filter P xs)) \<subseteq> set (ids xs)"
  by (auto simp: ids_def distinct_map_filter)

lemma release_ok:
  assumes "leases_ok c"
  shows "leases_ok (release_lease i c)"
    and "list_ex (\<lambda>l. wl_id l = i) (wc_active c) \<Longrightarrow>
      length (wc_active (release_lease i c)) + length (wc_waiting (release_lease i c)) < length (wc_active c) + length (wc_waiting c)"
proof -
  let ?c = "c\<lparr>wc_active := filter (\<lambda>l. wl_id l \<noteq> i) (wc_active c)\<rparr>"
  have "distinct (ids (wc_active ?c @ wc_waiting ?c))" "set (ids (wc_active ?c @ wc_waiting ?c)) \<subseteq> set (ids (wc_active c @ wc_waiting c))"
    using assms by (auto simp: leases_ok_def ids_def distinct_map_filter)
  then have ok: "leases_ok (drain ?c)" and same: "mset (wc_active (drain ?c) @ wc_waiting (drain ?c)) = mset (wc_active ?c @ wc_waiting ?c)"
    using assms drain_ok [of ?c] by (auto simp: leases_ok_def exclusive_filter list_all_iff)
  show "leases_ok (release_lease i c)" using ok assms by (simp add: release_lease_def)
  show "list_ex (\<lambda>l. wl_id l = i) (wc_active c) \<Longrightarrow>
      length (wc_active (release_lease i c)) + length (wc_waiting (release_lease i c)) < length (wc_active c) + length (wc_waiting c)"
  proof -
    assume held: "list_ex (\<lambda>l. wl_id l = i) (wc_active c)"
    then have "length (filter (\<lambda>l. wl_id l \<noteq> i) (wc_active c)) < length (wc_active c)"
      by (auto simp: list_ex_iff intro: length_filter_less)
    moreover have "size (mset (wc_active (drain ?c) @ wc_waiting (drain ?c))) = size (mset (wc_active ?c @ wc_waiting ?c))"
      by (simp only: same)
    ultimately show ?thesis using held by (simp add: release_lease_def flip: size_mset mset_filter)
  qed
qed

lemma abort_ok: "leases_ok c \<Longrightarrow> leases_ok (abort_waiting i c)"
proof -
  assume ok: "leases_ok c"
  let ?c = "c\<lparr>wc_waiting := filter (\<lambda>l. wl_id l \<noteq> i) (wc_waiting c)\<rparr>"
  have "distinct (ids (wc_active ?c @ wc_waiting ?c))" "set (ids (wc_active ?c @ wc_waiting ?c)) \<subseteq> set (ids (wc_active c @ wc_waiting c))"
    using ok by (auto simp: leases_ok_def ids_def distinct_map_filter)
  then show ?thesis using ok drain_ok(1) [of ?c] by (auto simp: leases_ok_def abort_waiting_def list_all_iff)
qed

lemma acquire_ok:
  assumes "leases_ok c"
  shows "leases_ok (acquireWorkspaceOperation h scope kind owner label aborted c)"
proof (cases aborted)
  case False
  define item where "item = \<lparr>wl_id = wc_next c, wl_scope = canonicalWorkspacePath h scope,
    wl_kind = (case kind of None \<Rightarrow> DirectoryLease | Some k \<Rightarrow> k),
    wl_owner = (case owner of None \<Rightarrow> OwnObject (wc_next c) | Some x \<Rightarrow> CallerObject x),
    wl_label = (case label of None \<Rightarrow> DefaultLabel | Some t \<Rightarrow> CustomLabel t)\<rparr>"
  let ?c = "c\<lparr>wc_waiting := wc_waiting c @ [item], wc_next := wc_next c + 1\<rparr>"
  have "wc_next c \<notin> set (ids (wc_active c @ wc_waiting c))" using assms by (auto simp: leases_ok_def list_all_iff)
  then have "distinct (ids (wc_active ?c @ wc_waiting ?c))" using assms by (auto simp: leases_ok_def ids_def item_def)
  moreover have "list_all (\<lambda>i. i < wc_next ?c) (ids (wc_active ?c @ wc_waiting ?c))"
    using assms by (auto simp: leases_ok_def ids_def item_def list_all_iff less_Suc_eq)
  ultimately have "leases_ok (drain ?c)" using assms drain_ok(1) [of ?c] by (simp add: leases_ok_def)
  then show ?thesis using False by (simp add: acquireWorkspaceOperation_def item_def Let_def)
qed (use assms in \<open>simp add: acquireWorkspaceOperation_def\<close>)

lemma lease_step_ok: "leases_ok c \<Longrightarrow> leases_ok (lease_step h op c)"
proof (cases op)
  case (RegisterTurn w s t)
  then show "leases_ok c \<Longrightarrow> ?thesis"
    by (auto simp: registerWorkspaceTurn_def leases_ok_def list_all_iff less_Suc_eq)
next
  case (UnregisterTurn i)
  then show "leases_ok c \<Longrightarrow> ?thesis" by (simp add: unregisterWorkspaceTurn_def leases_ok_def)
qed (simp_all add: acquire_ok abort_ok release_ok)

lemma run_leases_ok: "leases_ok (run_leases h ops)"
proof -
  have "leases_ok c \<Longrightarrow> leases_ok (fold (lease_step h) ops c)" for c
    by (induction ops arbitrary: c) (simp_all add: lease_step_ok)
  then show ?thesis by (simp add: run_leases_def leases_ok_def new_coordinator_def exclusive_def ids_def)
qed

section \<open>What the coordinator promises\<close>

lemma waits_for_nth: "waits_for ahead xs \<Longrightarrow> i < length xs \<Longrightarrow> \<exists>l \<in> set (ahead @ take i xs). conflicts l (xs ! i)"
proof (induction xs arbitrary: ahead i)
  case (Cons x xs)
  show ?case
  proof (cases i)
    case 0
    then show ?thesis using Cons.prems by (auto simp: list_ex_iff)
  next
    case (Suc j)
    then show ?thesis using Cons.IH [of "ahead @ [x]" j] Cons.prems by auto
  qed
qed simp

text \<open>C15. Whatever is asked, aborted and released in whatever order: no two granted leases conflict; a lease only waits
  behind one it conflicts with, granted or asked for before it; and a lease is never both granted and waiting, nor twice
  in either.\<close>

theorem leases_exclusive:
  "let c = run_leases h ops
   in sorted_wrt (\<lambda>a b. \<not> conflicts a b) (wc_active c)
      \<and> {i. i < length (wc_waiting c)}
          \<subseteq> {i. \<exists>l. l \<in> set (wc_active c @ take i (wc_waiting c)) \<and> conflicts l (wc_waiting c ! i)}
      \<and> distinct (map wl_id (wc_active c @ wc_waiting c))"
  using run_leases_ok [of h ops] waits_for_nth [of "wc_active (run_leases h ops)" "wc_waiting (run_leases h ops)"]
  by (fastforce simp: Let_def leases_ok_def exclusive_def ids_def)

text \<open>Releasing what is granted, in any order.\<close>

definition releases :: "coordinator \<Rightarrow> coordinator \<Rightarrow> bool" where
  "releases c c' \<longleftrightarrow> (\<exists>l. l \<in> set (wc_active c) \<and> c' = release_lease (wl_id l) c)"

definition idle :: "coordinator \<Rightarrow> bool" where
  "idle c \<longleftrightarrow> wc_active c = [] \<and> wc_waiting c = []"

lemma waiting_active: "leases_ok c \<Longrightarrow> wc_waiting c \<noteq> [] \<Longrightarrow> wc_active c \<noteq> []"
  by (cases "wc_waiting c") (auto simp: leases_ok_def)

interpretation leases: terminating_system "run_leases h ops" releases leases_ok
    "\<lambda>c. length (wc_active c) + length (wc_waiting c)" idle for h ops
proof unfold_locales
  show "leases_ok (run_leases h ops)" by (rule run_leases_ok)
  show "leases_ok s \<Longrightarrow> releases s s' \<Longrightarrow> leases_ok s'" for s s' using release_ok(1) by (auto simp: releases_def)
  show "leases_ok s \<Longrightarrow> releases s s' \<Longrightarrow> length (wc_active s') + length (wc_waiting s') < length (wc_active s) + length (wc_waiting s)" for s s'
    using release_ok(2) by (auto simp: releases_def list_ex_iff)
  show "leases_ok s \<Longrightarrow> \<not> idle s \<Longrightarrow> \<exists>s'. releases s s'" for s
    using waiting_active [of s] by (cases "wc_active s") (auto simp: idle_def releases_def)
qed

text \<open>C16. No operation waits for ever: from every reachable state, however the granted leases are released, after at most as
  many releases as there are leases everything has been granted and released.\<close>

theorem no_lease_starves:
  "(\<exists>c. releases\<^sup>*\<^sup>* (run_leases h ops) c \<and> idle c)
   \<and> {(k, c). (releases ^^ k) (run_leases h ops) c}
      \<subseteq> {(k, c). k + length (wc_active c @ wc_waiting c) \<le> length (wc_active (run_leases h ops) @ wc_waiting (run_leases h ops))}"
  using leases.reaches_end [OF run_leases_ok] leases.run_length [OF _ run_leases_ok] by auto

end
