(* ===== verification/SessionRouter.thy ===== *)
theory SessionRouter
  imports Prelude
begin

text \<open>
  The sessions a gateway keeps (\<open>gateway/SessionRouter.ts\<close>): which session object answers for a key, when one is
  disposed of, and what a request that waits finds when it goes on. \<open>getOrCreate\<close> is cut at its \<open>await\<close>s; what runs
  between two of them is one step. A session is the number of its object, a disposal under way the number of its promise,
  a \<open>Symbol\<close> its number.

  The turns follow \<open>gateway/client/InProcessGateway.ts\<close>: a turn reserves its key with \<open>beginTurn\<close>, asks for its session
  once while it holds the reservation, and gives the reservation back when its pump has ended or, after a timeout, once it
  has closed the session.
\<close>

section \<open>State\<close>

record session_context =
  sc_sessionKey :: string
  sc_projectKey :: "string option"
  sc_channelKey :: string

record session_record =
  sr_session :: nat
  sr_lastUsedAt :: int
  sr_context :: session_context
  sr_dirtyReason :: "string option"

record router =
  rt_recreates :: bool \<comment> \<open>the option \<open>recreateSession\<close> is given\<close>
  rt_idleSessionTimeoutMs :: int
  rt_sessions :: "(string \<times> session_record) list"
  rt_closing :: "(string \<times> nat \<times> nat) list" \<comment> \<open>key, promise and session\<close>
  rt_closingProjects :: "(string \<times> string option) list"
  rt_projectGenerations :: "(string \<times> nat) list"
  rt_sessionGenerations :: "(string \<times> nat) list"
  rt_pausedProjects :: "string list"
  rt_creating :: "(nat \<times> session_context) list"
  rt_inFlightTurns :: "(string \<times> string) list"
  rt_isShutdown :: bool
  rt_runtimeRevision :: nat
  rt_projectRuntimeRevisions :: "(string \<times> nat) list"
  rt_fresh :: nat
  rt_disposals :: "(nat \<times> nat) list" \<comment> \<open>the disposals that have not settled: promise and session\<close>
  rt_disposeCalled :: "nat set"
  rt_settled :: "nat set"

definition new_router :: "bool \<Rightarrow> int \<Rightarrow> router" where
  "new_router recreates timeout = \<lparr>rt_recreates = recreates, rt_idleSessionTimeoutMs = timeout, rt_sessions = [], rt_closing = [],
     rt_closingProjects = [], rt_projectGenerations = [], rt_sessionGenerations = [], rt_pausedProjects = [], rt_creating = [],
     rt_inFlightTurns = [], rt_isShutdown = False, rt_runtimeRevision = 0, rt_projectRuntimeRevisions = [], rt_fresh = 0,
     rt_disposals = [], rt_disposeCalled = {}, rt_settled = {}\<rparr>"

definition mergeSessionContext :: "session_context \<Rightarrow> session_context \<Rightarrow> session_context" where
  "mergeSessionContext current next =
     \<lparr>sc_sessionKey = sc_sessionKey next,
      sc_projectKey = (case sc_projectKey current of Some p \<Rightarrow> Some p | None \<Rightarrow> sc_projectKey next),
      sc_channelKey = (if sc_channelKey next = [] then sc_channelKey current else sc_channelKey next)\<rparr>"

definition project_or_empty :: "string option \<Rightarrow> string" where
  "project_or_empty p = (case p of None \<Rightarrow> [] | Some s \<Rightarrow> s)"

definition project_open :: "string option \<Rightarrow> router \<Rightarrow> bool" where
  "project_open p R \<longleftrightarrow> (case p of None \<Rightarrow> True | Some s \<Rightarrow> s = [] \<or> s \<notin> set (rt_pausedProjects R))"

definition generation_of :: "string option \<Rightarrow> router \<Rightarrow> nat option" where
  "generation_of p R = jget (rt_projectGenerations R) (project_or_empty p)"

definition revision_of :: "string option \<Rightarrow> router \<Rightarrow> nat option" where
  "revision_of p R = jget (rt_projectRuntimeRevisions R) (project_or_empty p)"

section \<open>Disposing\<close>

definition start_dispose :: "nat \<Rightarrow> router \<Rightarrow> nat \<times> router" where
  "start_dispose s R =
     (rt_fresh R, R\<lparr>rt_fresh := rt_fresh R + 1, rt_disposals := jset (rt_fresh R) s (rt_disposals R),
                    rt_disposeCalled := insert s (rt_disposeCalled R)\<rparr>)"

definition emitSessionEvict :: "string \<Rightarrow> session_record \<Rightarrow> router \<Rightarrow> nat \<times> router" where
  "emitSessionEvict k r R =
     (let (p, R1) = start_dispose (sr_session r) R
      in (p, R1\<lparr>rt_closing := jset k (p, sr_session r) (rt_closing R1),
                rt_closingProjects := jset k (sc_projectKey (sr_context r)) (rt_closingProjects R1)\<rparr>))"

text \<open>The \<open>finally\<close> of a disposal; one that is not the latest of its key leaves the entry alone.\<close>

definition settle_disposal :: "nat \<Rightarrow> router \<Rightarrow> router" where
  "settle_disposal p R =
     (case jget (rt_disposals R) p of
        None \<Rightarrow> R
      | Some s \<Rightarrow>
          (let mine = map fst (filter (\<lambda>e. fst (snd e) = p) (rt_closing R))
           in R\<lparr>rt_disposals := jdelete p (rt_disposals R), rt_settled := insert s (rt_settled R),
                rt_closing := filter (\<lambda>e. fst (snd e) \<noteq> p) (rt_closing R),
                rt_closingProjects := filter (\<lambda>(k, _). k \<notin> set mine) (rt_closingProjects R)\<rparr>))"

definition sweep_one :: "int \<Rightarrow> string \<times> session_record \<Rightarrow> router \<Rightarrow> router" where
  "sweep_one now kr R =
     (let (k, r) = kr
      in if jhas (rt_inFlightTurns R) k then R
         else if now - sr_lastUsedAt r > rt_idleSessionTimeoutMs R
         then snd (emitSessionEvict k r (R\<lparr>rt_sessions := jdelete k (rt_sessions R),
                                           rt_sessionGenerations := jdelete k (rt_sessionGenerations R)\<rparr>))
         else R)"

definition sweepIdle :: "int \<Rightarrow> router \<Rightarrow> router" where
  "sweepIdle now R = (if rt_isShutdown R then R else fold (sweep_one now) (rt_sessions R) R)"

definition router_close :: "string \<Rightarrow> router \<Rightarrow> router" where
  "router_close k R =
     (let R1 = R\<lparr>rt_sessionGenerations := jdelete k (rt_sessionGenerations R)\<rparr>
      in case jget (rt_sessions R1) k of
           None \<Rightarrow> R1
         | Some r \<Rightarrow> snd (emitSessionEvict k r (R1\<lparr>rt_sessions := jdelete k (rt_sessions R1)\<rparr>)))"

definition closeProject :: "string \<Rightarrow> router \<Rightarrow> router" where
  "closeProject p R =
     (let R1 = R\<lparr>rt_pausedProjects := (if p \<in> set (rt_pausedProjects R) then rt_pausedProjects R else rt_pausedProjects R @ [p]),
                 rt_projectGenerations := jset p ((case jget (rt_projectGenerations R) p of None \<Rightarrow> 0 | Some n \<Rightarrow> n) + 1) (rt_projectGenerations R)\<rparr>
      in fold router_close (map fst (filter (\<lambda>(k, r). sc_projectKey (sr_context r) = Some p) (rt_sessions R))) R1)"

definition resumeProject :: "string \<Rightarrow> router \<Rightarrow> router" where
  "resumeProject p R = R\<lparr>rt_pausedProjects := filter (\<lambda>q. q \<noteq> p) (rt_pausedProjects R)\<rparr>"

definition shutdown :: "router \<Rightarrow> router" where
  "shutdown R =
     (if rt_isShutdown R then R
      else (fold (\<lambda>(k, r) S. snd (emitSessionEvict k r S)) (rt_sessions R) (R\<lparr>rt_isShutdown := True\<rparr>))
             \<lparr>rt_sessions := [], rt_sessionGenerations := [], rt_inFlightTurns := []\<rparr>)"

section \<open>Turns and revisions\<close>

definition beginTurn :: "int \<Rightarrow> string \<Rightarrow> string \<Rightarrow> router \<Rightarrow> bool \<times> router" where
  "beginTurn now k run R =
     (if rt_isShutdown R then (False, R)
      else (let R1 = sweepIdle now R
            in if jhas (rt_inFlightTurns R1) k then (False, R1)
               else (True, R1\<lparr>rt_inFlightTurns := jset k run (rt_inFlightTurns R1)\<rparr>)))"

definition touch :: "int \<Rightarrow> string \<Rightarrow> router \<Rightarrow> router" where
  "touch now k R =
     (case jget (rt_sessions R) k of
        None \<Rightarrow> R | Some r \<Rightarrow> R\<lparr>rt_sessions := jset k (r\<lparr>sr_lastUsedAt := now\<rparr>) (rt_sessions R)\<rparr>)"

definition endTurn :: "int \<Rightarrow> string \<Rightarrow> string option \<Rightarrow> router \<Rightarrow> router" where
  "endTurn now k run R =
     touch now k
       (if run = None \<or> run = Some [] \<or> jget (rt_inFlightTurns R) k = run
        then R\<lparr>rt_inFlightTurns := jdelete k (rt_inFlightTurns R)\<rparr> else R)"

definition mark_dirty :: "string \<Rightarrow> (session_record \<Rightarrow> bool) \<Rightarrow> router \<Rightarrow> router" where
  "mark_dirty reason p R =
     R\<lparr>rt_sessions := map (\<lambda>(k, r). (k, if p r then r\<lparr>sr_dirtyReason := Some reason\<rparr> else r)) (rt_sessions R)\<rparr>"

definition markAllDirty :: "string \<Rightarrow> router \<Rightarrow> router" where
  "markAllDirty reason R = mark_dirty reason (\<lambda>_. True) (R\<lparr>rt_runtimeRevision := rt_runtimeRevision R + 1\<rparr>)"

definition markProjectDirty :: "string \<Rightarrow> string \<Rightarrow> router \<Rightarrow> router" where
  "markProjectDirty p reason R =
     mark_dirty reason (\<lambda>r. sc_projectKey (sr_context r) = Some p)
       (R\<lparr>rt_projectRuntimeRevisions :=
            jset p ((case jget (rt_projectRuntimeRevisions R) p of None \<Rightarrow> 0 | Some n \<Rightarrow> n) + 1) (rt_projectRuntimeRevisions R)\<rparr>)"

definition hasActiveUserTurn :: "string \<Rightarrow> router \<Rightarrow> bool" where
  "hasActiveUserTurn p R =
     list_ex (\<lambda>(k, _). \<not> startsWith k ''always-on/'' \<and> \<not> startsWith k ''cron:''
                \<and> (case jget (rt_sessions R) k of None \<Rightarrow> False | Some r \<Rightarrow> sc_projectKey (sr_context r) = Some p))
       (rt_inFlightTurns R)"

section \<open>Getting a session\<close>

datatype waiting_for =
    Closing nat \<comment> \<open>the closing of an earlier session\<close>
  | Evicting nat session_context \<comment> \<open>the disposal before a dirty session is made again\<close>
  | Recreating nat session_context
  | Creating nat
  | Discarding nat "nat option" \<comment> \<open>the disposal of a session that came too late, before the error is thrown\<close>

record request =
  rq_context :: session_context
  rq_run :: string
  rq_symbol :: nat
  rq_generation :: "nat option"
  rq_runtimeRevision :: nat
  rq_projectKey :: "string option"
  rq_projectRevision :: "nat option"
  rq_wait :: waiting_for

datatype progress = Waits request | Returns nat | Throws

abbreviation rq_key :: "request \<Rightarrow> string" where "rq_key q \<equiv> sc_sessionKey (rq_context q)"

definition session_closed :: "request \<Rightarrow> router \<Rightarrow> bool" where
  "session_closed q R \<longleftrightarrow> rt_isShutdown R \<or> jget (rt_sessionGenerations R) (rq_key q) \<noteq> Some (rq_symbol q)"

definition runtime_changed :: "request \<Rightarrow> router \<Rightarrow> bool" where
  "runtime_changed q R \<longleftrightarrow> rq_runtimeRevision q \<noteq> rt_runtimeRevision R \<or> rq_projectRevision q \<noteq> revision_of (rq_projectKey q) R"

text \<open>The \<open>finally\<close> of \<open>getOrCreate\<close>.\<close>

definition request_ends :: "request \<Rightarrow> router \<Rightarrow> router" where
  "request_ends q R =
     (if \<not> jhas (rt_sessions R) (rq_key q) \<and> \<not> list_ex (\<lambda>(_, c). sc_sessionKey c = rq_key q) (rt_creating R)
         \<and> jget (rt_sessionGenerations R) (rq_key q) = Some (rq_symbol q)
      then R\<lparr>rt_sessionGenerations := jdelete (rq_key q) (rt_sessionGenerations R)\<rparr> else R)"

definition throws :: "request \<Rightarrow> router \<Rightarrow> progress \<times> router" where
  "throws q R = (Throws, request_ends q R)"

definition start_creating :: "(nat \<Rightarrow> waiting_for) \<Rightarrow> session_context \<Rightarrow> request \<Rightarrow> router \<Rightarrow> progress \<times> router" where
  "start_creating w context q R =
     (if \<not> project_open (sc_projectKey context) R then throws q R
      else (Waits (q\<lparr>rq_wait := w (rt_fresh R)\<rparr>), R\<lparr>rt_fresh := rt_fresh R + 1, rt_creating := jset (rt_fresh R) context (rt_creating R)\<rparr>))"

definition after_closing :: "int \<Rightarrow> request \<Rightarrow> router \<Rightarrow> progress \<times> router" where
  "after_closing now q R =
     (if session_closed q R then throws q R
      else (case jget (rt_sessions R) (rq_key q) of
              None \<Rightarrow> start_creating Creating (rq_context q) q R
            | Some r \<Rightarrow>
                (let merged = mergeSessionContext (sr_context r) (rq_context q);
                     r1 = r\<lparr>sr_context := merged\<rparr>;
                     R1 = R\<lparr>rt_sessions := jset (rq_key q) r1 (rt_sessions R)\<rparr>;
                     activeRun = jget (rt_inFlightTurns R) (rq_key q)
                 in if sr_dirtyReason r \<noteq> None \<and> sr_dirtyReason r \<noteq> Some [] \<and> rt_recreates R
                       \<and> (activeRun = None \<or> activeRun = Some [] \<or> activeRun = Some (rq_run q))
                    then (let (p, R2) = emitSessionEvict (rq_key q) r1 R1 in (Waits (q\<lparr>rq_wait := Evicting p merged\<rparr>), R2))
                    else (Returns (sr_session r1), touch now (rq_key q) R1))))"

definition getOrCreate :: "int \<Rightarrow> session_context \<Rightarrow> string \<Rightarrow> router \<Rightarrow> progress \<times> router" where
  "getOrCreate now context run R =
     (if rt_isShutdown R then (Throws, R)
      else
        (let k = sc_sessionKey context;
             R1 = sweepIdle now R;
             (symbol, R2) = (case jget (rt_sessionGenerations R1) k of
                               Some y \<Rightarrow> (y, R1)
                             | None \<Rightarrow> (rt_fresh R1, R1\<lparr>rt_fresh := rt_fresh R1 + 1,
                                                        rt_sessionGenerations := jset k (rt_fresh R1) (rt_sessionGenerations R1)\<rparr>));
             p = (case jget (rt_sessions R2) k of
                    None \<Rightarrow> sc_projectKey context
                  | Some r \<Rightarrow> (case sc_projectKey (sr_context r) of None \<Rightarrow> sc_projectKey context | Some x \<Rightarrow> Some x));
             q = \<lparr>rq_context = context, rq_run = run, rq_symbol = symbol, rq_generation = generation_of (sc_projectKey context) R2,
                  rq_runtimeRevision = rt_runtimeRevision R2, rq_projectKey = p, rq_projectRevision = revision_of p R2, rq_wait = Closing 0\<rparr>
         in if \<not> project_open (sc_projectKey context) R2 then throws q R2
            else (case jget (rt_closing R2) k of
                    Some (promise, _) \<Rightarrow> (Waits (q\<lparr>rq_wait := Closing promise\<rparr>), R2)
                  | None \<Rightarrow> after_closing now q R2)))"

text \<open>The factory has made the session \<open>s\<close>, or has failed.\<close>

definition discard :: "nat option \<Rightarrow> nat \<Rightarrow> request \<Rightarrow> router \<Rightarrow> progress \<times> router" where
  "discard still s q R = (let (p, R1) = start_dispose s R in (Waits (q\<lparr>rq_wait := Discarding p still\<rparr>), R1))"

definition session_made :: "int \<Rightarrow> nat \<Rightarrow> session_context \<Rightarrow> bool \<Rightarrow> nat \<Rightarrow> request \<Rightarrow> router \<Rightarrow> progress \<times> router" where
  "session_made now promise context again s q R =
     (if \<not> project_open (sc_projectKey context) R then discard (Some promise) s q R
      else
        (let R1 = R\<lparr>rt_creating := jdelete promise (rt_creating R)\<rparr>
         in if session_closed q R1 \<or> rq_generation q \<noteq> generation_of (sc_projectKey (rq_context q)) R1 then discard None s q R1
            else
              (let dirty = (if runtime_changed q R1 then Some ''runtime_changed'' else None);
                   c = (case jget (rt_sessions R1) (rq_key q) of Some r \<Rightarrow> if again then sr_context r else rq_context q | None \<Rightarrow> rq_context q);
                   r = \<lparr>sr_session = s, sr_lastUsedAt = now, sr_context = c, sr_dirtyReason = dirty\<rparr>
               in (Returns s, R1\<lparr>rt_sessions := jset (rq_key q) r (rt_sessions R1)\<rparr>))))"

definition creation_failed :: "nat \<Rightarrow> request \<Rightarrow> router \<Rightarrow> progress \<times> router" where
  "creation_failed promise q R = throws q (R\<lparr>rt_creating := jdelete promise (rt_creating R)\<rparr>)"

definition after_evict :: "session_context \<Rightarrow> request \<Rightarrow> router \<Rightarrow> progress \<times> router" where
  "after_evict context q R =
     (if session_closed q R then throws q R
      else (let c = (case jget (rt_sessions R) (rq_key q) of Some r \<Rightarrow> sr_context r | None \<Rightarrow> context)
            in start_creating (\<lambda>p. Recreating p c) c q R))"

definition after_discard :: "nat option \<Rightarrow> request \<Rightarrow> router \<Rightarrow> progress \<times> router" where
  "after_discard still q R =
     throws q (case still of None \<Rightarrow> R | Some promise \<Rightarrow> R\<lparr>rt_creating := jdelete promise (rt_creating R)\<rparr>)"


text \<open>A request goes on once what it waits for is there: \<open>ok\<close> tells whether the promise was fulfilled or rejected.\<close>

definition pending :: "nat \<Rightarrow> router \<Rightarrow> bool" where
  "pending p R \<longleftrightarrow> jhas (rt_disposals R) p"

definition resume_request :: "bool \<Rightarrow> int \<Rightarrow> request \<Rightarrow> router \<Rightarrow> (progress \<times> router) option" where
  "resume_request ok now q R =
     (let made = R\<lparr>rt_fresh := rt_fresh R + 1\<rparr>
      in case rq_wait q of
           Closing p \<Rightarrow> if pending p R then None else Some (if ok then after_closing now q R else throws q R)
         | Evicting p c \<Rightarrow> if pending p R then None else Some (if ok then after_evict c q R else throws q R)
         | Recreating p c \<Rightarrow> Some (if ok then session_made now p c True (rt_fresh R) q made else creation_failed p q R)
         | Creating p \<Rightarrow> Some (if ok then session_made now p (rq_context q) False (rt_fresh R) q made else creation_failed p q R)
         | Discarding p still \<Rightarrow> if pending p R then None else Some (after_discard still q R))"

section \<open>The gateway\<close>

text \<open>The requests under way, the runs that began and those that asked for their session, and the sessions handed out, each
  with whether its disposal had begun by then.\<close>

record gateway =
  gw_router :: router
  gw_requests :: "request list"
  gw_runs :: "string set"
  gw_asked :: "string set"
  gw_handed :: "(string \<times> nat \<times> bool) list"

definition new_gateway :: "bool \<Rightarrow> int \<Rightarrow> gateway" where
  "new_gateway recreates timeout =
     \<lparr>gw_router = new_router recreates timeout, gw_requests = [], gw_runs = {}, gw_asked = {}, gw_handed = []\<rparr>"

definition progressed :: "string \<Rightarrow> request list \<Rightarrow> progress \<times> router \<Rightarrow> gateway \<Rightarrow> gateway" where
  "progressed k others pr g =
     (let (p, R) = pr; g1 = g\<lparr>gw_router := R\<rparr>
      in case p of
           Waits q \<Rightarrow> g1\<lparr>gw_requests := others @ [q]\<rparr>
         | Returns s \<Rightarrow> g1\<lparr>gw_requests := others, gw_handed := gw_handed g @ [(k, s, s \<in> rt_disposeCalled R)]\<rparr>
         | Throws \<Rightarrow> g1\<lparr>gw_requests := others\<rparr>)"

definition pump_ended :: "string \<Rightarrow> gateway \<Rightarrow> bool" where
  "pump_ended run g \<longleftrightarrow> list_all (\<lambda>q. rq_run q = run \<longrightarrow> session_closed q (gw_router g)) (gw_requests g)"

inductive gateway_step :: "gateway \<Rightarrow> gateway \<Rightarrow> bool" where
  turn_begins: "run \<notin> gw_runs g \<Longrightarrow> run \<noteq> [] \<Longrightarrow> beginTurn now k run (gw_router g) = (True, R) \<Longrightarrow>
    gateway_step g (g\<lparr>gw_router := R, gw_runs := insert run (gw_runs g)\<rparr>)"
| turn_refused: "beginTurn now k run (gw_router g) = (False, R) \<Longrightarrow> gateway_step g (g\<lparr>gw_router := R\<rparr>)"
| asks: "jget (rt_inFlightTurns (gw_router g)) (sc_sessionKey context) = Some run \<Longrightarrow> run \<notin> gw_asked g \<Longrightarrow>
    gateway_step g ((progressed (sc_sessionKey context) (gw_requests g) (getOrCreate now context run (gw_router g)) g)
      \<lparr>gw_asked := insert run (gw_asked g)\<rparr>)"
| goes_on: "gw_requests g = before @ q # after \<Longrightarrow> resume_request ok now q (gw_router g) = Some pr \<Longrightarrow>
    gateway_step g (progressed (rq_key q) (before @ after) pr g)"
| settles: "gateway_step g (g\<lparr>gw_router := settle_disposal p (gw_router g)\<rparr>)"
| turn_ends: "run \<noteq> [] \<Longrightarrow> pump_ended run g \<Longrightarrow> gateway_step g (g\<lparr>gw_router := endTurn now k (Some run) (gw_router g)\<rparr>)"
| session_closes: "gateway_step g (g\<lparr>gw_router := router_close k (gw_router g)\<rparr>)"
| project_closes: "gateway_step g (g\<lparr>gw_router := closeProject p (gw_router g)\<rparr>)"
| project_resumes: "gateway_step g (g\<lparr>gw_router := resumeProject p (gw_router g)\<rparr>)"
| all_dirty: "reason \<noteq> [] \<Longrightarrow> gateway_step g (g\<lparr>gw_router := markAllDirty reason (gw_router g)\<rparr>)"
| project_dirty: "reason \<noteq> [] \<Longrightarrow> gateway_step g (g\<lparr>gw_router := markProjectDirty p reason (gw_router g)\<rparr>)"
| sweeps: "gateway_step g (g\<lparr>gw_router := sweepIdle now (gw_router g)\<rparr>)"
| used: "gateway_step g (g\<lparr>gw_router := touch now k (gw_router g)\<rparr>)"
| shuts_down: "gateway_step g (g\<lparr>gw_router := shutdown (gw_router g)\<rparr>)"

section \<open>The invariant\<close>

definition unusable :: "session_record \<Rightarrow> bool" where
  "unusable r \<longleftrightarrow> sr_dirtyReason r \<noteq> None \<and> sr_dirtyReason r \<noteq> Some []"

definition router_ok :: "router \<Rightarrow> bool" where
  "router_ok R \<longleftrightarrow>
     distinct (jkeys (rt_sessions R)) \<and> distinct (jkeys (rt_closing R))
     \<and> (\<forall>k y. jget (rt_sessionGenerations R) k = Some y \<longrightarrow> y < rt_fresh R)
     \<and> (\<forall>k r. jget (rt_sessions R) k = Some r \<longrightarrow> sr_session r < rt_fresh R
            \<and> (sr_session r \<in> rt_disposeCalled R \<longrightarrow> rt_recreates R \<and> unusable r))
     \<and> (\<forall>k k' r r'. jget (rt_sessions R) k = Some r \<longrightarrow> jget (rt_sessions R) k' = Some r' \<longrightarrow> sr_session r = sr_session r' \<longrightarrow> k = k')
     \<and> (\<forall>k p s. jget (rt_closing R) k = Some (p, s) \<longrightarrow> jget (rt_disposals R) p = Some s)
     \<and> (\<forall>p s. jget (rt_disposals R) p = Some s \<longrightarrow> p < rt_fresh R)
     \<and> (\<forall>s \<in> rt_disposeCalled R. s < rt_fresh R) \<and> rt_settled R \<subseteq> rt_disposeCalled R
     \<and> (\<forall>p s. jget (rt_disposals R) p = Some s \<longrightarrow> s \<in> rt_disposeCalled R)"

definition valid :: "router \<Rightarrow> request \<Rightarrow> bool" where
  "valid R q \<longleftrightarrow> \<not> session_closed q R"

text \<open>What a request that is still wanted finds at its key.\<close>

fun finds :: "router \<Rightarrow> string \<Rightarrow> waiting_for \<Rightarrow> bool" where
  "finds R k (Closing p) = (jget (rt_sessions R) k = None \<and> (jget (rt_closing R) k = None \<or> (\<exists>s. jget (rt_closing R) k = Some (p, s))))"
| "finds R k (Evicting p c) =
     (\<exists>r. jget (rt_sessions R) k = Some r
        \<and> (jget (rt_closing R) k = None \<and> sr_session r \<in> rt_settled R \<or> jget (rt_closing R) k = Some (p, sr_session r)))"
| "finds R k (Recreating p c) = (\<exists>r. jget (rt_sessions R) k = Some r \<and> jget (rt_closing R) k = None \<and> sr_session r \<in> rt_settled R)"
| "finds R k (Creating p) = (jget (rt_sessions R) k = None \<and> jget (rt_closing R) k = None)"
| "finds R k (Discarding p still) = True"

definition request_ok :: "router \<Rightarrow> request \<Rightarrow> bool" where
  "request_ok R q \<longleftrightarrow> rq_symbol q < rt_fresh R
     \<and> (valid R q \<longrightarrow> jget (rt_inFlightTurns R) (rq_key q) = Some (rq_run q) \<and> finds R (rq_key q) (rq_wait q))"

definition key_ok :: "router \<Rightarrow> request list \<Rightarrow> (string \<times> nat \<times> bool) list \<Rightarrow> string \<Rightarrow> bool" where
  "key_ok R qs handed k \<longleftrightarrow>
     (\<forall>r p s. jget (rt_sessions R) k = Some r \<longrightarrow> jget (rt_closing R) k = Some (p, s) \<longrightarrow>
        s = sr_session r \<and> (\<exists>q \<in> set qs. valid R q \<and> rq_key q = k \<and> (\<exists>c. rq_wait q = Evicting p c)))
     \<and> (\<forall>s b. (k, s, b) \<in> set handed \<longrightarrow> s \<notin> rt_settled R \<longrightarrow>
          (\<exists>r. jget (rt_sessions R) k = Some r \<and> sr_session r = s) \<or> (\<exists>p. jget (rt_closing R) k = Some (p, s)))"

definition books_ok :: "router \<Rightarrow> request list \<Rightarrow> (string \<times> nat \<times> bool) list \<Rightarrow> bool" where
  "books_ok R qs handed \<longleftrightarrow> router_ok R \<and> list_all (request_ok R) qs \<and> (\<forall>k. key_ok R qs handed k)"

definition gateway_ok :: "gateway \<Rightarrow> bool" where
  "gateway_ok g \<longleftrightarrow> books_ok (gw_router g) (gw_requests g) (gw_handed g)
     \<and> distinct (map rq_run (gw_requests g)) \<and> rq_run ` set (gw_requests g) \<subseteq> gw_asked g
     \<and> list_all (\<lambda>(k, s, b). \<not> b) (gw_handed g)"

lemma key_okD:
  assumes "key_ok R qs handed k"
  shows "jget (rt_sessions R) k = Some r \<Longrightarrow> jget (rt_closing R) k = Some (p, s) \<Longrightarrow> s = sr_session r"
    and "jget (rt_sessions R) k = Some r \<Longrightarrow> jget (rt_closing R) k = Some (p, s) \<Longrightarrow>
      \<exists>q \<in> set qs. valid R q \<and> rq_key q = k \<and> (\<exists>c. rq_wait q = Evicting p c)"
    and "(k, s, b) \<in> set handed \<Longrightarrow> s \<notin> rt_settled R \<Longrightarrow>
      (\<exists>r. jget (rt_sessions R) k = Some r \<and> sr_session r = s) \<or> (\<exists>p. jget (rt_closing R) k = Some (p, s))"
  using assms unfolding key_ok_def by blast+

lemma key_okI:
  assumes "\<And>r p s. jget (rt_sessions R) k = Some r \<Longrightarrow> jget (rt_closing R) k = Some (p, s) \<Longrightarrow>
      s = sr_session r \<and> (\<exists>q \<in> set qs. valid R q \<and> rq_key q = k \<and> (\<exists>c. rq_wait q = Evicting p c))"
    and "\<And>s b. (k, s, b) \<in> set handed \<Longrightarrow> s \<notin> rt_settled R \<Longrightarrow>
      (\<exists>r. jget (rt_sessions R) k = Some r \<and> sr_session r = s) \<or> (\<exists>p. jget (rt_closing R) k = Some (p, s))"
  shows "key_ok R qs handed k"
  using assms unfolding key_ok_def by blast

text \<open>Where a step leaves a key alone, its account stays in order.\<close>

lemma key_ok_same:
  assumes "key_ok R qs handed k" "jget (rt_sessions R') k = jget (rt_sessions R) k" "jget (rt_closing R') k = jget (rt_closing R) k"
    "rt_settled R \<subseteq> rt_settled R'" "\<And>q. q \<in> set qs \<Longrightarrow> rq_key q = k \<Longrightarrow> valid R q \<Longrightarrow> q \<in> set qs' \<and> valid R' q"
  shows "key_ok R' qs' handed k"
proof (rule key_okI)
  fix r p s
  assume "jget (rt_sessions R') k = Some r" "jget (rt_closing R') k = Some (p, s)"
  then have "jget (rt_sessions R) k = Some r" "jget (rt_closing R) k = Some (p, s)" using assms(2,3) by simp_all
  from key_okD(1,2) [OF assms(1) this] assms(5)
  show "s = sr_session r \<and> (\<exists>q \<in> set qs'. valid R' q \<and> rq_key q = k \<and> (\<exists>c. rq_wait q = Evicting p c))" by blast
next
  fix s b
  assume h: "(k, s, b) \<in> set handed" "s \<notin> rt_settled R'"
  then show "(\<exists>r. jget (rt_sessions R') k = Some r \<and> sr_session r = s) \<or> (\<exists>p. jget (rt_closing R') k = Some (p, s))"
    using key_okD(3) [OF assms(1) h(1)] assms(2-4) by auto
qed

section \<open>Closing\<close>

lemma router_okD:
  assumes "router_ok R"
  shows "distinct (jkeys (rt_sessions R))" "distinct (jkeys (rt_closing R))"
    and "jget (rt_sessionGenerations R) k = Some y \<Longrightarrow> y < rt_fresh R"
    and "jget (rt_sessions R) k = Some r \<Longrightarrow> sr_session r < rt_fresh R"
    and "jget (rt_sessions R) k = Some r \<Longrightarrow> sr_session r \<in> rt_disposeCalled R \<Longrightarrow> rt_recreates R \<and> unusable r"
    and "jget (rt_sessions R) k = Some r \<Longrightarrow> jget (rt_sessions R) k' = Some r' \<Longrightarrow> sr_session r = sr_session r' \<Longrightarrow> k = k'"
    and "jget (rt_closing R) k = Some (p, s) \<Longrightarrow> jget (rt_disposals R) p = Some s"
    and "jget (rt_disposals R) p = Some s \<Longrightarrow> p < rt_fresh R"
    and "s \<in> rt_disposeCalled R \<Longrightarrow> s < rt_fresh R" "s \<in> rt_settled R \<Longrightarrow> s \<in> rt_disposeCalled R"
    and "jget (rt_disposals R) p = Some s \<Longrightarrow> s \<in> rt_disposeCalled R"
  using assms unfolding router_ok_def by blast+

lemma close_none: "jget (rt_sessions R) k = None \<Longrightarrow> router_close k R = R\<lparr>rt_sessionGenerations := jdelete k (rt_sessionGenerations R)\<rparr>"
  by (simp add: router_close_def)

lemma close_some:
  "jget (rt_sessions R) k = Some r \<Longrightarrow> router_close k R =
     R\<lparr>rt_sessionGenerations := jdelete k (rt_sessionGenerations R), rt_sessions := jdelete k (rt_sessions R),
       rt_fresh := rt_fresh R + 1, rt_disposals := jset (rt_fresh R) (sr_session r) (rt_disposals R),
       rt_disposeCalled := insert (sr_session r) (rt_disposeCalled R),
       rt_closing := jset k (rt_fresh R, sr_session r) (rt_closing R),
       rt_closingProjects := jset k (sc_projectKey (sr_context r)) (rt_closingProjects R)\<rparr>"
  by (simp add: router_close_def emitSessionEvict_def start_dispose_def)

lemma close_router_ok: "router_ok R \<Longrightarrow> router_ok (router_close k R)"
proof (cases "jget (rt_sessions R) k")
  case None
  then show "router_ok R \<Longrightarrow> ?thesis" by (auto simp: close_none router_ok_def jget_jdelete)
next
  case (Some r)
  assume ok: "router_ok R"
  have "\<And>q s. jget (rt_disposals R) q = Some s \<Longrightarrow> q \<noteq> rt_fresh R" using router_okD(8) [OF ok] by auto
  moreover have "distinct (jkeys (jset k (rt_fresh R, sr_session r) (rt_closing R)))" "distinct (jkeys (jdelete k (rt_sessions R)))"
    using router_okD(1,2) [OF ok] by auto
  ultimately show ?thesis
    using Some router_okD(3-) [OF ok]
    unfolding close_some [OF Some] router_ok_def
    by (auto simp: jget_jset jget_jdelete less_Suc_eq split: if_splits)
qed


text \<open>A request whose key is closed is not wanted any more; the others do not notice.\<close>

lemma close_valid: "valid (router_close k R) q \<longleftrightarrow> valid R q \<and> rq_key q \<noteq> k"
  by (cases "jget (rt_sessions R) k") (auto simp: close_none close_some valid_def session_closed_def jget_jdelete)

lemma close_requests_ok: "list_all (request_ok R) qs \<Longrightarrow> list_all (request_ok (router_close k R)) qs"
proof (rule list.pred_mono_strong)
  fix q
  assume ok: "request_ok R q"
  show "request_ok (router_close k R) q"
  proof (cases "jget (rt_sessions R) k")
    case None
    then show ?thesis using ok close_valid [of k R q]
      by (cases "rq_wait q") (auto simp: request_ok_def close_none)
  next
    case (Some r)
    then show ?thesis using ok close_valid [of k R q]
      by (cases "rq_wait q") (auto simp: request_ok_def close_some jget_jset jget_jdelete)
  qed
qed assumption

lemma close_key_ok:
  assumes "router_ok R" "\<forall>k. key_ok R qs handed k"
  shows "key_ok (router_close k' R) qs handed k"
proof -
  note ok = assms(2) [rule_format, of k]
  have settled: "rt_settled (router_close k' R) = rt_settled R"
    by (cases "jget (rt_sessions R) k'") (simp_all add: close_none close_some)
  show ?thesis
  proof (cases "k = k'")
    case False
    then have "jget (rt_sessions (router_close k' R)) k = jget (rt_sessions R) k" "jget (rt_closing (router_close k' R)) k = jget (rt_closing R) k"
      by (cases "jget (rt_sessions R) k'"; simp add: close_none close_some jget_jset jget_jdelete)+
    then show ?thesis using False by (intro key_ok_same [OF ok]) (auto simp: settled close_valid)
  next
    case True
    show ?thesis
    proof (cases "jget (rt_sessions R) k'")
      case None
      then have "jget (rt_sessions (router_close k' R)) k = None" "jget (rt_closing (router_close k' R)) k = jget (rt_closing R) k"
        by (simp_all add: close_none True)
      then show ?thesis using key_okD(3) [OF ok] None True by (intro key_okI) (auto simp: settled)
    next
      case (Some r)
      then have after: "jget (rt_sessions (router_close k' R)) k = None" "jget (rt_closing (router_close k' R)) k = Some (rt_fresh R, sr_session r)"
        by (simp_all add: close_some True jget_jset jget_jdelete)
      have "s = sr_session r" if "(k, s, b) \<in> set handed" "s \<notin> rt_settled R" for s b
        using key_okD(3) [OF ok that]
      proof (elim disjE exE)
        fix p assume "jget (rt_closing R) k = Some (p, s)"
        then show ?thesis using key_okD(1) [OF ok] Some True by blast
      qed (simp add: Some True)
      then show ?thesis by (intro key_okI) (simp_all add: after settled)
    qed
  qed
qed

lemma close_books_ok: "books_ok R qs handed \<Longrightarrow> books_ok (router_close k R) qs handed"
  unfolding books_ok_def using close_router_ok close_requests_ok close_key_ok by blast


section \<open>Steps that leave sessions in place\<close>

text \<open>The same sessions under the same keys, none of which has become usable; the books of everything else are the same.\<close>

definition alike :: "router \<Rightarrow> router \<Rightarrow> bool" where
  "alike R R' \<longleftrightarrow>
     distinct (jkeys (rt_sessions R')) \<and> rt_closing R' = rt_closing R \<and> rt_sessionGenerations R' = rt_sessionGenerations R
     \<and> (\<forall>k. rel_option (\<lambda>r r'. sr_session r' = sr_session r \<and> (unusable r \<longrightarrow> unusable r')) (jget (rt_sessions R) k) (jget (rt_sessions R') k))
     \<and> rt_isShutdown R' = rt_isShutdown R \<and> rt_disposals R' = rt_disposals R
     \<and> rt_disposeCalled R' = rt_disposeCalled R \<and> rt_settled R' = rt_settled R \<and> rt_recreates R' = rt_recreates R
     \<and> rt_fresh R \<le> rt_fresh R'"

lemma alike_sessions:
  assumes "alike R R'"
  shows "jget (rt_sessions R') k = Some r' \<Longrightarrow>
      \<exists>r. jget (rt_sessions R) k = Some r \<and> sr_session r' = sr_session r \<and> (unusable r \<longrightarrow> unusable r')"
    and "jget (rt_sessions R) k = Some r \<Longrightarrow> \<exists>r'. jget (rt_sessions R') k = Some r' \<and> sr_session r' = sr_session r"
    and "jget (rt_sessions R') k = None \<longleftrightarrow> jget (rt_sessions R) k = None"
proof -
  have rel: "rel_option (\<lambda>r r'. sr_session r' = sr_session r \<and> (unusable r \<longrightarrow> unusable r')) (jget (rt_sessions R) k) (jget (rt_sessions R') k)"
    using assms by (simp add: alike_def)
  show "jget (rt_sessions R') k = Some r' \<Longrightarrow>
      \<exists>r. jget (rt_sessions R) k = Some r \<and> sr_session r' = sr_session r \<and> (unusable r \<longrightarrow> unusable r')"
    "jget (rt_sessions R) k = Some r \<Longrightarrow> \<exists>r'. jget (rt_sessions R') k = Some r' \<and> sr_session r' = sr_session r"
    "jget (rt_sessions R') k = None \<longleftrightarrow> jget (rt_sessions R) k = None"
    using rel by (auto simp: option_rel_Some1 option_rel_Some2 dest: option.rel_sel [THEN iffD1] split: option.splits)
qed

lemma alike_router_ok: "alike R R' \<Longrightarrow> router_ok R \<Longrightarrow> router_ok R'"
proof -
  assume like: "alike R R'" and ok: "router_ok R"
  have same: "distinct (jkeys (rt_sessions R'))" "rt_closing R' = rt_closing R" "rt_sessionGenerations R' = rt_sessionGenerations R"
      "rt_disposals R' = rt_disposals R" "rt_disposeCalled R' = rt_disposeCalled R" "rt_settled R' = rt_settled R"
      "rt_recreates R' = rt_recreates R" "rt_fresh R \<le> rt_fresh R'"
    using like by (simp_all add: alike_def)
  have a: "sr_session r' < rt_fresh R' \<and> (sr_session r' \<in> rt_disposeCalled R \<longrightarrow> rt_recreates R \<and> unusable r')"
    if r': "jget (rt_sessions R') k = Some r'" for k r'
  proof -
    obtain r where r: "jget (rt_sessions R) k = Some r" "sr_session r' = sr_session r" "unusable r \<longrightarrow> unusable r'"
      using alike_sessions(1) [OF like r'] by blast
    then show ?thesis using router_okD(4,5) [OF ok r(1)] same(8) by simp
  qed
  have b: "k = k'" if "jget (rt_sessions R') k = Some r" "jget (rt_sessions R') k' = Some r'" "sr_session r = sr_session r'" for k k' r r'
    using alike_sessions(1) [OF like that(1)] alike_sessions(1) [OF like that(2)] router_okD(6) [OF ok] that(3) by metis
  show ?thesis
    unfolding router_ok_def same(2-7)
    using a b same(1) router_okD(2) [OF ok] less_le_trans [OF router_okD(3) [OF ok] same(8)] router_okD(7) [OF ok]
      less_le_trans [OF router_okD(8) [OF ok] same(8)] less_le_trans [OF router_okD(9) [OF ok] same(8)] router_okD(10-) [OF ok]
    by blast
qed

lemma alike_finds:
  assumes like: "alike R R'"
  shows "finds R k w \<Longrightarrow> finds R' k w"
proof -
  have same: "rt_closing R' = rt_closing R" "rt_settled R' = rt_settled R" using like by (simp_all add: alike_def)
  show "finds R k w \<Longrightarrow> finds R' k w"
  proof (cases w)
    case (Evicting p c)
    assume "finds R k w"
    then obtain r where r: "jget (rt_sessions R) k = Some r"
      "jget (rt_closing R) k = None \<and> sr_session r \<in> rt_settled R \<or> jget (rt_closing R) k = Some (p, sr_session r)"
      using Evicting by auto
    then show ?thesis using alike_sessions(2) [OF like r(1)] Evicting by (auto simp: same)
  next
    case (Recreating p c)
    assume "finds R k w"
    then obtain r where r: "jget (rt_sessions R) k = Some r" "jget (rt_closing R) k = None" "sr_session r \<in> rt_settled R"
      using Recreating by auto
    then show ?thesis using alike_sessions(2) [OF like r(1)] Recreating by (auto simp: same)
  qed (simp_all add: same alike_sessions(3) [OF like])
qed

lemma alike_books_ok:
  assumes like: "alike R R'" and ok: "books_ok R qs handed"
    and turns: "\<forall>q \<in> set qs. valid R q \<longrightarrow> jget (rt_inFlightTurns R') (rq_key q) = jget (rt_inFlightTurns R) (rq_key q)"
  shows "books_ok R' qs handed"
proof -
  have same: "rt_closing R' = rt_closing R" "rt_settled R' = rt_settled R" "rt_fresh R \<le> rt_fresh R'"
    using like by (simp_all add: alike_def)
  have v: "valid R' q \<longleftrightarrow> valid R q" for q using like by (simp add: valid_def session_closed_def alike_def)
  have "request_ok R' q" if "q \<in> set qs" "request_ok R q" for q
    using that turns alike_finds [OF like] same by (auto simp: request_ok_def v)
  moreover have "key_ok R' qs handed k" if k: "key_ok R qs handed k" for k
  proof (rule key_okI)
    fix r p s
    assume r: "jget (rt_sessions R') k = Some r" and c: "jget (rt_closing R') k = Some (p, s)"
    obtain r0 where r0: "jget (rt_sessions R) k = Some r0" "sr_session r = sr_session r0" using alike_sessions(1) [OF like r] by blast
    from key_okD(1,2) [OF k r0(1)] c
    show "s = sr_session r \<and> (\<exists>q \<in> set qs. valid R' q \<and> rq_key q = k \<and> (\<exists>c. rq_wait q = Evicting p c))"
      by (simp add: same v r0(2))
  next
    fix s b
    assume h: "(k, s, b) \<in> set handed" "s \<notin> rt_settled R'"
    then have "(\<exists>r. jget (rt_sessions R) k = Some r \<and> sr_session r = s) \<or> (\<exists>p. jget (rt_closing R) k = Some (p, s))"
      using key_okD(3) [OF k h(1)] by (simp add: same)
    then show "(\<exists>r. jget (rt_sessions R') k = Some r \<and> sr_session r = s) \<or> (\<exists>p. jget (rt_closing R') k = Some (p, s))"
      using alike_sessions(2) [OF like, of k] by (auto simp: same)
  qed
  ultimately show ?thesis
    using ok alike_router_ok [OF like] by (auto simp: books_ok_def list_all_iff)
qed

lemma alike_refl: "router_ok R \<Longrightarrow> alike R R"
  by (simp add: alike_def router_ok_def option.rel_refl)

lemma touch_alike: "router_ok R \<Longrightarrow> alike R (touch now k R)"
proof (cases "jget (rt_sessions R) k")
  case (Some r)
  assume "router_ok R"
  then have "distinct (jkeys (rt_sessions R))" by (rule router_okD)
  moreover have "unusable (r\<lparr>sr_lastUsedAt := now\<rparr>) \<longleftrightarrow> unusable r" by (simp add: unusable_def)
  ultimately show ?thesis using Some by (auto simp: touch_def alike_def jget_jset option.rel_refl)
qed (simp add: touch_def alike_refl)

lemma mark_alike: "router_ok R \<Longrightarrow> reason \<noteq> [] \<Longrightarrow> alike R (mark_dirty reason p R)"
proof -
  assume ok: "router_ok R" and reason: "reason \<noteq> []"
  let ?f = "\<lambda>r. if p r then r\<lparr>sr_dirtyReason := Some reason\<rparr> else r"
  have keys: "jkeys (map (\<lambda>(k, r). (k, ?f r)) m) = jkeys m" for m :: "(string \<times> session_record) list"
    by (induction m) auto
  have val: "jget (map (\<lambda>(k, r). (k, ?f r)) m) k = map_option ?f (jget m k)" for m :: "(string \<times> session_record) list" and k
    by (induction m) auto
  have "rel_option (\<lambda>r r'. sr_session r' = sr_session r \<and> (unusable r \<longrightarrow> unusable r')) x (map_option ?f x)" for x
    using reason by (cases x) (auto simp: unusable_def)
  then show ?thesis
    using router_okD(1) [OF ok] by (simp add: mark_dirty_def alike_def keys val del: map_map)
qed


section \<open>The other steps of the router\<close>

lemma jget_filter: "distinct (jkeys m) \<Longrightarrow>
   jget (filter (\<lambda>e. P (snd e)) m) k = (case jget m k of None \<Rightarrow> None | Some v \<Rightarrow> if P v then Some v else None)"
proof (induction m)
  case (Cons e m)
  have "k \<notin> set (jkeys m) \<Longrightarrow> jget m k = None" by (simp add: map_of_eq_None_iff)
  then show ?case using Cons by (cases e) (auto split: option.splits)
qed simp

lemma closing_filter: "router_ok R \<Longrightarrow>
   jget (filter (\<lambda>e. fst (snd e) \<noteq> p) (rt_closing R)) k = (case jget (rt_closing R) k of None \<Rightarrow> None | Some v \<Rightarrow> if fst v \<noteq> p then Some v else None)"
  using jget_filter [of "rt_closing R" "\<lambda>v. fst v \<noteq> p"] router_okD(2) [of R] by simp

lemma settle_books_ok:
  assumes "books_ok R qs handed"
  shows "books_ok (settle_disposal p R) qs handed"
proof (cases "jget (rt_disposals R) p")
  case None
  then show ?thesis using assms by (simp add: settle_disposal_def)
next
  case (Some s)
  let ?R = "settle_disposal p R"
  have ok: "router_ok R" using assms by (simp add: books_ok_def)
  have eq: "rt_disposals ?R = jdelete p (rt_disposals R)" "rt_settled ?R = insert s (rt_settled R)"
      "rt_closing ?R = filter (\<lambda>e. fst (snd e) \<noteq> p) (rt_closing R)" "rt_sessions ?R = rt_sessions R" "rt_fresh ?R = rt_fresh R"
      "rt_sessionGenerations ?R = rt_sessionGenerations R" "rt_inFlightTurns ?R = rt_inFlightTurns R" "rt_isShutdown ?R = rt_isShutdown R"
      "rt_disposeCalled ?R = rt_disposeCalled R" "rt_recreates ?R = rt_recreates R"
    using Some by (simp_all add: settle_disposal_def Let_def)
  have closing: "jget (rt_closing ?R) k = (case jget (rt_closing R) k of None \<Rightarrow> None | Some v \<Rightarrow> if fst v \<noteq> p then Some v else None)" for k
    by (simp only: eq(3) closing_filter [OF ok])
  have gone: "jget (rt_closing R) k = Some (p, t) \<Longrightarrow> t = s" for k t using router_okD(7) [OF ok] Some by fastforce
  have v: "valid ?R q \<longleftrightarrow> valid R q" for q by (simp add: valid_def session_closed_def eq)
  have "router_ok ?R"
  proof -
    have "distinct (jkeys (rt_closing ?R))"
      using router_okD(2) [OF ok] by (simp add: eq distinct_map_filter)
    moreover have "jget (rt_disposals ?R) q = Some t" if "jget (rt_closing ?R) k = Some (q, t)" for k q t
    proof -
      have "jget (rt_closing R) k = Some (q, t)" "q \<noteq> p" using that by (auto simp: closing split: option.splits if_splits)
      then show ?thesis using router_okD(7) [OF ok] by (simp add: eq jget_jdelete)
    qed
    ultimately show ?thesis
      using router_okD(1) [OF ok] router_okD(3-6,8-) [OF ok] Some unfolding router_ok_def eq(1,2,4-)
      by (auto simp: jget_jdelete)
  qed
  moreover have "request_ok ?R q" if "request_ok R q" for q
  proof -
    have "finds ?R k w" if "finds R k w" for k w
      using that gone by (cases w) (auto simp: closing eq(2,4) split: option.splits)
    then show ?thesis using that by (auto simp: request_ok_def v eq)
  qed
  moreover have "key_ok ?R qs handed k" if k: "key_ok R qs handed k" for k
  proof (rule key_okI)
    fix r q t
    assume "jget (rt_sessions ?R) k = Some r" "jget (rt_closing ?R) k = Some (q, t)"
    then have "jget (rt_sessions R) k = Some r" "jget (rt_closing R) k = Some (q, t)" by (auto simp: eq(4) closing split: option.splits if_splits)
    from key_okD(1,2) [OF k this]
    show "t = sr_session r \<and> (\<exists>q' \<in> set qs. valid ?R q' \<and> rq_key q' = k \<and> (\<exists>c. rq_wait q' = Evicting q c))" by (simp add: v)
  next
    fix t b
    assume h: "(k, t, b) \<in> set handed" "t \<notin> rt_settled ?R"
    then have "(\<exists>r. jget (rt_sessions R) k = Some r \<and> sr_session r = t) \<or> (\<exists>p. jget (rt_closing R) k = Some (p, t))" and "t \<noteq> s"
      using key_okD(3) [OF k h(1)] by (simp_all add: eq(2))
    then show "(\<exists>r. jget (rt_sessions ?R) k = Some r \<and> sr_session r = t) \<or> (\<exists>p. jget (rt_closing ?R) k = Some (p, t))"
      using gone by (auto simp: eq(4) closing split: if_splits)
  qed
  ultimately show ?thesis using assms by (auto simp: books_ok_def list_all_iff)
qed

lemma closes_books_ok: "books_ok R qs handed \<Longrightarrow> books_ok (fold router_close ks R) qs handed"
  by (induction ks arbitrary: R) (simp_all add: close_books_ok)

text \<open>The idle sweep closes the sessions it takes.\<close>

lemma sweep_one_close:
  "jget (rt_sessions R) k = Some r \<Longrightarrow> sweep_one now (k, r) R = R \<or> sweep_one now (k, r) R = router_close k R"
  by (simp add: sweep_one_def router_close_def emitSessionEvict_def start_dispose_def)

lemma sweep_books_ok: "books_ok R qs handed \<Longrightarrow> books_ok (sweepIdle now R) qs handed"
proof -
  assume ok: "books_ok R qs handed"
  have "books_ok S qs handed \<Longrightarrow> distinct (jkeys xs) \<Longrightarrow> \<forall>(k, r) \<in> set xs. jget (rt_sessions S) k = Some r \<Longrightarrow>
      books_ok (fold (sweep_one now) xs S) qs handed" for xs S
  proof (induction xs arbitrary: S)
    case (Cons x xs)
    obtain k r where x: "x = (k, r)" by force
    then have kr: "jget (rt_sessions S) k = Some r" using Cons.prems(3) by simp
    have "books_ok (sweep_one now (k, r) S) qs handed"
      using sweep_one_close [OF kr, of now] close_books_ok [OF Cons.prems(1), of k] Cons.prems(1) by auto
    moreover have "\<forall>(j, r') \<in> set xs. jget (rt_sessions (sweep_one now (k, r) S)) j = Some r'"
    proof (clarsimp)
      fix j r' assume m: "(j, r') \<in> set xs"
      then have "j \<noteq> k" using Cons.prems(2) x by force
      then show "jget (rt_sessions (sweep_one now (k, r) S)) j = Some r'"
        using sweep_one_close [OF kr, of now] Cons.prems(3) m kr by (auto simp: close_some jget_jdelete)
    qed
    ultimately show ?case using Cons.IH Cons.prems(2) x by simp
  qed simp
  moreover have "distinct (jkeys (rt_sessions R))" using ok router_okD(1) by (simp add: books_ok_def)
  moreover have "\<forall>(k, r) \<in> set (rt_sessions R). jget (rt_sessions R) k = Some r" using calculation(2) by auto
  ultimately show ?thesis using ok by (auto simp: sweepIdle_def)
qed


lemma closeProject_books_ok: "books_ok R qs handed \<Longrightarrow> books_ok (closeProject p R) qs handed"
  unfolding closeProject_def Let_def
  by (intro closes_books_ok, rule alike_books_ok [rotated], assumption)
    (simp_all add: alike_def books_ok_def router_ok_def option.rel_refl)

text \<open>At shutdown every session is disposed of as if it were closed, and nothing is wanted any more.\<close>

lemma emits_close:
  "\<forall>(k, r) \<in> set xs. jget (rt_sessions T) k = Some r \<Longrightarrow> distinct (jkeys xs) \<Longrightarrow>
   S\<lparr>rt_sessions := [], rt_sessionGenerations := []\<rparr> = T\<lparr>rt_sessions := [], rt_sessionGenerations := []\<rparr> \<Longrightarrow>
   (fold (\<lambda>(k, r) S. snd (emitSessionEvict k r S)) xs S)\<lparr>rt_sessions := [], rt_sessionGenerations := []\<rparr>
     = (fold router_close (jkeys xs) T)\<lparr>rt_sessions := [], rt_sessionGenerations := []\<rparr>"
proof (induction xs arbitrary: S T)
  case (Cons x xs)
  obtain k r where x: "x = (k, r)" by force
  have kr: "jget (rt_sessions T) k = Some r" using Cons.prems(1) x by simp
  have same: "rt_fresh S = rt_fresh T" "rt_disposals S = rt_disposals T" "rt_disposeCalled S = rt_disposeCalled T"
      "rt_closing S = rt_closing T" "rt_closingProjects S = rt_closingProjects T"
    using arg_cong [OF Cons.prems(3), of rt_fresh] arg_cong [OF Cons.prems(3), of rt_disposals]
      arg_cong [OF Cons.prems(3), of rt_disposeCalled] arg_cong [OF Cons.prems(3), of rt_closing]
      arg_cong [OF Cons.prems(3), of rt_closingProjects] by simp_all
  let ?T = "T\<lparr>rt_sessions := [], rt_sessionGenerations := []\<rparr>"
  have "(snd (emitSessionEvict k r S))\<lparr>rt_sessions := [], rt_sessionGenerations := []\<rparr>
      = (S\<lparr>rt_sessions := [], rt_sessionGenerations := []\<rparr>)
          \<lparr>rt_fresh := rt_fresh T + 1, rt_disposals := jset (rt_fresh T) (sr_session r) (rt_disposals T),
            rt_disposeCalled := insert (sr_session r) (rt_disposeCalled T), rt_closing := jset k (rt_fresh T, sr_session r) (rt_closing T),
            rt_closingProjects := jset k (sc_projectKey (sr_context r)) (rt_closingProjects T)\<rparr>"
    by (simp add: emitSessionEvict_def start_dispose_def same)
  also have "\<dots> = (router_close k T)\<lparr>rt_sessions := [], rt_sessionGenerations := []\<rparr>"
    unfolding Cons.prems(3) close_some [OF kr] by simp
  finally have step: "(snd (emitSessionEvict k r S))\<lparr>rt_sessions := [], rt_sessionGenerations := []\<rparr>
      = (router_close k T)\<lparr>rt_sessions := [], rt_sessionGenerations := []\<rparr>" .
  have "\<forall>(j, r') \<in> set xs. jget (rt_sessions (router_close k T)) j = Some r'"
  proof (clarsimp)
    fix j r' assume m: "(j, r') \<in> set xs"
    then have "j \<noteq> k" using Cons.prems(2) x by force
    then show "jget (rt_sessions (router_close k T)) j = Some r'" using Cons.prems(1) m by (auto simp: close_some [OF kr] jget_jdelete)
  qed
  then show ?case using Cons.IH [OF _ _ step] Cons.prems(2) x by simp
qed simp

lemma close_keys: "jkeys (rt_sessions (router_close k R)) = filter (\<lambda>j. j \<noteq> k) (jkeys (rt_sessions R))"
proof (cases "jget (rt_sessions R) k")
  case None
  then have "k \<notin> set (jkeys (rt_sessions R))" by (simp add: map_of_eq_None_iff)
  then have "filter (\<lambda>j. j \<noteq> k) (jkeys (rt_sessions R)) = jkeys (rt_sessions R)" by (intro filter_True) auto
  then show ?thesis unfolding close_none [OF None] by simp
qed (simp add: close_some jkeys_jdelete)

lemma closes_keys: "set (jkeys (rt_sessions (fold router_close ks R))) = set (jkeys (rt_sessions R)) - set ks"
proof (induction ks arbitrary: R)
  case (Cons k ks)
  have "set (jkeys (rt_sessions (router_close k R))) = set (jkeys (rt_sessions R)) - {k}"
    by (simp only: close_keys set_filter) auto
  then show ?case using Cons.IH [of "router_close k R"] by auto
qed simp

lemma shutdown_books_ok:
  assumes "books_ok R qs handed"
  shows "books_ok (shutdown R) qs handed"
proof (cases "rt_isShutdown R")
  case True
  then show ?thesis using assms by (simp add: shutdown_def)
next
  case False
  define C where "C = fold router_close (jkeys (rt_sessions R)) (R\<lparr>rt_isShutdown := True\<rparr>)"
  have ok: "router_ok R" using assms by (simp add: books_ok_def)
  have each: "\<forall>(k, r) \<in> set (rt_sessions R). jget (rt_sessions (R\<lparr>rt_isShutdown := True\<rparr>)) k = Some r"
    using router_okD(1) [OF ok] by auto
  have same: "(fold (\<lambda>(k, r) S. snd (emitSessionEvict k r S)) (rt_sessions R) (R\<lparr>rt_isShutdown := True\<rparr>))\<lparr>rt_sessions := [], rt_sessionGenerations := []\<rparr>
      = C\<lparr>rt_sessions := [], rt_sessionGenerations := []\<rparr>"
    unfolding C_def by (rule emits_close [OF each router_okD(1) [OF ok]]) simp
  have closed: "shutdown R = C\<lparr>rt_sessions := [], rt_sessionGenerations := [], rt_inFlightTurns := []\<rparr>"
    using arg_cong [OF same, of "\<lambda>S. S\<lparr>rt_inFlightTurns := []\<rparr>"] False by (simp add: shutdown_def)
  define D where "D = fold router_close (jkeys (rt_sessions R)) R"
  have down: "(router_close k S)\<lparr>rt_isShutdown := True\<rparr> = router_close k (S\<lparr>rt_isShutdown := True\<rparr>)" for k S
    by (cases "jget (rt_sessions S) k") (simp_all add: close_none close_some)
  have "(fold router_close ks S)\<lparr>rt_isShutdown := True\<rparr> = fold router_close ks (S\<lparr>rt_isShutdown := True\<rparr>)" for ks S
    by (induction ks arbitrary: S) (simp_all add: down)
  then have C: "C = D\<lparr>rt_isShutdown := True\<rparr>" by (simp add: C_def D_def)
  have D: "books_ok D qs handed" unfolding D_def by (rule closes_books_ok [OF assms])
  have "set (jkeys (rt_sessions D)) = {}" unfolding D_def closes_keys by simp
  then have none: "rt_sessions D = []" by (metis set_empty2 Nil_is_map_conv)
  have v: "\<not> valid (D\<lparr>rt_isShutdown := True, rt_sessions := [], rt_sessionGenerations := [], rt_inFlightTurns := []\<rparr>) q" for q
    by (simp add: valid_def session_closed_def)
  have "router_ok (shutdown R)" using D by (auto simp: closed C books_ok_def router_ok_def)
  moreover have "list_all (request_ok (shutdown R)) qs"
    using D by (auto simp: books_ok_def list_all_iff request_ok_def v closed C)
  moreover have "key_ok (shutdown R) qs handed k" for k
    using D none by (auto simp: books_ok_def key_ok_def closed C)
  ultimately show ?thesis by (simp add: books_ok_def)
qed

section \<open>Turns\<close>

lemma begins_books_ok:
  assumes "books_ok R qs handed" "beginTurn now k run R = (b, R')"
  shows "books_ok R' qs handed"
proof -
  let ?S = "sweepIdle now R"
  have swept: "books_ok ?S qs handed" by (rule sweep_books_ok [OF assms(1)])
  show ?thesis
  proof (cases "rt_isShutdown R \<or> jhas (rt_inFlightTurns ?S) k")
    case True
    then have "R' = R \<or> R' = ?S" using assms(2) by (auto simp: beginTurn_def Let_def split: if_splits)
    then show ?thesis using assms(1) swept by auto
  next
    case False
    then have R': "R' = ?S\<lparr>rt_inFlightTurns := jset k run (rt_inFlightTurns ?S)\<rparr>" and none: "jget (rt_inFlightTurns ?S) k = None"
      using assms(2) by (auto simp: beginTurn_def Let_def jhas_def)
    have "alike ?S R'" using swept by (simp add: R' alike_def books_ok_def router_ok_def option.rel_refl)
    moreover have "\<forall>q \<in> set qs. valid ?S q \<longrightarrow> jget (rt_inFlightTurns R') (rq_key q) = jget (rt_inFlightTurns ?S) (rq_key q)"
      using swept none by (auto simp: books_ok_def list_all_iff request_ok_def R' jget_jset)
    ultimately show ?thesis using alike_books_ok swept by blast
  qed
qed

lemma touch_books_ok: "books_ok R qs handed \<Longrightarrow> books_ok (touch now k R) qs handed"
proof -
  assume ok: "books_ok R qs handed"
  have "rt_inFlightTurns (touch now k R) = rt_inFlightTurns R" by (simp add: touch_def split: option.split)
  then show ?thesis using alike_books_ok [OF touch_alike ok] ok by (simp add: books_ok_def)
qed

lemma ends_books_ok:
  assumes "books_ok R qs handed" "\<forall>q \<in> set qs. rq_run q = run \<longrightarrow> \<not> valid R q" "run \<noteq> []"
  shows "books_ok (endTurn now k (Some run) R) qs handed"
proof (cases "jget (rt_inFlightTurns R) k = Some run")
  case False
  then show ?thesis using touch_books_ok [OF assms(1)] assms(3) by (simp add: endTurn_def)
next
  case True
  let ?D = "R\<lparr>rt_inFlightTurns := jdelete k (rt_inFlightTurns R)\<rparr>"
  have "alike R ?D" using assms(1) by (simp add: alike_def books_ok_def router_ok_def option.rel_refl)
  moreover have "\<forall>q \<in> set qs. valid R q \<longrightarrow> jget (rt_inFlightTurns ?D) (rq_key q) = jget (rt_inFlightTurns R) (rq_key q)"
    using assms(1,2) True by (auto simp: books_ok_def list_all_iff request_ok_def jget_jdelete)
  ultimately have "books_ok ?D qs handed" using alike_books_ok assms(1) by blast
  then show ?thesis using touch_books_ok [of ?D] True by (simp add: endTurn_def)
qed


section \<open>Requests\<close>

lemma books_ok_set: "set qs = set qs' \<Longrightarrow> books_ok R qs handed \<longleftrightarrow> books_ok R qs' handed"
  by (simp add: books_ok_def list_all_iff key_ok_def)

lemma add_request: "books_ok R qs handed \<Longrightarrow> request_ok R q \<Longrightarrow> books_ok R (qs @ [q]) handed"
  unfolding books_ok_def key_ok_def by (auto simp: list_all_iff)

lemma drop_request:
  assumes "books_ok R (q # qs) handed" "valid R q \<Longrightarrow> jget (rt_closing R) (rq_key q) = None"
  shows "books_ok R qs handed"
proof -
  have "key_ok R qs handed k" for k
  proof -
    have k: "key_ok R (q # qs) handed k" using assms(1) by (simp add: books_ok_def)
    show ?thesis
    proof (rule key_okI)
      fix r p s
      assume a: "jget (rt_sessions R) k = Some r" "jget (rt_closing R) k = Some (p, s)"
      from key_okD(2) [OF k a] obtain q' where q': "q' \<in> set (q # qs)" "valid R q'" "rq_key q' = k" "\<exists>c. rq_wait q' = Evicting p c" by blast
      then have "q' \<noteq> q" using assms(2) a(2) by auto
      then show "s = sr_session r \<and> (\<exists>q \<in> set qs. valid R q \<and> rq_key q = k \<and> (\<exists>c. rq_wait q = Evicting p c))"
        using q' key_okD(1) [OF k a] by auto
    qed (use key_okD(3) [OF k] in blast)
  qed
  then show ?thesis using assms(1) by (simp add: books_ok_def)
qed

lemma hand_out:
  assumes "books_ok R qs handed" "jget (rt_sessions R) k = Some r"
  shows "books_ok R qs (handed @ [(k, sr_session r, b)])"
proof -
  have "key_ok R qs (handed @ [(k, sr_session r, b)]) j" for j
  proof -
    have j: "key_ok R qs handed j" using assms(1) by (simp add: books_ok_def)
    show ?thesis
    proof (rule key_okI)
      fix s c
      assume "(j, s, c) \<in> set (handed @ [(k, sr_session r, b)])" and h: "s \<notin> rt_settled R"
      then consider "(j, s, c) \<in> set handed" | "j = k" "s = sr_session r" by auto
      then show "(\<exists>r. jget (rt_sessions R) j = Some r \<and> sr_session r = s) \<or> (\<exists>p. jget (rt_closing R) j = Some (p, s))"
        using key_okD(3) [OF j _ h] assms(2) by cases blast+
    qed (use key_okD(1,2) [OF j] in blast)
  qed
  then show ?thesis using assms(1) by (simp add: books_ok_def)
qed

definition progress_ok :: "string \<Rightarrow> string \<Rightarrow> request list \<Rightarrow> (string \<times> nat \<times> bool) list \<Rightarrow> progress \<times> router \<Rightarrow> bool" where
  "progress_ok k run qs handed pr =
     (case pr of (p, R) \<Rightarrow>
        (case p of
           Waits q \<Rightarrow> books_ok R (qs @ [q]) handed \<and> rq_run q = run
         | Returns s \<Rightarrow> books_ok R qs (handed @ [(k, s, False)]) \<and> s \<notin> rt_disposeCalled R
         | Throws \<Rightarrow> books_ok R qs handed))"

lemma progress_ok_simps [simp]:
  "progress_ok k run qs handed (Waits q, R) \<longleftrightarrow> books_ok R (qs @ [q]) handed \<and> rq_run q = run"
  "progress_ok k run qs handed (Returns s, R) \<longleftrightarrow> books_ok R qs (handed @ [(k, s, False)]) \<and> s \<notin> rt_disposeCalled R"
  "progress_ok k run qs handed (Throws, R) \<longleftrightarrow> books_ok R qs handed"
  by (simp_all add: progress_ok_def)

text \<open>The end of a request.\<close>

lemma request_ends_books_ok:
  assumes "books_ok R qs handed"
  shows "books_ok (request_ends q R) qs handed"
proof (cases "jget (rt_sessions R) (rq_key q) = None")
  case False
  then show ?thesis using assms by (auto simp: request_ends_def jhas_def)
next
  case True
  have "request_ends q R = R \<or> request_ends q R = router_close (rq_key q) R" using True by (simp add: request_ends_def close_none)
  then show ?thesis using assms close_books_ok by metis
qed

lemma alike_creating [simp]:
  "router_ok R \<Longrightarrow> alike R (R\<lparr>rt_creating := c\<rparr>)" "router_ok R \<Longrightarrow> alike R (R\<lparr>rt_fresh := Suc (rt_fresh R), rt_creating := c\<rparr>)"
  "router_ok R \<Longrightarrow> alike R (R\<lparr>rt_fresh := Suc (rt_fresh R)\<rparr>)"
  by (simp_all add: alike_def router_ok_def option.rel_refl)

lemma alike_books_ok':
  assumes "alike R R'" "books_ok R qs handed" "rt_inFlightTurns R' = rt_inFlightTurns R"
  shows "books_ok R' qs handed"
  using alike_books_ok [OF assms(1,2)] assms(3) by simp

lemma throws_ok: "books_ok R qs handed \<Longrightarrow> progress_ok k run qs handed (throws q R)"
  by (simp add: throws_def request_ends_books_ok)

lemma start_creating_ok:
  assumes "books_ok R qs handed" "rq_symbol q < rt_fresh R" "rq_run q = run"
    and "valid R q \<Longrightarrow> jget (rt_inFlightTurns R) (rq_key q) = Some run \<and> (\<forall>p. finds R (rq_key q) (w p))"
  shows "progress_ok k run qs handed (start_creating w c q R)"
proof (cases "project_open (sc_projectKey c) R")
  case False
  then show ?thesis using throws_ok [OF assms(1)] by (simp add: start_creating_def)
next
  case True
  let ?R = "R\<lparr>rt_fresh := Suc (rt_fresh R), rt_creating := jset (rt_fresh R) c (rt_creating R)\<rparr>"
  have like: "alike R ?R" using assms(1) by (intro alike_creating) (simp add: books_ok_def)
  have "books_ok ?R qs handed" by (rule alike_books_ok' [OF like assms(1)]) simp
  moreover have "request_ok ?R (q\<lparr>rq_wait := w (rt_fresh R)\<rparr>)"
    using assms(2-4) alike_finds [OF like] by (auto simp: request_ok_def valid_def session_closed_def)
  ultimately show ?thesis using add_request True assms(3) by (simp add: start_creating_def)
qed

text \<open>The disposal of a session that is in no map.\<close>

lemma start_dispose_books_ok:
  assumes "books_ok R qs handed" "s < rt_fresh R" "\<And>k r. jget (rt_sessions R) k = Some r \<Longrightarrow> sr_session r \<noteq> s"
  shows "books_ok (snd (start_dispose s R)) qs handed"
proof -
  let ?R = "snd (start_dispose s R)"
  have ok: "router_ok R" using assms(1) by (simp add: books_ok_def)
  have eq: "?R = R\<lparr>rt_fresh := Suc (rt_fresh R), rt_disposals := jset (rt_fresh R) s (rt_disposals R), rt_disposeCalled := insert s (rt_disposeCalled R)\<rparr>"
    by (simp add: start_dispose_def)
  have fresh: "jget (rt_disposals R) p = Some t \<Longrightarrow> p \<noteq> rt_fresh R" for p t using router_okD(8) [OF ok] by auto
  have v: "valid ?R q \<longleftrightarrow> valid R q" for q by (simp add: eq valid_def session_closed_def)
  have f: "finds ?R k w \<longleftrightarrow> finds R k w" for k w by (cases w) (simp_all add: eq)
  have "router_ok ?R"
    unfolding router_ok_def
  proof (intro conjI allI impI ballI subsetI)
    show "distinct (jkeys (rt_sessions ?R))" "distinct (jkeys (rt_closing ?R))" using router_okD(1,2) [OF ok] by (simp_all add: eq)
    show "y < rt_fresh ?R" if "jget (rt_sessionGenerations ?R) k = Some y" for k y
      using router_okD(3) [OF ok, of k y] that by (simp add: eq)
    show "sr_session r < rt_fresh ?R" if "jget (rt_sessions ?R) k = Some r" for k r
      using router_okD(4) [OF ok, of k r] that by (simp add: eq)
    show "rt_recreates ?R" "unusable r" if "jget (rt_sessions ?R) k = Some r" "sr_session r \<in> rt_disposeCalled ?R" for k r
      using router_okD(5) [OF ok, of k r] assms(3) [of k r] that by (simp_all add: eq)
    show "k = k'" if "jget (rt_sessions ?R) k = Some r" "jget (rt_sessions ?R) k' = Some r'" "sr_session r = sr_session r'" for k k' r r'
      using router_okD(6) [OF ok, of k r k' r'] that by (simp add: eq)
    show "jget (rt_disposals ?R) p = Some t" if "jget (rt_closing ?R) k = Some (p, t)" for k p t
      using router_okD(7) [OF ok, of k p t] fresh [of p t] that by (simp add: eq jget_jset)
    show "p < rt_fresh ?R" if "jget (rt_disposals ?R) p = Some t" for p t
      using router_okD(8) [OF ok, of p t] that by (auto simp: eq jget_jset split: if_splits)
    show "t < rt_fresh ?R" if "t \<in> rt_disposeCalled ?R" for t
      using router_okD(9) [OF ok, of t] assms(2) that by (auto simp: eq)
    show "t \<in> rt_disposeCalled ?R" if "t \<in> rt_settled ?R" for t using router_okD(10) [OF ok, of t] that by (simp add: eq)
    show "t \<in> rt_disposeCalled ?R" if "jget (rt_disposals ?R) p = Some t" for p t
      using router_okD(11) [OF ok, of p t] that by (auto simp: eq jget_jset split: if_splits)
  qed
  moreover have "request_ok ?R q" if "request_ok R q" for q using that by (auto simp: request_ok_def v f) (simp_all add: eq)
  moreover have "key_ok ?R qs handed k" if k: "key_ok R qs handed k" for k
    by (rule key_ok_same [OF k]) (auto simp: v, simp_all add: eq)
  ultimately show ?thesis using assms(1) by (auto simp: books_ok_def list_all_iff)
qed


text \<open>The disposal of a dirty session that stays in the map until it is made again.\<close>

lemma evict_books_ok:
  assumes "books_ok R qs handed" "jget (rt_sessions R) k = Some r" "unusable r" "rt_recreates R" "jget (rt_closing R) k = None"
    and alone: "\<forall>q \<in> set qs. valid R q \<longrightarrow> rq_key q \<noteq> k"
    and q: "valid R q" "rq_symbol q < rt_fresh R" "rq_key q = k" "jget (rt_inFlightTurns R) k = Some (rq_run q)"
  shows "case emitSessionEvict k r R of (p, R') \<Rightarrow> books_ok R' (qs @ [q\<lparr>rq_wait := Evicting p c\<rparr>]) handed"
proof -
  let ?p = "rt_fresh R" and ?s = "sr_session r"
  let ?R = "snd (emitSessionEvict k r R)" and ?q = "q\<lparr>rq_wait := Evicting (rt_fresh R) c\<rparr>"
  have ok: "router_ok R" using assms(1) by (simp add: books_ok_def)
  have eq: "?R = R\<lparr>rt_fresh := Suc ?p, rt_disposals := jset ?p ?s (rt_disposals R), rt_disposeCalled := insert ?s (rt_disposeCalled R),
      rt_closing := jset k (?p, ?s) (rt_closing R), rt_closingProjects := jset k (sc_projectKey (sr_context r)) (rt_closingProjects R)\<rparr>"
    by (simp add: emitSessionEvict_def start_dispose_def)
  have fresh: "jget (rt_disposals R) p = Some t \<Longrightarrow> p \<noteq> ?p" for p t using router_okD(8) [OF ok] by auto
  have v: "valid ?R q \<longleftrightarrow> valid R q" for q by (simp add: eq valid_def session_closed_def)
  have f: "j \<noteq> k \<Longrightarrow> finds R j w \<Longrightarrow> finds ?R j w" for j w by (cases w) (simp_all add: eq jget_jset)
  have "router_ok ?R"
    unfolding router_ok_def
  proof (intro conjI allI impI ballI subsetI)
    show "distinct (jkeys (rt_sessions ?R))" "distinct (jkeys (rt_closing ?R))"
      using router_okD(1,2) [OF ok] by (simp_all add: eq distinct_update)
    show "y < rt_fresh ?R" if "jget (rt_sessionGenerations ?R) k = Some y" for k y
      using router_okD(3) [OF ok, of k y] that by (simp add: eq)
    show "sr_session r < rt_fresh ?R" if "jget (rt_sessions ?R) k = Some r" for k r
      using router_okD(4) [OF ok, of k r] that by (simp add: eq)
    show "rt_recreates ?R" "unusable r'" if j: "jget (rt_sessions ?R) j = Some r'" "sr_session r' \<in> rt_disposeCalled ?R" for j r'
    proof -
      have "sr_session r' = ?s \<or> sr_session r' \<in> rt_disposeCalled R" using j(2) by (simp add: eq)
      moreover have "r' = r" if "sr_session r' = ?s"
        using router_okD(6) [OF ok _ assms(2) that, of j] j(1) assms(2) by (simp add: eq)
      ultimately show "rt_recreates ?R" "unusable r'" using router_okD(5) [OF ok, of j r'] j(1) assms(3,4) by (auto simp: eq)
    qed
    show "k = k'" if "jget (rt_sessions ?R) k = Some r" "jget (rt_sessions ?R) k' = Some r'" "sr_session r = sr_session r'" for k k' r r'
      using router_okD(6) [OF ok, of k r k' r'] that by (simp add: eq)
    show "jget (rt_disposals ?R) p = Some t" if "jget (rt_closing ?R) j = Some (p, t)" for j p t
      using router_okD(7) [OF ok, of j p t] fresh [of p t] that by (auto simp: eq jget_jset split: if_splits)
    show "p < rt_fresh ?R" if "jget (rt_disposals ?R) p = Some t" for p t
      using router_okD(8) [OF ok, of p t] that by (auto simp: eq jget_jset split: if_splits)
    show "t < rt_fresh ?R" if "t \<in> rt_disposeCalled ?R" for t
      using router_okD(9) [OF ok, of t] router_okD(4) [OF ok assms(2)] that by (auto simp: eq)
    show "t \<in> rt_disposeCalled ?R" if "t \<in> rt_settled ?R" for t using router_okD(10) [OF ok, of t] that by (simp add: eq)
    show "t \<in> rt_disposeCalled ?R" if "jget (rt_disposals ?R) p = Some t" for p t
      using router_okD(11) [OF ok, of p t] that by (auto simp: eq jget_jset split: if_splits)
  qed
  moreover have "request_ok ?R q'" if "q' \<in> set qs" "request_ok R q'" for q'
    using that alone f by (auto simp: request_ok_def v) (simp_all add: eq)
  moreover have vq: "valid ?R ?q" using q(1) by (simp add: v) (simp add: valid_def session_closed_def)
  then have "request_ok ?R ?q"
    using q assms(2) by (simp add: request_ok_def) (simp add: eq jget_jset)
  moreover have "key_ok ?R (qs @ [?q]) handed j" if j: "key_ok R qs handed j" for j
  proof (cases "j = k")
    case False
    then show ?thesis by (intro key_ok_same [OF j]) (auto simp: v, simp_all add: eq jget_jset)
  next
    case True
    have "jget (rt_sessions ?R) j = Some r" "jget (rt_closing ?R) j = Some (?p, ?s)" using assms(2) True by (simp_all add: eq jget_jset)
    moreover have "rt_settled ?R = rt_settled R" by (simp add: eq)
    ultimately show ?thesis
      using vq q(3) True key_okD(3) [OF j] assms(2,5) by (intro key_okI) auto
  qed
  ultimately have "books_ok ?R (qs @ [?q]) handed" using assms(1) by (auto simp: books_ok_def list_all_iff)
  then show ?thesis by (simp add: emitSessionEvict_def start_dispose_def)
qed


text \<open>A new session put in the map where no earlier one of the key is left.\<close>

lemma install_books_ok:
  assumes "books_ok R qs handed" "s < rt_fresh R" "s \<notin> rt_disposeCalled R" "\<And>k r. jget (rt_sessions R) k = Some r \<Longrightarrow> sr_session r \<noteq> s"
    and "jget (rt_closing R) k = None" "\<And>r. jget (rt_sessions R) k = Some r \<Longrightarrow> sr_session r \<in> rt_settled R"
    and alone: "\<forall>q \<in> set qs. valid R q \<longrightarrow> rq_key q \<noteq> k" and "sr_session r = s"
  shows "books_ok (R\<lparr>rt_sessions := jset k r (rt_sessions R)\<rparr>) qs handed"
proof -
  let ?R = "R\<lparr>rt_sessions := jset k r (rt_sessions R)\<rparr>"
  have ok: "router_ok R" using assms(1) by (simp add: books_ok_def)
  have v: "valid ?R q \<longleftrightarrow> valid R q" for q by (simp add: valid_def session_closed_def)
  have f: "j \<noteq> k \<Longrightarrow> finds R j w \<Longrightarrow> finds ?R j w" for j w by (cases w) (simp_all add: jget_jset)
  have "router_ok ?R"
    unfolding router_ok_def
  proof (intro conjI allI impI)
    show "distinct (jkeys (rt_sessions ?R))" using router_okD(1) [OF ok] by (simp add: distinct_update)
    show "sr_session r' < rt_fresh ?R" if "jget (rt_sessions ?R) j = Some r'" for j r'
      using router_okD(4) [OF ok, of j r'] assms(2,8) that by (auto simp: jget_jset split: if_splits)
    show "rt_recreates ?R" "unusable r'" if "jget (rt_sessions ?R) j = Some r'" "sr_session r' \<in> rt_disposeCalled ?R" for j r'
      using router_okD(5) [OF ok, of j r'] assms(3,8) that by (auto simp: jget_jset split: if_splits)
    show "j = j'" if "jget (rt_sessions ?R) j = Some x" "jget (rt_sessions ?R) j' = Some y" "sr_session x = sr_session y" for j j' x y
      using router_okD(6) [OF ok, of j x j' y] assms(4) [of j x] assms(4) [of j' y] assms(8) that by (auto simp: jget_jset split: if_splits)
  qed (use router_okD(2,3,7-) [OF ok] in auto)
  moreover have "request_ok ?R q" if "q \<in> set qs" "request_ok R q" for q
    using that alone f by (auto simp: request_ok_def v)
  moreover have "key_ok ?R qs handed j" if j: "key_ok R qs handed j" for j
  proof (cases "j = k")
    case False
    then show ?thesis by (intro key_ok_same [OF j]) (auto simp: v jget_jset)
  next
    case True
    have "s' \<in> rt_settled R" if "(k, s', b) \<in> set handed" for s' b
      using key_okD(3) [OF j, of s' b] that True assms(5,6) by auto
    then show ?thesis using True assms(5) by (intro key_okI) auto
  qed
  ultimately show ?thesis using assms(1) by (auto simp: books_ok_def list_all_iff)
qed

text \<open>Each part of \<open>getOrCreate\<close>. The request is not among the others, and no other request of its key is wanted.\<close>

lemma after_closing_ok:
  assumes ok: "books_ok R qs handed" and q: "rq_symbol q < rt_fresh R" "rq_run q = run" "rq_key q = k"
    and wanted: "valid R q \<Longrightarrow> jget (rt_inFlightTurns R) k = Some run \<and> jget (rt_closing R) k = None"
    and alone: "valid R q \<Longrightarrow> \<forall>q' \<in> set qs. valid R q' \<longrightarrow> rq_key q' \<noteq> k"
  shows "progress_ok k run qs handed (after_closing now q R)"
proof (cases "valid R q")
  case False
  then show ?thesis using throws_ok [OF ok] by (simp add: after_closing_def valid_def)
next
  case True
  then have open_: "\<not> session_closed q R" by (simp add: valid_def)
  show ?thesis
  proof (cases "jget (rt_sessions R) k")
    case None
    have "progress_ok k run qs handed (start_creating Creating (rq_context q) q R)"
      by (rule start_creating_ok [OF ok q(1,2)]) (use wanted [OF True] q(3) None in simp)
    then show ?thesis using None q(3) by (simp add: after_closing_def open_)
  next
    case (Some r)
    define r1 where "r1 = r\<lparr>sr_context := mergeSessionContext (sr_context r) (rq_context q)\<rparr>"
    define R1 where "R1 = R\<lparr>rt_sessions := jset k r1 (rt_sessions R)\<rparr>"
    have router: "router_ok R" using ok by (simp add: books_ok_def)
    have r1: "sr_session r1 = sr_session r" "unusable r1 \<longleftrightarrow> unusable r" by (simp_all add: r1_def unusable_def)
    have "alike R R1" using Some router by (auto simp: alike_def R1_def jget_jset r1 router_ok_def option.rel_refl)
    then have ok1: "books_ok R1 qs handed" using alike_books_ok' ok by (simp add: R1_def)
    have at: "jget (rt_sessions R1) k = Some r1" by (simp add: R1_def jget_jset)
    have v: "valid R1 q' \<longleftrightarrow> valid R q'" for q' by (simp add: R1_def valid_def session_closed_def)
    have active: "jget (rt_inFlightTurns R) (rq_key q) = Some (rq_run q)" using wanted [OF True] q by simp
    show ?thesis
    proof (cases "unusable r \<and> rt_recreates R")
      case True
      have "case emitSessionEvict k r1 R1 of (p, R') \<Rightarrow>
          books_ok R' (qs @ [q\<lparr>rq_wait := Evicting p (mergeSessionContext (sr_context r) (rq_context q))\<rparr>]) handed"
        by (rule evict_books_ok [OF ok1 at]) (use True r1 wanted alone \<open>valid R q\<close> q v in \<open>auto simp: R1_def\<close>)
      then show ?thesis
        using Some True active q(2,3) by (auto simp: after_closing_def open_ Let_def unusable_def r1_def R1_def split: prod.split)
    next
      case False
      then have usable: "sr_session r1 \<notin> rt_disposeCalled R" using router_okD(5) [OF router Some] by (auto simp: r1)
      let ?T = "touch now k R1"
      have "jget (rt_sessions ?T) k = Some (r1\<lparr>sr_lastUsedAt := now\<rparr>)" using at by (simp add: touch_def jget_jset)
      then have "books_ok ?T qs (handed @ [(k, sr_session r1, False)])"
        using hand_out [OF touch_books_ok [OF ok1]] by fastforce
      moreover have "rt_disposeCalled ?T = rt_disposeCalled R" by (simp add: touch_def R1_def split: option.split)
      ultimately have "progress_ok k run qs handed (Returns (sr_session r1), ?T)" using usable by simp
      moreover have "after_closing now q R = (Returns (sr_session r1), ?T)"
        using Some False active q(3) by (auto simp: after_closing_def open_ Let_def unusable_def r1_def R1_def)
      ultimately show ?thesis by simp
    qed
  qed
qed

lemma discard_ok:
  assumes "books_ok R qs handed" "s < rt_fresh R" "\<And>k r. jget (rt_sessions R) k = Some r \<Longrightarrow> sr_session r \<noteq> s"
    and "rq_symbol q < rt_fresh R" "rq_run q = run" "valid R q \<Longrightarrow> jget (rt_inFlightTurns R) (rq_key q) = Some run"
  shows "progress_ok k run qs handed (discard still s q R)"
proof -
  have ok: "books_ok (snd (start_dispose s R)) qs handed" by (rule start_dispose_books_ok [OF assms(1-3)])
  have "request_ok (snd (start_dispose s R)) (q\<lparr>rq_wait := Discarding (rt_fresh R) still\<rparr>)"
    using assms(4-) by (auto simp: start_dispose_def request_ok_def valid_def session_closed_def)
  from add_request [OF ok this] show ?thesis using assms(5) by (simp add: discard_def start_dispose_def)
qed

lemma session_made_ok:
  assumes ok: "books_ok R qs handed" and q: "rq_symbol q < rt_fresh R" "rq_run q = run" "rq_key q = k"
    and wanted: "valid R q \<Longrightarrow> jget (rt_inFlightTurns R) k = Some run \<and> jget (rt_closing R) k = None
        \<and> (\<forall>r. jget (rt_sessions R) k = Some r \<longrightarrow> sr_session r \<in> rt_settled R)"
    and alone: "valid R q \<Longrightarrow> \<forall>q' \<in> set qs. valid R q' \<longrightarrow> rq_key q' \<noteq> k"
  shows "progress_ok k run qs handed (session_made now p c again (rt_fresh R) q (R\<lparr>rt_fresh := rt_fresh R + 1\<rparr>))"
proof -
  let ?F = "R\<lparr>rt_fresh := Suc (rt_fresh R)\<rparr>"
  let ?C = "?F\<lparr>rt_creating := jdelete p (rt_creating R)\<rparr>"
  have router: "router_ok R" using ok by (simp add: books_ok_def)
  have F: "books_ok ?F qs handed" "books_ok ?C qs handed"
    using alike_books_ok' [OF alike_creating(3) [OF router] ok] alike_books_ok' [OF alike_creating(2) [OF router] ok] by simp_all
  have new: "sr_session r \<noteq> rt_fresh R" if "jget (rt_sessions R) k = Some r" for k r using router_okD(4) [OF router that] by simp
  have v: "valid ?F q' \<longleftrightarrow> valid R q'" "valid ?C q' \<longleftrightarrow> valid R q'" for q' by (simp_all add: valid_def session_closed_def)
  have d: "progress_ok k run qs handed (discard still (rt_fresh R) q ?F)" for still
    by (rule discard_ok [OF F(1)]) (use new q wanted v in auto)
  have dc: "progress_ok k run qs handed (discard still (rt_fresh R) q ?C)" for still
    by (rule discard_ok [OF F(2)]) (use new q wanted v in auto)
  show ?thesis
  proof (cases "project_open (sc_projectKey c) ?F \<and> valid R q \<and> rq_generation q = generation_of (sc_projectKey (rq_context q)) ?C")
    case False
    then show ?thesis using d [of "Some p"] dc [of None] v(2) [of q] by (auto simp: session_made_def valid_def Let_def)
  next
    case True
    have unused: "rt_fresh R \<notin> rt_disposeCalled R" using router_okD(9) [OF router] by blast
    have "books_ok (?C\<lparr>rt_sessions := jset k r (rt_sessions ?C)\<rparr>) qs (handed @ [(k, rt_fresh R, b)])"
      if r: "sr_session r = rt_fresh R" for r b
    proof -
      have "books_ok (?C\<lparr>rt_sessions := jset k r (rt_sessions ?C)\<rparr>) qs handed"
        by (rule install_books_ok [OF F(2) _ _ _ _ _ _ r]) (use True new wanted alone v unused in auto)
      from hand_out [OF this, of k r b] show ?thesis by (simp add: r jget_jset)
    qed
    moreover have "\<not> session_closed q ?C" using True v(2) by (simp add: valid_def)
    ultimately show ?thesis
      using True q(3) unused by (simp add: session_made_def Let_def)
  qed
qed


lemma finds_free:
  "router_ok R \<Longrightarrow> \<not> pending p R \<Longrightarrow> finds R k (Closing p) \<Longrightarrow> jget (rt_sessions R) k = None \<and> jget (rt_closing R) k = None"
  "router_ok R \<Longrightarrow> \<not> pending p R \<Longrightarrow> finds R k (Evicting p c) \<Longrightarrow>
     \<exists>r. jget (rt_sessions R) k = Some r \<and> jget (rt_closing R) k = None \<and> sr_session r \<in> rt_settled R"
  using router_okD(7) [of R k p] by (auto simp: pending_def jhas_def)

lemma drop_plain:
  assumes "books_ok R (q # qs) handed" "\<And>p c. rq_wait q \<noteq> Evicting p c"
  shows "books_ok R qs handed"
proof -
  have "key_ok R qs handed k" for k
  proof -
    have k: "key_ok R (q # qs) handed k" using assms(1) by (simp add: books_ok_def)
    show ?thesis
    proof (rule key_okI)
      fix r p s
      assume a: "jget (rt_sessions R) k = Some r" "jget (rt_closing R) k = Some (p, s)"
      from key_okD(1,2) [OF k a] assms(2)
      show "s = sr_session r \<and> (\<exists>q \<in> set qs. valid R q \<and> rq_key q = k \<and> (\<exists>c. rq_wait q = Evicting p c))" by auto
    qed (use key_okD(3) [OF k] in blast)
  qed
  then show ?thesis using assms(1) by (simp add: books_ok_def)
qed

lemma creation_failed_ok: "books_ok R qs handed \<Longrightarrow> progress_ok k run qs handed (creation_failed p q R)"
  unfolding creation_failed_def
  by (rule throws_ok, rule alike_books_ok' [OF alike_creating(1)]) (simp_all add: books_ok_def)

lemma resumes_books_ok: "books_ok R qs handed \<Longrightarrow> books_ok (resumeProject p R) qs handed"
  by (rule alike_books_ok' [of R]) (simp_all add: resumeProject_def alike_def books_ok_def router_ok_def option.rel_refl)

lemma revisions_ok:
  "books_ok R qs handed \<Longrightarrow> books_ok (R\<lparr>rt_runtimeRevision := n\<rparr>) qs handed"
  "books_ok R qs handed \<Longrightarrow> books_ok (R\<lparr>rt_projectRuntimeRevisions := m\<rparr>) qs handed"
  by (rule alike_books_ok' [of R]; simp add: alike_def books_ok_def router_ok_def option.rel_refl)+

lemma mark_books_ok: "books_ok R qs handed \<Longrightarrow> reason \<noteq> [] \<Longrightarrow> books_ok (mark_dirty reason p R) qs handed"
  by (rule alike_books_ok' [OF mark_alike]) (simp_all add: books_ok_def mark_dirty_def)

lemma sweep_one_turns:
  "rt_inFlightTurns (sweep_one now x S) = rt_inFlightTurns S \<and> rt_isShutdown (sweep_one now x S) = rt_isShutdown S"
  by (cases x) (simp add: sweep_one_def emitSessionEvict_def start_dispose_def Let_def split: option.split prod.split)

lemma sweep_turns: "rt_inFlightTurns (sweepIdle now R) = rt_inFlightTurns R \<and> rt_isShutdown (sweepIdle now R) = rt_isShutdown R"
proof -
  have "rt_inFlightTurns (fold (sweep_one now) xs S) = rt_inFlightTurns S \<and> rt_isShutdown (fold (sweep_one now) xs S) = rt_isShutdown S" for xs S
    by (induction xs arbitrary: S) (simp_all add: sweep_one_turns)
  then show ?thesis by (simp add: sweepIdle_def)
qed

text \<open>A new \<open>Symbol\<close> is nobody's, so it makes no stale request wanted again.\<close>

lemma symbol_books_ok:
  assumes "books_ok R qs handed"
    and "(case jget (rt_sessionGenerations R) k of Some y \<Rightarrow> (y, R)
      | None \<Rightarrow> (rt_fresh R, R\<lparr>rt_fresh := rt_fresh R + 1, rt_sessionGenerations := jset k (rt_fresh R) (rt_sessionGenerations R)\<rparr>)) = (symbol, S)"
  shows "books_ok S qs handed \<and> symbol < rt_fresh S"
proof (cases "jget (rt_sessionGenerations R) k")
  case (Some y)
  then show ?thesis using assms router_okD(3) by (auto simp: books_ok_def)
next
  case None
  have ok: "router_ok R" using assms(1) by (simp add: books_ok_def)
  have S: "S = R\<lparr>rt_fresh := Suc (rt_fresh R), rt_sessionGenerations := jset k (rt_fresh R) (rt_sessionGenerations R)\<rparr>" "symbol = rt_fresh R"
    using assms(2) None by auto
  have v: "valid S q \<longleftrightarrow> valid R q" if "request_ok R q" for q
    using that None by (auto simp: S request_ok_def valid_def session_closed_def jget_jset)
  have f: "finds S j w \<longleftrightarrow> finds R j w" for j w by (cases w) (simp_all add: S)
  have "router_ok S"
    unfolding router_ok_def
  proof (intro conjI allI impI ballI subsetI)
    show "y < rt_fresh S" if "jget (rt_sessionGenerations S) j = Some y" for j y
      using that router_okD(3) [OF ok, of j y] by (auto simp: S jget_jset split: if_splits)
  qed (use router_okD(1,2) [OF ok] router_okD(4-) [OF ok] in \<open>auto simp: S less_Suc_eq\<close>)
  moreover have "request_ok S q" if "request_ok R q" for q
    using that unfolding request_ok_def v [OF that] f by (simp add: S)
  moreover have "key_ok S qs handed j" if j: "key_ok R qs handed j" for j
  proof (rule key_ok_same [OF j])
    fix q assume "q \<in> set qs" "valid R q"
    then show "q \<in> set qs \<and> valid S q" using v assms(1) by (auto simp: books_ok_def list_all_iff)
  qed (simp_all add: S)
  ultimately show ?thesis using assms(1) by (auto simp: books_ok_def list_all_iff S(2)) (simp add: S)
qed

text \<open>A request that goes on.\<close>

lemma resume_ok:
  assumes ok: "books_ok R (q # qs) handed" and runs: "distinct (map rq_run (q # qs))" and go: "resume_request ok' now q R = Some pr"
  shows "progress_ok (rq_key q) (rq_run q) qs handed pr"
proof -
  have router: "router_ok R" and rq: "request_ok R q" and others: "list_all (request_ok R) qs" using ok by (auto simp: books_ok_def)
  have alone: "valid R q \<Longrightarrow> \<forall>q' \<in> set qs. valid R q' \<longrightarrow> rq_key q' \<noteq> rq_key q"
    using rq others runs by (auto simp: request_ok_def list_all_iff)
  have sym: "rq_symbol q < rt_fresh R" and turn: "valid R q \<Longrightarrow> jget (rt_inFlightTurns R) (rq_key q) = Some (rq_run q)"
    and found: "valid R q \<Longrightarrow> finds R (rq_key q) (rq_wait q)"
    using rq by (auto simp: request_ok_def)
  note base = sym refl refl
  have rest: "books_ok R qs handed" if "valid R q \<Longrightarrow> jget (rt_closing R) (rq_key q) = None" using drop_request [OF ok that] .
  have plain: "books_ok R qs handed" if "\<And>p c. rq_wait q \<noteq> Evicting p c"
    by (rule drop_plain [OF ok that])
  show ?thesis
  proof (cases "rq_wait q")
    case (Closing p)
    then have np: "\<not> pending p R" and pr: "pr = (if ok' then after_closing now q R else throws q R)"
      using go by (auto simp: resume_request_def Let_def split: if_splits)
    have free: "valid R q \<Longrightarrow> jget (rt_closing R) (rq_key q) = None" using finds_free(1) [OF router np] found Closing by simp
    have "progress_ok (rq_key q) (rq_run q) qs handed (after_closing now q R)"
      by (rule after_closing_ok [OF rest base]) (use free turn alone in auto)
    then show ?thesis using throws_ok [OF rest [OF free]] pr by simp
  next
    case (Evicting p c)
    then have np: "\<not> pending p R" and pr: "pr = (if ok' then after_evict c q R else throws q R)"
      using go by (auto simp: resume_request_def Let_def split: if_splits)
    have free: "valid R q \<Longrightarrow> \<exists>r. jget (rt_sessions R) (rq_key q) = Some r \<and> jget (rt_closing R) (rq_key q) = None \<and> sr_session r \<in> rt_settled R"
      using finds_free(2) [OF router np] found Evicting by simp
    then have gone: "books_ok R qs handed" using rest by blast
    have "progress_ok (rq_key q) (rq_run q) qs handed (start_creating (\<lambda>p. Recreating p d) d q R)" for d
      by (rule start_creating_ok [OF gone sym refl]) (use turn free in auto)
    then show ?thesis using throws_ok [OF gone] pr by (simp add: after_evict_def Let_def)
  next
    case (Recreating p c)
    then have pr: "pr = (if ok' then session_made now p c True (rt_fresh R) q (R\<lparr>rt_fresh := rt_fresh R + 1\<rparr>) else creation_failed p q R)"
      using go by (auto simp: resume_request_def Let_def)
    have gone: "books_ok R qs handed" using Recreating plain by simp
    have "progress_ok (rq_key q) (rq_run q) qs handed (session_made now p c True (rt_fresh R) q (R\<lparr>rt_fresh := rt_fresh R + 1\<rparr>))"
      by (rule session_made_ok [OF gone base]) (use turn found Recreating alone in auto)
    then show ?thesis using creation_failed_ok [OF gone] pr by simp
  next
    case (Creating p)
    then have pr: "pr = (if ok' then session_made now p (rq_context q) False (rt_fresh R) q (R\<lparr>rt_fresh := rt_fresh R + 1\<rparr>) else creation_failed p q R)"
      using go by (auto simp: resume_request_def Let_def)
    have gone: "books_ok R qs handed" using Creating plain by simp
    have "progress_ok (rq_key q) (rq_run q) qs handed (session_made now p (rq_context q) False (rt_fresh R) q (R\<lparr>rt_fresh := rt_fresh R + 1\<rparr>))"
      by (rule session_made_ok [OF gone base]) (use turn found Creating alone in auto)
    then show ?thesis using creation_failed_ok [OF gone] pr by simp
  next
    case (Discarding p still)
    then have pr: "pr = after_discard still q R" using go by (auto simp: resume_request_def Let_def split: if_splits)
    have gone: "books_ok R qs handed" using Discarding plain by simp
    then show ?thesis using throws_ok creation_failed_ok unfolding pr after_discard_def creation_failed_def by (cases still) auto
  qed
qed

text \<open>A new request.\<close>

lemma getOrCreate_ok:
  assumes ok: "books_ok R qs handed" and turn: "jget (rt_inFlightTurns R) k = Some run" and new: "run \<notin> rq_run ` set qs"
    and k: "sc_sessionKey context = k"
  shows "progress_ok k run qs handed (getOrCreate now context run R)"
proof (cases "rt_isShutdown R")
  case True
  then show ?thesis using ok by (simp add: getOrCreate_def)
next
  case False
  let ?S = "sweepIdle now R"
  have swept: "books_ok ?S qs handed" by (rule sweep_books_ok [OF ok])
  have still: "jget (rt_inFlightTurns ?S) k = Some run" "\<not> rt_isShutdown ?S" using turn False by (simp_all add: sweep_turns)
  obtain symbol S where S: "(case jget (rt_sessionGenerations ?S) k of Some y \<Rightarrow> (y, ?S)
      | None \<Rightarrow> (rt_fresh ?S, ?S\<lparr>rt_fresh := rt_fresh ?S + 1, rt_sessionGenerations := jset k (rt_fresh ?S) (rt_sessionGenerations ?S)\<rparr>)) = (symbol, S)"
    by fastforce
  have symbol: "books_ok S qs handed \<and> symbol < rt_fresh S \<and> jget (rt_inFlightTurns S) k = Some run \<and> \<not> rt_isShutdown S"
    using symbol_books_ok [OF swept S] still S by (auto split: option.splits)
  have alone: "\<forall>q' \<in> set qs. valid S q' \<longrightarrow> rq_key q' \<noteq> k"
    using symbol new by (auto simp: books_ok_def list_all_iff request_ok_def)
  define p where "p = (case jget (rt_sessions S) k of None \<Rightarrow> sc_projectKey context
      | Some r \<Rightarrow> (case sc_projectKey (sr_context r) of None \<Rightarrow> sc_projectKey context | Some x \<Rightarrow> Some x))"
  define q where "q = \<lparr>rq_context = context, rq_run = run, rq_symbol = symbol, rq_generation = generation_of (sc_projectKey context) S,
                  rq_runtimeRevision = rt_runtimeRevision S, rq_projectKey = p, rq_projectRevision = revision_of p S, rq_wait = Closing 0\<rparr>"
  have result: "getOrCreate now context run R =
     (if \<not> project_open (sc_projectKey context) S then throws q S
      else (case jget (rt_closing S) k of
              Some (promise, _) \<Rightarrow> (Waits (q\<lparr>rq_wait := Closing promise\<rparr>), S) | None \<Rightarrow> after_closing now q S))"
    using False unfolding getOrCreate_def k Let_def S q_def p_def by simp
  show ?thesis
  proof (cases "jget (rt_closing S) k")
    case None
    have "progress_ok k run qs handed (after_closing now q S)"
      by (rule after_closing_ok) (use symbol None alone k in \<open>auto simp: q_def\<close>)
    then show ?thesis using throws_ok symbol None by (simp add: result)
  next
    case (Some c)
    obtain promise s where c: "c = (promise, s)" by force
    have "jget (rt_sessions S) k = None"
    proof (rule ccontr)
      assume "jget (rt_sessions S) k \<noteq> None"
      then obtain r where "jget (rt_sessions S) k = Some r" by auto
      moreover have "key_ok S qs handed k" using symbol by (simp add: books_ok_def)
      ultimately show False using key_okD(2) Some c alone by blast
    qed
    then have "request_ok S (q\<lparr>rq_wait := Closing promise\<rparr>)" using symbol Some c k by (simp add: request_ok_def q_def)
    then have "books_ok S (qs @ [q\<lparr>rq_wait := Closing promise\<rparr>]) handed" using add_request symbol by blast
    then show ?thesis using throws_ok symbol Some c by (simp add: result q_def)
  qed
qed

section \<open>The promise\<close>

lemma progressed_ok:
  assumes "progress_ok k run qs (gw_handed g) pr" "run \<notin> rq_run ` set qs" "distinct (map rq_run qs)" "insert run (rq_run ` set qs) \<subseteq> A"
    "list_all (\<lambda>(k, s, b). \<not> b) (gw_handed g)"
  shows "gateway_ok ((progressed k qs pr g)\<lparr>gw_asked := A\<rparr>)"
proof (cases pr)
  case (Pair p R)
  then show ?thesis
    using assms by (cases p) (auto simp: progressed_def gateway_ok_def)
qed

lemma router_move_ok: "gateway_ok g \<Longrightarrow> books_ok R (gw_requests g) (gw_handed g) \<Longrightarrow> gateway_ok (g\<lparr>gw_router := R\<rparr>)"
  by (simp add: gateway_ok_def)

lemma gateway_step_ok: "gateway_step g g' \<Longrightarrow> gateway_ok g \<Longrightarrow> gateway_ok g'"
proof (induction rule: gateway_step.induct)
  case (turn_begins run g now k R)
  then show ?case using begins_books_ok by (fastforce simp: gateway_ok_def)
next
  case (turn_refused now k run g R)
  then show ?case using begins_books_ok by (fastforce simp: gateway_ok_def)
next
  case (asks g c run now)
  have new: "run \<notin> rq_run ` set (gw_requests g)" using asks.hyps(2) asks.prems by (auto simp: gateway_ok_def)
  have "progress_ok (sc_sessionKey c) run (gw_requests g) (gw_handed g) (getOrCreate now c run (gw_router g))"
    using asks.prems by (intro getOrCreate_ok [OF _ asks.hyps(1) new refl]) (simp add: gateway_ok_def)
  then show ?case
    using new asks.prems by (intro progressed_ok) (auto simp: gateway_ok_def)
next
  case (goes_on g before q after ok now pr)
  have "set (q # before @ after) = set (gw_requests g)" using goes_on.hyps(1) by auto
  then have books: "books_ok (gw_router g) (q # before @ after) (gw_handed g)"
    using goes_on.prems books_ok_set by (metis gateway_ok_def)
  have runs: "distinct (map rq_run (q # before @ after))" "insert (rq_run q) (rq_run ` set (before @ after)) \<subseteq> gw_asked g"
    using goes_on.prems goes_on.hyps(1) by (auto simp: gateway_ok_def)
  have "progress_ok (rq_key q) (rq_run q) (before @ after) (gw_handed g) pr" by (rule resume_ok [OF books runs(1) goes_on.hyps(2)])
  then have "gateway_ok ((progressed (rq_key q) (before @ after) pr g)\<lparr>gw_asked := gw_asked g\<rparr>)"
    using runs goes_on.prems by (intro progressed_ok) (auto simp: gateway_ok_def)
  moreover have "(progressed (rq_key q) (before @ after) pr g)\<lparr>gw_asked := gw_asked g\<rparr> = progressed (rq_key q) (before @ after) pr g"
    by (simp add: progressed_def Let_def split: prod.split progress.split)
  ultimately show ?case by simp
next
  case (turn_ends run g now k)
  have "\<forall>q \<in> set (gw_requests g). rq_run q = run \<longrightarrow> \<not> valid (gw_router g) q"
    using turn_ends.hyps(2) by (auto simp: pump_ended_def list_all_iff valid_def)
  then show ?case using turn_ends ends_books_ok by (intro router_move_ok) (auto simp: gateway_ok_def)
next
  case (all_dirty reason g)
  then show ?case using mark_books_ok by (intro router_move_ok) (auto simp: gateway_ok_def markAllDirty_def intro!: mark_books_ok revisions_ok)
next
  case (project_dirty reason g p)
  then show ?case by (intro router_move_ok) (auto simp: gateway_ok_def markProjectDirty_def intro!: mark_books_ok revisions_ok)
qed (auto intro!: router_move_ok simp: gateway_ok_def settle_books_ok close_books_ok closeProject_books_ok sweep_books_ok touch_books_ok
      shutdown_books_ok resumes_books_ok)

lemma new_gateway_ok: "gateway_ok (new_gateway recreates timeout)"
  by (simp add: gateway_ok_def new_gateway_def new_router_def books_ok_def router_ok_def key_ok_def)

interpretation gateway: transition_system "new_gateway recreates timeout" gateway_step gateway_ok for recreates timeout
  using new_gateway_ok gateway_step_ok by unfold_locales

text \<open>C17. One session per key. However turns, closings, timeouts, reloads, idle sweeps and slow disposals interleave, of the
  sessions the gateway was given for a key at most one is not fully disposed of, so no two of them write to the same
  transcript; and no session was given out once its disposal had begun.\<close>

theorem one_live_session:
  "{g. gateway_step\<^sup>*\<^sup>* (new_gateway recreates timeout) g}
     \<subseteq> {g. (\<forall>k. \<exists>live. {s. \<exists>b. (k, s, b) \<in> set (gw_handed g)} - rt_settled (gw_router g) \<subseteq> {live})
          \<and> {b. \<exists>k s. (k, s, b) \<in> set (gw_handed g)} \<subseteq> {False}}"
proof (rule subsetI, simp only: mem_Collect_eq)
  fix g
  assume "gateway_step\<^sup>*\<^sup>* (new_gateway recreates timeout) g"
  then have ok: "gateway_ok g" by (rule gateway.invar_reachable)
  have "\<exists>live. {s. \<exists>b. (k, s, b) \<in> set (gw_handed g)} - rt_settled (gw_router g) \<subseteq> {live}" for k
  proof -
    have k: "key_ok (gw_router g) (gw_requests g) (gw_handed g) k" using ok by (simp add: gateway_ok_def books_ok_def)
    show ?thesis
    proof (cases "jget (rt_sessions (gw_router g)) k")
      case (Some r)
      have "s = sr_session r" if "(k, s, b) \<in> set (gw_handed g)" "s \<notin> rt_settled (gw_router g)" for s b
        using key_okD(3) [OF k that]
      proof (elim disjE exE)
        fix p assume "jget (rt_closing (gw_router g)) k = Some (p, s)"
        then show ?thesis using key_okD(1) [OF k Some] by blast
      qed (simp add: Some)
      then have "{s. \<exists>b. (k, s, b) \<in> set (gw_handed g)} - rt_settled (gw_router g) \<subseteq> {sr_session r}" by blast
      then show ?thesis by blast
    next
      case None
      have "Some s = map_option snd (jget (rt_closing (gw_router g)) k)" if "(k, s, b) \<in> set (gw_handed g)" "s \<notin> rt_settled (gw_router g)" for s b
        using key_okD(3) [OF k that] None by auto
      then have "x = the (map_option snd (jget (rt_closing (gw_router g)) k))"
        if "(k, x, b) \<in> set (gw_handed g)" "x \<notin> rt_settled (gw_router g)" for x b
        using that by (metis option.sel)
      then show ?thesis by (intro exI [of _ "the (map_option snd (jget (rt_closing (gw_router g)) k))"] subsetI) (clarify, simp)
    qed
  qed
  moreover have "{b. \<exists>k s. (k, s, b) \<in> set (gw_handed g)} \<subseteq> {False}" using ok by (auto simp: gateway_ok_def list_all_iff)
  ultimately show "(\<forall>k. \<exists>live. {s. \<exists>b. (k, s, b) \<in> set (gw_handed g)} - rt_settled (gw_router g) \<subseteq> {live})
      \<and> {b. \<exists>k s. (k, s, b) \<in> set (gw_handed g)} \<subseteq> {False}" by blast
qed

end
