(* ===== verification/Steering.thy ===== *)
theory Steering
  imports AgentLoop
begin

text \<open>
  Guidance that the user sends while a turn runs: the mailbox of \<open>agent/session/SteerMailbox.ts\<close>, its use by
  \<open>agent/session/AgentSession.ts\<close> and the bookkeeping of \<open>agent/turn/TurnRunner.ts\<close> around the loop, as an
  interleaving of requests of the user with the steps of the turn.

  The specification only reads the fields that record what happened to a message; no operation reads them.
\<close>

section \<open>The mailbox\<close>

datatype steer_reason = NoActiveTurn | TurnMismatch | TurnClosing | WasCancelled | TooLate

datatype steer_answer = Granted | Refused steer_reason

record mailbox =
  mb_turnId :: "string option"
  mb_open :: bool
  mb_pending :: "steer_message list"
  mb_seen :: "string set"
  mb_cancelled :: "string set"

definition new_mailbox :: mailbox where
  "new_mailbox = \<lparr>mb_turnId = None, mb_open = False, mb_pending = [], mb_seen = {}, mb_cancelled = {}\<rparr>"

definition no_turn :: "mailbox \<Rightarrow> bool" where
  "no_turn b \<longleftrightarrow> mb_turnId b = None \<or> mb_turnId b = Some []"

definition mailbox_start :: "string \<Rightarrow> mailbox \<Rightarrow> mailbox" where
  "mailbox_start turnId b = \<lparr>mb_turnId = Some turnId, mb_open = True, mb_pending = [], mb_seen = {}, mb_cancelled = {}\<rparr>"

definition mailbox_enqueue :: "string \<Rightarrow> steer_message \<Rightarrow> mailbox \<Rightarrow> steer_answer \<times> mailbox" where
  "mailbox_enqueue turnId st b =
     (if no_turn b then (Refused NoActiveTurn, b)
      else if mb_turnId b \<noteq> Some turnId then (Refused TurnMismatch, b)
      else if \<not> mb_open b then (Refused TurnClosing, b)
      else if sm_itemId st \<in> mb_cancelled b then (Refused WasCancelled, b)
      else if sm_itemId st \<in> mb_seen b then (Granted, b)
      else (Granted, b\<lparr>mb_seen := insert (sm_itemId st) (mb_seen b), mb_pending := mb_pending b @ [st]\<rparr>))"

definition mailbox_cancel :: "string \<Rightarrow> string \<Rightarrow> mailbox \<Rightarrow> steer_answer \<times> mailbox" where
  "mailbox_cancel turnId item b =
     (if no_turn b then (Refused NoActiveTurn, b)
      else if mb_turnId b \<noteq> Some turnId then (Refused TurnMismatch, b)
      else if item \<in> mb_cancelled b then (Granted, b)
      else (case find_index (\<lambda>st. sm_itemId st = item) (mb_pending b) of
              Some i \<Rightarrow> (Granted, b\<lparr>mb_pending := take i (mb_pending b) @ drop (Suc i) (mb_pending b),
                                    mb_cancelled := insert item (mb_cancelled b)\<rparr>)
            | None \<Rightarrow> if item \<in> mb_seen b then (Refused TooLate, b)
                      else (Granted, b\<lparr>mb_cancelled := insert item (mb_cancelled b)\<rparr>)))"

definition mailbox_drain :: "string \<Rightarrow> mailbox \<Rightarrow> steer_message list \<times> mailbox" where
  "mailbox_drain turnId b =
     (if \<not> mb_open b \<or> mb_turnId b \<noteq> Some turnId then ([], b)
      else (mb_pending b, b\<lparr>mb_pending := []\<rparr>))"

definition mailbox_drainOrClose :: "string \<Rightarrow> mailbox \<Rightarrow> (steer_message list \<times> bool) \<times> mailbox" where
  "mailbox_drainOrClose turnId b =
     (if \<not> mb_open b \<or> mb_turnId b \<noteq> Some turnId then (([], True), b)
      else if mb_pending b \<noteq> [] then ((mb_pending b, False), b\<lparr>mb_pending := []\<rparr>)
      else (([], True), b\<lparr>mb_open := False\<rparr>))"

definition mailbox_close :: "string \<Rightarrow> mailbox \<Rightarrow> steer_message list \<times> mailbox" where
  "mailbox_close turnId b =
     (if mb_turnId b \<noteq> Some turnId then ([], b)
      else (mb_pending b, b\<lparr>mb_open := False, mb_pending := []\<rparr>))"

definition mailbox_finish :: "string \<Rightarrow> mailbox \<Rightarrow> steer_message list \<times> mailbox" where
  "mailbox_finish turnId b =
     (if mb_turnId b \<noteq> Some turnId then ([], b)
      else (mb_pending b, \<lparr>mb_turnId = None, mb_open = False, mb_pending = [], mb_seen = {}, mb_cancelled = {}\<rparr>))"

section \<open>The turn around it\<close>

text \<open>Where the turn of a session is: none, one that is being prepared, one in its loop, one whose loop is over.\<close>

datatype turn_phase = Idle | Preparing | Looping | LoopOver

record session =
  ss_running :: bool \<comment> \<open>the status is \<open>running\<close>\<close>
  ss_currentTurnId :: "string option"
  ss_phase :: turn_phase
  ss_box :: mailbox
  ss_unacknowledged :: "(string \<times> steer_message) list"
  ss_inFlight :: "steer_message list" \<comment> \<open>drained, and being applied one by one\<close>
  ss_messages :: "message list" \<comment> \<open>what the runner adds to its history\<close>
  ss_accepted :: "steer_message list"
  ss_retracted :: "steer_message list"
  ss_applied :: "steer_message list"
  ss_reported :: "steer_message list"
  ss_dropped :: "steer_message list"
  ss_cutShort :: bool

definition new_session :: session where
  "new_session = \<lparr>ss_running = False, ss_currentTurnId = None, ss_phase = Idle, ss_box = new_mailbox, ss_unacknowledged = [],
     ss_inFlight = [], ss_messages = [], ss_accepted = [], ss_retracted = [], ss_applied = [], ss_reported = [], ss_dropped = [],
     ss_cutShort = False\<rparr>"

definition has_turn :: "session \<Rightarrow> bool" where
  "has_turn s \<longleftrightarrow> ss_running s \<and> ss_currentTurnId s \<noteq> None \<and> ss_currentTurnId s \<noteq> Some []"

definition session_steer :: "string \<Rightarrow> steer_message \<Rightarrow> session \<Rightarrow> steer_answer \<times> session" where
  "session_steer turnId st s =
     (if \<not> has_turn s then (Refused NoActiveTurn, s)
      else (let (a, b) = mailbox_enqueue turnId st (ss_box s)
            in (a, s\<lparr>ss_box := b, ss_accepted := ss_accepted s @ drop (length (mb_pending (ss_box s))) (mb_pending b)\<rparr>)))"

definition session_cancelSteer :: "string \<Rightarrow> string \<Rightarrow> session \<Rightarrow> steer_answer \<times> session" where
  "session_cancelSteer turnId item s =
     (if \<not> has_turn s then (Refused NoActiveTurn, s)
      else (let (a, b) = mailbox_cancel turnId item (ss_box s)
            in (a, s\<lparr>ss_box := b, ss_retracted := ss_retracted s @ filter (\<lambda>st. st \<notin> set (mb_pending b)) (mb_pending (ss_box s))\<rparr>)))"

text \<open>\<open>run\<close> opens the mailbox when the loop is about to start.\<close>

definition open_turn :: "session \<Rightarrow> session" where
  "open_turn s =
     s\<lparr>ss_phase := Looping, ss_box := mailbox_start (the (ss_currentTurnId s)) (ss_box s), ss_unacknowledged := [], ss_inFlight := [],
       ss_messages := [], ss_accepted := [], ss_retracted := [], ss_applied := [], ss_reported := [], ss_dropped := [], ss_cutShort := False\<rparr>"

definition trackDrainedSteers :: "steer_message list \<Rightarrow> session \<Rightarrow> session" where
  "trackDrainedSteers sts s = s\<lparr>ss_unacknowledged := fold (\<lambda>st. jset (sm_itemId st) st) sts (ss_unacknowledged s)\<rparr>"

definition loop_drain :: "session \<Rightarrow> session" where
  "loop_drain s = (let (sts, b) = mailbox_drain (the (ss_currentTurnId s)) (ss_box s)
                   in trackDrainedSteers sts (s\<lparr>ss_box := b, ss_inFlight := sts\<rparr>))"

definition loop_drainOrClose :: "session \<Rightarrow> session" where
  "loop_drainOrClose s = (let ((sts, closed), b) = mailbox_drainOrClose (the (ss_currentTurnId s)) (ss_box s)
                          in trackDrainedSteers sts (s\<lparr>ss_box := b, ss_inFlight := sts\<rparr>))"

text \<open>\<open>onSteerApplied\<close>, called for each drained message once it is in the transcript.\<close>

definition onSteerApplied :: "string \<Rightarrow> session \<Rightarrow> session" where
  "onSteerApplied item s =
     (case jget (ss_unacknowledged s) item of
        None \<Rightarrow> s\<lparr>ss_unacknowledged := jdelete item (ss_unacknowledged s)\<rparr>
      | Some st \<Rightarrow> s\<lparr>ss_messages := ss_messages s @ [sm_message st], ss_unacknowledged := jdelete item (ss_unacknowledged s)\<rparr>)"

definition apply_next :: "session \<Rightarrow> session" where
  "apply_next s =
     (case ss_inFlight s of
        [] \<Rightarrow> s
      | st # sts \<Rightarrow> (onSteerApplied (sm_itemId st) s)\<lparr>ss_inFlight := sts, ss_applied := ss_applied s @ [st]\<rparr>)"

text \<open>\<open>closeSteerMailbox\<close> gives the messages for which \<open>steer_unapplied\<close> is to be sent.\<close>

definition closeSteerMailbox :: "session \<Rightarrow> steer_message list \<times> session" where
  "closeSteerMailbox s =
     (let (sts, b) = mailbox_close (the (ss_currentTurnId s)) (ss_box s)
      in (map snd (fold (\<lambda>st. jset (sm_itemId st) st) sts (ss_unacknowledged s)), s\<lparr>ss_box := b, ss_unacknowledged := []\<rparr>))"

text \<open>The end of the loop, with a result or by an exception. Where the steps after a result fail before the events are
  sent, the handler of the exception closes the mailbox again and sends what that gives.\<close>

definition end_turn :: "bool \<Rightarrow> session \<Rightarrow> session" where
  "end_turn endingFails s =
     (let (sts, s1) = closeSteerMailbox s
      in if endingFails
         then (let (again, s2) = closeSteerMailbox s1
               in s2\<lparr>ss_phase := LoopOver, ss_inFlight := [], ss_reported := ss_reported s @ again, ss_dropped := ss_dropped s @ sts, ss_cutShort := True\<rparr>)
         else s1\<lparr>ss_phase := LoopOver, ss_inFlight := [], ss_reported := ss_reported s @ sts\<rparr>)"

text \<open>The consumer of the events stops: only the \<open>finally\<close> blocks run, and those of the session do not finish the turn.\<close>

definition abandon_turn :: "session \<Rightarrow> session" where
  "abandon_turn s =
     (let (sts, b) = mailbox_close (the (ss_currentTurnId s)) (ss_box s)
      in s\<lparr>ss_phase := Idle, ss_box := b, ss_unacknowledged := [], ss_inFlight := [],
           ss_dropped := ss_dropped s @ map snd (ss_unacknowledged s) @ sts, ss_cutShort := True\<rparr>)"

text \<open>The end of \<open>submitTurn\<close>: what the mailbox still held would be lost here.\<close>

definition finish_submit :: "session \<Rightarrow> session" where
  "finish_submit s =
     (let (sts, b) = mailbox_finish (the (ss_currentTurnId s)) (ss_box s)
      in s\<lparr>ss_phase := Idle, ss_running := False, ss_currentTurnId := None, ss_box := b, ss_dropped := ss_dropped s @ sts\<rparr>)"

section \<open>Interleavings\<close>

text \<open>Turns of a session follow one another; requests of the user come at any time between two of their steps.\<close>

inductive session_step :: "session \<Rightarrow> session \<Rightarrow> bool" where
  submit: "ss_phase s = Idle \<Longrightarrow>
    session_step s (s\<lparr>ss_phase := Preparing, ss_running := True, ss_currentTurnId := Some turnId\<rparr>)"
| loop_starts: "ss_phase s = Preparing \<Longrightarrow> session_step s (open_turn s)"
| fails_before: "ss_phase s = Preparing \<Longrightarrow> session_step s (s\<lparr>ss_phase := LoopOver\<rparr>)"
| stops_before: "ss_phase s = Preparing \<Longrightarrow> session_step s (s\<lparr>ss_phase := Idle\<rparr>)"
| steer: "session_step s (snd (session_steer turnId st s))"
| cancel: "session_step s (snd (session_cancelSteer turnId item s))"
| abort: "session_step s (s\<lparr>ss_running := False\<rparr>)"
| drain: "ss_phase s = Looping \<Longrightarrow> ss_inFlight s = [] \<Longrightarrow> session_step s (loop_drain s)"
| drain_or_close: "ss_phase s = Looping \<Longrightarrow> ss_inFlight s = [] \<Longrightarrow> session_step s (loop_drainOrClose s)"
| applies: "ss_phase s = Looping \<Longrightarrow> session_step s (apply_next s)"
| loop_ends: "ss_phase s = Looping \<Longrightarrow> session_step s (end_turn endingFails s)"
| abandoned: "ss_phase s = Looping \<Longrightarrow> session_step s (abandon_turn s)"
| finishes: "ss_phase s = LoopOver \<Longrightarrow> session_step s (finish_submit s)"


section \<open>What became of a message\<close>

definition fates :: "session \<Rightarrow> steer_message list" where
  "fates s = ss_retracted s @ ss_applied s @ ss_reported s @ ss_dropped s @ mb_pending (ss_box s) @ map snd (ss_unacknowledged s)"

definition keyed :: "(string \<times> steer_message) list \<Rightarrow> bool" where
  "keyed m \<longleftrightarrow> m = map (\<lambda>st. (sm_itemId st, st)) (map snd m)"

definition item_ids :: "steer_message list \<Rightarrow> string set" where
  "item_ids sts = sm_itemId ` set sts"

definition steering_ok :: "session \<Rightarrow> bool" where
  "steering_ok s \<longleftrightarrow>
     distinct (map sm_itemId (ss_accepted s)) \<and> mset (ss_accepted s) = mset (fates s)
     \<and> keyed (ss_unacknowledged s) \<and> distinct (ss_inFlight s) \<and> set (ss_inFlight s) \<subseteq> set (map snd (ss_unacknowledged s))
     \<and> ss_messages s = map sm_message (ss_applied s)
     \<and> (mb_turnId (ss_box s) = None \<or> mb_seen (ss_box s) = item_ids (ss_accepted s))
     \<and> mb_cancelled (ss_box s) \<inter> item_ids (ss_accepted s) \<subseteq> item_ids (ss_retracted s)
     \<and> (if ss_phase s = Looping then ss_currentTurnId s \<noteq> None \<and> mb_turnId (ss_box s) = ss_currentTurnId s
        else mb_pending (ss_box s) = [] \<and> ss_unacknowledged s = [] \<and> ss_inFlight s = [] \<and> \<not> mb_open (ss_box s))
     \<and> (ss_phase s = Preparing \<longrightarrow> ss_currentTurnId s \<noteq> None)
     \<and> (ss_cutShort s \<or> ss_dropped s = [])"

lemma distinct_map_mset: "mset xs = mset ys \<Longrightarrow> distinct (map f xs) \<longleftrightarrow> distinct (map f ys)"
  by (metis mset_map mset_eq_imp_distinct_iff)

lemma steering_distinct: "steering_ok s \<Longrightarrow> distinct (map sm_itemId (fates s))"
  unfolding steering_ok_def using distinct_map_mset by metis

lemma keyed_Nil [simp]: "keyed []"
  by (simp add: keyed_def)

lemma keyed_Cons [simp]: "keyed (p # m) \<longleftrightarrow> fst p = sm_itemId (snd p) \<and> keyed m"
  by (cases p) (auto simp: keyed_def)

lemma keyed_append [simp]: "keyed (m @ n) \<longleftrightarrow> keyed m \<and> keyed n"
  by (induction m) auto

lemma keyed_keys: "keyed m \<Longrightarrow> jkeys m = map sm_itemId (map snd m)"
  by (induction m) auto

lemma keyed_made [simp]: "keyed (map (\<lambda>st. (sm_itemId st, st)) sts)"
  by (induction sts) auto

text \<open>Tracking messages the map does not have puts them behind the others.\<close>

lemma track_fresh:
  "distinct (map sm_itemId sts) \<Longrightarrow> sm_itemId ` set sts \<inter> set (jkeys m) = {} \<Longrightarrow>
   fold (\<lambda>st. jset (sm_itemId st) st) sts m = m @ map (\<lambda>st. (sm_itemId st, st)) sts"
proof (induction sts arbitrary: m)
  case (Cons st sts)
  then have fresh: "sm_itemId st \<notin> set (jkeys m)" by auto
  have "sm_itemId ` set sts \<inter> set (jkeys (m @ [(sm_itemId st, st)])) = {}" using Cons.prems by auto
  then show ?case using Cons.IH [of "m @ [(sm_itemId st, st)]"] Cons.prems(1) fresh by (simp add: jset_new)
qed simp

lemma acknowledge_mset:
  "keyed m \<Longrightarrow> distinct (jkeys m) \<Longrightarrow> st \<in> set (map snd m) \<Longrightarrow>
   jget m (sm_itemId st) = Some st \<and> keyed (jdelete (sm_itemId st) m)
   \<and> mset (map snd m) = add_mset st (mset (map snd (jdelete (sm_itemId st) m)))"
proof (induction m)
  case (Cons p m)
  show ?case
  proof (cases "snd p = st")
    case True
    then have "sm_itemId st \<notin> set (jkeys m)" using Cons.prems by auto
    then show ?thesis using Cons.prems True by (simp add: delete_id image_iff)
  next
    case False
    then have st: "st \<in> set (map snd m)" using Cons.prems by auto
    then have "sm_itemId st \<in> set (jkeys m)" using Cons.prems keyed_keys [of m] by auto
    then have "fst p \<noteq> sm_itemId st" using Cons.prems(2) by (metis distinct.simps(2) list.simps(9))
    then show ?thesis using Cons.IH st Cons.prems by auto
  qed
qed simp


section \<open>Every step keeps the account\<close>

lemma new_ok: "steering_ok new_session"
  by (simp add: steering_ok_def new_session_def new_mailbox_def fates_def item_ids_def)

lemma open_ok: "steering_ok s \<Longrightarrow> ss_phase s = Preparing \<Longrightarrow> steering_ok (open_turn s)"
  by (auto simp: steering_ok_def open_turn_def mailbox_start_def fates_def item_ids_def)

lemma steer_ok: "steering_ok s \<Longrightarrow> steering_ok (snd (session_steer turnId st s))"
proof -
  assume ok: "steering_ok s"
  show ?thesis
  proof (cases "has_turn s \<and> \<not> no_turn (ss_box s) \<and> mb_turnId (ss_box s) = Some turnId \<and> mb_open (ss_box s)
      \<and> sm_itemId st \<notin> mb_cancelled (ss_box s) \<and> sm_itemId st \<notin> mb_seen (ss_box s)")
    case True
    then have "ss_phase s = Looping" using ok by (auto simp: steering_ok_def split: if_splits)
    then show ?thesis
      using ok True by (auto simp: steering_ok_def session_steer_def mailbox_enqueue_def fates_def item_ids_def)
  next
    case False
    then have "snd (session_steer turnId st s) = s"
      by (auto simp: session_steer_def mailbox_enqueue_def)
    then show ?thesis using ok by simp
  qed
qed

lemma take_drop_find:
  assumes "find_index (\<lambda>st. sm_itemId st = item) xs = Some i" "distinct (map sm_itemId xs)"
  shows "take i xs @ drop (Suc i) xs = filter (\<lambda>st. sm_itemId st \<noteq> item) xs"
    and "filter (\<lambda>st. st \<in> set xs \<longrightarrow> sm_itemId st = item) xs = [xs ! i]" and "sm_itemId (xs ! i) = item"
    and "mset xs = add_mset (xs ! i) (mset (filter (\<lambda>st. sm_itemId st \<noteq> item) xs))"
proof -
  have i: "i < length xs" "sm_itemId (xs ! i) = item" using find_index_Some [OF assms(1)] by auto
  have xs: "xs = take i xs @ xs ! i # drop (Suc i) xs" using i(1) by (rule id_take_nth_drop)
  have "item \<notin> set (map sm_itemId (take i xs @ drop (Suc i) xs))" using assms(2) i(2) by (subst (asm) xs) auto
  then have others: "\<forall>st \<in> set (take i xs @ drop (Suc i) xs). sm_itemId st \<noteq> item" by (auto simp: image_iff)
  have keep: "filter (\<lambda>st. sm_itemId st \<noteq> item) xs = take i xs @ drop (Suc i) xs"
    using others i(2) by (subst xs) (auto simp: filter_id_conv)
  show "take i xs @ drop (Suc i) xs = filter (\<lambda>st. sm_itemId st \<noteq> item) xs" by (rule keep [symmetric])
  show "sm_itemId (xs ! i) = item" by (rule i(2))
  have "filter (\<lambda>st. st \<in> set xs \<longrightarrow> sm_itemId st = item) xs = filter (\<lambda>st. sm_itemId st = item) xs"
    by (rule filter_cong) auto
  also have "\<dots> = [xs ! i]" using others i(2) by (subst xs) (auto simp: filter_empty_conv)
  finally show "filter (\<lambda>st. st \<in> set xs \<longrightarrow> sm_itemId st = item) xs = [xs ! i]" .
  show "mset xs = add_mset (xs ! i) (mset (filter (\<lambda>st. sm_itemId st \<noteq> item) xs))"
    unfolding keep by (subst xs) simp
qed

lemma retract_ok:
  assumes "steering_ok s" "ss_phase s = Looping" "mset (mb_pending (ss_box s)) = add_mset st (mset p)"
  shows "steering_ok (s\<lparr>ss_box := (ss_box s)\<lparr>mb_pending := p, mb_cancelled := insert (sm_itemId st) (mb_cancelled (ss_box s))\<rparr>,
    ss_retracted := ss_retracted s @ [st]\<rparr>)"
  using assms by (auto simp: steering_ok_def fates_def item_ids_def)

lemma cancel_ok: "steering_ok s \<Longrightarrow> steering_ok (snd (session_cancelSteer turnId item s))"
proof -
  assume ok: "steering_ok s"
  let ?b = "ss_box s"
  have dist: "distinct (map sm_itemId (mb_pending ?b))" using steering_distinct [OF ok] by (simp add: fates_def)
  show ?thesis
  proof (cases "has_turn s \<and> \<not> no_turn ?b \<and> mb_turnId ?b = Some turnId \<and> item \<notin> mb_cancelled ?b")
    case True
    show ?thesis
    proof (cases "find_index (\<lambda>st. sm_itemId st = item) (mb_pending ?b)")
      case None
      show ?thesis
      proof (cases "item \<in> mb_seen ?b")
        case False
        then have "item \<notin> item_ids (ss_accepted s)" using ok True by (auto simp: steering_ok_def)
        then show ?thesis
          using ok True None False
          by (auto simp: steering_ok_def session_cancelSteer_def mailbox_cancel_def fates_def split: if_splits)
      qed (use ok True None in \<open>auto simp: session_cancelSteer_def mailbox_cancel_def steering_ok_def fates_def\<close>)
    next
      case (Some i)
      note cut = take_drop_find [OF Some dist]
      have "ss_phase s = Looping" using ok Some by (auto simp: steering_ok_def split: if_splits)
      from retract_ok [OF ok this cut(4)] show ?thesis
        using True Some by (simp add: session_cancelSteer_def mailbox_cancel_def cut(1-3))
    qed
  next
    case False
    then have "mailbox_cancel turnId item ?b = (fst (mailbox_cancel turnId item ?b), ?b) \<or> \<not> has_turn s"
      by (auto simp: mailbox_cancel_def)
    then show ?thesis using ok by (auto simp: session_cancelSteer_def steering_ok_def fates_def split: prod.splits)
  qed
qed


lemma track_ok:
  assumes "steering_ok s" "ss_phase s = Looping" "ss_inFlight s = []"
  shows "steering_ok (trackDrainedSteers (mb_pending (ss_box s)) (s\<lparr>ss_box := (ss_box s)\<lparr>mb_pending := []\<rparr>, ss_inFlight := mb_pending (ss_box s)\<rparr>))"
proof -
  let ?p = "mb_pending (ss_box s)" and ?m = "ss_unacknowledged s"
  have d: "distinct (map sm_itemId (?p @ map snd ?m))" using steering_distinct [OF assms(1)] by (simp add: fates_def)
  have keys: "jkeys ?m = map sm_itemId (map snd ?m)" using assms(1) by (intro keyed_keys) (simp add: steering_ok_def)
  have "fold (\<lambda>st. jset (sm_itemId st) st) ?p ?m = ?m @ map (\<lambda>st. (sm_itemId st, st)) ?p"
    using d by (intro track_fresh) (auto simp: keys)
  moreover have "distinct ?p" using d by (simp add: distinct_map)
  ultimately show ?thesis
    using assms by (auto simp: steering_ok_def trackDrainedSteers_def fates_def comp_def image_Un)
qed

lemma nothing_drained: "steering_ok s \<Longrightarrow> steering_ok (s\<lparr>ss_inFlight := []\<rparr>)"
  by (simp add: steering_ok_def fates_def)

lemma close_empty:
  "steering_ok s \<Longrightarrow> ss_phase s = Looping \<Longrightarrow> steering_ok (s\<lparr>ss_box := (ss_box s)\<lparr>mb_open := False\<rparr>, ss_inFlight := []\<rparr>)"
  by (auto simp: steering_ok_def fates_def)

lemma guidance_drain_ok: "steering_ok s \<Longrightarrow> ss_phase s = Looping \<Longrightarrow> ss_inFlight s = [] \<Longrightarrow> steering_ok (loop_drain s)"
  using track_ok [of s] nothing_drained [of s]
  by (auto simp: loop_drain_def mailbox_drain_def trackDrainedSteers_def)

lemma drain_or_close_ok:
  "steering_ok s \<Longrightarrow> ss_phase s = Looping \<Longrightarrow> ss_inFlight s = [] \<Longrightarrow> steering_ok (loop_drainOrClose s)"
  using track_ok [of s] close_empty [of s] nothing_drained [of s]
  by (auto simp: loop_drainOrClose_def mailbox_drainOrClose_def trackDrainedSteers_def split: if_splits)

lemma command_ok: "steering_ok s \<Longrightarrow> ss_phase s = Looping \<Longrightarrow> steering_ok (apply_next s)"
proof -
  assume ok: "steering_ok s" and p: "ss_phase s = Looping"
  show ?thesis
  proof (cases "ss_inFlight s")
    case (Cons st sts)
    let ?m = "ss_unacknowledged s"
    have k: "keyed ?m" "st \<in> set (map snd ?m)" "st \<notin> set sts" "set sts \<subseteq> set (map snd ?m)" "distinct sts"
      using ok Cons by (auto simp: steering_ok_def)
    have "distinct (jkeys ?m)" using steering_distinct [OF ok] k(1) by (simp add: fates_def keyed_keys)
    note ack = acknowledge_mset [OF k(1) this k(2)]
    then have "set (map snd ?m) = insert st (set (map snd (jdelete (sm_itemId st) ?m)))"
      by (metis set_mset_add_mset_insert set_mset_mset)
    then have "set sts \<subseteq> set (map snd (jdelete (sm_itemId st) ?m))" using k(3,4) by auto
    then show ?thesis
      using ok p Cons k ack by (auto simp: steering_ok_def apply_next_def onSteerApplied_def fates_def)
  qed (use ok in \<open>simp add: apply_next_def\<close>)
qed

lemma mailbox_close_open: "mb_turnId b = Some t \<Longrightarrow> mailbox_close t b = (mb_pending b, b\<lparr>mb_open := False, mb_pending := []\<rparr>)"
  by (simp add: mailbox_close_def)

lemma closed_account:
  assumes "steering_ok s" "ss_phase s = Looping"
  shows "closeSteerMailbox s = (map snd (ss_unacknowledged s) @ mb_pending (ss_box s),
           s\<lparr>ss_box := (ss_box s)\<lparr>mb_open := False, mb_pending := []\<rparr>, ss_unacknowledged := []\<rparr>)"
proof -
  let ?p = "mb_pending (ss_box s)" and ?m = "ss_unacknowledged s"
  have d: "distinct (map sm_itemId (?p @ map snd ?m))" using steering_distinct [OF assms(1)] by (simp add: fates_def)
  have keys: "jkeys ?m = map sm_itemId (map snd ?m)" using assms(1) by (intro keyed_keys) (simp add: steering_ok_def)
  have "fold (\<lambda>st. jset (sm_itemId st) st) ?p ?m = ?m @ map (\<lambda>st. (sm_itemId st, st)) ?p"
    using d by (intro track_fresh) (auto simp: keys)
  then show ?thesis
    using assms mailbox_close_open by (auto simp: steering_ok_def closeSteerMailbox_def comp_def)
qed

lemma closed_again:
  assumes "steering_ok s" "ss_phase s = Looping"
  shows "fst (closeSteerMailbox (snd (closeSteerMailbox s))) = []"
    and "snd (closeSteerMailbox (snd (closeSteerMailbox s))) = snd (closeSteerMailbox s)"
  unfolding closed_account [OF assms] using assms by (auto simp: steering_ok_def closeSteerMailbox_def mailbox_close_def)

lemma end_ok: "steering_ok s \<Longrightarrow> ss_phase s = Looping \<Longrightarrow> steering_ok (end_turn endingFails s)"
  using closed_account [of s] closed_again [of s]
  by (auto simp: steering_ok_def end_turn_def fates_def split: prod.splits)

lemma abandon_ok: "steering_ok s \<Longrightarrow> ss_phase s = Looping \<Longrightarrow> steering_ok (abandon_turn s)"
  by (auto simp: steering_ok_def abandon_turn_def mailbox_close_def fates_def)

lemma finish_ok: "steering_ok s \<Longrightarrow> ss_phase s = LoopOver \<Longrightarrow> steering_ok (finish_submit s)"
  by (auto simp: steering_ok_def finish_submit_def mailbox_finish_def fates_def)

lemma session_step_ok: "session_step s t \<Longrightarrow> steering_ok s \<Longrightarrow> steering_ok t"
proof (induction rule: session_step.induct)
  case (submit s turnId)
  then show ?case by (auto simp: steering_ok_def fates_def)
next
  case (fails_before s)
  then show ?case by (auto simp: steering_ok_def fates_def)
next
  case (stops_before s)
  then show ?case by (auto simp: steering_ok_def fates_def)
next
  case (abort s)
  then show ?case by (simp add: steering_ok_def fates_def)
qed (simp_all add: open_ok steer_ok cancel_ok guidance_drain_ok drain_or_close_ok command_ok end_ok abandon_ok finish_ok)

interpretation steering: transition_system new_session session_step steering_ok
  using new_ok session_step_ok by unfold_locales

text \<open>C13. No guidance is lost or delivered twice. However requests of the user interleave with the turn, the messages
  accepted for a turn are exactly those retracted, given to the model, reported as not applied, still in the mailbox or on
  their way to the model, each once; what was cancelled is neither given to the model nor reported; once the loop is over
  nothing is left in between; and only a turn whose consumer stopped or whose ending failed drops anything.\<close>

theorem guidance_accounted:
  "{s. session_step\<^sup>*\<^sup>* new_session s}
     \<subseteq> {s. distinct (map sm_itemId (ss_accepted s))
          \<and> mset (ss_accepted s) = mset (ss_retracted s @ ss_applied s @ ss_reported s @ ss_dropped s
                                      @ mb_pending (ss_box s) @ map snd (ss_unacknowledged s))
          \<and> mb_cancelled (ss_box s) \<inter> sm_itemId ` set (ss_applied s @ ss_reported s) = {}
          \<and> ss_messages s = map sm_message (ss_applied s)
          \<and> (ss_phase s = Looping \<or> mb_pending (ss_box s) = [] \<and> ss_unacknowledged s = [])
          \<and> (ss_cutShort s \<or> ss_dropped s = [])}"
proof (rule subsetI, simp only: mem_Collect_eq)
  fix s
  assume "session_step\<^sup>*\<^sup>* new_session s"
  then have ok: "steering_ok s" by (rule steering.invar_reachable)
  have "sm_itemId ` set (ss_retracted s) \<inter> sm_itemId ` set (ss_applied s @ ss_reported s) = {}"
    using steering_distinct [OF ok] by (auto simp: fates_def)
  moreover have "set (ss_applied s @ ss_reported s) \<subseteq> set (ss_accepted s)"
    using ok mset_eq_setD [of "ss_accepted s" "fates s"] by (auto simp: steering_ok_def fates_def)
  ultimately have "mb_cancelled (ss_box s) \<inter> sm_itemId ` set (ss_applied s @ ss_reported s) = {}"
    using ok unfolding steering_ok_def item_ids_def by blast
  then show "distinct (map sm_itemId (ss_accepted s))
      \<and> mset (ss_accepted s) = mset (ss_retracted s @ ss_applied s @ ss_reported s @ ss_dropped s
                                  @ mb_pending (ss_box s) @ map snd (ss_unacknowledged s))
      \<and> mb_cancelled (ss_box s) \<inter> sm_itemId ` set (ss_applied s @ ss_reported s) = {}
      \<and> ss_messages s = map sm_message (ss_applied s)
      \<and> (ss_phase s = Looping \<or> mb_pending (ss_box s) = [] \<and> ss_unacknowledged s = [])
      \<and> (ss_cutShort s \<or> ss_dropped s = [])"
    using ok by (auto simp: steering_ok_def fates_def)
qed


text \<open>The exception is real: guidance accepted just before the end is dropped without a report when the ending fails after
  the mailbox was closed.\<close>

lemma ending_failure_drops:
  "\<exists>s. session_step\<^sup>*\<^sup>* new_session s \<and> ss_phase s = LoopOver \<and> ss_accepted s = [st] \<and> ss_reported s = [] \<and> ss_dropped s = [st]"
proof -
  let ?a = "new_session\<lparr>ss_phase := Preparing, ss_running := True, ss_currentTurnId := Some ''t''\<rparr>"
  let ?b = "open_turn ?a"
  let ?c = "snd (session_steer ''t'' st ?b)"
  have "session_step new_session ?a" by (rule submit) (simp add: new_session_def)
  moreover have "session_step ?a ?b" by (rule loop_starts) simp
  moreover have "session_step ?b ?c" by (rule steer)
  moreover have c: "?c = ?b\<lparr>ss_box := (ss_box ?b)\<lparr>mb_seen := {sm_itemId st}, mb_pending := [st]\<rparr>, ss_accepted := [st]\<rparr>"
    by (simp add: session_steer_def mailbox_enqueue_def no_turn_def has_turn_def open_turn_def mailbox_start_def)
  moreover have "session_step ?c (end_turn True ?c)" by (rule loop_ends, subst c) (simp add: open_turn_def)
  ultimately have "session_step\<^sup>*\<^sup>* new_session (end_turn True ?c)"
    by (meson rtranclp.rtrancl_into_rtrancl rtranclp.rtrancl_refl)
  moreover have "ss_phase (end_turn True ?c) = LoopOver \<and> ss_accepted (end_turn True ?c) = [st]
      \<and> ss_reported (end_turn True ?c) = [] \<and> ss_dropped (end_turn True ?c) = [st]"
    unfolding c by (simp add: end_turn_def closeSteerMailbox_def mailbox_close_def open_turn_def mailbox_start_def)
  ultimately show ?thesis by blast
qed

end
