(* ===== verification/Transcript.thy ===== *)
theory Transcript
  imports AgentLoop
begin

text \<open>
  The transcript of a session on disk: the entries of \<open>session/transcript/TranscriptEntry.ts\<close>, the writer of
  \<open>JsonlTranscriptWriter.ts\<close>, which appends one line of JSON per entry, the reader of \<open>TranscriptReader.ts\<close>, and the
  way \<open>session/resume/resumeAgentSession.ts\<close> goes on with a transcript, under crashes and failing appends.

  Parameters: \<open>enc\<close> is \<open>JSON.stringify\<close> on an entry and \<open>dec\<close> is \<open>JSON.parse\<close> followed by the type of the entries;
  \<open>locale_le\<close> is the order of \<open>localeCompare\<close>. What is used of JSON is \<open>json_text\<close>: a text is read back as what it was
  written from, has no line break and no blank at its ends, and a part of it that breaks off is not JSON.
\<close>

section \<open>Entries\<close>

datatype entry_body =
    AcceptedInput "message list" "(string \<times> js_value) list" \<comment> \<open>the metadata, empty when left out\<close>
  | AssistantMessage message
  | ToolResultMessage message
  | DurableMessage message
  | AgentStatusMessage string string string "(string \<times> js_value) list"
  | FileArtifacts "js_value list"
  | TurnResultEntry turn_result
  | ControlBoundary js_value
  | SessionMetadata "(string \<times> js_value) list"
  | SubagentStarted string string string bool string "string option"
  | SubagentCompleted string string string bool js_value int int "bool option"

record entry =
  te_sessionId :: string
  te_turnId :: string
  te_sequence :: nat
  te_createdAt :: string
  te_entryId :: "string option"
  te_parentEntryId :: "string option"
  te_body :: entry_body

fun has_result_block :: "block list \<Rightarrow> bool" where
  "has_result_block [] = False"
| "has_result_block (ToolResultB r # bs) = True"
| "has_result_block (b # bs) = has_result_block bs"

definition classifyDurableMessageEntry :: "message \<Rightarrow> entry_body" where
  "classifyDurableMessageEntry m =
     (if role m = Assistant then AssistantMessage m
      else if has_result_block (content m) then ToolResultMessage m else DurableMessage m)"

text \<open>The length of a text in UTF-8, on code units below 256.\<close>

definition utf8_length :: "char \<Rightarrow> nat" where
  "utf8_length c = (if (of_char c :: nat) < 128 then 1 else 2)"

definition byteLength :: "string \<Rightarrow> nat" where
  "byteLength s = sum_list (map utf8_length s)"

fun preview_from :: "nat \<Rightarrow> nat \<Rightarrow> string \<Rightarrow> string" where
  "preview_from bytes cap [] = []"
| "preview_from bytes cap (ch # s) =
     (if bytes + utf8_length ch > cap then [] else ch # preview_from (bytes + utf8_length ch) cap s)"

definition truncatePreview :: "string \<Rightarrow> nat \<Rightarrow> string \<times> bool" where
  "truncatePreview input byteCap =
     (if byteLength input \<le> byteCap then (input, False) else (preview_from 0 byteCap input, True))"

definition SUBAGENT_PROMPT_PREVIEW_BYTES :: nat where "SUBAGENT_PROMPT_PREVIEW_BYTES = 1024"
definition SUBAGENT_SUMMARY_PREVIEW_BYTES :: nat where "SUBAGENT_SUMMARY_PREVIEW_BYTES = 4 * 1024"

definition subagent_started :: "string \<Rightarrow> string \<Rightarrow> string \<Rightarrow> string \<Rightarrow> string option \<Rightarrow> entry_body" where
  "subagent_started subagentId subagentType prompt path subSession =
     (let (preview, truncated) = truncatePreview prompt SUBAGENT_PROMPT_PREVIEW_BYTES
      in SubagentStarted subagentId subagentType preview truncated path subSession)"

definition subagent_completed :: "string \<Rightarrow> string \<Rightarrow> string \<Rightarrow> js_value \<Rightarrow> int \<Rightarrow> int \<Rightarrow> bool option \<Rightarrow> entry_body" where
  "subagent_completed subagentId subagentType summary usg turns durationMs errored =
     (let (preview, truncated) = truncatePreview summary SUBAGENT_SUMMARY_PREVIEW_BYTES
      in SubagentCompleted subagentId subagentType preview truncated usg turns durationMs errored)"

section \<open>The writer\<close>

text \<open>The queue is the part of the promise chain that is still to run; a failed append rejects all that is behind it.\<close>

record jsonl_writer =
  jw_sequence :: nat
  jw_closed :: bool
  jw_lastEntryId :: "string option"
  jw_tailPrepared :: bool
  jw_queue :: "entry list"
  jw_failed :: bool

definition new_writer :: jsonl_writer where
  "new_writer = \<lparr>jw_sequence = 0, jw_closed = False, jw_lastEntryId = None, jw_tailPrepared = False, jw_queue = [], jw_failed = False\<rparr>"

definition restoreState :: "nat \<Rightarrow> string option \<Rightarrow> jsonl_writer \<Rightarrow> jsonl_writer" where
  "restoreState maxSequence lastId w = w\<lparr>jw_sequence := maxSequence, jw_lastEntryId := lastId\<rparr>"

definition baseEntry :: "string \<Rightarrow> string \<Rightarrow> string \<Rightarrow> string \<Rightarrow> entry_body \<Rightarrow> jsonl_writer \<Rightarrow> entry \<times> jsonl_writer" where
  "baseEntry sessionId turnId now uuid body w =
     (let w1 = w\<lparr>jw_sequence := jw_sequence w + 1\<rparr>
      in (\<lparr>te_sessionId = sessionId, te_turnId = turnId, te_sequence = jw_sequence w1, te_createdAt = now,
           te_entryId = Some uuid, te_parentEntryId = jw_lastEntryId w1, te_body = body\<rparr>, w1))"

definition recordEntry :: "entry \<Rightarrow> jsonl_writer \<Rightarrow> jsonl_writer" where
  "recordEntry e w =
     (if jw_closed w then w
      else w\<lparr>jw_sequence := max (jw_sequence w) (te_sequence e),
             jw_lastEntryId := (case te_entryId e of None \<Rightarrow> jw_lastEntryId w | Some i \<Rightarrow> Some i),
             jw_queue := jw_queue w @ [e]\<rparr>)"

definition writer_close :: "jsonl_writer \<Rightarrow> jsonl_writer" where
  "writer_close w = w\<lparr>jw_closed := True\<rparr>"

text \<open>The file is its text, or absent. \<open>prepareTail\<close> ends a line that broke off.\<close>

abbreviation newline :: char where "newline \<equiv> CHR 0x0A"
abbreviation carriage_return :: char where "carriage_return \<equiv> CHR 0x0D"

definition file_text :: "string option \<Rightarrow> string" where
  "file_text f = (case f of None \<Rightarrow> [] | Some s \<Rightarrow> s)"

definition prepareTail :: "string \<Rightarrow> string" where
  "prepareTail s = (if s \<noteq> [] \<and> last s \<noteq> newline then s @ [newline] else s)"

definition prepared :: "jsonl_writer \<Rightarrow> string \<Rightarrow> string" where
  "prepared w s = (if jw_tailPrepared w then s else prepareTail s)"

definition entry_line :: "(entry \<Rightarrow> string) \<Rightarrow> entry \<Rightarrow> string" where
  "entry_line enc e = enc e @ [newline]"

section \<open>The reader\<close>

datatype line_value = NotJson string | WrongShape | EntryValue entry

datatype transcript_diagnostic = TooLarge | Missing | LineInvalid string nat | EntryInvalid nat

definition DEFAULT_MAX_TRANSCRIPT_READ_BYTES :: nat where "DEFAULT_MAX_TRANSCRIPT_READ_BYTES = 50 * 1024 * 1024"

definition chop_return :: "string \<Rightarrow> string" where
  "chop_return l = (if l \<noteq> [] \<and> last l = carriage_return then butlast l else l)"

definition text_lines :: "string \<Rightarrow> string list" where
  "text_lines s = (let ls = split_char newline s in map chop_return (butlast ls) @ [last ls])"

fun read_lines :: "(string \<Rightarrow> line_value) \<Rightarrow> nat \<Rightarrow> string list \<Rightarrow> entry list \<times> transcript_diagnostic list" where
  "read_lines dec index [] = ([], [])"
| "read_lines dec index (l # ls) =
     (let (es, ds) = read_lines dec (Suc index) ls
      in if trim l = [] then (es, ds)
         else (case dec l of
                 NotJson msg \<Rightarrow> (es, LineInvalid msg (index + 1) # ds)
               | WrongShape \<Rightarrow> (es, EntryInvalid (index + 1) # ds)
               | EntryValue e \<Rightarrow> (e # es, ds)))"

definition entry_le :: "(string \<Rightarrow> string \<Rightarrow> bool) \<Rightarrow> entry \<Rightarrow> entry \<Rightarrow> bool" where
  "entry_le locale_le l r =
     (if te_sequence l \<noteq> te_sequence r then te_sequence l < te_sequence r else locale_le (te_createdAt l) (te_createdAt r))"

definition readTranscript ::
    "(string \<Rightarrow> line_value) \<Rightarrow> (string \<Rightarrow> string \<Rightarrow> bool) \<Rightarrow> nat option \<Rightarrow> string option \<Rightarrow> entry list \<times> transcript_diagnostic list" where
  "readTranscript dec locale_le maxBytes f =
     (case f of
        None \<Rightarrow> ([], [Missing])
      | Some s \<Rightarrow>
          if byteLength s > (case maxBytes of None \<Rightarrow> DEFAULT_MAX_TRANSCRIPT_READ_BYTES | Some n \<Rightarrow> n) then ([], [TooLarge])
          else (let (es, ds) = read_lines dec 0 (text_lines s) in (sort_by (entry_le locale_le) es, ds)))"

text \<open>What \<open>resumeAgentSession\<close> gives the writer of the resumed session.\<close>

definition resumed_writer :: "entry list \<Rightarrow> jsonl_writer" where
  "resumed_writer es =
     (if es = [] then new_writer
      else restoreState (foldl (\<lambda>m e. max m (te_sequence e)) 0 es) (te_entryId (last es)) new_writer)"

section \<open>Runs with crashes\<close>

text \<open>The world: the file, the writer of the running process if there is one, and a record of what was written. What was
  \<open>durable\<close> when the writer was made, what it was given and what of it reached the file; and all that was acknowledged.\<close>

record transcript_world =
  tw_file :: "string option"
  tw_writer :: "jsonl_writer option"
  tw_before :: "entry list"
  tw_recorded :: "entry list"
  tw_written :: "entry list"
  tw_acknowledged :: "entry list"

definition new_world :: transcript_world where
  "new_world = \<lparr>tw_file = None, tw_writer = None, tw_before = [], tw_recorded = [], tw_written = [], tw_acknowledged = []\<rparr>"

definition durable :: "transcript_world \<Rightarrow> entry list" where
  "durable w = tw_before w @ tw_written w"

definition record_new :: "string \<Rightarrow> string \<Rightarrow> string \<Rightarrow> string \<Rightarrow> entry_body \<Rightarrow> jsonl_writer \<Rightarrow> entry \<times> jsonl_writer" where
  "record_new sessionId turnId now uuid body w =
     (let (e, w1) = baseEntry sessionId turnId now uuid body w in (e, recordEntry e w1))"

text \<open>An append that breaks off leaves a part of its line: the entry survives if all of its text is there.\<close>

definition broken_off :: "(entry \<Rightarrow> string) \<Rightarrow> entry \<Rightarrow> string \<Rightarrow> entry list" where
  "broken_off enc e p = (if prefix (enc e) p then [e] else [])"

inductive transcript_step ::
    "(entry \<Rightarrow> string) \<Rightarrow> (string \<Rightarrow> line_value) \<Rightarrow> (string \<Rightarrow> string \<Rightarrow> bool) \<Rightarrow> entry set \<Rightarrow> transcript_world \<Rightarrow> transcript_world \<Rightarrow> bool"
    for enc dec locale_le E where
  opens: "tw_writer w = None \<Longrightarrow> byteLength (file_text (tw_file w)) \<le> DEFAULT_MAX_TRANSCRIPT_READ_BYTES \<Longrightarrow>
    transcript_step enc dec locale_le E w
      (w\<lparr>tw_writer := Some (resumed_writer (fst (readTranscript dec locale_le None (tw_file w)))),
         tw_before := durable w, tw_recorded := [], tw_written := []\<rparr>)"
| records: "tw_writer w = Some j \<Longrightarrow> record_new sessionId turnId now uuid body j = (e, j') \<Longrightarrow> e \<in> E \<Longrightarrow>
    Some uuid \<notin> te_entryId ` set (tw_before w @ tw_recorded w) \<Longrightarrow>
    transcript_step enc dec locale_le E w
      (w\<lparr>tw_writer := Some j', tw_recorded := (if jw_closed j then tw_recorded w else tw_recorded w @ [e])\<rparr>)"
| appends: "tw_writer w = Some j \<Longrightarrow> jw_queue j = e # q \<Longrightarrow> \<not> jw_failed j \<Longrightarrow> \<not> jw_closed j \<Longrightarrow>
    transcript_step enc dec locale_le E w
      (w\<lparr>tw_writer := Some (j\<lparr>jw_queue := q, jw_tailPrepared := True\<rparr>),
         tw_file := Some (prepared j (file_text (tw_file w)) @ entry_line enc e),
         tw_written := tw_written w @ [e], tw_acknowledged := tw_acknowledged w @ [e]\<rparr>)"
| skips: "tw_writer w = Some j \<Longrightarrow> jw_queue j = e # q \<Longrightarrow> jw_failed j \<or> jw_closed j \<Longrightarrow>
    transcript_step enc dec locale_le E w (w\<lparr>tw_writer := Some (j\<lparr>jw_queue := q\<rparr>)\<rparr>)"
| cannot_open: "tw_writer w = Some j \<Longrightarrow> jw_queue j = e # q \<Longrightarrow>
    transcript_step enc dec locale_le E w (w\<lparr>tw_writer := Some (j\<lparr>jw_queue := q, jw_failed := True\<rparr>)\<rparr>)"
| append_fails: "tw_writer w = Some j \<Longrightarrow> jw_queue j = e # q \<Longrightarrow> \<not> jw_failed j \<Longrightarrow> \<not> jw_closed j \<Longrightarrow> prefix p (entry_line enc e) \<Longrightarrow>
    transcript_step enc dec locale_le E w
      (w\<lparr>tw_writer := Some (j\<lparr>jw_queue := q, jw_failed := True\<rparr>),
         tw_file := Some (prepared j (file_text (tw_file w)) @ p), tw_written := tw_written w @ broken_off enc e p\<rparr>)"
| closes: "tw_writer w = Some j \<Longrightarrow> transcript_step enc dec locale_le E w (w\<lparr>tw_writer := Some (writer_close j)\<rparr>)"
| crashes: "transcript_step enc dec locale_le E w (w\<lparr>tw_writer := None\<rparr>)"
| crashes_in_append: "tw_writer w = Some j \<Longrightarrow> jw_queue j = e # q \<Longrightarrow> \<not> jw_failed j \<Longrightarrow> \<not> jw_closed j \<Longrightarrow> prefix p (entry_line enc e) \<Longrightarrow>
    transcript_step enc dec locale_le E w
      (w\<lparr>tw_writer := None, tw_file := Some (prepared j (file_text (tw_file w)) @ p), tw_written := tw_written w @ broken_off enc e p\<rparr>)"


section \<open>Lines\<close>

definition json_text :: "(entry \<Rightarrow> string) \<Rightarrow> (string \<Rightarrow> line_value) \<Rightarrow> entry \<Rightarrow> bool" where
  "json_text enc dec e \<longleftrightarrow>
     dec (enc e) = EntryValue e \<and> trim (enc e) \<noteq> [] \<and> newline \<notin> set (enc e) \<and> carriage_return \<notin> set (enc e)
     \<and> (\<forall>p. strict_prefix p (enc e) \<longrightarrow> trim p = [] \<or> (\<exists>msg. dec p = NotJson msg))"

text \<open>The entries of a text, in its order.\<close>

definition line_entries :: "(string \<Rightarrow> line_value) \<Rightarrow> string \<Rightarrow> entry list" where
  "line_entries dec l = (if trim l = [] then [] else (case dec l of EntryValue e \<Rightarrow> [e] | _ \<Rightarrow> []))"

definition text_entries :: "(string \<Rightarrow> line_value) \<Rightarrow> string \<Rightarrow> entry list" where
  "text_entries dec s = concat (map (line_entries dec) (split_char newline s))"

lemma split_char_app: "split_char d (a @ d # b) = split_char d a @ split_char d b"
proof (induction a)
  case (Cons c a)
  then show ?case by (cases "split_char d a") auto
qed simp

lemma split_char_subset: "w \<in> set (split_char d s) \<Longrightarrow> set w \<subseteq> set s"
  by (induction s arbitrary: w) (fastforce split: if_splits list.splits)+

lemma text_lines_plain: "carriage_return \<notin> set s \<Longrightarrow> text_lines s = split_char newline s"
proof -
  assume no: "carriage_return \<notin> set s"
  have "chop_return l = l" if "l \<in> set (split_char newline s)" for l
  proof -
    have "carriage_return \<notin> set l" using split_char_subset [OF that] no by blast
    then have "l = [] \<or> last l \<noteq> carriage_return" using last_in_set [of l] by metis
    then show ?thesis by (auto simp: chop_return_def)
  qed
  then have "map chop_return (butlast (split_char newline s)) = butlast (split_char newline s)"
    by (intro map_idI) (auto dest: in_set_butlastD)
  then show ?thesis by (simp add: text_lines_def Let_def)
qed

lemma read_lines_entries: "fst (read_lines dec i ls) = concat (map (line_entries dec) ls)"
proof (induction ls arbitrary: i)
  case (Cons l ls)
  show ?case
    using Cons.IH [of "Suc i"] by (cases "read_lines dec (Suc i) ls") (simp add: line_entries_def split: line_value.split)
qed simp

lemma text_entries_Nil [simp]: "text_entries dec [] = []"
  by (simp add: text_entries_def line_entries_def)

lemma text_entries_line: "newline \<notin> set s \<Longrightarrow> text_entries dec s = line_entries dec s"
proof -
  assume "newline \<notin> set s"
  then have "split_char newline s = [s]" by (induction s) auto
  then show ?thesis by (simp add: text_entries_def)
qed

lemma text_entries_append: "text_entries dec (a @ newline # b) = text_entries dec a @ text_entries dec b"
  by (simp add: text_entries_def split_char_app)

definition line_ends :: "string \<Rightarrow> bool" where
  "line_ends s \<longleftrightarrow> s = [] \<or> last s = newline"

lemma text_entries_ends: "line_ends s \<Longrightarrow> text_entries dec (s @ t) = text_entries dec s @ text_entries dec t"
proof (cases "s = []")
  case False
  assume "line_ends s"
  then obtain a where s: "s = a @ newline # []" using False by (metis append_butlast_last_id line_ends_def)
  show ?thesis using text_entries_append [of dec a t] text_entries_append [of dec a "[]"] by (simp add: s)
qed simp

lemma prepareTail_ends: "line_ends (prepareTail s)"
  by (simp add: prepareTail_def line_ends_def)

lemma prepareTail_entries [simp]: "text_entries dec (prepareTail s) = text_entries dec s"
  using text_entries_append [of dec s "[]"] by (simp add: prepareTail_def)

lemma prepareTail_plain [simp]: "carriage_return \<notin> set (prepareTail s) \<longleftrightarrow> carriage_return \<notin> set s"
  by (simp add: prepareTail_def)

text \<open>A line written in full is its entry; a part of it is its entry or nothing.\<close>

lemma entry_line_entries: "json_text enc dec e \<Longrightarrow> text_entries dec (entry_line enc e) = [e]"
  using text_entries_append [of dec "enc e" "[]"]
  by (simp add: entry_line_def json_text_def text_entries_line line_entries_def)

lemma broken_off_entries:
  assumes "json_text enc dec e" "prefix p (entry_line enc e)"
  shows "text_entries dec p = broken_off enc e p"
proof (cases "prefix (enc e) p")
  case True
  then consider "p = enc e" | "p = entry_line enc e"
    using assms(2) by (auto simp: entry_line_def prefix_def append_eq_append_conv2 Cons_eq_append_conv append_eq_Cons_conv)
  then show ?thesis
    using True assms(1) entry_line_entries [OF assms(1)]
    by cases (auto simp: broken_off_def json_text_def text_entries_line line_entries_def)
next
  case False
  then have p: "strict_prefix p (enc e)"
    using assms(2) by (auto simp: entry_line_def strict_prefix_def)
  then have "newline \<notin> set p" using assms(1) by (auto simp: json_text_def strict_prefix_def prefix_def)
  then show ?thesis
    using p assms(1) False by (auto simp: json_text_def text_entries_line line_entries_def broken_off_def split: line_value.split)
qed


section \<open>Sequence numbers and links\<close>

text \<open>Entries are numbered in ascending order, and each names the one before it.\<close>

fun linked :: "nat \<Rightarrow> string option \<Rightarrow> entry list \<Rightarrow> bool" where
  "linked n i [] = True"
| "linked n i (e # es) =
     (n < te_sequence e \<and> te_parentEntryId e = i \<and> te_entryId e \<noteq> None \<and> linked (te_sequence e) (te_entryId e) es)"

definition link_end :: "nat \<Rightarrow> string option \<Rightarrow> entry list \<Rightarrow> nat \<times> string option" where
  "link_end n i es = foldl (\<lambda>_ e. (te_sequence e, te_entryId e)) (n, i) es"

lemma link_end_simps [simp]:
  "link_end n i [] = (n, i)" "link_end n i (e # es) = link_end (te_sequence e) (te_entryId e) es"
  "link_end n i (es @ [e]) = (te_sequence e, te_entryId e)"
  by (simp_all add: link_end_def)

lemma linked_snoc:
  "linked n i (es @ [e]) \<longleftrightarrow>
     linked n i es \<and> fst (link_end n i es) < te_sequence e \<and> te_parentEntryId e = snd (link_end n i es) \<and> te_entryId e \<noteq> None"
  by (induction es arbitrary: n i) auto

lemma linked_append: "linked n i (es @ fs) \<Longrightarrow> linked n i es"
  by (induction es arbitrary: n i) auto

lemma linked_above: "linked n i es \<Longrightarrow> e \<in> set es \<Longrightarrow> n < te_sequence e"
  by (induction es arbitrary: n i) (auto, fastforce)

text \<open>So the reader leaves them in their order, and the writer goes on behind the last.\<close>

lemma linked_sorted: "linked n i es \<Longrightarrow> sort_by (entry_le locale_le) es = es"
proof (induction es arbitrary: n i)
  case (Cons e es)
  then have "sort_by (entry_le locale_le) es = es" by auto
  moreover have "insert_by (entry_le locale_le) e es = e # es"
    using Cons.prems by (cases es) (auto simp: entry_le_def)
  ultimately show ?case by (simp add: sort_by_def)
qed (simp add: sort_by_def)

lemma resumed_sequence: "linked n i es \<Longrightarrow> foldl (\<lambda>m e. max m (te_sequence e)) n es = fst (link_end n i es)"
proof (induction es arbitrary: n i)
  case (Cons e es)
  then show ?case by (simp add: max_absorb2)
qed simp

lemma resumed_end:
  "linked 0 None es \<Longrightarrow> jw_sequence (resumed_writer es) = fst (link_end 0 None es) \<and> jw_lastEntryId (resumed_writer es) = snd (link_end 0 None es)"
proof (cases es rule: rev_cases)
  case (snoc fs e)
  assume "linked 0 None es"
  then show ?thesis using resumed_sequence [of 0 None es] by (simp add: resumed_writer_def restoreState_def snoc del: foldl_append)
qed (simp add: resumed_writer_def new_writer_def)

section \<open>What every step keeps\<close>

definition file_ok :: "(string \<Rightarrow> line_value) \<Rightarrow> transcript_world \<Rightarrow> bool" where
  "file_ok dec w \<longleftrightarrow> carriage_return \<notin> set (file_text (tw_file w)) \<and> text_entries dec (file_text (tw_file w)) = durable w
     \<and> (case tw_writer w of None \<Rightarrow> True
        | Some j \<Rightarrow> jw_failed j \<or> (jw_tailPrepared j \<longrightarrow> line_ends (file_text (tw_file w))))"

definition records_ok :: "entry set \<Rightarrow> transcript_world \<Rightarrow> bool" where
  "records_ok E w \<longleftrightarrow> set (tw_recorded w) \<subseteq> E \<and> prefix (tw_written w) (tw_recorded w) \<and> subseq (tw_acknowledged w) (durable w)
     \<and> linked 0 None (tw_before w @ tw_recorded w) \<and> distinct (map te_entryId (tw_before w @ tw_recorded w))
     \<and> (case tw_writer w of None \<Rightarrow> True
        | Some j \<Rightarrow> fst (link_end 0 None (tw_before w @ tw_recorded w)) \<le> jw_sequence j
                 \<and> (jw_closed j \<or> jw_lastEntryId j = snd (link_end 0 None (tw_before w @ tw_recorded w)))
                 \<and> (jw_failed j \<or> jw_closed j \<or> tw_recorded w = tw_written w @ jw_queue j))"

definition world_ok :: "(entry \<Rightarrow> string) \<Rightarrow> (string \<Rightarrow> line_value) \<Rightarrow> entry set \<Rightarrow> transcript_world \<Rightarrow> bool" where
  "world_ok enc dec E w \<longleftrightarrow> file_ok dec w \<and> records_ok E w"

lemma durable_prefix: "prefix (tw_written w) (tw_recorded w) \<Longrightarrow> prefix (durable w) (tw_before w @ tw_recorded w)"
  by (simp add: durable_def)

lemma durable_linked: "records_ok E w \<Longrightarrow> linked 0 None (durable w) \<and> distinct (map te_entryId (durable w))"
  by (auto simp: records_ok_def durable_def prefix_def simp flip: append_assoc dest: linked_append)

lemma read_durable:
  assumes "file_ok dec w" "records_ok E w" "byteLength (file_text (tw_file w)) \<le> DEFAULT_MAX_TRANSCRIPT_READ_BYTES"
  shows "fst (readTranscript dec locale_le None (tw_file w)) = durable w"
proof (cases "tw_file w")
  case None
  then show ?thesis using assms(1) by (simp add: file_ok_def readTranscript_def file_text_def)
next
  case (Some s)
  have "fst (read_lines dec 0 (text_lines s)) = durable w"
    using assms(1) Some by (simp add: file_ok_def file_text_def read_lines_entries text_lines_plain text_entries_def)
  then show ?thesis
    using assms(3) linked_sorted [of 0 None "durable w"] durable_linked [OF assms(2)] Some
    by (cases "read_lines dec 0 (text_lines s)") (simp add: readTranscript_def file_text_def)
qed

text \<open>Appending all or a part of a line.\<close>

lemma append_file_ok:
  assumes "file_ok dec w" "tw_writer w = Some j" "\<not> jw_failed j" "carriage_return \<notin> set t"
  shows "carriage_return \<notin> set (prepared j (file_text (tw_file w)) @ t)"
    and "text_entries dec (prepared j (file_text (tw_file w)) @ t) = durable w @ text_entries dec t"
proof -
  have "line_ends (prepared j (file_text (tw_file w)))"
    using assms by (auto simp: file_ok_def prepared_def prepareTail_ends)
  then show "text_entries dec (prepared j (file_text (tw_file w)) @ t) = durable w @ text_entries dec t"
    using assms(1) by (simp add: text_entries_ends file_ok_def prepared_def)
  show "carriage_return \<notin> set (prepared j (file_text (tw_file w)) @ t)"
    using assms by (simp add: file_ok_def prepared_def)
qed

lemma queue_next:
  assumes "records_ok E w" "tw_writer w = Some j" "jw_queue j = e # q" "\<not> jw_failed j" "\<not> jw_closed j"
  shows "tw_recorded w = tw_written w @ e # q" "e \<in> E"
  using assms by (auto simp: records_ok_def)


lemma opens_ok:
  assumes "world_ok enc dec E w" "byteLength (file_text (tw_file w)) \<le> DEFAULT_MAX_TRANSCRIPT_READ_BYTES"
  shows "world_ok enc dec E
    (w\<lparr>tw_writer := Some (resumed_writer (fst (readTranscript dec locale_le None (tw_file w)))),
       tw_before := durable w, tw_recorded := [], tw_written := []\<rparr>)"
proof -
  have ok: "file_ok dec w" "records_ok E w" using assms(1) by (auto simp: world_ok_def)
  have new: "\<not> jw_tailPrepared (resumed_writer es)" "jw_queue (resumed_writer es) = []" for es
    by (simp_all add: resumed_writer_def restoreState_def new_writer_def)
  show ?thesis
    unfolding read_durable [OF ok assms(2)]
    using ok durable_linked [OF ok(2)] resumed_end [of "durable w"] new
    by (auto simp: world_ok_def file_ok_def records_ok_def durable_def)
qed

lemma records_step_ok:
  assumes "world_ok enc dec E w" "tw_writer w = Some j" "record_new sessionId turnId now uuid body j = (e, j')" "e \<in> E"
    "Some uuid \<notin> te_entryId ` set (tw_before w @ tw_recorded w)"
  shows "world_ok enc dec E (w\<lparr>tw_writer := Some j', tw_recorded := (if jw_closed j then tw_recorded w else tw_recorded w @ [e])\<rparr>)"
proof -
  have e: "te_sequence e = jw_sequence j + 1" "te_entryId e = Some uuid" "te_parentEntryId e = jw_lastEntryId j"
    and j': "jw_failed j' = jw_failed j" "jw_tailPrepared j' = jw_tailPrepared j" "jw_closed j' = jw_closed j" "jw_sequence j' = jw_sequence j + 1"
      "\<not> jw_closed j \<Longrightarrow> jw_lastEntryId j' = Some uuid \<and> jw_queue j' = jw_queue j @ [e]"
    using assms(3) by (auto simp: record_new_def baseEntry_def recordEntry_def Let_def split: if_splits)
  show ?thesis
  proof (cases "jw_closed j")
    case True
    then show ?thesis using assms(1,2) j' by (auto simp: world_ok_def file_ok_def records_ok_def durable_def)
  next
    case False
    have "linked 0 None ((tw_before w @ tw_recorded w) @ [e])"
      using assms(1,2) False e by (simp only: linked_snoc) (auto simp: world_ok_def records_ok_def)
    moreover have "distinct (map te_entryId ((tw_before w @ tw_recorded w) @ [e]))"
      using assms(1,5) e(2) by (auto simp: world_ok_def records_ok_def)
    moreover have "link_end 0 None ((tw_before w @ tw_recorded w) @ [e]) = (jw_sequence j + 1, Some uuid)"
      by (simp only: link_end_simps e)
    ultimately show ?thesis
      using assms(1,2,4) j' False by (auto simp: world_ok_def file_ok_def records_ok_def durable_def)
  qed
qed

lemma plain_line: "json_text enc dec e \<Longrightarrow> prefix p (entry_line enc e) \<Longrightarrow> carriage_return \<notin> set p"
  by (auto simp: json_text_def entry_line_def prefix_append prefix_Cons dest: set_mono_prefix)

lemma appends_ok:
  assumes "\<forall>e\<in>E. json_text enc dec e" "world_ok enc dec E w" "tw_writer w = Some j" "jw_queue j = e # q" "\<not> jw_failed j" "\<not> jw_closed j"
  shows "world_ok enc dec E
      (w\<lparr>tw_writer := Some (j\<lparr>jw_queue := q, jw_tailPrepared := True\<rparr>),
         tw_file := Some (prepared j (file_text (tw_file w)) @ entry_line enc e),
         tw_written := tw_written w @ [e], tw_acknowledged := tw_acknowledged w @ [e]\<rparr>)"
proof -
  have ok: "file_ok dec w" "records_ok E w" using assms(2) by (auto simp: world_ok_def)
  note nxt = queue_next [OF ok(2) assms(3-6)]
  have json: "json_text enc dec e" using assms(1) nxt(2) by blast
  have "line_ends (s @ entry_line enc e)" for s by (simp add: line_ends_def entry_line_def)
  then have "file_ok dec (w\<lparr>tw_writer := Some (j\<lparr>jw_queue := q, jw_tailPrepared := True\<rparr>),
         tw_file := Some (prepared j (file_text (tw_file w)) @ entry_line enc e),
         tw_written := tw_written w @ [e], tw_acknowledged := tw_acknowledged w @ [e]\<rparr>)"
    using append_file_ok [OF ok(1) assms(3,5) plain_line [OF json prefix_order.refl]] entry_line_entries [OF json]
    by (simp add: file_ok_def file_text_def durable_def)
  moreover have "records_ok E (w\<lparr>tw_writer := Some (j\<lparr>jw_queue := q, jw_tailPrepared := True\<rparr>),
         tw_file := Some (prepared j (file_text (tw_file w)) @ entry_line enc e),
         tw_written := tw_written w @ [e], tw_acknowledged := tw_acknowledged w @ [e]\<rparr>)"
    using ok(2) assms(3) nxt by (auto simp: records_ok_def durable_def simp flip: append_assoc)
  ultimately show ?thesis by (simp add: world_ok_def)
qed

text \<open>A part of a line, whoever is left to go on.\<close>

lemma breaks_ok:
  assumes "\<forall>e\<in>E. json_text enc dec e" "world_ok enc dec E w" "tw_writer w = Some j" "jw_queue j = e # q" "\<not> jw_failed j" "\<not> jw_closed j"
    "prefix p (entry_line enc e)" "k = None \<or> k = Some (j\<lparr>jw_queue := q, jw_failed := True\<rparr>)"
  shows "world_ok enc dec E
      (w\<lparr>tw_writer := k, tw_file := Some (prepared j (file_text (tw_file w)) @ p), tw_written := tw_written w @ broken_off enc e p\<rparr>)"
proof -
  have ok: "file_ok dec w" "records_ok E w" using assms(2) by (auto simp: world_ok_def)
  note nxt = queue_next [OF ok(2) assms(3-6)]
  have json: "json_text enc dec e" using assms(1) nxt(2) by blast
  have "file_ok dec (w\<lparr>tw_writer := k, tw_file := Some (prepared j (file_text (tw_file w)) @ p), tw_written := tw_written w @ broken_off enc e p\<rparr>)"
    using append_file_ok [OF ok(1) assms(3,5) plain_line [OF json assms(7)]] broken_off_entries [OF json assms(7)] assms(8)
    by (auto simp: file_ok_def file_text_def durable_def)
  moreover have "records_ok E (w\<lparr>tw_writer := k, tw_file := Some (prepared j (file_text (tw_file w)) @ p), tw_written := tw_written w @ broken_off enc e p\<rparr>)"
  proof -
    have "subseq (tw_acknowledged w) (tw_before w @ tw_written w)" using ok(2) by (simp add: records_ok_def durable_def)
    from subseq_rev_drop_many [OF this]
    have "subseq (tw_acknowledged w) ((tw_before w @ tw_written w) @ broken_off enc e p)" .
    moreover have "prefix (tw_written w @ broken_off enc e p) (tw_recorded w)" using nxt(1) by (simp add: broken_off_def)
    ultimately show ?thesis using ok(2) assms(3,8) by (elim disjE) (simp_all add: records_ok_def durable_def)
  qed
  ultimately show ?thesis by (simp add: world_ok_def)
qed

lemma transcript_step_ok:
  assumes "\<forall>e\<in>E. json_text enc dec e"
  shows "transcript_step enc dec locale_le E w w' \<Longrightarrow> world_ok enc dec E w \<Longrightarrow> world_ok enc dec E w'"
proof (induction rule: transcript_step.induct)
  case (opens w)
  then show ?case using opens_ok by blast
next
  case (records w j sessionId turnId now uuid body e j')
  then show ?case using records_step_ok by blast
next
  case (appends w j e q)
  then show ?case using appends_ok [OF assms] by blast
next
  case (skips w j e q)
  then show ?case by (auto simp: world_ok_def file_ok_def records_ok_def durable_def)
next
  case (cannot_open w j e q)
  then show ?case by (auto simp: world_ok_def file_ok_def records_ok_def durable_def)
next
  case (append_fails w j e q p)
  then show ?case using breaks_ok [OF assms] by blast
next
  case (closes w j)
  then show ?case by (auto simp: world_ok_def file_ok_def records_ok_def durable_def writer_close_def)
next
  case (crashes w)
  then show ?case by (auto simp: world_ok_def file_ok_def records_ok_def durable_def)
next
  case (crashes_in_append w j e q p)
  then show ?case using breaks_ok [OF assms] by blast
qed


lemma transcript_step_mono: "E \<subseteq> F \<Longrightarrow> transcript_step enc dec locale_le E \<le> transcript_step enc dec locale_le F"
proof (intro le_funI le_boolI)
  fix w w'
  assume "E \<subseteq> F"
  show "transcript_step enc dec locale_le E w w' \<Longrightarrow> transcript_step enc dec locale_le F w w'"
    by (induction rule: transcript_step.induct) (blast intro: transcript_step.intros subsetD [OF \<open>E \<subseteq> F\<close>])+
qed

lemma world_starts_ok: "world_ok enc dec E new_world"
  by (simp add: world_ok_def file_ok_def records_ok_def new_world_def file_text_def durable_def)

interpretation transcript: transition_system new_world
    "\<lambda>w w'. transcript_step enc dec locale_le {e. json_text enc dec e} w w'" "world_ok enc dec {e. json_text enc dec e}" for enc dec locale_le
  using transcript_step_ok [of "{e. json_text enc dec e}" enc dec locale_le] world_starts_ok by unfold_locales auto



text \<open>A run: an entry is written by one process, and a second breaks off in the middle of the next.\<close>

definition sample_entry :: "nat \<Rightarrow> entry" where
  "sample_entry n = \<lparr>te_sessionId = ''s'', te_turnId = ''t'', te_sequence = n, te_createdAt = [], te_entryId = Some (replicate n (CHR ''i'')),
     te_parentEntryId = (if n = 1 then None else Some (replicate (n - 1) (CHR ''i''))), te_body = SessionMetadata []\<rparr>"

definition sample_enc :: "entry \<Rightarrow> string" where
  "sample_enc e = (if te_sequence e = 1 then ''{1}'' else ''{2}'')"

definition sample_dec :: "string \<Rightarrow> line_value" where
  "sample_dec l = (if l = ''{1}'' then EntryValue (sample_entry 1) else if l = ''{2}'' then EntryValue (sample_entry 2) else NotJson [])"

definition sample_world :: transcript_world where
  "sample_world = \<lparr>tw_file = Some (''{1}'' @ [newline] @ ''{2''), tw_writer = None, tw_before = [sample_entry 1], tw_recorded = [sample_entry 2],
     tw_written = [], tw_acknowledged = [sample_entry 1]\<rparr>"

lemma sample_json: "\<forall>e\<in>{sample_entry 1, sample_entry 2}. json_text sample_enc sample_dec e"
proof -
  have strict: "strict_prefix p [a, b, c] \<Longrightarrow> p = [] \<or> p = [a] \<or> p = [a, b]" for p and a b c :: char
    by (auto simp: strict_prefix_def prefix_Cons)
  have blank: "is_ws CHR ''{'' = False" "is_ws CHR ''}'' = False" by (simp_all add: is_ws_def)
  have "json_text sample_enc sample_dec (sample_entry 1)" "json_text sample_enc sample_dec (sample_entry 2)"
    by (auto simp: json_text_def sample_enc_def sample_dec_def sample_entry_def trim_def trimStart_def trimEnd_def blank dest!: strict)
  then show ?thesis by simp
qed


text \<open>The worlds of the run: opened, recorded, appended, ended, opened again, recorded, broken off.\<close>

definition sample_writer :: "nat \<Rightarrow> jsonl_writer" where
  "sample_writer n = new_writer\<lparr>jw_sequence := n, jw_lastEntryId := (if n = 0 then None else te_entryId (sample_entry n))\<rparr>"

definition sample_worlds :: "transcript_world list" where
  "sample_worlds =
     [new_world,
      new_world\<lparr>tw_writer := Some (sample_writer 0)\<rparr>,
      new_world\<lparr>tw_writer := Some ((sample_writer 1)\<lparr>jw_queue := [sample_entry 1]\<rparr>), tw_recorded := [sample_entry 1]\<rparr>,
      new_world\<lparr>tw_writer := Some ((sample_writer 1)\<lparr>jw_tailPrepared := True\<rparr>), tw_file := Some (''{1}'' @ [newline]),
        tw_recorded := [sample_entry 1], tw_written := [sample_entry 1], tw_acknowledged := [sample_entry 1]\<rparr>,
      new_world\<lparr>tw_file := Some (''{1}'' @ [newline]),
        tw_recorded := [sample_entry 1], tw_written := [sample_entry 1], tw_acknowledged := [sample_entry 1]\<rparr>,
      new_world\<lparr>tw_writer := Some (sample_writer 1), tw_file := Some (''{1}'' @ [newline]),
        tw_before := [sample_entry 1], tw_acknowledged := [sample_entry 1]\<rparr>,
      new_world\<lparr>tw_writer := Some ((sample_writer 2)\<lparr>jw_queue := [sample_entry 2]\<rparr>), tw_file := Some (''{1}'' @ [newline]),
        tw_before := [sample_entry 1], tw_recorded := [sample_entry 2], tw_acknowledged := [sample_entry 1]\<rparr>,
      sample_world]"

lemma sample_steps:
  assumes "E = {sample_entry 1, sample_entry 2}" "i < 7"
  shows "transcript_step sample_enc sample_dec locale_le E (sample_worlds ! i) (sample_worlds ! Suc i)"
proof -
  have blank: "is_ws CHR ''{'' = False" "is_ws CHR ''}'' = False" by (simp_all add: is_ws_def)
  note vals = sample_worlds_def new_world_def sample_writer_def new_writer_def sample_entry_def
  consider "i = 0" | "i = 1" | "i = 2" | "i = 3" | "i = 4" | "i = 5" | "i = 6" using assms(2) by linarith
  then show ?thesis
  proof cases
    case 1
    show ?thesis using opens [of "sample_worlds ! 0" sample_enc sample_dec locale_le E]
      by (simp add: 1 vals file_text_def byteLength_def readTranscript_def resumed_writer_def durable_def)
  next
    case 2
    show ?thesis using records [of "sample_worlds ! 1" "sample_writer 0" "''s''" "''t''" "[]" "''i''" "SessionMetadata []" "sample_entry 1"]
      by (simp add: 2 vals assms(1) record_new_def baseEntry_def recordEntry_def)
  next
    case 3
    show ?thesis using appends [of "sample_worlds ! 2" "(sample_writer 1)\<lparr>jw_queue := [sample_entry 1]\<rparr>" "sample_entry 1" "[]" sample_enc sample_dec]
      by (simp add: 3 vals numeral_2_eq_2 entry_line_def sample_enc_def file_text_def prepared_def prepareTail_def)
  next
    case 4
    show ?thesis using crashes [of sample_enc sample_dec locale_le E "sample_worlds ! 3"] by (simp add: 4 vals)
  next
    case 5
    have "readTranscript sample_dec locale_le None (Some (''{1}'' @ [newline])) = ([sample_entry 1], [])"
      by (simp add: readTranscript_def byteLength_def utf8_length_def DEFAULT_MAX_TRANSCRIPT_READ_BYTES_def text_lines_def chop_return_def
          sample_dec_def trim_def trimStart_def trimEnd_def blank sort_by_def)
    then show ?thesis using opens [of "sample_worlds ! 4" sample_enc sample_dec locale_le E]
      by (simp add: 5 vals file_text_def byteLength_def utf8_length_def DEFAULT_MAX_TRANSCRIPT_READ_BYTES_def resumed_writer_def restoreState_def durable_def)
  next
    case 6
    show ?thesis using records [of "sample_worlds ! 5" "sample_writer 1" "''s''" "''t''" "[]" "''ii''" "SessionMetadata []" "sample_entry 2"]
      by (simp add: 6 vals assms(1) record_new_def baseEntry_def recordEntry_def numeral_2_eq_2)
  next
    case 7
    show ?thesis using crashes_in_append [of "sample_worlds ! 6" "(sample_writer 2)\<lparr>jw_queue := [sample_entry 2]\<rparr>" "sample_entry 2" "[]" "''{2''" sample_enc sample_dec]
      by (simp add: 7 vals sample_world_def numeral_2_eq_2 entry_line_def sample_enc_def file_text_def prepared_def prepareTail_def broken_off_def)
  qed
qed


lemma sample_run: "(transcript_step sample_enc sample_dec locale_le {sample_entry 1, sample_entry 2})\<^sup>*\<^sup>* new_world sample_world"
proof -
  let ?E = "{sample_entry 1, sample_entry 2}"
  have "i \<le> 7 \<Longrightarrow> (transcript_step sample_enc sample_dec locale_le ?E)\<^sup>*\<^sup>* (sample_worlds ! 0) (sample_worlds ! i)" for i
  proof (induction i)
    case (Suc i)
    then show ?case using sample_steps [of ?E i locale_le] by (meson Suc_leD Suc_le_lessD rtranclp.rtrancl_into_rtrancl)
  qed simp
  from this [of 7] show ?thesis by (simp add: sample_worlds_def)
qed


end
