(* ===== verification/TranscriptReplay.thy ===== *)
theory TranscriptReplay
  imports Transcript
begin

text \<open>
  What a transcript means: the snapshots that entries of the file may carry (\<open>session/transcript/CompactSnapshot.ts\<close>), the
  replay that a resumed session starts from (\<open>TranscriptReplay.ts\<close>), the branch of the history that is shown, the
  merging of metadata (\<open>session/metadata/SessionMetadataStore.ts\<close>) and the chain of entries (\<open>TranscriptChain.ts\<close>).

  A boundary is JSON from the file and is checked; the parameter \<open>typed\<close> reads a checked message at its type, which in
  the program is no operation.
\<close>

section \<open>Snapshots in boundaries\<close>

definition isSafeCount :: "js_value \<Rightarrow> bool" where
  "isSafeCount v = (case v of JNumber r \<Rightarrow> r \<in> \<int> \<and> 0 \<le> r \<and> r \<le> 9007199254740991 | _ \<Rightarrow> False)"

definition is_string :: "js_value \<Rightarrow> bool" where "is_string v \<longleftrightarrow> js_string v \<noteq> None"

fun is_number :: "js_value \<Rightarrow> bool" where
  "is_number (JNumber _) = True" | "is_number JNaN = True" | "is_number (JInfinity _) = True" | "is_number _ = False"

fun is_bool :: "js_value \<Rightarrow> bool" where
  "is_bool (JBool _) = True" | "is_bool _ = False"

definition one_of :: "string list \<Rightarrow> js_value \<Rightarrow> bool" where
  "one_of xs v \<longleftrightarrow> (case v of JString s \<Rightarrow> s \<in> set xs | _ \<Rightarrow> False)"

text \<open>The blocks without results inside: those of a result are only texts, images and documents.\<close>

definition plain_block :: "js_value \<Rightarrow> bool" where
  "plain_block v \<longleftrightarrow> isRecord v \<and>
     (case js_property v ''type'' of
        JString t \<Rightarrow>
          if t \<in> {''text'', ''thinking''} then is_string (js_property v ''text'')
          else if t \<in> {''image'', ''audio''}
            then one_of [''base64'', ''url''] (js_property v ''source'') \<and> is_string (js_property v ''data'') \<and> is_string (js_property v ''mimeType'')
          else if t = ''pdf''
            then js_property v ''source'' = JString ''base64'' \<and> is_string (js_property v ''data'')
              \<and> js_property v ''mimeType'' = JString ''application/pdf'' \<and> is_number (js_property v ''bytes'')
          else if t = ''tool_call'' then is_string (js_property v ''id'') \<and> is_string (js_property v ''name'')
          else if t \<in> {''tool_result_reference'', ''media_reference''}
            then is_string (js_property v ''path'') \<and> is_number (js_property v ''originalBytes'') \<and> is_string (js_property v ''preview'')
              \<and> is_bool (js_property v ''hasMore'')
              \<and> (if t = ''tool_result_reference'' then is_string (js_property v ''toolCallId'')
                 else is_string (js_property v ''mimeType'') \<and> one_of [''image'', ''pdf'', ''audio''] (js_property v ''mediaType''))
          else False
      | _ \<Rightarrow> False)"

definition js_all :: "(js_value \<Rightarrow> bool) \<Rightarrow> js_value \<Rightarrow> bool" where
  "js_all p v = (case v of JArray xs \<Rightarrow> list_all p xs | _ \<Rightarrow> False)"

definition isContentBlock :: "js_value \<Rightarrow> bool" where
  "isContentBlock v \<longleftrightarrow>
     (if isRecord v \<and> js_property v ''type'' = JString ''tool_result''
      then is_string (js_property v ''toolCallId'')
        \<and> js_all (\<lambda>b. isRecord b \<and> one_of [''text'', ''image'', ''pdf''] (js_property b ''type'') \<and> plain_block b) (js_property v ''content'')
      else plain_block v)"

definition isMessage :: "js_value \<Rightarrow> bool" where
  "isMessage v \<longleftrightarrow> isRecord v \<and> one_of [''user'', ''assistant''] (js_property v ''role'')
     \<and> (js_property v ''metadata'' = JUndefined \<or> isRecord (js_property v ''metadata''))
     \<and> js_all isContentBlock (js_property v ''content'')"

definition js_elements :: "js_value \<Rightarrow> js_value list" where
  "js_elements v = (case v of JArray xs \<Rightarrow> xs | _ \<Rightarrow> [])"

definition is_compact_boundary :: "js_value \<Rightarrow> bool" where
  "is_compact_boundary b \<longleftrightarrow> js_property b ''kind'' = JString ''compact'' \<and> js_property b ''subtype'' = JString ''compact_boundary''"

definition readCompactSnapshot :: "entry \<Rightarrow> js_value list option" where
  "readCompactSnapshot e =
     (case te_body e of
        ControlBoundary b \<Rightarrow>
          (let snapshot = js_property b ''snapshot''; ms = js_property snapshot ''messages''
           in if isRecord b \<and> is_compact_boundary b \<and> isRecord snapshot \<and> js_property snapshot ''version'' = JNumber 1
                 \<and> js_elements ms \<noteq> [] \<and> js_all isMessage ms
              then Some (js_elements ms) else None)
      | _ \<Rightarrow> None)"

definition readRestoreSnapshot :: "entry \<Rightarrow> js_value list option" where
  "readRestoreSnapshot e =
     (case te_body e of
        ControlBoundary b \<Rightarrow>
          (let snapshot = js_property b ''snapshot''; ms = js_property snapshot ''messages''
           in if js_property b ''kind'' = JString ''restore'' \<and> js_property snapshot ''version'' = JNumber 1
                 \<and> js_all isMessage ms \<and> js_all isSafeCount (js_property b ''visibleSequences'')
              then Some (js_elements ms) else None)
      | _ \<Rightarrow> None)"

text \<open>A snapshot is a complete compaction or a restore, never both.\<close>

lemma one_snapshot: "readCompactSnapshot e = None \<or> readRestoreSnapshot e = None"
  by (auto simp: readCompactSnapshot_def readRestoreSnapshot_def is_compact_boundary_def Let_def split: entry_body.splits)

section \<open>The branch that is shown\<close>

definition visible_sequences :: "entry \<Rightarrow> js_value list" where
  "visible_sequences e = (case te_body e of ControlBoundary b \<Rightarrow> js_elements (js_property b ''visibleSequences'') | _ \<Rightarrow> [])"

definition show_entry :: "entry list \<Rightarrow> entry \<Rightarrow> entry list \<Rightarrow> entry list" where
  "show_entry entries e visible =
     (if readRestoreSnapshot e \<noteq> None
      then filter (\<lambda>c. te_sequence c < te_sequence e \<and> JNumber (of_nat (te_sequence c)) \<in> set (visible_sequences e)) entries
      else visible) @ [e]"

definition activeTranscriptEntries :: "entry list \<Rightarrow> entry list" where
  "activeTranscriptEntries entries = fold (show_entry entries) entries []"

section \<open>Replay\<close>

text \<open>\<open>{...first, ...second}\<close>, and the rule for the metadata of a session.\<close>

definition js_spread :: "(string \<times> js_value) list \<Rightarrow> (string \<times> js_value) list \<Rightarrow> (string \<times> js_value) list" where
  "js_spread first second = fold (\<lambda>(k, v). jset k v) second first"

definition mergeMetadata :: "(string \<times> js_value) list \<Rightarrow> (string \<times> js_value) list \<Rightarrow> (string \<times> js_value) list" where
  "mergeMetadata first second =
     (if js_truthy (js_property (JObject second) ''isSnapshot'') then second
      else jset ''linkedPullRequest'' (js_nullish (js_property (JObject second) ''linkedPullRequest'') (js_property (JObject first) ''linkedPullRequest''))
            (jset ''title'' (js_nullish (js_property (JObject second) ''title'') (js_property (JObject first) ''title''))
              (js_spread first second)))"

datatype replay_event =
    ReplayInput string string "message list"
  | ReplayAssistant string string message
  | ReplayResults string string message
  | ReplayTurn string string turn_result

datatype replay_warning = SkippedIncomplete string | IgnoredBoundary

record replay =
  rp_messages :: "message list"
  rp_usage :: usage
  rp_permissionDenials :: "permission_denial list"
  rp_events :: "replay_event list"
  rp_metadata :: "(string \<times> js_value) list"
  rp_diagnostics :: "replay_warning list"
  rp_lastCompactBoundary :: "entry option"

definition projectMessageEvent :: "string \<Rightarrow> string \<Rightarrow> message \<Rightarrow> replay_event" where
  "projectMessageEvent s t m = (if role m = Assistant then ReplayAssistant s t m else ReplayResults s t m)"

fun findLastCompactBoundaryIndex :: "entry list \<Rightarrow> nat option" where
  "findLastCompactBoundaryIndex [] = None"
| "findLastCompactBoundaryIndex (e # es) =
     (case findLastCompactBoundaryIndex es of
        Some i \<Rightarrow> Some (Suc i)
      | None \<Rightarrow> if readCompactSnapshot e \<noteq> None then Some 0 else None)"

definition completed_turns :: "entry list \<Rightarrow> string set" where
  "completed_turns es = te_turnId ` {e \<in> set es. case te_body e of TurnResultEntry _ \<Rightarrow> True | _ \<Rightarrow> False}"

definition selected_model :: "(string \<times> js_value) list \<Rightarrow> (string \<times> js_value) list option" where
  "selected_model meta =
     (let choice = js_property (JObject meta) ''modelSelection''
      in if js_truthy choice
            \<and> (js_property choice ''mode'' = JString ''auto''
               \<or> js_property choice ''mode'' = JString ''model'' \<and> is_string (js_property choice ''provider'') \<and> is_string (js_property choice ''model''))
         then Some [(''modelSelection'', choice)] else None)"

definition replay_message :: "string set \<Rightarrow> bool \<Rightarrow> entry \<Rightarrow> message \<Rightarrow> replay \<Rightarrow> replay" where
  "replay_message completed before e m r =
     (if metadata m \<noteq> None \<and> md_compactReplacement (the (metadata m)) = Some True then r
      else if te_turnId e \<notin> completed then r\<lparr>rp_diagnostics := rp_diagnostics r @ [SkippedIncomplete (te_turnId e)]\<rparr>
      else if before then r
      else r\<lparr>rp_messages := rp_messages r @ [m],
             rp_events := rp_events r @ [projectMessageEvent (te_sessionId e) (te_turnId e) m]\<rparr>)"

definition replay_boundary :: "(js_value \<Rightarrow> message) \<Rightarrow> bool \<Rightarrow> bool \<Rightarrow> entry \<Rightarrow> js_value \<Rightarrow> replay \<Rightarrow> replay" where
  "replay_boundary typed before isLast e b r =
     (let shown = (\<lambda>ms. map (\<lambda>m. projectMessageEvent (te_sessionId e) (te_turnId e) (typed m)) ms)
      in case (readRestoreSnapshot e, before) of
           (Some restored, False) \<Rightarrow> r\<lparr>rp_messages := map typed restored, rp_events := shown restored\<rparr>
         | _ \<Rightarrow>
             if isLast
             then (case readCompactSnapshot e of
                     Some snapshot \<Rightarrow> r\<lparr>rp_lastCompactBoundary := Some e, rp_messages := rp_messages r @ map typed snapshot,
                                        rp_events := rp_events r @ shown snapshot\<rparr>
                   | None \<Rightarrow> r)
             else if is_compact_boundary b \<and> readCompactSnapshot e = None
             then r\<lparr>rp_diagnostics := rp_diagnostics r @ [IgnoredBoundary]\<rparr>
             else r)"

definition replay_entry :: "(js_value \<Rightarrow> message) \<Rightarrow> string set \<Rightarrow> nat option \<Rightarrow> nat \<times> entry \<Rightarrow> replay \<Rightarrow> replay" where
  "replay_entry typed completed lastBoundary ie r =
     (let (index, e) = ie; before = (case lastBoundary of None \<Rightarrow> False | Some i \<Rightarrow> index < i)
      in case te_body e of
           AcceptedInput ms meta \<Rightarrow>
             (let r1 = (case selected_model meta of None \<Rightarrow> r | Some m \<Rightarrow> r\<lparr>rp_metadata := mergeMetadata (rp_metadata r) m\<rparr>)
              in if before then r1
                 else r1\<lparr>rp_messages := rp_messages r1 @ ms, rp_events := rp_events r1 @ [ReplayInput (te_sessionId e) (te_turnId e) ms]\<rparr>)
         | AssistantMessage m \<Rightarrow> replay_message completed before e m r
         | ToolResultMessage m \<Rightarrow> replay_message completed before e m r
         | DurableMessage m \<Rightarrow> replay_message completed before e m r
         | TurnResultEntry res \<Rightarrow>
             (let r1 = r\<lparr>rp_usage := mergeUsage (rp_usage r) (tu_usage res), rp_permissionDenials := rp_permissionDenials r @ tu_permissionDenials res\<rparr>
              in if before then r1 else r1\<lparr>rp_events := rp_events r1 @ [ReplayTurn (te_sessionId e) (te_turnId e) res]\<rparr>)
         | ControlBoundary b \<Rightarrow> replay_boundary typed before (lastBoundary = Some index) e b r
         | SessionMetadata m \<Rightarrow> r\<lparr>rp_metadata := mergeMetadata (rp_metadata r) m\<rparr>
         | _ \<Rightarrow> r)"

definition empty_replay :: replay where
  "empty_replay = \<lparr>rp_messages = [], rp_usage = empty_usage, rp_permissionDenials = [], rp_events = [], rp_metadata = [],
     rp_diagnostics = [], rp_lastCompactBoundary = None\<rparr>"

definition replayTranscriptEntries :: "(js_value \<Rightarrow> message) \<Rightarrow> entry list \<Rightarrow> replay" where
  "replayTranscriptEntries typed es =
     fold (replay_entry typed (completed_turns es) (findLastCompactBoundaryIndex es)) (enumerate 0 es) empty_replay"


section \<open>What a replay is\<close>

text \<open>The history of a transcript, read without looking ahead: a snapshot replaces what came before it, an accepted input
  adds its messages, and a message of a turn that has a result adds itself, unless it is a copy made by a compaction.\<close>

definition contribution :: "string set \<Rightarrow> entry \<Rightarrow> message list" where
  "contribution completed e =
     (let of_turn = (\<lambda>m. if metadata m \<noteq> None \<and> md_compactReplacement (the (metadata m)) = Some True \<or> te_turnId e \<notin> completed then [] else [m])
      in case te_body e of
           AcceptedInput ms _ \<Rightarrow> ms | AssistantMessage m \<Rightarrow> of_turn m | ToolResultMessage m \<Rightarrow> of_turn m | DurableMessage m \<Rightarrow> of_turn m
         | _ \<Rightarrow> [])"

definition entry_snapshot :: "entry \<Rightarrow> js_value list option" where
  "entry_snapshot e = (case readCompactSnapshot e of Some s \<Rightarrow> Some s | None \<Rightarrow> readRestoreSnapshot e)"

definition history_step :: "(js_value \<Rightarrow> message) \<Rightarrow> string set \<Rightarrow> entry \<Rightarrow> message list \<Rightarrow> message list" where
  "history_step typed completed e ms = (case entry_snapshot e of Some s \<Rightarrow> map typed s | None \<Rightarrow> ms @ contribution completed e)"

definition entry_results :: "entry list \<Rightarrow> turn_result list" where
  "entry_results es = concat (map (\<lambda>e. case te_body e of TurnResultEntry r \<Rightarrow> [r] | _ \<Rightarrow> []) es)"

lemma last_boundary_Some:
  "findLastCompactBoundaryIndex es = Some i \<Longrightarrow>
   i < length es \<and> readCompactSnapshot (es ! i) \<noteq> None \<and> (\<forall>e\<in>set (drop (Suc i) es). readCompactSnapshot e = None)"
proof (induction es arbitrary: i)
  case (Cons e es)
  show ?case
  proof (cases "findLastCompactBoundaryIndex es")
    case None
    have "findLastCompactBoundaryIndex fs = None \<Longrightarrow> \<forall>f\<in>set fs. readCompactSnapshot f = None" for fs
      by (induction fs) (auto split: option.splits if_splits)
    then show ?thesis using Cons.prems None by (auto split: if_splits)
  next
    case (Some j)
    then show ?thesis using Cons by auto
  qed
qed simp

lemma last_boundary_None: "findLastCompactBoundaryIndex es = None \<Longrightarrow> e \<in> set es \<Longrightarrow> readCompactSnapshot e = None"
  by (induction es) (auto split: option.splits if_splits)

lemma replay_before:
  "index < i \<Longrightarrow> rp_messages (replay_entry typed completed (Some i) (index, e) r) = rp_messages r"
  by (auto simp: replay_entry_def replay_message_def replay_boundary_def Let_def split: entry_body.split option.split)

lemma replay_at: "readCompactSnapshot e = Some s \<Longrightarrow>
   rp_messages (replay_entry typed completed (Some i) (i, e) r) = rp_messages r @ map typed s"
  using one_snapshot [of e]
  by (auto simp: replay_entry_def replay_boundary_def readCompactSnapshot_def Let_def split: entry_body.splits option.splits)

lemma replay_after:
  assumes "lb = None \<or> (\<exists>i. lb = Some i \<and> i < index)" "readCompactSnapshot e = None"
  shows "rp_messages (replay_entry typed completed lb (index, e) r) = history_step typed completed e (rp_messages r)"
proof -
  have "(case lb of None \<Rightarrow> False | Some i \<Rightarrow> index < i) = False" "lb \<noteq> Some index" using assms(1) by auto
  then show ?thesis
    using assms(2)
    by (cases "te_body e")
      (auto simp: replay_entry_def replay_message_def replay_boundary_def history_step_def entry_snapshot_def contribution_def
        readRestoreSnapshot_def Let_def split: option.split)
qed

lemma replay_sums:
  "rp_usage (replay_entry typed completed lb (index, e) r) = foldl mergeUsage (rp_usage r) (map tu_usage (entry_results [e]))"
  "rp_permissionDenials (replay_entry typed completed lb (index, e) r) = rp_permissionDenials r @ concat (map tu_permissionDenials (entry_results [e]))"
  by (auto simp: replay_entry_def replay_message_def replay_boundary_def entry_results_def Let_def split: entry_body.split option.split bool.split)

lemma replay_before_all:
  "k + length es \<le> i \<Longrightarrow> rp_messages (fold (replay_entry typed completed (Some i)) (enumerate k es) r) = rp_messages r"
proof (induction es arbitrary: k r)
  case (Cons e es)
  then show ?case by (simp add: replay_before)
qed simp

lemma replay_after_all:
  "lb = None \<or> (\<exists>i. lb = Some i \<and> i < k) \<Longrightarrow> \<forall>e\<in>set es. readCompactSnapshot e = None \<Longrightarrow>
   rp_messages (fold (replay_entry typed completed lb) (enumerate k es) r) = fold (history_step typed completed) es (rp_messages r)"
proof (induction es arbitrary: k r)
  case (Cons e es)
  have "lb = None \<or> (\<exists>i. lb = Some i \<and> i < Suc k)" using Cons.prems(1) by auto
  then show ?case
    using Cons.IH [of "Suc k"] Cons.prems replay_after [OF Cons.prems(1)]
    by simp
qed simp

lemma replay_sums_all:
  "rp_usage (fold (replay_entry typed completed lb) (enumerate k es) r) = foldl mergeUsage (rp_usage r) (map tu_usage (entry_results es))"
  "rp_permissionDenials (fold (replay_entry typed completed lb) (enumerate k es) r)
     = rp_permissionDenials r @ concat (map tu_permissionDenials (entry_results es))"
proof (induction es arbitrary: k r)
  case (Cons e es)
  have more: "entry_results (e # es) = entry_results [e] @ entry_results es" by (simp add: entry_results_def)
  { case 1 show ?case using Cons(1) unfolding more by (simp add: replay_sums) }
  { case 2 show ?case using Cons(2) unfolding more by (simp add: replay_sums) }
qed (simp_all add: entry_results_def)

text \<open>C12. Resuming gives back the history. What the replay finds by looking for the last compaction first is the history
  read from the front, in which every valid snapshot replaces what came before it and a turn that never got its result adds
  only its input; usage and denials are those of all turns, also of those a snapshot replaced.\<close>

theorem replay_is_history:
  "let r = replayTranscriptEntries typed es
   in rp_messages r = fold (history_step typed (completed_turns es)) es []
      \<and> rp_usage r = foldl mergeUsage empty_usage (map tu_usage (entry_results es))
      \<and> rp_permissionDenials r = concat (map tu_permissionDenials (entry_results es))"
proof -
  let ?f = "replay_entry typed (completed_turns es)" and ?h = "history_step typed (completed_turns es)"
  have "rp_messages (fold (?f (findLastCompactBoundaryIndex es)) (enumerate 0 es) empty_replay) = fold ?h es []"
  proof (cases "findLastCompactBoundaryIndex es")
    case None
    then show ?thesis using last_boundary_None [OF None] by (subst replay_after_all) (auto simp: empty_replay_def)
  next
    case (Some i)
    obtain s where i: "i < length es" "readCompactSnapshot (es ! i) = Some s"
        and later: "\<forall>e\<in>set (drop (Suc i) es). readCompactSnapshot e = None"
      using last_boundary_Some [OF Some] by auto
    have es: "es = take i es @ es ! i # drop (Suc i) es" using i(1) by (rule id_take_nth_drop)
    have split: "enumerate 0 es = enumerate 0 (take i es) @ (i, es ! i) # enumerate (Suc i) (drop (Suc i) es)"
      using i(1) by (subst es) (simp add: enumerate_append_eq)
    have "rp_messages (fold (?f (Some i)) (enumerate 0 (take i es)) empty_replay) = []"
      using i(1) by (subst replay_before_all) (auto simp: empty_replay_def)
    then have "rp_messages (fold (?f (Some i)) (enumerate 0 es) empty_replay) = fold ?h (drop (Suc i) es) (map typed s)"
      unfolding split using later by (simp add: replay_after_all replay_at [OF i(2)])
    moreover have "fold ?h es [] = fold ?h (drop (Suc i) es) (map typed s)"
      using i(2) by (subst es) (simp add: history_step_def entry_snapshot_def)
    ultimately show ?thesis by (simp only: Some)
  qed
  then show ?thesis
    using replay_sums_all [of typed "completed_turns es" "findLastCompactBoundaryIndex es" 0 es empty_replay]
    by (simp add: replayTranscriptEntries_def Let_def empty_replay_def)
qed


section \<open>The chain of entries\<close>

text \<open>\<open>byId\<close> has the last entry of each id at the place of the first; a child is listed under its parent once for every entry
  that names the parent.\<close>

definition entry_id :: "entry \<Rightarrow> string" where
  "entry_id e = (case te_entryId e of None \<Rightarrow> [] | Some i \<Rightarrow> i)"

definition parent_id :: "entry \<Rightarrow> string" where
  "parent_id e = (case te_parentEntryId e of None \<Rightarrow> [] | Some i \<Rightarrow> i)"

definition entries_by_id :: "entry list \<Rightarrow> (string \<times> entry) list" where
  "entries_by_id es = fold (\<lambda>e m. if entry_id e = [] then m else jset (entry_id e) e m) es []"

definition chain_children :: "entry list \<Rightarrow> string \<Rightarrow> string list" where
  "chain_children es pid = map entry_id (filter (\<lambda>e. entry_id e \<noteq> [] \<and> parent_id e \<noteq> [] \<and> parent_id e = pid) es)"

definition chain_orphans :: "entry list \<Rightarrow> entry list" where
  "chain_orphans es = filter (\<lambda>e. entry_id e \<noteq> [] \<and> parent_id e \<noteq> [] \<and> jget (entries_by_id es) (parent_id e) = None) es"

definition chain_child_ids :: "entry list \<Rightarrow> string set" where
  "chain_child_ids es = entry_id ` {e \<in> set es. entry_id e \<noteq> [] \<and> parent_id e \<noteq> [] \<and> jget (entries_by_id es) (parent_id e) \<noteq> None}"

definition chain_roots :: "entry list \<Rightarrow> entry list" where
  "chain_roots es =
     (let rs = filter (\<lambda>e. entry_id e \<noteq> [] \<and> entry_id e \<notin> chain_child_ids es \<and> parent_id e = []) es
      in if rs \<noteq> [] then rs else (case find (\<lambda>e. entry_id e \<noteq> []) es of None \<Rightarrow> [] | Some e \<Rightarrow> [e]))"

definition chain_leaves :: "entry list \<Rightarrow> entry list" where
  "chain_leaves es = map snd (filter (\<lambda>(i, e). chain_children es i = []) (entries_by_id es))"

definition longer :: "entry list \<Rightarrow> entry list \<Rightarrow> entry list" where
  "longer best path = (if length path > length best then path else best)"

text \<open>The recursion of \<open>findLongestPath\<close> to a depth; \<open>None\<close> is a recursion that goes deeper.\<close>

fun findLongestPath :: "(string \<times> entry) list \<Rightarrow> entry list \<Rightarrow> nat \<Rightarrow> string \<Rightarrow> entry list option" where
  "findLongestPath byId es 0 i = None"
| "findLongestPath byId es (Suc depth) i =
     (case jget byId i of
        None \<Rightarrow> Some []
      | Some e \<Rightarrow>
          (case those (map (findLongestPath byId es depth) (chain_children es i)) of
             None \<Rightarrow> None
           | Some paths \<Rightarrow> Some (e # foldl longer [] paths)))"

definition longest_from_roots :: "nat \<Rightarrow> entry list \<Rightarrow> entry list option" where
  "longest_from_roots depth es =
     map_option (foldl longer []) (those (map (\<lambda>r. findLongestPath (entries_by_id es) es depth (entry_id r)) (chain_roots es)))"

definition buildConversationChain :: "nat \<Rightarrow> entry list \<Rightarrow> entry list option" where
  "buildConversationChain depth es =
     (if list_all (\<lambda>e. entry_id e = []) es then Some es
      else map_option (\<lambda>path. path @ filter (\<lambda>e. entry_id e \<notin> entry_id ` set path) (chain_orphans es)) (longest_from_roots depth es))"

text \<open>Two entries that are each other's parent: the recursion has no end.\<close>

definition linked_to :: "string \<Rightarrow> string \<Rightarrow> entry" where
  "linked_to i j = \<lparr>te_sessionId = ''s'', te_turnId = ''t'', te_sequence = 1, te_createdAt = [], te_entryId = Some i, te_parentEntryId = Some j,
     te_body = SessionMetadata []\<rparr>"

lemma cycle_never_ends: "buildConversationChain depth [linked_to ''a'' ''b'', linked_to ''b'' ''a''] = None"
proof -
  let ?es = "[linked_to ''a'' ''b'', linked_to ''b'' ''a'']"
  have ids: "entries_by_id ?es = [(''a'', linked_to ''a'' ''b''), (''b'', linked_to ''b'' ''a'')]"
    by (simp add: entries_by_id_def entry_id_def linked_to_def)
  have children: "chain_children ?es ''a'' = [''b'']" "chain_children ?es ''b'' = [''a'']"
    by (simp_all add: chain_children_def entry_id_def parent_id_def linked_to_def)
  have never: "findLongestPath (entries_by_id ?es) ?es depth ''a'' = None \<and> findLongestPath (entries_by_id ?es) ?es depth ''b'' = None" for depth
    by (induction depth) (simp_all add: ids children)
  have "chain_roots ?es = [linked_to ''a'' ''b'']"
    by (simp add: chain_roots_def chain_child_ids_def ids entry_id_def parent_id_def linked_to_def)
  then show ?thesis
    using never by (simp add: buildConversationChain_def longest_from_roots_def entry_id_def linked_to_def)
qed

end
