(* ===== verification/Checkpoints.thy ===== *)
theory Checkpoints
  imports Prelude
begin

text \<open>
  Checkpoints of a workspace (\<open>session/checkpoints/WorkspaceCheckpoints.ts\<close>): the journal of what a turn did to files,
  the store of contents and records, previews of a restore, restoring file by file, undoing a restore, recovery after a
  crash, and pruning.

  The disk maps paths relative to the workspace to entries. A fingerprint, the digest of what \<open>lstat\<close> says of a file
  (device, inode, size, mode and times), is a number that every change of the file renews. A revision is a number, \<open>0\<close>
  where the code has the empty string, and a record id is a number. Parameters: \<open>digest\<close> (SHA-256) and the order of paths
  \<open>le\<close>. A file does not change while it is read, paths have one spelling, and the edits that commands make to a scanned
  directory are not modelled; nor are line counts and the parts of a restore that concern the conversation.
\<close>

section \<open>Versions of a file\<close>

datatype fileVersion =
    FileOf (vf_hash: string) nat nat bool "nat option" \<comment> \<open>hash, size, mode, binary, fingerprint\<close>
  | AbsentFile
  | UnprotectedFile string "nat option"

definition EXCLUDED :: "string list" where
  "EXCLUDED = [''.git'', ''.pilotdeck'', ''.tmp'', ''node_modules'', ''.venv'', ''venv'', ''dist'', ''build'', ''coverage'',
     ''.next'', ''.cache'', ''__pycache__'']"

definition MAX_FILE_BYTES :: nat where "MAX_FILE_BYTES = 10 * 1024 * 1024"

definition MAX_WORKSPACE_BYTES :: nat where "MAX_WORKSPACE_BYTES = 256 * 1024 * 1024"

definition MAX_PLAN_AGE :: int where "MAX_PLAN_AGE = 15 * 60000"

fun same_version :: "fileVersion \<Rightarrow> fileVersion \<Rightarrow> bool" where
  "same_version AbsentFile AbsentFile = True"
| "same_version (FileOf h _ m _ _) (FileOf h' _ m' _ _) = (h = h' \<and> m = m')"
| "same_version (UnprotectedFile _ f) (UnprotectedFile _ f') = (f \<noteq> None \<and> f = f')"
| "same_version _ _ = False"

fun sameOnDisk :: "fileVersion \<Rightarrow> fileVersion \<Rightarrow> bool" where
  "sameOnDisk (FileOf h s m b f) (FileOf h' s' m' b' f') =
     (same_version (FileOf h s m b f) (FileOf h' s' m' b' f') \<and> (f' = None \<or> f = f'))"
| "sameOnDisk v w = same_version v w"

definition scannedPath :: "string \<Rightarrow> bool" where
  "scannedPath p \<longleftrightarrow> (let segments = split_char CHR ''/'' p
     in \<not> list_ex (\<lambda>s. s \<in> set EXCLUDED) (butlast segments) \<and> last segments \<noteq> ''.git''
        \<and> \<not> startsWith (last segments) ''.pilotdeck-restore-'')"

section \<open>The journal of a turn\<close>

datatype change_source = FileTool | Observed

datatype file_change = Change (ch_path: string) (ch_before: fileVersion) (ch_after: fileVersion) (ch_source: change_source)
  (ch_uncertain: bool) (ch_beforeRevision: "nat option") (ch_afterRevision: "nat option") (ch_workspaceRevision: "nat option")
  (ch_segments: "file_change list option")

record tracked_edit =
  ed_before :: fileVersion
  ed_after :: "fileVersion option"
  ed_source :: "change_source option"
  ed_uncertain :: bool
  ed_beforeRevision :: "nat option"
  ed_afterRevision :: "nat option"
  ed_workspaceRevision :: "nat option"
  ed_segments :: "file_change list option"

record edit_record = tracked_edit +
  er_id :: nat
  er_beforeId :: nat
  er_path :: string
  er_createdAt :: int

definition or_absent :: "fileVersion option \<Rightarrow> fileVersion" where
  "or_absent v = (case v of None \<Rightarrow> AbsentFile | Some w \<Rightarrow> w)"

definition segment :: "string \<Rightarrow> tracked_edit \<Rightarrow> file_change" where
  "segment p e = Change p (ed_before e) (or_absent (ed_after e)) (case ed_source e of None \<Rightarrow> FileTool | Some s \<Rightarrow> s)
     False (ed_beforeRevision e) (ed_afterRevision e) None None"

definition segments_of :: "string \<Rightarrow> tracked_edit \<Rightarrow> file_change list" where
  "segments_of p e = (case ed_segments e of None \<Rightarrow> [segment p e] | Some ss \<Rightarrow> ss)"

definition interrupted :: "tracked_edit \<Rightarrow> tracked_edit \<Rightarrow> bool" where
  "interrupted previous edit \<longleftrightarrow> \<not> sameOnDisk (or_absent (ed_after previous)) (ed_before edit)
     \<or> (ed_afterRevision previous \<noteq> None \<and> ed_afterRevision previous \<noteq> ed_beforeRevision edit)
     \<or> ed_workspaceRevision previous \<noteq> ed_workspaceRevision edit"

definition merged_edit :: "string \<Rightarrow> tracked_edit \<Rightarrow> tracked_edit \<Rightarrow> tracked_edit" where
  "merged_edit p previous edit =
     (if ed_uncertain previous \<or> ed_uncertain edit \<or> interrupted previous edit
      then edit\<lparr>ed_uncertain := True, ed_segments := Some (segments_of p previous @ segments_of p edit)\<rparr>
      else edit\<lparr>ed_before := ed_before previous,
                ed_beforeRevision := (case ed_beforeRevision previous of None \<Rightarrow> ed_beforeRevision edit | Some r \<Rightarrow> Some r),
                ed_source := (if ed_source previous = Some FileTool \<or> ed_source edit = Some FileTool then Some FileTool else ed_source edit)\<rparr>)"

definition mergeTrackedEdit :: "string \<Rightarrow> tracked_edit \<Rightarrow> (string \<times> tracked_edit) list \<Rightarrow> (string \<times> tracked_edit) list" where
  "mergeTrackedEdit p edit tracked =
     (case jget tracked p of None \<Rightarrow> jset p edit tracked | Some previous \<Rightarrow> jset p (merged_edit p previous edit) tracked)"

text \<open>The changes of a turn, from its journal.\<close>

definition journal_change :: "(string \<times> fileVersion) list \<Rightarrow> string \<times> tracked_edit \<Rightarrow> file_change option" where
  "journal_change files pt =
     (let (p, t) = pt;
          right = (case ed_after t of Some v \<Rightarrow> v | None \<Rightarrow> or_absent (jget files p))
      in if same_version (ed_before t) right \<and> (\<not> ed_uncertain t \<or> (ed_source t = Some Observed \<and> (ed_segments t = None \<or> ed_segments t = Some [])))
         then None
         else Some (Change p (ed_before t) right
                      (if ed_after t = None then Observed else case ed_source t of None \<Rightarrow> FileTool | Some s \<Rightarrow> s)
                      (ed_uncertain t) (ed_beforeRevision t) (ed_afterRevision t) (ed_workspaceRevision t) (ed_segments t)))"

definition journal_changes :: "(string \<Rightarrow> string \<Rightarrow> bool) \<Rightarrow> (string \<times> fileVersion) list \<Rightarrow> (string \<times> tracked_edit) list \<Rightarrow> file_change list" where
  "journal_changes le files tracked = sort_by (\<lambda>a b. le (ch_path a) (ch_path b)) (List.map_filter (journal_change files) tracked)"

section \<open>The store\<close>

datatype disk_entry = Regular string nat nat | Link nat | Directory nat \<comment> \<open>content, mode, fingerprint\<close>

datatype checkpoint_error = InvalidPath | UnsafePath | BackupUnavailable | CorruptBackup | NoEntry | CheckpointMismatch
  | RestoreInterrupted | StalePlan | ContextUnavailable | Unprotected

datatype cp_phase = BeforeTurn | AfterTurn | BeforeRestore | CommandPhase

record checkpoint =
  cp_id :: nat
  cp_sessionId :: string
  cp_turnId :: string
  cp_createdAt :: int
  cp_phase :: cp_phase
  cp_complete :: bool
  cp_files :: "(string \<times> fileVersion) list"
  cp_contextHash :: "string option"
  cp_beforeId :: "nat option"
  cp_changes :: "file_change list"
  cp_supersedesId :: "nat option"

datatype restore_mode = RestoreFiles | RestoreBoth | RestoreConversation

datatype restore_scope = TurnScope | SessionScope | SinceScope

datatype plan_status = Ready | Conflict | Unchanged | NotProtected

record plan_file =
  pf_path :: string
  pf_expected :: fileVersion
  pf_target :: fileVersion
  pf_status :: plan_status
  pf_source :: change_source
  pf_expectedRevision :: nat
  pf_resultRevision :: "nat option"
  pf_result :: "fileVersion option"

record restore_plan =
  rp_id :: nat
  rp_sessionId :: string
  rp_checkpointId :: nat
  rp_createdAt :: int
  rp_mode :: restore_mode
  rp_files :: "plan_file list"
  rp_contextHash :: "string option"
  rp_contextBeforeHash :: "string option"
  rp_undoOf :: "nat option"
  rp_workspaceRevision :: nat

datatype restore_status = Prepared | Applying | Complete | NeedsRecovery

record restore_operation = restore_plan +
  ro_status :: restore_status
  ro_beforeId :: nat
  ro_applied :: "string list"
  ro_pendingPath :: "string option"

record checkpoint_store =
  st_disk :: "(string \<times> disk_entry) list"
  st_objects :: "(string \<times> string) list"
  st_heads :: "(string \<times> nat) list"
  st_scope :: nat
  st_manifests :: "checkpoint list"
  st_plans :: "restore_plan list"
  st_operations :: "restore_operation list"
  st_edits :: "edit_record list"
  st_fresh :: nat

definition revision :: "string \<Rightarrow> checkpoint_store \<Rightarrow> nat" where
  "revision p S = (case jget (st_heads S) p of None \<Rightarrow> 0 | Some r \<Rightarrow> r)"

definition advance :: "string \<Rightarrow> nat \<Rightarrow> checkpoint_store \<Rightarrow> checkpoint_store" where
  "advance p r S = S\<lparr>st_heads := jset p r (st_heads S)\<rparr>"

text \<open>\<open>randomUUID\<close>.\<close>

definition new_id :: "checkpoint_store \<Rightarrow> nat \<times> checkpoint_store" where
  "new_id S = (st_fresh S + 1, S\<lparr>st_fresh := st_fresh S + 1\<rparr>)"

definition readObject :: "(string \<Rightarrow> string) \<Rightarrow> string \<Rightarrow> checkpoint_store \<Rightarrow> checkpoint_error + string" where
  "readObject digest h S =
     (case jget (st_objects S) h of None \<Rightarrow> Inl NoEntry | Some c \<Rightarrow> if digest c = h then Inr c else Inl CorruptBackup)"

definition putObject :: "(string \<Rightarrow> string) \<Rightarrow> string \<Rightarrow> checkpoint_store \<Rightarrow> checkpoint_error + string \<times> checkpoint_store" where
  "putObject digest c S =
     (case readObject digest (digest c) S of
        Inr _ \<Rightarrow> Inr (digest c, S)
      | Inl NoEntry \<Rightarrow> Inr (digest c, S\<lparr>st_objects := st_objects S @ [(digest c, c)]\<rparr>)
      | Inl e \<Rightarrow> Inl e)"

definition find_checkpoint :: "nat \<Rightarrow> checkpoint_store \<Rightarrow> checkpoint option" where
  "find_checkpoint i S = find (\<lambda>c. cp_id c = i) (st_manifests S)"

definition readCheckpoint :: "nat \<Rightarrow> string \<Rightarrow> checkpoint_store \<Rightarrow> checkpoint_error + checkpoint" where
  "readCheckpoint i sessionId S =
     (case find_checkpoint i S of
        None \<Rightarrow> Inl NoEntry
      | Some c \<Rightarrow> if cp_sessionId c = sessionId then Inr c else Inl CheckpointMismatch)"

definition save_checkpoint :: "checkpoint \<Rightarrow> checkpoint_store \<Rightarrow> checkpoint_store" where
  "save_checkpoint c S = S\<lparr>st_manifests := st_manifests S @ [c]\<rparr>"

definition saveEdit :: "edit_record \<Rightarrow> checkpoint_store \<Rightarrow> checkpoint_store" where
  "saveEdit e S = S\<lparr>st_edits := filter (\<lambda>x. er_id x \<noteq> er_id e) (st_edits S) @ [e]\<rparr>"

definition write_operation :: "restore_operation \<Rightarrow> checkpoint_store \<Rightarrow> checkpoint_store" where
  "write_operation op S = S\<lparr>st_operations := filter (\<lambda>x. rp_id x \<noteq> rp_id op) (st_operations S) @ [op]\<rparr>"

section \<open>Paths and captures\<close>

definition split_slashes :: "string \<Rightarrow> string list" where
  "split_slashes p = concat (map (split_char (CHR 0x5C)) (split_char CHR ''/'' p))"

definition rel_segs :: "string \<Rightarrow> string list" where
  "rel_segs p = filter (\<lambda>w. w \<noteq> [] \<and> w \<noteq> ''.'') (split_char CHR ''/'' p)"

definition parents :: "string list \<Rightarrow> string list" where
  "parents segs = map (\<lambda>n. join ''/'' (take n segs)) [1..<length segs]"

definition blocked_parent :: "(string \<times> disk_entry) list \<Rightarrow> string \<Rightarrow> bool" where
  "blocked_parent d q \<longleftrightarrow> (case jget d q of None \<Rightarrow> False | Some (Directory _) \<Rightarrow> False | Some _ \<Rightarrow> True)"

definition resolveFile :: "string \<Rightarrow> checkpoint_store \<Rightarrow> checkpoint_error + string" where
  "resolveFile p S =
     (if p = [] \<or> CHR 0x00 \<in> set p \<or> startsWith p ''/'' \<or> ''..'' \<in> set (split_slashes p) then Inl InvalidPath
      else if rel_segs p = [] \<or> ''.git'' \<in> set (split_slashes p) then Inl InvalidPath
      else if list_ex (blocked_parent (st_disk S)) (parents (rel_segs p)) then Inl UnsafePath
      else Inr (join ''/'' (rel_segs p)))"

definition is_binary :: "string \<Rightarrow> bool" where
  "is_binary c \<longleftrightarrow> CHR 0x00 \<in> set c"

text \<open>\<open>captureFile\<close> without and with saving the content.\<close>

definition version_of :: "(string \<Rightarrow> string) \<Rightarrow> disk_entry option \<Rightarrow> fileVersion" where
  "version_of digest e =
     (case e of
        None \<Rightarrow> AbsentFile
      | Some (Link f) \<Rightarrow> UnprotectedFile ''Symbolic links and non-regular files are not restored automatically.'' (Some f)
      | Some (Directory f) \<Rightarrow> UnprotectedFile ''Symbolic links and non-regular files are not restored automatically.'' (Some f)
      | Some (Regular c m f) \<Rightarrow>
          if length c > MAX_FILE_BYTES then UnprotectedFile ''File exceeds the 10 MB checkpoint limit.'' (Some f)
          else FileOf (digest c) (length c) m (is_binary c) (Some f))"

definition seeFile :: "(string \<Rightarrow> string) \<Rightarrow> string \<Rightarrow> checkpoint_store \<Rightarrow> checkpoint_error + fileVersion" where
  "seeFile digest p S =
     (case resolveFile p S of Inl e \<Rightarrow> Inl e | Inr q \<Rightarrow> Inr (version_of digest (jget (st_disk S) q)))"

definition captureFile :: "(string \<Rightarrow> string) \<Rightarrow> string \<Rightarrow> checkpoint_store \<Rightarrow> checkpoint_error + fileVersion \<times> checkpoint_store" where
  "captureFile digest p S =
     (case resolveFile p S of
        Inl e \<Rightarrow> Inl e
      | Inr q \<Rightarrow>
          (case jget (st_disk S) q of
             Some (Regular c m f) \<Rightarrow>
               if length c > MAX_FILE_BYTES then Inr (version_of digest (jget (st_disk S) q), S)
               else (case putObject digest c S of
                       Inl e \<Rightarrow> Inl e | Inr (h, S1) \<Rightarrow> Inr (version_of digest (jget (st_disk S) q), S1))
           | e \<Rightarrow> Inr (version_of digest e, S)))"

fun captured_size :: "fileVersion \<Rightarrow> nat" where
  "captured_size (FileOf _ s _ _ _) = s"
| "captured_size _ = 0"

fun fingerprint_of :: "disk_entry \<Rightarrow> nat" where
  "fingerprint_of (Regular _ _ f) = f"
| "fingerprint_of (Link f) = f"
| "fingerprint_of (Directory f) = f"

text \<open>The walk of \<open>capture\<close>: the files of the workspace outside the excluded directories, up to a budget.\<close>

fun capture_files :: "(string \<Rightarrow> string) \<Rightarrow> (string \<times> disk_entry) list \<Rightarrow> nat \<Rightarrow> checkpoint_store
    \<Rightarrow> (string \<times> fileVersion) list \<times> checkpoint_store" where
  "capture_files digest [] bytes S = ([], S)"
| "capture_files digest ((p, e) # d) bytes S =
     (if \<not> scannedPath p \<or> (case e of Directory _ \<Rightarrow> True | _ \<Rightarrow> False) then capture_files digest d bytes S
      else
        (let (v, S1) = (if bytes \<ge> MAX_WORKSPACE_BYTES
                        then (UnprotectedFile ''Workspace exceeds the 256 MB checkpoint budget.'' (Some (fingerprint_of e)), S)
                        else case captureFile digest p S of
                               Inl _ \<Rightarrow> (UnprotectedFile ''Cannot capture file.'' None, S) | Inr vs \<Rightarrow> vs);
             (fs, S2) = capture_files digest d (bytes + captured_size v) S1
         in ((p, v) # fs, S2)))"

definition capture :: "(string \<Rightarrow> string) \<Rightarrow> int \<Rightarrow> string \<Rightarrow> string \<Rightarrow> cp_phase \<Rightarrow> checkpoint_store \<Rightarrow> checkpoint \<times> checkpoint_store" where
  "capture digest now sessionId turnId phase S =
     (let (files, S1) = capture_files digest (st_disk S) 0 S; (i, S2) = new_id S1
      in (\<lparr>cp_id = i, cp_sessionId = sessionId, cp_turnId = turnId, cp_createdAt = now, cp_phase = phase, cp_complete = True,
           cp_files = files, cp_contextHash = None, cp_beforeId = None, cp_changes = [], cp_supersedesId = None\<rparr>, S2))"

section \<open>A turn\<close>

record active_history =
  ah_before :: checkpoint
  ah_tracked :: "(string \<times> tracked_edit) list"
  ah_pending :: "(string \<times> edit_record) list"

definition list_checkpoints :: "string \<Rightarrow> checkpoint_store \<Rightarrow> checkpoint list" where
  "list_checkpoints sessionId S =
     (let records = filter (\<lambda>c. cp_sessionId c = sessionId) (st_manifests S);
          superseded = List.map_filter cp_supersedesId records
      in sort_by (\<lambda>a b. cp_createdAt a < cp_createdAt b \<or> (cp_createdAt a = cp_createdAt b \<and> cp_id a \<le> cp_id b))
           (filter (\<lambda>c. cp_id c \<notin> set superseded) records))"

text \<open>Edits of a turn that never ended are taken from their records; one without an outcome is uncertain. \<open>running\<close> tells
  whether the turn still runs.\<close>

definition recover_edit :: "(string \<Rightarrow> string) \<Rightarrow> edit_record \<Rightarrow> (string \<times> tracked_edit) list \<times> checkpoint_store
    \<Rightarrow> checkpoint_error + (string \<times> tracked_edit) list \<times> checkpoint_store" where
  "recover_edit digest e ts =
     (let (tracked, S) = ts
      in case ed_after e of
           Some _ \<Rightarrow> Inr (mergeTrackedEdit (er_path e) (tracked_edit.truncate e) tracked, S)
         | None \<Rightarrow>
             (case captureFile digest (er_path e) S of
                Inl err \<Rightarrow> Inl err
              | Inr (v, S1) \<Rightarrow>
                  Inr (mergeTrackedEdit (er_path e) ((tracked_edit.truncate e)\<lparr>ed_after := Some v, ed_uncertain := True\<rparr>) tracked, S1)))"

fun recover_edits :: "(string \<Rightarrow> string) \<Rightarrow> edit_record list \<Rightarrow> (string \<times> tracked_edit) list \<times> checkpoint_store
    \<Rightarrow> checkpoint_error + (string \<times> tracked_edit) list \<times> checkpoint_store" where
  "recover_edits digest [] ts = Inr ts"
| "recover_edits digest (e # es) ts = (case recover_edit digest e ts of Inl err \<Rightarrow> Inl err | Inr ts1 \<Rightarrow> recover_edits digest es ts1)"

definition as_uncertain :: "file_change \<Rightarrow> file_change" where
  "as_uncertain c = Change (ch_path c) (ch_before c) (ch_after c) (ch_source c) True (ch_beforeRevision c) (ch_afterRevision c)
     (ch_workspaceRevision c) (ch_segments c)"

definition recovered_changes :: "(string \<Rightarrow> string \<Rightarrow> bool) \<Rightarrow> (string \<times> fileVersion) list \<Rightarrow> (string \<times> tracked_edit) list \<Rightarrow> file_change list" where
  "recovered_changes le files tracked =
     map (\<lambda>c. if (case jget tracked (ch_path c) of None \<Rightarrow> True | Some t \<Rightarrow> ed_after t = None) then as_uncertain c else c)
       (journal_changes le files tracked)"

definition recoverInterrupted :: "(string \<Rightarrow> string) \<Rightarrow> (string \<Rightarrow> string \<Rightarrow> bool) \<Rightarrow> int \<Rightarrow> (string \<Rightarrow> bool) \<Rightarrow> string \<Rightarrow> checkpoint_store
    \<Rightarrow> checkpoint_error + checkpoint_store" where
  "recoverInterrupted digest le now running sessionId S =
     (let records = list_checkpoints sessionId S;
          completed = List.map_filter cp_beforeId (filter (\<lambda>c. cp_phase c = AfterTurn) records);
          befores = filter (\<lambda>c. cp_phase c = BeforeTurn) records
      in if befores = [] \<or> cp_id (last befores) \<in> set completed \<or> running (cp_turnId (last befores)) then Inr S
         else
           (let orphan = last befores;
                edits = filter (\<lambda>e. er_beforeId e = cp_id orphan) (sort_by (\<lambda>a b. er_createdAt a \<le> er_createdAt b) (st_edits S))
            in case recover_edits digest edits ([], S) of
                 Inl e \<Rightarrow> Inl e
               | Inr (tracked, S1) \<Rightarrow>
                   (let (after, S2) = capture digest now sessionId (cp_turnId orphan) AfterTurn S1
                    in Inr (save_checkpoint (after\<lparr>cp_beforeId := Some (cp_id orphan), cp_complete := False,
                         cp_changes := recovered_changes le (cp_files after) tracked\<rparr>) S2))))"

definition beginTurn :: "(string \<Rightarrow> string) \<Rightarrow> (string \<Rightarrow> string \<Rightarrow> bool) \<Rightarrow> int \<Rightarrow> (string \<Rightarrow> bool) \<Rightarrow> string \<Rightarrow> string \<Rightarrow> string
    \<Rightarrow> checkpoint_store \<Rightarrow> checkpoint_error + active_history \<times> checkpoint_store" where
  "beginTurn digest le now running sessionId turnId messages S =
     (case recoverInterrupted digest le now running sessionId S of
        Inl e \<Rightarrow> Inl e
      | Inr S1 \<Rightarrow>
          (let (i, S2) = new_id S1
           in case putObject digest messages S2 of
                Inl e \<Rightarrow> Inl e
              | Inr (h, S3) \<Rightarrow>
                  (let before = \<lparr>cp_id = i, cp_sessionId = sessionId, cp_turnId = turnId, cp_createdAt = now, cp_phase = BeforeTurn,
                        cp_complete = True, cp_files = [], cp_contextHash = Some h, cp_beforeId = None, cp_changes = [], cp_supersedesId = None\<rparr>
                   in Inr (\<lparr>ah_before = before, ah_tracked = [], ah_pending = []\<rparr>, save_checkpoint before S3))))"

definition trackEdit :: "(string \<Rightarrow> string) \<Rightarrow> int \<Rightarrow> bool \<Rightarrow> string \<Rightarrow> active_history \<Rightarrow> checkpoint_store
    \<Rightarrow> checkpoint_error + active_history \<times> checkpoint_store" where
  "trackEdit digest now allowUnprotected p A S =
     (case captureFile digest p S of
        Inl e \<Rightarrow> Inl e
      | Inr (before, S1) \<Rightarrow>
          if (case before of UnprotectedFile _ _ \<Rightarrow> \<not> allowUnprotected | _ \<Rightarrow> False) then Inl BackupUnavailable
          else
            (let (i, S2) = new_id S1;
                 edit = \<lparr>ed_before = before, ed_after = None, ed_source = None, ed_uncertain = False, ed_beforeRevision = Some (revision p S2),
                         ed_afterRevision = None, ed_workspaceRevision = Some (st_scope S2), ed_segments = None, er_id = i,
                         er_beforeId = cp_id (ah_before A), er_path = p, er_createdAt = now\<rparr>
             in Inr (A\<lparr>ah_pending := jset p edit (ah_pending A)\<rparr>, saveEdit edit S2)))"

text \<open>What a tool that knows its content says it wrote: the mode, and the fingerprint only if the disk has that content.\<close>

definition written_version :: "(string \<Rightarrow> string) \<Rightarrow> fileVersion \<Rightarrow> fileVersion \<Rightarrow> string \<Rightarrow> string \<Rightarrow> fileVersion" where
  "written_version digest before disk content h =
     FileOf h (length content)
       (case disk of FileOf _ _ m _ _ \<Rightarrow> m | _ \<Rightarrow> (case before of FileOf _ _ m _ _ \<Rightarrow> m | _ \<Rightarrow> 420))
       (is_binary content)
       (case disk of FileOf h' _ _ _ f \<Rightarrow> if h' = digest content then f else None | _ \<Rightarrow> None)"

definition edit_outcome :: "(string \<Rightarrow> string) \<Rightarrow> string option \<Rightarrow> fileVersion \<Rightarrow> fileVersion \<Rightarrow> checkpoint_store
    \<Rightarrow> checkpoint_error + fileVersion \<times> checkpoint_store" where
  "edit_outcome digest written before disk S =
     (case written of
        None \<Rightarrow> Inr (disk, S)
      | Some c \<Rightarrow>
          if length c > MAX_FILE_BYTES then Inr (UnprotectedFile ''File exceeds the 10 MB checkpoint limit.'' None, S)
          else (case putObject digest c S of Inl e \<Rightarrow> Inl e | Inr (h, S1) \<Rightarrow> Inr (written_version digest before disk c h, S1)))"

definition recordEdit :: "(string \<Rightarrow> string) \<Rightarrow> string \<Rightarrow> string option \<Rightarrow> active_history \<Rightarrow> checkpoint_store
    \<Rightarrow> checkpoint_error + active_history \<times> checkpoint_store" where
  "recordEdit digest p written A S =
     (case jget (ah_pending A) p of
        None \<Rightarrow> Inr (A, S)
      | Some edit \<Rightarrow>
          (case captureFile digest p S of
             Inl e \<Rightarrow> Inl e
           | Inr (disk, S1) \<Rightarrow>
               (case edit_outcome digest written (ed_before edit) disk S1 of
                  Inl e \<Rightarrow> Inl e
                | Inr (after, S2) \<Rightarrow>
                    (let edit1 = edit\<lparr>ed_after := Some after, ed_source := Some FileTool, ed_afterRevision := Some (er_id edit)\<rparr>
                     in Inr (A\<lparr>ah_pending := jdelete p (ah_pending A),
                               ah_tracked := mergeTrackedEdit p (tracked_edit.truncate edit1) (ah_tracked A)\<rparr>,
                             advance p (er_id edit) (saveEdit edit1 S2))))))"

text \<open>The handler of \<open>runEdit\<close>: what a failed tool left is kept, as uncertain.\<close>

definition failEdit :: "(string \<Rightarrow> string) \<Rightarrow> string \<Rightarrow> active_history \<Rightarrow> checkpoint_store \<Rightarrow> active_history \<times> checkpoint_store" where
  "failEdit digest p A S =
     (case jget (ah_pending A) p of
        None \<Rightarrow> (A, S)
      | Some edit \<Rightarrow>
          (case captureFile digest p S of
             Inl _ \<Rightarrow> (A, S)
           | Inr (v, S1) \<Rightarrow>
               (let edit1 = edit\<lparr>ed_after := Some v, ed_uncertain := True\<rparr>
                in (A\<lparr>ah_pending := jdelete p (ah_pending A),
                      ah_tracked := mergeTrackedEdit p (tracked_edit.truncate edit1) (ah_tracked A)\<rparr>, saveEdit edit1 S1))))"

definition publish :: "(string \<Rightarrow> string \<Rightarrow> bool) \<Rightarrow> int \<Rightarrow> bool \<Rightarrow> active_history \<Rightarrow> checkpoint_store \<Rightarrow> checkpoint_store" where
  "publish le now finished A S =
     (let (i, S1) = new_id S
      in save_checkpoint ((ah_before A)\<lparr>cp_id := i, cp_phase := AfterTurn, cp_createdAt := now, cp_contextHash := None,
           cp_beforeId := Some (cp_id (ah_before A)), cp_complete := finished, cp_files := [],
           cp_changes := journal_changes le [] (ah_tracked A)\<rparr>) S1)"

section \<open>Previews\<close>

text \<open>The changes of a checkpoint, or those of the session (since it) in the order they happened, restores included.\<close>

definition cumulate :: "file_change \<Rightarrow> (string \<times> file_change) list \<Rightarrow> (string \<times> file_change) list" where
  "cumulate c m =
     (case jget m (ch_path c) of
        None \<Rightarrow> jset (ch_path c) (if ch_uncertain c then Change (ch_path c) (ch_before c) (ch_after c) (ch_source c) True (ch_beforeRevision c)
            (ch_afterRevision c) (ch_workspaceRevision c) (Some (case ch_segments c of None \<Rightarrow> [c] | Some ss \<Rightarrow> ss)) else c) m
      | Some e \<Rightarrow>
          (let broken = \<not> same_version (ch_after e) (ch_before c)
                 \<or> (ch_afterRevision e \<noteq> None \<and> ch_beforeRevision c \<noteq> None \<and> ch_afterRevision e \<noteq> ch_beforeRevision c)
                 \<or> (ch_workspaceRevision e \<noteq> None \<and> ch_workspaceRevision c \<noteq> None \<and> ch_workspaceRevision e \<noteq> ch_workspaceRevision c);
               ss = (case ch_segments e of None \<Rightarrow> [e] | Some ss \<Rightarrow> ss) @ (case ch_segments c of None \<Rightarrow> [c] | Some ss \<Rightarrow> ss)
           in jset (ch_path c)
                (if broken then Change (ch_path c) (ch_before c) (ch_after c) (ch_source c) True (ch_beforeRevision c) (ch_afterRevision c)
                                  (ch_workspaceRevision c) (Some ss)
                 else Change (ch_path c) (ch_before e) (ch_after c) (ch_source c) (ch_uncertain e \<or> ch_uncertain c)
                        (case ch_beforeRevision e of None \<Rightarrow> ch_beforeRevision c | Some r \<Rightarrow> Some r) (ch_afterRevision c) (ch_workspaceRevision c)
                        (if ch_uncertain e \<or> ch_uncertain c then Some ss else ch_segments c)) m))"

definition restored_change :: "restore_operation \<Rightarrow> plan_file \<Rightarrow> file_change" where
  "restored_change op f = Change (pf_path f) (pf_expected f) (case pf_result f of None \<Rightarrow> pf_target f | Some v \<Rightarrow> v) (pf_source f) False
     (Some (pf_expectedRevision f)) (pf_resultRevision f) (Some (rp_workspaceRevision op)) None"

definition first_cutoff :: "checkpoint \<Rightarrow> checkpoint list \<Rightarrow> checkpoint_store \<Rightarrow> checkpoint_error + int" where
  "first_cutoff cp records S =
     (case records of
        [] \<Rightarrow> Inr (cp_createdAt cp)
      | r # _ \<Rightarrow>
          (case cp_beforeId r of
             None \<Rightarrow> Inr (cp_createdAt r)
           | Some i \<Rightarrow> (case readCheckpoint i (cp_sessionId cp) S of Inl e \<Rightarrow> Inl e | Inr b \<Rightarrow> Inr (cp_createdAt b))))"

definition happened :: "checkpoint \<Rightarrow> int \<Rightarrow> checkpoint list \<Rightarrow> checkpoint_store \<Rightarrow> file_change list" where
  "happened cp cutoff records S =
     (let operations = filter (\<lambda>op. rp_sessionId op = cp_sessionId cp \<and> rp_createdAt op \<ge> cutoff) (st_operations S)
      in concat (map snd (sort_by (\<lambda>a b. fst a \<le> fst b)
           (map (\<lambda>c. (cp_createdAt c, cp_changes c)) records
            @ map (\<lambda>op. (rp_createdAt op, map (restored_change op) (filter (\<lambda>f. pf_path f \<in> set (ro_applied op)) (rp_files op))))
                (sort_by (\<lambda>a b. rp_createdAt a \<le> rp_createdAt b) operations)))))"

definition selectChanges :: "checkpoint \<Rightarrow> restore_scope \<Rightarrow> checkpoint_store \<Rightarrow> checkpoint_error + file_change list" where
  "selectChanges cp scope S =
     (if scope = TurnScope then Inr (cp_changes cp)
      else
        (let records = filter (\<lambda>c. cp_phase c = AfterTurn \<and> (scope = SessionScope \<or> cp_createdAt c \<ge> cp_createdAt cp))
                         (list_checkpoints (cp_sessionId cp) S)
         in case first_cutoff cp records S of
              Inl e \<Rightarrow> Inl e
            | Inr start \<Rightarrow>
                Inr (filter (\<lambda>c. ch_uncertain c \<or> \<not> same_version (ch_before c) (ch_after c))
                  (map snd (fold cumulate (happened cp (if scope = SessionScope then start else cp_createdAt cp) records S) [])))))"

definition change_status :: "fileVersion \<Rightarrow> nat \<Rightarrow> nat \<Rightarrow> file_change \<Rightarrow> plan_status" where
  "change_status current headRev scope c =
     (if ch_uncertain c \<or> (case ch_before c of UnprotectedFile _ _ \<Rightarrow> True | _ \<Rightarrow> False)
         \<or> (case ch_after c of UnprotectedFile _ _ \<Rightarrow> True | _ \<Rightarrow> False) \<or> (case current of UnprotectedFile _ _ \<Rightarrow> True | _ \<Rightarrow> False)
      then NotProtected
      else if same_version current (ch_before c) then Unchanged
      else if sameOnDisk current (ch_after c) \<and> (ch_afterRevision c = None \<or> ch_afterRevision c = Some headRev)
              \<and> (ch_workspaceRevision c = None \<or> ch_workspaceRevision c = Some scope)
      then Ready else Conflict)"

fun plan_files :: "(string \<Rightarrow> string) \<Rightarrow> checkpoint_store \<Rightarrow> file_change list \<Rightarrow> checkpoint_error + plan_file list" where
  "plan_files digest S [] = Inr []"
| "plan_files digest S (c # cs) =
     (case seeFile digest (ch_path c) S of
        Inl e \<Rightarrow> Inl e
      | Inr current \<Rightarrow>
          (case plan_files digest S cs of
             Inl e \<Rightarrow> Inl e
           | Inr fs \<Rightarrow> Inr (\<lparr>pf_path = ch_path c, pf_expected = current, pf_target = ch_before c,
                 pf_status = change_status current (revision (ch_path c) S) (st_scope S) c, pf_source = ch_source c,
                 pf_expectedRevision = revision (ch_path c) S, pf_resultRevision = None, pf_result = None\<rparr> # fs)))"

definition preview :: "(string \<Rightarrow> string) \<Rightarrow> int \<Rightarrow> string \<Rightarrow> nat \<Rightarrow> restore_scope \<Rightarrow> restore_mode \<Rightarrow> string option \<Rightarrow> checkpoint_store
    \<Rightarrow> checkpoint_error + restore_plan \<times> checkpoint_store" where
  "preview digest now sessionId checkpointId scope mode contextBeforeHash S =
     (case readCheckpoint checkpointId sessionId S of
        Inl e \<Rightarrow> Inl e
      | Inr cp \<Rightarrow>
          (case (case cp_beforeId cp of None \<Rightarrow> Inr cp | Some i \<Rightarrow> readCheckpoint i sessionId S) of
             Inl e \<Rightarrow> Inl e
           | Inr before \<Rightarrow>
               (let first = (if scope = SessionScope then find (\<lambda>c. cp_phase c = BeforeTurn) (list_checkpoints sessionId S) else Some before)
                in case (case selectChanges cp scope S of Inl e \<Rightarrow> Inl e | Inr cs \<Rightarrow> plan_files digest S cs) of
                     Inl e \<Rightarrow> Inl e
                   | Inr files \<Rightarrow>
                       (let (i, S1) = new_id S;
                            plan = \<lparr>rp_id = i, rp_sessionId = sessionId, rp_checkpointId = checkpointId, rp_createdAt = now, rp_mode = mode,
                              rp_files = files, rp_contextHash = (case first of None \<Rightarrow> None | Some f \<Rightarrow> cp_contextHash f),
                              rp_contextBeforeHash = contextBeforeHash, rp_undoOf = None, rp_workspaceRevision = st_scope S\<rparr>
                        in Inr (plan, S1\<lparr>st_plans := st_plans S1 @ [plan]\<rparr>)))))"

text \<open>The preview of undoing a restore. A file whose replacement was begun counts if it is no longer what it was.\<close>

definition affected :: "(string \<Rightarrow> string) \<Rightarrow> restore_operation \<Rightarrow> checkpoint_store \<Rightarrow> checkpoint_error + string list" where
  "affected digest op S =
     (case (case ro_pendingPath op of None \<Rightarrow> None | Some p \<Rightarrow> find (\<lambda>f. pf_path f = p) (rp_files op)) of
        None \<Rightarrow> Inr (dedupe (ro_applied op))
      | Some f \<Rightarrow>
          (case seeFile digest (pf_path f) S of
             Inl e \<Rightarrow> Inl e
           | Inr v \<Rightarrow> Inr (dedupe (ro_applied op @ (if same_version v (pf_expected f) then [] else [pf_path f])))))"

definition undo_status :: "fileVersion \<Rightarrow> nat \<Rightarrow> nat \<Rightarrow> restore_operation \<Rightarrow> plan_file \<Rightarrow> plan_status" where
  "undo_status current headRev scope op f =
     (if same_version current (pf_expected f) then Unchanged
      else if sameOnDisk current (case pf_result f of None \<Rightarrow> pf_target f | Some v \<Rightarrow> v)
              \<and> (pf_resultRevision f = None \<or> pf_resultRevision f = Some headRev) \<and> rp_workspaceRevision op = scope
      then Ready else Conflict)"

fun undo_files :: "(string \<Rightarrow> string) \<Rightarrow> checkpoint_store \<Rightarrow> restore_operation \<Rightarrow> string list \<Rightarrow> checkpoint_error + plan_file list" where
  "undo_files digest S op [] = Inr []"
| "undo_files digest S op (p # ps) =
     (case find (\<lambda>f. pf_path f = p) (rp_files op) of
        None \<Rightarrow> Inl NoEntry
      | Some f \<Rightarrow>
          (case seeFile digest p S of
             Inl e \<Rightarrow> Inl e
           | Inr current \<Rightarrow>
               (case undo_files digest S op ps of
                  Inl e \<Rightarrow> Inl e
                | Inr fs \<Rightarrow> Inr (\<lparr>pf_path = p, pf_expected = current, pf_target = pf_expected f,
                      pf_status = undo_status current (revision p S) (st_scope S) op f, pf_source = pf_source f,
                      pf_expectedRevision = revision p S, pf_resultRevision = None, pf_result = None\<rparr> # fs))))"

definition undoPreview :: "(string \<Rightarrow> string) \<Rightarrow> int \<Rightarrow> string \<Rightarrow> nat \<Rightarrow> string option \<Rightarrow> checkpoint_store
    \<Rightarrow> checkpoint_error + restore_plan \<times> checkpoint_store" where
  "undoPreview digest now sessionId operationId contextBeforeHash S =
     (case find (\<lambda>op. rp_id op = operationId) (st_operations S) of
        None \<Rightarrow> Inl NoEntry
      | Some op \<Rightarrow>
          if rp_sessionId op \<noteq> sessionId then Inl CheckpointMismatch
          else
            (case readCheckpoint (ro_beforeId op) sessionId S of
               Inl e \<Rightarrow> Inl e
             | Inr before \<Rightarrow>
                 (case (case affected digest op S of Inl e \<Rightarrow> Inl e | Inr ps \<Rightarrow> undo_files digest S op ps) of
                    Inl e \<Rightarrow> Inl e
                  | Inr files \<Rightarrow>
                      (let (i, S1) = new_id S;
                           plan = \<lparr>rp_id = i, rp_sessionId = sessionId, rp_checkpointId = cp_id before, rp_createdAt = now, rp_mode = rp_mode op,
                             rp_files = files, rp_contextHash = rp_contextBeforeHash op, rp_contextBeforeHash = contextBeforeHash,
                             rp_undoOf = Some operationId, rp_workspaceRevision = st_scope S\<rparr>
                       in Inr (plan, S1\<lparr>st_plans := st_plans S1 @ [plan]\<rparr>)))))"

section \<open>Restoring\<close>

text \<open>The state of a restore that runs: the operation, the files left and where it is with the first of them.\<close>

datatype restore_phase = Check | Replace | Look | Advance fileVersion | Record fileVersion nat

record running_restore =
  rr_op :: restore_operation
  rr_todo :: "plan_file list"
  rr_phase :: restore_phase

datatype restore_progress = Goes running_restore | Ended | Failed checkpoint_error

definition still_expected :: "(string \<Rightarrow> string) \<Rightarrow> plan_file \<Rightarrow> checkpoint_store \<Rightarrow> checkpoint_error + bool" where
  "still_expected digest f S =
     (case seeFile digest (pf_path f) S of
        Inl e \<Rightarrow> Inl e
      | Inr v \<Rightarrow> Inr (sameOnDisk v (pf_expected f) \<and> pf_expectedRevision f = revision (pf_path f) S))"

fun check_chosen :: "(string \<Rightarrow> string) \<Rightarrow> plan_file list \<Rightarrow> checkpoint_store \<Rightarrow> checkpoint_error option" where
  "check_chosen digest [] S = None"
| "check_chosen digest (f # fs) S =
     (case still_expected digest f S of
        Inl e \<Rightarrow> Some e
      | Inr False \<Rightarrow> Some StalePlan
      | Inr True \<Rightarrow>
          (case pf_target f of
             FileOf h _ _ _ _ \<Rightarrow> (case readObject digest h S of Inl e \<Rightarrow> Some e | Inr _ \<Rightarrow> check_chosen digest fs S)
           | _ \<Rightarrow> check_chosen digest fs S))"

definition readPlan :: "string \<Rightarrow> nat \<Rightarrow> checkpoint_store \<Rightarrow> checkpoint_error + restore_plan" where
  "readPlan sessionId planId S =
     (case find (\<lambda>p. rp_id p = planId) (st_plans S) of
        None \<Rightarrow> Inl NoEntry | Some p \<Rightarrow> if rp_sessionId p = sessionId then Inr p else Inl CheckpointMismatch)"

definition chosen_files :: "restore_plan \<Rightarrow> string list option \<Rightarrow> plan_file list" where
  "chosen_files plan selected =
     (if rp_mode plan = RestoreConversation then []
      else filter (\<lambda>f. pf_status f = Ready \<and> (case selected of None \<Rightarrow> True | Some ps \<Rightarrow> pf_path f \<in> set ps)) (rp_files plan))"

definition before_restore :: "(string \<Rightarrow> string) \<Rightarrow> int \<Rightarrow> restore_plan \<Rightarrow> checkpoint_store \<Rightarrow> checkpoint \<times> checkpoint_store" where
  "before_restore digest now plan S =
     (if rp_mode plan = RestoreConversation
      then (let (i, S1) = new_id S
            in (\<lparr>cp_id = i, cp_sessionId = rp_sessionId plan, cp_turnId = ''restore'', cp_createdAt = now, cp_phase = BeforeRestore,
                 cp_complete = True, cp_files = [], cp_contextHash = None, cp_beforeId = None, cp_changes = [], cp_supersedesId = None\<rparr>, S1))
      else capture digest now (rp_sessionId plan) ''restore'' BeforeRestore S)"

definition begin_restore :: "(string \<Rightarrow> string) \<Rightarrow> int \<Rightarrow> restore_plan \<Rightarrow> plan_file list \<Rightarrow> checkpoint_store
    \<Rightarrow> restore_progress \<times> checkpoint_store" where
  "begin_restore digest now plan chosen S =
     (let (before, S1) = before_restore digest now plan S;
          S2 = save_checkpoint (before\<lparr>cp_contextHash := rp_contextBeforeHash plan\<rparr>) S1;
          op = restore_plan.extend (plan\<lparr>rp_createdAt := now\<rparr>)
            \<lparr>ro_status = Prepared, ro_beforeId = cp_id before, ro_applied = [], ro_pendingPath = None\<rparr>;
          S3 = write_operation op S2
      in if rp_mode plan = RestoreConversation then (Ended, write_operation (op\<lparr>ro_status := Complete\<rparr>) S3)
         else (Goes \<lparr>rr_op = op\<lparr>ro_status := Applying\<rparr>, rr_todo = chosen, rr_phase = Check\<rparr>,
               write_operation (op\<lparr>ro_status := Applying\<rparr>) S3))"

text \<open>Up to the first file. An operation that is already complete is the answer.\<close>

definition start_restore :: "(string \<Rightarrow> string) \<Rightarrow> int \<Rightarrow> string \<Rightarrow> nat \<Rightarrow> string list option \<Rightarrow> checkpoint_store
    \<Rightarrow> restore_progress \<times> checkpoint_store" where
  "start_restore digest now sessionId planId selected S =
     (case readPlan sessionId planId S of
        Inl e \<Rightarrow> (Failed e, S)
      | Inr plan \<Rightarrow>
          (case find (\<lambda>op. rp_id op = planId) (st_operations S) of
             Some op \<Rightarrow> (if ro_status op = Complete then Ended else Failed RestoreInterrupted, S)
           | None \<Rightarrow>
               if now - rp_createdAt plan > MAX_PLAN_AGE then (Failed StalePlan, S)
               else if rp_mode plan \<noteq> RestoreConversation \<and> rp_workspaceRevision plan \<noteq> st_scope S then (Failed StalePlan, S)
               else
                 (case check_chosen digest (chosen_files plan selected) S of
                    Some e \<Rightarrow> (Failed e, S)
                  | None \<Rightarrow>
                      if rp_mode plan \<noteq> RestoreFiles \<and> rp_contextHash plan = None then (Failed ContextUnavailable, S)
                      else begin_restore digest now plan (chosen_files plan selected) S)))"

text \<open>\<open>applyFile\<close>: \<open>None\<close> where it throws.\<close>

fun mkdirs :: "string list \<Rightarrow> checkpoint_store \<Rightarrow> checkpoint_store" where
  "mkdirs [] S = S"
| "mkdirs (q # qs) S =
     mkdirs qs (if jhas (st_disk S) q then S
                else S\<lparr>st_disk := jset q (Directory (st_fresh S + 1)) (st_disk S), st_fresh := st_fresh S + 1\<rparr>)"

definition applyFile :: "(string \<Rightarrow> string) \<Rightarrow> string \<Rightarrow> fileVersion \<Rightarrow> checkpoint_store \<Rightarrow> checkpoint_error + checkpoint_store" where
  "applyFile digest p v S =
     (case v of
        UnprotectedFile _ _ \<Rightarrow> Inl Unprotected
      | AbsentFile \<Rightarrow>
          (case resolveFile p S of
             Inl e \<Rightarrow> Inl e
           | Inr q \<Rightarrow> (case jget (st_disk S) q of
                         Some (Directory _) \<Rightarrow> Inl UnsafePath | _ \<Rightarrow> Inr (S\<lparr>st_disk := jdelete q (st_disk S)\<rparr>)))
      | FileOf h _ m _ _ \<Rightarrow>
          (case resolveFile p S of
             Inl e \<Rightarrow> Inl e
           | Inr q \<Rightarrow>
               (case readObject digest h S of
                  Inl e \<Rightarrow> Inl e
                | Inr c \<Rightarrow>
                    (case jget (st_disk S) q of
                       Some (Link _) \<Rightarrow> Inl UnsafePath
                     | Some (Directory _) \<Rightarrow> Inl UnsafePath
                     | _ \<Rightarrow>
                         (let S1 = mkdirs (parents (rel_segs p)) S; (i, S2) = new_id S1
                          in Inr (S2\<lparr>st_disk := jset q (Regular c m i) (st_disk S2)\<rparr>))))))"

definition record_result :: "string \<Rightarrow> fileVersion \<Rightarrow> nat \<Rightarrow> plan_file \<Rightarrow> plan_file" where
  "record_result p v r f = (if pf_path f = p then f\<lparr>pf_result := Some v, pf_resultRevision := Some r\<rparr> else f)"

definition restore_fails :: "checkpoint_error \<Rightarrow> running_restore \<Rightarrow> checkpoint_store \<Rightarrow> restore_progress \<times> checkpoint_store" where
  "restore_fails e r S = (Failed RestoreInterrupted, write_operation ((rr_op r)\<lparr>ro_status := NeedsRecovery\<rparr>) S)"

text \<open>One step of the loop over the files, up to the next change of the disk or the store.\<close>

definition restore_step :: "(string \<Rightarrow> string) \<Rightarrow> running_restore \<Rightarrow> checkpoint_store \<Rightarrow> restore_progress \<times> checkpoint_store" where
  "restore_step digest r S =
     (case rr_todo r of
        [] \<Rightarrow> (Ended, write_operation ((rr_op r)\<lparr>ro_status := Complete\<rparr>) S)
      | f # fs \<Rightarrow>
          (case rr_phase r of
             Check \<Rightarrow>
               (case still_expected digest f S of
                  Inl e \<Rightarrow> restore_fails e r S
                | Inr False \<Rightarrow> restore_fails StalePlan r S
                | Inr True \<Rightarrow>
                    (let op = (rr_op r)\<lparr>ro_pendingPath := Some (pf_path f)\<rparr>
                     in (Goes (r\<lparr>rr_op := op, rr_phase := Replace\<rparr>), write_operation op S)))
           | Replace \<Rightarrow>
               (case applyFile digest (pf_path f) (pf_target f) S of
                  Inl e \<Rightarrow> restore_fails e r S
                | Inr S1 \<Rightarrow> (Goes (r\<lparr>rr_phase := Look\<rparr>), S1))
           | Look \<Rightarrow>
               (case captureFile digest (pf_path f) S of
                  Inl e \<Rightarrow> restore_fails e r S
                | Inr (v, S1) \<Rightarrow> (Goes (r\<lparr>rr_phase := Advance v\<rparr>), S1))
           | Advance v \<Rightarrow>
               (let (i, S1) = new_id S in (Goes (r\<lparr>rr_phase := Record v i\<rparr>), advance (pf_path f) i S1))
           | Record v i \<Rightarrow>
               (let op = (rr_op r)\<lparr>rp_files := map (record_result (pf_path f) v i) (rp_files (rr_op r)),
                                   ro_applied := ro_applied (rr_op r) @ [pf_path f], ro_pendingPath := None\<rparr>
                in (Goes \<lparr>rr_op = op, rr_todo = fs, rr_phase = Check\<rparr>, write_operation op S))))"

text \<open>A restore up to its end, or cut after \<open>n\<close> steps.\<close>

fun run_restore :: "(string \<Rightarrow> string) \<Rightarrow> nat \<Rightarrow> restore_progress \<times> checkpoint_store \<Rightarrow> restore_progress \<times> checkpoint_store" where
  "run_restore digest 0 ps = ps"
| "run_restore digest (Suc n) ps =
     (case ps of (Goes r, S) \<Rightarrow> run_restore digest n (restore_step digest r S) | _ \<Rightarrow> ps)"

section \<open>Pruning\<close>

definition newest :: "('a \<Rightarrow> int) \<Rightarrow> 'a list \<Rightarrow> 'a list" where
  "newest created xs = sort_by (\<lambda>a b. created b \<le> created a) xs"

definition the_list :: "'a option \<Rightarrow> 'a list" where
  "the_list x = (case x of None \<Rightarrow> [] | Some y \<Rightarrow> [y])"

definition retained_operations :: "nat \<Rightarrow> string \<Rightarrow> checkpoint_store \<Rightarrow> restore_operation list" where
  "retained_operations retain sessionId S =
     (let restored = newest rp_createdAt (filter (\<lambda>op. rp_sessionId op = sessionId) (st_operations S))
      in map snd (filter (\<lambda>(i, op). ro_status op \<noteq> Complete \<or> i < retain) (zip [0..<length restored] restored)))"

definition session_roots :: "nat \<Rightarrow> string \<Rightarrow> checkpoint_store \<Rightarrow> nat list" where
  "session_roots retain sessionId S =
     (let superseded = List.map_filter cp_supersedesId (st_manifests S);
          rounds = take retain (newest cp_createdAt (filter (\<lambda>c. cp_sessionId c = sessionId \<and> cp_phase c = AfterTurn
                     \<and> cp_id c \<notin> set superseded) (st_manifests S)));
          completed = List.map_filter cp_beforeId (filter (\<lambda>c. cp_phase c = AfterTurn) (st_manifests S));
          opens = slice_last retain (filter (\<lambda>c. cp_sessionId c = sessionId \<and> cp_phase c = BeforeTurn \<and> cp_id c \<notin> set completed)
                    (st_manifests S))
      in concat (map (\<lambda>c. cp_id c # the_list (cp_beforeId c)) rounds)
         @ concat (map (\<lambda>op. [ro_beforeId op, rp_checkpointId op]) (retained_operations retain sessionId S)) @ map cp_id opens)"

definition expand_by :: "checkpoint \<Rightarrow> nat set \<Rightarrow> nat set" where
  "expand_by c keep =
     (let more = (if cp_id c \<in> keep then keep \<union> set (the_list (cp_beforeId c)) \<union> set (the_list (cp_supersedesId c)) else keep)
      in if cp_phase c = CommandPhase \<and> (case cp_beforeId c of None \<Rightarrow> False | Some b \<Rightarrow> b \<in> more) then insert (cp_id c) more else more)"

definition mentioned :: "checkpoint \<Rightarrow> nat set" where
  "mentioned c = insert (cp_id c) (set (the_list (cp_beforeId c)) \<union> set (the_list (cp_supersedesId c)))"

lemma expand_by_bounds: "keep \<subseteq> expand_by c keep \<and> expand_by c keep \<subseteq> keep \<union> mentioned c"
  by (auto simp: expand_by_def Let_def mentioned_def)

lemma expand_once_bounds: "keep \<subseteq> fold expand_by ms keep \<and> fold expand_by ms keep \<subseteq> keep \<union> \<Union> (mentioned ` set ms)"
proof (induction ms arbitrary: keep)
  case (Cons c ms)
  have "keep \<subseteq> fold expand_by ms (expand_by c keep)" using expand_by_bounds Cons.IH by (rule subset_trans [OF conjunct1 conjunct1])
  moreover have "fold expand_by ms (expand_by c keep) \<subseteq> expand_by c keep \<union> \<Union> (mentioned ` set ms)" using Cons.IH by blast
  ultimately show ?case using expand_by_bounds [of keep c] by (simp, blast)
qed simp

lemma finite_mentioned: "finite (\<Union> (mentioned ` set ms))"
  by (auto simp: mentioned_def)

text \<open>The loop \<open>while (expanded)\<close>.\<close>

function expand_keep :: "checkpoint list \<Rightarrow> nat set \<Rightarrow> nat set" where
  "expand_keep ms keep =
     (let larger = fold expand_by ms keep in if card larger = card keep then larger else expand_keep ms larger)"
  by auto
termination
proof (relation "measure (\<lambda>(ms, k). card (k \<union> \<Union> (mentioned ` set ms)) - card k)", goal_cases)
  case (2 ms keep larger)
  let ?M = "\<Union> (mentioned ` set ms)"
  have bounds: "keep \<subseteq> larger" "larger \<subseteq> keep \<union> ?M" using expand_once_bounds [of keep ms] 2(1) by auto
  have fin: "finite keep"
  proof (rule ccontr)
    assume "infinite keep"
    then have "infinite larger" using finite_subset [OF bounds(1)] by blast
    with \<open>infinite keep\<close> show False using 2(2) by simp
  qed
  then have "finite (keep \<union> ?M)" using finite_mentioned by simp
  then have "card larger \<le> card (keep \<union> ?M)" "card keep < card larger"
    using bounds card_mono [of "keep \<union> ?M" larger] card_mono [of larger keep] 2(2) finite_subset [OF bounds(2)] by auto
  moreover have "larger \<union> ?M = keep \<union> ?M" using bounds by blast
  ultimately show ?case by simp
qed simp

declare expand_keep.simps [simp del]

fun version_hashes :: "fileVersion \<Rightarrow> string list" where
  "version_hashes (FileOf h _ _ _ _) = [h]"
| "version_hashes _ = []"

fun change_hashes :: "file_change \<Rightarrow> string list" where
  "change_hashes (Change _ b a _ _ _ _ _ ss) =
     version_hashes b @ version_hashes a @ (case ss of None \<Rightarrow> [] | Some cs \<Rightarrow> concat (map change_hashes cs))"

definition plan_file_hashes :: "plan_file \<Rightarrow> string list" where
  "plan_file_hashes f = version_hashes (pf_expected f) @ version_hashes (pf_target f) @ version_hashes (or_absent (pf_result f))"

definition plan_hashes :: "'a restore_plan_scheme \<Rightarrow> string list" where
  "plan_hashes p = concat (map plan_file_hashes (rp_files p)) @ the_list (rp_contextHash p) @ the_list (rp_contextBeforeHash p)"

definition checkpoint_hashes :: "checkpoint \<Rightarrow> string list" where
  "checkpoint_hashes c = concat (map (version_hashes \<circ> snd) (cp_files c)) @ concat (map change_hashes (cp_changes c)) @ the_list (cp_contextHash c)"

definition edit_hashes :: "'a tracked_edit_scheme \<Rightarrow> string list" where
  "edit_hashes e = version_hashes (ed_before e) @ version_hashes (or_absent (ed_after e))
     @ (case ed_segments e of None \<Rightarrow> [] | Some cs \<Rightarrow> concat (map change_hashes cs))"

definition kept_ids :: "nat \<Rightarrow> int \<Rightarrow> checkpoint_store \<Rightarrow> nat set" where
  "kept_ids retain now S =
     (let sessions = dedupe (map cp_sessionId (st_manifests S));
          plans = filter (\<lambda>p. now - rp_createdAt p \<le> MAX_PLAN_AGE) (st_plans S)
      in expand_keep (st_manifests S)
           (set (concat (map (\<lambda>s. session_roots retain s S) sessions) @ map rp_checkpointId plans)))"

definition pruneUnpinned :: "nat \<Rightarrow> int \<Rightarrow> checkpoint_store \<Rightarrow> checkpoint_store" where
  "pruneUnpinned retain now S =
     (let sessions = dedupe (map cp_sessionId (st_manifests S));
          keep = kept_ids retain now S;
          manifests = filter (\<lambda>c. cp_id c \<in> keep) (st_manifests S);
          retained = concat (map (\<lambda>s. map rp_id (retained_operations retain s S)) sessions);
          operations = filter (\<lambda>op. rp_id op \<in> set retained) (st_operations S);
          plans = filter (\<lambda>p. now - rp_createdAt p \<le> MAX_PLAN_AGE) (st_plans S);
          edits = filter (\<lambda>e. er_beforeId e \<in> keep) (st_edits S);
          referenced = concat (map checkpoint_hashes manifests) @ concat (map plan_hashes operations) @ concat (map plan_hashes plans)
            @ concat (map edit_hashes edits)
      in S\<lparr>st_manifests := manifests, st_operations := operations, st_plans := plans, st_edits := edits,
           st_objects := filter (\<lambda>(h, _). h \<in> set referenced) (st_objects S)\<rparr>)"

section \<open>Everything that happens to a workspace\<close>

text \<open>Its store, the turns that run and the restore that runs.\<close>

record workspace =
  ws_store :: checkpoint_store
  ws_turns :: "(string \<times> active_history) list"
  ws_restoring :: "running_restore option"

definition new_workspace :: "(string \<times> disk_entry) list \<Rightarrow> workspace" where
  "new_workspace d = \<lparr>ws_store = \<lparr>st_disk = d, st_objects = [], st_heads = [], st_scope = 0, st_manifests = [], st_plans = [],
     st_operations = [], st_edits = [], st_fresh = 0\<rparr>, ws_turns = [], ws_restoring = None\<rparr>"

definition replacing :: "workspace \<Rightarrow> bool" where
  "replacing w \<longleftrightarrow> (case ws_restoring w of None \<Rightarrow> False | Some r \<Rightarrow> rr_phase r = Replace)"

definition with_progress :: "restore_progress \<times> checkpoint_store \<Rightarrow> workspace \<Rightarrow> workspace" where
  "with_progress ps w = w\<lparr>ws_store := snd ps, ws_restoring := (case fst ps of Goes r \<Rightarrow> Some r | _ \<Rightarrow> None)\<rparr>"

text \<open>Any program may change the disk at any time, except in the moment between the last look at a file and its
  replacement. \<open>dies\<close> is the end of the process, in the middle of whatever runs.\<close>

inductive workspace_step :: "(string \<Rightarrow> string) \<Rightarrow> (string \<Rightarrow> string \<Rightarrow> bool) \<Rightarrow> nat \<Rightarrow> workspace \<Rightarrow> workspace \<Rightarrow> bool"
  for digest :: "string \<Rightarrow> string" and le :: "string \<Rightarrow> string \<Rightarrow> bool" and retain :: nat where
  disk_changes: "\<not> replacing w \<Longrightarrow>
    workspace_step digest le retain w (w\<lparr>ws_store := (ws_store w)\<lparr>st_disk := d, st_fresh := st_fresh (ws_store w) + k\<rparr>\<rparr>)"
| branch_changes: "workspace_step digest le retain w (w\<lparr>ws_store := (ws_store w)\<lparr>st_scope := n\<rparr>\<rparr>)"
| head_changes: "workspace_step digest le retain w (w\<lparr>ws_store := advance p n (ws_store w)\<rparr>)"
| begins: "\<not> jhas (ws_turns w) turnId \<Longrightarrow>
    beginTurn digest le now (jhas (ws_turns w)) sessionId turnId messages (ws_store w) = Inr (A, S) \<Longrightarrow>
    workspace_step digest le retain w (w\<lparr>ws_store := S, ws_turns := jset turnId A (ws_turns w)\<rparr>)"
| tracks: "jget (ws_turns w) turnId = Some A \<Longrightarrow> trackEdit digest now unprotected p A (ws_store w) = Inr (A', S) \<Longrightarrow>
    workspace_step digest le retain w (w\<lparr>ws_store := S, ws_turns := jset turnId A' (ws_turns w)\<rparr>)"
| records: "jget (ws_turns w) turnId = Some A \<Longrightarrow> recordEdit digest p written A (ws_store w) = Inr (A', S) \<Longrightarrow>
    workspace_step digest le retain w (w\<lparr>ws_store := S, ws_turns := jset turnId A' (ws_turns w)\<rparr>)"
| edit_fails: "jget (ws_turns w) turnId = Some A \<Longrightarrow> failEdit digest p A (ws_store w) = (A', S) \<Longrightarrow>
    workspace_step digest le retain w (w\<lparr>ws_store := S, ws_turns := jset turnId A' (ws_turns w)\<rparr>)"
| finishes: "jget (ws_turns w) turnId = Some A \<Longrightarrow>
    workspace_step digest le retain w
      (w\<lparr>ws_store := publish le now finished A (ws_store w), ws_turns := jdelete turnId (ws_turns w)\<rparr>)"
| previews: "preview digest now sessionId i scope mode ctx (ws_store w) = Inr (plan, S) \<Longrightarrow>
    workspace_step digest le retain w (w\<lparr>ws_store := S\<rparr>)"
| previews_undo: "undoPreview digest now sessionId i ctx (ws_store w) = Inr (plan, S) \<Longrightarrow>
    workspace_step digest le retain w (w\<lparr>ws_store := S\<rparr>)"
| restores: "ws_restoring w = None \<Longrightarrow>
    workspace_step digest le retain w (with_progress (start_restore digest now sessionId i selected (ws_store w)) w)"
| goes_on: "ws_restoring w = Some r \<Longrightarrow> workspace_step digest le retain w (with_progress (restore_step digest r (ws_store w)) w)"
| dies: "workspace_step digest le retain w (w\<lparr>ws_turns := [], ws_restoring := None\<rparr>)"
| prunes: "ws_turns w = [] \<Longrightarrow> ws_restoring w = None \<Longrightarrow>
    workspace_step digest le retain w (w\<lparr>ws_store := pruneUnpinned retain now (ws_store w)\<rparr>)"

end
