(* ===== verification/CheckpointSafety.thy ===== *)
theory CheckpointSafety
  imports Checkpoints
begin

text \<open>
  What the checkpoints of a workspace keep: the journal of a turn is the chain of its edits, and whatever a restore writes
  over, and whatever it would write, stays in the store, under restores, crashes and pruning.
\<close>

section \<open>The journal of a turn\<close>

text \<open>The edits of one path, in order: each starts from what the one before it left.\<close>

fun unbroken :: "tracked_edit list \<Rightarrow> bool" where
  "unbroken (e # e' # es) \<longleftrightarrow> \<not> ed_uncertain e \<and> \<not> ed_uncertain e' \<and> \<not> interrupted e e' \<and> unbroken (e' # es)"
| "unbroken [e] \<longleftrightarrow> \<not> ed_uncertain e"
| "unbroken [] \<longleftrightarrow> True"

definition edits_of :: "string \<Rightarrow> (string \<times> tracked_edit) list \<Rightarrow> tracked_edit list" where
  "edits_of p es = map snd (filter (\<lambda>(q, _). q = p) es)"

definition journal :: "(string \<times> tracked_edit) list \<Rightarrow> (string \<times> tracked_edit) list" where
  "journal es = fold (\<lambda>(p, e). mergeTrackedEdit p e) es []"

lemma journal_snoc: "journal (es @ [(p, e)]) = mergeTrackedEdit p e (journal es)"
  by (simp add: journal_def)

lemma edits_of_snoc: "edits_of p (es @ [(q, e)]) = edits_of p es @ (if q = p then [e] else [])"
  by (simp add: edits_of_def)

lemma unbroken_snoc: "es \<noteq> [] \<Longrightarrow>
  unbroken (es @ [e]) \<longleftrightarrow> unbroken es \<and> \<not> ed_uncertain e \<and> \<not> interrupted (last es) e"
  by (induction es rule: unbroken.induct) auto

text \<open>What is kept of them.\<close>

definition chain_kept :: "tracked_edit list \<Rightarrow> tracked_edit \<Rightarrow> bool" where
  "chain_kept es t \<longleftrightarrow>
     (ed_uncertain t \<longleftrightarrow> \<not> unbroken es) \<and> ed_after t = ed_after (last es) \<and> ed_afterRevision t = ed_afterRevision (last es)
     \<and> ed_workspaceRevision t = ed_workspaceRevision (last es)
     \<and> (if unbroken es then ed_before t = ed_before (hd es) else True)"

lemma interrupted_cong: "ed_after t = ed_after t' \<Longrightarrow> ed_afterRevision t = ed_afterRevision t' \<Longrightarrow>
    ed_workspaceRevision t = ed_workspaceRevision t' \<Longrightarrow> interrupted t e = interrupted t' e"
  by (simp add: interrupted_def)

lemma merged_chain: "es \<noteq> [] \<Longrightarrow> chain_kept es t \<Longrightarrow> chain_kept (es @ [e]) (merged_edit p t e)"
  using interrupted_cong [of t "last es" e] by (auto simp: chain_kept_def merged_edit_def unbroken_snoc)

lemma journal_chain: "case jget (journal es) p of None \<Rightarrow> edits_of p es = [] | Some t \<Rightarrow> edits_of p es \<noteq> [] \<and> chain_kept (edits_of p es) t"
proof (induction es rule: rev_induct)
  case (snoc qe es)
  obtain q e where qe: "qe = (q, e)" by force
  show ?case
  proof (cases "q = p")
    case False
    then have "jget (journal (es @ [qe])) p = jget (journal es) p" "edits_of p (es @ [qe]) = edits_of p es"
      by (simp_all add: qe journal_snoc edits_of_snoc mergeTrackedEdit_def jget_jset split: option.split)
    then show ?thesis using snoc.IH by (auto split: option.splits)
  next
    case True
    show ?thesis
    proof (cases "jget (journal es) p")
      case None
      then show ?thesis using True snoc.IH by (simp add: qe journal_snoc edits_of_snoc mergeTrackedEdit_def jget_jset chain_kept_def)
    next
      case (Some t)
      then show ?thesis
        using True snoc.IH merged_chain [of "edits_of p es" t e p]
        by (simp add: qe journal_snoc edits_of_snoc mergeTrackedEdit_def jget_jset)
    qed
  qed
qed (simp add: journal_def edits_of_def)

section \<open>What the records refer to\<close>

definition hashes :: "checkpoint_store \<Rightarrow> string set" where
  "hashes S = fst ` set (st_objects S)"

definition objects_ok :: "(string \<Rightarrow> string) \<Rightarrow> checkpoint_store \<Rightarrow> bool" where
  "objects_ok digest S \<longleftrightarrow> (\<forall>(h, c) \<in> set (st_objects S). digest c = h)"

definition has_before :: "checkpoint_store \<Rightarrow> string \<Rightarrow> nat \<Rightarrow> bool" where
  "has_before S sessionId i \<longleftrightarrow> (\<exists>b. find_checkpoint i S = Some b \<and> cp_sessionId b = sessionId)"

definition changes_ok :: "string set \<Rightarrow> file_change list \<Rightarrow> bool" where
  "changes_ok H cs \<longleftrightarrow> (\<forall>c \<in> set cs. set (change_hashes c) \<subseteq> H) \<and> distinct (map ch_path cs)"

definition ready_ok :: "string set \<Rightarrow> plan_file \<Rightarrow> bool" where
  "ready_ok H f \<longleftrightarrow> set (version_hashes (pf_expected f)) \<subseteq> H \<and> set (version_hashes (pf_target f)) \<subseteq> H"

definition files_ok :: "string set \<Rightarrow> plan_file list \<Rightarrow> bool" where
  "files_ok H fs \<longleftrightarrow> (\<forall>f \<in> set fs. (pf_status f = Ready \<longrightarrow> ready_ok H f) \<and> set (version_hashes (or_absent (pf_result f))) \<subseteq> H)
     \<and> distinct (map pf_path fs)"

definition checkpoint_ok :: "checkpoint_store \<Rightarrow> checkpoint \<Rightarrow> bool" where
  "checkpoint_ok S c \<longleftrightarrow> cp_id c \<le> st_fresh S \<and> (\<forall>(p, v) \<in> set (cp_files c). set (version_hashes v) \<subseteq> hashes S)
     \<and> changes_ok (hashes S) (cp_changes c) \<and> (\<forall>i. cp_beforeId c = Some i \<longrightarrow> has_before S (cp_sessionId c) i)"

definition begun :: "restore_operation \<Rightarrow> string set" where
  "begun op = set (ro_applied op) \<union> set (the_list (ro_pendingPath op))"

definition op_ok :: "checkpoint_store \<Rightarrow> restore_operation \<Rightarrow> bool" where
  "op_ok S op \<longleftrightarrow> files_ok (hashes S) (rp_files op) \<and> has_before S (rp_sessionId op) (ro_beforeId op)
     \<and> begun op \<subseteq> pf_path ` {f \<in> set (rp_files op). pf_status f = Ready}"

definition edit_ok :: "string set \<Rightarrow> 'a tracked_edit_scheme \<Rightarrow> bool" where
  "edit_ok H e \<longleftrightarrow> set (edit_hashes e) \<subseteq> H"

definition store_ok :: "(string \<Rightarrow> string) \<Rightarrow> checkpoint_store \<Rightarrow> bool" where
  "store_ok digest S \<longleftrightarrow> objects_ok digest S \<and> distinct (map cp_id (st_manifests S)) \<and> list_all (checkpoint_ok S) (st_manifests S)
     \<and> list_all (\<lambda>p. files_ok (hashes S) (rp_files p)) (st_plans S) \<and> list_all (op_ok S) (st_operations S)
     \<and> distinct (map rp_id (st_operations S))
     \<and> list_all (edit_ok (hashes S)) (st_edits S)"

definition history_ok :: "checkpoint_store \<Rightarrow> active_history \<Rightarrow> bool" where
  "history_ok S A \<longleftrightarrow> has_before S (cp_sessionId (ah_before A)) (cp_id (ah_before A))
     \<and> distinct (jkeys (ah_tracked A)) \<and> (\<forall>(p, e) \<in> set (ah_tracked A). edit_ok (hashes S) e)
     \<and> (\<forall>(p, e) \<in> set (ah_pending A). edit_ok (hashes S) e \<and> ed_segments e = None)"

definition begun_with :: "running_restore \<Rightarrow> bool" where
  "begun_with r \<longleftrightarrow> (case rr_phase r of Check \<Rightarrow> True | _ \<Rightarrow> (case rr_todo r of [] \<Rightarrow> False | f # _ \<Rightarrow> pf_path f \<in> begun (rr_op r)))"

definition phase_ok :: "(string \<Rightarrow> string) \<Rightarrow> checkpoint_store \<Rightarrow> running_restore \<Rightarrow> bool" where
  "phase_ok digest S r \<longleftrightarrow>
     (case rr_phase r of
        Check \<Rightarrow> True
      | Replace \<Rightarrow> (case rr_todo r of [] \<Rightarrow> False | f # _ \<Rightarrow> \<exists>v. seeFile digest (pf_path f) S = Inr v \<and> sameOnDisk v (pf_expected f))
      | Look \<Rightarrow> rr_todo r \<noteq> []
      | Advance v \<Rightarrow> rr_todo r \<noteq> [] \<and> set (version_hashes v) \<subseteq> hashes S
      | Record v _ \<Rightarrow> rr_todo r \<noteq> [] \<and> set (version_hashes v) \<subseteq> hashes S)"

definition running_ok :: "(string \<Rightarrow> string) \<Rightarrow> checkpoint_store \<Rightarrow> running_restore \<Rightarrow> bool" where
  "running_ok digest S r \<longleftrightarrow> op_ok S (rr_op r) \<and> phase_ok digest S r
     \<and> (\<forall>f \<in> set (rr_todo r). ready_ok (hashes S) f \<and> pf_path f \<in> pf_path ` {f \<in> set (rp_files (rr_op r)). pf_status f = Ready})"

definition workspace_ok :: "(string \<Rightarrow> string) \<Rightarrow> workspace \<Rightarrow> bool" where
  "workspace_ok digest w \<longleftrightarrow> store_ok digest (ws_store w) \<and> (\<forall>(t, A) \<in> set (ws_turns w). history_ok (ws_store w) A)
     \<and> (case ws_restoring w of None \<Rightarrow> True | Some r \<Rightarrow> running_ok digest (ws_store w) r)"

section \<open>More objects\<close>

text \<open>A store that has at least the contents of another, and the same records but for those appended to the manifests.\<close>

definition extends :: "checkpoint_store \<Rightarrow> checkpoint_store \<Rightarrow> bool" where
  "extends S S' \<longleftrightarrow> hashes S \<subseteq> hashes S' \<and> st_fresh S \<le> st_fresh S' \<and> (\<exists>cs. st_manifests S' = st_manifests S @ cs)"

lemma extends_refl [simp]: "extends S S"
  by (simp add: extends_def)

lemma extends_trans: "extends S S' \<Longrightarrow> extends S' S'' \<Longrightarrow> extends S S''"
  by (auto simp: extends_def)

lemma find_append_first: "find P (xs @ ys) = (case find P xs of Some x \<Rightarrow> Some x | None \<Rightarrow> find P ys)"
  by (induction xs) auto

lemma has_before_mono: "extends S S' \<Longrightarrow> has_before S s i \<Longrightarrow> has_before S' s i"
  by (auto simp: extends_def has_before_def find_checkpoint_def find_append_first)

lemma changes_ok_mono: "H \<subseteq> H' \<Longrightarrow> changes_ok H cs \<Longrightarrow> changes_ok H' cs"
  by (auto simp: changes_ok_def)

lemma ready_ok_mono: "H \<subseteq> H' \<Longrightarrow> ready_ok H f \<Longrightarrow> ready_ok H' f"
  by (auto simp: ready_ok_def)

lemma files_ok_mono: "H \<subseteq> H' \<Longrightarrow> files_ok H fs \<Longrightarrow> files_ok H' fs"
  unfolding files_ok_def using ready_ok_mono by blast

lemma checkpoint_ok_mono: "extends S S' \<Longrightarrow> checkpoint_ok S c \<Longrightarrow> checkpoint_ok S' c"
  using has_before_mono changes_ok_mono by (fastforce simp: checkpoint_ok_def extends_def)

lemma op_ok_mono: "extends S S' \<Longrightarrow> op_ok S op \<Longrightarrow> op_ok S' op"
  using has_before_mono files_ok_mono by (auto simp: op_ok_def extends_def)

lemma edit_ok_mono: "H \<subseteq> H' \<Longrightarrow> edit_ok H e \<Longrightarrow> edit_ok H' e"
  by (auto simp: edit_ok_def)

lemma history_ok_mono: "extends S S' \<Longrightarrow> history_ok S A \<Longrightarrow> history_ok S' A"
proof -
  assume e: "extends S S'" and ok: "history_ok S A"
  have H: "hashes S \<subseteq> hashes S'" using e by (simp add: extends_def)
  show ?thesis
    unfolding history_ok_def
  proof (intro conjI ballI)
    show "has_before S' (cp_sessionId (ah_before A)) (cp_id (ah_before A))" using has_before_mono [OF e] ok by (simp add: history_ok_def)
    show "distinct (jkeys (ah_tracked A))" using ok by (simp add: history_ok_def)
  next
    fix x assume "x \<in> set (ah_tracked A)"
    then show "case x of (p, t) \<Rightarrow> edit_ok (hashes S') t" using ok edit_ok_mono [OF H] by (auto simp: history_ok_def)
  next
    fix x assume "x \<in> set (ah_pending A)"
    then show "case x of (p, t) \<Rightarrow> edit_ok (hashes S') t \<and> ed_segments t = None"
      using ok edit_ok_mono [OF H] by (fastforce simp: history_ok_def)
  qed
qed

text \<open>Steps that only add objects.\<close>

definition grown :: "(string \<Rightarrow> string) \<Rightarrow> checkpoint_store \<Rightarrow> checkpoint_store \<Rightarrow> bool" where
  "grown digest S S' \<longleftrightarrow> (objects_ok digest S \<longrightarrow> objects_ok digest S') \<and> hashes S \<subseteq> hashes S' \<and> st_fresh S \<le> st_fresh S'
     \<and> st_manifests S' = st_manifests S \<and> st_plans S' = st_plans S \<and> st_operations S' = st_operations S \<and> st_edits S' = st_edits S"

lemma grown_extends: "grown digest S S' \<Longrightarrow> extends S S'"
  by (simp add: grown_def extends_def)

lemma grown_refl [simp]: "grown digest S S"
  by (simp add: grown_def)

lemma grown_trans: "grown digest S S' \<Longrightarrow> grown digest S' S'' \<Longrightarrow> grown digest S S''"
  by (auto simp: grown_def)

lemma grown_store: "grown digest S S' \<Longrightarrow> store_ok digest S \<Longrightarrow> store_ok digest S'"
proof -
  assume g: "grown digest S S'" and ok: "store_ok digest S"
  note e = grown_extends [OF g]
  have H: "hashes S \<subseteq> hashes S'" using g by (simp add: grown_def)
  have same: "st_manifests S' = st_manifests S" "st_plans S' = st_plans S" "st_operations S' = st_operations S" "st_edits S' = st_edits S"
    "objects_ok digest S'" using g ok by (simp_all add: grown_def store_ok_def)
  show ?thesis
    unfolding store_ok_def same list_all_iff
  proof (intro conjI ballI)
    show "objects_ok digest S'" by (rule same)
    show "distinct (map cp_id (st_manifests S))" using ok by (simp add: store_ok_def)
    show "distinct (map rp_id (st_operations S))" using ok by (simp add: store_ok_def)
    show "checkpoint_ok S' c" if "c \<in> set (st_manifests S)" for c
      using ok that checkpoint_ok_mono [OF e] by (simp add: store_ok_def list_all_iff)
    show "files_ok (hashes S') (rp_files p)" if "p \<in> set (st_plans S)" for p
      using ok that files_ok_mono [OF H] by (simp add: store_ok_def list_all_iff)
    show "op_ok S' op" if "op \<in> set (st_operations S)" for op
      using ok that op_ok_mono [OF e] by (simp add: store_ok_def list_all_iff)
    show "edit_ok (hashes S') x" if "x \<in> set (st_edits S)" for x
      using ok that by (intro edit_ok_mono [OF H]) (simp add: store_ok_def list_all_iff)
  qed
qed

lemma grown_hashes: "grown digest S S' \<Longrightarrow> set xs \<subseteq> hashes S \<Longrightarrow> set xs \<subseteq> hashes S'"
  by (auto simp: grown_def)

lemma object_there: "objects_ok digest S \<Longrightarrow> h \<in> hashes S \<Longrightarrow> \<exists>c. readObject digest h S = Inr c"
  by (auto simp: objects_ok_def hashes_def readObject_def dest: weak_map_of_SomeI map_of_SomeD split: option.splits)

lemma put_ok:
  assumes "putObject digest c S = Inr (h, S')"
  shows "grown digest S S'" "h \<in> hashes S'" "st_disk S' = st_disk S" "st_heads S' = st_heads S" "st_scope S' = st_scope S" "h = digest c"
proof -
  show h: "h = digest c" using assms by (auto simp: putObject_def split: sum.splits checkpoint_error.splits)
  consider "S' = S" "h \<in> hashes S" | "S' = S\<lparr>st_objects := st_objects S @ [(digest c, c)]\<rparr>"
  proof (cases "readObject digest (digest c) S")
    case (Inl e)
    then show ?thesis using assms that(2) by (cases e) (auto simp: putObject_def)
  next
    case (Inr d)
    then have "digest c \<in> hashes S" by (auto simp: readObject_def hashes_def split: option.splits if_splits dest!: map_of_SomeD intro: rev_image_eqI)
    then show ?thesis using assms Inr that(1) h by (simp add: putObject_def)
  qed
  then show "grown digest S S'" "h \<in> hashes S'" "st_disk S' = st_disk S" "st_heads S' = st_heads S" "st_scope S' = st_scope S"
    using h by (cases; auto simp: grown_def objects_ok_def hashes_def)+
qed

lemma capture_ok:
  assumes "captureFile digest p S = Inr (v, S')"
  shows "grown digest S S'" "set (version_hashes v) \<subseteq> hashes S'" "st_disk S' = st_disk S" "st_heads S' = st_heads S"
    "st_scope S' = st_scope S" "seeFile digest p S = Inr v"
proof -
  obtain q where q: "resolveFile p S = Inr q" using assms by (auto simp: captureFile_def split: sum.splits)
  note body = assms [unfolded captureFile_def q sum.case]
  consider "S' = S" "version_hashes v = []" "v = version_of digest (jget (st_disk S) q)"
    | c m f h where "jget (st_disk S) q = Some (Regular c m f)" "length c \<le> MAX_FILE_BYTES" "putObject digest c S = Inr (h, S')"
        "v = version_of digest (jget (st_disk S) q)"
    using body by (auto simp: version_of_def split: option.splits disk_entry.splits if_splits sum.splits)
  then show "grown digest S S'" "set (version_hashes v) \<subseteq> hashes S'" "st_disk S' = st_disk S" "st_heads S' = st_heads S"
      "st_scope S' = st_scope S" "seeFile digest p S = Inr v"
    by (cases; auto simp: seeFile_def q version_of_def dest: put_ok)+
qed

lemma capture_files_ok:
  "capture_files digest d b S = (fs, S') \<Longrightarrow>
     grown digest S S' \<and> (\<forall>(p, v) \<in> set fs. set (version_hashes v) \<subseteq> hashes S') \<and> st_disk S' = st_disk S \<and> st_heads S' = st_heads S
     \<and> st_scope S' = st_scope S"
proof (induction digest d b S arbitrary: fs S' rule: capture_files.induct)
  case (2 digest p e d bytes S)
  show ?case
  proof (cases "\<not> scannedPath p \<or> (case e of Directory _ \<Rightarrow> True | _ \<Rightarrow> False)")
    case True
    then show ?thesis using 2 by simp
  next
    case False
    define vS where "vS = (if bytes \<ge> MAX_WORKSPACE_BYTES
        then (UnprotectedFile ''Workspace exceeds the 256 MB checkpoint budget.'' (Some (fingerprint_of e)), S)
        else case captureFile digest p S of Inl _ \<Rightarrow> (UnprotectedFile ''Cannot capture file.'' None, S) | Inr vs \<Rightarrow> vs)"
    obtain v S1 where vS1: "vS = (v, S1)" by force
    obtain gs S2 where rest: "capture_files digest d (bytes + captured_size v) S1 = (gs, S2)" by force
    have out: "fs = (p, v) # gs" "S' = S2" using 2(3) False vS1 rest by (simp_all add: vS_def [symmetric])
    have one: "grown digest S S1 \<and> set (version_hashes v) \<subseteq> hashes S1 \<and> st_disk S1 = st_disk S \<and> st_heads S1 = st_heads S \<and> st_scope S1 = st_scope S"
    proof (cases "bytes \<ge> MAX_WORKSPACE_BYTES")
      case True
      then show ?thesis using vS1 by (simp add: vS_def) auto
    next
      case False
      show ?thesis
      proof (cases "captureFile digest p S")
        case (Inl err)
        then show ?thesis using vS1 False by (simp add: vS_def) auto
      next
        case (Inr vs)
        then have "captureFile digest p S = Inr (v, S1)" using vS1 False by (simp add: vS_def)
        from capture_ok [OF this] show ?thesis by simp
      qed
    qed
    have "grown digest S1 S2 \<and> (\<forall>(p, v) \<in> set gs. set (version_hashes v) \<subseteq> hashes S2) \<and> st_disk S2 = st_disk S1 \<and> st_heads S2 = st_heads S1
        \<and> st_scope S2 = st_scope S1"
      using 2(2) [OF False _ refl rest] vS1 unfolding vS_def by metis
    note more = this
    have "set (version_hashes v) \<subseteq> hashes S2" using one more by (auto simp: grown_def)
    then show ?thesis using one more grown_trans [of digest S S1 S2] unfolding out by auto
  qed
qed simp

section \<open>More records\<close>

lemma same_hashes [simp]: "hashes (S\<lparr>st_disk := d\<rparr>) = hashes S" "hashes (S\<lparr>st_heads := hs\<rparr>) = hashes S" "hashes (S\<lparr>st_scope := n\<rparr>) = hashes S"
  "hashes (S\<lparr>st_manifests := ms\<rparr>) = hashes S" "hashes (S\<lparr>st_plans := ps\<rparr>) = hashes S" "hashes (S\<lparr>st_operations := ops\<rparr>) = hashes S"
  "hashes (S\<lparr>st_edits := es\<rparr>) = hashes S" "hashes (S\<lparr>st_fresh := k\<rparr>) = hashes S"
  by (simp_all add: hashes_def)

lemma save_extends: "extends S (save_checkpoint c S)"
  by (simp add: extends_def save_checkpoint_def)

lemma save_ok: "store_ok digest S \<Longrightarrow> checkpoint_ok S c \<Longrightarrow> cp_id c \<notin> cp_id ` set (st_manifests S) \<Longrightarrow> store_ok digest (save_checkpoint c S)"
proof -
  assume ok: "store_ok digest S" and c: "checkpoint_ok S c" "cp_id c \<notin> cp_id ` set (st_manifests S)"
  note e = save_extends [of S c]
  have same: "st_plans (save_checkpoint c S) = st_plans S" "st_operations (save_checkpoint c S) = st_operations S"
    "st_edits (save_checkpoint c S) = st_edits S" "hashes (save_checkpoint c S) = hashes S" "objects_ok digest (save_checkpoint c S) = objects_ok digest S"
    by (simp_all add: save_checkpoint_def objects_ok_def)
  have m: "st_manifests (save_checkpoint c S) = st_manifests S @ [c]" by (simp add: save_checkpoint_def)
  show ?thesis
    using ok c checkpoint_ok_mono [OF e] op_ok_mono [OF e] unfolding store_ok_def same m by (auto simp: list_all_iff)
qed

lemma write_op_ok: "store_ok digest S \<Longrightarrow> op_ok S op \<Longrightarrow> store_ok digest (write_operation op S)"
proof -
  assume ok: "store_ok digest S" and op: "op_ok S op"
  let ?S = "write_operation op S"
  have e: "extends S ?S" by (simp add: extends_def write_operation_def)
  have same: "st_plans ?S = st_plans S" "st_manifests ?S = st_manifests S" "st_edits ?S = st_edits S" "hashes ?S = hashes S"
    "objects_ok digest ?S = objects_ok digest S"
    by (simp_all add: write_operation_def objects_ok_def)
  have m: "set (st_operations ?S) \<subseteq> insert op (set (st_operations S))" by (auto simp: write_operation_def)
  have "distinct (map rp_id (st_operations S))" using ok by (simp add: store_ok_def)
  then have "distinct (map rp_id (st_operations ?S))" by (auto simp: write_operation_def distinct_map_filter)
  then show ?thesis
    using ok op m checkpoint_ok_mono [OF e] op_ok_mono [OF e] unfolding store_ok_def same by (auto simp: list_all_iff)
qed

lemma write_op_extends: "extends S (write_operation op S)"
  by (simp add: extends_def write_operation_def)

lemma save_edit_ok: "store_ok digest S \<Longrightarrow> edit_ok (hashes S) e \<Longrightarrow> store_ok digest (saveEdit e S)"
proof -
  assume ok: "store_ok digest S" and x: "edit_ok (hashes S) e"
  let ?S = "saveEdit e S"
  have e: "extends S ?S" by (simp add: extends_def saveEdit_def)
  have same: "st_plans ?S = st_plans S" "st_manifests ?S = st_manifests S" "st_operations ?S = st_operations S" "hashes ?S = hashes S"
    "objects_ok digest ?S = objects_ok digest S"
    by (simp_all add: saveEdit_def objects_ok_def)
  have m: "set (st_edits ?S) \<subseteq> insert e (set (st_edits S))" by (auto simp: saveEdit_def)
  show ?thesis
    using ok x m checkpoint_ok_mono [OF e] op_ok_mono [OF e] unfolding store_ok_def same by (auto simp: list_all_iff)
qed

lemma save_edit_extends: "extends S (saveEdit e S)"
  by (simp add: extends_def saveEdit_def)

lemma add_plan_ok: "store_ok digest S \<Longrightarrow> files_ok (hashes S) (rp_files p) \<Longrightarrow> store_ok digest (S\<lparr>st_plans := st_plans S @ [p]\<rparr>)"
proof -
  assume ok: "store_ok digest S" and x: "files_ok (hashes S) (rp_files p)"
  let ?S = "S\<lparr>st_plans := st_plans S @ [p]\<rparr>"
  have e: "extends S ?S" by (simp add: extends_def)
  show ?thesis
    using ok x checkpoint_ok_mono [OF e] op_ok_mono [OF e] unfolding store_ok_def objects_ok_def by (auto simp: list_all_iff)
qed

lemma new_id_ok: "new_id S = (i, S') \<Longrightarrow> grown digest S S' \<and> i \<le> st_fresh S' \<and> st_disk S' = st_disk S \<and> st_heads S' = st_heads S \<and> st_scope S' = st_scope S"
  by (auto simp: new_id_def grown_def objects_ok_def hashes_def)

lemma advance_grown: "grown digest S (advance p r S)"
  by (simp add: advance_def grown_def objects_ok_def)

section \<open>Edits\<close>

definition tracked_ok :: "string set \<Rightarrow> (string \<times> tracked_edit) list \<Rightarrow> bool" where
  "tracked_ok H tracked \<longleftrightarrow> distinct (jkeys tracked) \<and> (\<forall>(p, e) \<in> set tracked. edit_ok H e)"

definition seg_hashes :: "file_change list option \<Rightarrow> string set" where
  "seg_hashes ss = (\<Union>c \<in> (case ss of None \<Rightarrow> {} | Some cs \<Rightarrow> set cs). set (change_hashes c))"

lemma set_change_hashes: "set (change_hashes c) =
    set (version_hashes (ch_before c)) \<union> set (version_hashes (ch_after c)) \<union> seg_hashes (ch_segments c)"
  by (cases c) (auto simp: seg_hashes_def split: option.split)

lemma edit_ok_iff: "edit_ok H e \<longleftrightarrow>
    set (version_hashes (ed_before e)) \<subseteq> H \<and> set (version_hashes (or_absent (ed_after e))) \<subseteq> H \<and> seg_hashes (ed_segments e) \<subseteq> H"
  by (auto simp: edit_ok_def edit_hashes_def seg_hashes_def split: option.split)

lemma seg_hashes_simps [simp]: "seg_hashes None = {}" "seg_hashes (Some cs) = (\<Union>c \<in> set cs. set (change_hashes c))"
  by (simp_all add: seg_hashes_def)

lemma segments_of_ok: "edit_ok H e \<Longrightarrow> (\<Union>c \<in> set (segments_of p e). set (change_hashes c)) \<subseteq> H"
  by (cases "ed_segments e") (simp_all add: segments_of_def segment_def set_change_hashes edit_ok_iff)

lemma merged_ok: "edit_ok H t \<Longrightarrow> edit_ok H e \<Longrightarrow> edit_ok H (merged_edit p t e)"
  using segments_of_ok [of H t p] segments_of_ok [of H e p] by (simp add: merged_edit_def edit_ok_iff)

lemma merge_ok: "tracked_ok H tracked \<Longrightarrow> edit_ok H e \<Longrightarrow> tracked_ok H (mergeTrackedEdit p e tracked)"
proof -
  assume ok: "tracked_ok H tracked" and e: "edit_ok H e"
  have put: "tracked_ok H (jset p x tracked)" if "edit_ok H x" for x
    using ok that by (auto simp: tracked_ok_def dest!: set_mp [OF set_jset])
  show ?thesis
  proof (cases "jget tracked p")
    case (Some t)
    then have "edit_ok H t" using ok by (auto simp: tracked_ok_def dest: map_of_SomeD)
    then show ?thesis using put merged_ok e Some by (simp add: mergeTrackedEdit_def)
  qed (simp add: mergeTrackedEdit_def put e)
qed

lemma journal_change_fields:
  "journal_change files (p, t) = Some c \<Longrightarrow> ch_path c = p \<and> ch_before c = ed_before t \<and> ch_segments c = ed_segments t
     \<and> (ch_after c = or_absent (ed_after t) \<or> ch_after c = or_absent (jget files p))"
  by (cases "ed_after t") (auto simp: journal_change_def or_absent_def Let_def split: if_splits)

lemma change_hashes_journal: "edit_ok H t \<Longrightarrow> set (version_hashes (or_absent (jget files p))) \<subseteq> H \<Longrightarrow> journal_change files (p, t) = Some c \<Longrightarrow>
    set (change_hashes c) \<subseteq> H \<and> ch_path c = p"
  using journal_change_fields [of files p t c] by (auto simp: set_change_hashes edit_ok_iff)

lemma journal_change_set: "set (List.map_filter (journal_change files) tracked) = {c. \<exists>p t. (p, t) \<in> set tracked \<and> journal_change files (p, t) = Some c}"
  by (force simp: List.map_filter_def)

lemma map_filter_paths: "distinct (jkeys tracked) \<Longrightarrow> distinct (map ch_path (List.map_filter (journal_change files) tracked))"
proof (induction tracked)
  case (Cons x tracked)
  obtain p t where x: "x = (p, t)" by force
  have "p \<notin> ch_path ` set (List.map_filter (journal_change files) tracked)"
  proof
    assume "p \<in> ch_path ` set (List.map_filter (journal_change files) tracked)"
    then obtain c q u where "p = ch_path c" "(q, u) \<in> set tracked" "journal_change files (q, u) = Some c"
      by (auto simp: journal_change_set)
    then have "p \<in> set (jkeys tracked)" using journal_change_fields by force
    then show False using Cons.prems by (simp add: x)
  qed
  then show ?case using Cons journal_change_fields [of files p t] by (auto simp: x List.map_filter_simps split: option.splits)
qed (simp add: List.map_filter_simps)

lemma journal_changes_ok:
  assumes tracked: "tracked_ok H tracked" and files: "\<forall>(p, v) \<in> set files. set (version_hashes v) \<subseteq> H"
  shows "changes_ok H (journal_changes le files tracked)"
proof -
  have f: "set (version_hashes (or_absent (jget files p))) \<subseteq> H" for p
    using files by (auto simp: or_absent_def split: option.splits dest!: map_of_SomeD)
  have one: "set (change_hashes c) \<subseteq> H \<and> ch_path c = p" if "(p, t) \<in> set tracked" "journal_change files (p, t) = Some c" for p t c
    using that tracked change_hashes_journal [OF _ f] by (fastforce simp: tracked_ok_def)
  have "distinct (map ch_path (journal_changes le files tracked))"
    using tracked map_filter_paths [of tracked files] by (simp add: journal_changes_def distinct_map distinct_sort_by tracked_ok_def)
  moreover have "\<exists>p t. (p, t) \<in> set tracked \<and> journal_change files (p, t) = Some c" if "c \<in> set (journal_changes le files tracked)" for c
    using that by (simp add: journal_changes_def journal_change_set)
  ultimately show ?thesis using one unfolding changes_ok_def by meson
qed

section \<open>The steps of a turn\<close>

lemma find_own: "distinct (map cp_id cs) \<Longrightarrow> c \<in> set cs \<Longrightarrow> find (\<lambda>d. cp_id d = cp_id c) cs = Some c"
  by (induction cs) auto

lemma has_before_own: "store_ok digest S \<Longrightarrow> c \<in> set (st_manifests S) \<Longrightarrow> has_before S (cp_sessionId c) (cp_id c)"
  using find_own by (fastforce simp: has_before_def find_checkpoint_def store_ok_def)

lemma fresh_id: "store_ok digest S \<Longrightarrow> new_id S = (i, S') \<Longrightarrow> i \<notin> cp_id ` set (st_manifests S')"
proof
  assume ok: "store_ok digest S" and i: "new_id S = (i, S')" and "i \<in> cp_id ` set (st_manifests S')"
  then obtain c where c: "c \<in> set (st_manifests S)" "cp_id c = st_fresh S + 1" by (auto simp: new_id_def)
  then have "checkpoint_ok S c" using ok by (simp add: store_ok_def list_all_iff)
  then have "cp_id c \<le> st_fresh S" by (simp add: checkpoint_ok_def)
  then show False using c by simp
qed

lemma recover_edits_ok:
  "recover_edits digest es (tracked, S) = Inr (tracked', S') \<Longrightarrow> \<forall>e \<in> set es. edit_ok (hashes S) e \<Longrightarrow> tracked_ok (hashes S) tracked \<Longrightarrow>
     grown digest S S' \<and> tracked_ok (hashes S') tracked'"
proof (induction es arbitrary: tracked S)
  case (Cons e es)
  obtain t1 S1 where one: "recover_edit digest e (tracked, S) = Inr (t1, S1)" using Cons.prems(1) by (auto split: sum.splits)
  have e: "edit_ok (hashes S) e" using Cons.prems(2) by simp
  have "grown digest S S1 \<and> tracked_ok (hashes S1) t1"
  proof (cases "ed_after e")
    case (Some v)
    have "edit_ok (hashes S) (tracked_edit.truncate e)" using e by (simp add: edit_ok_def edit_hashes_def tracked_edit.defs)
    then show ?thesis using one Some merge_ok [OF Cons.prems(3)] by (auto simp: recover_edit_def)
  next
    case None
    obtain v where v: "captureFile digest (er_path e) S = Inr (v, S1)"
        "t1 = mergeTrackedEdit (er_path e) ((tracked_edit.truncate e)\<lparr>ed_after := Some v, ed_uncertain := True\<rparr>) tracked"
      using one None by (auto simp: recover_edit_def split: sum.splits)
    note cap = capture_ok [OF v(1)]
    have H: "hashes S \<subseteq> hashes S1" using cap(1) by (simp add: grown_def)
    have "tracked_ok (hashes S1) tracked" using Cons.prems(3) H by (fastforce simp: tracked_ok_def edit_ok_def)
    moreover have "edit_ok (hashes S1) ((tracked_edit.truncate e)\<lparr>ed_after := Some v, ed_uncertain := True\<rparr>)"
      using e H cap(2) by (auto simp: edit_ok_iff tracked_edit.defs or_absent_def)
    ultimately show ?thesis using cap(1) merge_ok unfolding v(2) by blast
  qed
  note first = this
  have "recover_edits digest es (t1, S1) = Inr (tracked', S')" using Cons.prems(1) one by simp
  moreover have "\<forall>e \<in> set es. edit_ok (hashes S1) e"
    using Cons.prems(2) first by (auto simp: grown_def intro!: edit_ok_mono [of "hashes S" "hashes S1"])
  ultimately have "grown digest S1 S' \<and> tracked_ok (hashes S') tracked'" using Cons.IH first by blast
  then show ?case using first grown_trans by blast
qed simp

lemma capture_checkpoint_ok:
  assumes "capture digest now sessionId turnId phase S = (c, S')" "store_ok digest S"
  shows "store_ok digest S'" "grown digest S S'" "checkpoint_ok S' c" "cp_id c \<notin> cp_id ` set (st_manifests S')"
    "\<forall>(p, v) \<in> set (cp_files c). set (version_hashes v) \<subseteq> hashes S'" "cp_sessionId c = sessionId" "cp_id c \<le> st_fresh S'"
    "st_disk S' = st_disk S" "st_heads S' = st_heads S" "st_scope S' = st_scope S"
proof -
  obtain fs S1 where fs: "capture_files digest (st_disk S) 0 S = (fs, S1)" by force
  obtain i S2 where i: "new_id S1 = (i, S2)" by force
  note cf = capture_files_ok [OF fs] and n = new_id_ok [OF i, of digest]
  have c: "S' = S2" "c = \<lparr>cp_id = i, cp_sessionId = sessionId, cp_turnId = turnId, cp_createdAt = now, cp_phase = phase, cp_complete = True,
           cp_files = fs, cp_contextHash = None, cp_beforeId = None, cp_changes = [], cp_supersedesId = None\<rparr>"
    using assms(1) fs i by (simp_all add: capture_def)
  have S1: "store_ok digest S1" using cf grown_store assms(2) by blast
  show "grown digest S S'" using cf n grown_trans unfolding c by blast
  then show "store_ok digest S'" using grown_store assms(2) by blast
  have "\<forall>(p, v) \<in> set fs. set (version_hashes v) \<subseteq> hashes S2" using cf n by (fastforce simp: grown_def)
  then show "\<forall>(p, v) \<in> set (cp_files c). set (version_hashes v) \<subseteq> hashes S'" "checkpoint_ok S' c"
    using n unfolding c by (simp_all add: checkpoint_ok_def changes_ok_def)
  show "cp_id c \<notin> cp_id ` set (st_manifests S')" using fresh_id [OF S1 i] by (simp add: c)
  show "cp_sessionId c = sessionId" "cp_id c \<le> st_fresh S'" using n by (simp_all add: c)
  show "st_disk S' = st_disk S" "st_heads S' = st_heads S" "st_scope S' = st_scope S" using cf n unfolding c by simp_all
qed

lemma recovered_changes_ok: "tracked_ok H tracked \<Longrightarrow> \<forall>(p, v) \<in> set files. set (version_hashes v) \<subseteq> H \<Longrightarrow>
    changes_ok H (recovered_changes le files tracked)"
proof -
  assume a: "tracked_ok H tracked" "\<forall>(p, v) \<in> set files. set (version_hashes v) \<subseteq> H"
  have u: "set (change_hashes (as_uncertain c)) = set (change_hashes c)" "ch_path (as_uncertain c) = ch_path c" for c
    by (cases c, simp add: as_uncertain_def)+
  have "map ch_path (recovered_changes le files tracked) = map ch_path (journal_changes le files tracked)"
    by (simp add: recovered_changes_def u)
  moreover have "set (change_hashes c) \<subseteq> H" if c: "c \<in> set (recovered_changes le files tracked)" for c
  proof -
    obtain b where "b \<in> set (journal_changes le files tracked)" "c = b \<or> c = as_uncertain b"
      using c by (auto simp: recovered_changes_def split: if_splits)
    then show ?thesis using journal_changes_ok [OF a, of le] u(1) by (auto simp: changes_ok_def)
  qed
  ultimately show ?thesis using journal_changes_ok [OF a, of le] by (simp add: changes_ok_def)
qed

lemma recover_ok:
  assumes go: "recoverInterrupted digest le now running sessionId S = Inr S'" and ok: "store_ok digest S"
  shows "store_ok digest S' \<and> extends S S'"
proof -
  define befores where "befores = filter (\<lambda>c. cp_phase c = BeforeTurn) (list_checkpoints sessionId S)"
  define orphan where "orphan = last befores"
  define edits where "edits = filter (\<lambda>e. er_beforeId e = cp_id orphan) (sort_by (\<lambda>a b. er_createdAt a \<le> er_createdAt b) (st_edits S))"
  define skip where "skip \<longleftrightarrow> befores = [] \<or> cp_id orphan \<in> set (List.map_filter cp_beforeId (filter (\<lambda>c. cp_phase c = AfterTurn)
      (list_checkpoints sessionId S))) \<or> running (cp_turnId orphan)"
  note body = go [unfolded recoverInterrupted_def Let_def, folded befores_def, folded orphan_def, folded edits_def, folded skip_def]
  show ?thesis
  proof (cases skip)
    case True
    then show ?thesis using body ok by simp
  next
    case False
    then obtain tracked S1 where r1: "recover_edits digest edits ([], S) = Inr (tracked, S1)" using body by (auto split: sum.splits)
    obtain after S2 where c: "capture digest now sessionId (cp_turnId orphan) AfterTurn S1 = (after, S2)" by force
    have S': "S' = save_checkpoint (after\<lparr>cp_beforeId := Some (cp_id orphan), cp_complete := False,
        cp_changes := recovered_changes le (cp_files after) tracked\<rparr>) S2"
      using body False r1 c by simp
    have "\<forall>e \<in> set edits. edit_ok (hashes S) e" using ok by (auto simp: edits_def store_ok_def list_all_iff)
    then have r: "grown digest S S1" "tracked_ok (hashes S1) tracked"
      using recover_edits_ok [OF r1] by (simp_all add: tracked_ok_def)
    have ok1: "store_ok digest S1" using grown_store [OF r(1) ok] .
    note cc = capture_checkpoint_ok [OF c ok1]
    have e: "extends S S2" using r(1) cc(2) grown_extends extends_trans by blast
    have "befores \<noteq> []" using False by (simp add: skip_def)
    then have "orphan \<in> set (st_manifests S)" "cp_sessionId orphan = sessionId"
      using last_in_set by (fastforce simp: orphan_def befores_def list_checkpoints_def Let_def)+
    then have "has_before S2 sessionId (cp_id orphan)" using has_before_own [OF ok] has_before_mono [OF e] by blast
    moreover have "tracked_ok (hashes S2) tracked" using r(2) cc(2) by (fastforce simp: tracked_ok_def edit_ok_def grown_def)
    then have "changes_ok (hashes S2) (recovered_changes le (cp_files after) tracked)" using recovered_changes_ok cc(5) by blast
    ultimately have "checkpoint_ok S2 (after\<lparr>cp_beforeId := Some (cp_id orphan), cp_complete := False,
        cp_changes := recovered_changes le (cp_files after) tracked\<rparr>)"
      using cc(5,6,7) by (simp add: checkpoint_ok_def)
    then show ?thesis using save_ok [OF cc(1)] cc(4) extends_trans [OF e save_extends] unfolding S' by simp
  qed
qed

text \<open>What a step of a turn keeps.\<close>

definition keeps :: "(string \<Rightarrow> string) \<Rightarrow> checkpoint_store \<Rightarrow> checkpoint_store \<Rightarrow> bool" where
  "keeps digest S S' \<longleftrightarrow> store_ok digest S' \<and> extends S S' \<and> st_disk S' = st_disk S"

lemma keeps_trans: "keeps digest S S' \<Longrightarrow> keeps digest S' S'' \<Longrightarrow> keeps digest S S''"
  by (auto simp: keeps_def extends_trans)

lemma keeps_grown: "store_ok digest S \<Longrightarrow> grown digest S S' \<Longrightarrow> st_disk S' = st_disk S \<Longrightarrow> keeps digest S S'"
  using grown_store grown_extends by (auto simp: keeps_def)

lemma keeps_edit: "store_ok digest S \<Longrightarrow> edit_ok (hashes S) e \<Longrightarrow> keeps digest S (saveEdit e S)"
  using save_edit_ok save_edit_extends by (auto simp: keeps_def saveEdit_def)

lemma recover_edit_disk: "recover_edits digest es (tracked, S) = Inr (tracked', S') \<Longrightarrow> st_disk S' = st_disk S"
proof (induction es arbitrary: tracked S)
  case (Cons e es)
  obtain t1 S1 where one: "recover_edit digest e (tracked, S) = Inr (t1, S1)" using Cons.prems(1) by (auto split: sum.splits)
  have "st_disk S1 = st_disk S"
    using one capture_ok(3) by (auto simp: recover_edit_def split: option.splits sum.splits)
  then show ?case using Cons one by simp
qed simp

lemma recover_disk: "recoverInterrupted digest le now running sessionId S = Inr S' \<Longrightarrow> st_disk S' = st_disk S"
proof -
  have c: "st_disk S2 = st_disk S1" if "capture digest now sessionId t phase S1 = (after, S2)" for t phase after and S1 S2
  proof -
    obtain fs S3 where "capture_files digest (st_disk S1) 0 S1 = (fs, S3)" by force
    then show ?thesis using that capture_files_ok [of digest "st_disk S1" 0 S1 fs S3] by (auto simp: capture_def new_id_def)
  qed
  show "recoverInterrupted digest le now running sessionId S = Inr S' \<Longrightarrow> ?thesis"
    unfolding recoverInterrupted_def Let_def
    by (fastforce split: if_splits sum.splits prod.splits dest: recover_edit_disk c simp: save_checkpoint_def)
qed

lemma begin_ok:
  assumes "beginTurn digest le now running sessionId turnId messages S = Inr (A, S')" "store_ok digest S"
  shows "keeps digest S S' \<and> history_ok S' A"
proof -
  obtain S1 where r: "recoverInterrupted digest le now running sessionId S = Inr S1" using assms(1) by (auto simp: beginTurn_def split: sum.splits)
  obtain i S2 where i: "new_id S1 = (i, S2)" by force
  obtain h S3 where h: "putObject digest messages S2 = Inr (h, S3)" using assms(1) r i by (auto simp: beginTurn_def split: sum.splits)
  define b where "b = \<lparr>cp_id = i, cp_sessionId = sessionId, cp_turnId = turnId, cp_createdAt = now, cp_phase = BeforeTurn,
      cp_complete = True, cp_files = [], cp_contextHash = Some h, cp_beforeId = None, cp_changes = [], cp_supersedesId = None\<rparr>"
  have out: "A = \<lparr>ah_before = b, ah_tracked = [], ah_pending = []\<rparr>" "S' = save_checkpoint b S3"
    using assms(1) r i h by (simp_all add: beginTurn_def b_def Let_def)
  have k1: "keeps digest S S1" using recover_ok [OF r assms(2)] recover_disk [OF r] by (simp add: keeps_def)
  have g: "grown digest S1 S3" using conjunct1 [OF new_id_ok [OF i, of digest]] put_ok(1) [OF h] by (rule grown_trans)
  have d: "st_disk S3 = st_disk S1" using new_id_ok [OF i] put_ok(3) [OF h] by simp
  have "store_ok digest S1" using k1 by (simp add: keeps_def)
  then have k: "keeps digest S S3" using keeps_trans [OF k1 keeps_grown [OF _ g d]] by blast
  then have ok3: "store_ok digest S3" by (simp add: keeps_def)
  have "st_manifests S3 = st_manifests S2" "st_fresh S2 \<le> st_fresh S3" using put_ok(1) [OF h] by (simp_all add: grown_def)
  moreover have "i \<le> st_fresh S2" using new_id_ok [OF i] by simp
  moreover have "store_ok digest S1" using k1 by (simp add: keeps_def)
  ultimately have b: "checkpoint_ok S3 b" "cp_id b \<notin> cp_id ` set (st_manifests S3)"
    using fresh_id [OF _ i] by (auto simp: b_def checkpoint_ok_def changes_ok_def)
  have ok: "store_ok digest S'" using save_ok [OF ok3 b] by (simp add: out)
  then have "has_before S' (cp_sessionId b) (cp_id b)" by (rule has_before_own) (simp add: out save_checkpoint_def)
  moreover have "keeps digest S3 S'" using ok save_extends by (simp add: keeps_def out) (simp add: save_checkpoint_def)
  ultimately show ?thesis using keeps_trans [OF k] by (simp add: out history_ok_def)
qed

lemma pending_put: "history_ok S A \<Longrightarrow> edit_ok (hashes S) e \<Longrightarrow> ed_segments e = None \<Longrightarrow> history_ok S (A\<lparr>ah_pending := jset p e (ah_pending A)\<rparr>)"
  by (auto simp: history_ok_def dest!: set_mp [OF set_jset])

lemma pending_done: "history_ok S A \<Longrightarrow> edit_ok (hashes S) e \<Longrightarrow>
    history_ok S (A\<lparr>ah_pending := jdelete p (ah_pending A), ah_tracked := mergeTrackedEdit p e (ah_tracked A)\<rparr>)"
  using merge_ok [of "hashes S" "ah_tracked A" e p] by (auto simp: history_ok_def tracked_ok_def AList.delete_eq)

lemma tracking_ok:
  assumes "trackEdit digest now unprotected p A S = Inr (A', S')" "store_ok digest S" "history_ok S A"
  shows "keeps digest S S' \<and> history_ok S' A'"
proof -
  obtain v S1 where v: "captureFile digest p S = Inr (v, S1)" using assms(1) by (auto simp: trackEdit_def split: sum.splits)
  obtain i S2 where i: "new_id S1 = (i, S2)" by force
  define e where "e = \<lparr>ed_before = v, ed_after = None, ed_source = None, ed_uncertain = False, ed_beforeRevision = Some (revision p S2),
      ed_afterRevision = None, ed_workspaceRevision = Some (st_scope S2), ed_segments = None, er_id = i,
      er_beforeId = cp_id (ah_before A), er_path = p, er_createdAt = now\<rparr>"
  have out: "A' = A\<lparr>ah_pending := jset p e (ah_pending A)\<rparr>" "S' = saveEdit e S2"
    using assms(1) v i by (auto simp: trackEdit_def e_def Let_def split: if_splits)
  note cap = capture_ok [OF v] and n = new_id_ok [OF i, of digest]
  have k: "keeps digest S S2" using assms(2) cap n keeps_grown grown_trans by metis
  have e: "edit_ok (hashes S2) e" using cap(2) n by (auto simp: e_def edit_ok_iff or_absent_def grown_def)
  have "store_ok digest S2" using k by (simp add: keeps_def)
  then have k': "keeps digest S2 S'" using keeps_edit [OF _ e] unfolding out(2) by blast
  have "history_ok S' A" using history_ok_mono assms(3) keeps_trans [OF k k'] by (metis keeps_def)
  moreover have "edit_ok (hashes S') e" using e by (simp add: out saveEdit_def)
  ultimately show ?thesis using keeps_trans [OF k k'] pending_put by (simp add: out e_def)
qed

lemma outcome_ok:
  assumes "edit_outcome digest written before disk S = Inr (v, S')" "set (version_hashes disk) \<subseteq> hashes S"
  shows "grown digest S S' \<and> set (version_hashes v) \<subseteq> hashes S' \<and> st_disk S' = st_disk S"
proof (cases written)
  case None
  then show ?thesis using assms by (simp add: edit_outcome_def)
next
  case (Some c)
  show ?thesis
  proof (cases "length c > MAX_FILE_BYTES")
    case True
    then show ?thesis using assms Some by (auto simp: edit_outcome_def)
  next
    case False
    then obtain h where h: "putObject digest c S = Inr (h, S')" and v: "v = written_version digest before disk c h"
      using assms(1) Some by (auto simp: edit_outcome_def split: sum.splits)
    have "version_hashes v = [h]" by (simp add: v written_version_def)
    then show ?thesis using put_ok [OF h] by simp
  qed
qed

lemma recorded_ok:
  assumes e: "edit_ok (hashes S) e" and v: "set (version_hashes v) \<subseteq> hashes S'" and g: "hashes S \<subseteq> hashes S'"
    and t: "t = e\<lparr>ed_after := Some v, ed_source := src, ed_uncertain := u, ed_afterRevision := n\<rparr>"
  shows "edit_ok (hashes S') t" "edit_ok (hashes S') (tracked_edit.truncate t)"
  using e v g by (auto simp: t edit_ok_iff or_absent_def tracked_edit.defs)

lemma recording_ok:
  assumes "recordEdit digest p written A S = Inr (A', S')" "store_ok digest S" "history_ok S A"
  shows "keeps digest S S' \<and> history_ok S' A'"
proof (cases "jget (ah_pending A) p")
  case None
  then show ?thesis using assms by (simp add: recordEdit_def keeps_def)
next
  case (Some e)
  obtain disk S1 where d: "captureFile digest p S = Inr (disk, S1)" using assms(1) Some by (auto simp: recordEdit_def split: sum.splits)
  obtain v S2 where v: "edit_outcome digest written (ed_before e) disk S1 = Inr (v, S2)"
    using assms(1) Some d by (auto simp: recordEdit_def split: sum.splits)
  define t where "t = e\<lparr>ed_after := Some v, ed_source := Some FileTool, ed_afterRevision := Some (er_id e)\<rparr>"
  have out: "A' = A\<lparr>ah_pending := jdelete p (ah_pending A), ah_tracked := mergeTrackedEdit p (tracked_edit.truncate t) (ah_tracked A)\<rparr>"
      "S' = advance p (er_id e) (saveEdit t S2)"
    using assms(1) Some d v by (simp_all add: recordEdit_def t_def Let_def)
  note cap = capture_ok [OF d]
  note o = outcome_ok [OF v cap(2)]
  have g: "grown digest S S2" using grown_trans [OF cap(1) conjunct1 [OF o]] .
  have k2: "keeps digest S S2" using keeps_grown [OF assms(2) g] cap(3) o by simp
  have H: "hashes S \<subseteq> hashes S2" using g by (simp add: grown_def)
  have "edit_ok (hashes S) e" using assms(3) Some by (auto simp: history_ok_def dest!: map_of_SomeD)
  then have t: "edit_ok (hashes S2) t" "edit_ok (hashes S2) (tracked_edit.truncate t)"
    using recorded_ok [where S = S and S' = S2 and v = v and e = e and t = t and src = "Some FileTool" and u = "ed_uncertain e" and n = "Some (er_id e)"] o H by (simp_all add: t_def)
  have "store_ok digest S2" using k2 by (simp add: keeps_def)
  then have k3: "keeps digest S2 (saveEdit t S2)" using keeps_edit [OF _ t(1)] by blast
  have "store_ok digest (saveEdit t S2)" using k3 by (simp add: keeps_def)
  then have "keeps digest (saveEdit t S2) S'" unfolding out(2) by (intro keeps_grown advance_grown) (simp_all add: advance_def)
  then have k: "keeps digest S S'" using keeps_trans [OF k2 keeps_trans [OF k3]] by blast
  have "hashes S' = hashes S2" by (simp add: out advance_def saveEdit_def)
  moreover have "extends S S'" using k by (simp add: keeps_def)
  then have "history_ok S' A" using history_ok_mono assms(3) by blast
  ultimately show ?thesis using k pending_done t(2) by (simp add: out(1))
qed

lemma fail_ok:
  assumes "failEdit digest p A S = (A', S')" "store_ok digest S" "history_ok S A"
  shows "keeps digest S S' \<and> history_ok S' A'"
proof (cases "jget (ah_pending A) p")
  case None
  then show ?thesis using assms by (simp add: failEdit_def keeps_def)
next
  case (Some e)
  show ?thesis
  proof (cases "captureFile digest p S")
    case (Inl x)
    then show ?thesis using assms Some by (simp add: failEdit_def keeps_def)
  next
    case (Inr vS)
    obtain v S1 where d: "captureFile digest p S = Inr (v, S1)" using Inr by (cases vS) simp
    define t where "t = e\<lparr>ed_after := Some v, ed_uncertain := True\<rparr>"
    have out: "A' = A\<lparr>ah_pending := jdelete p (ah_pending A), ah_tracked := mergeTrackedEdit p (tracked_edit.truncate t) (ah_tracked A)\<rparr>"
        "S' = saveEdit t S1"
      using assms(1) Some d by (simp_all add: failEdit_def t_def Let_def)
    note cap = capture_ok [OF d]
    have k1: "keeps digest S S1" using keeps_grown [OF assms(2) cap(1,3)] .
    have H: "hashes S \<subseteq> hashes S1" using cap(1) by (simp add: grown_def)
    have "edit_ok (hashes S) e" using assms(3) Some by (auto simp: history_ok_def dest!: map_of_SomeD)
    then have t: "edit_ok (hashes S1) t" "edit_ok (hashes S1) (tracked_edit.truncate t)"
      using recorded_ok [where S = S and S' = S1 and v = v and e = e and t = t and src = "ed_source e" and u = True and n = "ed_afterRevision e"] cap(2) H by (simp_all add: t_def)
    have "store_ok digest S1" using k1 by (simp add: keeps_def)
    then have k: "keeps digest S S'" unfolding out(2) using keeps_trans [OF k1 keeps_edit [OF _ t(1)]] by blast
    have "hashes S' = hashes S1" by (simp add: out saveEdit_def)
    moreover have "extends S S'" using k by (simp add: keeps_def)
    then have "history_ok S' A" using history_ok_mono assms(3) by blast
    ultimately show ?thesis using k pending_done t(2) by (simp add: out(1))
  qed
qed

lemma publishing_ok:
  assumes "store_ok digest S" "history_ok S A"
  shows "keeps digest S (publish le now finished A S)"
proof -
  obtain i S1 where i: "new_id S = (i, S1)" by force
  define c where "c = (ah_before A)\<lparr>cp_id := i, cp_phase := AfterTurn, cp_createdAt := now, cp_contextHash := None,
      cp_beforeId := Some (cp_id (ah_before A)), cp_complete := finished, cp_files := [], cp_changes := journal_changes le [] (ah_tracked A)\<rparr>"
  have out: "publish le now finished A S = save_checkpoint c S1" using i by (simp add: publish_def c_def)
  note n = new_id_ok [OF i, of digest]
  have k: "keeps digest S S1" using n keeps_grown [OF assms(1)] by blast
  then have ok: "store_ok digest S1" and e: "extends S S1" by (simp_all add: keeps_def)
  have h: "history_ok S1 A" using history_ok_mono [OF e assms(2)] .
  then have "tracked_ok (hashes S1) (ah_tracked A)" by (simp add: history_ok_def tracked_ok_def)
  then have "changes_ok (hashes S1) (cp_changes c)" using journal_changes_ok by (simp add: c_def)
  then have "checkpoint_ok S1 c" using n h by (simp add: checkpoint_ok_def c_def history_ok_def)
  moreover have "cp_id c \<notin> cp_id ` set (st_manifests S1)" using fresh_id [OF assms(1) i] by (simp add: c_def)
  ultimately have "keeps digest S1 (save_checkpoint c S1)" using save_ok [OF ok] save_extends by (simp add: keeps_def) (simp add: save_checkpoint_def)
  then show ?thesis using keeps_trans [OF k] unfolding out by blast
qed

section \<open>Previews\<close>

definition cumulated_ok :: "string set \<Rightarrow> (string \<times> file_change) list \<Rightarrow> bool" where
  "cumulated_ok H m \<longleftrightarrow> distinct (jkeys m) \<and> (\<forall>(p, c) \<in> set m. ch_path c = p \<and> set (change_hashes c) \<subseteq> H)"

lemma change_segments_ok: "set (change_hashes c) \<subseteq> H \<Longrightarrow> (\<Union>x \<in> set (case ch_segments c of None \<Rightarrow> [c] | Some ss \<Rightarrow> ss). set (change_hashes x)) \<subseteq> H"
  using set_change_hashes [of c] by (cases "ch_segments c") auto

lemma cumulate_ok: "cumulated_ok H m \<Longrightarrow> set (change_hashes c) \<subseteq> H \<Longrightarrow> cumulated_ok H (cumulate c m)"
proof -
  assume m: "cumulated_ok H m" and c: "set (change_hashes c) \<subseteq> H"
  have put: "cumulated_ok H (jset (ch_path c) d m)" if "ch_path d = ch_path c" "set (change_hashes d) \<subseteq> H" for d
    using m that by (auto simp: cumulated_ok_def dest!: set_mp [OF set_jset])
  note hc = c [unfolded set_change_hashes] and sc = change_segments_ok [OF c]
  show ?thesis
  proof (cases "jget m (ch_path c)")
    case None
    show ?thesis
      unfolding cumulate_def None option.case by (rule put) (use hc sc in \<open>simp_all add: set_change_hashes\<close>)
  next
    case (Some e)
    then have "set (change_hashes e) \<subseteq> H" using m by (auto simp: cumulated_ok_def dest!: map_of_SomeD)
    note he = this [unfolded set_change_hashes] and se = change_segments_ok [OF this]
    show ?thesis
      unfolding cumulate_def Some option.case Let_def
      by (rule put) (use hc sc he se in \<open>simp_all add: set_change_hashes\<close>)
  qed
qed

lemma fold_cumulate_ok: "cumulated_ok H m \<Longrightarrow> \<forall>c \<in> set cs. set (change_hashes c) \<subseteq> H \<Longrightarrow> cumulated_ok H (fold cumulate cs m)"
  by (induction cs arbitrary: m) (auto intro: cumulate_ok)

lemma restored_change_ok:
  assumes op: "op_ok S op" and f: "f \<in> set (rp_files op)" "pf_path f \<in> set (ro_applied op)"
  shows "set (change_hashes (restored_change op f)) \<subseteq> hashes S"
proof -
  obtain g where g: "g \<in> set (rp_files op)" "pf_path g = pf_path f" "pf_status g = Ready"
    using op f(2) by (auto simp: op_ok_def begun_def)
  have "distinct (map pf_path (rp_files op))" using op by (simp add: op_ok_def files_ok_def)
  then have "g = f" using g f(1) by (auto simp: distinct_map dest: inj_onD)
  then have "ready_ok (hashes S) f" "set (version_hashes (or_absent (pf_result f))) \<subseteq> hashes S"
    using op g f by (auto simp: op_ok_def files_ok_def)
  then show ?thesis by (cases "pf_result f") (simp_all add: restored_change_def set_change_hashes ready_ok_def or_absent_def)
qed

lemma happened_ok:
  assumes ok: "store_ok digest S" and records: "set records \<subseteq> set (st_manifests S)"
  shows "\<forall>c \<in> set (happened cp cutoff records S). set (change_hashes c) \<subseteq> hashes S"
proof
  fix c assume "c \<in> set (happened cp cutoff records S)"
  then consider r where "r \<in> set records" "c \<in> set (cp_changes r)"
    | op f where "op \<in> set (st_operations S)" "f \<in> set (rp_files op)" "pf_path f \<in> set (ro_applied op)" "c = restored_change op f"
    by (auto simp: happened_def Let_def)
  then show "set (change_hashes c) \<subseteq> hashes S"
  proof cases
    case (1 r)
    then have "checkpoint_ok S r" using ok records by (auto simp: store_ok_def list_all_iff)
    then show ?thesis using 1(2) by (simp add: checkpoint_ok_def changes_ok_def)
  next
    case (2 op f)
    then have "op_ok S op" using ok by (simp add: store_ok_def list_all_iff)
    then show ?thesis using 2 restored_change_ok by simp
  qed
qed

lemma select_ok:
  assumes go: "selectChanges cp scope S = Inr cs" and ok: "store_ok digest S" and cp: "cp \<in> set (st_manifests S)"
  shows "changes_ok (hashes S) cs"
proof (cases "scope = TurnScope")
  case True
  have "checkpoint_ok S cp" using ok cp by (simp add: store_ok_def list_all_iff)
  then show ?thesis using go True by (simp add: selectChanges_def checkpoint_ok_def)
next
  case False
  define records where "records = filter (\<lambda>c. cp_phase c = AfterTurn \<and> (scope = SessionScope \<or> cp_createdAt c \<ge> cp_createdAt cp))
      (list_checkpoints (cp_sessionId cp) S)"
  obtain start where start: "first_cutoff cp records S = Inr start"
    using go False unfolding selectChanges_def Let_def records_def [symmetric] by (auto split: sum.splits)
  define m where "m = fold cumulate (happened cp (if scope = SessionScope then start else cp_createdAt cp) records S) []"
  have cs: "cs = filter (\<lambda>c. ch_uncertain c \<or> \<not> same_version (ch_before c) (ch_after c)) (map snd m)"
    using go False start unfolding selectChanges_def Let_def records_def [symmetric] m_def by simp
  have "set records \<subseteq> set (st_manifests S)" by (auto simp: records_def list_checkpoints_def Let_def)
  then have m: "cumulated_ok (hashes S) m"
    unfolding m_def using happened_ok [OF ok] by (intro fold_cumulate_ok) (simp_all add: cumulated_ok_def)
  then have eq: "map ch_path (map snd m) = map fst m" by (auto simp: cumulated_ok_def)
  have "distinct (map ch_path (map snd m))" unfolding eq using m by (simp add: cumulated_ok_def)
  then have "distinct (map ch_path cs)" unfolding cs by (rule distinct_map_filter)
  moreover have "set (change_hashes c) \<subseteq> hashes S" if "(p, c) \<in> set m" for p c using m that by (auto simp: cumulated_ok_def)
  then have "\<forall>c \<in> set cs. set (change_hashes c) \<subseteq> hashes S" unfolding cs by fastforce
  ultimately show ?thesis by (simp add: changes_ok_def)
qed

lemma same_version_hashes: "same_version v w \<Longrightarrow> version_hashes v = version_hashes w"
  by (cases v; cases w) simp_all

lemma sameOnDisk_same: "sameOnDisk v w \<Longrightarrow> same_version v w"
  by (cases v; cases w) simp_all

lemma plan_files_ok:
  "plan_files digest S cs = Inr fs \<Longrightarrow> changes_ok (hashes S) cs \<Longrightarrow> files_ok (hashes S) fs \<and> map pf_path fs = map ch_path cs"
proof (induction cs arbitrary: fs)
  case (Cons c cs)
  obtain v where v: "seeFile digest (ch_path c) S = Inr v" using Cons.prems(1) by (auto split: sum.splits)
  obtain gs where gs: "plan_files digest S cs = Inr gs" using Cons.prems(1) v by (auto split: sum.splits)
  define f where "f = \<lparr>pf_path = ch_path c, pf_expected = v, pf_target = ch_before c,
      pf_status = change_status v (revision (ch_path c) S) (st_scope S) c, pf_source = ch_source c,
      pf_expectedRevision = revision (ch_path c) S, pf_resultRevision = None, pf_result = None\<rparr>"
  have fs: "fs = f # gs" using Cons.prems(1) v gs by (simp add: f_def)
  have rest: "files_ok (hashes S) gs \<and> map pf_path gs = map ch_path cs" using Cons.IH [OF gs] Cons.prems(2) by (auto simp: changes_ok_def)
  have h: "set (change_hashes c) \<subseteq> hashes S" using Cons.prems(2) by (simp add: changes_ok_def)
  have "ready_ok (hashes S) f" if "pf_status f = Ready"
  proof -
    have "sameOnDisk v (ch_after c)" using that by (auto simp: f_def change_status_def split: if_splits)
    then have "version_hashes v = version_hashes (ch_after c)" using sameOnDisk_same same_version_hashes by blast
    then show ?thesis using h by (simp add: ready_ok_def f_def set_change_hashes)
  qed
  moreover have paths: "map pf_path fs = map ch_path (c # cs)" using rest by (simp add: fs f_def)
  moreover have "distinct (map pf_path fs)" unfolding paths using Cons.prems(2) by (simp add: changes_ok_def)
  moreover have "pf_result f = None" by (simp add: f_def)
  ultimately show ?case using rest by (simp add: fs files_ok_def or_absent_def)
qed (simp add: files_ok_def)

lemma preview_ok:
  assumes "preview digest now sessionId i scope mode ctx S = Inr (plan, S')" "store_ok digest S"
  shows "keeps digest S S'"
proof -
  obtain cp where cp: "readCheckpoint i sessionId S = Inr cp" using assms(1) by (auto simp: preview_def split: sum.splits)
  then have cp': "cp \<in> set (st_manifests S)"
    by (auto simp: readCheckpoint_def find_checkpoint_def split: option.splits if_splits dest!: find_Some_in)
  obtain cs where cs: "selectChanges cp scope S = Inr cs"
    using assms(1) cp by (auto simp: preview_def Let_def split: sum.splits)
  obtain files where files: "plan_files digest S cs = Inr files"
    using assms(1) cp cs by (auto simp: preview_def Let_def split: sum.splits)
  obtain k S1 where k: "new_id S = (k, S1)" by force
  have out: "rp_files plan = files" "S' = S1\<lparr>st_plans := st_plans S1 @ [plan]\<rparr>"
    using assms(1) cp cs files k by (auto simp: preview_def Let_def split: sum.splits)
  have f: "files_ok (hashes S) files" using plan_files_ok [OF files select_ok [OF cs assms(2) cp']] by simp
  note n = new_id_ok [OF k, of digest]
  have k1: "keeps digest S S1" using n keeps_grown [OF assms(2)] by blast
  then have "store_ok digest S1" "files_ok (hashes S1) (rp_files plan)"
    using files_ok_mono [OF _ f, of "hashes S1"] by (auto simp: keeps_def extends_def out)
  then have "store_ok digest S'" unfolding out(2) by (rule add_plan_ok)
  then have "keeps digest S1 S'" by (simp add: keeps_def) (simp add: out(2) extends_def)
  then show ?thesis using keeps_trans [OF k1] by blast
qed

lemma undo_files_ok:
  "undo_files digest S op ps = Inr fs \<Longrightarrow> op_ok S op \<Longrightarrow> set ps \<subseteq> begun op \<Longrightarrow> distinct ps \<Longrightarrow>
     files_ok (hashes S) fs \<and> map pf_path fs = ps"
proof (induction ps arbitrary: fs)
  case (Cons p ps)
  obtain g where g: "find (\<lambda>f. pf_path f = p) (rp_files op) = Some g" using Cons.prems(1) by (auto split: option.splits)
  obtain v where v: "seeFile digest p S = Inr v" using Cons.prems(1) g by (auto split: sum.splits)
  obtain gs where gs: "undo_files digest S op ps = Inr gs" using Cons.prems(1) g v by (auto split: sum.splits)
  define f where "f = \<lparr>pf_path = p, pf_expected = v, pf_target = pf_expected g, pf_status = undo_status v (revision p S) (st_scope S) op g,
      pf_source = pf_source g, pf_expectedRevision = revision p S, pf_resultRevision = None, pf_result = None\<rparr>"
  have fs: "fs = f # gs" using Cons.prems(1) g v gs by (simp add: f_def)
  have rest: "files_ok (hashes S) gs \<and> map pf_path gs = ps" using Cons.IH [OF gs] Cons.prems by simp
  have gin: "g \<in> set (rp_files op)" "pf_path g = p" using find_Some_in [OF g] by simp_all
  obtain g' where g': "g' \<in> set (rp_files op)" "pf_path g' = p" "pf_status g' = Ready"
    using Cons.prems(2,3) by (auto simp: op_ok_def)
  have "distinct (map pf_path (rp_files op))" using Cons.prems(2) by (simp add: op_ok_def files_ok_def)
  then have "g' = g" using gin g' by (auto simp: distinct_map dest: inj_onD)
  then have h: "ready_ok (hashes S) g" "set (version_hashes (or_absent (pf_result g))) \<subseteq> hashes S"
    using Cons.prems(2) gin g' by (auto simp: op_ok_def files_ok_def)
  have "ready_ok (hashes S) f" if "pf_status f = Ready"
  proof -
    have "sameOnDisk v (case pf_result g of None \<Rightarrow> pf_target g | Some w \<Rightarrow> w)" using that by (auto simp: f_def undo_status_def split: if_splits)
    then have "version_hashes v = version_hashes (case pf_result g of None \<Rightarrow> pf_target g | Some w \<Rightarrow> w)"
      using sameOnDisk_same same_version_hashes by blast
    then show ?thesis using h by (cases "pf_result g") (simp_all add: ready_ok_def f_def or_absent_def)
  qed
  moreover have paths: "map pf_path fs = p # ps" using rest by (simp add: fs f_def)
  moreover have "distinct (map pf_path fs)" unfolding paths using Cons.prems(4) by simp
  moreover have "pf_result f = None" by (simp add: f_def)
  ultimately show ?case using rest by (simp add: fs files_ok_def or_absent_def)
qed (simp add: files_ok_def)

lemma affected_begun: "affected digest op S = Inr ps \<Longrightarrow> distinct ps \<and> set ps \<subseteq> begun op"
  by (auto simp: affected_def begun_def the_list_def split: option.splits sum.splits if_splits dest: find_Some_in)

lemma undo_preview_ok:
  assumes "undoPreview digest now sessionId i ctx S = Inr (plan, S')" "store_ok digest S"
  shows "keeps digest S S'"
proof -
  obtain op where op: "find (\<lambda>op. rp_id op = i) (st_operations S) = Some op" using assms(1) by (auto simp: undoPreview_def split: option.splits)
  obtain before where before: "readCheckpoint (ro_beforeId op) sessionId S = Inr before" "rp_sessionId op = sessionId"
    using assms(1) op by (auto simp: undoPreview_def Let_def split: if_splits sum.splits)
  obtain ps where ps: "affected digest op S = Inr ps" using assms(1) op before by (auto simp: undoPreview_def Let_def split: sum.splits)
  obtain files where files: "undo_files digest S op ps = Inr files"
    using assms(1) op before ps by (auto simp: undoPreview_def Let_def split: sum.splits)
  obtain k S1 where k: "new_id S = (k, S1)" by force
  have out: "rp_files plan = files" "S' = S1\<lparr>st_plans := st_plans S1 @ [plan]\<rparr>"
    using assms(1) op before ps files k by (auto simp: undoPreview_def Let_def)
  have "op \<in> set (st_operations S)" using find_Some_in [OF op] by simp
  then have "op_ok S op" using assms(2) by (simp add: store_ok_def list_all_iff)
  then have f: "files_ok (hashes S) files" using undo_files_ok [OF files] affected_begun [OF ps] by simp
  note n = new_id_ok [OF k, of digest]
  have k1: "keeps digest S S1" using n keeps_grown [OF assms(2)] by blast
  then have "store_ok digest S1" "files_ok (hashes S1) (rp_files plan)"
    using files_ok_mono [OF _ f, of "hashes S1"] by (auto simp: keeps_def extends_def out)
  then have "store_ok digest S'" unfolding out(2) by (rule add_plan_ok)
  then have "keeps digest S1 S'" by (simp add: keeps_def) (simp add: out(2) extends_def)
  then show ?thesis using keeps_trans [OF k1] by blast
qed

section \<open>Restores\<close>

text \<open>What a step of a restore keeps; the disk may change.\<close>

definition restores_on :: "(string \<Rightarrow> string) \<Rightarrow> checkpoint_store \<Rightarrow> restore_progress \<times> checkpoint_store \<Rightarrow> bool" where
  "restores_on digest S ps \<longleftrightarrow> store_ok digest (snd ps) \<and> extends S (snd ps)
     \<and> (case fst ps of Goes r \<Rightarrow> running_ok digest (snd ps) r | _ \<Rightarrow> True)"

lemma chosen_ready: "f \<in> set (chosen_files plan selected) \<Longrightarrow> f \<in> set (rp_files plan) \<and> pf_status f = Ready"
  by (auto simp: chosen_files_def split: if_splits)

lemma before_restore_ok:
  assumes "before_restore digest now plan S = (b, S')" "store_ok digest S"
  shows "store_ok digest S'" "grown digest S S'" "st_disk S' = st_disk S" "checkpoint_ok S' b" "cp_id b \<notin> cp_id ` set (st_manifests S')"
    "cp_sessionId b = rp_sessionId plan"
proof -
  have "store_ok digest S' \<and> grown digest S S' \<and> st_disk S' = st_disk S \<and> checkpoint_ok S' b \<and> cp_id b \<notin> cp_id ` set (st_manifests S')
      \<and> cp_sessionId b = rp_sessionId plan"
  proof (cases "rp_mode plan = RestoreConversation")
    case True
    obtain i S1 where i: "new_id S = (i, S1)" by force
    note n = new_id_ok [OF i, of digest]
    have out: "S' = S1" "cp_id b = i" "cp_files b = []" "cp_changes b = []" "cp_beforeId b = None" "cp_sessionId b = rp_sessionId plan"
      using assms(1) True i by (auto simp: before_restore_def)
    show ?thesis
      using n fresh_id [OF assms(2) i] grown_store [OF conjunct1 [OF n] assms(2)] by (simp add: out checkpoint_ok_def changes_ok_def)
  next
    case False
    then have "capture digest now (rp_sessionId plan) ''restore'' BeforeRestore S = (b, S')" using assms(1) by (simp add: before_restore_def)
    from capture_checkpoint_ok [OF this assms(2)] show ?thesis by simp
  qed
  then show "store_ok digest S'" "grown digest S S'" "st_disk S' = st_disk S" "checkpoint_ok S' b" "cp_id b \<notin> cp_id ` set (st_manifests S')"
    "cp_sessionId b = rp_sessionId plan" by simp_all
qed

lemma begin_restore_ok:
  assumes ok: "store_ok digest S" and files: "files_ok (hashes S) (rp_files plan)"
    and chosen: "\<forall>f \<in> set chosen. f \<in> set (rp_files plan) \<and> pf_status f = Ready"
  shows "restores_on digest S (begin_restore digest now plan chosen S) \<and> st_disk (snd (begin_restore digest now plan chosen S)) = st_disk S"
proof -
  obtain b S1 where b: "before_restore digest now plan S = (b, S1)" by force
  note br = before_restore_ok [OF b ok]
  define c where "c = b\<lparr>cp_contextHash := rp_contextBeforeHash plan\<rparr>"
  define S2 where "S2 = save_checkpoint c S1"
  define op where "op = restore_plan.extend (plan\<lparr>rp_createdAt := now\<rparr>)
      \<lparr>ro_status = Prepared, ro_beforeId = cp_id b, ro_applied = [], ro_pendingPath = None\<rparr>"
  have c: "checkpoint_ok S1 c" "cp_id c \<notin> cp_id ` set (st_manifests S1)" "cp_id c = cp_id b" "cp_sessionId c = rp_sessionId plan"
    using br by (simp_all add: c_def checkpoint_ok_def)
  have ok2: "store_ok digest S2" unfolding S2_def by (rule save_ok [OF br(1) c(1,2)])
  have e2: "extends S S2" unfolding S2_def by (rule extends_trans [OF grown_extends [OF br(2)] save_extends])
  have "c \<in> set (st_manifests S2)" by (simp add: S2_def save_checkpoint_def)
  then have "has_before S2 (rp_sessionId plan) (cp_id b)" using has_before_own [OF ok2] c(3,4) by metis
  moreover have H: "hashes S \<subseteq> hashes S2" using e2 by (simp add: extends_def)
  ultimately have op: "op_ok S2 (op\<lparr>ro_status := st\<rparr>)" for st
    using files_ok_mono [OF H files] by (simp add: op_ok_def op_def restore_plan.defs begun_def the_list_def)
  then have op0: "op_ok S2 op" using op [of Prepared] by (simp add: op_def restore_plan.defs)
  define S3 where "S3 = write_operation op S2"
  have ok3: "store_ok digest S3" "extends S2 S3" unfolding S3_def using write_op_ok [OF ok2 op0] write_op_extends by blast+
  have op3: "op_ok S3 (op\<lparr>ro_status := st\<rparr>)" for st using op_ok_mono [OF ok3(2) op] .
  have S4: "store_ok digest (write_operation (op\<lparr>ro_status := st\<rparr>) S3)" "extends S (write_operation (op\<lparr>ro_status := st\<rparr>) S3)" for st
    using write_op_ok [OF ok3(1) op3] extends_trans [OF extends_trans [OF e2 ok3(2)] write_op_extends] by blast+
  have disk: "st_disk (write_operation (op\<lparr>ro_status := st\<rparr>) S3) = st_disk S" for st
    using br(3) by (simp add: S3_def S2_def write_operation_def save_checkpoint_def)
  have out: "begin_restore digest now plan chosen S =
      (if rp_mode plan = RestoreConversation then (Ended, write_operation (op\<lparr>ro_status := Complete\<rparr>) S3)
       else (Goes \<lparr>rr_op = op\<lparr>ro_status := Applying\<rparr>, rr_todo = chosen, rr_phase = Check\<rparr>, write_operation (op\<lparr>ro_status := Applying\<rparr>) S3))"
    by (simp add: begin_restore_def b c_def S2_def op_def S3_def Let_def)
  have "running_ok digest (write_operation (op\<lparr>ro_status := Applying\<rparr>) S3) \<lparr>rr_op = op\<lparr>ro_status := Applying\<rparr>, rr_todo = chosen, rr_phase = Check\<rparr>"
  proof -
    have "files_ok (hashes (write_operation (op\<lparr>ro_status := Applying\<rparr>) S3)) (rp_files plan)"
      using files_ok_mono [OF _ files] S4(2) by (simp add: extends_def)
    then show ?thesis
      using chosen op_ok_mono [OF write_op_extends op3]
      by (auto simp: running_ok_def phase_ok_def files_ok_def op_def restore_plan.defs)
  qed
  then show ?thesis using S4 disk unfolding out by (simp add: restores_on_def)
qed

lemma starting_ok:
  assumes ok: "store_ok digest S"
  shows "restores_on digest S (start_restore digest now sessionId planId selected S)"
proof -
  have stop: "restores_on digest S (Failed e, S)" "restores_on digest S (Ended, S)" for e
    using ok by (simp_all add: restores_on_def)
  show ?thesis
  proof (cases "readPlan sessionId planId S")
    case (Inl e)
    then show ?thesis using stop by (simp add: start_restore_def)
  next
    case (Inr plan)
    have plan: "plan \<in> set (st_plans S)"
      using Inr by (auto simp: readPlan_def split: option.splits if_splits dest: find_Some_in)
    have "files_ok (hashes S) (rp_files plan)" using ok plan by (simp add: store_ok_def list_all_iff)
    then have "restores_on digest S (begin_restore digest now plan (chosen_files plan selected) S)"
      using begin_restore_ok [OF ok] chosen_ready by blast
    then show ?thesis using stop Inr by (simp add: start_restore_def split: option.split)
  qed
qed

lemma mkdirs_grown: "grown digest S (mkdirs qs S)"
proof (induction qs arbitrary: S)
  case (Cons q qs)
  define T where "T = (if jhas (st_disk S) q then S else S\<lparr>st_disk := jset q (Directory (st_fresh S + 1)) (st_disk S), st_fresh := st_fresh S + 1\<rparr>)"
  have "grown digest S T" by (simp add: T_def grown_def objects_ok_def)
  then have "grown digest S (mkdirs qs T)" using Cons.IH by (rule grown_trans)
  then show ?case by (simp only: mkdirs.simps T_def)
qed simp

lemma apply_grown: "applyFile digest p v S = Inr S' \<Longrightarrow> grown digest S S'"
proof -
  assume a: "applyFile digest p v S = Inr S'"
  have d: "grown digest S (S\<lparr>st_disk := d\<rparr>)" for d by (simp add: grown_def objects_ok_def)
  have e: "grown digest S ((snd (new_id (mkdirs qs S)))\<lparr>st_disk := d\<rparr>)" for qs d
  proof -
    have "grown digest (mkdirs qs S) ((snd (new_id (mkdirs qs S)))\<lparr>st_disk := d\<rparr>)" by (simp add: new_id_def grown_def objects_ok_def)
    then show ?thesis using mkdirs_grown grown_trans by blast
  qed
  show ?thesis
    using a d e by (auto simp: applyFile_def Let_def new_id_def split: fileVersion.splits sum.splits option.splits disk_entry.splits)
qed

lemma see_cong: "st_disk S' = st_disk S \<Longrightarrow> seeFile digest p S' = seeFile digest p S"
  by (simp add: seeFile_def resolveFile_def)

lemma phase_ok_mono: "extends S S' \<Longrightarrow> st_disk S' = st_disk S \<Longrightarrow> phase_ok digest S r \<Longrightarrow> phase_ok digest S' r"
  by (cases "rr_phase r"; cases "rr_todo r") (auto simp: phase_ok_def extends_def see_cong [of S' S])

lemma running_ok_mono: "extends S S' \<Longrightarrow> st_disk S' = st_disk S \<Longrightarrow> running_ok digest S r \<Longrightarrow> running_ok digest S' r"
proof -
  assume e: "extends S S'" and d: "st_disk S' = st_disk S" and r: "running_ok digest S r"
  have H: "hashes S \<subseteq> hashes S'" using e by (simp add: extends_def)
  show ?thesis
    using r phase_ok_mono [OF e d] op_ok_mono [OF e] ready_ok_mono [OF H] unfolding running_ok_def by blast
qed

lemma fails_ok: "store_ok digest S \<Longrightarrow> running_ok digest S r \<Longrightarrow> restores_on digest S (restore_fails e r S)"
proof -
  assume ok: "store_ok digest S" and r: "running_ok digest S r"
  then have "op_ok S ((rr_op r)\<lparr>ro_status := NeedsRecovery\<rparr>)" by (simp add: running_ok_def op_ok_def begun_def)
  then show ?thesis using write_op_ok [OF ok] write_op_extends by (simp add: restores_on_def restore_fails_def)
qed

lemma goes_on_ok:
  assumes "store_ok digest S" "op_ok S (rr_op r)" "extends S0 S" "phase_ok digest S r"
    and "\<forall>f \<in> set (rr_todo r). ready_ok (hashes S) f \<and> pf_path f \<in> pf_path ` {f \<in> set (rp_files (rr_op r)). pf_status f = Ready}"
  shows "restores_on digest S0 (Goes r, S)"
  using assms by (simp add: restores_on_def running_ok_def)

lemma restore_step_ok:
  assumes ok: "store_ok digest S" and r: "running_ok digest S r"
  shows "restores_on digest S (restore_step digest r S)"
proof (cases "rr_todo r")
  case Nil
  have "op_ok S ((rr_op r)\<lparr>ro_status := Complete\<rparr>)" using r by (simp add: running_ok_def op_ok_def begun_def)
  then show ?thesis using write_op_ok [OF ok] write_op_extends Nil by (simp add: restores_on_def restore_step_def)
next
  case (Cons f fs)
  have op: "op_ok S (rr_op r)" and todo: "\<forall>g \<in> set (f # fs). ready_ok (hashes S) g \<and> pf_path g \<in> pf_path ` {g \<in> set (rp_files (rr_op r)). pf_status g = Ready}"
    using r Cons by (simp_all add: running_ok_def)
  have phase: "phase_ok digest S r" using r by (simp add: running_ok_def)
  show ?thesis
  proof (cases "rr_phase r")
    case Check
    show ?thesis
    proof (cases "still_expected digest f S")
      case (Inl e)
      then show ?thesis using fails_ok [OF ok r] Cons Check by (simp add: restore_step_def)
    next
      case (Inr b)
      show ?thesis
      proof (cases b)
        case False
        then show ?thesis using fails_ok [OF ok r] Cons Check Inr by (simp add: restore_step_def)
      next
        case True
        define op' where "op' = (rr_op r)\<lparr>ro_pendingPath := Some (pf_path f)\<rparr>"
        have op': "op_ok S op'" using op todo by (auto simp: op'_def op_ok_def begun_def the_list_def)
        let ?S = "write_operation op' S"
        have d: "st_disk ?S = st_disk S" and H: "hashes ?S = hashes S" by (simp_all add: write_operation_def)
        have "phase_ok digest ?S (r\<lparr>rr_op := op', rr_phase := Replace\<rparr>)"
          using Inr True Cons see_cong [OF d] by (auto simp: phase_ok_def still_expected_def split: sum.splits)
        then have "restores_on digest S (Goes (r\<lparr>rr_op := op', rr_phase := Replace\<rparr>), ?S)"
          using write_op_ok [OF ok op'] op_ok_mono [OF write_op_extends op'] write_op_extends todo Cons H
          by (intro goes_on_ok) (simp_all add: op'_def)
        then show ?thesis using Cons Check Inr True by (simp add: restore_step_def op'_def Let_def)
      qed
    qed
  next
    case Replace
    show ?thesis
    proof (cases "applyFile digest (pf_path f) (pf_target f) S")
      case (Inl e)
      then show ?thesis using fails_ok [OF ok r] Cons Replace by (simp add: restore_step_def)
    next
      case (Inr S1)
      note g = apply_grown [OF Inr]
      have H: "hashes S \<subseteq> hashes S1" using g by (simp add: grown_def)
      have "restores_on digest S (Goes (r\<lparr>rr_phase := Look\<rparr>), S1)"
        using grown_store [OF g ok] op_ok_mono [OF grown_extends [OF g] op] grown_extends [OF g] todo Cons ready_ok_mono [OF H]
        by (intro goes_on_ok) (auto simp: phase_ok_def)
      then show ?thesis using Cons Replace Inr by (simp add: restore_step_def)
    qed
  next
    case Look
    show ?thesis
    proof (cases "captureFile digest (pf_path f) S")
      case (Inl e)
      then show ?thesis using fails_ok [OF ok r] Cons Look by (simp add: restore_step_def)
    next
      case (Inr vS)
      obtain v S1 where v: "captureFile digest (pf_path f) S = Inr (v, S1)" using Inr by (cases vS) simp
      note cap = capture_ok [OF v]
      have H: "hashes S \<subseteq> hashes S1" using cap(1) by (simp add: grown_def)
      have "restores_on digest S (Goes (r\<lparr>rr_phase := Advance v\<rparr>), S1)"
        using grown_store [OF cap(1) ok] op_ok_mono [OF grown_extends [OF cap(1)] op] grown_extends [OF cap(1)] todo Cons ready_ok_mono [OF H] cap(2)
        by (intro goes_on_ok) (auto simp: phase_ok_def)
      then show ?thesis using Cons Look v by (simp add: restore_step_def)
    qed
  next
    case (Advance v)
    obtain i S1 where i: "new_id S = (i, S1)" by force
    have g: "grown digest S (advance (pf_path f) i S1)" using new_id_ok [OF i, of digest] advance_grown grown_trans by blast
    have H: "hashes S \<subseteq> hashes (advance (pf_path f) i S1)" using g by (simp add: grown_def)
    have "restores_on digest S (Goes (r\<lparr>rr_phase := Record v i\<rparr>), advance (pf_path f) i S1)"
      using grown_store [OF g ok] op_ok_mono [OF grown_extends [OF g] op] grown_extends [OF g] todo Cons ready_ok_mono [OF H] phase Advance H
      by (intro goes_on_ok) (auto simp: phase_ok_def)
    then show ?thesis using Cons Advance i by (simp add: restore_step_def)
  next
    case (Record v i)
    define op' where "op' = (rr_op r)\<lparr>rp_files := map (record_result (pf_path f) v i) (rp_files (rr_op r)),
        ro_applied := ro_applied (rr_op r) @ [pf_path f], ro_pendingPath := None\<rparr>"
    have rec: "pf_path (record_result p v i g) = pf_path g" "pf_status (record_result p v i g) = pf_status g"
      "ready_ok H (record_result p v i g) = ready_ok H g" for p g H
      by (simp_all add: record_result_def ready_ok_def)
    have paths: "pf_path ` {g \<in> set (rp_files op'). pf_status g = Ready} = pf_path ` {g \<in> set (rp_files (rr_op r)). pf_status g = Ready}"
      by (force simp: op'_def rec image_iff)
    have "set (version_hashes v) \<subseteq> hashes S" using phase Record by (simp add: phase_ok_def)
    then have files: "files_ok (hashes S) (rp_files op')"
      using op by (auto simp: op'_def op_ok_def files_ok_def rec comp_def) (auto simp: record_result_def or_absent_def split: if_splits)
    have op': "op_ok S op'"
      unfolding op_ok_def paths using op files todo by (auto simp: op_ok_def op'_def begun_def the_list_def)
    have H: "hashes (write_operation op' S) = hashes S" by (simp add: write_operation_def)
    have "restores_on digest S (Goes \<lparr>rr_op = op', rr_todo = fs, rr_phase = Check\<rparr>, write_operation op' S)"
      using write_op_ok [OF ok op'] op_ok_mono [OF write_op_extends op'] write_op_extends todo H paths
      by (intro goes_on_ok) (simp_all add: phase_ok_def)
    then show ?thesis using Cons Record by (simp add: restore_step_def op'_def Let_def)
  qed
qed

section \<open>Pruning\<close>

lemma expand_keep_closed:
  "finite keep \<Longrightarrow> c \<in> set ms \<Longrightarrow> cp_id c \<in> expand_keep ms keep \<Longrightarrow> cp_beforeId c = Some b \<Longrightarrow> b \<in> expand_keep ms keep"
proof (induction ms keep rule: expand_keep.induct)
  case (1 ms keep)
  define larger where "larger = fold expand_by ms keep"
  have bounds: "keep \<subseteq> larger" "larger \<subseteq> keep \<union> \<Union> (mentioned ` set ms)" using expand_once_bounds [of keep ms] by (simp_all add: larger_def)
  have fin: "finite larger" using finite_subset [OF bounds(2)] finite_mentioned 1(2) by simp
  have step: "expand_keep ms keep = (if card larger = card keep then larger else expand_keep ms larger)"
    by (subst expand_keep.simps) (simp add: larger_def Let_def)
  show ?case
  proof (cases "card larger = card keep")
    case False
    then show ?thesis using 1(1) [OF larger_def False fin 1(3)] 1(4,5) step by simp
  next
    case True
    then have same: "larger = keep" using card_subset_eq [OF fin bounds(1)] by simp
    have "expand_by c keep \<subseteq> fold expand_by ms keep" if cm: "c \<in> set ms" for ms
    proof -
      obtain xs ys where ms: "ms = xs @ c # ys" using split_list [OF cm] by blast
      have "keep \<subseteq> fold expand_by xs keep" using expand_once_bounds by blast
      moreover have mono: "expand_by c A \<subseteq> expand_by c B" if "A \<subseteq> B" for A B
        using that by (auto simp: expand_by_def Let_def split: option.splits)
      ultimately have "expand_by c keep \<subseteq> expand_by c (fold expand_by xs keep)" by blast
      also have "\<dots> \<subseteq> fold expand_by ys (expand_by c (fold expand_by xs keep))" using expand_once_bounds by blast
      finally show ?thesis by (simp add: ms)
    qed
    then have "expand_by c keep \<subseteq> keep" using 1(3) same larger_def by blast
    then show ?thesis using 1(4,5) step True same by (auto simp: expand_by_def Let_def the_list_def split: if_splits)
  qed
qed

lemma expand_keep_roots: "keep \<subseteq> expand_keep ms keep"
proof (induction ms keep rule: expand_keep.induct)
  case (1 ms keep)
  have step: "expand_keep ms keep = (if card (fold expand_by ms keep) = card keep then fold expand_by ms keep
      else expand_keep ms (fold expand_by ms keep))"
    by (subst expand_keep.simps) (simp add: Let_def)
  show ?case using 1 [OF refl] expand_once_bounds [of keep ms] step by auto
qed

lemma retained_roots: "op \<in> set (retained_operations retain s S) \<Longrightarrow>
    op \<in> set (st_operations S) \<and> rp_sessionId op = s \<and> ro_beforeId op \<in> set (session_roots retain s S)"
proof -
  assume op: "op \<in> set (retained_operations retain s S)"
  then have "ro_beforeId op \<in> set (session_roots retain s S)" unfolding session_roots_def Let_def by auto
  moreover have "op \<in> set (st_operations S) \<and> rp_sessionId op = s"
    using op by (auto simp: retained_operations_def newest_def Let_def dest!: set_zip_rightD)
  ultimately show ?thesis by blast
qed

lemma find_kept: "find (\<lambda>c. cp_id c = i) (filter (\<lambda>c. cp_id c \<in> keep) cs) = (if i \<in> keep then find (\<lambda>c. cp_id c = i) cs else None)"
  by (induction cs) auto

lemma fst_filter: "fst ` set (filter (\<lambda>(h, _). h \<in> A) xs) = fst ` set xs \<inter> A"
  by (induction xs) auto

lemma union_there: "x \<in> A \<Longrightarrow> set (f x) \<subseteq> \<Union> (set ` f ` A)"
  by blast

lemma prune_ok:
  assumes ok: "store_ok digest S"
  shows "store_ok digest (pruneUnpinned retain now S)"
proof -
  let ?S = "pruneUnpinned retain now S"
  define keep where "keep = kept_ids retain now S"
  define roots where "roots = set (concat (map (\<lambda>s. session_roots retain s S) (dedupe (map cp_sessionId (st_manifests S))))
      @ map rp_checkpointId (filter (\<lambda>p. now - rp_createdAt p \<le> MAX_PLAN_AGE) (st_plans S)))"
  have keep: "keep = expand_keep (st_manifests S) roots" by (simp add: keep_def kept_ids_def roots_def Let_def)
  have closed: "b \<in> keep" if "c \<in> set (st_manifests S)" "cp_id c \<in> keep" "cp_beforeId c = Some b" for b c
    using expand_keep_closed [of roots c] that by (simp add: keep roots_def)
  have manifests: "st_manifests ?S = filter (\<lambda>c. cp_id c \<in> keep) (st_manifests S)" by (simp add: pruneUnpinned_def Let_def keep_def)
  have before: "has_before ?S s i" if "has_before S s i" "i \<in> keep" for s i
    using that by (simp add: has_before_def find_checkpoint_def manifests find_kept)
  define R where "R = \<Union> (set ` checkpoint_hashes ` set (st_manifests ?S)) \<union> \<Union> (set ` plan_hashes ` set (st_operations ?S))
      \<union> \<Union> (set ` plan_hashes ` set (st_plans ?S)) \<union> \<Union> (set ` edit_hashes ` set (st_edits ?S))"
  have "st_objects ?S = filter (\<lambda>(h, _). h \<in> set (concat (map checkpoint_hashes (st_manifests ?S)) @ concat (map plan_hashes (st_operations ?S))
      @ concat (map plan_hashes (st_plans ?S)) @ concat (map edit_hashes (st_edits ?S)))) (st_objects S)"
    unfolding pruneUnpinned_def Let_def by simp
  then have hashes_R: "hashes ?S = hashes S \<inter> R" unfolding hashes_def R_def by (simp only: fst_filter set_append set_concat set_map Un_assoc)
  have H: "xs \<subseteq> hashes ?S" if "xs \<subseteq> hashes S" "xs \<subseteq> R" for xs
    unfolding hashes_R by (rule Int_greatest [OF that])
  have R_manifest: "set (checkpoint_hashes c) \<subseteq> R" if "c \<in> set (st_manifests ?S)" for c unfolding R_def by (rule le_supI1 [OF le_supI1 [OF le_supI1 [OF union_there [OF that]]]])
  have R_operation: "set (plan_hashes p) \<subseteq> R" if "p \<in> set (st_operations ?S)" for p unfolding R_def by (rule le_supI1 [OF le_supI1 [OF le_supI2 [OF union_there [OF that]]]])
  have R_plan: "set (plan_hashes p) \<subseteq> R" if "p \<in> set (st_plans ?S)" for p unfolding R_def by (rule le_supI1 [OF le_supI2 [OF union_there [OF that]]])
  have R_edit: "set (edit_hashes e) \<subseteq> R" if "e \<in> set (st_edits ?S)" for e unfolding R_def by (rule le_supI2 [OF union_there [OF that]])
  have kept_op: "op \<in> set (st_operations S)" "ro_beforeId op \<in> keep" if opin: "op \<in> set (st_operations ?S)" for op
  proof -
    show 1: "op \<in> set (st_operations S)" using opin by (simp add: pruneUnpinned_def Let_def)
    obtain s o' where o': "s \<in> set (map cp_sessionId (st_manifests S))" "o' \<in> set (retained_operations retain s S)" "rp_id op = rp_id o'"
      using opin by (auto simp: pruneUnpinned_def Let_def)
    have "o' = op" using ok 1 o' retained_roots by (fastforce simp: store_ok_def distinct_map dest: inj_onD)
    then have "ro_beforeId op \<in> roots" using o' retained_roots by (fastforce simp: roots_def)
    then show "ro_beforeId op \<in> keep" using expand_keep_roots by (auto simp: keep)
  qed
  have files: "files_ok (hashes ?S) fs" if fs: "files_ok (hashes S) fs" and sub: "\<And>f. f \<in> set fs \<Longrightarrow> set (plan_file_hashes f) \<subseteq> R" for fs
    unfolding files_ok_def
  proof (intro conjI ballI)
    fix f assume f: "f \<in> set fs"
    note sub = sub [OF f]
    have ok: "(pf_status f = Ready \<longrightarrow> ready_ok (hashes S) f) \<and> set (version_hashes (or_absent (pf_result f))) \<subseteq> hashes S"
      using fs f unfolding files_ok_def by blast
    show "set (version_hashes (or_absent (pf_result f))) \<subseteq> hashes ?S" using ok sub by (intro H) (simp_all add: plan_file_hashes_def)
    show "pf_status f = Ready \<longrightarrow> ready_ok (hashes ?S) f"
    proof
      assume "pf_status f = Ready"
      then have r: "ready_ok (hashes S) f" using ok by blast
      have "set (version_hashes (pf_expected f)) \<subseteq> hashes ?S" using r sub by (intro H) (simp_all add: ready_ok_def plan_file_hashes_def)
      moreover have "set (version_hashes (pf_target f)) \<subseteq> hashes ?S" using r sub by (intro H) (simp_all add: ready_ok_def plan_file_hashes_def)
      ultimately show "ready_ok (hashes ?S) f" by (simp add: ready_ok_def)
    qed
  next
    show "distinct (map pf_path fs)" using fs unfolding files_ok_def by blast
  qed
  show ?thesis
    unfolding store_ok_def list_all_iff
  proof (intro conjI ballI)
    show "objects_ok digest ?S" using ok by (auto simp: store_ok_def objects_ok_def pruneUnpinned_def Let_def)
    show "distinct (map cp_id (st_manifests ?S))" using ok by (simp add: manifests store_ok_def distinct_map_filter)
    show "distinct (map rp_id (st_operations ?S))" using ok by (simp add: pruneUnpinned_def Let_def store_ok_def distinct_map_filter)
  next
    fix c assume c: "c \<in> set (st_manifests ?S)"
    then have c': "c \<in> set (st_manifests S)" "cp_id c \<in> keep" by (simp_all add: manifests)
    then have okc: "checkpoint_ok S c" using ok by (simp add: store_ok_def list_all_iff)
    have h: "X \<subseteq> hashes ?S" if "X \<subseteq> hashes S" "X \<subseteq> set (checkpoint_hashes c)" for X
      by (rule H [OF that(1) subset_trans [OF that(2) R_manifest [OF c]]])
    show "checkpoint_ok ?S c"
      unfolding checkpoint_ok_def
    proof (intro conjI allI impI ballI)
      show "cp_id c \<le> st_fresh ?S" using okc by (simp add: checkpoint_ok_def pruneUnpinned_def Let_def)
      show "has_before ?S (cp_sessionId c) i" if "cp_beforeId c = Some i" for i
        using okc that closed [OF c' that] before by (simp add: checkpoint_ok_def)
      show "changes_ok (hashes ?S) (cp_changes c)"
        unfolding changes_ok_def
      proof (intro conjI ballI)
        fix x assume x: "x \<in> set (cp_changes c)"
        have "set (change_hashes x) \<subseteq> hashes S" using okc x unfolding checkpoint_ok_def changes_ok_def by blast
        moreover have "set (change_hashes x) \<subseteq> set (checkpoint_hashes c)" using x by (auto simp: checkpoint_hashes_def)
        ultimately show "set (change_hashes x) \<subseteq> hashes ?S" by (rule h)
      next
        show "distinct (map ch_path (cp_changes c))" using okc unfolding checkpoint_ok_def changes_ok_def by blast
      qed
    next
      fix x assume x: "x \<in> set (cp_files c)"
      have "set (version_hashes (snd x)) \<subseteq> hashes ?S"
        using okc x by (intro h) (auto simp: checkpoint_ok_def checkpoint_hashes_def case_prod_beta)
      then show "case x of (p, v) \<Rightarrow> set (version_hashes v) \<subseteq> hashes ?S" by (cases x) simp
    qed
  next
    fix p assume p: "p \<in> set (st_plans ?S)"
    then have "p \<in> set (st_plans S)" by (simp add: pruneUnpinned_def Let_def)
    then have okp: "files_ok (hashes S) (rp_files p)" using ok by (simp add: store_ok_def list_all_iff)
    show "files_ok (hashes ?S) (rp_files p)"
    proof (rule files [OF okp])
      fix f assume "f \<in> set (rp_files p)"
      then have "set (plan_file_hashes f) \<subseteq> set (plan_hashes p)" by (auto simp: plan_hashes_def)
      then show "set (plan_file_hashes f) \<subseteq> R" by (rule subset_trans [OF _ R_plan [OF p]])
    qed
  next
    fix op assume op: "op \<in> set (st_operations ?S)"
    have oko: "op_ok S op" using ok kept_op(1) [OF op] by (simp add: store_ok_def list_all_iff)
    have "files_ok (hashes ?S) (rp_files op)"
    proof (rule files)
      show "files_ok (hashes S) (rp_files op)" using oko by (simp add: op_ok_def)
    next
      fix f assume "f \<in> set (rp_files op)"
      then have "set (plan_file_hashes f) \<subseteq> set (plan_hashes op)" by (auto simp: plan_hashes_def)
      then show "set (plan_file_hashes f) \<subseteq> R" by (rule subset_trans [OF _ R_operation [OF op]])
    qed
    then show "op_ok ?S op" using oko before kept_op(2) [OF op] by (simp add: op_ok_def)
  next
    fix e assume e: "e \<in> set (st_edits ?S)"
    then have "e \<in> set (st_edits S)" by (simp add: pruneUnpinned_def Let_def)
    then have "edit_ok (hashes S) e" using ok by (simp add: store_ok_def list_all_iff)
    then show "edit_ok (hashes ?S) e" unfolding edit_ok_def by (rule H [OF _ R_edit [OF e]])
  qed
qed

section \<open>Nothing is lost\<close>

lemma workspace_ok_turn:
  assumes w: "workspace_ok digest w" and k: "keeps digest (ws_store w) S" and A: "history_ok S A"
  shows "workspace_ok digest (w\<lparr>ws_store := S, ws_turns := jset t A (ws_turns w)\<rparr>)"
proof -
  have e: "extends (ws_store w) S" "store_ok digest S" "st_disk S = st_disk (ws_store w)" using k by (simp_all add: keeps_def)
  have "history_ok S B" if "(u, B) \<in> set (jset t A (ws_turns w))" for u B
  proof -
    have "(u, B) = (t, A) \<or> (u, B) \<in> set (ws_turns w)" using that set_jset by fastforce
    then show ?thesis using A w history_ok_mono [OF e(1)] by (auto simp: workspace_ok_def)
  qed
  then show ?thesis
    using w e running_ok_mono [OF e(1,3)] by (auto simp: workspace_ok_def split: option.splits)
qed

lemma workspace_ok_store:
  assumes w: "workspace_ok digest w" and k: "keeps digest (ws_store w) S" and ts: "set ts \<subseteq> set (ws_turns w)"
  shows "workspace_ok digest (w\<lparr>ws_store := S, ws_turns := ts\<rparr>)"
proof -
  have e: "extends (ws_store w) S" "store_ok digest S" "st_disk S = st_disk (ws_store w)" using k by (simp_all add: keeps_def)
  have "history_ok S B" if B: "(u, B) \<in> set ts" for u B
  proof -
    have "(u, B) \<in> set (ws_turns w)" using B ts by blast
    then have "history_ok (ws_store w) B" using w by (auto simp: workspace_ok_def)
    then show ?thesis by (rule history_ok_mono [OF e(1)])
  qed
  then show ?thesis
    using w e running_ok_mono [OF e(1,3)] by (auto simp: workspace_ok_def split: option.splits)
qed

lemma workspace_ok_progress:
  assumes w: "workspace_ok digest w" and p: "restores_on digest (ws_store w) ps"
  shows "workspace_ok digest (with_progress ps w)"
proof -
  obtain g S where ps: "ps = (g, S)" by force
  have e: "extends (ws_store w) S" "store_ok digest S" using p by (simp_all add: restores_on_def ps)
  have "\<forall>(t, A) \<in> set (ws_turns w). history_ok S A" using w history_ok_mono [OF e(1)] by (auto simp: workspace_ok_def)
  then show ?thesis using e p by (cases g) (simp_all add: with_progress_def workspace_ok_def ps restores_on_def)
qed

lemma workspace_step_ok: "workspace_step digest le retain w w' \<Longrightarrow> workspace_ok digest w \<Longrightarrow> workspace_ok digest w'"
proof (induction rule: workspace_step.induct)
  case (disk_changes w k d)
  define S where "S = (ws_store w)\<lparr>st_disk := d, st_fresh := st_fresh (ws_store w) + k\<rparr>"
  have g: "grown digest (ws_store w) S" by (simp add: S_def grown_def objects_ok_def)
  note e = grown_extends [OF g]
  have "store_ok digest S" using grown_store [OF g] disk_changes.prems by (simp add: workspace_ok_def)
  moreover have "\<forall>(t, A) \<in> set (ws_turns w). history_ok S A" using disk_changes.prems history_ok_mono [OF e] by (auto simp: workspace_ok_def)
  moreover have "running_ok digest S r" if "ws_restoring w = Some r" for r
  proof -
    have r: "running_ok digest (ws_store w) r" using disk_changes.prems that by (simp add: workspace_ok_def)
    then have "phase_ok digest (ws_store w) r" by (simp add: running_ok_def)
    moreover have "rr_phase r \<noteq> Replace" using disk_changes.hyps that by (simp add: replacing_def)
    ultimately have "phase_ok digest S r" using e by (cases "rr_phase r") (auto simp: phase_ok_def extends_def)
    moreover have "hashes (ws_store w) \<subseteq> hashes S" using e by (simp add: extends_def)
    ultimately show ?thesis using r op_ok_mono [OF e] ready_ok_mono unfolding running_ok_def by blast
  qed
  ultimately show ?case by (simp add: workspace_ok_def S_def split: option.split)
next
  case (branch_changes w n)
  have "grown digest (ws_store w) ((ws_store w)\<lparr>st_scope := n\<rparr>)" by (simp add: grown_def objects_ok_def)
  moreover have "store_ok digest (ws_store w)" using branch_changes by (simp add: workspace_ok_def)
  ultimately have "keeps digest (ws_store w) ((ws_store w)\<lparr>st_scope := n\<rparr>)" by (intro keeps_grown) simp_all
  from workspace_ok_store [OF branch_changes this subset_refl] show ?case by simp
next
  case (head_changes w p n)
  have "store_ok digest (ws_store w)" using head_changes by (simp add: workspace_ok_def)
  then have "keeps digest (ws_store w) (advance p n (ws_store w))"
    using advance_grown by (intro keeps_grown) (simp_all add: advance_def)
  from workspace_ok_store [OF head_changes this subset_refl] show ?case by simp
next
  case (begins w turnId now sessionId messages A S)
  have "store_ok digest (ws_store w)" using begins.prems by (simp add: workspace_ok_def)
  from begin_ok [OF begins.hyps(2) this] show ?case using workspace_ok_turn begins.prems by blast
next
  case (tracks w turnId A now unprotected p A' S)
  have "store_ok digest (ws_store w)" "history_ok (ws_store w) A"
    using tracks.prems tracks.hyps(1) by (auto simp: workspace_ok_def dest!: map_of_SomeD)
  from tracking_ok [OF tracks.hyps(2) this] show ?case using workspace_ok_turn tracks.prems by blast
next
  case (records w turnId A p written A' S)
  have "store_ok digest (ws_store w)" "history_ok (ws_store w) A"
    using records.prems records.hyps(1) by (auto simp: workspace_ok_def dest!: map_of_SomeD)
  from recording_ok [OF records.hyps(2) this] show ?case using workspace_ok_turn records.prems by blast
next
  case (edit_fails w turnId A p A' S)
  have "store_ok digest (ws_store w)" "history_ok (ws_store w) A"
    using edit_fails.prems edit_fails.hyps(1) by (auto simp: workspace_ok_def dest!: map_of_SomeD)
  from fail_ok [OF edit_fails.hyps(2) this] show ?case using workspace_ok_turn edit_fails.prems by blast
next
  case (finishes w turnId A now finished)
  have "store_ok digest (ws_store w)" "history_ok (ws_store w) A"
    using finishes.prems finishes.hyps(1) by (auto simp: workspace_ok_def dest!: map_of_SomeD)
  from publishing_ok [OF this] show ?case
    using workspace_ok_store [OF finishes.prems, of "publish le now finished A (ws_store w)" "jdelete turnId (ws_turns w)"]
    by (simp add: AList.delete_eq)
next
  case (previews now sessionId i scope mode ctx w plan S)
  have "store_ok digest (ws_store w)" using previews.prems by (simp add: workspace_ok_def)
  from preview_ok [OF previews.hyps this] show ?case using workspace_ok_store [OF previews.prems, of S "ws_turns w"] by simp
next
  case (previews_undo now sessionId i ctx w plan S)
  have "store_ok digest (ws_store w)" using previews_undo.prems by (simp add: workspace_ok_def)
  from undo_preview_ok [OF previews_undo.hyps this] show ?case using workspace_ok_store [OF previews_undo.prems, of S "ws_turns w"] by simp
next
  case (restores w now sessionId i selected)
  have "store_ok digest (ws_store w)" using restores.prems by (simp add: workspace_ok_def)
  from workspace_ok_progress [OF restores.prems starting_ok [OF this]] show ?case .
next
  case (goes_on w r)
  then have "restores_on digest (ws_store w) (restore_step digest r (ws_store w))" by (intro restore_step_ok) (simp_all add: workspace_ok_def)
  then show ?case using workspace_ok_progress goes_on.prems by blast
next
  case (dies w)
  then show ?case by (simp add: workspace_ok_def)
next
  case (prunes w now)
  then show ?case using prune_ok by (simp add: workspace_ok_def)
qed

lemma new_workspace_ok: "workspace_ok digest (new_workspace d)"
  by (simp add: new_workspace_def workspace_ok_def store_ok_def objects_ok_def)

interpretation workspace: transition_system "new_workspace d" "workspace_step digest le retain" "workspace_ok digest" for d digest le retain
  using new_workspace_ok workspace_step_ok by unfold_locales

definition held :: "(string \<Rightarrow> string) \<Rightarrow> checkpoint_store \<Rightarrow> fileVersion \<Rightarrow> bool" where
  "held digest S v \<longleftrightarrow> (case v of FileOf h _ _ _ _ \<Rightarrow> (\<exists>c. readObject digest h S = Inr c) | _ \<Rightarrow> True)"

text \<open>A restore can be undone: its record of the state before is there, with what it wrote over so far.\<close>

definition undoable :: "(string \<Rightarrow> string) \<Rightarrow> checkpoint_store \<Rightarrow> restore_operation \<Rightarrow> bool" where
  "undoable digest S op \<longleftrightarrow> (\<exists>b. readCheckpoint (ro_beforeId op) (rp_sessionId op) S = Inr b)
     \<and> list_all (\<lambda>f. pf_path f \<in> begun op \<longrightarrow> held digest S (pf_expected f)) (rp_files op)"

text \<open>A file that is about to be replaced.\<close>

definition replaced_held :: "(string \<Rightarrow> string) \<Rightarrow> workspace \<Rightarrow> bool" where
  "replaced_held digest w \<longleftrightarrow>
     (case ws_restoring w of
        Some r \<Rightarrow> (case (rr_phase r, rr_todo r) of
                     (Replace, f # _) \<Rightarrow> (\<exists>v. seeFile digest (pf_path f) (ws_store w) = Inr v \<and> held digest (ws_store w) v)
                   | _ \<Rightarrow> True)
      | None \<Rightarrow> True)"


end
