(* ===== verification/Spec2Isabelle.thy ===== *)
theory Spec2Isabelle
  imports ToolResults MessageProjection SnipCompaction PermissionRuntime CronRuns RouterExecute Assembler ToolScheduler ToolExecution BashSafety LoopHistory WorkspaceLeases SessionRouter Steering TranscriptReplay CheckpointSafety
begin

text \<open>
  Verification development of PilotDeck (\<open>src/src/\<close>), a runtime for coding agents in TypeScript.

  \<^bold>\<open>The program.\<close> A gateway keeps one session per key and gives it one turn at a time. A turn runs the agent
  loop: it projects the history, routes the request to a model, assembles the streamed answer, runs the tool calls of the
  answer under the permissions and hooks of the session, appends the results and goes on until an answer has no calls or a
  limit is reached. The history is compacted when it comes near the context window and is written entry by entry to a
  transcript from which a session is resumed. A cron runtime starts turns by itself.

  \<^bold>\<open>The theories\<close>, with the sources they translate. A definition has the name of its function where Isabelle
  allows it; its record or datatype has the source's fields and cases.

  \<^item> \<open>Prelude\<close>: JavaScript values, strings and insertion-ordered maps, lists sorted by a comparison, and the three
    locales of systems that move in steps: \<open>transition_system\<close> (an invariant of what is reachable), \<open>bounded_system\<close>
    (each step costs something) and \<open>terminating_system\<close> (and only final states are stuck).
  \<^item> Messages: \<open>Canonical\<close> (\<open>model/protocol\<close>), \<open>ToolPairing\<close> and \<open>ToolResults\<close> (calls and results belong together;
    \<open>context/compaction/toolPairIntegrity.ts\<close>, \<open>agent/loop\<close>), \<open>MessageProjection\<close> (\<open>context/projection\<close>, with the
    contract of the providers \<open>exchange_ok\<close>).
  \<^item> The context window: \<open>TokenBudget\<close> (\<open>context/budget\<close>, \<open>context/recovery\<close>), \<open>SnipCompaction\<close>, \<open>HeadTruncation\<close>
    (\<open>context/compaction\<close>), \<open>TokenCaps\<close> (output limits of the loop).
  \<^item> Models: \<open>RoutePlan\<close> and \<open>RouterExecute\<close> (\<open>router/RouterRuntime.ts\<close>: which model, and the attempts with retries
    and fallbacks), \<open>ProviderHealth\<close> (the circuit breaker), \<open>Caches\<close> (bounded maps), \<open>Assembler\<close> (\<open>model/streaming\<close>).
  \<^item> Tools: \<open>ToolRegistry\<close>, \<open>ToolNames\<close>, \<open>ToolSchema\<close>, \<open>ToolExecution\<close>, \<open>ToolScheduler\<close> (\<open>tool/\<close>), \<open>Hooks\<close>
    (\<open>extension/hooks\<close>), \<open>BashSafety\<close> (\<open>tool/builtin/bash\<close>), \<open>Paths\<close> (\<open>tool/builtin/filesystem\<close>), \<open>PlanTodo\<close>
    (\<open>agent/runtime\<close>).
  \<^item> Permissions: \<open>PermissionPolicy\<close>, \<open>PermissionRuntime\<close> (\<open>permission/\<close>).
  \<^item> The loop: \<open>LoopMessages\<close>, \<open>LargeFileRepair\<close>, \<open>AgentLoop\<close> (\<open>agent/loop\<close>), and three theories about it,
    \<open>LoopTrace\<close>, \<open>LoopTermination\<close> and \<open>LoopHistory\<close>.
  \<^item> Sessions: \<open>SessionRouter\<close> (\<open>gateway/SessionRouter.ts\<close>), \<open>Steering\<close> (\<open>agent/session\<close>, \<open>agent/turn\<close>),
    \<open>Transcript\<close> and \<open>TranscriptReplay\<close> (\<open>session/transcript\<close>), \<open>WorkspaceLeases\<close> (\<open>session/checkpoints\<close>),
    \<open>Checkpoints\<close> and, about it, \<open>CheckpointSafety\<close> (\<open>session/checkpoints/WorkspaceCheckpoints.ts\<close>).
  \<^item> Cron: \<open>CronSchedule\<close>, \<open>CronStore\<close>, \<open>CronRuns\<close> (\<open>cron/\<close>).
  \<^item> This theory composes them: what the router gives out is what the assembler builds the message from; what tools are
    called and answered with keeps the history acceptable; what runs in plan and ask mode only reads.

  \<^bold>\<open>How code is modelled.\<close> A function is a function. Asynchronous code is cut at its \<open>await\<close>s: the code between two of
  them is one step of an inductive relation on an explicit state, so every interleaving the event loop allows is a run
  (\<open>cron_step\<close>, \<open>sched_step\<close>, \<open>session_step\<close>, \<open>transcript_step\<close>, \<open>gateway_step\<close>, \<open>workspace_step\<close>). What a step needs from outside (the
  model, the tools, the user, the clock, the file system, \<open>JSON\<close>, \<open>Intl\<close>, the tokenizer, the grammar of the shell) is an
  argument, by the number of the call where answers may differ from call to call. A thrown error is \<open>Inl\<close> or \<open>None\<close>. The
  agent loop is a function from one pass to the next; its state records what it yields and calls, and the statements about
  traces read that record. Numbers that the code keeps as doubles are exact rationals or integers.

  \<^bold>\<open>What is shown.\<close> The lemmas of a theory go from its operations (\<open>..._ok\<close>: the invariant is kept) over the step
  relation to the interpretation of a locale, whose facts the properties rest on.

  \<^item> Reachable states: at most one run per cron task, one live session per key, conflicting leases are never held
    together, every piece of guidance is accounted for, a transcript survives crashes, no version a restore needs is lost,
    the concurrent scheduler does what the sequential one does (\<open>CronRuns\<close>, \<open>SessionRouter\<close>, \<open>WorkspaceLeases\<close>,
    \<open>Steering\<close>, \<open>Transcript\<close>, \<open>CheckpointSafety\<close>, \<open>ToolScheduler\<close>).
  \<^item> Refinement and equivalence: the router's breaker is a function of what was reported, the caches keep the most recent
    keys, the registry is a set of tools, the replay is the history read from the front, the leap-day search is the search
    through all minutes, the next run is the least one that matches.
  \<^item> Histories: projection, snip and emergency cut give what providers accept; the requests of a whole turn do.
  \<^item> Decisions: a deny rule wins, plan mode only reads, an allow rule covers a whole script, a tool runs only if every
    gate let it, an accepted write stays inside the workspace.
  \<^item> Ends: a turn ends, once, and within a bound; the scheduler, the router's attempts and the leases do not get stuck.

  \<^bold>\<open>Bounds and fuel.\<close> \<open>run_turn\<close> runs a given number of passes; \<open>turn_terminates\<close> gives 12870 for every turn of the
  limit: what a pass that goes on must use up takes one of 26 values for the recoveries a whole turn has (file repairs,
  compaction, corrected arguments), of 55 for those each executed call restores, of 9 for interruptions and unknown ends.
  \<open>overflow_never_ends\<close> shows that the one hypothesis about compaction is needed. \<open>findLongestPath\<close> takes the depth it
  may go to; \<open>cycle_never_ends\<close> shows that no depth is enough on a cycle. The search for the next run looks at the
  minutes of 366 days, as the code does. No other loop of the model has fuel.

  \<^bold>\<open>Not modelled.\<close> The wording of messages, telemetry, logging and display data. Processes, sockets, HTTP, and the
  providers' wire formats (\<open>model/providers\<close>, \<open>model/streaming/streamModel.ts\<close>): they do nothing but talk to services
  that are not part of the repository. The summarising compaction, title and discovery agents: their core is a prompt.
  Channels (\<open>adapters\<close>), command line, web server, desktop and browser interface, the memory service and its generated
  library: glue around the parts above. The manifest lists them one by one.
\<close>

section \<open>From the providers to the history\<close>

text \<open>Assembling reads only the content events.\<close>

lemma stream_atoms_contents: "stream_atoms (contents evs) = stream_atoms evs"
proof (induction evs)
  case (Cons e evs)
  then show ?case by (cases e) (simp_all add: contents_def)
qed (simp add: contents_def)

lemma stream_atoms_concat: "stream_atoms (concat (map (\<lambda>c. contents (f c)) cs)) = concat (map (\<lambda>c. stream_atoms (f c)) cs)"
  by (induction cs) (simp_all add: stream_atoms_contents)

text \<open>C19. What the user sees is what one provider said. The message assembled from the events the router gives
  out has exactly the text, the reasoning and the tool calls of the calls made, in order and once, whatever
  was retried, skipped, answered by a fallback or aborted on the way.\<close>

theorem routed_message_faithful:
  "case execute xc env plans t of
     (res, st) \<Rightarrow> content_atoms (content (am_message (assemble r (x_out st))))
                   = concat (map (\<lambda>c. stream_atoms (cr_events c)) (x_calls st))"
proof (cases "execute xc env plans t")
  case (Pair res st)
  have "content_atoms (content (am_message (assemble r (x_out st)))) = stream_atoms (x_out st)"
    by (rule assemble_correct(1))
  also have "\<dots> = stream_atoms (contents (x_out st))" by (simp add: stream_atoms_contents)
  also have "\<dots> = concat (map (\<lambda>c. stream_atoms (cr_events c)) (x_calls st))"
    by (simp add: execute_contents [OF Pair] stream_atoms_concat)
  finally show ?thesis by (simp add: Pair)
qed

text \<open>A conversation: what the user says, and the steps of the loop, each an assembled stream with the results
  an executor returned for its calls.\<close>

datatype turn_step = UserSays string | ModelStep "model_event list" "pd_result list"

definition step_messages ::
    "(js_value \<Rightarrow> string) \<Rightarrow> (pd_content \<Rightarrow> string) \<Rightarrow> (pd_result \<Rightarrow> js_value) \<Rightarrow> (tool_call \<Rightarrow> string \<Rightarrow> string \<times> js_value) \<Rightarrow> int \<Rightarrow> string
      \<Rightarrow> turn_step \<Rightarrow> message list" where
  "step_messages sf sc raw recovery now lost s =
     (case s of
        UserSays t \<Rightarrow> [plain_message User [text_block t]]
      | ModelStep evs results \<Rightarrow>
          (let m = am_message (assemble None evs)
           in case decideLoopContinuation m of
                Stop \<Rightarrow> [m]
              | Continue \<Rightarrow> m # projectToolResults sf sc raw
                  (ensureToolResultPairing recovery now lost (collectToolCalls (content m)) results)))"

definition conversation ::
    "(js_value \<Rightarrow> string) \<Rightarrow> (pd_content \<Rightarrow> string) \<Rightarrow> (pd_result \<Rightarrow> js_value) \<Rightarrow> (tool_call \<Rightarrow> string \<Rightarrow> string \<times> js_value) \<Rightarrow> int \<Rightarrow> string
      \<Rightarrow> turn_step list \<Rightarrow> message list" where
  "conversation sf sc raw recovery now lost steps = concat (map (step_messages sf sc raw recovery now lost) steps)"

definition unreferenced :: "message list \<Rightarrow> bool" where
  "unreferenced ms \<longleftrightarrow> (\<forall>m\<in>set ms. role m \<noteq> Assistant \<longrightarrow> (\<forall>b\<in>set (content m). \<not> isMediaReferenceWithId b))"

lemma unreferenced_media_ok: "unreferenced ms \<Longrightarrow> media_ok visible ms"
  by (simp add: unreferenced_def media_ok_def)

lemma supplemental_not_reference: "\<not> isMediaReferenceWithId (toCanonicalSupplementalBlock sf sc c)"
  by (cases c) auto

lemma projected_results_ok:
  assumes "set (map pr_toolCallId rs) = set opn"
  shows "exchange_ok opn (projectToolResults sf sc raw rs)"
proof -
  define sup where "sup = concat (map (\<lambda>r. case pr_supplementalMessages r of None \<Rightarrow> []
      | Some msgs \<Rightarrow> map (supplemental_message (toCanonicalSupplementalBlock sf sc) (pr_toolCallId r)) msgs) rs)"
  have "exchange_ok [] sup"
    by (rule exchange_ok_quiet) (auto simp: sup_def supplemental_message_def split: option.splits)
  then show ?thesis
    using assms by (simp add: projectToolResults_def sup_def results_message_ids filter_empty_conv)
qed

lemma projected_results_unreferenced: "unreferenced (projectToolResults sf sc raw rs)"
  by (auto simp: unreferenced_def projectToolResults_def supplemental_message_def supplemental_not_reference
      split: option.splits)

lemma step_messages_ok:
  "exchange_ok [] (step_messages sf sc raw recovery now lost s) \<and> unreferenced (step_messages sf sc raw recovery now lost s)"
proof (cases s)
  case (UserSays t)
  then show ?thesis by (simp add: step_messages_def unreferenced_def result_ids_def)
next
  case (ModelStep evs results)
  define m where "m = am_message (assemble None evs)"
  have m: "role m = Assistant" using assemble_correct(6) by (simp add: m_def)
  show ?thesis
  proof (cases "decideLoopContinuation m")
    case Stop
    then have "tool_call_ids (content m) = []"
      using ids_collectToolCalls [of "content m"] by (simp add: decideLoopContinuation_def split: if_splits)
    then show ?thesis using m Stop by (simp add: ModelStep step_messages_def m_def [symmetric] unreferenced_def Let_def)
  next
    case Continue
    let ?rs = "ensureToolResultPairing recovery now lost (collectToolCalls (content m)) results"
    have "map pr_toolCallId ?rs = tool_call_ids (content m)"
      by (simp add: ensureToolResultPairing_ids ids_collectToolCalls)
    then have "exchange_ok (tool_call_ids (content m)) (projectToolResults sf sc raw ?rs)"
      by (intro projected_results_ok) simp
    then show ?thesis
      using m Continue projected_results_unreferenced [of sf sc raw ?rs]
      by (simp add: ModelStep step_messages_def m_def [symmetric] unreferenced_def Let_def)
  qed
qed

lemma conversation_ok:
  "exchange_ok [] (conversation sf sc raw recovery now lost steps) \<and> unreferenced (conversation sf sc raw recovery now lost steps)"
proof (induction steps)
  case (Cons s steps)
  then show ?case
    using exchange_ok_append step_messages_ok [of sf sc raw recovery now lost s]
    by (auto simp: conversation_def unreferenced_def)
qed (simp add: conversation_def unreferenced_def)

text \<open>A history built by the loop needs no repair. Whatever the models streamed and the executors returned, a
  conversation of user texts and model steps satisfies the providers' contract, so the projector passes it on
  unchanged and without a warning.\<close>

lemma conversation_never_repaired:
  "exchange_ok [] (conversation sf sc raw recovery now lost steps)
   \<and> project (conversation sf sc raw recovery now lost steps) None
     = \<lparr>pj_messages = conversation sf sc raw recovery now lost steps, pj_droppedCount = 0, pj_warnings = []\<rparr>"
  using conversation_ok repair_from_id [OF _ unreferenced_media_ok]
  by (simp add: project_def repairToolResultPairing_def)

section \<open>Shell commands in restricted modes\<close>

text \<open>The world in which shell commands are judged on their syntax tree.\<close>

definition with_shell :: "bash_parser \<Rightarrow> exec_world \<Rightarrow> exec_world" where
  "with_shell parse w = w\<lparr>ew_readOnlyShell := isReadOnlyShellCommand parse\<rparr>"

text \<open>C18. The shell is held to reading in the restricted modes: in plan mode and in ask mode, whatever hooks and
  permission answers make of the input, the shell tool runs only on a script that parses without error, whose tree has at
  no depth a substitution, assignment, definition, condition, loop, background operator or redirect that writes a file,
  and whose every simple command, nested ones included, is a literal call of a listed program: one that shows something
  whatever its arguments (\<open>cat\<close>, \<open>date\<close>, \<open>echo\<close>, \<open>head\<close>, \<open>ls\<close>, \<open>printf\<close>, \<open>pwd\<close>, \<open>wc\<close>, \<open>whoami\<close> and their counterparts on
  Windows; \<open>date\<close> may also set the clock), \<open>git diff\<close>, \<open>log\<close>, \<open>show\<close> or \<open>status\<close> without options that run programs, move the
  repository or write the output, \<open>find\<close> without an action that deletes, writes or executes, \<open>sh -c\<close> that exits, or one
  such program through \<open>powershell\<close>.\<close>

theorem restricted_shell_only_reads:
  "runs_of (tool_runtime_execute (with_shell parse w) reg ctx requireSafe call)
      \<inter> {(n, y, d). n = ''bash'' \<and> (xc_permissionMode ctx = ModePlan \<or> xc_askRun ctx)}
    \<subseteq> {(n, y, d). \<exists>c. string_property y ''command'' = Some c \<and> reading_script parse c}"
proof (rule subsetI)
  fix z
  assume z: "z \<in> runs_of (tool_runtime_execute (with_shell parse w) reg ctx requireSafe call)
      \<inter> {(n, y, d). n = ''bash'' \<and> (xc_permissionMode ctx = ModePlan \<or> xc_askRun ctx)}"
  then obtain y d where zd: "z = (''bash'', y, d)" and mode: "xc_permissionMode ctx = ModePlan \<or> xc_askRun ctx"
      and run: "(''bash'', y, d) \<in> runs_of (tool_runtime_execute (with_shell parse w) reg ctx requireSafe call)"
    by (auto split: if_splits)
  obtain t where "(''bash'', y, d) \<in> runs_of (execute_tool (with_shell parse w)
      (withPlanDirectoryWorkspaceRoot (with_shell parse w) ctx) requireSafe (tc_id call) t (tc_input call))"
    using runs_runtime [OF run] by blast
  from runs_execute_tool [OF this] have t: "tool_name t = ''bash''" and "modes_permit (with_shell parse w) ctx t y"
    by (auto simp: may_run_def)
  then have "reads_only (with_shell parse w) y" using mode by (auto simp: modes_permit_def split: if_splits)
  then obtain c where "string_property y ''command'' = Some c" "isReadOnlyShellCommand parse c"
    by (auto simp: reads_only_def with_shell_def truthy_string_def split: option.splits if_splits)
  then have "string_property y ''command'' = Some c \<and> reading_script parse c" using classified_reads by blast
  then show "z \<in> {(n, y, d). \<exists>c. string_property y ''command'' = Some c \<and> reading_script parse c}"
    by (auto simp: zd)
qed

end
